(* ===== verification/Prelude.thy ===== *)
theory Prelude
  imports Main "HOL-Library.AList" "HOL-Library.Char_ord" "HOL-Library.List_Lexorder"
    "HOL-Library.Sublist"
begin

text \<open>
  What the components of the development share: the JavaScript string methods the sources
  call, the insertion-ordered \<open>Map\<close> of JavaScript as an interface with its association-list
  model, the two contracts of a state machine (an invariant, and an invariant with a measure
  that every step decreases), and a few facts on lists.

  A JavaScript string is a \<open>string\<close> of 8-bit characters: the model covers the strings whose
  code units are below 256, on which the methods below act unit by unit as in JavaScript. A
  literal of the sources with other characters (an arrow in a message) is written with the
  bytes of its UTF-8 encoding.
\<close>

section \<open>Strings\<close>

text \<open>\<open>s.toLowerCase()\<close> on code units below 256 (A to Z, and the Latin-1 capitals).\<close>

definition lower_char :: "char \<Rightarrow> char" where
  "lower_char c = (let n = (of_char c :: nat) in
     if (65 \<le> n \<and> n \<le> 90) \<or> (192 \<le> n \<and> n \<le> 222 \<and> n \<noteq> 215) then char_of (n + 32) else c)"

definition to_lower :: "string \<Rightarrow> string" where
  "to_lower s = map lower_char s"

definition starts_with :: "string \<Rightarrow> string \<Rightarrow> bool" where
  "starts_with s p \<longleftrightarrow> take (length p) s = p"

definition ends_with :: "string \<Rightarrow> string \<Rightarrow> bool" where
  "ends_with s p \<longleftrightarrow> length p \<le> length s \<and> drop (length s - length p) s = p"

fun contains :: "string \<Rightarrow> string \<Rightarrow> bool" where
  "contains [] p = (p = [])"
| "contains (c # s) p = (starts_with (c # s) p \<or> contains s p)"

text \<open>The two tests as they are evaluated, one character at a time.\<close>

fun prefix_eq :: "string \<Rightarrow> string \<Rightarrow> bool" where
  "prefix_eq s [] = True"
| "prefix_eq [] (c # p) = False"
| "prefix_eq (d # s) (c # p) = (if d = c then prefix_eq s p else False)"

lemma starts_with_code [code]: "starts_with s p = prefix_eq s p"
  by (induction s p rule: prefix_eq.induct) (simp_all add: starts_with_def)

lemma contains_code [code]:
  "contains [] p = (p = [])" "contains (c # s) p = (if prefix_eq (c # s) p then True else contains s p)"
  by (simp_all add: starts_with_code)

text \<open>The white space that \<open>trim\<close> removes, below code unit 256.\<close>

definition is_space :: "char \<Rightarrow> bool" where
  "is_space c = (let n = (of_char c :: nat) in (9 \<le> n \<and> n \<le> 13) \<or> n = 32 \<or> n = 160)"

definition trim :: "string \<Rightarrow> string" where
  "trim s = rev (dropWhile is_space (rev (dropWhile is_space s)))"

fun join :: "string \<Rightarrow> string list \<Rightarrow> string" where
  "join sep [] = []"
| "join sep [x] = x"
| "join sep (x # y # xs) = x @ sep @ join sep (y # xs)"

text \<open>The decimal digits of a natural number.\<close>

definition digit_char :: "nat \<Rightarrow> char" where
  "digit_char n = char_of (48 + n)"

fun show_nat :: "nat \<Rightarrow> string" where
  "show_nat n = (if n < 10 then [digit_char n] else show_nat (n div 10) @ [digit_char (n mod 10)])"

declare show_nat.simps [simp del]

definition show_int :: "int \<Rightarrow> string" where
  "show_int i = (if i < 0 then ''-'' @ show_nat (nat (- i)) else show_nat (nat i))"

definition digits_value :: "string \<Rightarrow> nat" where
  "digits_value s = foldl (\<lambda>a c. 10 * a + (of_char c - 48)) 0 s"

lemma digits_value_show [simp]: "digits_value (show_nat n) = n"
proof (induction n rule: show_nat.induct)
  case (1 n)
  show ?case
  proof (cases "n < 10")
    case True
    then show ?thesis by (simp add: show_nat.simps [of n] digits_value_def digit_char_def)
  next
    case False
    have "n mod 10 < 10" by simp
    then have "(of_char (digit_char (n mod 10)) :: nat) = 48 + n mod 10" by (simp add: digit_char_def)
    with 1 False show ?thesis
      by (simp add: show_nat.simps [of n] digits_value_def)
  qed
qed

lemma show_nat_inj [simp]: "show_nat m = show_nat n \<longleftrightarrow> m = n"
  by (metis digits_value_show)

lemma starts_with_iff: "starts_with s p \<longleftrightarrow> (\<exists>b. s = p @ b)"
  unfolding starts_with_def by (metis append_eq_conv_conj append_take_drop_id)

lemma contains_iff: "contains s p \<longleftrightarrow> (\<exists>a b. s = a @ p @ b)"
proof (induction s)
  case Nil
  then show ?case by auto
next
  case (Cons c s)
  show ?case
    by (auto simp: starts_with_iff Cons.IH) (metis append_Cons append_eq_Cons_conv)+
qed

lemma contains_append [intro]: "contains s p \<Longrightarrow> contains (a @ s @ b) p"
  unfolding contains_iff by (metis append.assoc)

lemma to_lower_append [simp]: "to_lower (a @ b) = to_lower a @ to_lower b"
  by (simp add: to_lower_def)

lemma contains_to_lower: "contains s p \<Longrightarrow> contains (to_lower s) (to_lower p)"
  unfolding contains_iff by force

lemma length_to_lower [simp]: "length (to_lower s) = length s"
  by (simp add: to_lower_def)

text \<open>A lowered string holds no capital letter, so it never contains a word with one.\<close>

definition is_capital :: "char \<Rightarrow> bool" where
  "is_capital c = (let n = (of_char c :: nat) in 65 \<le> n \<and> n \<le> 90)"

lemma lower_char_not_capital: "\<not> is_capital (lower_char c)"
proof -
  have "(of_char c :: nat) < 256" by simp
  then show ?thesis
    by (auto simp: is_capital_def lower_char_def Let_def)
qed

lemma to_lower_no_capital: "contains (to_lower s) p \<Longrightarrow> list_all (\<lambda>c. \<not> is_capital c) p"
proof -
  assume "contains (to_lower s) p"
  then obtain a b where "to_lower s = a @ p @ b" by (auto simp: contains_iff)
  then have "set p \<subseteq> set (to_lower s)" by auto
  moreover have "\<forall>c \<in> set (to_lower s). \<not> is_capital c"
    by (auto simp: to_lower_def lower_char_not_capital)
  ultimately show ?thesis by (auto simp: list_all_iff)
qed

lemma find_SomeD: "List.find P xs = Some x \<Longrightarrow> x \<in> set xs \<and> P x"
  by (auto simp: find_Some_iff)

section \<open>Outcomes\<close>

text \<open>
  How an operation on untyped data ends: it throws, it returns, or it goes on with a value whose shape
  is not the one that the source casts it to, which the model does not follow.\<close>

datatype 'a outcome_of = Throws string | Returns 'a | Outside

section \<open>The JavaScript Map\<close>

text \<open>
  The interface of \<open>Map\<close> that the sources rely on: \<open>get\<close>, \<open>set\<close>, \<open>delete\<close>, and the keys
  in insertion order. \<open>set\<close> on a present key keeps the key's position, on a new key appends it.
\<close>

locale js_map =
  fixes get :: "'m \<Rightarrow> 'k \<Rightarrow> 'v option"
    and put :: "'k \<Rightarrow> 'v \<Rightarrow> 'm \<Rightarrow> 'm"
    and remove :: "'k \<Rightarrow> 'm \<Rightarrow> 'm"
    and keys :: "'m \<Rightarrow> 'k list"
  assumes get_put: "get (put k v m) = (get m)(k \<mapsto> v)"
    and get_remove: "get (remove k m) = (get m)(k := None)"
    and keys_get: "set (keys m) = dom (get m)"
    and keys_put: "keys (put k v m) = (if k \<in> set (keys m) then keys m else keys m @ [k])"
    and keys_remove: "keys (remove k m) = filter (\<lambda>x. x \<noteq> k) (keys m)"
begin

lemma get_put_same [simp]: "get (put k v m) k = Some v"
  by (simp add: get_put)

lemma get_put_other [simp]: "k' \<noteq> k \<Longrightarrow> get (put k v m) k' = get m k'"
  by (simp add: get_put)

lemma has_iff: "k \<in> set (keys m) \<longleftrightarrow> get m k \<noteq> None"
  by (auto simp: keys_get)

lemma distinct_put: "distinct (keys m) \<Longrightarrow> distinct (keys (put k v m))"
  by (simp add: keys_put)

lemma distinct_remove: "distinct (keys m) \<Longrightarrow> distinct (keys (remove k m))"
  by (simp add: keys_remove)

lemma size_put: "length (keys (put k v m)) =
    (if get m k = None then Suc (length (keys m)) else length (keys m))"
  using has_iff [of k m] by (simp add: keys_put)

lemma size_remove: "distinct (keys m) \<Longrightarrow> length (keys (remove k m)) =
    (if get m k = None then length (keys m) else length (keys m) - 1)"
proof -
  assume d: "distinct (keys m)"
  have "length (filter (\<lambda>x. x \<noteq> k) (keys m)) = card (set (keys m) - {k})"
  proof -
    have "set (filter (\<lambda>x. x \<noteq> k) (keys m)) = set (keys m) - {k}" by auto
    then show ?thesis using d by (metis distinct_card distinct_filter)
  qed
  also have "\<dots> = (if k \<in> set (keys m) then length (keys m) - 1 else length (keys m))"
    using d by (simp add: distinct_card)
  finally show ?thesis by (simp add: keys_remove has_iff)
qed

end

text \<open>The model of a \<open>Map\<close>: an association list in insertion order.\<close>

type_synonym ('k, 'v) dict = "('k \<times> 'v) list"

definition dget :: "('k, 'v) dict \<Rightarrow> 'k \<Rightarrow> 'v option" where
  "dget m k = map_of m k"

definition dset :: "'k \<Rightarrow> 'v \<Rightarrow> ('k, 'v) dict \<Rightarrow> ('k, 'v) dict" where
  "dset k v m = AList.update k v m"

definition ddelete :: "'k \<Rightarrow> ('k, 'v) dict \<Rightarrow> ('k, 'v) dict" where
  "ddelete k m = AList.delete k m"

definition dkeys :: "('k, 'v) dict \<Rightarrow> 'k list" where
  "dkeys m = map fst m"

definition dhas :: "('k, 'v) dict \<Rightarrow> 'k \<Rightarrow> bool" where
  "dhas m k \<longleftrightarrow> dget m k \<noteq> None"

lemma dkeys_dset: "dkeys (dset k v m) = (if k \<in> set (dkeys m) then dkeys m else dkeys m @ [k])"
  by (induction m) (auto simp: dkeys_def dset_def)

interpretation dict: js_map dget dset ddelete dkeys
proof
  fix k :: 'k and v :: 'v and m :: "('k, 'v) dict"
  show "dget (dset k v m) = (dget m)(k \<mapsto> v)"
    by (rule ext) (simp add: dget_def dset_def update_conv)
  show "dget (ddelete k m) = (dget m)(k := None)"
    by (rule ext) (simp add: dget_def ddelete_def delete_conv)
  show "set (dkeys m) = dom (dget m)"
    by (simp add: dkeys_def dget_def [abs_def] dom_map_of_conv_image_fst)
  show "dkeys (dset k v m) = (if k \<in> set (dkeys m) then dkeys m else dkeys m @ [k])"
    by (rule dkeys_dset)
  show "dkeys (ddelete k m) = filter (\<lambda>x. x \<noteq> k) (dkeys m)"
    by (induction m) (auto simp: dkeys_def ddelete_def AList.delete_eq)
qed

lemmas dict_simps = dget_def dset_def ddelete_def dkeys_def dhas_def

lemma dget_Nil [simp]: "dget [] k = None"
  by (simp add: dget_def)

lemma dget_Cons: "dget ((k, v) # m) k' = (if k' = k then Some v else dget m k')"
  by (simp add: dget_def)

lemma length_dkeys [simp]: "length (dkeys m) = length m"
  by (simp add: dkeys_def)

section \<open>State machines\<close>

text \<open>
  The contract of a component with an invariant: the start states satisfy it and every step
  keeps it. The second locale adds a measure that every step decreases and a set of final
  states outside which a step is always possible; then every run ends in a final state.
\<close>

locale invariant_machine =
  fixes start :: "'s \<Rightarrow> bool"
    and step :: "'s \<Rightarrow> 's \<Rightarrow> bool"
    and inv :: "'s \<Rightarrow> bool"
  assumes inv_start: "start s \<Longrightarrow> inv s"
    and inv_step: "step s t \<Longrightarrow> inv s \<Longrightarrow> inv t"
begin

lemma inv_steps: "rtranclp step s t \<Longrightarrow> inv s \<Longrightarrow> inv t"
  by (induction rule: rtranclp_induct) (auto intro: inv_step)

lemma inv_reachable: "start s \<Longrightarrow> rtranclp step s t \<Longrightarrow> inv t"
  by (blast intro: inv_steps inv_start)

end

locale terminating_machine = invariant_machine start step inv
  for start :: "'s \<Rightarrow> bool" and step :: "'s \<Rightarrow> 's \<Rightarrow> bool" and inv :: "'s \<Rightarrow> bool" +
  fixes final :: "'s \<Rightarrow> bool"
    and work :: "'s \<Rightarrow> nat"
  assumes work_step: "step s t \<Longrightarrow> inv s \<Longrightarrow> work t < work s"
    and progress: "inv s \<Longrightarrow> \<not> final s \<Longrightarrow> \<exists>t. step s t"
begin

lemma run_bounded: "(step ^^ n) s t \<Longrightarrow> inv s \<Longrightarrow> n + work t \<le> work s"
proof (induction n arbitrary: t)
  case 0
  then show ?case by auto
next
  case (Suc n)
  from Suc.prems(1) obtain u where u: "(step ^^ n) s u" "step u t" by auto
  then have "inv u" using Suc.prems(2) inv_steps relpowp_imp_rtranclp by metis
  with u Suc.IH [OF u(1) Suc.prems(2)] work_step show ?case by force
qed

lemma reaches_final: "inv s \<Longrightarrow> \<exists>t. rtranclp step s t \<and> final t"
proof (induction "work s" arbitrary: s rule: less_induct)
  case less
  show ?case
  proof (cases "final s")
    case False
    with less.prems obtain u where u: "step s u" using progress by blast
    then obtain t where "rtranclp step u t" "final t"
      using less work_step inv_step by blast
    with u show ?thesis by (meson converse_rtranclp_into_rtranclp)
  qed auto
qed

lemma stuck_is_final: "start s \<Longrightarrow> rtranclp step s t \<Longrightarrow> \<not> (\<exists>u. step t u) \<Longrightarrow> final t"
  using inv_reachable progress by blast

end

end
