(* ===== verification/Core_Types.thy ===== *)
theory Core_Types
  imports Prelude
begin

text \<open>
  The types and static tables of \<open>src/src/core/types.ts\<close>: providers, roles, the model
  registry with its two look-ups, the role tables of the agent router, tasks and the
  orchestrator state. Timestamps are milliseconds, an optional field is an \<open>option\<close>.
\<close>

section \<open>Roles and providers\<close>

datatype TaskRole = Research | Planning | Execution | Verification

datatype ProviderId =
    OpencodeGo | AnthropicApi | GeminiApi | DeepseekV4 | Deepseek | Tavily | Gemini | MoonshotK25
  | MoonshotK26 | XiaomiMimo | Qwen35Plus | Qwen36Plus | MinimaxM25 | MinimaxM27 | GlmDeepinfra
  | GlmFireworks | GlmZai | Groq | KiroAi | Mistral | Openai | Carnice9bLocal | ClaudeCodeCli
  | CodexCli | GeminiCli

text \<open>The literal of the union type that each constructor stands for.\<close>

fun provider_name :: "ProviderId \<Rightarrow> string" where
  "provider_name OpencodeGo = ''opencode-go''"
| "provider_name AnthropicApi = ''anthropic-api''"
| "provider_name GeminiApi = ''gemini-api''"
| "provider_name DeepseekV4 = ''deepseek-v4''"
| "provider_name Deepseek = ''deepseek''"
| "provider_name Tavily = ''tavily''"
| "provider_name Gemini = ''gemini''"
| "provider_name MoonshotK25 = ''moonshot-k2.5''"
| "provider_name MoonshotK26 = ''moonshot-k2.6''"
| "provider_name XiaomiMimo = ''xiaomi-mimo''"
| "provider_name Qwen35Plus = ''qwen3.5-plus''"
| "provider_name Qwen36Plus = ''qwen3.6-plus''"
| "provider_name MinimaxM25 = ''minimax-m2.5''"
| "provider_name MinimaxM27 = ''minimax-m2.7''"
| "provider_name GlmDeepinfra = ''glm-deepinfra''"
| "provider_name GlmFireworks = ''glm-fireworks''"
| "provider_name GlmZai = ''glm-zai''"
| "provider_name Groq = ''groq''"
| "provider_name KiroAi = ''kiro-ai''"
| "provider_name Mistral = ''mistral''"
| "provider_name Openai = ''openai''"
| "provider_name Carnice9bLocal = ''carnice-9b-local''"
| "provider_name ClaudeCodeCli = ''claude-code-cli''"
| "provider_name CodexCli = ''codex-cli''"
| "provider_name GeminiCli = ''gemini-cli''"

fun role_name :: "TaskRole \<Rightarrow> string" where
  "role_name Research = ''research''"
| "role_name Planning = ''planning''"
| "role_name Execution = ''execution''"
| "role_name Verification = ''verification''"

section \<open>The model registry\<close>

record ModelCapability =
  mc_id :: ProviderId
  mc_name :: string
  mc_provider :: string
  bestFor :: "TaskRole list"
  strengths :: "string list"
  contextWindow :: nat
  supportsVision :: bool

definition MODELS_hosted :: "ModelCapability list" where
  "MODELS_hosted = [
   \<lparr>mc_id = DeepseekV4, mc_name = ''DeepSeek V4 Pro'',
    mc_provider = ''DeepSeek'', bestFor = [Execution, Verification],
    strengths = [''code generation'', ''reasoning'', ''debugging'', ''low latency''],
    contextWindow = 128000, supportsVision = False\<rparr>,
   \<lparr>mc_id = MoonshotK26, mc_name = ''Kimi K2.6'',
    mc_provider = ''Moonshot AI'', bestFor = [Execution, Planning],
    strengths = [''long context'', ''code generation'', ''reasoning''],
    contextWindow = 200000, supportsVision = True\<rparr>,
   \<lparr>mc_id = MoonshotK25, mc_name = ''Kimi K2.5'',
    mc_provider = ''Moonshot AI'', bestFor = [Execution, Planning],
    strengths = [''code generation'', ''reasoning''],
    contextWindow = 128000, supportsVision = True\<rparr>,
   \<lparr>mc_id = Qwen36Plus, mc_name = ''Qwen 3.6 Plus'',
    mc_provider = ''Alibaba Cloud'', bestFor = [Planning, Execution],
    strengths = [''code generation'', ''multilingual'', ''reasoning''],
    contextWindow = 131072, supportsVision = True\<rparr>,
   \<lparr>mc_id = Qwen35Plus, mc_name = ''Qwen 3.5 Plus'',
    mc_provider = ''Alibaba Cloud'', bestFor = [Planning, Execution],
    strengths = [''code generation'', ''cost-effective''],
    contextWindow = 32768, supportsVision = False\<rparr>,
   \<lparr>mc_id = MinimaxM27, mc_name = ''MiniMax M2.7'',
    mc_provider = ''MiniMax'', bestFor = [Execution, Planning],
    strengths = [''code generation'', ''reasoning''],
    contextWindow = 100000, supportsVision = False\<rparr>,
   \<lparr>mc_id = MinimaxM25, mc_name = ''MiniMax M2.5'',
    mc_provider = ''MiniMax'', bestFor = [Execution],
    strengths = [''code generation''],
    contextWindow = 100000, supportsVision = False\<rparr>,
   \<lparr>mc_id = XiaomiMimo, mc_name = ''Xiaomi MiMo V2'',
    mc_provider = ''Xiaomi'', bestFor = [Execution],
    strengths = [''code generation'', ''efficient''],
    contextWindow = 32768, supportsVision = False\<rparr>,
   \<lparr>mc_id = GlmDeepinfra, mc_name = ''GLM-5 via DeepInfra'',
    mc_provider = ''DeepInfra'', bestFor = [Planning],
    strengths = [''multilingual'', ''fast''],
    contextWindow = 128000, supportsVision = True\<rparr>,
   \<lparr>mc_id = GlmFireworks, mc_name = ''GLM-5 via Fireworks'',
    mc_provider = ''Fireworks AI'', bestFor = [Planning],
    strengths = [''multilingual'', ''fast''],
    contextWindow = 128000, supportsVision = True\<rparr>,
   \<lparr>mc_id = GlmZai, mc_name = ''GLM-5 via Z.ai'',
    mc_provider = ''Z.ai'', bestFor = [Planning],
    strengths = [''multilingual'', ''fast''],
    contextWindow = 128000, supportsVision = True\<rparr>,
   \<lparr>mc_id = Groq, mc_name = ''Groq (Llama 4 Maverick / Qwen 3)'',
    mc_provider = ''Groq'', bestFor = [Planning, Execution],
    strengths = [''ultra-low latency'', ''high throughput'', ''cost-effective'', ''openai-compatible''],
    contextWindow = 131072, supportsVision = False\<rparr>,
   \<lparr>mc_id = KiroAi, mc_name = ''Kiro AI (Claude Sonnet / DeepSeek / Qwen)'',
    mc_provider = ''Kiro AI'', bestFor = [Planning, Execution, Verification],
    strengths = [''free tier'', ''no auth required'', ''multiple models'', ''openai-compatible''],
    contextWindow = 200000, supportsVision = False\<rparr>
  ]"

definition MODELS_more :: "ModelCapability list" where
  "MODELS_more = [
   \<lparr>mc_id = Mistral, mc_name = ''Mistral Small Latest'',
    mc_provider = ''Mistral AI'', bestFor = [Execution, Planning],
    strengths = [''free tier available'', ''european'', ''openai-compatible''],
    contextWindow = 32000, supportsVision = False\<rparr>,
   \<lparr>mc_id = Openai, mc_name = ''OpenAI GPT-4o Mini'',
    mc_provider = ''OpenAI'', bestFor = [Execution, Verification],
    strengths = [''reliable'', ''cost-effective'', ''fast''],
    contextWindow = 128000, supportsVision = False\<rparr>,
   \<lparr>mc_id = Tavily, mc_name = ''Tavily Search API'',
    mc_provider = ''Tavily'', bestFor = [Research],
    strengths = [''real-time web search'', ''web extraction'', ''research'', ''up-to-date info'', ''AI-optimized''],
    contextWindow = 10000, supportsVision = False\<rparr>,
   \<lparr>mc_id = AnthropicApi, mc_name = ''Anthropic Claude'',
    mc_provider = ''Anthropic'', bestFor = [Execution, Planning, Verification],
    strengths = [''code generation'', ''reasoning'', ''long context''],
    contextWindow = 200000, supportsVision = True\<rparr>,
   \<lparr>mc_id = GeminiApi, mc_name = ''Google AI Studio'',
    mc_provider = ''Google'', bestFor = [Execution, Planning, Research],
    strengths = [''long context'', ''multimodal'', ''fast''],
    contextWindow = 1000000, supportsVision = True\<rparr>,
   \<lparr>mc_id = OpencodeGo, mc_name = ''OpenCode Go'',
    mc_provider = ''OpenCode'', bestFor = [Execution],
    strengths = [''code generation'', ''Anthropic Messages API compatible''],
    contextWindow = 128000, supportsVision = True\<rparr>,
   \<lparr>mc_id = Deepseek, mc_name = ''DeepSeek Coder'',
    mc_provider = ''DeepSeek'', bestFor = [Verification, Execution],
    strengths = [''code generation'', ''debugging''],
    contextWindow = 16384, supportsVision = False\<rparr>,
   \<lparr>mc_id = Gemini, mc_name = ''Gemini 2.0 Flash'',
    mc_provider = ''Google'', bestFor = [Planning, Research],
    strengths = [''fast'', ''multimodal'', ''grounding''],
    contextWindow = 1000000, supportsVision = True\<rparr>,
   \<lparr>mc_id = Carnice9bLocal, mc_name = ''Carnice-9b (local Hermes/Qwen3.5)'',
    mc_provider = ''Local GPU (llama.cpp)'', bestFor = [Execution, Verification],
    strengths = [''local inference'', ''zero cost'', ''tool calling (Hermes format)'', ''private'', ''offline-capable''],
    contextWindow = 4096, supportsVision = False\<rparr>,
   \<lparr>mc_id = ClaudeCodeCli, mc_name = ''Claude Code CLI (Anthropic subscription)'',
    mc_provider = ''Anthropic (via @anthropic-ai/claude-code)'', bestFor = [Planning, Execution, Verification],
    strengths = [''code generation'', ''long context'', ''tool use'', ''subscription-based (no API key)''],
    contextWindow = 200000, supportsVision = True\<rparr>,
   \<lparr>mc_id = CodexCli, mc_name = ''Codex CLI (OpenAI subscription)'',
    mc_provider = ''OpenAI (via @openai/codex)'', bestFor = [Execution, Planning],
    strengths = [''code generation'', ''fast iteration'', ''subscription-based (no API key)''],
    contextWindow = 128000, supportsVision = True\<rparr>,
   \<lparr>mc_id = GeminiCli, mc_name = ''Gemini CLI (Google subscription)'',
    mc_provider = ''Google (via @google/gemini-cli)'', bestFor = [Verification, Research, Planning],
    strengths = [''verification / audit'', ''web search integration'', ''multimodal'', ''subscription-based (no API key)''],
    contextWindow = 1000000, supportsVision = True\<rparr>
  ]"

definition MODELS :: "ModelCapability list" where
  "MODELS = MODELS_hosted @ MODELS_more"

definition getModelById :: "ProviderId \<Rightarrow> ModelCapability option" where
  "getModelById i = find (\<lambda>m. mc_id m = i) MODELS"

text \<open>
  \<open>filter(...).sort((a, b) => b.contextWindow - a.contextWindow)\<close>: the sort of JavaScript
  is stable, and so is \<open>sort_key\<close>.
\<close>

definition getBestModelsForRole :: "TaskRole \<Rightarrow> ModelCapability list" where
  "getBestModelsForRole r =
     sort_key (\<lambda>m. - int (contextWindow m)) (filter (\<lambda>m. r \<in> set (bestFor m)) MODELS)"

section \<open>The role tables\<close>

fun ROLE_TO_PROVIDER :: "TaskRole \<Rightarrow> ProviderId" where
  "ROLE_TO_PROVIDER Research = Tavily"
| "ROLE_TO_PROVIDER Planning = ClaudeCodeCli"
| "ROLE_TO_PROVIDER Execution = ClaudeCodeCli"
| "ROLE_TO_PROVIDER Verification = GeminiCli"

fun ROLE_FALLBACK_ORDER :: "TaskRole \<Rightarrow> ProviderId list" where
  "ROLE_FALLBACK_ORDER Research =
    [Tavily, GeminiCli, ClaudeCodeCli, Gemini, GeminiApi, AnthropicApi, MoonshotK26, Groq,
     Qwen36Plus]"
| "ROLE_FALLBACK_ORDER Planning =
    [ClaudeCodeCli, CodexCli, GeminiCli, OpencodeGo, Groq, AnthropicApi, GeminiApi,
     MoonshotK26, Qwen36Plus, MoonshotK25, Qwen35Plus, KiroAi, Deepseek, Mistral]"
| "ROLE_FALLBACK_ORDER Execution =
    [ClaudeCodeCli, CodexCli, GeminiCli, OpencodeGo, Groq, AnthropicApi, DeepseekV4,
     MoonshotK26, MinimaxM27, Qwen36Plus, KiroAi, Deepseek, Mistral, Openai, Carnice9bLocal]"
| "ROLE_FALLBACK_ORDER Verification =
    [GeminiCli, CodexCli, ClaudeCodeCli, OpencodeGo, Groq, AnthropicApi, GeminiApi,
     DeepseekV4, MoonshotK26, KiroAi, Deepseek, Openai, Carnice9bLocal]"

section \<open>Tasks, events, state\<close>

datatype TaskStatus = Pending | In_progress | Completed | Failed

record Task =
  task_id :: string
  task_role :: "TaskRole option"
  task_description :: string
  task_status :: TaskStatus
  createdAt :: nat
  updatedAt :: nat

datatype EventSeverity = Info | Warning | Error

fun severity_name :: "EventSeverity \<Rightarrow> string" where
  "severity_name Info = ''info''"
| "severity_name Warning = ''warning''"
| "severity_name Error = ''error''"

datatype ProviderErrorClass = AUTH_FAILURE | RATE_LIMIT | NETWORK | MODEL_ERROR

datatype OrchestratorStatus = Idle | Running | Paused | Errored

record OrchestratorState =
  currentTaskId :: "string option"
  tasks :: "Task list"
  orch_status :: OrchestratorStatus
  lastError :: "string option"
  failedProviderTimestamps :: "(string, nat) dict option"

section \<open>Facts about the tables\<close>

lemma MODELS_ids: "map mc_id MODELS = [
    DeepseekV4, MoonshotK26, MoonshotK25, Qwen36Plus, Qwen35Plus, MinimaxM27, MinimaxM25,
     XiaomiMimo, GlmDeepinfra, GlmFireworks, GlmZai, Groq, KiroAi, Mistral, Openai, Tavily,
     AnthropicApi, GeminiApi, OpencodeGo, Deepseek, Gemini, Carnice9bLocal, ClaudeCodeCli,
     CodexCli, GeminiCli]"
  by (simp add: MODELS_def MODELS_hosted_def MODELS_more_def)

lemma distinct_MODELS_ids: "distinct (map mc_id MODELS)"
  by (simp add: MODELS_ids)

lemma provider_in_MODELS: "p \<in> mc_id ` set MODELS"
proof -
  have "p \<in> set (map mc_id MODELS)" by (cases p) (simp_all add: MODELS_ids)
  then show ?thesis by simp
qed

lemma getModelById_Some: "\<exists>m. getModelById p = Some m \<and> mc_id m = p \<and> m \<in> set MODELS"
proof -
  from provider_in_MODELS [of p] have "\<exists>m \<in> set MODELS. mc_id m = p" by auto
  then show ?thesis unfolding getModelById_def
    by (metis (mono_tags, lifting) find_None_iff2 find_Some_iff nth_mem option.exhaust_sel option.simps(3))
qed

definition provider_list :: "ProviderId list" where
  "provider_list = [OpencodeGo, AnthropicApi, GeminiApi, DeepseekV4, Deepseek, Tavily, Gemini,
    MoonshotK25, MoonshotK26, XiaomiMimo, Qwen35Plus, Qwen36Plus, MinimaxM25, MinimaxM27,
    GlmDeepinfra, GlmFireworks, GlmZai, Groq, KiroAi, Mistral, Openai,
    Carnice9bLocal, ClaudeCodeCli, CodexCli, GeminiCli]"

lemma provider_of_name: "map_of (map (\<lambda>p. (provider_name p, p)) provider_list) (provider_name p) = Some p"
  by (cases p) (simp_all add: provider_list_def)

lemma provider_name_inj: "inj provider_name"
  by (rule injI) (metis option.inject provider_of_name)

lemma distinct_ROLE_FALLBACK_ORDER: "distinct (ROLE_FALLBACK_ORDER r)"
  by (cases r) simp_all

end
