(* ===== verification/Capability_Manifest.thy ===== *)
theory Capability_Manifest
  imports Core_Types Complex_Main
begin

text \<open>
  \<open>src/src/core/capability-manifest.ts\<close>: the static scores of the providers per task type,
  the ranking and the selection of the agent router. A score is a decimal literal of the
  source; the code compares scores and never computes with them, so their order is that of
  the exact decimals, which are kept as rational numbers.
\<close>

section \<open>The manifest\<close>

datatype TaskType = TResearch | TPlanning | TCodegen | TDebugging | TVerification

record TypeScores =
  sc_research :: rat
  sc_planning :: rat
  sc_codegen :: rat
  sc_debugging :: rat
  sc_verification :: rat

record ProviderCapability =
  cap_provider :: ProviderId
  cap_scores :: TypeScores
  sources :: "string list"
  lastUpdated :: string

fun score_at :: "TypeScores \<Rightarrow> TaskType \<Rightarrow> rat" where
  "score_at s TResearch = sc_research s"
| "score_at s TPlanning = sc_planning s"
| "score_at s TCodegen = sc_codegen s"
| "score_at s TDebugging = sc_debugging s"
| "score_at s TVerification = sc_verification s"

definition MANIFEST_base :: "ProviderCapability list" where
  "MANIFEST_base = [
   \<lparr>cap_provider = Groq,
    cap_scores = \<lparr>sc_research = 0.6, sc_planning = 0.85, sc_codegen = 0.9,
      sc_debugging = 0.85, sc_verification = 0.8\<rparr>,
    sources = [''HumanEval'', ''MBPP'', ''internal-eval''], lastUpdated = ''2026-05-01''\<rparr>,
   \<lparr>cap_provider = KiroAi,
    cap_scores = \<lparr>sc_research = 0.7, sc_planning = 0.8, sc_codegen = 0.75,
      sc_debugging = 0.7, sc_verification = 0.6\<rparr>,
    sources = [''community-eval'', ''CLAUDE-benchmarks''], lastUpdated = ''2026-05-01''\<rparr>,
   \<lparr>cap_provider = Deepseek,
    cap_scores = \<lparr>sc_research = 0.65, sc_planning = 0.8, sc_codegen = 0.9,
      sc_debugging = 0.85, sc_verification = 0.8\<rparr>,
    sources = [''SWE-bench'', ''HumanEval'', ''LiveCodeBench''], lastUpdated = ''2026-05-01''\<rparr>,
   \<lparr>cap_provider = DeepseekV4,
    cap_scores = \<lparr>sc_research = 0.7, sc_planning = 0.85, sc_codegen = 0.92,
      sc_debugging = 0.88, sc_verification = 0.82\<rparr>,
    sources = [''SWE-bench'', ''HumanEval'', ''LiveCodeBench''], lastUpdated = ''2026-05-01''\<rparr>,
   \<lparr>cap_provider = Mistral,
    cap_scores = \<lparr>sc_research = 0.6, sc_planning = 0.7, sc_codegen = 0.75,
      sc_debugging = 0.7, sc_verification = 0.65\<rparr>,
    sources = [''HumanEval'', ''MBPP'', ''community-eval''], lastUpdated = ''2026-05-01''\<rparr>,
   \<lparr>cap_provider = Openai,
    cap_scores = \<lparr>sc_research = 0.7, sc_planning = 0.85, sc_codegen = 0.85,
      sc_debugging = 0.8, sc_verification = 0.85\<rparr>,
    sources = [''SWE-bench'', ''HumanEval'', ''MBPP''], lastUpdated = ''2026-05-01''\<rparr>,
   \<lparr>cap_provider = Gemini,
    cap_scores = \<lparr>sc_research = 0.75, sc_planning = 0.8, sc_codegen = 0.82,
      sc_debugging = 0.78, sc_verification = 0.75\<rparr>,
    sources = [''HumanEval'', ''MBPP'', ''BigCodeBench''], lastUpdated = ''2026-05-01''\<rparr>,
   \<lparr>cap_provider = Tavily,
    cap_scores = \<lparr>sc_research = 0.95, sc_planning = 0.3, sc_codegen = 0.1,
      sc_debugging = 0.1, sc_verification = 0.4\<rparr>,
    sources = [''internal-eval''], lastUpdated = ''2026-05-01''\<rparr>,
   \<lparr>cap_provider = OpencodeGo,
    cap_scores = \<lparr>sc_research = 0.55, sc_planning = 0.75, sc_codegen = 0.88,
      sc_debugging = 0.82, sc_verification = 0.78\<rparr>,
    sources = [''HumanEval'', ''MBPP''], lastUpdated = ''2026-05-01''\<rparr>,
   \<lparr>cap_provider = MoonshotK26,
    cap_scores = \<lparr>sc_research = 0.7, sc_planning = 0.85, sc_codegen = 0.88,
      sc_debugging = 0.84, sc_verification = 0.8\<rparr>,
    sources = [''HumanEval'', ''LiveCodeBench''], lastUpdated = ''2026-05-01''\<rparr>,
   \<lparr>cap_provider = Qwen36Plus,
    cap_scores = \<lparr>sc_research = 0.65, sc_planning = 0.8, sc_codegen = 0.85,
      sc_debugging = 0.8, sc_verification = 0.75\<rparr>,
    sources = [''HumanEval'', ''MBPP'', ''SWE-bench''], lastUpdated = ''2026-05-01''\<rparr>,
   \<lparr>cap_provider = AnthropicApi,
    cap_scores = \<lparr>sc_research = 0.8, sc_planning = 0.95, sc_codegen = 0.97,
      sc_debugging = 0.95, sc_verification = 0.93\<rparr>,
    sources = [''community-eval''], lastUpdated = ''2026-05-02''\<rparr>
  ]"

definition MANIFEST_more :: "ProviderCapability list" where
  "MANIFEST_more = [
   \<lparr>cap_provider = GeminiApi,
    cap_scores = \<lparr>sc_research = 0.85, sc_planning = 0.9, sc_codegen = 0.92,
      sc_debugging = 0.88, sc_verification = 0.87\<rparr>,
    sources = [''community-eval''], lastUpdated = ''2026-05-02''\<rparr>,
   \<lparr>cap_provider = MoonshotK25,
    cap_scores = \<lparr>sc_research = 0.7, sc_planning = 0.82, sc_codegen = 0.88,
      sc_debugging = 0.82, sc_verification = 0.78\<rparr>,
    sources = [''community-eval''], lastUpdated = ''2026-05-02''\<rparr>,
   \<lparr>cap_provider = MinimaxM25,
    cap_scores = \<lparr>sc_research = 0.65, sc_planning = 0.78, sc_codegen = 0.82,
      sc_debugging = 0.78, sc_verification = 0.72\<rparr>,
    sources = [''community-eval''], lastUpdated = ''2026-05-02''\<rparr>,
   \<lparr>cap_provider = MinimaxM27,
    cap_scores = \<lparr>sc_research = 0.68, sc_planning = 0.82, sc_codegen = 0.86,
      sc_debugging = 0.82, sc_verification = 0.76\<rparr>,
    sources = [''community-eval''], lastUpdated = ''2026-05-02''\<rparr>,
   \<lparr>cap_provider = XiaomiMimo,
    cap_scores = \<lparr>sc_research = 0.55, sc_planning = 0.65, sc_codegen = 0.72,
      sc_debugging = 0.68, sc_verification = 0.62\<rparr>,
    sources = [''community-eval''], lastUpdated = ''2026-05-02''\<rparr>,
   \<lparr>cap_provider = GlmDeepinfra,
    cap_scores = \<lparr>sc_research = 0.6, sc_planning = 0.72, sc_codegen = 0.78,
      sc_debugging = 0.72, sc_verification = 0.68\<rparr>,
    sources = [''community-eval''], lastUpdated = ''2026-05-02''\<rparr>,
   \<lparr>cap_provider = GlmFireworks,
    cap_scores = \<lparr>sc_research = 0.6, sc_planning = 0.72, sc_codegen = 0.78,
      sc_debugging = 0.72, sc_verification = 0.68\<rparr>,
    sources = [''community-eval''], lastUpdated = ''2026-05-02''\<rparr>,
   \<lparr>cap_provider = GlmZai,
    cap_scores = \<lparr>sc_research = 0.6, sc_planning = 0.72, sc_codegen = 0.78,
      sc_debugging = 0.72, sc_verification = 0.68\<rparr>,
    sources = [''community-eval''], lastUpdated = ''2026-05-02''\<rparr>,
   \<lparr>cap_provider = Qwen35Plus,
    cap_scores = \<lparr>sc_research = 0.68, sc_planning = 0.82, sc_codegen = 0.87,
      sc_debugging = 0.83, sc_verification = 0.78\<rparr>,
    sources = [''community-eval''], lastUpdated = ''2026-05-02''\<rparr>,
   \<lparr>cap_provider = ClaudeCodeCli,
    cap_scores = \<lparr>sc_research = 0.78, sc_planning = 0.94, sc_codegen = 0.93,
      sc_debugging = 0.92, sc_verification = 0.92\<rparr>,
    sources = [''anthropic-claude-sonnet-4'', ''subscription-no-key''], lastUpdated = ''2026-05-12''\<rparr>,
   \<lparr>cap_provider = CodexCli,
    cap_scores = \<lparr>sc_research = 0.75, sc_planning = 0.9, sc_codegen = 0.91,
      sc_debugging = 0.88, sc_verification = 0.86\<rparr>,
    sources = [''openai-gpt-4o'', ''subscription-no-key''], lastUpdated = ''2026-05-12''\<rparr>,
   \<lparr>cap_provider = GeminiCli,
    cap_scores = \<lparr>sc_research = 0.82, sc_planning = 0.87, sc_codegen = 0.83,
      sc_debugging = 0.82, sc_verification = 0.9\<rparr>,
    sources = [''google-gemini-2.x'', ''subscription-no-key''], lastUpdated = ''2026-05-12''\<rparr>
  ]"

definition CAPABILITY_MANIFEST :: "ProviderCapability list" where
  "CAPABILITY_MANIFEST = MANIFEST_base @ MANIFEST_more"

section \<open>Look-up, ranking, selection\<close>

definition getProviderCapability :: "ProviderId \<Rightarrow> ProviderCapability option" where
  "getProviderCapability p = find (\<lambda>c. cap_provider c = p) CAPABILITY_MANIFEST"

definition getCapabilityScore :: "ProviderId \<Rightarrow> TaskType \<Rightarrow> rat" where
  "getCapabilityScore p t =
     (case find (\<lambda>c. cap_provider c = p) CAPABILITY_MANIFEST of
        Some c \<Rightarrow> score_at (cap_scores c) t | None \<Rightarrow> 0.5)"

text \<open>\<open>map\<close>, \<open>filter\<close>, then the stable sort by \<open>b.score - a.score\<close>.\<close>

definition rankProvidersForTask :: "TaskType \<Rightarrow> rat \<Rightarrow> (ProviderId \<times> rat) list" where
  "rankProvidersForTask t minScore =
     sort_key (\<lambda>(p, s). - s)
       (filter (\<lambda>(p, s). minScore \<le> s)
         (map (\<lambda>c. (cap_provider c, score_at (cap_scores c) t)) CAPABILITY_MANIFEST))"

definition selectBestProvider :: "ProviderId list \<Rightarrow> TaskType \<Rightarrow> ProviderId option" where
  "selectBestProvider availableProviders t =
     find (\<lambda>p. p \<in> set availableProviders) (map fst (rankProvidersForTask t 0))"

fun roleToTaskType :: "TaskRole \<Rightarrow> TaskType" where
  "roleToTaskType Research = TResearch"
| "roleToTaskType Planning = TPlanning"
| "roleToTaskType Execution = TCodegen"
| "roleToTaskType Verification = TVerification"

section \<open>Facts\<close>

lemmas manifest_defs = CAPABILITY_MANIFEST_def MANIFEST_base_def MANIFEST_more_def

lemma manifest_ids: "map cap_provider CAPABILITY_MANIFEST =
   [Groq, KiroAi, Deepseek, DeepseekV4, Mistral, Openai, Gemini,
    Tavily, OpencodeGo, MoonshotK26, Qwen36Plus, AnthropicApi, GeminiApi, MoonshotK25,
    MinimaxM25, MinimaxM27, XiaomiMimo, GlmDeepinfra, GlmFireworks, GlmZai, Qwen35Plus,
    ClaudeCodeCli, CodexCli, GeminiCli]"
  by (simp add: manifest_defs)

lemma distinct_manifest: "distinct (map cap_provider CAPABILITY_MANIFEST)"
  by (simp add: manifest_ids)

lemma not_in_manifest: "p \<notin> cap_provider ` set CAPABILITY_MANIFEST \<longleftrightarrow> p = Carnice9bLocal"
  unfolding list.set_map [symmetric] manifest_ids by (cases p) simp_all

lemma manifest_scores_nonneg:
  "c \<in> set CAPABILITY_MANIFEST \<Longrightarrow> 0 \<le> score_at (cap_scores c) t"
proof -
  have "list_all (\<lambda>c. 0 \<le> score_at (cap_scores c) t) CAPABILITY_MANIFEST"
    by (cases t) (simp_all add: manifest_defs)
  then show "c \<in> set CAPABILITY_MANIFEST \<Longrightarrow> ?thesis" by (simp add: list_all_iff)
qed

lemma find_distinct_key:
  "distinct (map f xs) \<Longrightarrow> x \<in> set xs \<Longrightarrow> find (\<lambda>y. f y = f x) xs = Some x"
  by (induction xs) auto

lemma capability_score_entry:
  "c \<in> set CAPABILITY_MANIFEST \<Longrightarrow>
     getCapabilityScore (cap_provider c) t = score_at (cap_scores c) t"
  using find_distinct_key [OF distinct_manifest]
  by (simp add: getCapabilityScore_def)

lemma set_rank:
  "set (rankProvidersForTask t 0) =
     (\<lambda>c. (cap_provider c, score_at (cap_scores c) t)) ` set CAPABILITY_MANIFEST"
  unfolding rankProvidersForTask_def
  by (auto simp: manifest_scores_nonneg)

lemma sorted_rank: "sorted_wrt (\<lambda>x y. snd y \<le> snd x) (rankProvidersForTask t m)"
proof -
  have "sorted (map (\<lambda>(p, s). - s) (rankProvidersForTask t m))"
    unfolding rankProvidersForTask_def by (rule sorted_sort_key)
  then show ?thesis
    by (simp add: sorted_map case_prod_beta)
qed

text \<open>In a list sorted downwards, the first entry that qualifies has the largest score of them.\<close>

lemma find_sorted_max:
  assumes "sorted_wrt (\<lambda>x y. snd y \<le> snd x) xs"
    and "find P (map fst xs) = Some p"
  shows "\<exists>s. (p, s) \<in> set xs \<and> P p \<and> (\<forall>(q, s') \<in> set xs. P q \<longrightarrow> s' \<le> (s :: rat))"
  using assms
proof (induction xs)
  case (Cons x xs)
  obtain q s where x: "x = (q, s)" by force
  show ?case
  proof (cases "P q")
    case True
    with Cons.prems x have "p = q" "\<forall>y \<in> set xs. snd y \<le> s" by auto
    with True x show ?thesis by (intro exI [of _ s]) auto
  next
    case False
    with Cons x show ?thesis by auto
  qed
qed simp

lemma rank_snd: "(p, s) \<in> set (rankProvidersForTask t 0) \<Longrightarrow> s = getCapabilityScore p t"
  by (auto simp: set_rank capability_score_entry)

lemma in_rank_iff:
  "p \<in> fst ` set (rankProvidersForTask t 0) \<longleftrightarrow> p \<noteq> Carnice9bLocal"
  using not_in_manifest [of p] by (auto simp: set_rank image_iff)

text \<open>
  What \<open>selectBestProvider\<close> returns is available, is in the manifest, and no available
  provider of the manifest scores higher for the task type.\<close>

theorem select_best_max:
  assumes "selectBestProvider av t = Some p"
  shows "p \<in> set av \<and> p \<noteq> Carnice9bLocal \<and>
    (\<forall>q \<in> set av. q = Carnice9bLocal \<or> getCapabilityScore q t \<le> getCapabilityScore p t)"
proof -
  from find_sorted_max [OF sorted_rank assms [unfolded selectBestProvider_def]] obtain s
    where s: "(p, s) \<in> set (rankProvidersForTask t 0)" "p \<in> set av"
      and max: "\<forall>(q, s') \<in> set (rankProvidersForTask t 0). q \<in> set av \<longrightarrow> s' \<le> s" by blast
  have "getCapabilityScore q t \<le> getCapabilityScore p t"
    if "q \<in> set av" "q \<noteq> Carnice9bLocal" for q
    using that in_rank_iff [of q t] max rank_snd s(1) by fastforce
  with s in_rank_iff [of p t] show ?thesis by force
qed

theorem select_best_max_witness:
  "selectBestProvider [Tavily, Groq, AnthropicApi, Carnice9bLocal] TCodegen = Some AnthropicApi \<and>
   AnthropicApi \<in> set [Tavily, Groq, AnthropicApi, Carnice9bLocal] \<and>
   getCapabilityScore Groq TCodegen \<le> getCapabilityScore AnthropicApi TCodegen"
proof -
  have e: "selectBestProvider [Tavily, Groq, AnthropicApi, Carnice9bLocal] TCodegen = Some AnthropicApi"
    by code_simp
  from select_best_max [OF e] e show ?thesis by simp
qed

lemma select_best_None: "selectBestProvider av t = None \<longleftrightarrow> set av \<subseteq> {Carnice9bLocal}"
proof -
  have "selectBestProvider av t = None \<longleftrightarrow>
      (\<forall>q \<in> fst ` set (rankProvidersForTask t 0). q \<notin> set av)"
    by (simp add: selectBestProvider_def find_None_iff)
  then show ?thesis by (metis in_rank_iff insertCI singletonD subsetD subsetI)
qed

end
