(* ===== verification/Js_Number.thy ===== *)
theory Js_Number
  imports Complex_Main
begin

text \<open>
  The arithmetic of JavaScript numbers (IEEE 754 binary64, round to nearest, ties to even) on
  rational numbers: \<open>flt x\<close> is the double nearest to \<open>x\<close>, and an operation of the source is
  the exact operation followed by \<open>flt\<close>. A decimal literal \<open>d\<close> of the source is \<open>flt d\<close>.

  The exponent range is not bounded: overflow to infinity and the subnormal numbers are left
  out. The values the components compute with (risk scores, costs in cents, percentages) are
  far inside the range of the normal numbers.
\<close>

section \<open>Rounding\<close>

text \<open>\<open>binexp x\<close> is the exponent of a positive \<open>x\<close>: \<open>2 ^ binexp x \<le> x < 2 ^ (binexp x + 1)\<close>.\<close>

function binexp :: "rat \<Rightarrow> int" where
  "binexp x = (if 2 \<le> x then binexp (x / 2) + 1
               else if 0 < x \<and> x < 1 then binexp (x * 2) - 1 else 0)"
  by pat_completeness auto
termination
proof (relation "measure (\<lambda>x. if 2 \<le> x then nat \<lfloor>x\<rfloor>
    else if 0 < x \<and> x < 1 then nat \<lfloor>2 / x\<rfloor> else 0)", goal_cases)
  case (2 x)
  then have "\<lfloor>x / 2\<rfloor> < \<lfloor>x\<rfloor>" "2 \<le> \<lfloor>x\<rfloor>" by (linarith, simp add: le_floor_iff)
  with 2 show ?case by auto
next
  case (3 x)
  then have x: "0 < x" "x < 1" by auto
  have "1 < 1 / x" "2 / x = 1 / x + 1 / x" using x by (simp_all add: field_simps)
  then have "\<lfloor>1 / x\<rfloor> < \<lfloor>2 / x\<rfloor>" "2 \<le> \<lfloor>2 / x\<rfloor>" by (linarith, simp add: le_floor_iff)
  with x show ?case by auto
qed simp

declare binexp.simps [simp del]

lemma binexp_bounds: "0 < x \<Longrightarrow> 2 powi binexp x \<le> x \<and> x < 2 powi (binexp x + 1)"
proof (induction x rule: binexp.induct)
  case (1 x)
  consider "2 \<le> x" | "x < 1" | "1 \<le> x" "x < 2" by linarith
  then show ?case
  proof cases
    case 1
    with "1.IH"(1) have "2 powi binexp (x / 2) \<le> x / 2 \<and> x / 2 < 2 powi (binexp (x / 2) + 1)"
      by simp
    with 1 show ?thesis by (simp add: binexp.simps [of x] power_int_add field_simps)
  next
    case 2
    with "1.IH"(2) "1.prems" have "2 powi binexp (x * 2) \<le> x * 2 \<and> x * 2 < 2 powi (binexp (x * 2) + 1)"
      by simp
    with 2 "1.prems" show ?thesis
      by (simp add: binexp.simps [of x] power_int_add power_int_diff field_simps)
  next
    case 3
    then show ?thesis by (simp add: binexp.simps [of x])
  qed
qed

lemma binexp_mono: "0 < x \<Longrightarrow> x \<le> y \<Longrightarrow> binexp x \<le> binexp y"
proof (rule ccontr)
  assume a: "0 < x" "x \<le> y" "\<not> binexp x \<le> binexp y"
  then have "binexp y + 1 \<le> binexp x" by simp
  then have "(2 :: rat) powi (binexp y + 1) \<le> 2 powi binexp x" by (rule power_int_increasing) simp
  with binexp_bounds [of x] binexp_bounds [of y] a show False by simp
qed

text \<open>Round to the nearest integer, a tie to the even one.\<close>

definition round_even :: "rat \<Rightarrow> int" where
  "round_even x = (let f = \<lfloor>x\<rfloor>; d = x - of_int f in
     if d < 1 / 2 then f else if 1 / 2 < d then f + 1 else if even f then f else f + 1)"

lemma round_even_int [simp]: "round_even (of_int n) = n"
  by (simp add: round_even_def)

lemma round_even_floor: "\<lfloor>x\<rfloor> \<le> round_even x \<and> round_even x \<le> \<lfloor>x\<rfloor> + 1"
  by (simp add: round_even_def Let_def)

lemma round_even_mono: "x \<le> y \<Longrightarrow> round_even x \<le> round_even y"
proof (cases "\<lfloor>x\<rfloor> = \<lfloor>y\<rfloor>")
  case True
  moreover assume "x \<le> y"
  ultimately show ?thesis by (auto simp: round_even_def Let_def)
next
  case False
  assume "x \<le> y"
  with False have "\<lfloor>x\<rfloor> + 1 \<le> \<lfloor>y\<rfloor>" using floor_mono [of x y] by linarith
  with round_even_floor [of x] round_even_floor [of y] show ?thesis by linarith
qed

text \<open>The double nearest to a rational number: a 53-bit significand.\<close>

definition flt_pos :: "rat \<Rightarrow> rat" where
  "flt_pos x = (let e = binexp x - 52 in of_int (round_even (x * 2 powi (- e))) * 2 powi e)"

definition flt :: "rat \<Rightarrow> rat" where
  "flt x = (if x = 0 then 0 else if 0 < x then flt_pos x else - flt_pos (- x))"

definition fadd :: "rat \<Rightarrow> rat \<Rightarrow> rat" where "fadd x y = flt (x + y)"
definition fsub :: "rat \<Rightarrow> rat \<Rightarrow> rat" where "fsub x y = flt (x - y)"
definition fmul :: "rat \<Rightarrow> rat \<Rightarrow> rat" where "fmul x y = flt (x * y)"
definition fdiv :: "rat \<Rightarrow> rat \<Rightarrow> rat" where "fdiv x y = flt (x / y)"

lemmas float_ops = fadd_def fsub_def fmul_def fdiv_def

section \<open>Facts\<close>

lemma flt_0 [simp]: "flt 0 = 0"
  by (simp add: flt_def)

lemma round_even_le_int: "x \<le> of_int n \<Longrightarrow> round_even x \<le> n"
  using round_even_mono [of x "of_int n"] by simp

lemma round_even_ge_int: "of_int n \<le> x \<Longrightarrow> n \<le> round_even x"
  using round_even_mono [of "of_int n" x] by simp

lemma flt_pos_bounds:
  assumes "0 < x"
  shows "2 powi binexp x \<le> flt_pos x \<and> flt_pos x \<le> 2 powi (binexp x + 1)"
proof -
  define e where "e = binexp x - 52"
  define m where "m = round_even (x * 2 powi (- e))"
  have p: "(0 :: rat) < 2 powi e" by simp
  have i: "(2 :: rat) powi (- e) * 2 powi e = 1" by (simp add: power_int_minus)
  have lo: "(of_int (2 ^ 52) :: rat) \<le> x * 2 powi (- e)"
  proof -
    have "(2 :: rat) powi binexp x * 2 powi (- e) = 2 powi 52"
      by (simp add: e_def flip: power_int_add)
    moreover have "(2 :: rat) powi binexp x * 2 powi (- e) \<le> x * 2 powi (- e)"
      using binexp_bounds [OF assms] by (intro mult_right_mono) auto
    ultimately show ?thesis by simp
  qed
  have hi: "x * 2 powi (- e) \<le> (of_int (2 ^ 53) :: rat)"
  proof -
    have "(2 :: rat) powi (binexp x + 1) * 2 powi (- e) = 2 powi 53"
      by (simp add: e_def flip: power_int_add)
    moreover have "x * 2 powi (- e) \<le> (2 :: rat) powi (binexp x + 1) * 2 powi (- e)"
      using binexp_bounds [OF assms] by (intro mult_right_mono) auto
    ultimately show ?thesis by simp
  qed
  have "2 ^ 52 \<le> m" "m \<le> 2 ^ 53"
    using round_even_ge_int [OF lo] round_even_le_int [OF hi] by (simp_all add: m_def)
  then have "(of_int (2 ^ 52) :: rat) * 2 powi e \<le> of_int m * 2 powi e"
    "of_int m * 2 powi e \<le> (of_int (2 ^ 53) :: rat) * 2 powi e"
    using p by (intro mult_right_mono; simp only: of_int_le_iff; simp)+
  moreover have "(of_int (2 ^ 52) :: rat) * 2 powi e = 2 powi binexp x"
  proof -
    have "(2 :: rat) powi (52 + e) = 2 powi 52 * 2 powi e" by (rule power_int_add) simp
    then show ?thesis by (simp add: e_def)
  qed
  moreover have "(of_int (2 ^ 53) :: rat) * 2 powi e = 2 powi (binexp x + 1)"
  proof -
    have "(2 :: rat) powi (53 + e) = 2 powi 53 * 2 powi e" by (rule power_int_add) simp
    then show ?thesis by (simp add: e_def add.commute)
  qed
  moreover have "flt_pos x = of_int m * 2 powi e"
    by (simp add: flt_pos_def Let_def m_def e_def)
  ultimately show ?thesis by (intro conjI) linarith+
qed

lemma flt_pos_mono:
  assumes "0 < x" "x \<le> y"
  shows "flt_pos x \<le> flt_pos y"
proof (cases "binexp x = binexp y")
  case True
  have "x * 2 powi (- (binexp y - 52)) \<le> y * 2 powi (- (binexp y - 52))"
    using assms by (intro mult_right_mono) auto
  then have "round_even (x * 2 powi (- (binexp y - 52))) \<le> round_even (y * 2 powi (- (binexp y - 52)))"
    by (rule round_even_mono)
  then show ?thesis
    unfolding flt_pos_def Let_def True by (intro mult_right_mono) auto
next
  case False
  with binexp_mono [OF assms] have "binexp x + 1 \<le> binexp y" by simp
  then have "(2 :: rat) powi (binexp x + 1) \<le> 2 powi binexp y" by (rule power_int_increasing) simp
  with flt_pos_bounds [of x] flt_pos_bounds [of y] assms show ?thesis by simp
qed

lemma flt_pos_pos: "0 < x \<Longrightarrow> 0 < flt_pos x"
proof -
  assume "0 < x"
  with flt_pos_bounds have "2 powi binexp x \<le> flt_pos x" by blast
  moreover have "(0 :: rat) < 2 powi binexp x" by simp
  ultimately show ?thesis by linarith
qed

lemma flt_mono: "x \<le> y \<Longrightarrow> flt x \<le> flt y"
proof -
  assume le: "x \<le> y"
  consider "0 < x" | "x \<le> 0" "0 \<le> y" | "y < 0" using le by linarith
  then show ?thesis
  proof cases
    case 2
    then have "flt x \<le> 0" "0 \<le> flt y"
      using flt_pos_pos [of "- x"] flt_pos_pos [of y] by (auto simp: flt_def)
    then show ?thesis by simp
  qed (use le flt_pos_mono [of x y] flt_pos_mono [of "- y" "- x"] in \<open>auto simp: flt_def\<close>)
qed

lemma flt_pos_iff [simp]: "0 < flt x \<longleftrightarrow> 0 < x"
proof
  assume "0 < flt x"
  then show "0 < x" using flt_mono [of x 0] by (rule_tac ccontr) auto
qed (auto simp: flt_def flt_pos_pos)

lemma flt_nonneg [simp]: "0 \<le> x \<Longrightarrow> 0 \<le> flt x"
  using flt_mono [of 0 x] by simp

lemma flt_of_nat_small: "n < 2 ^ 53 \<Longrightarrow> flt (of_nat n) = of_nat n"
proof (cases "n = 0")
  case False
  assume n: "n < 2 ^ 53"
  let ?x = "of_nat n :: rat"
  define e where "e = binexp ?x - 52"
  have x: "0 < ?x" using False by simp
  have "(2 :: rat) powi binexp ?x \<le> ?x" using binexp_bounds [OF x] by blast
  also have "?x < 2 powi 53"
    using n of_nat_less_iff [of n "2 ^ 53", where 'a = rat] by simp
  finally have "binexp ?x < 53"
    using power_int_increasing [of 53 "binexp ?x" "2 :: rat"] by force
  then have "e \<le> 0" by (simp add: e_def)
  then have "?x * 2 powi (- e) = of_int (int n * 2 ^ nat (- e))"
    by (simp add: power_int_def)
  then have "round_even (?x * 2 powi (- e)) = int n * 2 ^ nat (- e)" by (metis round_even_int)
  then have "flt_pos ?x = of_int (int n * 2 ^ nat (- e)) * 2 powi e"
    by (simp add: flt_pos_def Let_def e_def)
  also have "\<dots> = ?x * (2 powi (- e) * 2 powi e)"
    using \<open>e \<le> 0\<close> by (simp add: power_int_def)
  also have "\<dots> = ?x" by (simp add: power_int_minus)
  finally show ?thesis using x by (simp add: flt_def)
qed simp

text \<open>A double is a fixed point of the rounding.\<close>

lemma binexp_unique:
  assumes "2 powi k \<le> x" "x < 2 powi (k + 1)"
  shows "binexp x = k"
proof -
  have p: "0 < x" using assms(1) by (rule less_le_trans [rotated]) simp
  note b = binexp_bounds [OF p]
  have "\<not> binexp x + 1 \<le> k"
    using power_int_increasing [of "binexp x + 1" k "2 :: rat"] b assms by force
  moreover have "\<not> k + 1 \<le> binexp x"
    using power_int_increasing [of "k + 1" "binexp x" "2 :: rat"] b assms by force
  ultimately show ?thesis by simp
qed

lemma flt_pos_repr:
  assumes "2 ^ 52 \<le> m" "m < 2 ^ 53"
  shows "flt_pos (of_int m * 2 powi e) = of_int m * 2 powi e"
proof -
  let ?x = "of_int m * 2 powi e :: rat"
  have p: "(0 :: rat) < 2 powi e" by simp
  have "(2 :: rat) powi (52 + e) = of_int (2 ^ 52) * 2 powi e"
    "(2 :: rat) powi (53 + e) = of_int (2 ^ 53) * 2 powi e"
    by (simp_all add: power_int_add)
  moreover have "(of_int (2 ^ 52) :: rat) * 2 powi e \<le> ?x" "?x < of_int (2 ^ 53) * 2 powi e"
    using assms by (intro mult_right_mono mult_strict_right_mono p less_imp_le [OF p];
      simp only: of_int_le_iff of_int_less_iff)+
  ultimately have "binexp ?x = 52 + e"
    by (intro binexp_unique) (simp_all add: add.commute add.left_commute)
  moreover have "?x * 2 powi (- e) = of_int m"
    using p by (simp add: power_int_minus)
  ultimately show ?thesis by (simp only: flt_pos_def Let_def add_diff_cancel_left' round_even_int)
qed

lemma flt_pos_idem:
  assumes "0 < x"
  shows "flt_pos (flt_pos x) = flt_pos x"
proof -
  define e where "e = binexp x - 52"
  define m where "m = round_even (x * 2 powi (- e))"
  have f: "flt_pos x = of_int m * 2 powi e" by (simp add: flt_pos_def Let_def m_def e_def)
  have p: "(0 :: rat) < 2 powi e" by simp
  have "(2 :: rat) powi binexp x = of_int (2 ^ 52) * 2 powi e"
    "(2 :: rat) powi (binexp x + 1) = of_int (2 ^ 53) * 2 powi e"
    using power_int_add [of "2 :: rat" 52 e] power_int_add [of "2 :: rat" 53 e]
    by (simp_all add: e_def algebra_simps)
  with flt_pos_bounds [OF assms] f p have "2 ^ 52 \<le> m" "m \<le> 2 ^ 53"
    using p by (simp_all only: mult_le_cancel_right_pos of_int_le_iff)
  then consider "2 ^ 52 \<le> m" "m < 2 ^ 53" | "m = 2 ^ 53" by linarith
  then show ?thesis
  proof cases
    case 1
    then show ?thesis unfolding f by (rule flt_pos_repr)
  next
    case 2
    then have "flt_pos x = of_int (2 ^ 52) * 2 powi (e + 1)"
      by (simp add: f power_int_add)
    moreover have "flt_pos (of_int (2 ^ 52) * 2 powi (e + 1)) = of_int (2 ^ 52) * 2 powi (e + 1)"
      by (rule flt_pos_repr) simp_all
    ultimately show ?thesis by simp
  qed
qed

lemma flt_idem [simp]: "flt (flt x) = flt x"
  using flt_pos_idem [of x] flt_pos_idem [of "- x"] flt_pos_pos [of x] flt_pos_pos [of "- x"]
  by (auto simp: flt_def)

lemma fadd_mono: "a \<le> b \<Longrightarrow> c \<le> d \<Longrightarrow> fadd a c \<le> fadd b d"
  by (simp add: fadd_def flt_mono)

lemma fmul_mono_right: "0 \<le> a \<Longrightarrow> c \<le> d \<Longrightarrow> fmul a c \<le> fmul a d"
  by (simp add: fmul_def flt_mono mult_left_mono)

lemma fmul_nonneg: "0 \<le> a \<Longrightarrow> 0 \<le> b \<Longrightarrow> 0 \<le> fmul a b"
  by (simp add: fmul_def)

lemma fsub_mono_left: "a \<le> b \<Longrightarrow> fsub a c \<le> fsub b c"
  by (simp add: fsub_def flt_mono)

lemma fadd_increasing: "flt a = a \<Longrightarrow> 0 \<le> b \<Longrightarrow> a \<le> fadd a b"
  using flt_mono [of a "a + b"] by (simp add: fadd_def)

lemma flt_fadd [simp]: "flt (fadd a b) = fadd a b"
  by (simp add: fadd_def)

text \<open>\<open>Math.round\<close>\<close>

definition js_round :: "rat \<Rightarrow> int" where
  "js_round x = \<lfloor>x + 1 / 2\<rfloor>"

end
