(* ===== verification/Jcr_Gate.thy ===== *)
theory Jcr_Gate
  imports Prelude Js_Number
begin

text \<open>
  \<open>src/core/jcr-safety-gate.ts\<close>: the gate that forces a judge-class agent whose risk score
  exceeds the threshold through dense prefill (INV-15), its risk score in binary64 arithmetic,
  its audit log and the statistics over it.

  An \<open>Error\<close> thrown by the source is \<open>Inl\<close> with its message. \<open>Date.now()\<close> is an argument. The
  inputs are the finite numbers: \<open>NaN\<close> and the infinities are left out.
\<close>

section \<open>Constants\<close>

definition JUDGE_ROLES :: "string list" where
  "JUDGE_ROLES = [''critic'', ''judge'']"

definition DEFAULT_JCR_THRESHOLD :: rat where
  "DEFAULT_JCR_THRESHOLD = flt 0.7"

definition BASE_RISK_JUDGE :: rat where "BASE_RISK_JUDGE = flt 0.6"
definition BASE_RISK_OTHER :: rat where "BASE_RISK_OTHER = flt 0.1"
definition RISK_PER_EXTRA_CANDIDATE :: rat where "RISK_PER_EXTRA_CANDIDATE = flt 0.1"
definition RISK_LAYOUT_SHUFFLED :: rat where "RISK_LAYOUT_SHUFFLED = flt 0.2"
definition RISK_HIGH_REUSE :: rat where "RISK_HIGH_REUSE = flt 0.15"
definition HIGH_REUSE_THRESHOLD :: rat where "HIGH_REUSE_THRESHOLD = flt 0.8"

section \<open>State\<close>

record JCRGateInput =
  agentRole :: string
  candidateCount :: int
  reuseRate :: rat
  layoutShuffled :: bool

record JCRDecision =
  dec_agentRole :: string
  riskScore :: rat
  useDense :: bool
  reason :: string
  timestamp :: nat

record JCRSummary =
  totalDecisions :: nat
  denseFallbackCount :: nat
  avgRiskScore :: rat
  criticDenseRate :: rat

record JCRSafetyGate =
  threshold :: rat
  decision_log :: "JCRDecision list"

section \<open>Operations\<close>

text \<open>
  The message of the constructor's error ends with the number in JavaScript's shortest form;
  that rendering is left out of the model's message.
\<close>

definition new_gate :: "rat \<Rightarrow> string + JCRSafetyGate" where
  "new_gate th =
    (if 0 \<le> th \<and> th \<le> 1 then Inr \<lparr>threshold = th, decision_log = []\<rparr>
     else Inl ''jcr threshold must be in [0, 1]'')"

definition computeJcrRisk :: "JCRGateInput \<Rightarrow> string + rat" where
  "computeJcrRisk i =
    (if candidateCount i < 0 then Inl ''candidateCount must be non-negative''
     else if \<not> (0 \<le> reuseRate i \<and> reuseRate i \<le> 1) then Inl ''reuseRate must be in [0, 1]''
     else
       let r0 = (if to_lower (agentRole i) \<in> set JUDGE_ROLES then BASE_RISK_JUDGE else BASE_RISK_OTHER);
           r1 = (if 2 < candidateCount i
                 then fadd r0 (fmul RISK_PER_EXTRA_CANDIDATE (fsub (of_int (candidateCount i)) 2))
                 else r0);
           r2 = (if layoutShuffled i then fadd r1 RISK_LAYOUT_SHUFFLED else r1);
           r3 = (if HIGH_REUSE_THRESHOLD < reuseRate i then fadd r2 RISK_HIGH_REUSE else r2)
       in Inr (max 0 (min 1 r3)))"

definition shouldUseDensePrefill :: "JCRSafetyGate \<Rightarrow> JCRGateInput \<Rightarrow> string + bool" where
  "shouldUseDensePrefill g i = (case computeJcrRisk i of Inl e \<Rightarrow> Inl e
     | Inr risk \<Rightarrow> Inr (to_lower (agentRole i) \<in> set JUDGE_ROLES \<and> threshold g < risk))"

text \<open>\<open>x.toFixed(2)\<close> for \<open>0 \<le> x\<close>: the nearest hundredth of the exact value, the larger on a tie.\<close>

definition toFixed2 :: "rat \<Rightarrow> string" where
  "toFixed2 x = (let n = nat \<lfloor>x * 100 + 1 / 2\<rfloor> in
     show_nat (n div 100) @ ''.'' @ [digit_char (n div 10 mod 10), digit_char (n mod 10)])"

definition arrow :: string where "arrow = [CHR 0xE2, CHR 0x86, CHR 0x92]"
definition at_most_sign :: string where "at_most_sign = [CHR 0xE2, CHR 0x89, CHR 0xA4]"
definition quoted :: "string \<Rightarrow> string" where "quoted s = CHR 0x27 # s @ [CHR 0x27]"

definition gate_reason :: "string \<Rightarrow> rat \<Rightarrow> rat \<Rightarrow> bool \<Rightarrow> bool \<Rightarrow> string" where
  "gate_reason role risk th isJudge dense =
    (if \<not> isJudge then
       ''role='' @ quoted role @ '' not judge-type '' @ arrow @ '' reuse OK''
     else if dense then
       ''INV-15: judge role='' @ quoted role @ '' risk='' @ toFixed2 risk @ '' > threshold=''
       @ toFixed2 th @ '' '' @ arrow @ '' dense prefill mandated''
     else
       ''judge role='' @ quoted role @ '' risk='' @ toFixed2 risk @ '' '' @ at_most_sign
       @ '' threshold='' @ toFixed2 th @ '' '' @ arrow @ '' reuse permitted'')"

definition gateDecision ::
  "nat \<Rightarrow> JCRGateInput \<Rightarrow> JCRSafetyGate \<Rightarrow> (string + JCRDecision) \<times> JCRSafetyGate" where
  "gateDecision now i g = (case computeJcrRisk i of
     Inl e \<Rightarrow> (Inl e, g)
   | Inr risk \<Rightarrow>
       let role = to_lower (agentRole i);
           isJudge = (role \<in> set JUDGE_ROLES);
           dense = (isJudge \<and> threshold g < risk);
           d = \<lparr>dec_agentRole = role, riskScore = risk, useDense = dense,
                reason = gate_reason role risk (threshold g) isJudge dense, timestamp = now\<rparr>
       in (Inr d, g\<lparr>decision_log := decision_log g @ [d]\<rparr>))"

definition gate_summary :: "JCRSafetyGate \<Rightarrow> JCRSummary" where
  "gate_summary g =
    (let l = decision_log g; total = length l in
     if total = 0
     then \<lparr>totalDecisions = 0, denseFallbackCount = 0, avgRiskScore = 0, criticDenseRate = 0\<rparr>
     else
       let denseCount = length (filter useDense l);
           avgRisk = fdiv (foldl (\<lambda>acc d. fadd acc (riskScore d)) 0 l) (of_nat total);
           criticDecisions = filter (\<lambda>d. dec_agentRole d = ''critic'') l;
           criticDense = length (filter useDense criticDecisions);
           criticRate = (if criticDecisions \<noteq> []
                         then fdiv (of_nat criticDense) (of_nat (length criticDecisions)) else 0)
       in \<lparr>totalDecisions = total, denseFallbackCount = denseCount, avgRiskScore = avgRisk,
           criticDenseRate = criticRate\<rparr>)"

section \<open>The risk score\<close>

text \<open>The decimal constants and sums that the risk model meets, computed once.\<close>

lemma risk_constants:
  "fadd BASE_RISK_JUDGE (fmul RISK_PER_EXTRA_CANDIDATE 1) = DEFAULT_JCR_THRESHOLD"
  "fadd BASE_RISK_JUDGE RISK_LAYOUT_SHUFFLED > DEFAULT_JCR_THRESHOLD"
  "fadd BASE_RISK_JUDGE RISK_HIGH_REUSE > DEFAULT_JCR_THRESHOLD"
  "fadd BASE_RISK_JUDGE (fmul RISK_PER_EXTRA_CANDIDATE 2) > DEFAULT_JCR_THRESHOLD"
  "BASE_RISK_JUDGE < DEFAULT_JCR_THRESHOLD" "DEFAULT_JCR_THRESHOLD < 1"
  "0 < BASE_RISK_OTHER" "BASE_RISK_OTHER < BASE_RISK_JUDGE"
  "0 < RISK_PER_EXTRA_CANDIDATE" "0 < RISK_LAYOUT_SHUFFLED" "0 < RISK_HIGH_REUSE"
  by code_simp+

lemma fsub_nat: "2 < n \<Longrightarrow> n < 2 ^ 53 \<Longrightarrow> fsub (of_int n) 2 = of_int (n - 2)"
  using flt_of_nat_small [of "nat (n - 2)"] by (simp add: fsub_def)


text \<open>
  The sum before clamping, as a function of what the code reads of the input: four stages, each
  adding a non-negative amount when its condition holds.
\<close>

definition bump :: "bool \<Rightarrow> rat \<Rightarrow> rat \<Rightarrow> rat" where
  "bump c a x = (if c then fadd x a else x)"

definition extra_risk :: "int \<Rightarrow> rat" where
  "extra_risk n = (if 2 < n then fmul RISK_PER_EXTRA_CANDIDATE (fsub (of_int n) 2) else 0)"

definition risk_sum :: "bool \<Rightarrow> int \<Rightarrow> bool \<Rightarrow> bool \<Rightarrow> rat" where
  "risk_sum judge n shuffled high =
    bump high RISK_HIGH_REUSE (bump shuffled RISK_LAYOUT_SHUFFLED
      (bump (2 < n) (extra_risk n) (if judge then BASE_RISK_JUDGE else BASE_RISK_OTHER)))"

definition is_judge :: "JCRGateInput \<Rightarrow> bool" where
  "is_judge i \<longleftrightarrow> to_lower (agentRole i) \<in> set JUDGE_ROLES"

definition valid_input :: "JCRGateInput \<Rightarrow> bool" where
  "valid_input i \<longleftrightarrow> 0 \<le> candidateCount i \<and> 0 \<le> reuseRate i \<and> reuseRate i \<le> 1"

lemma flt_bump [simp]: "flt x = x \<Longrightarrow> flt (bump c a x) = bump c a x"
  by (simp add: bump_def)

lemma bump_le: "flt x = x \<Longrightarrow> 0 \<le> a \<Longrightarrow> x \<le> bump c a x"
  by (simp add: bump_def fadd_increasing)

lemma bump_mono:
  assumes "x \<le> y" "a \<le> b" "c \<longrightarrow> d" "0 \<le> b" "flt y = y"
  shows "bump c a x \<le> bump d b y"
  using assms bump_le [of y b True] fadd_mono [of x y a b] by (auto simp: bump_def)

lemma extra_risk_nonneg: "0 \<le> extra_risk n"
  using risk_constants(9) by (auto simp: extra_risk_def fsub_def intro!: fmul_nonneg)

lemma extra_risk_mono: "n \<le> m \<Longrightarrow> extra_risk n \<le> extra_risk m"
  using risk_constants(9) extra_risk_nonneg [of m]
  by (auto simp: extra_risk_def intro!: fmul_mono_right fsub_mono_left)

lemmas risk_stages = flt_bump bump_le bump_mono extra_risk_nonneg extra_risk_mono

lemma flt_base [simp]:
  "flt (if j then BASE_RISK_JUDGE else BASE_RISK_OTHER) = (if j then BASE_RISK_JUDGE else BASE_RISK_OTHER)"
  by (simp add: BASE_RISK_JUDGE_def BASE_RISK_OTHER_def)

lemma risk_sum_mono:
  assumes "j \<longrightarrow> j'" "n \<le> n'" "s \<longrightarrow> s'" "h \<longrightarrow> h'"
  shows "risk_sum j n s h \<le> risk_sum j' n' s' h'"
  unfolding risk_sum_def using assms risk_constants
  by (intro bump_mono extra_risk_mono) (auto simp: extra_risk_nonneg simp del: if_split)

lemma risk_Inr: "computeJcrRisk i = Inr r \<longleftrightarrow> valid_input i \<and>
    r = max 0 (min 1 (risk_sum (is_judge i) (candidateCount i) (layoutShuffled i)
      (HIGH_REUSE_THRESHOLD < reuseRate i)))"
  by (auto simp: computeJcrRisk_def risk_sum_def bump_def extra_risk_def is_judge_def
      valid_input_def Let_def)

lemma risk_valid: "valid_input i \<longleftrightarrow> (\<exists>r. computeJcrRisk i = Inr r)"
  by (simp add: risk_Inr)

lemma risk_unit: "computeJcrRisk i = Inr r \<Longrightarrow> 0 \<le> r \<and> r \<le> 1"
  by (auto simp: risk_Inr)

lemma clamp_between:
  fixes b x y :: rat
  assumes "b \<le> x" "x \<le> y" "0 \<le> b" "b \<le> 1"
  shows "b \<le> max 0 (min 1 x) \<and> max 0 (min 1 x) \<le> max 0 (min 1 y) \<and> max 0 (min 1 y) \<le> 1"
  using assms by (auto simp: min_def max_def)

lemma clamp_greater:
  fixes t x :: rat
  assumes "0 \<le> t" "t < 1"
  shows "t < max 0 (min 1 x) \<longleftrightarrow> t < x"
  using assms by (auto simp: min_def max_def)

text \<open>
  The risk score is defined exactly on the valid inputs, lies between the base risk of the role
  and 1, and does not decrease when candidates are added, the layout is shuffled, the reuse rate
  rises, or the role becomes a judge's: rounding never reverses the order.\<close>

theorem risk_monotone:
  assumes "valid_input i" "valid_input j"
    and "candidateCount i \<le> candidateCount j" "reuseRate i \<le> reuseRate j"
    and "layoutShuffled i \<longrightarrow> layoutShuffled j" "is_judge i \<longrightarrow> is_judge j"
  shows "\<exists>r s. computeJcrRisk i = Inr r \<and> computeJcrRisk j = Inr s \<and>
    (if is_judge i then BASE_RISK_JUDGE else BASE_RISK_OTHER) \<le> r \<and> r \<le> s \<and> s \<le> 1"
proof -
  let ?f = "\<lambda>i. risk_sum (is_judge i) (candidateCount i) (layoutShuffled i)
      (HIGH_REUSE_THRESHOLD < reuseRate i)"
  have "?f i \<le> ?f j" using assms by (intro risk_sum_mono) auto
  moreover have "risk_sum (is_judge i) 0 False False \<le> ?f i"
    using assms by (intro risk_sum_mono) (auto simp: valid_input_def)
  then have "(if is_judge i then BASE_RISK_JUDGE else BASE_RISK_OTHER) \<le> ?f i"
    by (simp add: risk_sum_def bump_def)
  ultimately have "(if is_judge i then BASE_RISK_JUDGE else BASE_RISK_OTHER) \<le> max 0 (min 1 (?f i)) \<and>
      max 0 (min 1 (?f i)) \<le> max 0 (min 1 (?f j)) \<and> max 0 (min 1 (?f j)) \<le> 1"
    using risk_constants(5-8) by (intro clamp_between) auto
  then show ?thesis using assms(1,2) by (simp only: risk_Inr) blast
qed

definition example_input :: "string \<Rightarrow> int \<Rightarrow> rat \<Rightarrow> bool \<Rightarrow> JCRGateInput" where
  "example_input r n u s =
    \<lparr>agentRole = r, candidateCount = n, reuseRate = u, layoutShuffled = s\<rparr>"

lemma risk_monotone_witness:
  "\<exists>r s. computeJcrRisk (example_input ''coder'' 2 0 False) = Inr r \<and>
     computeJcrRisk (example_input ''Critic'' 5 1 True) = Inr s \<and> r \<le> s"
  using risk_monotone [of "example_input ''coder'' 2 0 False" "example_input ''Critic'' 5 1 True"]
  by (auto simp: example_input_def valid_input_def is_judge_def to_lower_def lower_char_def
      JUDGE_ROLES_def)

section \<open>The decision at the default threshold\<close>

text \<open>
  At the default threshold the verdict has a closed form: a judge-class agent is forced through
  dense prefill exactly when it compares at least four candidates, or the layout changed, or
  the reuse rate exceeds 0.8; in binary64 three candidates meet the threshold and do not exceed
  it.\<close>

theorem dense_at_default_threshold:
  assumes "valid_input i" "candidateCount i < 2 ^ 53"
    and "new_gate DEFAULT_JCR_THRESHOLD = Inr g"
  shows "shouldUseDensePrefill g i = Inr (is_judge i \<and>
    (4 \<le> candidateCount i \<or> layoutShuffled i \<or> HIGH_REUSE_THRESHOLD < reuseRate i))"
proof -
  define n where "n = candidateCount i"
  define s where "s = layoutShuffled i"
  define h where "h = (HIGH_REUSE_THRESHOLD < reuseRate i)"
  have g: "threshold g = DEFAULT_JCR_THRESHOLD" using assms(3) by (auto simp: new_gate_def split: if_splits)
  have "DEFAULT_JCR_THRESHOLD < risk_sum True n s h \<longleftrightarrow> 4 \<le> n \<or> s \<or> h"
  proof (cases "4 \<le> n \<or> s \<or> h")
    case True
    have "DEFAULT_JCR_THRESHOLD < risk_sum True 4 False False"
      "DEFAULT_JCR_THRESHOLD < risk_sum True 0 True False"
      "DEFAULT_JCR_THRESHOLD < risk_sum True 0 False True"
      by code_simp+
    moreover have "risk_sum True 4 False False \<le> risk_sum True n s h" if "4 \<le> n"
      using that by (intro risk_sum_mono) auto
    moreover have "risk_sum True 0 True False \<le> risk_sum True n s h" if s
      using that assms(1) by (intro risk_sum_mono) (auto simp: valid_input_def n_def)
    moreover have "risk_sum True 0 False True \<le> risk_sum True n s h" if h
      using that assms(1) by (intro risk_sum_mono) (auto simp: valid_input_def n_def)
    ultimately show ?thesis using True by fastforce
  next
    case False
    have "risk_sum True n s h \<le> risk_sum True 3 False False"
      using False by (intro risk_sum_mono) auto
    also have "risk_sum True 3 False False = DEFAULT_JCR_THRESHOLD" by code_simp
    finally show ?thesis using False by simp
  qed
  moreover obtain r where r: "computeJcrRisk i = Inr r" using assms(1) risk_valid by blast
  moreover have "DEFAULT_JCR_THRESHOLD < r \<longleftrightarrow> DEFAULT_JCR_THRESHOLD < risk_sum (is_judge i) n s h"
    using r risk_constants(5-8) clamp_greater [of DEFAULT_JCR_THRESHOLD]
    by (simp add: risk_Inr n_def s_def h_def)
  ultimately show ?thesis
    by (auto simp: shouldUseDensePrefill_def g is_judge_def n_def s_def h_def)
qed

lemma dense_at_default_threshold_witness:
  "\<exists>g. new_gate DEFAULT_JCR_THRESHOLD = Inr g \<and>
     shouldUseDensePrefill g (example_input ''judge'' 3 (1 / 2) False) = Inr False \<and>
     shouldUseDensePrefill g (example_input ''judge'' 2 (9 / 10) False) = Inr True"
proof -
  have g: "new_gate DEFAULT_JCR_THRESHOLD = Inr \<lparr>threshold = DEFAULT_JCR_THRESHOLD, decision_log = []\<rparr>"
    by code_simp
  have "HIGH_REUSE_THRESHOLD < 9 / 10" "\<not> HIGH_REUSE_THRESHOLD < 1 / 2" by code_simp+
  then show ?thesis
    using dense_at_default_threshold [OF _ _ g, of "example_input ''judge'' 3 (1 / 2) False"]
      dense_at_default_threshold [OF _ _ g, of "example_input ''judge'' 2 (9 / 10) False"] g
    by (auto simp: example_input_def valid_input_def is_judge_def to_lower_def lower_char_def
        JUDGE_ROLES_def)
qed

section \<open>The audit log\<close>

text \<open>One invocation of the gate, whatever its outcome, and a sequence of them.\<close>

definition gate_step :: "JCRSafetyGate \<Rightarrow> JCRSafetyGate \<Rightarrow> bool" where
  "gate_step g g' \<longleftrightarrow> (\<exists>now i. g' = snd (gateDecision now i g))"

definition gate_run :: "(nat \<times> JCRGateInput) list \<Rightarrow> JCRSafetyGate \<Rightarrow> JCRSafetyGate" where
  "gate_run calls g = foldl (\<lambda>g (now, i). snd (gateDecision now i g)) g calls"

definition audit_ok :: "rat \<Rightarrow> JCRSafetyGate \<Rightarrow> bool" where
  "audit_ok th g \<longleftrightarrow> threshold g = th \<and> (\<forall>d \<in> set (decision_log g).
     (useDense d \<longleftrightarrow> dec_agentRole d \<in> set JUDGE_ROLES \<and> th < riskScore d) \<and>
     0 \<le> riskScore d \<and> riskScore d \<le> 1)"

interpretation jcr: invariant_machine "\<lambda>g. new_gate th = Inr g" gate_step "audit_ok th" for th
proof
  show "new_gate th = Inr g \<Longrightarrow> audit_ok th g" for g
    by (auto simp: new_gate_def audit_ok_def split: if_splits)
  show "gate_step g g' \<Longrightarrow> audit_ok th g \<Longrightarrow> audit_ok th g'" for g g'
  proof -
    assume "gate_step g g'" "audit_ok th g"
    then obtain now i where "g' = snd (gateDecision now i g)" by (auto simp: gate_step_def)
    with \<open>audit_ok th g\<close> show "audit_ok th g'"
      by (cases "computeJcrRisk i") (auto simp: gateDecision_def audit_ok_def Let_def risk_unit)
  qed
qed

lemma gate_run_steps: "gate_step\<^sup>*\<^sup>* g (gate_run calls g)"
proof (induction calls rule: rev_induct)
  case (snoc c calls)
  then have "gate_step (gate_run calls g) (gate_run (calls @ [c]) g)"
    by (cases c) (auto simp: gate_run_def gate_step_def)
  with snoc show ?case by (rule rtranclp.rtrancl_into_rtrancl)
qed (simp add: gate_run_def)

lemma gate_run_log:
  "map dec_agentRole (decision_log (gate_run calls g)) =
   map dec_agentRole (decision_log g) @
   map (\<lambda>c. to_lower (agentRole (snd c))) (filter (\<lambda>c. valid_input (snd c)) calls)"
proof (induction calls rule: rev_induct)
  case (snoc c calls)
  obtain now i where c: "c = (now, i)" by force
  have "map dec_agentRole (decision_log (snd (gateDecision now i h))) =
      map dec_agentRole (decision_log h) @ (if valid_input i then [to_lower (agentRole i)] else [])" for h
    by (cases "computeJcrRisk i") (auto simp: gateDecision_def Let_def risk_valid)
  with snoc show ?case by (simp add: gate_run_def c)
qed (simp add: gate_run_def)

text \<open>C6.
  INV-15: after any sequence of invocations of a gate, valid or not, the audit log holds one
  entry per valid invocation, in order and under the lowered role; no entry is a judge-class
  decision above the threshold without dense prefill, none forces a non-judge, and every logged
  risk is in [0, 1].\<close>

theorem inv15_audit:
  assumes "new_gate th = Inr g"
  shows "filter (\<lambda>d. dec_agentRole d \<in> set JUDGE_ROLES \<and> th < riskScore d \<and> \<not> useDense d)
      (decision_log (gate_run calls g)) = [] \<and>
    map dec_agentRole (decision_log (gate_run calls g)) =
      map (\<lambda>c. to_lower (agentRole (snd c))) (filter (\<lambda>c. valid_input (snd c)) calls) \<and>
    list_all (\<lambda>d. 0 \<le> riskScore d \<and> riskScore d \<le> 1 \<and>
      (useDense d \<longrightarrow> dec_agentRole d \<in> set JUDGE_ROLES)) (decision_log (gate_run calls g))"
proof -
  have "audit_ok th (gate_run calls g)"
    using jcr.inv_reachable [OF assms gate_run_steps] .
  moreover have "decision_log g = []"
    using assms by (auto simp: new_gate_def split: if_splits)
  ultimately show ?thesis
    by (auto simp: audit_ok_def gate_run_log filter_empty_conv list_all_iff)
qed

lemma inv15_audit_witness:
  "let g = gate_run [(1, example_input ''CRITIC'' 2 0 True), (2, example_input ''coder'' (-1) 0 True)]
       \<lparr>threshold = 1 / 2, decision_log = []\<rparr>
   in map dec_agentRole (decision_log g) = [''critic''] \<and> filter (\<lambda>d. dec_agentRole d \<in> set JUDGE_ROLES
      \<and> 1 / 2 < riskScore d \<and> \<not> useDense d) (decision_log g) = []"
proof -
  have "new_gate (1 / 2) = Inr \<lparr>threshold = 1 / 2, decision_log = []\<rparr>" by (simp add: new_gate_def)
  note t = inv15_audit [OF this, of "[(1, example_input ''CRITIC'' 2 0 True), (2, example_input ''coder'' (-1) 0 True)]"]
  have "map (\<lambda>c. to_lower (agentRole (snd c))) (filter (\<lambda>c. valid_input (snd c))
      [(1 :: nat, example_input ''CRITIC'' 2 0 True), (2, example_input ''coder'' (-1) 0 True)]) = [''critic'']"
    by code_simp
  with t show ?thesis unfolding Let_def by metis
qed

end
