(* ===== verification/Json.thy ===== *)
theory Json
  imports Prelude
begin

text \<open>
  JSON values, \<open>JSON.stringify\<close>, \<open>JSON.parse\<close>, and the key-sorting serialisation
  \<open>canonicalize\<close> of \<open>src/core/ledger.ts\<close> that the hash chain of the event ledger is computed
  over. The section on facts proves the round trip of stringify and parse and from it that the
  canonical text determines the value up to the order of its keys.

  A number is the text JavaScript renders it with, kept as written when parsed. An object is the
  association list of its properties in enumeration order; \<open>undefined\<close> occurs as a value. A
  \<open>\\u\<close> escape above 00FF is outside the model's strings and is not parsed.
\<close>

datatype json = JUndef | JNull | JBool bool | JNum string | JStr string
  | JArr "json list" | JObj "(string \<times> json) list"

section \<open>Writing\<close>

definition dquote :: char where "dquote = CHR 0x22"
definition backslash :: char where "backslash = CHR 0x5C"
definition newline :: char where "newline = CHR 0x0A"

definition hex_char :: "nat \<Rightarrow> char" where
  "hex_char n = (if n < 10 then char_of (48 + n) else char_of (87 + n))"

definition escape_char :: "char \<Rightarrow> string" where
  "escape_char c =
    (if c = dquote then [backslash, dquote]
     else if c = backslash then [backslash, backslash]
     else if c = CHR 0x08 then backslash # ''b''
     else if c = CHR 0x0C then backslash # ''f''
     else if c = newline then backslash # ''n''
     else if c = CHR 0x0D then backslash # ''r''
     else if c = CHR 0x09 then backslash # ''t''
     else if (of_char c :: nat) < 32
       then backslash # ''u00'' @ [hex_char (of_char c div 16), hex_char (of_char c mod 16)]
     else [c])"

definition stringify_str :: "string \<Rightarrow> string" where
  "stringify_str s = dquote # concat (map escape_char s) @ [dquote]"

text \<open>A property is written unless its value is \<open>undefined\<close>.\<close>

fun stringify :: "json \<Rightarrow> string" where
  "stringify JUndef = ''undefined''"
| "stringify JNull = ''null''"
| "stringify (JBool b) = (if b then ''true'' else ''false'')"
| "stringify (JNum t) = t"
| "stringify (JStr s) = stringify_str s"
| "stringify (JArr vs) =
    ''['' @ join '','' (map (\<lambda>v. if v = JUndef then ''null'' else stringify v) vs) @ '']''"
| "stringify (JObj kvs) =
    ''{'' @ join '','' (map (\<lambda>kv. stringify_str (fst kv) @ '':'' @ stringify (snd kv))
                         (filter (\<lambda>kv. snd kv \<noteq> JUndef) kvs)) @ ''}''"

text \<open>
  \<open>canonicalize\<close>: the scalar case is \<open>JSON.stringify\<close>; the keys of an object with a defined value
  are sorted by code units. Keys are distinct, so that sorting the properties by key is sorting
  the keys and reading the object at each.
\<close>

function canonicalize :: "json \<Rightarrow> string" where
  "canonicalize JUndef = stringify JUndef"
| "canonicalize JNull = stringify JNull"
| "canonicalize (JBool b) = stringify (JBool b)"
| "canonicalize (JNum t) = stringify (JNum t)"
| "canonicalize (JStr s) = stringify (JStr s)"
| "canonicalize (JArr vs) =
    ''['' @ join '','' (map (\<lambda>v. if v = JUndef then ''null'' else canonicalize v) vs) @ '']''"
| "canonicalize (JObj kvs) =
    ''{'' @ join '','' (map (\<lambda>kv. stringify_str (fst kv) @ '':'' @ canonicalize (snd kv))
                         (sort_key fst (filter (\<lambda>kv. snd kv \<noteq> JUndef) kvs))) @ ''}''"
  by pat_completeness auto
termination
proof (relation "measure size", goal_cases)
  case (2 vs v)
  then show ?case by (induction vs) auto
next
  case (3 kvs kv)
  then have "kv \<in> set kvs" by auto
  then show ?case by (induction kvs) (auto split: prod.splits)
qed simp

section \<open>Reading\<close>

definition is_digit :: "char \<Rightarrow> bool" where
  "is_digit c = (let n = (of_char c :: nat) in 48 \<le> n \<and> n \<le> 57)"

definition is_number_char :: "char \<Rightarrow> bool" where
  "is_number_char c \<longleftrightarrow> is_digit c \<or> c \<in> set ''+-.eE''"

fun skip_digits :: "string \<Rightarrow> string" where
  "skip_digits [] = []"
| "skip_digits (c # cs) = (if is_digit c then skip_digits cs else c # cs)"

text \<open>The grammar of a number: sign, integer part without a leading zero, fraction, exponent.\<close>

definition valid_exponent :: "string \<Rightarrow> bool" where
  "valid_exponent s = (case s of [] \<Rightarrow> True
     | c # cs \<Rightarrow> c \<in> set ''eE'' \<and>
         (let ds = (case cs of [] \<Rightarrow> [] | d # ds \<Rightarrow> if d \<in> set ''+-'' then ds else cs)
          in ds \<noteq> [] \<and> list_all is_digit ds))"

definition valid_fraction :: "string \<Rightarrow> bool" where
  "valid_fraction s = (case s of [] \<Rightarrow> True
     | c # cs \<Rightarrow> if c = CHR ''.'' then skip_digits cs \<noteq> cs \<and> valid_exponent (skip_digits cs)
                else valid_exponent s)"

definition valid_number :: "string \<Rightarrow> bool" where
  "valid_number s =
    (let t = (case s of [] \<Rightarrow> [] | c # cs \<Rightarrow> if c = CHR ''-'' then cs else s)
     in case t of [] \<Rightarrow> False
        | c # cs \<Rightarrow> list_all is_number_char s \<and>
            (if c = CHR ''0'' then valid_fraction cs
             else is_digit c \<and> valid_fraction (skip_digits cs)))"

definition is_json_space :: "char \<Rightarrow> bool" where
  "is_json_space c \<longleftrightarrow> c \<in> {CHR 0x20, CHR 0x09, CHR 0x0A, CHR 0x0D}"

definition skip_space :: "string \<Rightarrow> string" where
  "skip_space s = dropWhile is_json_space s"

definition hex_value :: "char \<Rightarrow> nat option" where
  "hex_value c = (let n = (of_char c :: nat) in
     if 48 \<le> n \<and> n \<le> 57 then Some (n - 48)
     else if 97 \<le> n \<and> n \<le> 102 then Some (n - 87)
     else if 65 \<le> n \<and> n \<le> 70 then Some (n - 55) else None)"

definition unescape_char :: "char \<Rightarrow> char option" where
  "unescape_char c =
    (if c = dquote \<or> c = backslash \<or> c = CHR ''/'' then Some c
     else if c = CHR ''b'' then Some (CHR 0x08) else if c = CHR ''f'' then Some (CHR 0x0C)
     else if c = CHR ''n'' then Some newline else if c = CHR ''r'' then Some (CHR 0x0D)
     else if c = CHR ''t'' then Some (CHR 0x09) else None)"

text \<open>The rest of a string literal after its opening quote, and what follows the literal.\<close>

fun parse_chars :: "string \<Rightarrow> (string \<times> string) option" where
  "parse_chars [] = None"
| "parse_chars (c # cs) =
    (if c = dquote then Some ([], cs)
     else if c = backslash then
       (case cs of [] \<Rightarrow> None
        | d # ds \<Rightarrow>
          if d = CHR ''u'' then
            (case ds of h1 # h2 # h3 # h4 # rest \<Rightarrow>
               (case (hex_value h1, hex_value h2, hex_value h3, hex_value h4) of
                  (Some 0, Some 0, Some a, Some b) \<Rightarrow>
                    map_option (apfst ((#) (char_of (16 * a + b)))) (parse_chars rest)
                | _ \<Rightarrow> None)
             | _ \<Rightarrow> None)
          else (case unescape_char d of None \<Rightarrow> None
                | Some x \<Rightarrow> map_option (apfst ((#) x)) (parse_chars ds)))
     else if (of_char c :: nat) < 32 then None
     else map_option (apfst ((#) c)) (parse_chars cs))"

text \<open>
  A value, the elements of an array after \<open>[\<close>, the members of an object after \<open>{\<close>; the first
  argument bounds the recursion; \<open>json_parse\<close> starts with twice the length of the text, which is
  enough, every second call being made on a shorter text.
\<close>

fun parse_value :: "nat \<Rightarrow> string \<Rightarrow> (json \<times> string) option"
  and parse_elems :: "nat \<Rightarrow> string \<Rightarrow> (json list \<times> string) option"
  and parse_members :: "nat \<Rightarrow> (string, json) dict \<Rightarrow> string \<Rightarrow> ((string, json) dict \<times> string) option"
where
  "parse_value 0 s = None"
| "parse_value (Suc n) s =
    (case skip_space s of [] \<Rightarrow> None
     | c # cs \<Rightarrow>
       if c = dquote then map_option (apfst JStr) (parse_chars cs)
       else if c = CHR ''['' then
         (case skip_space cs of [] \<Rightarrow> None
          | d # ds \<Rightarrow> if d = CHR '']'' then Some (JArr [], ds)
                    else map_option (apfst JArr) (parse_elems n cs))
       else if c = CHR ''{'' then
         (case skip_space cs of [] \<Rightarrow> None
          | d # ds \<Rightarrow> if d = CHR ''}'' then Some (JObj [], ds)
                    else map_option (apfst JObj) (parse_members n [] cs))
       else if starts_with (c # cs) ''null'' then Some (JNull, drop 4 (c # cs))
       else if starts_with (c # cs) ''true'' then Some (JBool True, drop 4 (c # cs))
       else if starts_with (c # cs) ''false'' then Some (JBool False, drop 5 (c # cs))
       else let t = takeWhile is_number_char (c # cs) in
         if valid_number t then Some (JNum t, dropWhile is_number_char (c # cs)) else None)"
| "parse_elems 0 s = None"
| "parse_elems (Suc n) s =
    (case parse_value n s of None \<Rightarrow> None
     | Some (v, r) \<Rightarrow>
       (case skip_space r of [] \<Rightarrow> None
        | c # cs \<Rightarrow>
          if c = CHR '','' then map_option (apfst ((#) v)) (parse_elems n cs)
          else if c = CHR '']'' then Some ([v], cs) else None))"
| "parse_members 0 acc s = None"
| "parse_members (Suc n) acc s =
    (case skip_space s of [] \<Rightarrow> None
     | q # s1 \<Rightarrow>
       if q \<noteq> dquote then None else
       (case parse_chars s1 of None \<Rightarrow> None
        | Some (k, s2) \<Rightarrow>
          (case skip_space s2 of [] \<Rightarrow> None
           | c # s3 \<Rightarrow>
             if c \<noteq> CHR '':'' then None else
             (case parse_value n s3 of None \<Rightarrow> None
              | Some (v, r) \<Rightarrow>
                (case skip_space r of [] \<Rightarrow> None
                 | d # r1 \<Rightarrow>
                   if d = CHR '','' then parse_members n (dset k v acc) r1
                   else if d = CHR ''}'' then Some (dset k v acc, r1) else None)))))"

definition json_parse :: "string \<Rightarrow> json option" where
  "json_parse s = (case parse_value (2 * length s + 2) s of None \<Rightarrow> None
     | Some (v, r) \<Rightarrow> if skip_space r = [] then Some v else None)"

section \<open>Round trip\<close>

fun wf_json :: "json \<Rightarrow> bool" where
  "wf_json (JNum t) = valid_number t"
| "wf_json (JArr vs) = list_all wf_json vs"
| "wf_json (JObj kvs) = (distinct (map fst kvs) \<and> list_all (\<lambda>kv. wf_json (snd kv)) kvs)"
| "wf_json v = True"

text \<open>What parsing the text of a value gives back: \<open>undefined\<close> is gone.\<close>

fun reparsed :: "json \<Rightarrow> json" where
  "reparsed (JArr vs) = JArr (map (\<lambda>v. if v = JUndef then JNull else reparsed v) vs)"
| "reparsed (JObj kvs) =
    JObj (map (\<lambda>kv. (fst kv, reparsed (snd kv))) (filter (\<lambda>kv. snd kv \<noteq> JUndef) kvs))"
| "reparsed v = v"

definition delim :: "string \<Rightarrow> bool" where
  "delim r = (case r of [] \<Rightarrow> True | c # cs \<Rightarrow> \<not> is_number_char c)"

lemma hex_char_value: "n < 16 \<Longrightarrow> hex_value (hex_char n) = Some n"
  by (auto simp: hex_value_def hex_char_def)

lemma parse_escaped: "parse_chars (escape_char c @ r) = map_option (apfst ((#) c)) (parse_chars r)"
proof (cases "(of_char c :: nat) < 32 \<and> c \<notin> {CHR 0x08, CHR 0x0C, newline, CHR 0x0D, CHR 0x09}
    \<and> c \<noteq> dquote \<and> c \<noteq> backslash")
  case True
  then have "(of_char c :: nat) div 16 < 16" by linarith
  moreover have "(char_of (16 * (of_char c div 16) + of_char c mod 16 :: nat)) = c"
    by simp
  moreover have "hex_value (CHR ''0'') = Some 0" by code_simp
  moreover have "CHR ''u'' \<noteq> backslash" "backslash \<noteq> dquote" by code_simp+
  ultimately show ?thesis using True
    by (simp add: escape_char_def hex_char_value)
next
  case False
  have "backslash \<noteq> dquote" by code_simp
  moreover have "unescape_char dquote = Some dquote" "unescape_char backslash = Some backslash"
    "unescape_char (CHR ''b'') = Some (CHR 0x08)" "unescape_char (CHR ''f'') = Some (CHR 0x0C)"
    "unescape_char (CHR ''n'') = Some newline" "unescape_char (CHR ''r'') = Some (CHR 0x0D)"
    "unescape_char (CHR ''t'') = Some (CHR 0x09)" "dquote \<noteq> CHR ''u''" "backslash \<noteq> CHR ''u''"
    by code_simp+
  ultimately show ?thesis using False
    by (auto simp: escape_char_def)
qed

lemma parse_stringify_str: "parse_chars (concat (map escape_char s) @ dquote # r) = Some (s, r)"
  by (induction s) (simp_all add: parse_escaped)

lemma number_chars: "valid_number t \<Longrightarrow> list_all is_number_char t"
  by (auto simp: valid_number_def split: list.splits if_splits)

lemma number_head: "valid_number t \<Longrightarrow> \<exists>c cs. t = c # cs \<and> (c = CHR ''-'' \<or> is_digit c)"
  by (auto simp: valid_number_def is_digit_def split: list.splits if_splits)

lemma takeWhile_number: "list_all P t \<Longrightarrow> (case r of [] \<Rightarrow> True | c # cs \<Rightarrow> \<not> P c) \<Longrightarrow>
    takeWhile P (t @ r) = t \<and> dropWhile P (t @ r) = r"
  by (induction t) (auto split: list.splits)

text \<open>The characters that steer the parser are pairwise different.\<close>

lemma head_chars:
  assumes "c = CHR ''-'' \<or> is_digit c"
  shows "\<not> is_json_space c" "c \<noteq> dquote" "c \<noteq> CHR ''[''" "c \<noteq> CHR ''{''" "c \<noteq> CHR ''n''"
    "c \<noteq> CHR ''t''" "c \<noteq> CHR ''f''"
  using assms by (auto simp: is_digit_def is_json_space_def dquote_def)

lemma json_chars [simp]:
  "\<not> is_json_space dquote" "\<not> is_json_space (CHR ''['')" "\<not> is_json_space (CHR ''{'')"
  "\<not> is_json_space (CHR ''n'')" "\<not> is_json_space (CHR ''t'')" "\<not> is_json_space (CHR ''f'')"
  "\<not> is_json_space (CHR '','')" "\<not> is_json_space (CHR '']'')" "\<not> is_json_space (CHR ''}'')"
  "\<not> is_json_space (CHR '':'')"
  "dquote \<noteq> CHR ''[''" "dquote \<noteq> CHR ''{''" "dquote \<noteq> CHR '']''" "dquote \<noteq> CHR ''}''"
  "dquote \<noteq> CHR ''n''" "dquote \<noteq> CHR ''t''" "dquote \<noteq> CHR ''f''"
  "CHR ''['' \<noteq> dquote" "CHR ''{'' \<noteq> dquote" "CHR ''n'' \<noteq> dquote" "CHR ''t'' \<noteq> dquote"
  "CHR ''f'' \<noteq> dquote" "CHR '']'' \<noteq> dquote" "CHR ''}'' \<noteq> dquote"
  by (simp_all add: is_json_space_def dquote_def)

lemma delim_chars [simp]:
  "delim (CHR '','' # r)" "delim (CHR '']'' # r)" "delim (CHR ''}'' # r)" "delim []"
  by (simp_all add: delim_def is_number_char_def is_digit_def)

lemma skip_space_Cons [simp]: "\<not> is_json_space c \<Longrightarrow> skip_space (c # cs) = c # cs"
  by (simp add: skip_space_def)

lemma starts_with_Cons [simp]:
  "starts_with (c # cs) (p # ps) \<longleftrightarrow> c = p \<and> starts_with cs ps"
  "starts_with s []"
  by (auto simp: starts_with_def)

lemma parse_number: "valid_number t \<Longrightarrow> delim r \<Longrightarrow> parse_value (Suc n) (t @ r) = Some (JNum t, r)"
proof -
  assume t: "valid_number t" and d: "delim r"
  obtain c cs where c: "t = c # cs" "c = CHR ''-'' \<or> is_digit c" using number_head [OF t] by blast
  have tw: "takeWhile is_number_char (c # cs @ r) = c # cs" "dropWhile is_number_char (c # cs @ r) = r"
    using takeWhile_number [OF number_chars [OF t], of r] d c by (simp_all add: delim_def)
  show ?thesis using t c(1) head_chars [OF c(2)]
    by (simp add: tw Let_def del: takeWhile.simps dropWhile.simps)
qed

lemma parse_elems_join:
  assumes "vs \<noteq> []" "2 * length (join '','' (map f vs)) + 2 \<le> n"
    and "\<And>v m r. v \<in> set vs \<Longrightarrow> 2 * length (f v) + 1 \<le> m \<Longrightarrow> delim r \<Longrightarrow>
      parse_value m (f v @ r) = Some (g v, r)"
  shows "parse_elems n (join '','' (map f vs) @ CHR '']'' # r) = Some (map g vs, r)"
  using assms
proof (induction vs arbitrary: n rule: induct_list012)
  case (2 v)
  then obtain m where n: "n = Suc m" by (cases n) auto
  with 2 show ?case by simp
next
  case (3 v w vs)
  then obtain m where n: "n = Suc m" by (cases n) auto
  have "parse_value m (f v @ CHR '','' # join '','' (map f (w # vs)) @ CHR '']'' # r) =
      Some (g v, CHR '','' # join '','' (map f (w # vs)) @ CHR '']'' # r)"
    using "3.prems" by (intro "3.prems"(3)) (simp_all add: n)
  moreover have "parse_elems m (join '','' (map f (w # vs)) @ CHR '']'' # r) = Some (map g (w # vs), r)"
    using "3.prems" by (intro "3.IH"(2)) (simp_all add: n)
  ultimately show ?case by (simp add: n)
qed simp

lemma dset_fresh: "k \<notin> set (dkeys m) \<Longrightarrow> dset k v m = m @ [(k, v)]"
  by (induction m) (auto simp: dset_def dkeys_def)

lemma dkeys_append [simp]: "dkeys (m @ m') = dkeys m @ dkeys m'"
  by (simp add: dkeys_def)

lemma parse_members_join:
  assumes "kvs \<noteq> []"
    and "2 * length (join '','' (map (\<lambda>kv. stringify_str (fst kv) @ '':'' @ f kv) kvs)) + 2 \<le> n"
    and "\<And>kv m r. kv \<in> set kvs \<Longrightarrow> 2 * length (f kv) + 1 \<le> m \<Longrightarrow> delim r \<Longrightarrow>
      parse_value m (f kv @ r) = Some (g kv, r)"
    and "distinct (dkeys acc @ map fst kvs)"
  shows "parse_members n acc
      (join '','' (map (\<lambda>kv. stringify_str (fst kv) @ '':'' @ f kv) kvs) @ CHR ''}'' # r)
    = Some (acc @ map (\<lambda>kv. (fst kv, g kv)) kvs, r)"
  using assms
proof (induction kvs arbitrary: n acc rule: induct_list012)
  case (2 kv)
  then obtain m where n: "n = Suc m" by (cases n) auto
  have "parse_value m (f kv @ CHR ''}'' # r) = Some (g kv, CHR ''}'' # r)"
    using 2 by (intro 2) (simp_all add: n)
  with 2 show ?case by (simp add: n stringify_str_def parse_stringify_str dset_fresh)
next
  case (3 kv kv' kvs)
  then obtain m where n: "n = Suc m" by (cases n) auto
  define j where "j = join '','' (map (\<lambda>kv. stringify_str (fst kv) @ '':'' @ f kv) (kv' # kvs))"
  have e: "join '','' (map (\<lambda>kv. stringify_str (fst kv) @ '':'' @ f kv) (kv # kv' # kvs)) =
      stringify_str (fst kv) @ '':'' @ f kv @ CHR '','' # j"
    by (simp add: j_def)
  have "parse_value m (f kv @ CHR '','' # j @ CHR ''}'' # r) = Some (g kv, CHR '','' # j @ CHR ''}'' # r)"
    using "3.prems" unfolding e by (intro "3.prems"(3)) (simp_all add: n)
  moreover have "parse_members m (acc @ [(fst kv, g kv)]) (j @ CHR ''}'' # r) =
      Some ((acc @ [(fst kv, g kv)]) @ map (\<lambda>kv. (fst kv, g kv)) (kv' # kvs), r)"
    using "3.prems" unfolding e j_def by (intro "3.IH"(2)) (simp_all add: n dkeys_def)
  moreover have "fst kv \<notin> set (dkeys acc)" using "3.prems"(4) by simp
  ultimately show ?case unfolding e
    by (simp add: n stringify_str_def parse_stringify_str dset_fresh)
qed simp

text \<open>A value's text begins with a character that is neither white space nor a closing bracket.\<close>

lemma stringify_head:
  assumes "wf_json v" "v \<noteq> JUndef"
  shows "\<exists>c cs. stringify v = c # cs \<and> \<not> is_json_space c \<and> c \<noteq> CHR '']''"
proof (cases v)
  case (JNum t)
  with number_head [of t] assms show ?thesis
    by (auto simp: is_digit_def is_json_space_def)
qed (use assms in \<open>auto simp: stringify_str_def\<close>)

lemma join_head: "vs \<noteq> [] \<Longrightarrow> f (hd vs) = c # cs \<Longrightarrow> \<exists>cs'. join sep (map f vs) = c # cs'"
  by (cases vs rule: remdups_adj.cases) auto

lemma parse_stringify:
  "wf_json v \<Longrightarrow> v \<noteq> JUndef \<Longrightarrow> 2 * length (stringify v) + 1 \<le> n \<Longrightarrow> delim r \<Longrightarrow>
   parse_value n (stringify v @ r) = Some (reparsed v, r)"
proof (induction v arbitrary: n r)
  case (JNum t)
  then obtain m where n: "n = Suc m" by (cases n) auto
  from JNum show ?case unfolding n stringify.simps reparsed.simps by (intro parse_number) auto
next
  case (JStr s)
  then show ?case by (cases n) (auto simp: stringify_str_def parse_stringify_str)
next
  case (JArr vs)
  then obtain m where n: "n = Suc m" by (cases n) auto
  let ?f = "\<lambda>v. if v = JUndef then ''null'' else stringify v"
  let ?g = "\<lambda>v. if v = JUndef then JNull else reparsed v"
  show ?case
  proof (cases "vs = []")
    case False
    have "parse_value k (?f v @ r') = Some (?g v, r')"
      if "v \<in> set vs" "2 * length (?f v) + 1 \<le> k" "delim r'" for v k r'
      using that JArr.prems(1) JArr.IH [of v k r'] by (cases k) (auto simp: list_all_iff)
    then have "parse_elems m (join '','' (map ?f vs) @ CHR '']'' # r) = Some (map ?g vs, r)"
      using JArr.prems False by (intro parse_elems_join) (simp_all add: n)
    moreover have "\<exists>c cs. ?f (hd vs) = c # cs \<and> \<not> is_json_space c \<and> c \<noteq> CHR '']''"
      using stringify_head [of "hd vs"] JArr.prems(1) False by (auto simp: list_all_iff)
    then have "\<exists>c cs. join '','' (map ?f vs) = c # cs \<and> \<not> is_json_space c \<and> c \<noteq> CHR '']''"
      using join_head [OF False, of ?f] by blast
    ultimately show ?thesis by (auto simp: n)
  qed (simp add: n)
next
  case (JObj kvs)
  then obtain m where n: "n = Suc m" by (cases n) auto
  let ?ds = "filter (\<lambda>kv. snd kv \<noteq> JUndef) kvs"
  let ?f = "\<lambda>kv. stringify_str (fst kv) @ '':'' @ stringify (snd kv)"
  show ?case
  proof (cases "?ds = []")
    case False
    have "parse_value k (stringify (snd kv) @ r') = Some (reparsed (snd kv), r')"
      if "kv \<in> set ?ds" "2 * length (stringify (snd kv)) + 1 \<le> k" "delim r'" for kv k r'
      using that JObj.prems(1) by (intro JObj.IH [of kv]) (auto simp: list_all_iff snds.simps)
    then have "parse_members m [] (join '','' (map ?f ?ds) @ CHR ''}'' # r) =
        Some ([] @ map (\<lambda>kv. (fst kv, reparsed (snd kv))) ?ds, r)"
      using JObj.prems False
      by (intro parse_members_join [where f = "\<lambda>kv. stringify (snd kv)"])
        (simp_all add: n distinct_map_filter dkeys_def)
    moreover have "\<exists>cs. join '','' (map ?f ?ds) = dquote # cs"
      by (rule join_head [OF False]) (simp add: stringify_str_def)
    ultimately show ?thesis by (auto simp: n)
  qed (simp add: n)
next
  case JNull
  then show ?case by (cases n) auto
next
  case (JBool b)
  then show ?case by (cases n; cases b) auto
qed simp

lemma json_roundtrip:
  assumes "wf_json v" "v \<noteq> JUndef"
  shows "json_parse (stringify v) = Some (reparsed v)"
  using parse_stringify [OF assms, of "2 * length (stringify v) + 2" "[]"]
  by (simp add: json_parse_def skip_space_def)

section \<open>Canonical text\<close>

text \<open>\<open>canonicalize\<close> is \<open>stringify\<close> after sorting the keys at every level.\<close>

function sort_keys :: "json \<Rightarrow> json" where
  "sort_keys JUndef = JUndef"
| "sort_keys JNull = JNull"
| "sort_keys (JBool b) = JBool b"
| "sort_keys (JNum t) = JNum t"
| "sort_keys (JStr s) = JStr s"
| "sort_keys (JArr vs) = JArr (map sort_keys vs)"
| "sort_keys (JObj kvs) = JObj (map (\<lambda>kv. (fst kv, sort_keys (snd kv)))
    (sort_key fst (filter (\<lambda>kv. snd kv \<noteq> JUndef) kvs)))"
  by pat_completeness auto
termination
proof (relation "measure size", goal_cases)
  case (2 vs v)
  then show ?case by (induction vs) auto
next
  case (3 kvs kv)
  then have "kv \<in> set kvs" by auto
  then show ?case by (induction kvs) (auto split: prod.splits)
qed simp

lemma sort_keys_JUndef [simp]: "sort_keys v = JUndef \<longleftrightarrow> v = JUndef"
  by (cases v) auto

lemma wf_sort_keys: "wf_json v \<Longrightarrow> wf_json (sort_keys v)"
proof (induction v rule: sort_keys.induct)
  case (7 kvs)
  have "distinct (map fst (sort_key fst (filter (\<lambda>kv. snd kv \<noteq> JUndef) kvs)))"
    using 7 by (simp add: distinct_map distinct_filter inj_on_def)
  then show ?case using 7 by (auto simp: list_all_iff o_def)
qed (auto simp: list_all_iff)

lemma canonicalize_sort: "canonicalize v = stringify (sort_keys v)"
proof (induction v rule: sort_keys.induct)
  case (6 vs)
  then have "map (\<lambda>v. if v = JUndef then ''null'' else canonicalize v) vs =
      map (\<lambda>v. if v = JUndef then ''null'' else stringify v) (map sort_keys vs)"
    by auto
  then show ?case by (simp only: canonicalize.simps sort_keys.simps stringify.simps)
next
  case (7 kvs)
  let ?s = "sort_key fst (filter (\<lambda>kv. snd kv \<noteq> JUndef) kvs)"
  have "filter (\<lambda>kv. snd kv \<noteq> JUndef) (map (\<lambda>kv. (fst kv, sort_keys (snd kv))) ?s) =
      map (\<lambda>kv. (fst kv, sort_keys (snd kv))) ?s"
    by (auto simp: filter_id_conv)
  moreover have "map (\<lambda>kv. stringify_str (fst kv) @ '':'' @ canonicalize (snd kv)) ?s =
      map (\<lambda>kv. stringify_str (fst kv) @ '':'' @ stringify (snd kv)) (map (\<lambda>kv. (fst kv, sort_keys (snd kv))) ?s)"
    using 7 by auto
  ultimately show ?case by (simp only: canonicalize.simps sort_keys.simps stringify.simps)
qed simp_all

lemma normalize_JUndef [simp]: "reparsed v = JUndef \<longleftrightarrow> v = JUndef"
  by (cases v) auto

text \<open>Sorting the normal form is normalizing the sorted form: the hash is over the same text.\<close>

lemma sort_key_map_fst:
  "sort_key fst (map (\<lambda>kv. (fst kv, f (snd kv))) kvs) = map (\<lambda>kv. (fst kv, f (snd kv))) (sort_key fst kvs)"
proof -
  have "insort_key fst (fst kv, f (snd kv)) (map (\<lambda>kv. (fst kv, f (snd kv))) xs) =
      map (\<lambda>kv. (fst kv, f (snd kv))) (insort_key fst kv xs)" for kv and xs
    by (induction xs) auto
  note insort = this
  show ?thesis by (induction kvs) (simp_all add: insort)
qed

lemma canonicalize_reparsed: "canonicalize (reparsed v) = canonicalize v"
proof (induction v rule: sort_keys.induct)
  case (6 vs)
  then have "map (\<lambda>v. if v = JUndef then ''null'' else canonicalize v)
      (map (\<lambda>v. if v = JUndef then JNull else reparsed v) vs) =
      map (\<lambda>v. if v = JUndef then ''null'' else canonicalize v) vs"
    by auto
  then show ?case by (simp only: canonicalize.simps reparsed.simps)
next
  case (7 kvs)
  let ?d = "filter (\<lambda>kv. snd kv \<noteq> JUndef) kvs"
  have "sort_key fst (filter (\<lambda>kv. snd kv \<noteq> JUndef) (map (\<lambda>kv. (fst kv, reparsed (snd kv))) ?d)) =
      map (\<lambda>kv. (fst kv, reparsed (snd kv))) (sort_key fst ?d)"
    by (subst filter_id_conv [THEN iffD2]) (auto simp: sort_key_map_fst)
  moreover have "map (\<lambda>kv. stringify_str (fst kv) @ '':'' @ canonicalize (snd kv))
      (map (\<lambda>kv. (fst kv, reparsed (snd kv))) (sort_key fst ?d)) =
      map (\<lambda>kv. stringify_str (fst kv) @ '':'' @ canonicalize (snd kv)) (sort_key fst ?d)"
    using 7 by auto
  ultimately show ?case by (simp only: canonicalize.simps reparsed.simps)
qed simp_all

lemma sort_keys_idem: "sort_keys (sort_keys v) = sort_keys v"
proof (induction v rule: sort_keys.induct)
  case (7 kvs)
  let ?s = "sort_key fst (filter (\<lambda>kv. snd kv \<noteq> JUndef) kvs)"
  let ?m = "map (\<lambda>kv. (fst kv, sort_keys (snd kv)))"
  have "filter (\<lambda>kv. snd kv \<noteq> JUndef) (?m ?s) = ?m ?s" by (auto simp: filter_id_conv)
  moreover have "sort_key fst (?m ?s) = ?m ?s"
    by (simp add: sort_key_map_fst sort_key_id_if_sorted)
  moreover have "?m (?m ?s) = ?m ?s" using 7 by auto
  ultimately show ?case by (simp only: sort_keys.simps)
qed auto

text \<open>C19.
  The canonical text identifies a JSON value up to the order of its keys and the properties that
  are \<open>undefined\<close>: two values have the same text exactly when their normal forms with sorted keys
  are equal, so nothing else of an event escapes its hash.\<close>

theorem canonicalize_injective:
  assumes "wf_json v" "wf_json w" "v \<noteq> JUndef" "w \<noteq> JUndef"
  shows "canonicalize v = canonicalize w \<longleftrightarrow> reparsed (sort_keys v) = reparsed (sort_keys w)"
proof
  assume "canonicalize v = canonicalize w"
  then have "json_parse (stringify (sort_keys v)) = json_parse (stringify (sort_keys w))"
    by (simp add: canonicalize_sort)
  then show "reparsed (sort_keys v) = reparsed (sort_keys w)"
    using assms by (simp add: json_roundtrip wf_sort_keys)
next
  assume "reparsed (sort_keys v) = reparsed (sort_keys w)"
  then have "canonicalize (sort_keys v) = canonicalize (sort_keys w)"
    by (metis canonicalize_reparsed)
  then show "canonicalize v = canonicalize w" by (simp add: canonicalize_sort sort_keys_idem)
qed

lemma canonicalize_injective_witness:
  "canonicalize (JObj [(''b'', JNum ''1''), (''a'', JStr ''x'')]) =
   canonicalize (JObj [(''a'', JStr ''x''), (''c'', JUndef), (''b'', JNum ''1'')]) \<and>
   canonicalize (JObj [(''a'', JStr ''x'')]) \<noteq> canonicalize (JObj [(''a'', JStr ''y'')])"
proof -
  have v: "valid_number ''1''" by code_simp
  show ?thesis
    using canonicalize_injective [of "JObj [(''b'', JNum ''1''), (''a'', JStr ''x'')]"
        "JObj [(''a'', JStr ''x''), (''c'', JUndef), (''b'', JNum ''1'')]"]
      canonicalize_injective [of "JObj [(''a'', JStr ''x'')]" "JObj [(''a'', JStr ''y'')]"] v
    by simp
qed

text \<open>A text written on one line stays on one line.\<close>

lemma join_avoids: "c \<notin> set sep \<Longrightarrow> \<forall>x \<in> set xs. c \<notin> set x \<Longrightarrow> c \<notin> set (join sep xs)"
  by (induction sep xs rule: join.induct) auto

lemma newline_neq [simp]: "newline \<noteq> dquote" "newline \<noteq> backslash"
  "newline \<noteq> CHR '':''" "newline \<noteq> CHR '',''" "newline \<noteq> CHR ''{''" "newline \<noteq> CHR ''}''"
  "newline \<noteq> CHR ''[''" "newline \<noteq> CHR '']''" "newline \<noteq> CHR ''b''" "newline \<noteq> CHR ''f''"
  "newline \<noteq> CHR ''n''" "newline \<noteq> CHR ''r''" "newline \<noteq> CHR ''t''" "newline \<noteq> CHR ''u''"
  "newline \<noteq> CHR ''0''" "newline \<noteq> CHR ''l''" "newline \<noteq> CHR ''e''" "newline \<noteq> CHR ''a''"
  "newline \<noteq> CHR ''s''" "newline \<noteq> CHR ''d''" "newline \<noteq> CHR ''i''"
  by (simp_all add: newline_def dquote_def backslash_def)

lemma hex_no_newline: "n < 16 \<Longrightarrow> newline \<noteq> hex_char n"
proof
  assume "n < 16" "newline = hex_char n"
  then have "hex_value newline = Some n" using hex_char_value [of n] by metis
  then show False by (simp add: hex_value_def newline_def)
qed

lemma escape_no_newline: "newline \<notin> set (escape_char c)"
proof -
  have "newline \<noteq> hex_char (of_char c div 16)" if "(of_char c :: nat) < 32"
    using that by (intro hex_no_newline) linarith
  moreover have "newline \<noteq> hex_char (of_char c mod 16)" by (intro hex_no_newline) simp
  ultimately show ?thesis by (simp add: escape_char_def)
qed

lemma str_no_newline: "newline \<notin> set (stringify_str s)"
  using escape_no_newline by (auto simp: stringify_str_def)

lemma stringify_no_newline: "wf_json v \<Longrightarrow> newline \<notin> set (stringify v)"
proof (induction v)
  case (JNum t)
  then have "list_all is_number_char t" by (simp add: number_chars)
  moreover have "\<not> is_number_char newline" by code_simp
  ultimately show ?case by (auto simp: list_all_iff)
next
  case (JArr vs)
  then have "newline \<notin> set (join '','' (map (\<lambda>v. if v = JUndef then ''null'' else stringify v) vs))"
    by (intro join_avoids) (auto simp: list_all_iff)
  then show ?case by simp
next
  case (JObj kvs)
  have "newline \<notin> set (stringify (snd kv))" if "kv \<in> set kvs" for kv
    using that JObj.prems by (intro JObj.IH [of kv]) (auto simp: list_all_iff snds.simps)
  then have "newline \<notin> set (join '','' (map (\<lambda>kv. stringify_str (fst kv) @ '':'' @ stringify (snd kv))
      (filter (\<lambda>kv. snd kv \<noteq> JUndef) kvs)))"
    by (intro join_avoids) (auto simp: str_no_newline)
  then show ?case by simp
qed (auto simp: str_no_newline)

section \<open>The text of a natural number\<close>

lemma show_nat_digits: "list_all is_digit (show_nat n)"
proof (induction n rule: show_nat.induct)
  case (1 n)
  have "is_digit (digit_char m)" if "m < 10" for m using that by (simp add: digit_char_def is_digit_def Let_def)
  then show ?case using 1 by (subst show_nat.simps) simp
qed

lemma show_nat_head: "\<exists>c cs. show_nat n = c # cs \<and> (c = CHR ''0'' \<longrightarrow> cs = [])"
proof (induction n rule: show_nat.induct)
  case (1 n)
  show ?case
  proof (cases "n < 10")
    case True
    then show ?thesis by (subst show_nat.simps) simp
  next
    case False
    then obtain c cs where c: "show_nat (n div 10) = c # cs" "c = CHR ''0'' \<longrightarrow> cs = []" using 1 by blast
    have "c \<noteq> CHR ''0''"
    proof
      assume "c = CHR ''0''"
      moreover have "digit_char 0 = CHR ''0''" by code_simp
      ultimately have "show_nat (n div 10) = show_nat 0" using c by (simp add: show_nat.simps [of 0])
      then show False using False by simp
    qed
    with c False show ?thesis by (subst show_nat.simps) simp
  qed
qed

lemma skip_all_digits: "list_all is_digit s \<Longrightarrow> skip_digits s = []"
  by (induction s) simp_all

lemma valid_show_nat: "valid_number (show_nat n)"
proof -
  obtain c cs where c: "show_nat n = c # cs" "c = CHR ''0'' \<longrightarrow> cs = []" using show_nat_head by blast
  have d: "list_all is_digit (c # cs)" using show_nat_digits [of n] c(1) by simp
  then have "c \<noteq> CHR ''-''" by (auto simp: is_digit_def)
  moreover have "list_all is_number_char (c # cs)" using d by (auto simp: list_all_iff is_number_char_def)
  moreover have "valid_fraction []" by (simp add: valid_fraction_def)
  ultimately show ?thesis using c d
    by (auto simp: valid_number_def skip_all_digits valid_fraction_def valid_exponent_def)
qed

end
