(* ===== verification/Ledger.thy ===== *)
theory Ledger
  imports Prelude Core_Types Json
begin

text \<open>
  \<open>src/core/ledger.ts\<close>: the append-only event ledger, a JSON-lines file in which every event is
  sealed with the hash of its predecessor, and its verifier.

  The digest (\<open>createHash("sha256")\<close> and its hexadecimal text, from \<open>node:crypto\<close>) is the
  parameter \<open>H\<close>. The file is its content, \<open>None\<close> when it does not exist; what the platform
  answers during a call of \<open>log\<close> (identifiers, times, failures, and after how many characters an
  append broke off) is a record \<open>ledger_io\<close>. The calls of \<open>log\<close> on one ledger run one after the
  other through its write queue, so a history is the sequence of those calls and of restarts.
\<close>

section \<open>Events\<close>

definition LEDGER_VERSION :: json where "LEDGER_VERSION = JNum ''1''"

definition GENESIS_PREV_HASH :: string where
  "GENESIS_PREV_HASH = replicate 64 (CHR ''0'')"

definition PROVIDER_OUTCOME_EVENT :: string where
  "PROVIDER_OUTCOME_EVENT = ''provider_outcome''"

definition hashEvent :: "(string \<Rightarrow> string) \<Rightarrow> string \<Rightarrow> json \<Rightarrow> string" where
  "hashEvent H prevHash event = H (prevHash @ canonicalize event)"

definition opt_str :: "string option \<Rightarrow> json" where
  "opt_str s = (case s of None \<Rightarrow> JUndef | Some t \<Rightarrow> JStr t)"

text \<open>The unsealed event that \<open>log\<close> builds, with its properties in the order of the literal.\<close>

definition event_json ::
  "string \<Rightarrow> string \<Rightarrow> string \<Rightarrow> EventSeverity \<Rightarrow> string option \<Rightarrow> json \<Rightarrow> json \<Rightarrow> json" where
  "event_json eid ts typ severity taskId payload metadata =
    JObj [(''id'', JStr eid), (''timestamp'', JStr ts), (''type'', JStr typ),
          (''severity'', JStr (severity_name severity)), (''taskId'', opt_str taskId),
          (''payload'', payload), (''metadata'', metadata)]"

definition genesis_json :: "string \<Rightarrow> string \<Rightarrow> string \<Rightarrow> json" where
  "genesis_json eid ts runId =
    JObj [(''id'', JStr eid), (''timestamp'', JStr ts), (''type'', JStr ''genesis''),
          (''severity'', JStr (severity_name Info)),
          (''payload'', JObj [(''runId'', JStr runId), (''ledgerVersion'', LEDGER_VERSION)])]"

fun seal :: "json \<Rightarrow> string \<Rightarrow> string \<Rightarrow> json" where
  "seal (JObj kvs) prev h = JObj (kvs @ [(''prev_hash'', JStr prev), (''hash'', JStr h)])"
| "seal v prev h = v"

section \<open>The ledger object and its file\<close>

datatype InitPromise = NotStarted | Fulfilled | Rejected

record EventLedger =
  runId :: string
  initPromise :: InitPromise
  queueRejected :: bool
  lastHash :: string

record ledger_io =
  mkdir_ok :: bool
  stat_ok :: bool
  read_ok :: bool
  genesis_id :: string
  genesis_time :: string
  genesis_cut :: "nat option"
  event_id :: string
  event_time :: string
  event_cut :: "nat option"

type_synonym text_file = "string option"

definition new_ledger :: "string \<Rightarrow> EventLedger" where
  "new_ledger rid = \<lparr>runId = rid, initPromise = NotStarted, queueRejected = False,
     lastHash = GENESIS_PREV_HASH\<rparr>"

fun split_lines :: "string \<Rightarrow> string list" where
  "split_lines [] = [[]]"
| "split_lines (c # cs) = (if c = newline then [] # split_lines cs
     else (case split_lines cs of [] \<Rightarrow> [[c]] | l # ls \<Rightarrow> (c # l) # ls))"

definition lines :: "string \<Rightarrow> string list" where
  "lines s = filter (\<lambda>l. l \<noteq> []) (split_lines s)"

definition content :: "text_file \<Rightarrow> string" where
  "content f = (case f of None \<Rightarrow> [] | Some s \<Rightarrow> s)"

text \<open>\<open>appendFile\<close>: all of the text, or a rejection after the given number of characters.\<close>

definition append_file :: "nat option \<Rightarrow> string \<Rightarrow> text_file \<Rightarrow> bool \<times> text_file" where
  "append_file broken t f = (case broken of
     None \<Rightarrow> (True, Some (content f @ t))
   | Some n \<Rightarrow> (False, if n = 0 then f else Some (content f @ take n t)))"

text \<open>A property of a parsed value; \<open>None\<close> is \<open>undefined\<close>. Reading one of \<open>null\<close> throws.\<close>

fun prop_of :: "json \<Rightarrow> string \<Rightarrow> json option" where
  "prop_of (JObj kvs) k = map_of kvs k"
| "prop_of v k = None"

definition writeGenesis ::
  "(string \<Rightarrow> string) \<Rightarrow> ledger_io \<Rightarrow> EventLedger \<Rightarrow> text_file \<Rightarrow> bool \<times> EventLedger \<times> text_file" where
  "writeGenesis H io led f =
    (let event = genesis_json (genesis_id io) (genesis_time io) (runId led);
         h = hashEvent H GENESIS_PREV_HASH event;
         sealed = seal event GENESIS_PREV_HASH h;
         (ok, f') = append_file (genesis_cut io) (stringify sealed @ [newline]) f
     in if ok then (True, led\<lparr>lastHash := h\<rparr>, f') else (False, led, f'))"

text \<open>\<open>parsed.hash\<close> is typed as a string: another value of that property is not followed.\<close>

definition loadLastHash :: "EventLedger \<Rightarrow> string \<Rightarrow> EventLedger" where
  "loadLastHash led s =
    (let ls = lines s in
     if ls = [] then led
     else case json_parse (last ls) of None \<Rightarrow> led
       | Some parsed \<Rightarrow>
         (case prop_of parsed ''hash'' of
            Some (JStr h) \<Rightarrow> if h \<noteq> [] then led\<lparr>lastHash := h\<rparr> else led
          | _ \<Rightarrow> led))"

definition ledger_init ::
  "(string \<Rightarrow> string) \<Rightarrow> ledger_io \<Rightarrow> EventLedger \<Rightarrow> text_file \<Rightarrow> bool \<times> EventLedger \<times> text_file" where
  "ledger_init H io led f =
    (case initPromise led of
       Fulfilled \<Rightarrow> (True, led, f)
     | Rejected \<Rightarrow> (False, led, f)
     | NotStarted \<Rightarrow>
       if \<not> mkdir_ok io then (False, led\<lparr>initPromise := Rejected\<rparr>, f)
       else
         let size = (if stat_ok io then length (content f) else 0) in
         if size = 0 then
           let (ok, led', f') = writeGenesis H io led f
           in (ok, led'\<lparr>initPromise := if ok then Fulfilled else Rejected\<rparr>, f')
         else if \<not> read_ok io then (False, led\<lparr>initPromise := Rejected\<rparr>, f)
         else (True, (loadLastHash led (content f))\<lparr>initPromise := Fulfilled\<rparr>, f))"

text \<open>
  \<open>log\<close>: the result is whether the returned promise is fulfilled. Once a link of the write
  queue is rejected, \<open>then\<close> skips every later one.
\<close>

definition ledger_log ::
  "(string \<Rightarrow> string) \<Rightarrow> ledger_io \<Rightarrow> string \<Rightarrow> json \<Rightarrow> EventSeverity \<Rightarrow> string option \<Rightarrow> json \<Rightarrow>
   EventLedger \<Rightarrow> text_file \<Rightarrow> bool \<times> EventLedger \<times> text_file" where
  "ledger_log H io typ payload severity taskId metadata led f =
    (if queueRejected led then (False, led, f)
     else
       let (ready, led1, f1) = ledger_init H io led f in
       if \<not> ready then (False, led1\<lparr>queueRejected := True\<rparr>, f1)
       else
         let event = event_json (event_id io) (event_time io) typ severity taskId payload metadata;
             h = hashEvent H (lastHash led1) event;
             sealed = seal event (lastHash led1) h;
             (ok, f2) = append_file (event_cut io) (stringify sealed @ [newline]) f1
         in if ok then (True, led1\<lparr>lastHash := h\<rparr>, f2)
            else (False, led1\<lparr>queueRejected := True\<rparr>, f2))"

definition logProviderOutcome ::
  "(string \<Rightarrow> string) \<Rightarrow> ledger_io \<Rightarrow> ProviderId \<Rightarrow> TaskRole \<Rightarrow> bool \<Rightarrow> string option \<Rightarrow>
   string option \<Rightarrow> bool option \<Rightarrow> EventLedger \<Rightarrow> text_file \<Rightarrow> bool \<times> EventLedger \<times> text_file" where
  "logProviderOutcome H io provider role success taskId errorReason explored =
    ledger_log H io PROVIDER_OUTCOME_EVENT
      (JObj [(''message'', JStr (''Provider '' @ provider_name provider
                @ (if success then '' succeeded'' else '' failed'') @ '' on role '' @ role_name role)),
             (''provider'', JStr (provider_name provider)), (''role'', JStr (role_name role)),
             (''success'', JBool success), (''errorReason'', opt_str errorReason),
             (''explored'', case explored of None \<Rightarrow> JUndef | Some b \<Rightarrow> JBool b)])
      (if success then Info else Warning) taskId
      (JObj [(''role'', JStr (role_name role)), (''provider'', JStr (provider_name provider)),
             (''errorReason'', opt_str errorReason)])"

section \<open>The verifier\<close>

datatype VerifyReason = CannotRead | InvalidJson | MissingHash
  | PrevHashMismatch string json | HashMismatch string json | MixedLegacy

datatype VerifyResult = VOk bool nat | VFail int VerifyReason

fun without_hashes :: "json \<Rightarrow> json" where
  "without_hashes (JObj kvs) = JObj (filter (\<lambda>kv. fst kv \<noteq> ''prev_hash'' \<and> fst kv \<noteq> ''hash'') kvs)"
| "without_hashes v = v"

text \<open>
  The loop over the lines from index \<open>i\<close>; at its end \<open>i\<close> is the number of lines. A line that
  holds \<open>null\<close> makes the property access throw, which rejects the promise of \<open>verify\<close>.
\<close>

fun verify_lines ::
  "(string \<Rightarrow> string) \<Rightarrow> nat \<Rightarrow> string \<Rightarrow> bool \<Rightarrow> bool \<Rightarrow> string list \<Rightarrow> string + VerifyResult" where
  "verify_lines H i prevHash sawHashed sawLegacy [] =
    Inr (if sawLegacy \<and> sawHashed then VFail (-1) MixedLegacy
         else VOk (sawLegacy \<and> \<not> sawHashed) i)"
| "verify_lines H i prevHash sawHashed sawLegacy (l # ls) =
    (case json_parse l of None \<Rightarrow> Inr (VFail (int i) InvalidJson)
     | Some parsed \<Rightarrow>
       if parsed = JNull then Inl ''TypeError''
       else case (prop_of parsed ''hash'', prop_of parsed ''prev_hash'') of
         (None, None) \<Rightarrow> verify_lines H (i + 1) prevHash sawHashed True ls
       | (Some h, Some p) \<Rightarrow>
           if p \<noteq> JStr prevHash then Inr (VFail (int i) (PrevHashMismatch prevHash p))
           else let expected = hashEvent H prevHash (without_hashes parsed) in
             if h \<noteq> JStr expected then Inr (VFail (int i) (HashMismatch expected h))
             else verify_lines H (i + 1) expected True sawLegacy ls
       | _ \<Rightarrow> Inr (VFail (int i) MissingHash))"

definition ledger_verify :: "(string \<Rightarrow> string) \<Rightarrow> text_file \<Rightarrow> string + VerifyResult" where
  "ledger_verify H f = (case f of None \<Rightarrow> Inr (VFail (-1) CannotRead)
     | Some s \<Rightarrow> if lines s = [] then Inr (VOk False 0)
                else verify_lines H 0 GENESIS_PREV_HASH False False (lines s))"

section \<open>The chain\<close>

text \<open>The hash at the end of a chain of sealed lines that starts after \<open>prev\<close>, if it is one.\<close>

fun chain_end :: "(string \<Rightarrow> string) \<Rightarrow> string \<Rightarrow> string list \<Rightarrow> string option" where
  "chain_end H prev [] = Some prev"
| "chain_end H prev (l # ls) =
    (case json_parse l of None \<Rightarrow> None
     | Some v \<Rightarrow>
       let h = hashEvent H prev (without_hashes v) in
       if prop_of v ''hash'' = Some (JStr h) \<and> prop_of v ''prev_hash'' = Some (JStr prev)
       then chain_end H h ls else None)"

lemma legacy_not_plain: "verify_lines H i prev sh True ls \<noteq> Inr (VOk False n)"
proof (induction ls arbitrary: i prev sh)
  case (Cons l ls)
  show ?case
  proof (cases "json_parse l")
    case (Some v)
    then show ?thesis
      by (cases "prop_of v ''hash''"; cases "prop_of v ''prev_hash''") (simp_all add: Let_def Cons.IH)
  qed simp
qed simp

lemma verify_lines_chain:
  "verify_lines H i prev sh False ls = Inr (VOk False n) \<longleftrightarrow>
     n = i + length ls \<and> chain_end H prev ls \<noteq> None"
proof (induction ls arbitrary: i prev sh)
  case (Cons l ls)
  show ?case
  proof (cases "json_parse l")
    case (Some v)
    have "v = JNull \<Longrightarrow> prop_of v ''hash'' = None" by simp
    with Some show ?thesis
      by (cases "prop_of v ''hash''"; cases "prop_of v ''prev_hash''"; cases "v = JNull")
        (simp_all add: Let_def Cons.IH legacy_not_plain)
  qed simp
qed auto

lemma verify_ok_iff:
  "ledger_verify H (Some s) = Inr (VOk False n) \<longleftrightarrow>
     n = length (lines s) \<and> chain_end H GENESIS_PREV_HASH (lines s) \<noteq> None"
  by (auto simp: ledger_verify_def verify_lines_chain)

lemma chain_end_append:
  "chain_end H prev (xs @ ys) =
     (case chain_end H prev xs of None \<Rightarrow> None | Some p \<Rightarrow> chain_end H p ys)"
  by (induction xs arbitrary: prev) (auto simp: Let_def split: option.splits)

lemma chain_end_last:
  "chain_end H prev ls = Some q \<Longrightarrow> ls \<noteq> [] \<Longrightarrow>
     \<exists>v. json_parse (last ls) = Some v \<and> prop_of v ''hash'' = Some (JStr q)"
proof (induction ls arbitrary: prev)
  case (Cons l ls)
  then show ?case
    by (cases "ls = []") (auto simp: Let_def split: option.splits if_splits)
qed simp

section \<open>Lines\<close>

lemma split_lines_ne: "split_lines s \<noteq> []"
  by (induction s) (auto split: list.splits)

lemma split_lines_append: "newline \<notin> set t \<Longrightarrow> split_lines (t @ newline # s) = t # split_lines s"
  by (induction t) auto

lemma split_lines_break:
  "split_lines (s @ newline # t) = split_lines s @ split_lines t"
proof (induction s)
  case (Cons c s)
  then show ?case using split_lines_ne [of s] by (auto split: list.splits)
qed simp

lemma lines_snoc:
  assumes "s = [] \<or> last s = newline" "newline \<notin> set t" "t \<noteq> []"
  shows "lines (s @ t @ [newline]) = lines s @ [t]"
proof (cases s rule: rev_cases)
  case Nil
  then show ?thesis using assms split_lines_append [of t "[]"] by (simp add: lines_def)
next
  case (snoc s' c)
  then have "s = s' @ newline # []" using assms(1) by simp
  then have "split_lines (s @ t @ [newline]) = split_lines s' @ [t, []]" "split_lines s = split_lines s' @ [[]]"
    using assms split_lines_append [of t "[]"] split_lines_break [of s' "t @ [newline]"]
      split_lines_break [of s' "[]"] by simp_all
  then show ?thesis using assms by (simp add: lines_def)
qed

section \<open>A sealed event parses back to a link of the chain\<close>

definition sealable :: "json \<Rightarrow> bool" where
  "sealable ev \<longleftrightarrow> wf_json ev \<and> (\<exists>kvs. ev = JObj kvs \<and> {''prev_hash'', ''hash''} \<inter> fst ` set kvs = {})"

lemma wf_seal: "sealable ev \<Longrightarrow> wf_json (seal ev p h)"
  by (auto simp: sealable_def)

lemma seal_text:
  assumes "sealable ev"
  shows "newline \<notin> set (stringify (seal ev p h))" "stringify (seal ev p h) \<noteq> []"
  using stringify_no_newline [OF wf_seal [OF assms]] assms by (auto simp: sealable_def)

lemma seal_parse:
  assumes "sealable ev"
  shows "json_parse (stringify (seal ev p h)) = Some (reparsed (seal ev p h))"
    and "without_hashes (reparsed (seal ev p h)) = reparsed ev"
proof -
  from assms obtain kvs where ev: "ev = JObj kvs" "{''prev_hash'', ''hash''} \<inter> fst ` set kvs = {}"
    by (auto simp: sealable_def)
  show "json_parse (stringify (seal ev p h)) = Some (reparsed (seal ev p h))"
    using assms by (intro json_roundtrip wf_seal) (auto simp: ev)
  have "fst kv \<noteq> ''prev_hash'' \<and> fst kv \<noteq> ''hash''" if "kv \<in> set kvs" for kv
  proof -
    have "fst kv \<in> fst ` set kvs" using that by (rule imageI)
    then show ?thesis using ev(2) by fastforce
  qed
  then show "without_hashes (reparsed (seal ev p h)) = reparsed ev" by (auto simp: ev(1) filter_id_conv)
qed

lemma seal_link:
  assumes "sealable ev"
  shows "chain_end H p [stringify (seal ev p (hashEvent H p ev))] = Some (hashEvent H p ev)"
proof -
  let ?h = "hashEvent H p ev"
  from assms obtain kvs where ev: "ev = JObj kvs" "{''prev_hash'', ''hash''} \<inter> fst ` set kvs = {}"
    by (auto simp: sealable_def)
  note p = seal_parse(1) [OF assms, of p ?h]
  have w: "hashEvent H p (without_hashes (reparsed (seal ev p ?h))) = ?h"
    by (simp add: hashEvent_def canonicalize_reparsed seal_parse(2) [OF assms])
  have "map_of (map (\<lambda>kv. (fst kv, reparsed (snd kv))) (filter (\<lambda>kv. snd kv \<noteq> JUndef) kvs)) k = None"
    if "k \<in> {''prev_hash'', ''hash''}" for k
  proof -
    have "k \<notin> fst ` set kvs" using that ev(2) by blast
    then show ?thesis by (force simp: map_of_eq_None_iff)
  qed
  then have "prop_of (reparsed (seal ev p ?h)) ''hash'' = Some (JStr ?h)"
    "prop_of (reparsed (seal ev p ?h)) ''prev_hash'' = Some (JStr p)"
    by (simp_all add: ev(1) map_add_def)
  with p w show ?thesis by (simp add: Let_def)
qed

section \<open>Histories of a ledger\<close>

datatype ledger_op =
    OpLog ledger_io string json EventSeverity "string option" json
  | OpRestart string

text \<open>The ledger, the file, and how many calls of \<open>log\<close> were fulfilled.\<close>

type_synonym ledger_state = "EventLedger \<times> text_file \<times> nat"

fun ledger_step :: "(string \<Rightarrow> string) \<Rightarrow> ledger_op \<Rightarrow> ledger_state \<Rightarrow> ledger_state" where
  "ledger_step H (OpLog io typ payload severity taskId metadata) (led, f, n) =
    (let (ok, led', f') = ledger_log H io typ payload severity taskId metadata led f
     in (led', f', if ok then n + 1 else n))"
| "ledger_step H (OpRestart rid) (led, f, n) = (new_ledger rid, f, n)"

definition ledger_run :: "(string \<Rightarrow> string) \<Rightarrow> ledger_op list \<Rightarrow> ledger_state \<Rightarrow> ledger_state" where
  "ledger_run H ops s = foldl (\<lambda>s op. ledger_step H op s) s ops"

text \<open>
  The histories considered. \<open>mkdir\<close>, \<open>readFile\<close> and \<open>appendFile\<close> may fail in any call, with two
  restrictions: a failed append leaves the file as it was, and \<open>stat\<close> does not fail on a file that is
  there (\<open>init\<close> takes any error of \<open>stat\<close> for a missing file, and what follows from that is
  \<open>stat_failure_breaks\<close> below). What is logged is a value that JSON can write.
\<close>

fun clean_op :: "ledger_op \<Rightarrow> bool" where
  "clean_op (OpLog io typ payload severity taskId metadata) \<longleftrightarrow>
     stat_ok io \<and> genesis_cut io \<in> {None, Some 0} \<and> event_cut io \<in> {None, Some 0} \<and>
     wf_json payload \<and> wf_json metadata"
| "clean_op (OpRestart rid) \<longleftrightarrow> True"

definition chained_file :: "(string \<Rightarrow> string) \<Rightarrow> string \<Rightarrow> string \<Rightarrow> bool" where
  "chained_file H q s \<longleftrightarrow> (s = [] \<or> last s = newline) \<and>
     chain_end H GENESIS_PREV_HASH (lines s) = Some q"

fun ledger_inv :: "(string \<Rightarrow> string) \<Rightarrow> ledger_state \<Rightarrow> bool" where
  "ledger_inv H (led, f, n) \<longleftrightarrow> (\<exists>q. chained_file H q (content f) \<and>
     (initPromise led = Fulfilled \<longrightarrow> content f \<noteq> [] \<and> (lastHash led = q \<or> queueRejected led)) \<and>
     (initPromise led = NotStarted \<longrightarrow> lastHash led = GENESIS_PREV_HASH) \<and>
     length (lines (content f)) = (if content f = [] then 0 else n + 1) \<and>
     (content f = [] \<longrightarrow> n = 0))"

lemma lines_Nil [simp]: "lines [] = []"
  by (simp add: lines_def)

lemma sealable_event [simp]: "wf_json payload \<Longrightarrow> wf_json metadata \<Longrightarrow>
    sealable (event_json eid ts typ severity taskId payload metadata)"
  by (auto simp: sealable_def event_json_def opt_str_def split: option.splits)

lemma sealable_genesis [simp]: "sealable (genesis_json eid ts rid)"
proof -
  have "valid_number ''1''" by code_simp
  then show ?thesis by (auto simp: sealable_def genesis_json_def LEDGER_VERSION_def)
qed

lemma chained_append:
  assumes "chained_file H q s" "sealable ev"
  shows "chained_file H (hashEvent H q ev) (s @ stringify (seal ev q (hashEvent H q ev)) @ [newline])
    \<and> lines (s @ stringify (seal ev q (hashEvent H q ev)) @ [newline]) =
      lines s @ [stringify (seal ev q (hashEvent H q ev))]"
proof -
  let ?t = "stringify (seal ev q (hashEvent H q ev))"
  have l: "lines (s @ ?t @ [newline]) = lines s @ [?t]"
    using assms seal_text [OF assms(2)] by (intro lines_snoc) (auto simp: chained_file_def)
  then show ?thesis
    using assms(1) seal_link [OF assms(2), of H q] by (simp add: chained_file_def chain_end_append)
qed

lemma loadLastHash_end:
  assumes "\<forall>x. H x \<noteq> []" "chained_file H q s" "lastHash led = GENESIS_PREV_HASH"
  shows "loadLastHash led s = led\<lparr>lastHash := q\<rparr>"
proof (cases "lines s = []")
  case True
  then show ?thesis using assms(2,3) by (simp add: loadLastHash_def chained_file_def)
next
  case False
  then obtain v where v: "json_parse (last (lines s)) = Some v" "prop_of v ''hash'' = Some (JStr q)"
    using assms(2) chain_end_last by (metis chained_file_def)
  have "q \<noteq> []"
  proof -
    from False obtain ls l where "lines s = ls @ [l]" by (metis rev_exhaust)
    then show ?thesis using assms(1,2)
      by (auto simp: chained_file_def chain_end_append Let_def hashEvent_def split: option.splits if_splits)
  qed
  with v False show ?thesis by (simp add: loadLastHash_def Let_def)
qed

lemma content_simps [simp]: "content None = []" "content (Some s) = s"
  by (simp_all add: content_def)

lemma ledger_init_inv:
  assumes nonempty: "\<forall>x. H x \<noteq> []" and inv: "ledger_inv H (led, f, n)"
    and clean: "stat_ok io" "genesis_cut io \<in> {None, Some 0}"
    and queue: "\<not> queueRejected led"
    and res: "ledger_init H io led f = (ok, led1, f1)"
  shows "if ok then initPromise led1 = Fulfilled \<and> \<not> queueRejected led1 \<and> content f1 \<noteq> [] \<and>
      chained_file H (lastHash led1) (content f1) \<and> length (lines (content f1)) = n + 1
    else f1 = f \<and> initPromise led1 = Rejected"
proof -
  from inv obtain q where q: "chained_file H q (content f)"
      "initPromise led = Fulfilled \<longrightarrow> content f \<noteq> [] \<and> lastHash led = q"
      "initPromise led = NotStarted \<longrightarrow> lastHash led = GENESIS_PREV_HASH"
      "length (lines (content f)) = (if content f = [] then 0 else n + 1)" "content f = [] \<longrightarrow> n = 0"
    using queue by auto
  show ?thesis
  proof (cases "initPromise led")
    case NotStarted
    show ?thesis
    proof (cases "content f = []")
      case True
      then have "q = GENESIS_PREV_HASH" using q(1) by (simp add: chained_file_def)
      then show ?thesis
        using res clean queue q NotStarted True
          chained_append [OF q(1), of "genesis_json (genesis_id io) (genesis_time io) (runId led)"]
        by (cases "mkdir_ok io")
          (auto simp: ledger_init_def writeGenesis_def append_file_def Let_def)
    next
      case False
      then show ?thesis
        using res clean queue q NotStarted loadLastHash_end [OF nonempty q(1)]
        by (cases "mkdir_ok io"; cases "read_ok io") (auto simp: ledger_init_def)
    qed
  qed (use res q queue in \<open>auto simp: ledger_init_def\<close>)
qed

lemma ledger_log_inv:
  assumes "\<forall>x. H x \<noteq> []" "ledger_inv H (led, f, n)"
    and clean: "clean_op (OpLog io typ payload severity taskId metadata)"
    and res: "ledger_log H io typ payload severity taskId metadata led f = (ok, led', f')"
  shows "ledger_inv H (led', f', if ok then n + 1 else n)"
proof (cases "queueRejected led")
  case False
  obtain r led1 f1 where i: "ledger_init H io led f = (r, led1, f1)" by (metis prod_cases3)
  note init = ledger_init_inv [OF assms(1,2) _ _ False i]
  show ?thesis
  proof (cases r)
    case True
    let ?ev = "event_json (event_id io) (event_time io) typ severity taskId payload metadata"
    from init True clean have one: "initPromise led1 = Fulfilled" "\<not> queueRejected led1"
        "content f1 \<noteq> []" "chained_file H (lastHash led1) (content f1)"
        "length (lines (content f1)) = n + 1" by auto
    moreover have "sealable ?ev" using clean by simp
    note chained_append [OF one(4) this]
    ultimately show ?thesis
      using res False i True clean
      by (cases "event_cut io")
        (auto simp: ledger_log_def append_file_def Let_def intro: exI [of _ "lastHash led1"])
  next
    case nr: False
    with init clean have "f1 = f" "initPromise led1 = Rejected" by auto
    then show ?thesis using res False i nr assms(2) by (auto simp: ledger_log_def)
  qed
qed (use assms in \<open>auto simp: ledger_log_def\<close>)

definition clean_step :: "(string \<Rightarrow> string) \<Rightarrow> ledger_state \<Rightarrow> ledger_state \<Rightarrow> bool" where
  "clean_step H s t \<longleftrightarrow> (\<forall>x. H x \<noteq> []) \<and> (\<exists>op. clean_op op \<and> t = ledger_step H op s)"

interpretation ledger: invariant_machine "\<lambda>s. \<exists>rid. s = (new_ledger rid, None, 0)"
    "clean_step H" "ledger_inv H" for H
proof
  show "\<exists>rid. s = (new_ledger rid, None, 0) \<Longrightarrow> ledger_inv H s" for s
    by (auto simp: new_ledger_def chained_file_def)
  show "clean_step H s t \<Longrightarrow> ledger_inv H s \<Longrightarrow> ledger_inv H t" for s t
  proof -
    assume "clean_step H s t" and inv: "ledger_inv H s"
    then obtain op where op: "\<forall>x. H x \<noteq> []" "clean_op op" "t = ledger_step H op s"
      by (auto simp: clean_step_def)
    obtain led f n where s: "s = (led, f, n)" by (metis prod_cases3)
    show "ledger_inv H t"
    proof (cases op)
      case (OpLog io ty payload severity taskId metadata)
      obtain ok led' f' where
        r: "ledger_log H io ty payload severity taskId metadata led f = (ok, led', f')"
        by (metis prod_cases3)
      from ledger_log_inv [OF op(1) inv [unfolded s] op(2) [unfolded OpLog] r]
      show ?thesis using op(3) by (simp add: OpLog s r)
    next
      case (OpRestart rid)
      then show ?thesis using inv op(3) by (auto simp: s new_ledger_def)
    qed
  qed
qed

lemma ledger_run_steps:
  "\<forall>x. H x \<noteq> [] \<Longrightarrow> list_all clean_op ops \<Longrightarrow> (clean_step H)\<^sup>*\<^sup>* s (ledger_run H ops s)"
proof (induction ops rule: rev_induct)
  case (snoc op ops)
  then have "clean_step H (ledger_run H ops s) (ledger_run H (ops @ [op]) s)"
    by (auto simp: ledger_run_def clean_step_def)
  with snoc show ?case by (simp add: rtranclp.rtrancl_into_rtrancl)
qed (simp add: ledger_run_def)

text \<open>C2.
  Whatever JSON values are logged, however often the process restarts, and whichever calls of \<open>mkdir\<close>,
  \<open>readFile\<close> and \<open>appendFile\<close> fail, provided that a failed append writes nothing, that \<open>stat\<close> does not
  fail on an existing file and that the digest is not empty: the file, once it holds anything, always passes \<open>verify\<close> as a
  hashed (not legacy) ledger with one event per fulfilled call and one for the genesis. Without the
  condition on \<open>stat\<close> it is false: \<open>init\<close> takes a failing \<open>stat\<close> for a missing file, writes a second
  genesis into it, and the ledger no longer verifies (\<open>stat_failure_breaks\<close>).\<close>

theorem ledger_history_verifies:
  assumes "\<forall>x. H x \<noteq> []" "list_all clean_op ops"
    and "ledger_run H ops (new_ledger rid, None, 0) = (led, Some s, n)" "s \<noteq> []"
  shows "ledger_verify H (Some s) = Inr (VOk False (n + 1))"
proof -
  have "ledger_inv H (led, Some s, n)"
    using ledger.inv_reachable [OF _ ledger_run_steps [OF assms(1,2)]] assms(3) by metis
  with assms(4) show ?thesis
    by (auto simp: verify_ok_iff chained_file_def)
qed

section \<open>A failing stat\<close>

lemma verify_last_line:
  "chain_end H p ls = Some q \<Longrightarrow> \<exists>sh. verify_lines H i p sh0 False (ls @ [l]) = verify_lines H (i + length ls) q sh False [l]"
proof (induction ls arbitrary: p i sh0)
  case (Cons x ls)
  then obtain v where v: "json_parse x = Some v" "prop_of v ''hash'' = Some (JStr (hashEvent H p (without_hashes v)))"
    "prop_of v ''prev_hash'' = Some (JStr p)" "chain_end H (hashEvent H p (without_hashes v)) ls = Some q"
    by (auto simp: Let_def split: option.splits if_splits)
  then have "v \<noteq> JNull" by auto
  with v show ?case using Cons.IH [OF v(4), of "i + 1" True] by (simp add: Let_def)
qed auto

text \<open>A sealed event that is appended behind the wrong link is where \<open>verify\<close> stops.\<close>

lemma wrong_link_breaks:
  assumes "chained_file H q s" "sealable ev" "q \<noteq> p"
  shows "ledger_verify H (Some (s @ stringify (seal ev p (hashEvent H p ev)) @ [newline])) =
    Inr (VFail (int (length (lines s))) (PrevHashMismatch q (JStr p)))"
proof -
  let ?l = "stringify (seal ev p (hashEvent H p ev))"
  have l: "lines (s @ ?l @ [newline]) = lines s @ [?l]"
    using assms(1) seal_text [OF assms(2)] by (intro lines_snoc) (auto simp: chained_file_def)
  obtain v where v: "json_parse ?l = Some v" using seal_parse(1) [OF assms(2)] by blast
  then have p: "prop_of v ''hash'' \<noteq> None" "prop_of v ''prev_hash'' = Some (JStr p)"
    using seal_link [OF assms(2), of H p] by (auto simp: Let_def split: if_splits)
  then have "v \<noteq> JNull" by auto
  moreover obtain sh where "verify_lines H 0 GENESIS_PREV_HASH False False (lines s @ [?l]) =
      verify_lines H (0 + length (lines s)) q sh False [?l]"
    using verify_last_line assms(1) by (metis chained_file_def)
  ultimately show ?thesis using p assms(3) v by (auto simp: ledger_verify_def l)
qed

text \<open>
  \<open>init\<close> catches every error of \<open>stat\<close>. When the file is there and the first \<open>stat\<close> of a new ledger object
  fails (no permission, too many open files), a second genesis is appended to a ledger that verified,
  and it never verifies again.\<close>

lemma stat_failure_breaks:
  assumes "chained_file H q s" "s \<noteq> []" "q \<noteq> GENESIS_PREV_HASH"
    and "mkdir_ok io" "\<not> stat_ok io" "genesis_cut io = None"
  shows "\<exists>led f. ledger_init H io (new_ledger rid) (Some s) = (True, led, f) \<and>
    ledger_verify H f = Inr (VFail (int (length (lines s))) (PrevHashMismatch q (JStr GENESIS_PREV_HASH)))"
  using assms(4-6) wrong_link_breaks [OF assms(1) sealable_genesis assms(3)]
  by (simp add: ledger_init_def new_ledger_def writeGenesis_def append_file_def Let_def)

section \<open>A concrete history\<close>

text \<open>A concrete digest of 64 characters and a concrete history for the witnesses.\<close>

definition demo_digest :: "string \<Rightarrow> string" where
  "demo_digest s = take 64 (rev s @ replicate 64 (CHR ''f''))"

definition demo_io :: ledger_io where
  "demo_io = \<lparr>mkdir_ok = True, stat_ok = True, read_ok = True, genesis_id = ''g'', genesis_time = ''0'',
     genesis_cut = None, event_id = ''e'', event_time = ''1'', event_cut = None\<rparr>"

definition demo_ops :: "ledger_op list" where
  "demo_ops = [OpLog demo_io ''a'' (JObj []) Info None JUndef, OpRestart ''r2'',
     OpLog demo_io ''b'' (JObj [(''k'', JUndef)]) Error (Some ''t'') JUndef,
     OpLog (demo_io\<lparr>event_cut := Some 0\<rparr>) ''c'' (JObj []) Info None JUndef,
     OpLog demo_io ''d'' (JObj []) Info None JUndef]"

lemma length_demo_digest: "length (demo_digest x) = 64"
  by (simp add: demo_digest_def)

lemma ledger_history_verifies_witness:
  "\<exists>led s. ledger_run demo_digest demo_ops (new_ledger ''r1'', None, 0) = (led, Some s, 2) \<and>
     ledger_verify demo_digest (Some s) = Inr (VOk False 3)"
proof -
  have "list_all clean_op demo_ops" by (simp add: demo_ops_def demo_io_def)
  moreover have "\<forall>x. demo_digest x \<noteq> []" using length_demo_digest by (metis list.size(3) zero_neq_numeral)
  moreover have "(case ledger_run demo_digest demo_ops (new_ledger ''r1'', None, 0) of
      (led, Some s, n) \<Rightarrow> s \<noteq> [] \<and> n = 2 | _ \<Rightarrow> False)"
    by code_simp
  then obtain led s where "ledger_run demo_digest demo_ops (new_ledger ''r1'', None, 0) = (led, Some s, 2)"
      "s \<noteq> []"
    by (auto split: prod.splits option.splits)
  ultimately show ?thesis using ledger_history_verifies by fastforce
qed

section \<open>What the chain detects\<close>

text \<open>The text that the hash of a line covers, and the texts hashed along a chain.\<close>

definition line_text :: "string \<Rightarrow> string" where
  "line_text l = (case json_parse l of None \<Rightarrow> [] | Some v \<Rightarrow> canonicalize (without_hashes v))"

fun chain_texts :: "(string \<Rightarrow> string) \<Rightarrow> string \<Rightarrow> string list \<Rightarrow> string list" where
  "chain_texts H p [] = []"
| "chain_texts H p (l # ls) = (p @ line_text l) # chain_texts H (H (p @ line_text l)) ls"

lemma chain_end_Cons: "chain_end H p (l # ls) = Some q \<Longrightarrow> chain_end H (H (p @ line_text l)) ls = Some q"
  by (auto simp: Let_def hashEvent_def line_text_def split: option.splits if_splits)

lemma chain_texts_snoc:
  "chain_end H p ls = Some q \<Longrightarrow> chain_texts H p (ls @ [l]) = chain_texts H p ls @ [q @ line_text l]"
proof (induction ls arbitrary: p)
  case (Cons x ls)
  from Cons.IH [OF chain_end_Cons [OF Cons.prems]] show ?case by simp
qed simp

lemma chain_end_snoc:
  assumes "chain_end H p (ls @ [l]) = Some q"
  obtains r where "chain_end H p ls = Some r" "q = H (r @ line_text l)"
  using assms chain_end_Cons [of H _ l "[]"] that
  by (auto simp: chain_end_append split: option.splits simp del: chain_end.simps(2))

lemma chain_end_length:
  "\<forall>x. length (H x) = 64 \<Longrightarrow> length p = 64 \<Longrightarrow> chain_end H p ls = Some q \<Longrightarrow> length q = 64"
proof (induction ls arbitrary: p)
  case (Cons l ls)
  then show ?case using chain_end_Cons by blast
qed simp

lemma chain_unique:
  assumes "\<forall>x. length (H x) = 64"
    and "chain_end H g xs = Some q" "chain_end H g ys = Some q" "length g = 64"
    and "inj_on H (set (chain_texts H g xs) \<union> set (chain_texts H g ys))"
    and "g \<notin> H ` (set (chain_texts H g xs) \<union> set (chain_texts H g ys))"
  shows "map line_text xs = map line_text ys"
  using assms(2-)
proof (induction xs arbitrary: q ys rule: rev_induct)
  case Nil
  then show ?case
  proof (cases ys rule: rev_cases)
    case (snoc ys' y)
    with Nil obtain r where "chain_end H g ys' = Some r" "q = H (r @ line_text y)"
      by (metis chain_end_snoc)
    with Nil show ?thesis by (auto simp: snoc chain_texts_snoc)
  qed simp
next
  case (snoc x xs)
  from snoc.prems(1) obtain r where r: "chain_end H g xs = Some r" "q = H (r @ line_text x)"
    by (rule chain_end_snoc)
  show ?case
  proof (cases ys rule: rev_cases)
    case Nil
    with snoc.prems r show ?thesis by (auto simp: chain_texts_snoc)
  next
    case y: (snoc ys' y)
    from snoc.prems(2) obtain r' where r': "chain_end H g ys' = Some r'" "q = H (r' @ line_text y)"
      unfolding y by (rule chain_end_snoc)
    have "r @ line_text x = r' @ line_text y"
      using snoc.prems(4) r r' by (auto simp: y chain_texts_snoc dest!: inj_onD)
    moreover have "length r = length r'"
      using chain_end_length [OF assms(1) snoc.prems(3)] r(1) r'(1) by metis
    ultimately have e: "r = r'" "line_text x = line_text y" by simp_all
    have "map line_text xs = map line_text ys'"
      using snoc.prems r(1) r'(1) e(1)
      by (intro snoc.IH [of r]) (auto simp: y chain_texts_snoc intro: inj_on_subset)
    with e show ?thesis by (simp add: y)
  qed
qed

text \<open>C7.
  Tamper evidence: two ledgers that both verify as hashed and end with the same hash hold the
  same events, in number, order and canonical text, unless the digest collides on the texts
  hashed in them or produces the genesis constant.\<close>

theorem ledger_tamper_evident:
  assumes "\<forall>x. length (H x) = 64"
    and "ledger_verify H (Some s) = Inr (VOk False m)" "ledger_verify H (Some t) = Inr (VOk False n)"
    and "chain_end H GENESIS_PREV_HASH (lines s) = chain_end H GENESIS_PREV_HASH (lines t)"
    and "inj_on H (set (chain_texts H GENESIS_PREV_HASH (lines s)) \<union>
      set (chain_texts H GENESIS_PREV_HASH (lines t)))"
    and "GENESIS_PREV_HASH \<notin> H ` (set (chain_texts H GENESIS_PREV_HASH (lines s)) \<union>
      set (chain_texts H GENESIS_PREV_HASH (lines t)))"
  shows "m = n \<and> map line_text (lines s) = map line_text (lines t)"
proof -
  from assms(2-4) obtain q where "chain_end H GENESIS_PREV_HASH (lines s) = Some q"
      "chain_end H GENESIS_PREV_HASH (lines t) = Some q"
    by (auto simp: verify_ok_iff)
  then have e: "map line_text (lines s) = map line_text (lines t)"
    using assms(1,5,6) by (intro chain_unique) (simp_all add: GENESIS_PREV_HASH_def)
  from map_eq_imp_length_eq [OF e] assms(2,3) show ?thesis by (simp add: e verify_ok_iff)
qed

text \<open>A one-event ledger, and the same with the keys of the event in another order.\<close>

definition demo_file :: "json \<Rightarrow> string" where
  "demo_file ev = stringify (seal ev GENESIS_PREV_HASH (hashEvent demo_digest GENESIS_PREV_HASH ev)) @ [newline]"

definition demo_ab :: json where "demo_ab = JObj [(''a'', JNull), (''b'', JBool True)]"
definition demo_ba :: json where "demo_ba = JObj [(''b'', JBool True), (''a'', JNull)]"

lemma ledger_tamper_evident_witness:
  "demo_file demo_ab \<noteq> demo_file demo_ba \<and>
   map line_text (lines (demo_file demo_ab)) = map line_text (lines (demo_file demo_ba))"
proof -
  have ab: "ledger_verify demo_digest (Some (demo_file demo_ab)) = Inr (VOk False 1)" by code_simp
  have ba: "ledger_verify demo_digest (Some (demo_file demo_ba)) = Inr (VOk False 1)" by code_simp
  have e: "chain_end demo_digest GENESIS_PREV_HASH (lines (demo_file demo_ab)) =
      chain_end demo_digest GENESIS_PREV_HASH (lines (demo_file demo_ba))" by code_simp
  have t: "set (chain_texts demo_digest GENESIS_PREV_HASH (lines (demo_file demo_ab))) \<union>
      set (chain_texts demo_digest GENESIS_PREV_HASH (lines (demo_file demo_ba))) =
      {GENESIS_PREV_HASH @ canonicalize demo_ab}" by code_simp
  have g: "GENESIS_PREV_HASH \<noteq> demo_digest (GENESIS_PREV_HASH @ canonicalize demo_ab)" by code_simp
  have "demo_file demo_ab \<noteq> demo_file demo_ba" by code_simp
  then show ?thesis
    using ledger_tamper_evident [OF _ ab ba e] length_demo_digest g by (simp add: t)
qed

text \<open>
  The chain does not detect a removed tail: whatever number of lines is cut from the end of a
  ledger that verifies, what is left verifies.\<close>

theorem ledger_truncation_undetected:
  assumes "ledger_verify H (Some s) = Inr (VOk False n)" "lines t = take k (lines s)"
  shows "ledger_verify H (Some t) = Inr (VOk False (min n k))"
proof -
  have "chain_end H GENESIS_PREV_HASH (take k (lines s) @ drop k (lines s)) \<noteq> None"
    using assms(1) by (simp add: verify_ok_iff)
  then have "chain_end H GENESIS_PREV_HASH (take k (lines s)) \<noteq> None"
    unfolding chain_end_append by (auto split: option.splits)
  then show ?thesis using assms by (simp add: verify_ok_iff)
qed

definition demo_two :: string where
  "demo_two = content (fst (snd (ledger_run demo_digest (take 1 demo_ops) (new_ledger ''r1'', None, 0))))"

lemma ledger_truncation_undetected_witness:
  "ledger_verify demo_digest (Some demo_two) = Inr (VOk False 2) \<and>
   ledger_verify demo_digest (Some (hd (lines demo_two) @ [newline])) = Inr (VOk False 1)"
proof -
  have v: "ledger_verify demo_digest (Some demo_two) = Inr (VOk False 2)" by code_simp
  have "lines (hd (lines demo_two) @ [newline]) = take 1 (lines demo_two)" by code_simp
  from ledger_truncation_undetected [OF v this] v show ?thesis by simp
qed

text \<open>A line that holds \<open>null\<close> is not reported as broken: the promise of \<open>verify\<close> is rejected.\<close>

lemma verify_null_throws: "ledger_verify H (Some ''null'') = Inl ''TypeError''"
proof -
  have "lines ''null'' = [''null'']" "json_parse ''null'' = Some JNull" by code_simp+
  then show ?thesis by (simp add: ledger_verify_def)
qed

text \<open>
  One failed call poisons the write queue: every later call of \<open>log\<close> on the same ledger object
  is rejected and writes nothing, whatever the platform answers then.\<close>

theorem ledger_poisoned:
  assumes "ledger_log H io typ payload severity taskId metadata led f = (False, led', f')"
    and "list_all (\<lambda>op. \<exists>io t p s k m. op = OpLog io t p s k m) ops"
  shows "ledger_run H ops (led', f', n) = (led', f', n)"
proof -
  have "queueRejected led'"
    using assms(1) by (auto simp: ledger_log_def Let_def split: if_splits prod.splits)
  with assms(2) show ?thesis
  proof (induction ops)
    case (Cons op ops)
    then have "ledger_step H op (led', f', n) = (led', f', n)" by (auto simp: ledger_log_def)
    with Cons show ?case by (simp add: ledger_run_def)
  qed (simp add: ledger_run_def)
qed

lemma ledger_poisoned_witness:
  "\<exists>led f. ledger_log demo_digest (demo_io\<lparr>mkdir_ok := False\<rparr>) ''a'' (JObj []) Info None JUndef
      (new_ledger ''r'') None = (False, led, f) \<and>
     ledger_run demo_digest [OpLog demo_io ''b'' (JObj []) Info None JUndef] (led, f, 0) = (led, f, 0)"
proof -
  let ?led = "(new_ledger ''r'')\<lparr>initPromise := Rejected, queueRejected := True\<rparr>"
  have e: "ledger_log demo_digest (demo_io\<lparr>mkdir_ok := False\<rparr>) ''a'' (JObj []) Info None JUndef
      (new_ledger ''r'') None = (False, ?led, None)"
    by (simp add: ledger_log_def ledger_init_def new_ledger_def demo_io_def)
  with ledger_poisoned [OF e, of "[OpLog demo_io ''b'' (JObj []) Info None JUndef]" 0]
  show ?thesis by auto
qed

section \<open>The ledger as a list of events\<close>

lemma sealed_line_text: "sealable ev \<Longrightarrow> line_text (stringify (seal ev p h)) = canonicalize ev"
  by (simp add: line_text_def seal_parse canonicalize_reparsed)

text \<open>What the file says: the texts of the events behind the genesis.\<close>

definition event_texts :: "text_file \<Rightarrow> string list" where
  "event_texts f = tl (map line_text (lines (content f)))"

lemma init_texts:
  assumes "\<forall>x. H x \<noteq> []" "ledger_inv H (led, f, n)" "stat_ok io" "genesis_cut io \<in> {None, Some 0}"
    "ledger_init H io led f = (ok, led1, f1)"
  shows "event_texts f1 = event_texts f"
proof -
  from assms(2) obtain q where q: "chained_file H q (content f)" by auto
  show ?thesis
  proof (cases "initPromise led = NotStarted \<and> mkdir_ok io \<and> content f = []")
    case True
    then have "q = GENESIS_PREV_HASH" using q by (simp add: chained_file_def)
    then show ?thesis
      using assms(3-5) True q chained_append [OF q, of "genesis_json (genesis_id io) (genesis_time io) (runId led)"]
      by (auto simp: ledger_init_def writeGenesis_def append_file_def Let_def event_texts_def)
  next
    case False
    then have "f1 = f" using assms(3,5) by (auto simp: ledger_init_def Let_def split: InitPromise.splits if_splits)
    then show ?thesis by simp
  qed
qed

lemma log_texts:
  assumes "\<forall>x. H x \<noteq> []" "ledger_inv H (led, f, n)"
    and clean: "clean_op (OpLog io typ payload severity taskId metadata)"
    and res: "ledger_log H io typ payload severity taskId metadata led f = (ok, led', f')"
  shows "event_texts f' = event_texts f @
    (if ok then [canonicalize (event_json (event_id io) (event_time io) typ severity taskId payload metadata)] else [])"
proof (cases "queueRejected led")
  case False
  let ?ev = "event_json (event_id io) (event_time io) typ severity taskId payload metadata"
  obtain r led1 f1 where i: "ledger_init H io led f = (r, led1, f1)" by (metis prod_cases3)
  have same: "event_texts f1 = event_texts f" using init_texts [OF assms(1,2) _ _ i] clean by simp
  note init = ledger_init_inv [OF assms(1,2) _ _ False i]
  show ?thesis
  proof (cases r)
    case True
    have one: "chained_file H (lastHash led1) (content f1)" "length (lines (content f1)) = n + 1"
      using init True clean by auto
    have s: "sealable ?ev" using clean by simp
    have "lines (content f1) \<noteq> []" using one(2) by auto
    then show ?thesis
      using res False i True clean same chained_append [OF one(1) s] sealed_line_text [OF s]
      by (cases "event_cut io") (auto simp: ledger_log_def append_file_def Let_def event_texts_def)
  qed (use res False i same in \<open>auto simp: ledger_log_def\<close>)
qed (use res in \<open>simp add: ledger_log_def\<close>)

text \<open>C9.
  The ledger file refines an append-only list of events. After any history of calls, restarts and
  failures of \<open>mkdir\<close>, \<open>readFile\<close> and \<open>appendFile\<close> in which no failed append writes a part and \<open>stat\<close> does
  not fail on an existing file, one more \<open>log\<close> of that kind appends the canonical text of its event to the
  list that the file stands for if its promise is fulfilled, and leaves the list as it is if it is
  rejected. (A failing \<open>stat\<close> is excluded because it appends a second genesis, \<open>stat_failure_breaks\<close>; the
  digest is not empty and the values logged are JSON.)\<close>

theorem ledger_refines_list:
  assumes "\<forall>x. H x \<noteq> []" "list_all clean_op ops" "ledger_run H ops (new_ledger rid, None, 0) = (led, f, n)"
    and "clean_op (OpLog io typ payload severity taskId metadata)"
    and "ledger_log H io typ payload severity taskId metadata led f = (ok, led', f')"
  shows "event_texts f' = event_texts f @
    (if ok then [canonicalize (event_json (event_id io) (event_time io) typ severity taskId payload metadata)] else [])"
proof -
  have "ledger_inv H (led, f, n)"
    using ledger.inv_reachable [OF _ ledger_run_steps [OF assms(1,2)]] assms(3) by metis
  from log_texts [OF assms(1) this assms(4,5)] show ?thesis .
qed

lemma ledger_refines_list_witness:
  "\<exists>led' f'. ledger_log demo_digest demo_io ''a'' (JObj []) Info None JUndef (new_ledger ''r1'') None = (True, led', f') \<and>
     event_texts f' = [canonicalize (event_json ''e'' ''1'' ''a'' Info None (JObj []) JUndef)]"
proof -
  have "fst (ledger_log demo_digest demo_io ''a'' (JObj []) Info None JUndef (new_ledger ''r1'') None)"
    by (simp add: ledger_log_def ledger_init_def new_ledger_def demo_io_def writeGenesis_def append_file_def Let_def)
  then obtain led' f' where r: "ledger_log demo_digest demo_io ''a'' (JObj []) Info None JUndef (new_ledger ''r1'') None = (True, led', f')"
    by (metis prod.collapse)
  have "\<forall>x. demo_digest x \<noteq> []" using length_demo_digest by (metis list.size(3) zero_neq_numeral)
  from ledger_refines_list [OF this, of "[]" "''r1''" "new_ledger ''r1''" None 0, OF _ _ _ r] r show ?thesis
    by (simp add: ledger_run_def demo_io_def event_texts_def)
qed

end
