(* ===== verification/Worktree.thy ===== *)
theory Worktree
  imports Prelude Json
begin

text \<open>
  \<open>src/core/worktree-manager.ts\<close>: the in-process pool of lanes that the subagent manager draws
  from, and the life cycle of the managed worktree directories on disk.

  The pool is the \<open>Map\<close> of the class. The disk is the association list from directory paths to
  what the class looks at in a directory: its modification time, the modification time of its
  lock file, and its meta file. Times are milliseconds; the current time and the random slug are
  arguments. A failure of \<open>mkdir\<close>, \<open>writeFile\<close> or \<open>rm\<close> is not modelled.
\<close>

section \<open>The pool\<close>

type_synonym pool = "(string, bool) dict"

definition new_pool :: "nat \<Rightarrow> pool" where
  "new_pool maxWorktrees =
    foldl (\<lambda>p i. dset (''worktree-'' @ show_nat i) True p) [] [0..<maxWorktrees]"

definition acquire :: "pool \<Rightarrow> string option \<times> pool" where
  "acquire p = (case List.find (\<lambda>e. snd e) p of
     None \<Rightarrow> (None, p)
   | Some (wid, _) \<Rightarrow> (Some wid, dset wid False p))"

definition release :: "string \<Rightarrow> pool \<Rightarrow> pool" where
  "release wid p = dset wid True p"

definition getAvailableCount :: "pool \<Rightarrow> nat" where
  "getAvailableCount p = length (filter (\<lambda>e. snd e) p)"

section \<open>Managed worktrees\<close>

record WorktreeEntry =
  we_taskId :: json
  we_path :: string
  we_createdAt :: json
  we_branch :: json

text \<open>The meta file is absent, or has a text that is parsed as JSON when it is read.\<close>

record wt_dir =
  dir_mtime :: int
  lock_mtime :: "int option"
  meta_text :: "string option"

record disk =
  base_exists :: bool
  dirs :: "(string, wt_dir) dict"

definition ADOPT_LOCK_AGE_MS :: int where "ADOPT_LOCK_AGE_MS = 5 * 60 * 1000"
definition PRUNE_LOCK_GRACE_MS :: int where "PRUNE_LOCK_GRACE_MS = 60 * 1000"

definition is_lower :: "char \<Rightarrow> bool" where
  "is_lower c = (let n = (of_char c :: nat) in 97 \<le> n \<and> n \<le> 122)"

definition is_hex :: "char \<Rightarrow> bool" where
  "is_hex c \<longleftrightarrow> is_digit c \<or> (let n = (of_char c :: nat) in 97 \<le> n \<and> n \<le> 102)"

text \<open>\<open>/^[a-z]+-[a-z]+-[0-9a-f]{6}$/\<close>: no class of the pattern holds a hyphen.\<close>

definition WORKTREE_NAME_PATTERN :: "string \<Rightarrow> bool" where
  "WORKTREE_NAME_PATTERN name =
    (let a = takeWhile is_lower name; r = dropWhile is_lower name in
     a \<noteq> [] \<and> (case r of [] \<Rightarrow> False | c # r1 \<Rightarrow> c = CHR ''-'' \<and>
       (let b = takeWhile is_lower r1; r2 = dropWhile is_lower r1 in
        b \<noteq> [] \<and> (case r2 of [] \<Rightarrow> False | d # h \<Rightarrow>
          d = CHR ''-'' \<and> length h = 6 \<and> list_all is_hex h))))"

definition adjectives :: "string list" where
  "adjectives = [''hopeful'', ''brave'', ''calm'', ''eager'', ''gentle'', ''jolly'', ''keen'', ''lucid'',
     ''merry'', ''nimble'']"

definition nouns :: "string list" where
  "nouns = [''bhaskara'', ''euler'', ''gauss'', ''hopper'', ''lovelace'', ''newton'', ''pascal'',
     ''ramanujan'', ''tesla'', ''turing'']"

text \<open>The two random indices are below 10; three random bytes give six hexadecimal digits.\<close>

definition hex_byte :: "nat \<Rightarrow> string" where
  "hex_byte b = [hex_char (b div 16), hex_char (b mod 16)]"

definition randomSlug :: "nat \<Rightarrow> nat \<Rightarrow> nat list \<Rightarrow> string" where
  "randomSlug i j bytes = adjectives ! i @ ''-'' @ nouns ! j @ ''-'' @ concat (map hex_byte bytes)"

definition path_join :: "string \<Rightarrow> string \<Rightarrow> string" where
  "path_join base name = base @ ''/'' @ name"

fun last_component :: "string \<Rightarrow> string" where
  "last_component [] = []"
| "last_component (c # cs) =
    (if CHR ''/'' \<in> set (c # cs) then last_component cs else c # cs)"

text \<open>\<open>readdir\<close>: the names directly under the base directory.\<close>

definition readdir :: "string \<Rightarrow> disk \<Rightarrow> string list option" where
  "readdir base d = (if base_exists d
     then Some (filter (\<lambda>n. CHR ''/'' \<notin> set n) (map (drop (length base + 1))
            (filter (\<lambda>p. starts_with p (path_join base [])) (dkeys (dirs d)))))
     else None)"

definition rm_rf :: "string \<Rightarrow> disk \<Rightarrow> disk" where
  "rm_rf path d = d\<lparr>dirs := filter (\<lambda>e. fst e \<noteq> path \<and> \<not> starts_with (fst e) (path_join path [])) (dirs d)\<rparr>"

text \<open>Writing a file of a directory changes the directory's own time when the file is new.\<close>

definition write_lock :: "int \<Rightarrow> wt_dir \<Rightarrow> wt_dir" where
  "write_lock now w = w\<lparr>lock_mtime := Some now,
     dir_mtime := (if lock_mtime w = None then now else dir_mtime w)\<rparr>"

definition write_meta :: "int \<Rightarrow> string \<Rightarrow> wt_dir \<Rightarrow> wt_dir" where
  "write_meta now t w = w\<lparr>meta_text := Some t,
     dir_mtime := (if meta_text w = None then now else dir_mtime w)\<rparr>"

definition wt_create ::
  "string \<Rightarrow> string \<Rightarrow> int \<Rightarrow> string \<Rightarrow> string \<Rightarrow> disk \<Rightarrow> string \<times> disk" where
  "wt_create base slug now now_iso taskId d =
    (let path = path_join base slug;
         w0 = (case dget (dirs d) path of Some w \<Rightarrow> w
               | None \<Rightarrow> \<lparr>dir_mtime = now, lock_mtime = None, meta_text = None\<rparr>);
         meta = JObj [(''taskId'', JStr taskId), (''createdAt'', JStr now_iso),
                      (''branch'', JStr (''apohara/'' @ slug))];
         w1 = write_lock now (write_meta now (stringify meta) w0)
     in (path, d\<lparr>base_exists := True, dirs := dset path w1 (dirs d)\<rparr>))"

text \<open>
  \<open>adoptOrphan\<close> awaits between its look at the directory and what it does to it, so the two are
  separate steps of the disk; other calls may run between them. Writing the lock of a directory that
  has gone in between throws.
\<close>

datatype adopt_choice = Refuse | Prune_it | Take

definition adopt_check :: "int \<Rightarrow> string \<Rightarrow> disk \<Rightarrow> adopt_choice" where
  "adopt_check now path d =
    (if \<not> WORKTREE_NAME_PATTERN (last_component path) then Refuse
     else case dget (dirs d) path of None \<Rightarrow> Refuse
     | Some w \<Rightarrow>
       if meta_text w = None then Prune_it
       else if (case lock_mtime w of None \<Rightarrow> False | Some m \<Rightarrow> now - m < ADOPT_LOCK_AGE_MS) then Refuse
       else Take)"

definition adopt_finish :: "int \<Rightarrow> string \<Rightarrow> adopt_choice \<Rightarrow> disk \<Rightarrow> (string + bool) \<times> disk" where
  "adopt_finish now path choice d = (case choice of
     Refuse \<Rightarrow> (Inr False, d)
   | Prune_it \<Rightarrow> (Inr False, rm_rf path d)
   | Take \<Rightarrow> (case dget (dirs d) path of None \<Rightarrow> (Inl ''ENOENT'', d)
       | Some w \<Rightarrow> (Inr True, d\<lparr>dirs := dset path (write_lock now w) (dirs d)\<rparr>)))"

text \<open>A call that no other call overlaps.\<close>

definition adoptOrphan :: "int \<Rightarrow> string \<Rightarrow> disk \<Rightarrow> (string + bool) \<times> disk" where
  "adoptOrphan now path d = adopt_finish now path (adopt_check now path d) d"

text \<open>
  \<open>list\<close>: a directory whose meta file is missing, is not JSON or holds \<open>null\<close> is skipped by the
  \<open>catch\<close>; a property that the meta value lacks is \<open>undefined\<close>.
\<close>

definition json_field :: "json \<Rightarrow> string \<Rightarrow> json" where
  "json_field v k = (case v of
     JObj kvs \<Rightarrow> (case map_of kvs k of None \<Rightarrow> JUndef | Some x \<Rightarrow> x) | _ \<Rightarrow> JUndef)"

definition list_entry :: "string \<Rightarrow> disk \<Rightarrow> string \<Rightarrow> WorktreeEntry option" where
  "list_entry base d name =
    (if \<not> WORKTREE_NAME_PATTERN name then None
     else case dget (dirs d) (path_join base name) of None \<Rightarrow> None
     | Some w \<Rightarrow> (case meta_text w of None \<Rightarrow> None
       | Some t \<Rightarrow> (case json_parse t of None \<Rightarrow> None
         | Some v \<Rightarrow> if v = JNull then None
             else Some \<lparr>we_taskId = json_field v ''taskId'', we_path = path_join base name,
                       we_createdAt = json_field v ''createdAt'', we_branch = json_field v ''branch''\<rparr>)))"

definition wt_list :: "string \<Rightarrow> disk \<Rightarrow> WorktreeEntry list" where
  "wt_list base d = (case readdir base d of None \<Rightarrow> []
     | Some names \<Rightarrow> List.map_filter (list_entry base d) names)"

definition restoreToProjectRoot :: "string \<Rightarrow> int \<Rightarrow> string \<Rightarrow> disk \<Rightarrow> disk" where
  "restoreToProjectRoot base now taskId d =
    (case List.find (\<lambda>e. we_taskId e = JStr taskId) (wt_list base d) of
       None \<Rightarrow> d
     | Some e \<Rightarrow> (case dget (dirs d) (we_path e) of None \<Rightarrow> d
         | Some w \<Rightarrow> if lock_mtime w = None then d
             else d\<lparr>dirs := dset (we_path e) (w\<lparr>lock_mtime := None, dir_mtime := now\<rparr>) (dirs d)\<rparr>))"

definition wt_cleanup :: "string \<Rightarrow> string \<Rightarrow> disk \<Rightarrow> disk" where
  "wt_cleanup base taskId d =
    (case List.find (\<lambda>e. we_taskId e = JStr taskId) (wt_list base d) of
       None \<Rightarrow> d | Some e \<Rightarrow> rm_rf (we_path e) d)"

text \<open>One iteration of \<open>pruneStale\<close>, and the loop over the names.\<close>

definition prune_one :: "string \<Rightarrow> int \<Rightarrow> int \<Rightarrow> string \<Rightarrow> disk \<times> nat \<Rightarrow> disk \<times> nat" where
  "prune_one base now olderThanMs name s =
    (let (d, pruned) = s; path = path_join base name in
     if \<not> WORKTREE_NAME_PATTERN name then s
     else case dget (dirs d) path of None \<Rightarrow> s
     | Some w \<Rightarrow>
       if now - dir_mtime w < olderThanMs then s
       else if (case lock_mtime w of None \<Rightarrow> False | Some m \<Rightarrow> now - m < PRUNE_LOCK_GRACE_MS) then s
       else (rm_rf path d, pruned + 1))"

definition pruneStale :: "string \<Rightarrow> int \<Rightarrow> int \<Rightarrow> disk \<Rightarrow> nat \<times> disk" where
  "pruneStale base now olderThanMs d = (case readdir base d of None \<Rightarrow> (0, d)
     | Some names \<Rightarrow>
       (let (d', pruned) = fold (prune_one base now olderThanMs) names (d, 0) in (pruned, d')))"

section \<open>Facts about the pool\<close>

lemma getAvailableCount_dset:
  "distinct (dkeys p) \<Longrightarrow> dget p w = Some b \<Longrightarrow>
   getAvailableCount (dset w c p) + (if b then 1 else 0) = getAvailableCount p + (if c then 1 else 0)"
proof (induction p)
  case (Cons e p)
  obtain k v where e: "e = (k, v)" by force
  have "map_of p w = None" if "k = w" using Cons.prems(1) that by (auto simp: e dkeys_def map_of_eq_None_iff)
  with Cons show ?case
    by (auto simp: e dget_def dset_def dkeys_def getAvailableCount_def)
qed simp

lemma acquire_None: "fst (acquire p) = None \<longleftrightarrow> getAvailableCount p = 0"
proof -
  have "getAvailableCount p = 0 \<longleftrightarrow> List.find (\<lambda>e. snd e) p = None"
    unfolding getAvailableCount_def find_None_iff length_0_conv filter_empty_conv by blast
  then show ?thesis by (auto simp: acquire_def split: option.splits)
qed

lemma acquire_Some:
  assumes "distinct (dkeys p)" "acquire p = (Some w, p')"
  shows "dget p w = Some True \<and> p' = dset w False p"
proof -
  from assms(2) obtain b where f: "List.find (\<lambda>e. snd e) p = Some (w, b)" "p' = dset w False p"
    by (auto simp: acquire_def split: option.splits)
  then have "(w, b) \<in> set p" b using find_SomeD by fastforce+
  with assms(1) f(2) show ?thesis by (simp add: dget_def dkeys_def map_of_is_SomeI)
qed

section \<open>Names and paths\<close>

lemma path_join_inj [simp]: "path_join base m = path_join base n \<longleftrightarrow> m = n"
  by (simp add: path_join_def)

lemma is_lower_char: "is_lower c \<Longrightarrow> c \<noteq> CHR ''-'' \<and> c \<noteq> CHR ''/''"
  by (auto simp: is_lower_def)

lemma pattern_intro:
  assumes "list_all is_lower a" "a \<noteq> []" "list_all is_lower b" "b \<noteq> []" "list_all is_hex h" "length h = 6"
  shows "WORKTREE_NAME_PATTERN (a @ ''-'' @ b @ ''-'' @ h)"
proof -
  have n: "\<not> is_lower (CHR ''-'')" by code_simp
  have "takeWhile is_lower (a @ CHR ''-'' # r) = a" "dropWhile is_lower (a @ CHR ''-'' # r) = CHR ''-'' # r"
    "takeWhile is_lower (b @ CHR ''-'' # r) = b" "dropWhile is_lower (b @ CHR ''-'' # r) = CHR ''-'' # r" for r
    using n takeWhile_number [OF assms(1), of "CHR ''-'' # r"] takeWhile_number [OF assms(3), of "CHR ''-'' # r"]
    by simp_all
  then show ?thesis using assms by (simp add: WORKTREE_NAME_PATTERN_def Let_def)
qed

lemma pattern_no_slash: "WORKTREE_NAME_PATTERN n \<Longrightarrow> CHR ''/'' \<notin> set n"
proof -
  assume p: "WORKTREE_NAME_PATTERN n"
  define a where "a = takeWhile is_lower n"
  define r where "r = dropWhile is_lower n"
  from p obtain r1 where r: "r = CHR ''-'' # r1"
    by (auto simp: WORKTREE_NAME_PATTERN_def Let_def r_def split: list.splits)
  with p obtain h where h: "dropWhile is_lower r1 = CHR ''-'' # h" "list_all is_hex h"
    by (auto simp: WORKTREE_NAME_PATTERN_def Let_def r_def split: list.splits)
  have lower: "CHR ''/'' \<notin> set (takeWhile is_lower s)" for s
    using is_lower_char by (metis set_takeWhileD)
  have "\<not> is_hex (CHR ''/'')" by code_simp
  then have "CHR ''/'' \<notin> set h" using h(2) by (auto simp: list_all_iff)
  moreover have "n = takeWhile is_lower n @ ''-'' @ takeWhile is_lower r1 @ ''-'' @ h"
  proof -
    have "r1 = takeWhile is_lower r1 @ CHR ''-'' # h"
      using takeWhile_dropWhile_id [of is_lower r1] unfolding h(1) by (rule sym)
    moreover have "n = takeWhile is_lower n @ CHR ''-'' # r1"
      using takeWhile_dropWhile_id [of is_lower n] r unfolding r_def by metis
    ultimately show ?thesis by (metis append_Cons append_Nil)
  qed
  then have "set n = set (takeWhile is_lower n @ ''-'' @ takeWhile is_lower r1 @ ''-'' @ h)" by (rule arg_cong)
  ultimately show ?thesis using lower [of n] lower [of r1] by auto
qed

lemma last_component_join: "CHR ''/'' \<notin> set n \<Longrightarrow> last_component (path_join base n) = n"
proof -
  assume n: "CHR ''/'' \<notin> set n"
  have s: "last_component n = n" using n by (cases n) simp_all
  have "last_component (base @ CHR ''/'' # n) = n" by (induction base) (simp_all add: n s)
  then show ?thesis by (simp add: path_join_def)
qed

lemma hex_char_hex: "n < 16 \<Longrightarrow> is_hex (hex_char n)"
  by (auto simp: is_hex_def is_digit_def hex_char_def Let_def)

lemma hex_byte_hex: "b < 256 \<Longrightarrow> list_all is_hex (hex_byte b)"
  by (simp add: hex_byte_def hex_char_hex)

lemma randomSlug_pattern:
  assumes "i < 10" "j < 10" "length bytes = 3" "list_all (\<lambda>b. b < 256) bytes"
  shows "WORKTREE_NAME_PATTERN (randomSlug i j bytes)"
proof -
  have "list_all (\<lambda>a. list_all is_lower a \<and> a \<noteq> []) adjectives"
    "list_all (\<lambda>a. list_all is_lower a \<and> a \<noteq> []) nouns" by code_simp+
  then have "list_all is_lower (adjectives ! i) \<and> adjectives ! i \<noteq> []" "list_all is_lower (nouns ! j) \<and> nouns ! j \<noteq> []"
    using assms(1,2) by (simp_all add: list_all_length adjectives_def nouns_def)
  moreover obtain x y z where b: "bytes = [x, y, z]"
    using assms(3) by (metis length_0_conv length_Suc_conv numeral_3_eq_3)
  have "list_all is_hex (concat (map hex_byte bytes))"
    using assms(4) hex_byte_hex by (simp add: b)
  moreover have "length (concat (map hex_byte bytes)) = 6" by (simp add: b hex_byte_def)
  ultimately show ?thesis unfolding randomSlug_def by (intro pattern_intro) auto
qed

definition demo_disk :: disk where
  "demo_disk = \<lparr>base_exists = True, dirs =
     [(''/w/brave-euler-0a1b2c'', \<lparr>dir_mtime = 0, lock_mtime = Some 0, meta_text = Some ''{}''\<rparr>),
      (''/w/calm-gauss-00ff00'', \<lparr>dir_mtime = 0, lock_mtime = Some 390000, meta_text = None\<rparr>),
      (''/w/notes'', \<lparr>dir_mtime = 0, lock_mtime = None, meta_text = None\<rparr>)]\<rparr>"

section \<open>Pruning\<close>

definition flat :: "disk \<Rightarrow> bool" where
  "flat d \<longleftrightarrow> distinct (dkeys (dirs d)) \<and>
     (\<forall>p \<in> set (dkeys (dirs d)). \<forall>q \<in> set (dkeys (dirs d)). \<not> starts_with q (path_join p []))"

definition prunable :: "int \<Rightarrow> int \<Rightarrow> wt_dir \<Rightarrow> bool" where
  "prunable now age w \<longleftrightarrow> age \<le> now - dir_mtime w \<and>
     (\<forall>m. lock_mtime w = Some m \<longrightarrow> PRUNE_LOCK_GRACE_MS \<le> now - m)"

definition prune_target :: "string \<Rightarrow> int \<Rightarrow> int \<Rightarrow> string \<times> wt_dir \<Rightarrow> bool" where
  "prune_target base now age e \<longleftrightarrow> prunable now age (snd e) \<and>
     (\<exists>n. WORKTREE_NAME_PATTERN n \<and> fst e = path_join base n)"

lemma starts_with_join: "starts_with p (path_join base []) \<longleftrightarrow> (\<exists>n. p = path_join base n)"
  by (auto simp: starts_with_iff path_join_def)

lemma drop_join [simp]: "drop (Suc (length base)) (path_join base n) = n"
  by (simp add: path_join_def)

lemma set_readdir:
  assumes "readdir base d = Some names"
  shows "set names = {n. CHR ''/'' \<notin> set n \<and> path_join base n \<in> set (dkeys (dirs d))}"
proof -
  have "names = filter (\<lambda>n. CHR ''/'' \<notin> set n) (map (drop (Suc (length base)))
      (filter (\<lambda>p. starts_with p (path_join base [])) (dkeys (dirs d))))"
    using assms by (simp add: readdir_def split: if_splits)
  then show ?thesis by (force simp: starts_with_join)
qed

lemma distinct_readdir:
  assumes "readdir base d = Some names" "distinct (dkeys (dirs d))"
  shows "distinct names"
proof -
  let ?ps = "filter (\<lambda>p. starts_with p (path_join base [])) (dkeys (dirs d))"
  have "inj_on (drop (length base + 1)) (set ?ps)"
    by (auto simp: inj_on_def starts_with_join)
  then have "distinct (map (drop (length base + 1)) ?ps)"
    using assms(2) by (simp add: distinct_map)
  then show ?thesis using assms(1) by (auto simp: readdir_def split: if_splits)
qed

text \<open>The loop over distinct names removes exactly the targets among them and counts them.\<close>

definition target_in :: "string \<Rightarrow> int \<Rightarrow> int \<Rightarrow> string list \<Rightarrow> string \<times> wt_dir \<Rightarrow> bool" where
  "target_in base now age ns e \<longleftrightarrow> prunable now age (snd e) \<and>
     (\<exists>n \<in> set ns. WORKTREE_NAME_PATTERN n \<and> fst e = path_join base n)"

lemma rm_rf_flat:
  assumes "flat d" "path \<in> set (dkeys (dirs d))" "dirs e = filter P (dirs d)"
  shows "dirs (rm_rf path e) = filter (\<lambda>x. P x \<and> fst x \<noteq> path) (dirs d)"
proof -
  have "\<not> starts_with (fst x) (path_join path [])" if "x \<in> set (dirs d)" for x
    using assms(1,2) that by (auto simp: flat_def dkeys_def)
  then show ?thesis by (auto simp: rm_rf_def assms(3) conj_commute intro!: filter_cong)
qed

lemma dget_filter:
  "distinct (dkeys m) \<Longrightarrow> dget (filter P m) k =
     (case dget m k of Some v \<Rightarrow> if P (k, v) then Some v else None | None \<Rightarrow> None)"
proof (induction m)
  case (Cons e m)
  have "map_of m (fst e) = None" using Cons.prems by (simp add: dkeys_def map_of_eq_None_iff)
  with Cons show ?case by (cases e) (auto simp: dget_def dkeys_def split: option.splits)
qed simp

lemma dget_in: "distinct (dkeys m) \<Longrightarrow> (k, v) \<in> set m \<Longrightarrow> dget m k = Some v"
  by (simp add: dget_def dkeys_def map_of_is_SomeI)

lemma length_filter_one:
  assumes "distinct (dkeys m)" "dget m k = Some v"
  shows "length (filter (\<lambda>x. P x \<or> fst x = k) m) = length (filter P m) + (if P (k, v) then 0 else 1)"
  using assms
proof (induction m)
  case (Cons e m)
  have "k = fst e \<Longrightarrow> filter (\<lambda>x. P x \<or> fst x = k) m = filter P m"
  proof -
    assume "k = fst e"
    then have "\<forall>x \<in> set m. fst x \<noteq> k" using Cons.prems(1) by (metis dkeys_def distinct.simps(2) image_eqI list.simps(9) list.set_map)
    then show ?thesis by (intro filter_cong) auto
  qed
  with Cons show ?case by (cases e) (auto simp: dget_def dkeys_def split: if_splits)
qed simp

lemma prune_one_eq: "prune_one base now age n (e, k) =
    (if WORKTREE_NAME_PATTERN n \<and> (\<exists>w. dget (dirs e) (path_join base n) = Some w \<and> prunable now age w)
     then (rm_rf (path_join base n) e, k + 1) else (e, k))"
  by (auto simp: prune_one_def prunable_def Let_def split: option.splits)

lemma prune_loop:
  assumes "flat d" "distinct ns"
  shows "\<exists>e. fold (prune_one base now age) ns (d, 0) = (e, length (filter (target_in base now age ns) (dirs d))) \<and>
    dirs e = filter (\<lambda>x. \<not> target_in base now age ns x) (dirs d) \<and> base_exists e = base_exists d"
  using assms(2)
proof (induction ns rule: rev_induct)
  case Nil
  then show ?case by (simp add: target_in_def)
next
  case (snoc n ns)
  let ?T = "target_in base now age"
  let ?p = "path_join base n"
  have dist: "distinct (dkeys (dirs d))" using assms(1) by (simp add: flat_def)
  from snoc obtain e where e: "fold (prune_one base now age) ns (d, 0) = (e, length (filter (?T ns) (dirs d)))"
      "dirs e = filter (\<lambda>x. \<not> ?T ns x) (dirs d)" "base_exists e = base_exists d" by auto
  have new: "\<not> ?T ns (?p, w)" for w using snoc.prems by (auto simp: target_in_def)
  have get: "dget (dirs e) ?p = dget (dirs d) ?p"
    using new by (auto simp: e(2) dget_filter [OF dist] split: option.splits)
  show ?case
  proof (cases "\<exists>w. dget (dirs d) ?p = Some w \<and> WORKTREE_NAME_PATTERN n \<and> prunable now age w")
    case True
    then obtain w where w: "dget (dirs d) ?p = Some w" "WORKTREE_NAME_PATTERN n" "prunable now age w" by blast
    have "x \<in> set (dirs d) \<Longrightarrow> ?T (ns @ [n]) x \<longleftrightarrow> ?T ns x \<or> fst x = ?p" for x
      using w dget_in [OF dist, of "fst x" "snd x"] by (auto simp: target_in_def)
    then have f: "filter (?T (ns @ [n])) (dirs d) = filter (\<lambda>x. ?T ns x \<or> fst x = ?p) (dirs d)"
      "filter (\<lambda>x. \<not> ?T (ns @ [n]) x) (dirs d) = filter (\<lambda>x. \<not> ?T ns x \<and> fst x \<noteq> ?p) (dirs d)"
      by (auto intro!: filter_cong)
    have "?p \<in> set (dkeys (dirs d))" using w(1) dict.has_iff by (metis option.discI)
    note rm = rm_rf_flat [OF assms(1) this e(2)]
    have "prune_one base now age n (e, k) = (rm_rf ?p e, k + 1)" for k
      using w get by (simp add: prune_one_eq)
    then show ?thesis using e(1,3) new
      by (simp add: f rm length_filter_one [OF dist w(1)]) (simp add: rm_rf_def)
  next
    case False
    have "x \<in> set (dirs d) \<Longrightarrow> ?T (ns @ [n]) x \<longleftrightarrow> ?T ns x" for x
      using False dget_in [OF dist, of "fst x" "snd x"] by (auto simp: target_in_def)
    then have f: "filter (?T (ns @ [n])) (dirs d) = filter (?T ns) (dirs d)"
      "filter (\<lambda>x. \<not> ?T (ns @ [n]) x) (dirs d) = filter (\<lambda>x. \<not> ?T ns x) (dirs d)"
      by (auto intro!: filter_cong)
    have "prune_one base now age n (e, k) = (e, k)" for k
      using False get by (auto simp: prune_one_eq)
    then show ?thesis using e by (simp add: f)
  qed
qed

lemma prune_kept:
  assumes "flat d" "base_exists d"
  shows "\<exists>d'. pruneStale base now age d = (length (filter (prune_target base now age) (dirs d)), d') \<and>
    dirs d' = filter (\<lambda>e. \<not> prune_target base now age e) (dirs d)"
proof -
  from assms(2) obtain names where r: "readdir base d = Some names" by (simp add: readdir_def)
  have "x \<in> set (dirs d) \<Longrightarrow> target_in base now age names x \<longleftrightarrow> prune_target base now age x" for x
    using set_readdir [OF r] pattern_no_slash
    by (cases x) (force simp: target_in_def prune_target_def dkeys_def)
  then have f: "filter (target_in base now age names) (dirs d) = filter (prune_target base now age) (dirs d)"
    "filter (\<lambda>x. \<not> target_in base now age names x) (dirs d) = filter (\<lambda>x. \<not> prune_target base now age x) (dirs d)"
    by (auto intro!: filter_cong)
  have "distinct names" using assms(1) r distinct_readdir by (simp add: flat_def)
  from prune_loop [OF assms(1) this, of base now age] show ?thesis
    by (auto simp: pruneStale_def r f)
qed

text \<open>C31.
  \<open>pruneStale\<close> removes exactly the directories directly under the base directory that have a
  managed name, are at least as old as asked and have no lock younger than a minute; it keeps
  every other directory unchanged and returns the number removed.\<close>

theorem prune_exact:
  assumes "flat d" "base_exists d"
  shows "\<exists>d'. pruneStale base now age d = (length (filter (prune_target base now age) (dirs d)), d') \<and>
    dirs d' = filter (\<lambda>e. \<not> prune_target base now age e) (dirs d)"
  using assms by (rule prune_kept)

lemma prune_exact_witness:
  "\<exists>d'. pruneStale ''/w'' 400000 300000 demo_disk = (1, d') \<and>
     dkeys (dirs d') = [''/w/calm-gauss-00ff00'', ''/w/notes'']"
proof -
  have "flat demo_disk" by code_simp
  note t = prune_exact [OF this, of "''/w''" 400000 300000]
  have k: "dkeys (dirs (snd (pruneStale ''/w'' 400000 300000 demo_disk))) = [''/w/calm-gauss-00ff00'', ''/w/notes'']"
    "fst (pruneStale ''/w'' 400000 300000 demo_disk) = 1"
    by code_simp+
  have "base_exists demo_disk" by (simp add: demo_disk_def)
  from t [OF this] k show ?thesis by (metis fst_conv snd_conv)
qed

section \<open>Adoption\<close>

lemmas adopt_defs = adoptOrphan_def adopt_check_def adopt_finish_def

lemma adopt_True:
  assumes "adoptOrphan now path d = (Inr True, d')"
  obtains w where "dget (dirs d) path = Some w" "meta_text w \<noteq> None" "WORKTREE_NAME_PATTERN (last_component path)"
    "d' = d\<lparr>dirs := dset path (write_lock now w) (dirs d)\<rparr>"
    "\<And>m. lock_mtime w = Some m \<Longrightarrow> ADOPT_LOCK_AGE_MS \<le> now - m"
  using assms that by (auto simp: adopt_defs split: if_splits option.splits)

lemma adopt_cases:
  "snd (adoptOrphan now p d) = d \<or> p \<in> set (dkeys (dirs d)) \<and>
     (snd (adoptOrphan now p d) = rm_rf p d \<and> (\<exists>w. dget (dirs d) p = Some w \<and> meta_text w = None) \<or>
      (\<exists>w. snd (adoptOrphan now p d) = d\<lparr>dirs := dset p (write_lock now w) (dirs d)\<rparr> \<and> dget (dirs d) p = Some w \<and>
         (\<forall>m. lock_mtime w = Some m \<longrightarrow> ADOPT_LOCK_AGE_MS \<le> now - m)))"
proof (cases "dget (dirs d) p")
  case (Some w)
  then have "p \<in> set (dkeys (dirs d))" by (simp add: dict.has_iff)
  with Some show ?thesis by (auto simp: adopt_defs split: option.splits)
qed (simp add: adopt_defs)

text \<open>The further calls of the two operations that take directories on their own account.\<close>

datatype keeper_op = Op_adopt int string | Op_prune string int int

fun keeper_step :: "disk \<Rightarrow> keeper_op \<Rightarrow> disk" where
  "keeper_step d (Op_adopt t p) = snd (adoptOrphan t p d)"
| "keeper_step d (Op_prune base t age) = snd (pruneStale base t age d)"

fun soon :: "int \<Rightarrow> keeper_op \<Rightarrow> bool" where
  "soon now (Op_adopt t p) \<longleftrightarrow> t - now < ADOPT_LOCK_AGE_MS"
| "soon now (Op_prune base t age) \<longleftrightarrow> t - now < PRUNE_LOCK_GRACE_MS"

text \<open>A directory that was taken at \<open>now\<close>.\<close>

definition adopted_at :: "int \<Rightarrow> string \<Rightarrow> wt_dir \<Rightarrow> disk \<Rightarrow> bool" where
  "adopted_at now path w d \<longleftrightarrow> flat d \<and> dget (dirs d) path = Some w \<and> meta_text w \<noteq> None \<and> lock_mtime w = Some now"

lemma flat_keys: "set (dkeys (dirs e)) \<subseteq> set (dkeys (dirs d)) \<Longrightarrow> distinct (dkeys (dirs e)) \<Longrightarrow> flat d \<Longrightarrow> flat e"
  unfolding flat_def by blast

lemma adopted_adopt:
  assumes "adopted_at now path w d" "t - now < ADOPT_LOCK_AGE_MS"
  shows "adopted_at now path w (snd (adoptOrphan t p d))"
proof -
  have fl: "flat d" "distinct (dkeys (dirs d))" and g: "dget (dirs d) path = Some w"
    and w: "meta_text w \<noteq> None" "lock_mtime w = Some now" using assms(1) by (auto simp: adopted_at_def flat_def)
  consider "snd (adoptOrphan t p d) = d"
    | "p \<in> set (dkeys (dirs d))" "p \<noteq> path" "snd (adoptOrphan t p d) = rm_rf p d"
    | v where "p \<in> set (dkeys (dirs d))" "p \<noteq> path" "snd (adoptOrphan t p d) = d\<lparr>dirs := dset p v (dirs d)\<rparr>"
    using adopt_cases [of t p d] g w assms(2) by (cases "p = path") fastforce+
  then show ?thesis
  proof cases
    case 2
    have "dirs (rm_rf p d) = filter (\<lambda>x. True \<and> fst x \<noteq> p) (dirs d)"
      using fl(1) 2(1) by (intro rm_rf_flat) simp_all
    then have r: "dirs (rm_rf p d) = filter (\<lambda>x. fst x \<noteq> p) (dirs d)" by simp
    have "flat (rm_rf p d)"
      using fl by (intro flat_keys [OF _ _ fl(1)]) (auto simp: r dkeys_def distinct_map intro: inj_on_subset)
    moreover have "dget (dirs (rm_rf p d)) path = Some w" using g 2(2) by (simp add: r dget_filter [OF fl(2)])
    ultimately show ?thesis using 2(3) w by (simp add: adopted_at_def)
  next
    case (3 v)
    have "flat (d\<lparr>dirs := dset p v (dirs d)\<rparr>)"
      using 3(1) fl by (intro flat_keys [OF _ _ fl(1)]) (auto simp: dkeys_dset)
    with 3 g w show ?thesis by (simp add: adopted_at_def)
  qed (use assms(1) in simp)
qed

lemma adopted_prune:
  assumes "adopted_at now path w d" "t - now < PRUNE_LOCK_GRACE_MS"
  shows "adopted_at now path w (snd (pruneStale base t age d))"
proof (cases "base_exists d")
  case True
  have fl: "flat d" "distinct (dkeys (dirs d))" and g: "dget (dirs d) path = Some w"
    and w: "meta_text w \<noteq> None" "lock_mtime w = Some now" using assms(1) by (auto simp: adopted_at_def flat_def)
  from prune_kept [OF fl(1) True] obtain e where e: "snd (pruneStale base t age d) = e"
    "dirs e = filter (\<lambda>x. \<not> prune_target base t age x) (dirs d)" by (metis snd_conv)
  have "flat e" using fl by (intro flat_keys [OF _ _ fl(1)]) (auto simp: e(2) dkeys_def distinct_map intro: inj_on_subset)
  moreover have "\<not> prune_target base t age (path, w)" using w(2) assms(2) by (simp add: prune_target_def prunable_def)
  then have "dget (dirs e) path = Some w" using g by (simp add: e(2) dget_filter [OF fl(2)])
  ultimately show ?thesis using w by (simp add: adopted_at_def e(1))
qed (use assms(1) in \<open>simp add: pruneStale_def readdir_def\<close>)

lemma adopted_steps:
  "adopted_at now path w d \<Longrightarrow> list_all (soon now) ops \<Longrightarrow> adopted_at now path w (foldl keeper_step d ops)"
proof (induction ops arbitrary: d)
  case (Cons op ops)
  then have "adopted_at now path w (keeper_step d op)" by (cases op) (simp_all add: adopted_adopt adopted_prune)
  with Cons show ?case by simp
qed simp

text \<open>C30.
  Adoption is exclusive among calls that do not overlap. \<open>adoptOrphan\<close> succeeds only on an existing directory
  with a managed name and a meta file whose lock is missing or at least five minutes old. After that, where no
  managed directory is inside another, and whatever calls of \<open>adoptOrphan\<close> on whatever paths within the next five minutes
  and of \<open>pruneStale\<close> on whatever bases within the next minute come in whatever order: the directory is there as it was
  left, and a call on it within the five minutes is refused and changes nothing. (Two calls that overlap can both
  succeed, \<open>adopt_race\<close>; after the first minute \<open>pruneStale\<close> can remove the directory, \<open>adopted_is_pruned\<close>;
  \<open>cleanup\<close> and \<open>restoreToProjectRoot\<close> of its task are not covered.)\<close>

theorem adopt_exclusive:
  assumes "adoptOrphan now path d = (Inr True, d')" "flat d" "list_all (soon now) ops" "now' - now < ADOPT_LOCK_AGE_MS"
  shows "WORKTREE_NAME_PATTERN (last_component path) \<and>
    (\<exists>w. dget (dirs d) path = Some w \<and> meta_text w \<noteq> None \<and>
      (\<forall>m. lock_mtime w = Some m \<longrightarrow> ADOPT_LOCK_AGE_MS \<le> now - m)) \<and>
    dget (dirs (foldl keeper_step d' ops)) path = dget (dirs d') path \<and> dget (dirs d') path \<noteq> None \<and>
    adoptOrphan now' path (foldl keeper_step d' ops) = (Inr False, foldl keeper_step d' ops)"
proof -
  obtain w where w: "dget (dirs d) path = Some w" "meta_text w \<noteq> None" "WORKTREE_NAME_PATTERN (last_component path)"
    "d' = d\<lparr>dirs := dset path (write_lock now w) (dirs d)\<rparr>"
    "\<And>m. lock_mtime w = Some m \<Longrightarrow> ADOPT_LOCK_AGE_MS \<le> now - m"
    using assms(1) by (rule adopt_True) blast
  have "path \<in> set (dkeys (dirs d))" using w(1) by (simp add: dict.has_iff)
  moreover have "distinct (dkeys (dirs d))" using assms(2) by (simp add: flat_def)
  ultimately have "flat d'" using assms(2) by (intro flat_keys [OF _ _ assms(2)]) (auto simp: w(4) dkeys_dset)
  then have "adopted_at now path (write_lock now w) d'" using w by (simp add: adopted_at_def write_lock_def)
  then have h: "adopted_at now path (write_lock now w) (foldl keeper_step d' ops)" using assms(3) by (rule adopted_steps)
  then have "adoptOrphan now' path (foldl keeper_step d' ops) = (Inr False, foldl keeper_step d' ops)"
    using assms(4) by (auto simp: adopted_at_def adopt_defs)
  with h w show ?thesis by (simp add: adopted_at_def)
qed

lemma adopt_exclusive_witness:
  "\<exists>d' e. adoptOrphan 300000 ''/w/brave-euler-0a1b2c'' demo_disk = (Inr True, d') \<and>
     e = foldl keeper_step d' [Op_adopt 300001 ''/w/calm-gauss-00ff00'', Op_prune ''/w'' 359999 1000] \<and>
     dkeys (dirs e) = [''/w/brave-euler-0a1b2c'', ''/w/notes''] \<and>
     adoptOrphan 599999 ''/w/brave-euler-0a1b2c'' e = (Inr False, e)"
proof -
  let ?p = "''/w/brave-euler-0a1b2c''"
  let ?ops = "[Op_adopt 300001 ''/w/calm-gauss-00ff00'', Op_prune ''/w'' 359999 1000]"
  have "fst (adoptOrphan 300000 ?p demo_disk) = Inr True" by code_simp
  then obtain d' where d: "adoptOrphan 300000 ?p demo_disk = (Inr True, d')"
    by (metis prod.collapse)
  have k: "dkeys (dirs (foldl keeper_step (snd (adoptOrphan 300000 ?p demo_disk)) ?ops)) = [?p, ''/w/notes'']"
    by code_simp
  have "flat demo_disk" by code_simp
  from adopt_exclusive [OF d this, of ?ops 599999] d k show ?thesis
    by (simp add: ADOPT_LOCK_AGE_MS_def PRUNE_LOCK_GRACE_MS_def)
qed

text \<open>
  The check and the write are two steps. Of two calls that both look before either writes, both
  are told that they have adopted the directory.\<close>

lemma adopt_race:
  assumes "adopt_check t1 path d = Take" "adopt_check t2 path d = Take"
  shows "\<exists>d1 d2. adopt_finish t1 path (adopt_check t1 path d) d = (Inr True, d1) \<and>
    adopt_finish t2 path (adopt_check t2 path d) d1 = (Inr True, d2)"
proof -
  from assms(1) obtain w where "dget (dirs d) path = Some w"
    by (auto simp: adopt_check_def split: if_splits option.splits)
  then show ?thesis using assms by (simp add: adopt_finish_def)
qed

text \<open>
  The two ages of a lock do not agree: a directory that was adopted a minute ago may be pruned,
  although no one may adopt it for another four.\<close>

lemma adopted_is_pruned:
  assumes "adoptOrphan now (path_join base n) d = (Inr True, d')" "dget (dirs d) (path_join base n) = Some w"
    and "lock_mtime w \<noteq> None" "age \<le> now' - dir_mtime w" "PRUNE_LOCK_GRACE_MS \<le> now' - now" "WORKTREE_NAME_PATTERN n"
  shows "prune_target base now' age (path_join base n, the (dget (dirs d') (path_join base n)))"
  using assms(1)
proof (rule adopt_True)
  fix v
  assume v: "dget (dirs d) (path_join base n) = Some v"
    "d' = d\<lparr>dirs := dset (path_join base n) (write_lock now v) (dirs d)\<rparr>"
  then show ?thesis using assms(2-) by (auto simp: prune_target_def prunable_def write_lock_def)
qed

text \<open>
  The base directory plays no part: a path anywhere whose last component has the form of a
  managed name and that holds no meta file is removed with everything below it.\<close>

lemma adopt_removes_anywhere:
  assumes "WORKTREE_NAME_PATTERN (last_component path)" "dget (dirs d) path = Some w" "meta_text w = None"
  shows "adoptOrphan now path d = (Inr False, rm_rf path d)"
  using assms by (simp add: adopt_defs)

section \<open>Creation\<close>

text \<open>
  A worktree created under a fresh slug is listed with its task, path and branch, keeps every
  other directory, and is not prunable for the next minute whatever age is asked.\<close>

theorem create_listed:
  assumes "i < 10" "j < 10" "length bytes = 3" "list_all (\<lambda>b. b < 256) bytes"
    and "wt_create base (randomSlug i j bytes) now iso_now task d = (path, d')"
    and "dget (dirs d) (path_join base (randomSlug i j bytes)) = None"
  shows "\<lparr>we_taskId = JStr task, we_path = path, we_createdAt = JStr iso_now,
      we_branch = JStr (''apohara/'' @ randomSlug i j bytes)\<rparr> \<in> set (wt_list base d') \<and>
    (\<forall>q. q \<noteq> path \<longrightarrow> dget (dirs d') q = dget (dirs d) q) \<and>
    (\<forall>w now' age. dget (dirs d') path = Some w \<longrightarrow> now' - now < PRUNE_LOCK_GRACE_MS \<longrightarrow>
       \<not> prunable now' age w)"
proof -
  let ?slug = "randomSlug i j bytes"
  let ?meta = "JObj [(''taskId'', JStr task), (''createdAt'', JStr iso_now), (''branch'', JStr (''apohara/'' @ ?slug))]"
  have pat: "WORKTREE_NAME_PATTERN ?slug" using assms by (intro randomSlug_pattern)
  define w where "w = \<lparr>dir_mtime = now, lock_mtime = Some now, meta_text = Some (stringify ?meta)\<rparr>"
  have d': "path = path_join base ?slug" "d' = d\<lparr>base_exists := True, dirs := dset path w (dirs d)\<rparr>"
    using assms(5,6) by (auto simp: wt_create_def Let_def write_lock_def write_meta_def w_def)
  then have get: "dget (dirs d') path = Some w" by simp
  have "json_parse (stringify ?meta) = Some ?meta"
    using json_roundtrip [of ?meta] by simp
  then have "list_entry base d' ?slug = Some \<lparr>we_taskId = JStr task, we_path = path, we_createdAt = JStr iso_now,
      we_branch = JStr (''apohara/'' @ ?slug)\<rparr>"
    using pat get by (simp add: list_entry_def d'(1) w_def json_field_def del: stringify.simps)
  moreover obtain names where r: "readdir base d' = Some names"
    using d'(2) by (simp add: readdir_def)
  moreover have "?slug \<in> set names"
    using set_readdir [OF r] pattern_no_slash [OF pat] get d'(1) by (simp add: dict.has_iff)
  ultimately show ?thesis
    using get d'(2) by (force simp: wt_list_def List.map_filter_def prunable_def w_def)
qed

lemma create_listed_witness:
  "\<exists>path d'. wt_create ''/w'' (randomSlug 1 2 [1, 2, 255]) 7 ''iso'' ''t1'' demo_disk = (path, d') \<and>
     path = ''/w/brave-gauss-0102ff'' \<and>
     (\<exists>e \<in> set (wt_list ''/w'' d'). we_taskId e = JStr ''t1'')"
proof -
  let ?r = "wt_create ''/w'' (randomSlug 1 2 [1, 2, 255]) 7 ''iso'' ''t1'' demo_disk"
  have n: "dget (dirs demo_disk) (path_join ''/w'' (randomSlug 1 2 [1, 2, 255])) = None" by code_simp
  have p: "fst ?r = ''/w/brave-gauss-0102ff''" by code_simp
  have e: "?r = (fst ?r, snd ?r)" by simp
  have "\<exists>e \<in> set (wt_list ''/w'' (snd ?r)). we_taskId e = JStr ''t1''"
    by (rule bexI [OF _ create_listed [OF _ _ _ _ e n, THEN conjunct1]]) simp_all
  with p show ?thesis by (metis prod.collapse)
qed

end
