(* ===== verification/Decomposer.thy ===== *)
theory Decomposer
  imports Prelude Core_Types Js_Number
begin

text \<open>
  \<open>src/core/decomposer.ts\<close>: the validation of a decomposition that a language model returned, the
  search for a dependency cycle, and the two enrichment passes over the tasks.

  What the model parsed is typed as the code's cast says, with the fields the validation tests
  for optional. The answer of the indexer daemon and of the MCP registry are arguments:
  \<open>None\<close> stands for a call that threw.
\<close>

section \<open>Tasks\<close>

datatype Complexity = Low | Medium | High

record SearchHit =
  hit_filePath :: string
  hit_functionName :: string
  hit_line :: nat
  hit_score :: rat

record IndexerContext =
  searchHits :: "SearchHit list"
  blastRadius :: "string list"

record DecomposedTask =
  dt_id :: string
  dt_description :: string
  estimatedComplexity :: Complexity
  dependencies :: "string list"
  dt_role :: TaskRole
  files :: "string list"
  indexerContext :: "IndexerContext option"

text \<open>
  A task as parsed. \<open>raw_deps\<close> is \<open>None\<close> when the value is not iterable (the \<open>for\<close> loop throws);
  \<open>raw_files\<close> is \<open>None\<close> when \<open>files\<close> is missing or not an array; \<open>raw_role\<close> is the text of the
  role when there is one; \<open>raw_estimated\<close> the \<open>estimatedFiles\<close> when truthy.
\<close>

record RawTask =
  raw_id :: string
  raw_description :: string
  raw_complexity :: Complexity
  raw_deps :: "string list option"
  raw_role :: "string option"
  raw_files :: "string list option"
  raw_estimated :: "string list option"

section \<open>The text of the answer\<close>

text \<open>The text after the first occurrence of a word, and the text before it.\<close>

fun after_first :: "string \<Rightarrow> string \<Rightarrow> string option" where
  "after_first w [] = (if w = [] then Some [] else None)"
| "after_first w (c # cs) =
    (if starts_with (c # cs) w then Some (drop (length w) (c # cs)) else after_first w cs)"

fun before_first :: "string \<Rightarrow> string \<Rightarrow> string option" where
  "before_first w [] = (if w = [] then Some [] else None)"
| "before_first w (c # cs) =
    (if starts_with (c # cs) w then Some [] else map_option ((#) c) (before_first w cs))"

definition fence :: string where "fence = ''```''"

text \<open>The first group of the regular expression: opening, white space, shortest text, fence.\<close>

definition fenced :: "string \<Rightarrow> string \<Rightarrow> string option" where
  "fenced opening s = (case after_first opening s of None \<Rightarrow> None
     | Some r \<Rightarrow> before_first fence (dropWhile is_space r))"

definition extract_json :: "string \<Rightarrow> string" where
  "extract_json answer =
    (let content = trim answer;
         m = (case fenced (fence @ ''json'') content of Some t \<Rightarrow> t
              | None \<Rightarrow> (case fenced fence content of Some t \<Rightarrow> t | None \<Rightarrow> content))
     in if m = [] then content else m)"

section \<open>Validation\<close>

definition parse_role :: "string option \<Rightarrow> TaskRole" where
  "parse_role r = (case r of None \<Rightarrow> Execution
     | Some s \<Rightarrow> (case List.find (\<lambda>x. role_name x = s) [Research, Planning, Execution, Verification] of
         Some x \<Rightarrow> x | None \<Rightarrow> Execution))"

definition task_files :: "RawTask \<Rightarrow> string list" where
  "task_files t = (let fs = (case raw_files t of None \<Rightarrow> [] | Some fs \<Rightarrow> fs) in
     case raw_estimated t of Some es \<Rightarrow> if fs = [] then es else fs | None \<Rightarrow> fs)"

definition validate_task :: "string list \<Rightarrow> RawTask \<Rightarrow> string + DecomposedTask" where
  "validate_task ids t = (case raw_deps t of
     None \<Rightarrow> Inl ''TypeError''
   | Some deps \<Rightarrow> (case List.find (\<lambda>d. d \<notin> set ids) deps of
       Some d \<Rightarrow> Inl (''Task '' @ raw_id t @ '' has invalid dependency: '' @ d)
     | None \<Rightarrow> Inr \<lparr>dt_id = raw_id t, dt_description = raw_description t,
         estimatedComplexity = raw_complexity t, dependencies = deps, dt_role = parse_role (raw_role t),
         files = task_files t, indexerContext = None\<rparr>))"

fun validate_all :: "string list \<Rightarrow> RawTask list \<Rightarrow> string + DecomposedTask list" where
  "validate_all ids [] = Inr []"
| "validate_all ids (t # ts) = (case validate_task ids t of Inl e \<Rightarrow> Inl e
     | Inr x \<Rightarrow> (case validate_all ids ts of Inl e \<Rightarrow> Inl e | Inr xs \<Rightarrow> Inr (x # xs)))"

section \<open>Cycle detection\<close>

type_synonym graph = "(string, string list) dict"

definition task_graph :: "DecomposedTask list \<Rightarrow> graph" where
  "task_graph ts = fold (\<lambda>t g. dset (dt_id t) (dependencies t) g) ts []"

definition deps_of :: "graph \<Rightarrow> string \<Rightarrow> string list" where
  "deps_of g t = (case dget g t of None \<Rightarrow> [] | Some ds \<Rightarrow> ds)"

text \<open>\<open>visited\<close>, \<open>recursionStack\<close> and \<open>currentPath\<close>.\<close>

type_synonym dfs_state = "string list \<times> string list \<times> string list"

text \<open>
  \<open>dfs\<close> and its loop over the dependencies. The first argument bounds the depth: the outer
  \<open>None\<close> is reached only when it is too small, which \<open>detectCycle\<close> rules out by starting from
  the number of names in the graph.
\<close>

fun dfs :: "nat \<Rightarrow> graph \<Rightarrow> string \<Rightarrow> dfs_state \<Rightarrow> (string list option \<times> dfs_state) option"
  and dfs_deps :: "nat \<Rightarrow> graph \<Rightarrow> string list \<Rightarrow> dfs_state \<Rightarrow> (string list option \<times> dfs_state) option"
where
  "dfs 0 g t s = None"
| "dfs (Suc n) g t (visited, stack, path) =
    (case dfs_deps n g (deps_of g t) (t # visited, t # stack, path @ [t]) of
       None \<Rightarrow> None
     | Some (Some c, s) \<Rightarrow> Some (Some c, s)
     | Some (None, (visited', stack', path')) \<Rightarrow> Some (None, (visited', removeAll t stack', butlast path')))"
| "dfs_deps n g [] s = Some (None, s)"
| "dfs_deps n g (d # ds) (visited, stack, path) =
    (if d \<notin> set visited then
       (case dfs n g d (visited, stack, path) of
          None \<Rightarrow> None
        | Some (Some c, s) \<Rightarrow> Some (Some c, s)
        | Some (None, s) \<Rightarrow> dfs_deps n g ds s)
     else if d \<in> set stack then
       Some (Some (dropWhile (\<lambda>x. x \<noteq> d) path @ [d]), (visited, stack, path))
     else dfs_deps n g ds (visited, stack, path))"

fun dfs_tasks :: "nat \<Rightarrow> graph \<Rightarrow> string list \<Rightarrow> string list \<times> string list \<Rightarrow> string list option option" where
  "dfs_tasks n g [] s = Some None"
| "dfs_tasks n g (t # ts) (visited, stack) =
    (if t \<in> set visited then dfs_tasks n g ts (visited, stack)
     else (case dfs n g t (visited, stack, []) of
         None \<Rightarrow> None
       | Some (Some c, s) \<Rightarrow> Some (Some c)
       | Some (None, (visited', stack', path')) \<Rightarrow> dfs_tasks n g ts (visited', stack')))"

definition graph_names :: "graph \<Rightarrow> string list" where
  "graph_names g = dkeys g @ concat (map snd g)"

definition detectCycle_fuel :: "DecomposedTask list \<Rightarrow> string list option option" where
  "detectCycle_fuel ts = (let g = task_graph ts in
     dfs_tasks (Suc (length (graph_names g))) g (map dt_id ts) ([], []))"

definition detectCycle :: "DecomposedTask list \<Rightarrow> string list option" where
  "detectCycle ts = (case detectCycle_fuel ts of None \<Rightarrow> None | Some r \<Rightarrow> r)"

section \<open>Enrichment\<close>

record SearchResult =
  sr_file_path :: string
  sr_function_name :: string
  sr_line :: nat
  sr_distance :: rat

definition map_hit :: "SearchResult \<Rightarrow> SearchHit" where
  "map_hit h = \<lparr>hit_filePath = sr_file_path h, hit_functionName = sr_function_name h,
     hit_line = sr_line h, hit_score = fsub 1 (sr_distance h)\<rparr>"

definition task_blast_radius :: "(string \<Rightarrow> string list option) \<Rightarrow> DecomposedTask \<Rightarrow> string list" where
  "task_blast_radius getBlastRadius t = (case files t of [] \<Rightarrow> []
     | primary # _ \<Rightarrow> if primary = [] then []
        else (case getBlastRadius primary of None \<Rightarrow> [] | Some fs \<Rightarrow> fs))"

text \<open>The indexer client, when there is one: the broad search and the blast radius of a file.\<close>

definition injectIndexerContext ::
  "(SearchResult list option \<times> (string \<Rightarrow> string list option)) option \<Rightarrow>
   DecomposedTask list \<Rightarrow> DecomposedTask list" where
  "injectIndexerContext client ts = (case client of
     None \<Rightarrow> ts
   | Some (None, _) \<Rightarrow> ts
   | Some (Some hits, getBlastRadius) \<Rightarrow>
       map (\<lambda>t. t\<lparr>indexerContext := Some \<lparr>searchHits = map map_hit hits,
                   blastRadius = task_blast_radius getBlastRadius t\<rparr>\<rparr>) ts)"

definition enhance_task :: "string list \<Rightarrow> DecomposedTask \<Rightarrow> DecomposedTask" where
  "enhance_task relevantFiles t =
    (if dt_role t = Execution \<and> length (files t) < 2 then
       (let newFiles = take 3 (filter (\<lambda>f. f \<notin> set (files t)) relevantFiles) in
        if newFiles \<noteq> [] then t\<lparr>files := files t @ newFiles\<rparr> else t)
     else t)"

text \<open>
  The relevant files the registry finds: \<open>None\<close> without a registry, when it lists no tool, when a
  call throws or when the result is not a non-empty array; empty names are filtered out.
\<close>

definition enhanceWithMCP :: "string list option \<Rightarrow> DecomposedTask list \<Rightarrow> DecomposedTask list" where
  "enhanceWithMCP found ts = (case found of None \<Rightarrow> ts
     | Some fs \<Rightarrow> map (enhance_task (filter (\<lambda>f. f \<noteq> []) fs)) ts)"

section \<open>decompose after the answer is parsed\<close>

text \<open>\<open>None\<close> is an answer without a \<open>tasks\<close> array.\<close>

definition decompose_parsed ::
  "(SearchResult list option \<times> (string \<Rightarrow> string list option)) option \<Rightarrow> string list option \<Rightarrow>
   RawTask list option \<Rightarrow> string + DecomposedTask list" where
  "decompose_parsed client found parsed = (case parsed of
     None \<Rightarrow> Inl ''Invalid decomposition: missing tasks array''
   | Some raws \<Rightarrow> (case validate_all (map raw_id raws) raws of
       Inl e \<Rightarrow> Inl e
     | Inr ts \<Rightarrow> (case detectCycle ts of
         Some cycle \<Rightarrow> Inl (''Dependency cycle detected: '' @ join '' -> '' cycle @ ''. '' @
            ''Please ensure dependencies form a DAG (Directed Acyclic Graph).'')
       | None \<Rightarrow> Inr (enhanceWithMCP found (injectIndexerContext client ts)))))"

section \<open>The cycle search is correct\<close>

definition edges :: "graph \<Rightarrow> (string \<times> string) set" where
  "edges g = {(t, d). d \<in> set (deps_of g t)}"

definition is_cycle :: "graph \<Rightarrow> string list \<Rightarrow> bool" where
  "is_cycle g c \<longleftrightarrow> 2 \<le> length c \<and> hd c = last c \<and> successively (\<lambda>x y. y \<in> set (deps_of g x)) c"

text \<open>A search that finds no cycle restores the stack and the path and only adds to \<open>visited\<close>.\<close>

lemma dfs_frame:
  "dfs n g t (vis, stack, path) = Some (None, (vis', stack', path')) \<Longrightarrow>
     set stack \<subseteq> set vis \<Longrightarrow> t \<notin> set vis \<Longrightarrow>
     stack' = stack \<and> path' = path \<and> insert t (set vis) \<subseteq> set vis'"
  "dfs_deps n g ds (vis, stack, path) = Some (None, (vis', stack', path')) \<Longrightarrow>
     set stack \<subseteq> set vis \<Longrightarrow> stack' = stack \<and> path' = path \<and> set vis \<subseteq> set vis'"
proof (induction n g t "(vis, stack, path)" and n g ds "(vis, stack, path)"
    arbitrary: vis stack path vis' stack' path' and vis stack path vis' stack' path'
    rule: dfs_dfs_deps.induct)
  case (2 n g t vis stack path)
  from "2.prems"(1) obtain v s p where d:
      "dfs_deps n g (deps_of g t) (t # vis, t # stack, path @ [t]) = Some (None, (v, s, p))"
      "vis' = v" "stack' = removeAll t s" "path' = butlast p"
    by (auto split: option.splits prod.splits)
  from "2.hyps" [OF d(1)] "2.prems"(2) have "s = t # stack" "p = path @ [t]" "set (t # vis) \<subseteq> set v"
    by auto
  moreover have "removeAll t stack = stack" using "2.prems"(2,3) by (auto intro: removeAll_id)
  ultimately show ?case using d by simp
next
  case (4 n g d ds vis stack path)
  show ?case
  proof (cases "d \<in> set vis")
    case True
    with "4.prems"(1) have "d \<notin> set stack" "dfs_deps n g ds (vis, stack, path) = Some (None, (vis', stack', path'))"
      by (simp_all split: if_splits)
    with True show ?thesis using "4.prems"(2) by (intro "4.hyps"(3)) simp_all
  next
    case False
    with "4.prems"(1) obtain v s p where d: "dfs n g d (vis, stack, path) = Some (None, (v, s, p))"
        "dfs_deps n g ds (v, s, p) = Some (None, (vis', stack', path'))"
      by (auto split: option.splits prod.splits)
    from "4.hyps"(1) [OF False d(1) "4.prems"(2) False] have v: "s = stack" "p = path" "set vis \<subseteq> set v"
      by auto
    have "stack' = s \<and> path' = p \<and> set v \<subseteq> set vis'"
      using v "4.prems"(2) by (intro "4.hyps"(2) [OF False d(1) refl refl d(2)]) auto
    with v show ?thesis by auto
  qed
qed auto

abbreviation walk :: "graph \<Rightarrow> string list \<Rightarrow> bool" where
  "walk g \<equiv> successively (\<lambda>x y. y \<in> set (deps_of g x))"

text \<open>What the search reports is a cycle of the graph.\<close>

lemma closing_edge:
  assumes "walk g path" "d \<in> set path" "d \<in> set (deps_of g (last path))"
  shows "is_cycle g (dropWhile (\<lambda>x. x \<noteq> d) path @ [d])"
proof -
  let ?c = "dropWhile (\<lambda>x. x \<noteq> d) path"
  have ne: "?c \<noteq> []" using assms(2) by (simp add: dropWhile_eq_Nil_conv)
  have "hd ?c = d" using hd_dropWhile [OF ne] by simp
  moreover have "walk g (takeWhile (\<lambda>x. x \<noteq> d) path @ ?c)" using assms(1) by simp
  then have "walk g ?c" by (simp only: successively_append_iff)
  moreover have "last ?c = last path" using ne by (metis last_append takeWhile_dropWhile_id)
  ultimately show ?thesis using assms(3) ne
    by (simp add: is_cycle_def successively_append_iff Suc_le_eq)
qed

lemma dfs_sound:
  "dfs n g t (vis, stack, path) = Some (Some c, s) \<Longrightarrow> set stack = set path \<Longrightarrow> set stack \<subseteq> set vis \<Longrightarrow>
     t \<notin> set vis \<Longrightarrow> walk g (path @ [t]) \<Longrightarrow> is_cycle g c"
  "dfs_deps n g ds (vis, stack, path) = Some (Some c, s) \<Longrightarrow> set stack = set path \<Longrightarrow> set stack \<subseteq> set vis \<Longrightarrow>
     walk g path \<Longrightarrow> path \<noteq> [] \<Longrightarrow> set ds \<subseteq> set (deps_of g (last path)) \<Longrightarrow> is_cycle g c"
proof (induction n g t "(vis, stack, path)" and n g ds "(vis, stack, path)"
    arbitrary: vis stack path c s and vis stack path c s rule: dfs_dfs_deps.induct)
  case (2 n g t vis stack path)
  from "2.prems"(1) have d: "dfs_deps n g (deps_of g t) (t # vis, t # stack, path @ [t]) = Some (Some c, s)"
    by (auto split: option.splits prod.splits)
  show ?case using "2.prems" by (intro "2.hyps" [OF d]) auto
next
  case (4 n g d ds vis stack path)
  consider "d \<notin> set vis" | "d \<in> set vis" "d \<in> set stack" | "d \<in> set vis" "d \<notin> set stack" by blast
  then show ?case
  proof cases
    case 1
    have w: "walk g (path @ [d])"
      using "4.prems" by (auto simp: successively_append_iff)
    show ?thesis
    proof (cases "dfs n g d (vis, stack, path)")
      case None
      with 1 "4.prems"(1) show ?thesis by simp
    next
      case (Some r)
      then obtain cy v st p where r: "dfs n g d (vis, stack, path) = Some (cy, (v, st, p))"
        by (metis prod_cases3 surj_pair)
      show ?thesis
      proof (cases cy)
        case None
        note d = r [unfolded None]
        from dfs_frame(1) [OF d "4.prems"(3) 1] have "st = stack" "p = path" "set vis \<subseteq> set v" by auto
        moreover have "dfs_deps n g ds (v, st, p) = Some (Some c, s)"
          using "4.prems"(1) 1 d by simp
        ultimately show ?thesis
          using "4.prems" by (intro "4.hyps"(2) [OF 1 d refl refl]) auto
      next
        case (Some c')
        with r 1 "4.prems"(1) have "dfs n g d (vis, stack, path) = Some (Some c, (v, st, p))" by simp
        then show ?thesis using "4.prems" 1 w by (intro "4.hyps"(1) [OF 1]) auto
      qed
    qed
  next
    case 2
    then have "c = dropWhile (\<lambda>x. x \<noteq> d) path @ [d]" using "4.prems"(1) by simp
    moreover have "is_cycle g (dropWhile (\<lambda>x. x \<noteq> d) path @ [d])"
      using "4.prems" 2 by (intro closing_edge) auto
    ultimately show ?thesis by simp
  next
    case 3
    then have "dfs_deps n g ds (vis, stack, path) = Some (Some c, s)" using "4.prems"(1) by simp
    then show ?thesis using 3 "4.prems" by (intro "4.hyps"(3)) auto
  qed
qed auto

text \<open>
  What the search has finished (visited and not on the stack) is closed under dependencies and
  carries no cycle.\<close>

definition finished :: "graph \<Rightarrow> string set \<Rightarrow> bool" where
  "finished g F \<longleftrightarrow> (\<forall>x \<in> F. set (deps_of g x) \<subseteq> F) \<and> (\<forall>x \<in> F. (x, x) \<notin> (edges g)\<^sup>+)"

lemma finished_reach:
  "(x, y) \<in> (edges g)\<^sup>+ \<Longrightarrow> finished g F \<Longrightarrow> x \<in> F \<Longrightarrow> y \<in> F"
  by (induction rule: trancl_induct) (auto simp: finished_def edges_def)

lemma finished_insert:
  assumes "finished g F" "set (deps_of g t) \<subseteq> F" "t \<notin> F"
  shows "finished g (insert t F)"
proof -
  have "(t, t) \<notin> (edges g)\<^sup>+"
  proof
    assume "(t, t) \<in> (edges g)\<^sup>+"
    then obtain d where "d \<in> set (deps_of g t)" "d = t \<or> (d, t) \<in> (edges g)\<^sup>+"
      by (auto simp: edges_def elim: converse_tranclE)
    with assms finished_reach [OF _ assms(1)] show False by blast
  qed
  with assms show ?thesis by (auto simp: finished_def)
qed

lemma dfs_complete:
  "dfs n g t (vis, stack, path) = Some (None, (vis', stack', path')) \<Longrightarrow> set stack \<subseteq> set vis \<Longrightarrow>
     t \<notin> set vis \<Longrightarrow> finished g (set vis - set stack) \<Longrightarrow> finished g (set vis' - set stack)"
  "dfs_deps n g ds (vis, stack, path) = Some (None, (vis', stack', path')) \<Longrightarrow> set stack \<subseteq> set vis \<Longrightarrow>
     finished g (set vis - set stack) \<Longrightarrow>
     finished g (set vis' - set stack) \<and> set ds \<subseteq> set vis' - set stack"
proof (induction n g t "(vis, stack, path)" and n g ds "(vis, stack, path)"
    arbitrary: vis stack path vis' stack' path' and vis stack path vis' stack' path'
    rule: dfs_dfs_deps.induct)
  case (2 n g t vis stack path)
  from "2.prems"(1) obtain v s p where d:
      "dfs_deps n g (deps_of g t) (t # vis, t # stack, path @ [t]) = Some (None, (v, s, p))" "vis' = v"
    by (auto split: option.splits prod.splits)
  have e: "set (t # vis) - set (t # stack) = set vis - set stack" using "2.prems"(3) by auto
  have f: "finished g (set v - set (t # stack)) \<and> set (deps_of g t) \<subseteq> set v - set (t # stack)"
    using "2.prems"(2,4) by (intro "2.hyps" [OF d(1)]) (auto simp only: e, auto)
  have "t \<in> set v" using dfs_frame(2) [OF d(1)] "2.prems"(2) by auto
  then have "insert t (set v - set (t # stack)) = set v - set stack"
    using "2.prems"(2,3) by auto
  moreover have "finished g (insert t (set v - set (t # stack)))"
    using f by (intro finished_insert) auto
  ultimately show ?case by (simp add: d(2))
next
  case (4 n g d ds vis stack path)
  show ?case
  proof (cases "d \<in> set vis")
    case True
    with "4.prems"(1) have n: "d \<notin> set stack"
        "dfs_deps n g ds (vis, stack, path) = Some (None, (vis', stack', path'))"
      by (simp_all split: if_splits)
    moreover have "set vis \<subseteq> set vis'" using dfs_frame(2) [OF n(2) "4.prems"(2)] by simp
    ultimately show ?thesis
      using True "4.prems"(2,3) "4.hyps"(3) [OF _ n] by auto
  next
    case False
    with "4.prems"(1) obtain v s p where d: "dfs n g d (vis, stack, path) = Some (None, (v, s, p))"
        "dfs_deps n g ds (v, s, p) = Some (None, (vis', stack', path'))"
      by (auto split: option.splits prod.splits)
    from dfs_frame(1) [OF d(1) "4.prems"(2) False] have v: "s = stack" "p = path" "insert d (set vis) \<subseteq> set v"
      by auto
    have f: "finished g (set v - set stack)" using "4.hyps"(1) [OF False d(1) "4.prems"(2) False "4.prems"(3)] .
    have r: "finished g (set vis' - set s) \<and> set ds \<subseteq> set vis' - set s"
      using v f "4.prems"(2) by (intro "4.hyps"(2) [OF False d(1) refl refl d(2)]) auto
    moreover have "set v \<subseteq> set vis'" using dfs_frame(2) [OF d(2)] v "4.prems"(2) by auto
    ultimately show ?thesis using v "4.prems"(2) False by auto
  qed
qed auto

text \<open>The bound on the depth is never reached: a deeper call has one more name visited.\<close>

lemma dfs_fuel:
  "finite N \<Longrightarrow> t \<in> N - set vis \<Longrightarrow> \<forall>x \<in> N. set (deps_of g x) \<subseteq> N \<Longrightarrow> set stack \<subseteq> set vis \<Longrightarrow>
     card (N - set vis) \<le> n \<Longrightarrow> dfs n g t (vis, stack, path) \<noteq> None"
  "finite N \<Longrightarrow> set ds \<subseteq> N \<Longrightarrow> \<forall>x \<in> N. set (deps_of g x) \<subseteq> N \<Longrightarrow> set stack \<subseteq> set vis \<Longrightarrow>
     card (N - set vis) \<le> n \<Longrightarrow> dfs_deps n g ds (vis, stack, path) \<noteq> None"
proof (induction n g t "(vis, stack, path)" and n g ds "(vis, stack, path)"
    arbitrary: vis stack path and vis stack path rule: dfs_dfs_deps.induct)
  case (1 g t vis stack path)
  then show ?case by (metis card_0_eq empty_iff finite_Diff le_zero_eq)
next
  case (2 n g t vis stack path)
  have "N - set (t # vis) \<subset> N - set vis" using "2.prems"(2) by auto
  then have "card (N - set (t # vis)) < card (N - set vis)"
    using "2.prems"(1) by (intro psubset_card_mono) auto
  then have "dfs_deps n g (deps_of g t) (t # vis, t # stack, path @ [t]) \<noteq> None"
    using "2.prems" by (intro "2.hyps") auto
  then show ?case by (auto split: option.splits)
next
  case (4 n g d ds vis stack path)
  show ?case
  proof (cases "d \<in> set vis")
    case True
    then show ?thesis using "4.prems" "4.hyps"(3) by auto
  next
    case False
    have "dfs n g d (vis, stack, path) \<noteq> None"
      using False "4.prems" by (intro "4.hyps"(1) [OF False]) auto
    then obtain cy v s p where r: "dfs n g d (vis, stack, path) = Some (cy, (v, s, p))" by auto
    show ?thesis
    proof (cases cy)
      case None
      note d = r [unfolded None]
      from dfs_frame(1) [OF d "4.prems"(4) False] have v: "s = stack" "set vis \<subseteq> set v" by auto
      have "card (N - set v) \<le> card (N - set vis)"
        using v "4.prems"(1) by (intro card_mono) auto
      then have "dfs_deps n g ds (v, s, p) \<noteq> None"
        using "4.prems" v by (intro "4.hyps"(2) [OF False d refl refl]) auto
      with False d show ?thesis by simp
    qed (use False r in simp)
  qed
qed auto

lemma dfs_tasks_None:
  "dfs_tasks n g ts (vis, []) = Some None \<Longrightarrow> finished g (set vis) \<Longrightarrow>
     \<exists>F. finished g F \<and> set vis \<union> set ts \<subseteq> F"
proof (induction ts arbitrary: vis)
  case (Cons t ts)
  show ?case
  proof (cases "t \<in> set vis")
    case True
    with Cons.prems Cons.IH [of vis] show ?thesis by auto
  next
    case False
    with Cons.prems(1) obtain v s p where d: "dfs n g t (vis, [], []) = Some (None, (v, s, p))"
        "dfs_tasks n g ts (v, s) = Some None"
      by (auto split: option.splits prod.splits)
    have "s = []" "insert t (set vis) \<subseteq> set v" using dfs_frame(1) [OF d(1)] False by auto
    moreover have "finished g (set v)" using dfs_complete(1) [OF d(1)] False Cons.prems(2) by simp
    ultimately show ?thesis using Cons.IH [of v] d(2) by auto
  qed
qed auto

lemma dfs_tasks_Some:
  "dfs_tasks n g ts (vis, []) = Some (Some c) \<Longrightarrow> is_cycle g c"
proof (induction ts arbitrary: vis)
  case (Cons t ts)
  show ?case
  proof (cases "t \<in> set vis")
    case True
    with Cons.prems Cons.IH [of vis] show ?thesis by simp
  next
    case False
    with Cons.prems obtain cy v s p where d: "dfs n g t (vis, [], []) = Some (cy, (v, s, p))"
      by (auto split: option.splits prod.splits)
    show ?thesis
    proof (cases cy)
      case None
      with dfs_frame(1) [of n g t vis "[]" "[]"] d False have "s = []" by simp
      with None d False Cons.prems Cons.IH [of v] show ?thesis by simp
    next
      case (Some c')
      with d False Cons.prems have "dfs n g t (vis, [], []) = Some (Some c, (v, s, p))" by simp
      from dfs_sound(1) [OF this] False show ?thesis by simp
    qed
  qed
qed simp

lemma dfs_tasks_fuel:
  "finite N \<Longrightarrow> set ts \<subseteq> N \<Longrightarrow> \<forall>x \<in> N. set (deps_of g x) \<subseteq> N \<Longrightarrow> card N \<le> n \<Longrightarrow>
     dfs_tasks n g ts (vis, []) \<noteq> None"
proof (induction ts arbitrary: vis)
  case (Cons t ts)
  show ?case
  proof (cases "t \<in> set vis")
    case True
    with Cons show ?thesis by simp
  next
    case False
    have "card (N - set vis) \<le> n" using Cons.prems(1,4) by (meson card_mono Diff_subset le_trans)
    then have "dfs n g t (vis, [], []) \<noteq> None"
      using Cons.prems False by (intro dfs_fuel(1) [of N]) auto
    then obtain cy v s p where d: "dfs n g t (vis, [], []) = Some (cy, (v, s, p))" by auto
    show ?thesis
    proof (cases cy)
      case None
      with dfs_frame(1) [of n g t vis "[]" "[]"] d False have "s = []" by simp
      with None d False Cons show ?thesis by simp
    qed (use d False in simp)
  qed
qed simp

lemma task_graph_keys: "set (dkeys (fold (\<lambda>t g. dset (dt_id t) (dependencies t) g) ts g)) =
    set (dkeys g) \<union> dt_id ` set ts"
  by (induction ts arbitrary: g) (auto simp: dkeys_dset)

lemma deps_in_names: "set (deps_of g x) \<subseteq> set (graph_names g)"
proof
  fix d assume "d \<in> set (deps_of g x)"
  then obtain ds where "map_of g x = Some ds" "d \<in> set ds"
    by (cases "map_of g x") (simp_all add: deps_of_def dget_def)
  then have "(x, ds) \<in> set g" by (auto dest: map_of_SomeD)
  then have "ds \<in> set (map snd g)" by force
  with \<open>d \<in> set ds\<close> show "d \<in> set (graph_names g)"
    unfolding graph_names_def set_append set_concat by blast
qed

lemma detectCycle_fuel_enough: "detectCycle_fuel ts \<noteq> None"
  unfolding detectCycle_fuel_def Let_def
proof (rule dfs_tasks_fuel)
  show "set (map dt_id ts) \<subseteq> set (graph_names (task_graph ts))"
    by (auto simp: graph_names_def task_graph_def task_graph_keys)
  show "\<forall>x \<in> set (graph_names (task_graph ts)). set (deps_of (task_graph ts) x) \<subseteq> set (graph_names (task_graph ts))"
    using deps_in_names by blast
  show "card (set (graph_names (task_graph ts))) \<le> Suc (length (graph_names (task_graph ts)))"
    by (simp add: card_length le_SucI)
qed simp

lemma is_cycle_not_acyclic:
  assumes "is_cycle g c"
  shows "\<not> acyclic (edges g)"
proof -
  have "walk g (x # xs) \<Longrightarrow> xs \<noteq> [] \<Longrightarrow> (x, last xs) \<in> (edges g)\<^sup>+" for x xs
  proof (induction xs arbitrary: x)
    case (Cons y xs)
    have e: "(x, y) \<in> edges g" using Cons.prems(1) by (simp add: edges_def)
    show ?case
    proof (cases "xs = []")
      case False
      with Cons have "(y, last xs) \<in> (edges g)\<^sup>+" by simp
      with e False show ?thesis by (simp add: trancl_into_trancl2)
    qed (use e in auto)
  qed simp
  moreover obtain x xs where c: "c = x # xs" using assms by (cases c) (auto simp: is_cycle_def)
  moreover have ne: "xs \<noteq> []" using assms by (auto simp: is_cycle_def c)
  moreover have "last xs = x" "walk g c" using assms ne by (auto simp: is_cycle_def c)
  ultimately show ?thesis by (auto simp: acyclic_def)
qed

lemma detectCycle_decides:
  "(case detectCycle ts of None \<Rightarrow> acyclic (edges (task_graph ts))
    | Some c \<Rightarrow> is_cycle (task_graph ts) c \<and> \<not> acyclic (edges (task_graph ts)))
   \<and> detectCycle_fuel ts = Some (detectCycle ts)"
proof -
  let ?g = "task_graph ts"
  obtain r where r: "detectCycle_fuel ts = Some r" using detectCycle_fuel_enough by blast
  have "acyclic (edges ?g)" if "r = None"
  proof -
    from r that have "dfs_tasks (Suc (length (graph_names ?g))) ?g (map dt_id ts) ([], []) = Some None"
      by (simp add: detectCycle_fuel_def Let_def)
    from dfs_tasks_None [OF this] obtain F where F: "finished ?g F" "dt_id ` set ts \<subseteq> F"
      by (auto simp: finished_def)
    have "x \<in> F" if "(x, y) \<in> edges ?g" for x y
    proof -
      have "dget ?g x \<noteq> None" using that by (cases "dget ?g x") (simp_all add: edges_def deps_of_def)
      then have "x \<in> set (dkeys ?g)" by (simp only: dict.has_iff not_False_eq_True)
      then show ?thesis using F(2) task_graph_keys [of ts "[]"] by (auto simp: task_graph_def dkeys_def)
    qed
    then show ?thesis using F(1) unfolding acyclic_def finished_def by (meson tranclD)
  qed
  moreover have "is_cycle ?g c" if "r = Some c" for c
    using r that dfs_tasks_Some [of _ ?g "map dt_id ts" "[]" c] by (simp add: detectCycle_fuel_def Let_def)
  moreover have "detectCycle ts = r" using r by (simp add: detectCycle_def)
  ultimately show ?thesis
    using r is_cycle_not_acyclic [of ?g] by (cases r) auto
qed

text \<open>C4.
  \<open>detectCycle\<close> always ends and decides acyclicity: it returns a path of names that starts and ends
  with the same name and follows the dependencies, exactly when the dependency graph has a cycle.\<close>

theorem detectCycle_correct:
  "(case detectCycle ts of None \<Rightarrow> acyclic (edges (task_graph ts))
    | Some c \<Rightarrow> is_cycle (task_graph ts) c \<and> \<not> acyclic (edges (task_graph ts)))
   \<and> detectCycle_fuel ts = Some (detectCycle ts)"
  by (rule detectCycle_decides)

section \<open>An accepted decomposition\<close>

definition task_edges :: "DecomposedTask list \<Rightarrow> (string \<times> string) set" where
  "task_edges ts = {(dt_id t, d) | t d. t \<in> set ts \<and> d \<in> set (dependencies t)}"

lemma task_graph_other: "i \<notin> dt_id ` set ts \<Longrightarrow>
    dget (fold (\<lambda>t g. dset (dt_id t) (dependencies t) g) ts g) i = dget g i"
  by (induction ts arbitrary: g) auto

lemma task_graph_get:
  "distinct (map dt_id ts) \<Longrightarrow> t \<in> set ts \<Longrightarrow> deps_of (task_graph ts) (dt_id t) = dependencies t"
proof -
  have "distinct (map dt_id ts) \<Longrightarrow> t \<in> set ts \<Longrightarrow>
      dget (fold (\<lambda>t g. dset (dt_id t) (dependencies t) g) ts g) (dt_id t) = Some (dependencies t)" for g
  proof (induction ts arbitrary: g)
    case (Cons x ts)
    then show ?case by (cases "x = t") (simp_all add: task_graph_other)
  qed simp
  then show "distinct (map dt_id ts) \<Longrightarrow> t \<in> set ts \<Longrightarrow> deps_of (task_graph ts) (dt_id t) = dependencies t"
    by (simp add: deps_of_def task_graph_def)
qed

lemma task_edges_graph: "distinct (map dt_id ts) \<Longrightarrow> task_edges ts \<subseteq> edges (task_graph ts)"
  using task_graph_get by (fastforce simp: task_edges_def edges_def)

text \<open>The enrichment passes touch neither names nor dependencies nor roles.\<close>

definition core_of :: "DecomposedTask \<Rightarrow> string \<times> string list \<times> TaskRole" where
  "core_of t = (dt_id t, dependencies t, dt_role t)"

lemma enrich_core: "map core_of (enhanceWithMCP found (injectIndexerContext client ts)) = map core_of ts"
  by (auto simp: enhanceWithMCP_def injectIndexerContext_def enhance_task_def core_of_def Let_def
      split: option.splits)

lemma core_edges: "map core_of ts = map core_of us \<Longrightarrow> map dt_id ts = map dt_id us \<and> task_edges ts = task_edges us"
proof -
  assume e: "map core_of ts = map core_of us"
  have i: "map dt_id xs = map fst (map core_of xs)" for xs by (simp add: core_of_def)
  have d: "task_edges xs = (\<Union>c \<in> set (map core_of xs). {fst c} \<times> set (fst (snd c)))" for xs
    by (auto simp: task_edges_def core_of_def)
  show ?thesis unfolding i d e by simp
qed

lemma validate_all_ok:
  "validate_all ids raws = Inr ts \<Longrightarrow> map dt_id ts = map raw_id raws \<and>
     (\<forall>t \<in> set ts. set (dependencies t) \<subseteq> set ids)"
proof (induction raws arbitrary: ts)
  case (Cons r raws)
  then obtain x xs where x: "validate_task ids r = Inr x" "validate_all ids raws = Inr xs" "ts = x # xs"
    by (auto split: sum.splits)
  have "dt_id x = raw_id r \<and> set (dependencies x) \<subseteq> set ids"
    using x(1) by (auto simp: validate_task_def find_None_iff split: option.splits)
  with Cons.IH [OF x(2)] x(3) show ?case by simp
qed simp

text \<open>C16.
  What \<open>decompose\<close> accepts is a DAG: when the names in the answer are distinct, the tasks it
  returns have exactly those names, in order, every dependency names one of them, and the
  dependency relation is acyclic, whatever the indexer and the MCP registry answer.\<close>

theorem decompose_dag:
  assumes "decompose_parsed client found (Some raws) = Inr ts" "distinct (map raw_id raws)"
  shows "map dt_id ts = map raw_id raws \<and> acyclic (task_edges ts) \<and>
    task_edges ts \<subseteq> set (map dt_id ts) \<times> set (map dt_id ts)"
proof -
  from assms(1) obtain us where us: "validate_all (map raw_id raws) raws = Inr us" "detectCycle us = None"
      "ts = enhanceWithMCP found (injectIndexerContext client us)"
    by (auto simp: decompose_parsed_def split: sum.splits option.splits)
  note v = validate_all_ok [OF us(1)]
  have "acyclic (edges (task_graph us))"
    using detectCycle_decides [of us] us(2) by simp
  then have "acyclic (task_edges us)"
    using task_edges_graph [of us] assms(2) v by (auto intro: acyclic_subset)
  moreover have "task_edges us \<subseteq> set (map dt_id us) \<times> set (map dt_id us)"
  proof -
    have "set (map raw_id raws) = set (map dt_id us)" using v by simp
    with v have "\<forall>t \<in> set us. set (dependencies t) \<subseteq> set (map dt_id us)" by metis
    then show ?thesis by (auto simp: task_edges_def)
  qed
  ultimately show ?thesis
    using core_edges [OF enrich_core [of found client us]] v us(3) by auto
qed

definition demo_raw :: "string \<Rightarrow> string list \<Rightarrow> RawTask" where
  "demo_raw i ds = \<lparr>raw_id = i, raw_description = ''d'', raw_complexity = Low, raw_deps = Some ds,
     raw_role = Some ''verification'', raw_files = None, raw_estimated = Some [''f'']\<rparr>"

lemma decompose_dag_witness:
  "\<exists>ts. decompose_parsed None (Some [''x'', ''f'', '''']) (Some [demo_raw ''a'' [], demo_raw ''b'' [''a'']]) = Inr ts \<and>
     acyclic (task_edges ts) \<and> map dt_id ts = [''a'', ''b'']"
proof -
  let ?r = "decompose_parsed None (Some [''x'', ''f'', '''']) (Some [demo_raw ''a'' [], demo_raw ''b'' [''a'']])"
  have "case ?r of Inl e \<Rightarrow> False | Inr ts \<Rightarrow> True" by code_simp
  then obtain ts where ts: "?r = Inr ts" by (auto split: sum.splits)
  from decompose_dag [OF ts] ts show ?thesis by (auto simp: demo_raw_def)
qed

text \<open>
  With a repeated name the graph keeps the dependencies of the last task of that name only, so a
  cycle through an earlier one is accepted.\<close>

lemma duplicate_names_hide_cycle:
  "case decompose_parsed None None
     (Some [demo_raw ''a'' [''b''], demo_raw ''b'' [''a''], demo_raw ''a'' []]) of
   Inr ts \<Rightarrow> map dependencies ts = [[''b''], [''a''], []] | Inl e \<Rightarrow> False"
  by code_simp

end
