(* ===== verification/Scheduler.thy ===== *)
theory Scheduler
  imports Prelude Core_Types Decomposer
begin

text \<open>
  \<open>src/core/state.ts\<close>: the persisted state of the orchestrator, and \<open>src/core/scheduler.ts\<close>: the
  scheduler that assigns tasks to worktree lanes.

  The file of the state machine is the state it holds, \<open>None\<close> when it cannot be read or parsed;
  the write of the temporary file and its rename may each fail. The isolation engine and the
  provider router are arguments: the outcome of creating each lane, the result of a completion.
  An entry of the ledger is recorded with its type, severity and task. Each operation of the
  scheduler runs to its end before the next begins.
\<close>

section \<open>The state machine\<close>

record StateMachine =
  sm_state :: OrchestratorState
  sm_file :: "OrchestratorState option"

definition createInitialState :: OrchestratorState where
  "createInitialState = \<lparr>currentTaskId = None, tasks = [], orch_status = Idle, lastError = None,
     failedProviderTimestamps = Some []\<rparr>"

definition sm_load :: "StateMachine \<Rightarrow> StateMachine" where
  "sm_load m = m\<lparr>sm_state := (case sm_file m of Some s \<Rightarrow> s | None \<Rightarrow> createInitialState)\<rparr>"

text \<open>\<open>update\<close>: the memory changes first; the file only when write and rename both succeed.\<close>

definition sm_update ::
  "bool \<Rightarrow> bool \<Rightarrow> (OrchestratorState \<Rightarrow> OrchestratorState) \<Rightarrow> StateMachine \<Rightarrow> bool \<times> StateMachine" where
  "sm_update write_ok rename_ok updater m =
    (let s = updater (sm_state m) in
     if write_ok \<and> rename_ok then (True, \<lparr>sm_state = s, sm_file = Some s\<rparr>)
     else (False, m\<lparr>sm_state := s\<rparr>))"

definition timestamps :: "OrchestratorState \<Rightarrow> (string, nat) dict" where
  "timestamps s = (case failedProviderTimestamps s of None \<Rightarrow> [] | Some d \<Rightarrow> d)"

definition sm_recordProviderFailure :: "nat \<Rightarrow> string \<Rightarrow> OrchestratorState \<Rightarrow> OrchestratorState" where
  "sm_recordProviderFailure now pid s = s\<lparr>failedProviderTimestamps := Some (dset pid now (timestamps s))\<rparr>"

definition getProviderLastFailure :: "string \<Rightarrow> OrchestratorState \<Rightarrow> nat option" where
  "getProviderLastFailure pid s = (case failedProviderTimestamps s of None \<Rightarrow> None | Some d \<Rightarrow> dget d pid)"

definition clearProviderCooldown :: "string \<Rightarrow> OrchestratorState \<Rightarrow> OrchestratorState" where
  "clearProviderCooldown pid s = s\<lparr>failedProviderTimestamps := Some (ddelete pid (timestamps s))\<rparr>"

section \<open>The scheduler\<close>

datatype ResultStatus = Success | Err

record TaskExecutionResult =
  ter_taskId :: string
  ter_status :: ResultStatus
  ter_output :: "string option"
  ter_error :: "string option"
  ter_worktreeId :: string

type_synonym ledger_entry = "string \<times> EventSeverity \<times> string option"

record ParallelScheduler =
  worktreePoolSize :: nat
  worktrees :: "(string, string) dict"
  activeTasks :: "(string, DecomposedTask) dict"
  sched_state :: OrchestratorState
  sched_ledger :: "ledger_entry list"
  initialized :: bool

text \<open>\<open>config?.worktreePoolSize || 3\<close>: a size of 0 becomes 3.\<close>

definition new_scheduler :: "nat option \<Rightarrow> OrchestratorState \<Rightarrow> ParallelScheduler" where
  "new_scheduler n s = \<lparr>worktreePoolSize = (case n of None \<Rightarrow> 3 | Some k \<Rightarrow> if k = 0 then 3 else k),
     worktrees = [], activeTasks = [], sched_state = s, sched_ledger = [], initialized = False\<rparr>"

definition log_entry :: "ledger_entry \<Rightarrow> ParallelScheduler \<Rightarrow> ParallelScheduler" where
  "log_entry e s = s\<lparr>sched_ledger := sched_ledger s @ [e]\<rparr>"

definition lane_id :: "nat \<Rightarrow> string" where
  "lane_id i = ''lane-'' @ show_nat i"

definition lane_path :: "string \<Rightarrow> string" where
  "lane_path wid = ''.apohara/worktrees/'' @ wid"

text \<open>The creations finish in some order; each is a lane number and whether it succeeded.\<close>

definition lane_created :: "nat \<times> bool \<Rightarrow> ParallelScheduler \<Rightarrow> ParallelScheduler" where
  "lane_created r s = (let (i, ok) = r; wid = lane_id i in
     if ok then log_entry (''worktree_created'', Info, None)
                  (s\<lparr>worktrees := dset wid (lane_path wid) (worktrees s)\<rparr>)
     else log_entry (''worktree_creation_failed'', Error, None) s)"

definition initialize :: "(nat \<times> bool) list \<Rightarrow> ParallelScheduler \<Rightarrow> ParallelScheduler" where
  "initialize results s =
    (if initialized s then s else (fold lane_created results s)\<lparr>initialized := True\<rparr>)"

definition findAvailableWorktree :: "ParallelScheduler \<Rightarrow> string option" where
  "findAvailableWorktree s = List.find (\<lambda>wid. \<not> dhas (activeTasks s) wid) (dkeys (worktrees s))"

definition checkDependencies :: "ParallelScheduler \<Rightarrow> string list \<Rightarrow> bool" where
  "checkDependencies s deps = list_all (\<lambda>dep.
     (case List.find (\<lambda>t. task_id t = dep) (tasks (sched_state s)) of
        None \<Rightarrow> False | Some t \<Rightarrow> task_status t = Completed)) deps"

text \<open>The updater of \<open>scheduleTask\<close>: an existing task is set to running, a new one appended.\<close>

definition mark_scheduled :: "nat \<Rightarrow> DecomposedTask \<Rightarrow> OrchestratorState \<Rightarrow> OrchestratorState" where
  "mark_scheduled now t s =
    (if List.find (\<lambda>x. task_id x = dt_id t) (tasks s) \<noteq> None
     then s\<lparr>currentTaskId := Some (dt_id t),
            tasks := map (\<lambda>x. if task_id x = dt_id t
                        then x\<lparr>task_status := In_progress, updatedAt := now\<rparr> else x) (tasks s)\<rparr>
     else s\<lparr>currentTaskId := Some (dt_id t),
            tasks := tasks s @ [\<lparr>task_id = dt_id t, task_role = None, task_description = dt_description t,
              task_status = In_progress, createdAt = now, updatedAt = now\<rparr>],
            orch_status := Running\<rparr>)"

definition scheduleTask :: "nat \<Rightarrow> DecomposedTask \<Rightarrow> ParallelScheduler \<Rightarrow> string option \<times> ParallelScheduler" where
  "scheduleTask now t s =
    (if \<not> checkDependencies s (dependencies t) then (None, s)
     else case findAvailableWorktree s of None \<Rightarrow> (None, s)
     | Some wid \<Rightarrow> (case dget (worktrees s) wid of None \<Rightarrow> (None, s)
       | Some path \<Rightarrow> if path = [] then (None, s)
          else (Some wid, log_entry (''task_scheduled'', Info, Some (dt_id t))
                 (s\<lparr>activeTasks := dset wid t (activeTasks s),
                    sched_state := mark_scheduled now t (sched_state s)\<rparr>))))"

definition completeTask ::
  "nat \<Rightarrow> string \<Rightarrow> string \<Rightarrow> TaskExecutionResult \<Rightarrow> ParallelScheduler \<Rightarrow> ParallelScheduler" where
  "completeTask now taskId worktreeId r s =
    (let st = sched_state s;
         ok = (ter_status r = Success);
         st' = st\<lparr>currentTaskId := None,
           tasks := map (\<lambda>t. if task_id t = taskId
              then t\<lparr>task_status := (if ok then Completed else Failed), updatedAt := now\<rparr> else t) (tasks st),
           orch_status := (if length (activeTasks s) \<le> 1 then Idle else Running)\<rparr>;
         s1 = log_entry (if ok then ''task_completed'' else ''task_failed'', if ok then Info else Error,
                Some taskId) (s\<lparr>sched_state := st'\<rparr>)
     in s1\<lparr>activeTasks := ddelete worktreeId (activeTasks s1)\<rparr>)"

text \<open>
  \<open>executeTaskWithFallback\<close>: the router's completion is the content and provider, or an error
  message; \<open>next\<close> is what \<open>fallback(undefined)\<close> names afterwards.\<close>

record FallbackResult =
  fr_output :: string
  fr_error :: "string option"
  fallbackOccurred :: bool
  finalProvider :: "ProviderId option"

definition executeTaskWithFallback ::
  "string + (string \<times> ProviderId) \<Rightarrow> ProviderId option \<Rightarrow> DecomposedTask \<Rightarrow> ParallelScheduler \<Rightarrow>
   FallbackResult \<times> ParallelScheduler" where
  "executeTaskWithFallback completion next t s = (case completion of
     Inr (text, p) \<Rightarrow> (\<lparr>fr_output = text, fr_error = None, fallbackOccurred = False,
                        finalProvider = Some p\<rparr>, s)
   | Inl msg \<Rightarrow>
       let e = to_lower msg;
           fb = (contains e ''429'' \<or> contains e ''timeout'' \<or> contains e ''network'');
           s1 = (if fb then log_entry (''provider_fallback'', Warning, Some (dt_id t)) s else s);
           s2 = (if contains e ''exhausted'' \<or> contains e ''unavailable''
                 then log_entry (''task_exhausted'', Error, Some (dt_id t)) s1 else s1)
       in (\<lparr>fr_output = [], fr_error = Some msg, fallbackOccurred = fb, finalProvider = next\<rparr>, s2))"

text \<open>Schedule from the head of the queue until one task cannot be scheduled.\<close>

fun schedule_batch ::
  "nat \<Rightarrow> DecomposedTask list \<Rightarrow> ParallelScheduler \<Rightarrow> DecomposedTask list \<times> ParallelScheduler" where
  "schedule_batch now [] s = ([], s)"
| "schedule_batch now (t # ts) s = (case scheduleTask now t s of
     (None, s') \<Rightarrow> (t # ts, s')
   | (Some wid, s') \<Rightarrow> schedule_batch now ts s')"

text \<open>
  The polling loop of \<open>executeAll\<close>. \<open>env k\<close> is what other code does to the scheduler during the
  k-th wait of 100 ms; the result is \<open>None\<close> while the loop has not ended after \<open>n\<close> rounds.\<close>

fun execute_loop ::
  "(nat \<Rightarrow> ParallelScheduler \<Rightarrow> ParallelScheduler) \<Rightarrow> nat \<Rightarrow> nat \<Rightarrow> DecomposedTask list \<Rightarrow> ParallelScheduler \<Rightarrow>
   (TaskExecutionResult list \<times> ParallelScheduler) option" where
  "execute_loop env 0 k pending s = (if activeTasks s = [] \<and> pending = [] then Some ([], s) else None)"
| "execute_loop env (Suc n) k pending s =
    (if activeTasks s = [] \<and> pending = [] then Some ([], s)
     else (let (pending', s') = schedule_batch k pending (env k s)
           in execute_loop env n (Suc k) pending' s'))"

definition executeAll ::
  "(nat \<Rightarrow> ParallelScheduler \<Rightarrow> ParallelScheduler) \<Rightarrow> nat \<Rightarrow> DecomposedTask list \<Rightarrow> ParallelScheduler \<Rightarrow>
   (TaskExecutionResult list \<times> ParallelScheduler) option" where
  "executeAll env n ts s = (let (pending, s') = schedule_batch 0 ts s in execute_loop env n 1 pending s')"

definition shutdown :: "(string \<Rightarrow> bool) \<Rightarrow> ParallelScheduler \<Rightarrow> ParallelScheduler" where
  "shutdown destroyed s =
    (fold (\<lambda>wid. if destroyed wid then log_entry (''worktree_destroyed'', Info, None) else id)
       (dkeys (worktrees s)) s)\<lparr>worktrees := [], activeTasks := [], initialized := False\<rparr>"

section \<open>Persistence\<close>

type_synonym update = "bool \<times> bool \<times> (OrchestratorState \<Rightarrow> OrchestratorState)"

definition sm_run :: "update list \<Rightarrow> StateMachine \<Rightarrow> StateMachine" where
  "sm_run us m = foldl (\<lambda>m (w, r, f). snd (sm_update w r f m)) m us"

text \<open>
  Persistence is atomic: after any sequence of updates, whichever writes or renames fail, the
  state in memory is the result of all of them, and the file (so what a restart loads) holds the
  whole state as it was after the last update whose write and rename succeeded, or what it held
  before.\<close>

theorem state_file_atomic:
  "\<exists>k \<le> length us. sm_file (sm_run us m) = (if k = 0 then sm_file m else Some (sm_state (sm_run (take k us) m))) \<and>
     list_all (\<lambda>(w, r, f). \<not> (w \<and> r)) (drop k us) \<and> (k = 0 \<or> (\<exists>f. us ! (k - 1) = (True, True, f))) \<and>
     sm_state (sm_run us m) = foldl (\<lambda>s (w, r, f). f s) (sm_state m) us"
proof (induction us rule: rev_induct)
  case Nil
  then show ?case by (simp add: sm_run_def)
next
  case (snoc u us)
  obtain w r f where u: "u = (w, r, f)" by (metis prod_cases3)
  have step: "sm_run (us @ [u]) m = snd (sm_update w r f (sm_run us m))"
    by (simp add: sm_run_def u)
  from snoc obtain k where k: "k \<le> length us"
      "sm_file (sm_run us m) = (if k = 0 then sm_file m else Some (sm_state (sm_run (take k us) m)))"
      "list_all (\<lambda>(w, r, f). \<not> (w \<and> r)) (drop k us)" "k = 0 \<or> (\<exists>f. us ! (k - 1) = (True, True, f))"
      "sm_state (sm_run us m) = foldl (\<lambda>s (w, r, f). f s) (sm_state m) us"
    by blast
  show ?case
  proof (cases "w \<and> r")
    case True
    then show ?thesis using k(5)
      by (intro exI [of _ "Suc (length us)"]) (simp add: step sm_update_def Let_def nth_append, simp add: u)
  next
    case False
    have "us ! (k - 1) = (us @ [u]) ! (k - 1)" if "k \<noteq> 0"
    proof -
      have "k - 1 < length us" using k(1) that by linarith
      then show ?thesis by (simp add: nth_append)
    qed
    moreover have "sm_file (sm_run (us @ [u]) m) = sm_file (sm_run us m)"
      "sm_state (sm_run (us @ [u]) m) = f (sm_state (sm_run us m))"
      using False by (auto simp: step sm_update_def Let_def)
    moreover have "drop k (us @ [u]) = drop k us @ [u]" "take k (us @ [u]) = take k us" using k(1) by simp_all
    ultimately show ?thesis using k False
      by (intro exI [of _ k] conjI) (simp_all add: u le_SucI split: if_splits)
  qed
qed

lemma provider_failure_roundtrip:
  "getProviderLastFailure p (sm_recordProviderFailure now p s) = Some now"
  "q \<noteq> p \<Longrightarrow> getProviderLastFailure q (sm_recordProviderFailure now p s) = getProviderLastFailure q s"
  "getProviderLastFailure p (clearProviderCooldown p s) = None"
  "q \<noteq> p \<Longrightarrow> getProviderLastFailure q (clearProviderCooldown p s) = getProviderLastFailure q s"
  by (auto simp: getProviderLastFailure_def sm_recordProviderFailure_def clearProviderCooldown_def
      timestamps_def dict.get_remove split: option.splits)

section \<open>Lanes\<close>

text \<open>What a caller can do with a scheduler: the operations, in any order.\<close>

datatype sched_op = Initialize "(nat \<times> bool) list" | Schedule nat DecomposedTask
  | Complete nat string string TaskExecutionResult
  | Fallback "string + (string \<times> ProviderId)" "ProviderId option" DecomposedTask
  | Shutdown "string \<Rightarrow> bool"

fun sched_step :: "sched_op \<Rightarrow> ParallelScheduler \<Rightarrow> ParallelScheduler" where
  "sched_step (Initialize rs) s = initialize rs s"
| "sched_step (Schedule now t) s = snd (scheduleTask now t s)"
| "sched_step (Complete now tid wid r) s = completeTask now tid wid r s"
| "sched_step (Fallback c next t) s = snd (executeTaskWithFallback c next t s)"
| "sched_step (Shutdown d) s = shutdown d s"

text \<open>The isolation engine reports once for each lane of the pool.\<close>

fun sched_op_ok :: "nat \<Rightarrow> sched_op \<Rightarrow> bool" where
  "sched_op_ok n (Initialize rs) \<longleftrightarrow> set (map fst rs) \<subseteq> {..<n}"
| "sched_op_ok n _ \<longleftrightarrow> True"

definition lanes_inv :: "ParallelScheduler \<Rightarrow> bool" where
  "lanes_inv s \<longleftrightarrow> distinct (dkeys (worktrees s)) \<and> distinct (dkeys (activeTasks s)) \<and>
     set (dkeys (activeTasks s)) \<subseteq> set (dkeys (worktrees s)) \<and>
     set (dkeys (worktrees s)) \<subseteq> lane_id ` {..<worktreePoolSize s}"

lemma log_entry_simps [simp]:
  "worktrees (log_entry e s) = worktrees s" "activeTasks (log_entry e s) = activeTasks s"
  "worktreePoolSize (log_entry e s) = worktreePoolSize s" "sched_state (log_entry e s) = sched_state s"
  "initialized (log_entry e s) = initialized s"
  by (simp_all add: log_entry_def)

lemma lane_created_inv:
  "lanes_inv s \<Longrightarrow> fst r < worktreePoolSize s \<Longrightarrow>
     lanes_inv (lane_created r s) \<and> worktreePoolSize (lane_created r s) = worktreePoolSize s"
  by (cases r) (auto simp: lanes_inv_def lane_created_def Let_def dkeys_dset)

lemma initialize_inv:
  assumes "lanes_inv s" "set (map fst rs) \<subseteq> {..<worktreePoolSize s}"
  shows "lanes_inv (initialize rs s) \<and> worktreePoolSize (initialize rs s) = worktreePoolSize s"
proof -
  have "lanes_inv s \<Longrightarrow> set (map fst rs) \<subseteq> {..<worktreePoolSize s} \<Longrightarrow>
      lanes_inv (fold lane_created rs s) \<and> worktreePoolSize (fold lane_created rs s) = worktreePoolSize s" for s
  proof (induction rs arbitrary: s)
    case (Cons r rs)
    then have "lanes_inv (lane_created r s) \<and> worktreePoolSize (lane_created r s) = worktreePoolSize s"
      by (intro lane_created_inv) auto
    with Cons show ?case by simp
  qed simp
  from this [OF assms] assms show ?thesis by (cases "initialized s") (auto simp: initialize_def lanes_inv_def)
qed

text \<open>A task is dispatched only to a free lane, and only when its dependencies are completed.\<close>

lemma scheduleTask_Some:
  assumes "scheduleTask now t s = (Some wid, s')"
  shows "wid \<in> set (dkeys (worktrees s)) \<and> dget (activeTasks s) wid = None \<and>
    checkDependencies s (dependencies t) \<and> activeTasks s' = dset wid t (activeTasks s) \<and>
    worktrees s' = worktrees s \<and> worktreePoolSize s' = worktreePoolSize s \<and>
    sched_state s' = mark_scheduled now t (sched_state s)"
proof -
  from assms have f: "findAvailableWorktree s = Some wid"
    by (auto simp: scheduleTask_def split: if_splits option.splits)
  from find_SomeD [OF f [unfolded findAvailableWorktree_def]] assms f show ?thesis
    by (auto simp: scheduleTask_def dhas_def split: if_splits option.splits)
qed

lemma scheduleTask_None: "scheduleTask now t s = (None, s') \<Longrightarrow> s' = s"
  by (auto simp: scheduleTask_def split: if_splits option.splits)

lemma shutdown_simps [simp]: "worktrees (shutdown d s) = []" "activeTasks (shutdown d s) = []"
  by (simp_all add: shutdown_def)

lemma shutdown_pool [simp]: "worktreePoolSize (shutdown d s) = worktreePoolSize s"
proof -
  have "worktreePoolSize (fold (\<lambda>wid. if d wid then log_entry e else id) ws s) = worktreePoolSize s" for ws e s
    by (induction ws arbitrary: s) auto
  then show ?thesis by (simp add: shutdown_def)
qed

definition sched_machine_step :: "nat \<Rightarrow> ParallelScheduler \<Rightarrow> ParallelScheduler \<Rightarrow> bool" where
  "sched_machine_step n s s' \<longleftrightarrow> (\<exists>op. sched_op_ok n op \<and> s' = sched_step op s)"

interpretation lanes: invariant_machine
  "\<lambda>s. \<exists>c st. s = new_scheduler c st \<and> worktreePoolSize s = n"
  "sched_machine_step n" "\<lambda>s. lanes_inv s \<and> worktreePoolSize s = n" for n
proof
  show "\<exists>c st. s = new_scheduler c st \<and> worktreePoolSize s = n \<Longrightarrow> lanes_inv s \<and> worktreePoolSize s = n" for s
    by (auto simp: new_scheduler_def lanes_inv_def dkeys_def)
  show "lanes_inv s' \<and> worktreePoolSize s' = n"
    if "sched_machine_step n s s'" and i: "lanes_inv s \<and> worktreePoolSize s = n" for s s'
  proof -
    from that obtain op where op: "sched_op_ok n op" "s' = sched_step op s"
      by (auto simp: sched_machine_step_def)
    show ?thesis
    proof (cases op)
      case (Initialize rs)
      with op i show ?thesis using initialize_inv [of s rs] by simp
    next
      case (Schedule now t)
      show ?thesis
      proof (cases "scheduleTask now t s")
        case (Pair w s1)
        with op i Schedule show ?thesis
          using scheduleTask_None [of now t s s1] scheduleTask_Some [of now t s _ s1]
          by (cases w) (auto simp: lanes_inv_def dkeys_dset dict.has_iff)
      qed
    next
      case (Complete now tid wid r)
      with op i show ?thesis
        by (auto simp: completeTask_def Let_def lanes_inv_def dict.keys_remove)
    next
      case (Fallback c nx t)
      with op i show ?thesis
        by (auto simp: executeTaskWithFallback_def Let_def lanes_inv_def split: sum.splits)
    next
      case (Shutdown d)
      with op i show ?thesis by (auto simp: lanes_inv_def dkeys_def)
    qed
  qed
qed

definition sched_run :: "sched_op list \<Rightarrow> ParallelScheduler \<Rightarrow> ParallelScheduler" where
  "sched_run ops s = foldl (\<lambda>s op. sched_step op s) s ops"

lemma sched_run_steps: "list_all (sched_op_ok n) ops \<Longrightarrow> (sched_machine_step n)\<^sup>*\<^sup>* s (sched_run ops s)"
proof (induction ops rule: rev_induct)
  case (snoc op ops)
  then have "sched_machine_step n (sched_run ops s) (sched_run (ops @ [op]) s)"
    by (auto simp: sched_run_def sched_machine_step_def)
  with snoc show ?case by (simp add: rtranclp.rtrancl_into_rtrancl)
qed (simp add: sched_run_def)

text \<open>C5.
  Lane isolation: after any sequence of operations, every active task is on an existing lane, no
  lane carries two tasks, and at most the size of the pool is active; the next dispatch goes to a
  lane that is free, and only if every dependency is completed in the state.\<close>

theorem lane_isolation:
  assumes "list_all (sched_op_ok (worktreePoolSize (new_scheduler c st))) ops"
    and "s = sched_run ops (new_scheduler c st)"
  shows "distinct (dkeys (activeTasks s)) \<and> set (dkeys (activeTasks s)) \<subseteq> set (dkeys (worktrees s)) \<and>
    length (activeTasks s) \<le> worktreePoolSize (new_scheduler c st) \<and>
    (case scheduleTask now t s of (None, s') \<Rightarrow> s' = s
     | (Some wid, s') \<Rightarrow> wid \<notin> set (dkeys (activeTasks s)) \<and> checkDependencies s (dependencies t) \<and>
         length (activeTasks s') = length (activeTasks s) + 1)"
proof -
  have i: "lanes_inv s \<and> worktreePoolSize s = worktreePoolSize (new_scheduler c st)"
    using lanes.inv_reachable [OF _ sched_run_steps [OF assms(1)]] assms(2) by blast
  have "length (dkeys (activeTasks s)) = card (set (dkeys (activeTasks s)))"
    using i by (simp add: lanes_inv_def distinct_card)
  also have "\<dots> \<le> card (lane_id ` {..<worktreePoolSize s})"
    using i by (intro card_mono) (auto simp: lanes_inv_def)
  also have "\<dots> \<le> worktreePoolSize s" using card_image_le [of "{..<worktreePoolSize s}" lane_id] by simp
  finally have "length (activeTasks s) \<le> worktreePoolSize s" by simp
  moreover have "case scheduleTask now t s of (None, s') \<Rightarrow> s' = s
     | (Some wid, s') \<Rightarrow> wid \<notin> set (dkeys (activeTasks s)) \<and> checkDependencies s (dependencies t) \<and>
         length (activeTasks s') = length (activeTasks s) + 1"
  proof (cases "scheduleTask now t s")
    case (Pair w s')
    show ?thesis
    proof (cases w)
      case None
      with Pair show ?thesis using scheduleTask_None [of now t s s'] by simp
    next
      case (Some wid)
      note t = scheduleTask_Some [OF Pair [unfolded Some]]
      then have "length (dkeys (activeTasks s')) = Suc (length (dkeys (activeTasks s)))"
        by (simp only: dict.size_put refl if_True)
      with t Pair Some show ?thesis by (simp add: dict.has_iff)
    qed
  qed
  ultimately show ?thesis using i by (simp add: lanes_inv_def)
qed

definition demo_task :: "string \<Rightarrow> string list \<Rightarrow> DecomposedTask" where
  "demo_task i ds = \<lparr>dt_id = i, dt_description = ''d'', estimatedComplexity = Low, dependencies = ds,
     dt_role = Execution, files = [], indexerContext = None\<rparr>"

definition sched_demo_ops :: "sched_op list" where
  "sched_demo_ops = [Initialize [(1, True), (0, True), (2, False)], Schedule 1 (demo_task ''a'' []),
     Schedule 2 (demo_task ''b'' [''a''])]"

lemma lane_isolation_witness:
  "let s = sched_run sched_demo_ops (new_scheduler None createInitialState)
   in dkeys (activeTasks s) = [''lane-1''] \<and> distinct (dkeys (activeTasks s)) \<and> length (activeTasks s) \<le> 3"
proof -
  have "list_all (sched_op_ok 3) sched_demo_ops" by (simp add: sched_demo_ops_def)
  moreover have "dkeys (activeTasks (sched_run sched_demo_ops (new_scheduler None createInitialState))) = [''lane-1'']"
    by code_simp
  ultimately show ?thesis
    using lane_isolation [where c = None and st = createInitialState and ops = sched_demo_ops
      and now = 0 and t = "demo_task ''c'' []", OF _ refl]
    by (simp add: new_scheduler_def Let_def)
qed

section \<open>executeAll\<close>

lemma schedule_batch_active:
  "schedule_batch now ts s = (ts', s') \<Longrightarrow>
     (activeTasks s \<noteq> [] \<or> ts' \<noteq> ts \<longrightarrow> activeTasks s' \<noteq> []) \<and> (ts' = ts \<longrightarrow> s' = s)"
proof (induction ts arbitrary: s)
  case (Cons t ts)
  obtain w s1 where r: "scheduleTask now t s = (w, s1)" by force
  show ?case
  proof (cases w)
    case None
    with r Cons.prems scheduleTask_None show ?thesis by fastforce
  next
    case (Some wid)
    have "dset wid t (activeTasks s) \<noteq> []" by (cases "activeTasks s") (auto simp: dset_def)
    then have "activeTasks s1 \<noteq> []" using scheduleTask_Some [OF r [unfolded Some]] by simp
    moreover have b: "schedule_batch now ts s1 = (ts', s')" using r Some Cons.prems by simp
    moreover have "length xs \<le> length ys" if "schedule_batch now ys u = (xs, v)" for xs ys u v
      using that by (induction ys arbitrary: u) (auto split: prod.splits option.splits intro: le_SucI)
    from this [OF b] have "ts' \<noteq> t # ts" by auto
    ultimately show ?thesis using Cons.IH [of s1] by auto
  qed
qed simp

lemma execute_loop_active:
  assumes "\<And>k s. activeTasks s \<noteq> [] \<Longrightarrow> activeTasks (env k s) \<noteq> []"
  shows "activeTasks s \<noteq> [] \<Longrightarrow> execute_loop env n k pending s = None"
proof (induction n arbitrary: k pending s)
  case (Suc n)
  obtain p' s' where b: "schedule_batch k pending (env k s) = (p', s')" by force
  with schedule_batch_active [OF b] assms Suc.prems have "activeTasks s' \<noteq> []" by blast
  with Suc b show ?case by simp
qed simp

text \<open>
  \<open>executeAll\<close> does not complete what it schedules: as long as nobody else calls \<open>completeTask\<close>
  (the lanes in use stay in use during the waits) a call that gets one task onto a lane never
  returns, whatever number of rounds it polls.\<close>

theorem executeAll_never_returns:
  assumes "\<And>k s. activeTasks s \<noteq> [] \<Longrightarrow> activeTasks (env k s) \<noteq> []"
    and "fst (scheduleTask 0 t s) \<noteq> None"
  shows "executeAll env n (t # ts) s = None"
proof -
  obtain p s' where b: "schedule_batch 0 (t # ts) s = (p, s')" by force
  obtain w s1 where r: "scheduleTask 0 t s = (Some w, s1)" using assms(2) by (cases "scheduleTask 0 t s") auto
  have "dset w t (activeTasks s) \<noteq> []" by (cases "activeTasks s") (auto simp: dset_def)
  then have "activeTasks s1 \<noteq> []" using scheduleTask_Some [OF r] by simp
  moreover have "schedule_batch 0 ts s1 = (p, s')" using b r by simp
  ultimately have "activeTasks s' \<noteq> []" using schedule_batch_active by blast
  with assms(1) have "execute_loop env n 1 p s' = None" by (rule execute_loop_active)
  then show ?thesis by (simp only: executeAll_def b Let_def prod.case)
qed

definition demo_sched :: ParallelScheduler where
  "demo_sched = initialize [(0, True), (1, True)] (new_scheduler (Some 2) createInitialState)"

lemma executeAll_never_returns_witness:
  "\<forall>n. executeAll (\<lambda>k s. s) n [demo_task ''a'' [], demo_task ''b'' []] demo_sched = None"
proof -
  have "fst (scheduleTask 0 (demo_task ''a'' []) demo_sched) \<noteq> None" by code_simp
  then show ?thesis using executeAll_never_returns [of "\<lambda>k s. s" "demo_task ''a'' []"] by blast
qed

text \<open>
  The tasks are taken from the head of the queue only: completions by others change no task name,
  so a head that waits for a task which is not in the state blocks every task behind it.\<close>

definition completions :: "(nat \<Rightarrow> ParallelScheduler \<Rightarrow> ParallelScheduler) \<Rightarrow> bool" where
  "completions env \<longleftrightarrow> (\<forall>k s. map task_id (tasks (sched_state (env k s))) = map task_id (tasks (sched_state s)))"

lemma complete_names: "map task_id (tasks (sched_state (completeTask now tid w r s))) =
    map task_id (tasks (sched_state s))"
  by (simp add: completeTask_def Let_def)

text \<open>
  Head-of-line blocking: if the first task waits for a task that is not in the state yet (it may
  stand behind it in the same list), \<open>executeAll\<close> never returns and never schedules anything,
  even when every active task is completed by others during the waits.\<close>

theorem executeAll_head_blocked:
  assumes "completions env" "d \<in> set (dependencies t)" "d \<notin> task_id ` set (tasks (sched_state s))"
  shows "executeAll env n (t # ts) s = None"
proof -
  have blocked: "schedule_batch k (t # ts) u = (t # ts, u)"
    if "d \<notin> task_id ` set (tasks (sched_state u))" for k u
  proof -
    have "List.find (\<lambda>x. task_id x = d) (tasks (sched_state u)) = None"
      using that by (auto simp: find_None_iff)
    then have "\<not> checkDependencies u (dependencies t)"
      using assms(2) by (auto simp: checkDependencies_def list_all_iff intro!: bexI [of _ d])
    then show ?thesis by (simp add: scheduleTask_def)
  qed
  have "execute_loop env n k (t # ts) u = None" if "d \<notin> task_id ` set (tasks (sched_state u))" for k u
    using that
  proof (induction n arbitrary: k u)
    case (Suc n)
    have "set (map task_id (tasks (sched_state (env k u)))) = set (map task_id (tasks (sched_state u)))"
      using assms(1) by (simp only: completions_def)
    then have "d \<notin> task_id ` set (tasks (sched_state (env k u)))" using Suc.prems by simp
    with Suc.IH blocked show ?case by simp
  qed simp
  with blocked assms(3) show ?thesis by (simp add: executeAll_def)
qed

lemma executeAll_head_blocked_witness:
  "\<forall>n. executeAll (\<lambda>k. completeTask k ''a'' ''lane-0''
       \<lparr>ter_taskId = ''a'', ter_status = Success, ter_output = None, ter_error = None, ter_worktreeId = ''lane-0''\<rparr>)
     n [demo_task ''b'' [''a''], demo_task ''a'' []] demo_sched = None"
proof -
  have "''a'' \<notin> task_id ` set (tasks (sched_state demo_sched))" by code_simp
  moreover have "''a'' \<in> set (dependencies (demo_task ''b'' [''a'']))" by (simp add: demo_task_def)
  ultimately show ?thesis
    by (intro allI executeAll_head_blocked) (auto simp: completions_def complete_names)
qed

end
