(* ===== verification/Subagent.thy ===== *)
theory Subagent
  imports Prelude Core_Types Decomposer Worktree
begin

text \<open>
  \<open>src/core/subagent-manager.ts\<close>: the parallel execution of role-labelled subagents. A task is
  tried with retries and backoff (\<open>executeTask\<close>); \<open>executeAll\<close> is a step relation whose steps are
  the pieces of code between two \<open>await\<close>s: one iteration of the dispatch loop, the \<open>then\<close> and the
  \<open>finally\<close> of a running task, and the return from \<open>Promise.race\<close>.

  The provider router's answers are arguments. Writing the event file, the indexer client and the
  Inngest client (which only wraps the call) are left out, except for the list of events.
\<close>

section \<open>Configuration and results\<close>

record SubagentManagerConfig =
  maxConcurrent :: nat
  timeoutMs :: nat
  maxRetries :: nat
  backoffMs :: "nat list"

definition DEFAULT_CONFIG :: SubagentManagerConfig where
  "DEFAULT_CONFIG = \<lparr>maxConcurrent = 5, timeoutMs = 120000, maxRetries = 3,
     backoffMs = [1000, 4000, 16000]\<rparr>"

datatype SubagentStatus = SPending | SRunning | SCompleted | SFailed | STimeout

record SubagentResult =
  sr_taskId :: string
  sr_role :: TaskRole
  sr_status :: SubagentStatus
  sr_provider :: ProviderId
  sr_retries :: nat
  sr_output :: "string option"
  sr_error :: "string option"

datatype EventType = EDispatch | EStart | ERetry | EResult | EFailure

record SubagentEvent =
  ev_type :: EventType
  ev_taskId :: string
  ev_role :: TaskRole
  ev_provider :: ProviderId
  ev_retries :: nat
  ev_error :: "string option"
  ev_status :: SubagentStatus

text \<open>What an attempt does: answer, or throw an \<open>Error\<close> or another value, with its message.\<close>

datatype attempt = Answer string | ThrowError string | ThrowOther string

definition isRetryableError :: "attempt \<Rightarrow> bool" where
  "isRetryableError e = (case e of
     ThrowError msg \<Rightarrow> (let message = to_lower msg in
       contains message ''429'' \<or> contains message ''rate limit'' \<or> contains message ''timeout'' \<or>
       contains message ''etimedout'' \<or> contains message ''econnaborted'')
   | _ \<Rightarrow> False)"

fun attempt_message :: "attempt \<Rightarrow> string" where
  "attempt_message (Answer c) = c"
| "attempt_message (ThrowError m) = m"
| "attempt_message (ThrowOther m) = m"

section \<open>One task\<close>

definition sub_event ::
  "EventType \<Rightarrow> DecomposedTask \<Rightarrow> ProviderId \<Rightarrow> nat \<Rightarrow> string option \<Rightarrow> SubagentStatus \<Rightarrow> SubagentEvent" where
  "sub_event ty t p k err st = \<lparr>ev_type = ty, ev_taskId = dt_id t, ev_role = dt_role t,
     ev_provider = p, ev_retries = k, ev_error = err, ev_status = st\<rparr>"

definition sub_result ::
  "DecomposedTask \<Rightarrow> ProviderId \<Rightarrow> SubagentStatus \<Rightarrow> nat \<Rightarrow> string option \<Rightarrow> string option \<Rightarrow> SubagentResult" where
  "sub_result t p st k out err = \<lparr>sr_taskId = dt_id t, sr_role = dt_role t, sr_status = st,
     sr_provider = p, sr_retries = k, sr_output = out, sr_error = err\<rparr>"

text \<open>An index past the end of an empty list of delays gives \<open>undefined\<close>: no delay.\<close>

definition backoff :: "SubagentManagerConfig \<Rightarrow> nat \<Rightarrow> nat" where
  "backoff cfg k = (let b = backoffMs cfg in if b = [] then 0 else b ! min k (length b - 1))"

text \<open>
  The loop over the attempts, from attempt \<open>k\<close> with \<open>r\<close> attempts left, and the code after it; the
  answer of the router at each attempt is \<open>router k\<close>. The result, the events and the delays slept.
\<close>

fun attempts ::
  "SubagentManagerConfig \<Rightarrow> DecomposedTask \<Rightarrow> ProviderId \<Rightarrow> (nat \<Rightarrow> attempt) \<Rightarrow> nat \<Rightarrow> nat \<Rightarrow> string option \<Rightarrow>
   SubagentResult \<times> SubagentEvent list \<times> nat list" where
  "attempts cfg t p router 0 k lastErr =
    (sub_result t p SFailed (maxRetries cfg) None lastErr,
     [sub_event EFailure t p (maxRetries cfg) lastErr SFailed], [])"
| "attempts cfg t p router (Suc r) k lastErr =
    (let start = sub_event (if k = 0 then EStart else ERetry) t p k None SRunning in
     case router k of
       Answer c \<Rightarrow> (sub_result t p SCompleted k (Some c) None,
                   [start, sub_event EResult t p k None SCompleted], [])
     | e \<Rightarrow>
       let msg = attempt_message e in
       if \<not> isRetryableError e \<or> contains msg ''401'' then
         (sub_result t p SFailed k None (Some msg), [start, sub_event EFailure t p k (Some msg) SFailed], [])
       else
         let (res, evs, sleeps) = attempts cfg t p router r (Suc k) (Some msg)
         in (res, start # evs, if k < maxRetries cfg then backoff cfg k # sleeps else sleeps))"

definition executeTask ::
  "SubagentManagerConfig \<Rightarrow> DecomposedTask \<Rightarrow> ProviderId \<Rightarrow> (nat \<Rightarrow> attempt) \<Rightarrow>
   SubagentResult \<times> SubagentEvent list \<times> nat list" where
  "executeTask cfg t p router = attempts cfg t p router (Suc (maxRetries cfg)) 0 None"

section \<open>All tasks\<close>

text \<open>
  Where \<open>executeAll\<close> is suspended: routing the task it is about to dispatch, with the rest of the
  list of ready tasks; racing the promises that were active when it began to wait; or returned.
\<close>

datatype phase = Routing DecomposedTask "DecomposedTask list" | Waiting "string list" | Done

text \<open>
  \<open>started\<close> are the tasks with \<open>startedAt\<close>, \<open>completed\<close> those whose \<open>result\<close> is set; \<open>active\<close> maps a
  task to the lane it acquired.\<close>

record run_state =
  started :: "string set"
  completed :: "string set"
  pending :: "string set"
  active :: "(string, string option) dict"
  results :: "SubagentResult list"
  lanes :: pool
  phase :: phase

definition getReadyTasks :: "DecomposedTask list \<Rightarrow> run_state \<Rightarrow> DecomposedTask list" where
  "getReadyTasks ts s = filter (\<lambda>t. dt_id t \<notin> completed s \<and> dt_id t \<notin> started s \<and>
     set (dependencies t) \<subseteq> completed s) ts"

text \<open>The code from a test of the dispatch loop to the next \<open>await\<close>.\<close>

definition advance :: "SubagentManagerConfig \<Rightarrow> DecomposedTask list \<Rightarrow> run_state \<Rightarrow> run_state" where
  "advance cfg ready s = s\<lparr>phase :=
     (if ready \<noteq> [] \<and> length (active s) < maxConcurrent cfg then Routing (hd ready) (tl ready)
      else if active s \<noteq> [] then Waiting (dkeys (active s))
      else Done)\<rparr>"

definition loop_top :: "SubagentManagerConfig \<Rightarrow> DecomposedTask list \<Rightarrow> run_state \<Rightarrow> run_state" where
  "loop_top cfg ts s = (if pending s = {} \<and> active s = [] then s\<lparr>phase := Done\<rparr>
     else advance cfg (getReadyTasks ts s) s)"

definition start_run :: "SubagentManagerConfig \<Rightarrow> DecomposedTask list \<Rightarrow> run_state" where
  "start_run cfg ts = loop_top cfg ts \<lparr>started = {}, completed = {}, pending = set (map dt_id ts),
     active = [], results = [], lanes = new_pool (maxConcurrent cfg), phase = Done\<rparr>"

definition dispatch :: "DecomposedTask \<Rightarrow> run_state \<Rightarrow> run_state" where
  "dispatch t s = (let (wt, p) = acquire (lanes s) in
     s\<lparr>started := insert (dt_id t) (started s), lanes := p,
       active := dset (dt_id t) wt (active s), pending := pending s - {dt_id t}\<rparr>)"

definition settle :: "SubagentResult \<Rightarrow> run_state \<Rightarrow> run_state" where
  "settle r s = s\<lparr>results := results s @ [r], completed := insert (sr_taskId r) (completed s),
     pending := pending s - {sr_taskId r}\<rparr>"

definition finish :: "string \<Rightarrow> run_state \<Rightarrow> run_state" where
  "finish i s = s\<lparr>lanes := (case dget (active s) i of Some (Some w) \<Rightarrow> release w (lanes s) | _ \<Rightarrow> lanes s),
     active := ddelete i (active s)\<rparr>"

inductive run_step :: "SubagentManagerConfig \<Rightarrow> DecomposedTask list \<Rightarrow> run_state \<Rightarrow> run_state \<Rightarrow> bool"
  for cfg :: SubagentManagerConfig and ts :: "DecomposedTask list" where
  dispatched: "phase s = Routing t rest \<Longrightarrow> run_step cfg ts s (advance cfg rest (dispatch t s))"
| settled: "phase s \<noteq> Done \<Longrightarrow> t \<in> set ts \<Longrightarrow> dget (active s) (dt_id t) \<noteq> None \<Longrightarrow>
    dt_id t \<notin> completed s \<Longrightarrow> r = fst (executeTask cfg t p router) \<Longrightarrow> run_step cfg ts s (settle r s)"
| finished: "phase s \<noteq> Done \<Longrightarrow> dget (active s) i \<noteq> None \<Longrightarrow> i \<in> completed s \<Longrightarrow>
    run_step cfg ts s (finish i s)"
| woken: "phase s = Waiting ks \<Longrightarrow> \<not> set ks \<subseteq> set (dkeys (active s)) \<Longrightarrow>
    run_step cfg ts s (loop_top cfg ts s)"

section \<open>The retry loop\<close>

definition retry_ok :: "attempt \<Rightarrow> bool" where
  "retry_ok e \<longleftrightarrow> isRetryableError e \<and> \<not> contains (attempt_message e) ''401''"

text \<open>The result and what is logged and slept when attempt \<open>m\<close> ends the loop, or none does.\<close>

definition attempt_result :: "DecomposedTask \<Rightarrow> ProviderId \<Rightarrow> attempt \<Rightarrow> nat \<Rightarrow> SubagentResult" where
  "attempt_result t p e m = (case e of Answer c \<Rightarrow> sub_result t p SCompleted m (Some c) None
     | _ \<Rightarrow> sub_result t p SFailed m None (Some (attempt_message e)))"

lemma attempts_cases:
  "k + r = Suc (maxRetries cfg) \<Longrightarrow> attempts cfg t p router r k le = (res, evs, sleeps) \<Longrightarrow>
   (\<exists>m \<ge> k. m \<le> maxRetries cfg \<and> list_all (\<lambda>j. retry_ok (router j)) [k..<m] \<and> \<not> retry_ok (router m) \<and>
      res = attempt_result t p (router m) m \<and> sleeps = map (backoff cfg) [k..<m] \<and> length evs = m - k + 2)
   \<or> (list_all (\<lambda>j. retry_ok (router j)) [k..<Suc (maxRetries cfg)] \<and>
      res = sub_result t p SFailed (maxRetries cfg) None
        (if r = 0 then le else Some (attempt_message (router (maxRetries cfg)))) \<and>
      sleeps = map (backoff cfg) [k..<maxRetries cfg] \<and> length evs = r + 1)"
proof (induction r arbitrary: k le res evs sleeps)
  case 0
  then show ?case by auto
next
  case (Suc r)
  show ?case
  proof (cases "retry_ok (router k)")
    case False
    then have "res = attempt_result t p (router k) k \<and> sleeps = [] \<and> length evs = 2"
      using Suc.prems(2)
      by (cases "router k") (auto simp: retry_ok_def attempt_result_def Let_def)
    with False Suc.prems(1) show ?thesis by (intro disjI1 exI [of _ k]) auto
  next
    case True
    obtain res' evs' sl' where rec: "attempts cfg t p router r (Suc k) (Some (attempt_message (router k))) = (res', evs', sl')"
      by (metis prod_cases3)
    have step: "res = res'" "length evs = Suc (length evs')"
      "sleeps = (if k < maxRetries cfg then backoff cfg k # sl' else sl')"
      using True Suc.prems(2) rec
      by (cases "router k"; auto simp: retry_ok_def isRetryableError_def Let_def)+
    have "Suc k + r = Suc (maxRetries cfg)" using Suc.prems(1) by simp
    from Suc.IH [OF this rec] show ?thesis
    proof
      assume "\<exists>m\<ge>Suc k. m \<le> maxRetries cfg \<and> list_all (\<lambda>j. retry_ok (router j)) [Suc k..<m] \<and>
        \<not> retry_ok (router m) \<and> res' = attempt_result t p (router m) m \<and>
        sl' = map (backoff cfg) [Suc k..<m] \<and> length evs' = m - Suc k + 2"
      then obtain m where m: "Suc k \<le> m" "m \<le> maxRetries cfg" "list_all (\<lambda>j. retry_ok (router j)) [Suc k..<m]"
        "\<not> retry_ok (router m)" "res' = attempt_result t p (router m) m"
        "sl' = map (backoff cfg) [Suc k..<m]" "length evs' = m - Suc k + 2" by blast
      have "[k..<m] = k # [Suc k..<m]" using m(1) by (simp add: upt_conv_Cons)
      with m True step show ?thesis by (intro disjI1 exI [of _ m]) auto
    next
      assume a: "list_all (\<lambda>j. retry_ok (router j)) [Suc k..<Suc (maxRetries cfg)] \<and>
        res' = sub_result t p SFailed (maxRetries cfg) None
          (if r = 0 then Some (attempt_message (router k)) else Some (attempt_message (router (maxRetries cfg)))) \<and>
        sl' = map (backoff cfg) [Suc k..<maxRetries cfg] \<and> length evs' = r + 1"
      have "[k..<Suc (maxRetries cfg)] = k # [Suc k..<Suc (maxRetries cfg)]"
        using Suc.prems(1) by (simp add: upt_conv_Cons del: upt_Suc)
      moreover have "sleeps = map (backoff cfg) [k..<maxRetries cfg]"
        using step(3) a by (cases "k < maxRetries cfg") (auto simp: upt_conv_Cons)
      moreover have "r = 0 \<longrightarrow> k = maxRetries cfg" using Suc.prems(1) by simp
      ultimately show ?thesis using a step True
        by (intro disjI2) (auto simp del: upt_Suc)
    qed
  qed
qed

text \<open>C29.
  The retry loop, on every sequence of answers: either some attempt within the limit is the first
  that is not a retryable error, and its answer or error is the result after as many backoffs as
  there were retries; or every attempt up to the limit fails with a retryable error and the last
  error is the result. An error that mentions 401 is never retried.\<close>

theorem executeTask_outcome:
  "\<exists>res evs sleeps. executeTask cfg t p router = (res, evs, sleeps) \<and>
   ((\<exists>m. m \<le> maxRetries cfg \<and> list_all (\<lambda>j. retry_ok (router j)) [0..<m] \<and> retry_ok (router m) = False \<and>
      res = attempt_result t p (router m) m \<and> sleeps = map (backoff cfg) [0..<m] \<and> length evs = m + 2)
    \<or> (list_all (\<lambda>j. retry_ok (router j)) [0..<Suc (maxRetries cfg)] \<and>
      res = sub_result t p SFailed (maxRetries cfg) None (Some (attempt_message (router (maxRetries cfg)))) \<and>
      sleeps = map (backoff cfg) [0..<maxRetries cfg] \<and> length evs = maxRetries cfg + 2))"
proof -
  obtain res evs sleeps where e: "executeTask cfg t p router = (res, evs, sleeps)" by (metis prod_cases3)
  from attempts_cases [of 0 "Suc (maxRetries cfg)" cfg t p router None res evs sleeps] e
  show ?thesis by (auto simp: executeTask_def simp del: attempts.simps upt_Suc)
qed

lemma result_id [simp]: "sr_taskId (attempt_result t p e m) = dt_id t" "sr_taskId (sub_result t p st k out err) = dt_id t"
  by (cases e) (simp_all add: attempt_result_def sub_result_def)

lemma executeTask_id: "sr_taskId (fst (executeTask cfg t p router)) = dt_id t"
proof -
  obtain res evs sleeps where e: "executeTask cfg t p router = (res, evs, sleeps)" by (metis prod_cases3)
  from attempts_cases [of 0 "Suc (maxRetries cfg)" cfg t p router None res evs sleeps] e
  show ?thesis by (auto simp: executeTask_def simp del: attempts.simps upt_Suc)
qed

section \<open>The lanes of the active tasks\<close>

lemma new_pool_count: "getAvailableCount (new_pool n) = n \<and> distinct (dkeys (new_pool n)) \<and>
    set (dkeys (new_pool n)) = (\<lambda>i. ''worktree-'' @ show_nat i) ` {..<n}"
proof (induction n)
  case 0
  then show ?case by (simp add: new_pool_def getAvailableCount_def dkeys_def)
next
  case (Suc n)
  let ?k = "''worktree-'' @ show_nat n"
  have s: "new_pool (Suc n) = dset ?k True (new_pool n)" by (simp add: new_pool_def)
  have new: "?k \<notin> set (dkeys (new_pool n))" using Suc by (simp add: image_iff)
  then have a: "dset ?k True (new_pool n) = new_pool n @ [(?k, True)]" by (rule dset_fresh)
  have "getAvailableCount (new_pool (Suc n)) = Suc n"
    using Suc unfolding s a getAvailableCount_def by simp
  moreover have "dkeys (new_pool (Suc n)) = dkeys (new_pool n) @ [?k]" using new by (simp add: s dkeys_dset)
  ultimately show ?case using Suc new by (simp add: lessThan_Suc)
qed

text \<open>Every active task holds a lane of its own, and the free lanes make up the rest.\<close>

definition lanes_ok :: "SubagentManagerConfig \<Rightarrow> pool \<Rightarrow> (string, string option) dict \<Rightarrow> bool" where
  "lanes_ok cfg p a \<longleftrightarrow> distinct (dkeys p) \<and> distinct (dkeys a) \<and>
     getAvailableCount p + length a = maxConcurrent cfg \<and>
     (\<forall>i wt. dget a i = Some wt \<longrightarrow> (\<exists>w. wt = Some w \<and> dget p w = Some False)) \<and>
     (\<forall>i j wt. dget a i = Some wt \<longrightarrow> dget a j = Some wt \<longrightarrow> i = j)"

lemma lanes_okD:
  assumes "lanes_ok cfg p a"
  shows "distinct (dkeys p)" "distinct (dkeys a)" "getAvailableCount p + length a = maxConcurrent cfg"
    "dget a i = Some wt \<Longrightarrow> \<exists>w. wt = Some w \<and> dget p w = Some False"
    "dget a i = Some wt \<Longrightarrow> dget a j = Some wt \<Longrightarrow> i = j"
  using assms unfolding lanes_ok_def by blast+

lemma lanes_ok_start: "lanes_ok cfg (new_pool (maxConcurrent cfg)) []"
  using new_pool_count by (simp add: lanes_ok_def dkeys_def)

lemma lanes_ok_dispatch:
  assumes "lanes_ok cfg p a" "i \<notin> set (dkeys a)" "length a < maxConcurrent cfg"
    and "acquire p = (wt, p')"
  shows "lanes_ok cfg p' (dset i wt a) \<and> wt \<noteq> None"
proof -
  have "getAvailableCount p \<noteq> 0" using assms(1,3) by (auto simp: lanes_ok_def)
  then obtain w where w: "wt = Some w" using acquire_None [of p] assms(4) by (cases wt) auto
  from acquire_Some [of p w p'] assms(1,4) have f: "dget p w = Some True" "p' = dset w False p"
    by (auto simp: lanes_ok_def w)
  note ok = lanes_okD [OF assms(1)]
  have "getAvailableCount p' + 1 = getAvailableCount p"
    using getAvailableCount_dset [of p w True False] ok(1) f by simp
  moreover have "length (dkeys (dset i wt a)) = Suc (length (dkeys a))"
    using assms(2) by (simp add: dkeys_dset)
  ultimately have n: "getAvailableCount p' + length (dset i wt a) = maxConcurrent cfg"
    using ok(3) by simp
  have old: "\<exists>v. x = Some v \<and> v \<noteq> w \<and> dget p v = Some False" if "dget a j = Some x" for j x
  proof -
    from ok(4) [OF that] obtain v where v: "x = Some v" "dget p v = Some False" by blast
    with f(1) have "v \<noteq> w" by (cases "v = w") simp_all
    with v show ?thesis by blast
  qed
  have held: "\<exists>v. x = Some v \<and> dget p' v = Some False" if "dget (dset i wt a) j = Some x" for j x
    using that old [of j x] w f(2) by (cases "j = i") auto
  have one: "j = k" if "dget (dset i wt a) j = Some x" "dget (dset i wt a) k = Some x" for j k x
    proof (cases "j = i \<or> k = i")
    case True
    with that w old [of j "Some w"] old [of k "Some w"] show ?thesis
      by (cases "j = i"; cases "k = i") auto
  next
    case False
    with that ok(5) [of j x k] show ?thesis by simp
  qed
  show ?thesis
    using n held one ok(1,2) w f(2) unfolding lanes_ok_def by (simp add: dict.distinct_put)
qed

lemma lanes_ok_finish:
  assumes "lanes_ok cfg p a" "dget a i = Some wt"
  shows "lanes_ok cfg (case wt of Some w \<Rightarrow> release w p | None \<Rightarrow> p) (ddelete i a) \<and>
    length a = Suc (length (ddelete i a))"
proof -
  note ok = lanes_okD [OF assms(1)]
  from ok(4) [OF assms(2)] obtain w where w: "wt = Some w" "dget p w = Some False" by blast
  have g: "getAvailableCount (release w p) = getAvailableCount p + 1"
    using getAvailableCount_dset [of p w False True] ok(1) w(2) by (simp add: release_def)
  have l: "length a = Suc (length (ddelete i a))"
  proof -
    have "length (dkeys (ddelete i a)) = length (dkeys a) - 1"
      using dict.size_remove [of a i] assms(2) ok(2) by simp
    moreover have "a \<noteq> []" using assms(2) by auto
    ultimately show ?thesis by (cases a) auto
  qed
  have held: "\<exists>v. x = Some v \<and> dget (release w p) v = Some False"
    if "dget (ddelete i a) j = Some x" for j x
  proof -
    from that have j: "j \<noteq> i" "dget a j = Some x" by (auto simp: dict.get_remove split: if_splits)
    from ok(4) [OF j(2)] obtain v where v: "x = Some v" "dget p v = Some False" by blast
    with ok(5) [OF assms(2), of j] j w(1) have "v \<noteq> w" by auto
    with v show ?thesis by (simp add: release_def)
  qed
  have one: "j = k" if "dget (ddelete i a) j = Some x" "dget (ddelete i a) k = Some x" for j k x
    using that ok(5) [of j x k] by (auto simp: dict.get_remove split: if_splits)
  have d: "distinct (dkeys (release w p))" "distinct (dkeys (ddelete i a))"
    using ok(1,2) by (simp_all add: release_def dict.distinct_put dict.distinct_remove)
  have c: "getAvailableCount (release w p) + length (ddelete i a) = maxConcurrent cfg"
    using g l ok(3) by simp
  show ?thesis
    using held one d c l w(1) unfolding lanes_ok_def by simp
qed

section \<open>The invariant of a run\<close>

definition plan_ok :: "SubagentManagerConfig \<Rightarrow> DecomposedTask list \<Rightarrow> bool" where
  "plan_ok cfg ts \<longleftrightarrow> distinct (map dt_id ts) \<and> 1 \<le> maxConcurrent cfg"

definition ids :: "DecomposedTask list \<Rightarrow> string set" where
  "ids ts = dt_id ` set ts"

definition tasks_inv :: "SubagentManagerConfig \<Rightarrow> DecomposedTask list \<Rightarrow> run_state \<Rightarrow> bool" where
  "tasks_inv cfg ts s \<longleftrightarrow> started s \<subseteq> ids ts \<and> completed s \<subseteq> started s \<and> pending s = ids ts - started s \<and>
     set (dkeys (active s)) \<subseteq> started s \<and> started s \<subseteq> completed s \<union> set (dkeys (active s)) \<and>
     lanes_ok cfg (lanes s) (active s) \<and>
     (\<forall>t \<in> set ts. dt_id t \<in> started s \<longrightarrow> set (dependencies t) \<subseteq> completed s) \<and>
     distinct (map sr_taskId (results s)) \<and> set (map sr_taskId (results s)) = completed s"

definition ready_ok :: "DecomposedTask list \<Rightarrow> DecomposedTask list \<Rightarrow> run_state \<Rightarrow> bool" where
  "ready_ok ts ready s \<longleftrightarrow> set ready \<subseteq> set ts \<and> distinct (map dt_id ready) \<and>
     (\<forall>t \<in> set ready. dt_id t \<notin> started s \<and> set (dependencies t) \<subseteq> completed s)"

fun phase_inv :: "SubagentManagerConfig \<Rightarrow> DecomposedTask list \<Rightarrow> run_state \<Rightarrow> phase \<Rightarrow> bool" where
  "phase_inv cfg ts s (Routing t rest) \<longleftrightarrow> ready_ok ts (t # rest) s \<and> length (active s) < maxConcurrent cfg"
| "phase_inv cfg ts s (Waiting ks) \<longleftrightarrow> ks \<noteq> []"
| "phase_inv cfg ts s Done \<longleftrightarrow> active s = [] \<and> getReadyTasks ts s = []"

definition run_inv :: "SubagentManagerConfig \<Rightarrow> DecomposedTask list \<Rightarrow> run_state \<Rightarrow> bool" where
  "run_inv cfg ts s \<longleftrightarrow> plan_ok cfg ts \<and> tasks_inv cfg ts s \<and> phase_inv cfg ts s (phase s)"

lemma tasks_inv_phase [simp]: "tasks_inv cfg ts (s\<lparr>phase := p\<rparr>) = tasks_inv cfg ts s"
  by (simp add: tasks_inv_def)

lemma phase_inv_phase [simp]: "phase_inv cfg ts (s\<lparr>phase := q\<rparr>) p = phase_inv cfg ts s p"
  by (cases p) (simp_all add: ready_ok_def getReadyTasks_def)

lemma getReady_ok:
  "distinct (map dt_id ts) \<Longrightarrow> ready_ok ts (getReadyTasks ts s) s"
  by (auto simp: ready_ok_def getReadyTasks_def distinct_map intro: inj_on_subset)

lemma dkeys_Nil_iff [simp]: "dkeys m = [] \<longleftrightarrow> m = []"
  by (simp add: dkeys_def)

lemma advance_inv:
  assumes "plan_ok cfg ts" "tasks_inv cfg ts s" "ready_ok ts ready s"
    and "active s \<noteq> [] \<or> ready = getReadyTasks ts s"
  shows "run_inv cfg ts (advance cfg ready s)"
proof -
  have "ready \<noteq> [] \<Longrightarrow> ready_ok ts (hd ready # tl ready) s" using assms(3) by simp
  moreover have "ready = [] \<or> \<not> length (active s) < maxConcurrent cfg \<Longrightarrow> active s = [] \<Longrightarrow> ready = []"
    using assms(1) by (auto simp: plan_ok_def)
  ultimately show ?thesis using assms
    by (auto simp: run_inv_def advance_def)
qed

lemma loop_top_inv:
  assumes "plan_ok cfg ts" "tasks_inv cfg ts s"
  shows "run_inv cfg ts (loop_top cfg ts s)"
proof (cases "pending s = {} \<and> active s = []")
  case True
  then have "getReadyTasks ts s = []"
    using assms(2) by (auto simp: getReadyTasks_def tasks_inv_def ids_def filter_empty_conv)
  with True assms show ?thesis by (simp add: loop_top_def run_inv_def getReadyTasks_def)
next
  case False
  then have e: "loop_top cfg ts s = advance cfg (getReadyTasks ts s) s" unfolding loop_top_def by (rule if_not_P)
  show ?thesis unfolding e
    using assms getReady_ok [of ts s] by (intro advance_inv) (auto simp: plan_ok_def)
qed

lemma dispatch_inv:
  assumes "plan_ok cfg ts" "tasks_inv cfg ts s" "ready_ok ts (t # rest) s" "length (active s) < maxConcurrent cfg"
  shows "tasks_inv cfg ts (dispatch t s) \<and> ready_ok ts rest (dispatch t s) \<and> active (dispatch t s) \<noteq> []"
proof -
  obtain wt p where a: "acquire (lanes s) = (wt, p)" by force
  have new: "dt_id t \<notin> set (dkeys (active s))" using assms(2,3) by (auto simp: tasks_inv_def ready_ok_def)
  have l: "lanes_ok cfg p (dset (dt_id t) wt (active s))"
    using lanes_ok_dispatch [OF _ new assms(4) a] assms(2) by (simp add: tasks_inv_def)
  have k: "dkeys (dset (dt_id t) wt (active s)) = dkeys (active s) @ [dt_id t]"
    using new by (simp add: dkeys_dset)
  have "\<forall>u \<in> set ts. dt_id u = dt_id t \<longrightarrow> u = t"
    using assms(1,3) by (auto simp: ready_ok_def plan_ok_def distinct_map inj_on_def)
  then have d: "\<forall>u \<in> set ts. dt_id u = dt_id t \<longrightarrow> set (dependencies u) \<subseteq> completed s"
    using assms(3) by (auto simp: ready_ok_def)
  have i: "dt_id t \<in> ids ts" using assms(3) by (auto simp: ready_ok_def ids_def)
  have "tasks_inv cfg ts (dispatch t s)"
    using assms(2) l k d i by (auto simp: tasks_inv_def dispatch_def a)
  moreover have "dt_id t \<notin> dt_id ` set rest" using assms(3) by (simp add: ready_ok_def)
  then have "\<forall>u \<in> set rest. dt_id u \<noteq> dt_id t" by (metis imageI)
  then have "ready_ok ts rest (dispatch t s)"
    using assms(3) by (auto simp: ready_ok_def dispatch_def a)
  moreover have "dkeys (active (dispatch t s)) \<noteq> []"
    using k by (simp add: dispatch_def a del: dkeys_Nil_iff)
  then have "active (dispatch t s) \<noteq> []" by simp
  ultimately show ?thesis by blast
qed

lemma settle_inv:
  assumes "tasks_inv cfg ts s" "dget (active s) (dt_id t) \<noteq> None" "dt_id t \<notin> completed s" "sr_taskId r = dt_id t"
  shows "tasks_inv cfg ts (settle r s)"
proof -
  have st: "dt_id t \<in> started s"
    using assms(1,2) dict.has_iff [of "dt_id t" "active s"] by (auto simp: tasks_inv_def)
  moreover have "dt_id t \<notin> sr_taskId ` set (results s)" using assms(1,3) by (simp add: tasks_inv_def)
  ultimately show ?thesis using assms(1,4) by (auto simp: tasks_inv_def settle_def)
qed

lemma finish_inv:
  assumes "tasks_inv cfg ts s" "dget (active s) i \<noteq> None" "i \<in> completed s"
  shows "tasks_inv cfg ts (finish i s) \<and> length (active s) = Suc (length (active (finish i s)))"
proof -
  obtain wt where w: "dget (active s) i = Some wt" using assms(2) by blast
  have l: "lanes_ok cfg (lanes (finish i s)) (active (finish i s)) \<and>
      length (active s) = Suc (length (active (finish i s)))"
    using lanes_ok_finish [of cfg "lanes s" "active s" i wt] assms(1) w
    by (cases wt) (auto simp: tasks_inv_def finish_def)
  moreover have "set (dkeys (active (finish i s))) = set (dkeys (active s)) - {i}"
    by (auto simp: finish_def dict.keys_remove)
  moreover have "started (finish i s) = started s" "completed (finish i s) = completed s"
    "pending (finish i s) = pending s" "results (finish i s) = results s"
    by (simp_all add: finish_def)
  ultimately show ?thesis using assms(1,3) unfolding tasks_inv_def by auto
qed

text \<open>While the dispatcher waits for a route, tasks may settle and finish: what was ready stays ready.\<close>

lemma phase_settle: "tasks_inv cfg ts s \<Longrightarrow> phase s \<noteq> Done \<Longrightarrow> phase_inv cfg ts s (phase s) \<Longrightarrow>
    phase_inv cfg ts (settle r s) (phase s)"
  by (cases "phase s") (auto simp: ready_ok_def settle_def)

lemma phase_finish: "length (active s) = Suc (length (active (finish i s))) \<Longrightarrow> phase s \<noteq> Done \<Longrightarrow>
    phase_inv cfg ts s (phase s) \<Longrightarrow> phase_inv cfg ts (finish i s) (phase s)"
  by (cases "phase s") (auto simp: ready_ok_def finish_def)

lemma run_inv_step:
  assumes "run_step cfg ts s s'" "run_inv cfg ts s"
  shows "run_inv cfg ts s'"
  using assms
proof (cases rule: run_step.cases)
  case (dispatched t rest)
  then have "tasks_inv cfg ts s" "ready_ok ts (t # rest) s" "length (active s) < maxConcurrent cfg"
      "plan_ok cfg ts" using assms(2) by (auto simp: run_inv_def)
  with dispatch_inv [of cfg ts s t rest] show ?thesis
    unfolding dispatched(1) by (intro advance_inv) auto
next
  case (settled t r p router)
  then have "tasks_inv cfg ts (settle r s)"
    using assms(2) executeTask_id by (intro settle_inv [of cfg ts s t]) (auto simp: run_inv_def)
  moreover have "phase s' = phase s" by (simp add: settled(1) settle_def)
  ultimately show ?thesis using assms(2) settled phase_settle [of cfg ts s r]
    by (simp add: run_inv_def)
next
  case (finished i)
  have f: "tasks_inv cfg ts (finish i s) \<and> length (active s) = Suc (length (active (finish i s)))"
    using assms(2) finished by (intro finish_inv) (auto simp: run_inv_def)
  moreover have "phase s' = phase s" by (simp add: finished(1) finish_def)
  ultimately show ?thesis using assms(2) finished phase_finish [of s i cfg ts] by (simp add: run_inv_def)
next
  case (woken ks)
  have "run_inv cfg ts (loop_top cfg ts s)" using assms(2) by (intro loop_top_inv) (simp_all add: run_inv_def)
  with woken(1) show ?thesis by simp
qed

section \<open>Every run ends\<close>

definition phase_work :: "run_state \<Rightarrow> nat" where
  "phase_work s = (case phase s of Routing t rest \<Rightarrow> 2
     | Waiting ks \<Rightarrow> if set ks \<subseteq> set (dkeys (active s)) then 0 else 3 | Done \<Rightarrow> 0)"

definition run_work :: "run_state \<Rightarrow> nat" where
  "run_work s = 12 * card (pending s) + 8 * card (started s - completed s) +
     4 * card (set (dkeys (active s)) \<inter> completed s) + phase_work s"

lemma advance_simps [simp]: "pending (advance cfg ready s) = pending s" "started (advance cfg ready s) = started s"
  "completed (advance cfg ready s) = completed s" "active (advance cfg ready s) = active s"
  "results (advance cfg ready s) = results s"
  by (simp_all add: advance_def)

lemma loop_top_simps [simp]: "pending (loop_top cfg ts s) = pending s" "started (loop_top cfg ts s) = started s"
  "completed (loop_top cfg ts s) = completed s" "active (loop_top cfg ts s) = active s"
  "results (loop_top cfg ts s) = results s"
  by (simp_all add: loop_top_def)

lemma advance_work: "phase_work (advance cfg ready s) \<le> 2"
  by (simp add: phase_work_def advance_def)

lemma loop_top_work: "phase_work (loop_top cfg ts s) \<le> 2"
  using advance_work by (simp add: loop_top_def phase_work_def)

lemma phase_work_le: "phase_work s \<le> 3"
  by (simp add: phase_work_def split: phase.splits)

lemma run_work_step:
  assumes "run_step cfg ts s s'" "run_inv cfg ts s"
  shows "run_work s' < run_work s"
  using assms
proof (cases rule: run_step.cases)
  case (dispatched t rest)
  have inv: "tasks_inv cfg ts s" "dt_id t \<notin> started s" "dt_id t \<in> ids ts"
    using assms(2) dispatched by (auto simp: run_inv_def ready_ok_def ids_def)
  have fin: "finite (pending s)" using inv(1) by (auto simp: tasks_inv_def ids_def)
  obtain wt p where a: "acquire (lanes s) = (wt, p)" by force
  have "dt_id t \<in> pending s" using inv by (auto simp: tasks_inv_def)
  then have c: "card (pending s) = Suc (card (pending s - {dt_id t}))"
    by (rule card.remove [OF fin])
  have fs: "finite (started s)" using inv(1) finite_subset [of "started s" "ids ts"] by (auto simp: tasks_inv_def ids_def)
  have "insert (dt_id t) (started s) - completed s = insert (dt_id t) (started s - completed s)"
    using inv by (auto simp: tasks_inv_def)
  then have r: "card (insert (dt_id t) (started s) - completed s) = Suc (card (started s - completed s))"
    using inv(2) fs by (simp add: card_insert_if)
  have "set (dkeys (dset (dt_id t) wt (active s))) \<inter> completed s = set (dkeys (active s)) \<inter> completed s"
    using inv by (auto simp: dkeys_dset tasks_inv_def)
  moreover have "phase_work s = 2" using dispatched by (simp add: phase_work_def)
  ultimately show ?thesis
    using c r advance_work [of cfg rest "dispatch t s"]
    by (simp add: run_work_def dispatched(1) dispatch_def a)
next
  case (settled t r p router)
  have inv: "tasks_inv cfg ts s" using assms(2) by (simp add: run_inv_def)
  have id: "sr_taskId r = dt_id t" using settled executeTask_id by simp
  have k: "dt_id t \<in> set (dkeys (active s))" using settled by (simp add: dict.has_iff)
  then have m: "dt_id t \<in> started s - completed s" using inv settled by (auto simp: tasks_inv_def)
  have fs: "finite (started s)" using inv finite_subset [of "started s" "ids ts"] by (auto simp: tasks_inv_def ids_def)
  have "started s - insert (dt_id t) (completed s) = (started s - completed s) - {dt_id t}" by auto
  then have c: "card (started s - completed s) = Suc (card (started s - insert (dt_id t) (completed s)))"
    using card.remove [OF _ m] fs by simp
  have "set (dkeys (active s)) \<inter> insert (dt_id t) (completed s) =
      insert (dt_id t) (set (dkeys (active s)) \<inter> completed s)" using k by auto
  then have d: "card (set (dkeys (active s)) \<inter> insert (dt_id t) (completed s)) =
      Suc (card (set (dkeys (active s)) \<inter> completed s))"
    using settled(5) by (simp add: card_insert_if)
  have "card (pending s - {dt_id t}) \<le> card (pending s)"
    using inv by (intro card_mono) (auto simp: tasks_inv_def ids_def)
  moreover have "phase_work s' = phase_work s"
    by (cases "phase s") (simp_all add: phase_work_def settled(1) settle_def)
  ultimately show ?thesis using c d
    by (simp add: run_work_def settled(1)) (simp add: settle_def id)
next
  case (finished i)
  have k: "i \<in> set (dkeys (active s))" using finished by (simp add: dict.has_iff)
  have "set (dkeys (active s')) \<inter> completed s = (set (dkeys (active s)) \<inter> completed s) - {i}"
    by (auto simp: finished(1) finish_def dict.keys_remove)
  then have "card (set (dkeys (active s)) \<inter> completed s) = Suc (card (set (dkeys (active s')) \<inter> completed s))"
    using card.remove [of "set (dkeys (active s)) \<inter> completed s" i] k finished by simp
  moreover have "pending s' = pending s" "started s' = started s" "completed s' = completed s"
    by (simp_all add: finished(1) finish_def)
  ultimately show ?thesis using phase_work_le [of s'] by (simp add: run_work_def)
next
  case (woken ks)
  then have "phase_work s = 3" by (simp add: phase_work_def)
  then show ?thesis using loop_top_work [of cfg ts s] by (simp add: run_work_def woken(1))
qed

text \<open>A run that has not returned can always go on, given that every router call returns.\<close>

lemma run_progress:
  assumes "run_inv cfg ts s" "phase s \<noteq> Done"
  shows "\<exists>s'. run_step cfg ts s s'"
proof (cases "phase s")
  case (Routing t rest)
  then show ?thesis by (blast intro: run_step.dispatched)
next
  case (Waiting ks)
  show ?thesis
  proof (cases "set ks \<subseteq> set (dkeys (active s))")
    case False
    with Waiting show ?thesis by (blast intro: run_step.woken)
  next
    case True
    then obtain i where i: "i \<in> set (dkeys (active s))"
      using assms(1) Waiting by (cases ks) (auto simp: run_inv_def)
    show ?thesis
    proof (cases "i \<in> completed s")
      case True
      with i assms(2) show ?thesis by (auto simp: dict.has_iff intro: run_step.finished)
    next
      case False
      have "i \<in> ids ts" using i assms(1) by (auto simp: run_inv_def tasks_inv_def)
      then obtain t where "t \<in> set ts" "dt_id t = i" by (auto simp: ids_def)
      with i False assms(2) show ?thesis
        using run_step.settled [of s t ts _ cfg] by (auto simp: dict.has_iff)
    qed
  qed
qed (use assms(2) in simp)

interpretation subagents: terminating_machine
  "\<lambda>s. plan_ok cfg ts \<and> s = start_run cfg ts" "run_step cfg ts" "run_inv cfg ts"
  "\<lambda>s. phase s = Done" run_work for cfg ts
proof
  fix s
  assume "plan_ok cfg ts \<and> s = start_run cfg ts"
  moreover have "tasks_inv cfg ts \<lparr>started = {}, completed = {}, pending = set (map dt_id ts), active = [],
      results = [], lanes = new_pool (maxConcurrent cfg), phase = Done\<rparr>"
    using lanes_ok_start by (simp add: tasks_inv_def ids_def dkeys_def)
  ultimately show "run_inv cfg ts s" by (auto simp: start_run_def intro: loop_top_inv)
qed (auto intro: run_inv_step run_work_step run_progress)


text \<open>
  With no lane nothing is ever dispatched: the first iteration breaks out of the loop and the run
  returns without a result, whatever the tasks.\<close>

lemma no_lane_start:
  assumes "maxConcurrent cfg = 0"
  shows "start_run cfg ts = \<lparr>started = {}, completed = {}, pending = set (map dt_id ts), active = [],
      results = [], lanes = new_pool 0, phase = Done\<rparr>"
  using assms by (simp add: start_run_def loop_top_def advance_def)

lemma no_lane_stuck:
  assumes "maxConcurrent cfg = 0"
  shows "\<not> run_step cfg ts (start_run cfg ts) s"
  unfolding no_lane_start [OF assms] by (auto elim: run_step.cases)

lemma no_lane_reach:
  "maxConcurrent cfg = 0 \<Longrightarrow> (run_step cfg ts)\<^sup>*\<^sup>* (start_run cfg ts) s \<Longrightarrow> s = start_run cfg ts"
  using no_lane_stuck by (metis converse_rtranclpE)

text \<open>
  The map of active promises has one entry per task id. Two tasks that share an id take two lanes
  and leave one entry, so the loop starts more tasks than it has lanes for and does not wait for
  the promise it has overwritten. The decomposer accepts such a plan. The run is modelled for tasks
  with distinct ids, where a task is its id; every theorem below says so.\<close>

lemma repeated_id_overwrites:
  assumes "dt_id u = dt_id t"
  shows "dkeys (active (dispatch u (dispatch t s))) = dkeys (active (dispatch t s))"
proof -
  obtain wt p where a: "acquire (lanes s) = (wt, p)" by force
  obtain wu q where b: "acquire p = (wu, q)" by force
  show ?thesis by (simp add: dispatch_def a b assms dkeys_dset)
qed


section \<open>What executeAll guarantees\<close>

abbreviation reachable_run :: "SubagentManagerConfig \<Rightarrow> DecomposedTask list \<Rightarrow> run_state \<Rightarrow> bool" where
  "reachable_run cfg ts s \<equiv> (run_step cfg ts)\<^sup>*\<^sup>* (start_run cfg ts) s"

lemma reachable_inv: "plan_ok cfg ts \<Longrightarrow> reachable_run cfg ts s \<Longrightarrow> run_inv cfg ts s"
  by (rule subagents.inv_reachable) auto

text \<open>C1.
  For tasks with distinct ids, at every moment of every interleaving: at most \<open>maxConcurrent\<close> tasks
  are active, each holds a lane of its own (the pool never runs dry), no task has two results, a
  task was started only after every dependency had a result, and what is about to be dispatched was
  not started yet. (The decomposer does not rule out two tasks with one id; for those the promises
  overwrite each other, see \<open>repeated_id_overwrites\<close>, and nothing is claimed.)\<close>

theorem subagent_run_safe:
  assumes "distinct (map dt_id ts)" "reachable_run cfg ts s"
  shows "length (active s) \<le> maxConcurrent cfg \<and> distinct (map sr_taskId (results s)) \<and>
    (\<forall>i j wt. dget (active s) i = Some wt \<longrightarrow> wt \<noteq> None \<and> (dget (active s) j = Some wt \<longrightarrow> i = j)) \<and>
    (\<forall>t \<in> set ts. dt_id t \<in> started s \<longrightarrow> set (dependencies t) \<subseteq> set (map sr_taskId (results s))) \<and>
    (\<forall>t rest. phase s = Routing t rest \<longrightarrow> dt_id t \<notin> started s)"
proof (cases "maxConcurrent cfg = 0")
  case True
  then show ?thesis using no_lane_reach [OF True assms(2)] no_lane_start [OF True] by simp
next
  case False
  then have inv: "run_inv cfg ts s" using assms by (intro reachable_inv) (simp_all add: plan_ok_def)
  then have l: "lanes_ok cfg (lanes s) (active s)" by (simp add: run_inv_def tasks_inv_def)
  have "length (active s) \<le> maxConcurrent cfg" using lanes_okD(3) [OF l] by simp
  moreover have "dget (active s) i = Some wt \<Longrightarrow> wt \<noteq> None \<and> (dget (active s) j = Some wt \<longrightarrow> i = j)" for i j wt
    using lanes_okD(4) [OF l, of i wt] lanes_okD(5) [OF l, of i wt j] by auto
  moreover have "phase s = Routing t rest \<Longrightarrow> dt_id t \<notin> started s" for t rest
    using inv by (auto simp: run_inv_def ready_ok_def)
  ultimately show ?thesis using inv unfolding run_inv_def tasks_inv_def by blast
qed

text \<open>C8.
  \<open>executeAll\<close> ends, for tasks with distinct ids and any number of lanes: no interleaving of
  dispatches, completions and wake-ups has more than \<open>12 n + 3\<close> steps for \<open>n\<close> tasks, and a run that
  can make no further step has returned, as long as every call of the router returns. (With no lane
  at all the loop breaks at once and returns without a result.)\<close>

theorem subagent_run_ends:
  assumes "distinct (map dt_id ts)" "(run_step cfg ts ^^ n) (start_run cfg ts) s"
  shows "n \<le> 12 * length ts + 3 \<and> (phase s = Done \<or> (\<exists>s'. run_step cfg ts s s'))"
proof (cases "maxConcurrent cfg = 0")
  case True
  then have "n = 0" using assms(2) no_lane_stuck [OF True] by (cases n) (auto dest: relpowp_Suc_D2 simp del: relpowp.simps)
  with assms(2) no_lane_start [OF True, of ts] show ?thesis by auto
next
  case False
  with assms have p: "plan_ok cfg ts" by (simp add: plan_ok_def)
  then have i: "run_inv cfg ts (start_run cfg ts)" by (intro reachable_inv) auto
  have "n \<le> run_work (start_run cfg ts)" using subagents.run_bounded [OF assms(2) i] by simp
  also have "\<dots> \<le> 12 * card (set (map dt_id ts)) + 3"
    using phase_work_le [of "start_run cfg ts"] by (simp add: run_work_def) (simp add: start_run_def dkeys_def)
  also have "\<dots> \<le> 12 * length ts + 3" using card_length [of "map dt_id ts"] by simp
  finally have "n \<le> 12 * length ts + 3" .
  moreover have "run_inv cfg ts s"
    using reachable_inv [OF p] relpowp_imp_rtranclp [OF assms(2)] by blast
  ultimately show ?thesis using run_progress by blast
qed


text \<open>A plan of two tasks, one depending on the other, and a run of it in which the first fails.\<close>

definition sub_task :: "string \<Rightarrow> string list \<Rightarrow> DecomposedTask" where
  "sub_task i ds = \<lparr>dt_id = i, dt_description = ''d'', estimatedComplexity = Low, dependencies = ds,
     dt_role = Execution, files = [], indexerContext = None\<rparr>"

definition sub_plan :: "DecomposedTask list" where
  "sub_plan = [sub_task ''b'' [''a''], sub_task ''a'' []]"

definition sub_cfg :: SubagentManagerConfig where
  "sub_cfg = DEFAULT_CONFIG\<lparr>maxConcurrent := 1\<rparr>"

definition sub_fail :: "DecomposedTask \<Rightarrow> SubagentResult" where
  "sub_fail t = fst (executeTask sub_cfg t Groq (\<lambda>k. ThrowError ''boom''))"

definition sub_a :: DecomposedTask where "sub_a = sub_task ''a'' []"
definition sub_b :: DecomposedTask where "sub_b = sub_task ''b'' [''a'']"

definition sub_state :: "string set \<Rightarrow> string set \<Rightarrow> string set \<Rightarrow> string list \<Rightarrow> SubagentResult list \<Rightarrow> phase \<Rightarrow> run_state"
  where "sub_state st co pe ac rs ph = \<lparr>started = st, completed = co, pending = pe,
     active = map (\<lambda>i. (i, Some ''worktree-0'')) ac, results = rs,
     lanes = [(''worktree-0'', ac = [])], phase = ph\<rparr>"

lemma sub_fields [simp]:
  "dt_id sub_a = ''a''" "dt_id sub_b = ''b''" "dependencies sub_a = []" "dependencies sub_b = [''a'']"
  "maxConcurrent sub_cfg = 1"
  by (simp_all add: sub_a_def sub_b_def sub_task_def sub_cfg_def)

lemma sub_plan_list: "sub_plan = [sub_b, sub_a]"
  by (simp add: sub_plan_def sub_a_def sub_b_def)

lemma sub_fail_id [simp]: "sr_taskId (sub_fail t) = dt_id t"
  by (simp add: sub_fail_def executeTask_id)

lemma sub_pool: "new_pool (Suc 0) = [(''worktree-0'', True)]"
proof -
  have "digit_char 0 = CHR ''0''" by code_simp
  then show ?thesis by (simp add: new_pool_def dset_def show_nat.simps)
qed

lemmas sub_simps = sub_plan_list sub_state_def loop_top_def advance_def getReadyTasks_def dispatch_def settle_def
  finish_def acquire_def release_def dset_def ddelete_def dget_def dkeys_def

lemma sub_start: "start_run sub_cfg sub_plan = sub_state {} {} {''a'', ''b''} [] [] (Routing sub_a [])"
  by (auto simp: start_run_def sub_pool sub_simps)

definition sub_end :: run_state where
  "sub_end = sub_state {''a'', ''b''} {''a'', ''b''} {} [] [sub_fail sub_a, sub_fail sub_b] Done"

lemma sub_plan_run: "(run_step sub_cfg sub_plan ^^ 8) (start_run sub_cfg sub_plan)
    sub_end"
proof -
  let ?R = "run_step sub_cfg sub_plan"
  let ?s1 = "sub_state {''a''} {} {''b''} [''a''] [] (Waiting [''a''])"
  let ?s2 = "sub_state {''a''} {''a''} {''b''} [''a''] [sub_fail sub_a] (Waiting [''a''])"
  let ?s3 = "sub_state {''a''} {''a''} {''b''} [] [sub_fail sub_a] (Waiting [''a''])"
  let ?s4 = "sub_state {''a''} {''a''} {''b''} [] [sub_fail sub_a] (Routing sub_b [])"
  let ?s5 = "sub_state {''a'', ''b''} {''a''} {} [''b''] [sub_fail sub_a] (Waiting [''b''])"
  let ?s6 = "sub_state {''a'', ''b''} {''a'', ''b''} {} [''b''] [sub_fail sub_a, sub_fail sub_b] (Waiting [''b''])"
  let ?s7 = "sub_state {''a'', ''b''} {''a'', ''b''} {} [] [sub_fail sub_a, sub_fail sub_b] (Waiting [''b''])"
  have "?s1 = advance sub_cfg [] (dispatch sub_a (start_run sub_cfg sub_plan))"
    unfolding sub_start by (auto simp: sub_simps)
  then have 1: "?R (start_run sub_cfg sub_plan) ?s1"
    by (simp only:) (rule run_step.dispatched, simp add: sub_start sub_state_def)
  have "?s2 = settle (sub_fail sub_a) ?s1" by (auto simp: sub_simps)
  then have 2: "?R ?s1 ?s2"
    by (simp only:) (rule run_step.settled [where t = sub_a], auto simp: sub_simps sub_fail_def)
  have "?s3 = finish ''a'' ?s2" by (auto simp: sub_simps)
  then have 3: "?R ?s2 ?s3" by (simp only:) (rule run_step.finished, auto simp: sub_simps)
  have "?s4 = loop_top sub_cfg sub_plan ?s3" by (auto simp: sub_simps)
  then have 4: "?R ?s3 ?s4" by (simp only:) (rule run_step.woken, auto simp: sub_simps)
  have "?s5 = advance sub_cfg [] (dispatch sub_b ?s4)" by (auto simp: sub_simps)
  then have 5: "?R ?s4 ?s5" by (simp only:) (rule run_step.dispatched, simp add: sub_state_def)
  have "?s6 = settle (sub_fail sub_b) ?s5" by (auto simp: sub_simps)
  then have 6: "?R ?s5 ?s6"
    by (simp only:) (rule run_step.settled [where t = sub_b], auto simp: sub_simps sub_fail_def)
  have "?s7 = finish ''b'' ?s6" by (auto simp: sub_simps)
  then have 7: "?R ?s6 ?s7" by (simp only:) (rule run_step.finished, auto simp: sub_simps)
  have end_eq: "sub_end = loop_top sub_cfg sub_plan ?s7"
    by (auto simp: sub_end_def sub_simps)
  have 8: "?R ?s7 sub_end"
    unfolding end_eq by (rule run_step.woken) (auto simp: sub_simps)
  have "(8 :: nat) = Suc (Suc (Suc (Suc (Suc (Suc (Suc (Suc 0)))))))" by simp
  with 1 2 3 4 5 6 7 8 show ?thesis by (simp only: relpowp.simps) blast
qed

lemma sub_plan_ok: "distinct (map dt_id sub_plan)" "1 \<le> maxConcurrent sub_cfg"
  by (simp_all add: sub_plan_list)

lemma sub_plan_reach: "reachable_run sub_cfg sub_plan sub_end"
  using sub_plan_run by (rule relpowp_imp_rtranclp)


text \<open>
  The run in which the task \<open>a\<close> fails still dispatches \<open>b\<close>, which depends on it: a failed task
  counts as completed for its dependents.\<close>

lemma sub_fail_status: "sr_status (sub_fail t) = SFailed"
proof -
  have "\<not> isRetryableError (ThrowError ''boom'')" by code_simp
  then show ?thesis by (simp add: sub_fail_def executeTask_def sub_result_def Let_def)
qed

lemma subagent_run_safe_witness:
  "length (active sub_end) \<le> 1 \<and> distinct (map sr_taskId (results sub_end)) \<and>
   map sr_status (results sub_end) = [SFailed, SFailed]"
proof -
  have "map sr_status (results sub_end) = [SFailed, SFailed]"
    by (simp add: sub_end_def sub_state_def sub_fail_status)
  moreover have "maxConcurrent sub_cfg = 1" by simp
  ultimately show ?thesis using subagent_run_safe [OF sub_plan_ok(1) sub_plan_reach] by metis
qed

lemma sub_end_final: "\<not> run_step sub_cfg sub_plan sub_end s"
  by (auto simp: sub_end_def sub_state_def elim: run_step.cases)

lemma subagent_run_ends_witness:
  "(run_step sub_cfg sub_plan ^^ 8) (start_run sub_cfg sub_plan) sub_end \<and> phase sub_end = Done \<and>
   8 \<le> 12 * length sub_plan + 3"
  using subagent_run_ends [OF sub_plan_ok(1) sub_plan_run] sub_plan_run sub_end_final by blast


end
