(* ===== verification/Js_Value.thy ===== *)
theory Js_Value
  imports Json Js_Number
begin

text \<open>
  How JavaScript reads a parsed JSON value of unknown shape: property access with and without
  \<open>?.\<close>, truthiness and \<open>||\<close>, the conversions to string and to number. A read of a property of
  \<open>null\<close> or \<open>undefined\<close> throws; the text of the error depends on the engine, \<open>''TypeError''\<close>
  stands for it.
\<close>

definition type_error :: string where "type_error = ''TypeError''"

text \<open>\<open>v.k\<close>, for a \<open>k\<close> that no prototype has.\<close>

fun js_get :: "json \<Rightarrow> string \<Rightarrow> string + json" where
  "js_get JUndef k = Inl type_error"
| "js_get JNull k = Inl type_error"
| "js_get (JObj kvs) k = Inr (case dget kvs k of Some v \<Rightarrow> v | None \<Rightarrow> JUndef)"
| "js_get v k = Inr JUndef"

text \<open>\<open>v?.k\<close>\<close>

definition opt_get :: "json \<Rightarrow> string \<Rightarrow> json" where
  "opt_get v k = (case js_get v k of Inl e \<Rightarrow> JUndef | Inr w \<Rightarrow> w)"

text \<open>\<open>v?.[0]\<close>\<close>

fun opt_first :: "json \<Rightarrow> json" where
  "opt_first (JArr (v # vs)) = v"
| "opt_first (JStr (c # cs)) = JStr [c]"
| "opt_first (JObj kvs) = opt_get (JObj kvs) ''0''"
| "opt_first v = JUndef"

fun truthy :: "json \<Rightarrow> bool" where
  "truthy JUndef = False"
| "truthy JNull = False"
| "truthy (JBool b) = b"
| "truthy (JNum t) = (t \<noteq> ''0'' \<and> t \<noteq> ''-0'')"
| "truthy (JStr s) = (s \<noteq> [])"
| "truthy v = True"

text \<open>\<open>v || w\<close>\<close>

definition or_else :: "json \<Rightarrow> json \<Rightarrow> json" where
  "or_else v w = (if truthy v then v else w)"

text \<open>\<open>`${v}`\<close>\<close>

function js_string :: "json \<Rightarrow> string" where
  "js_string JUndef = ''undefined''"
| "js_string JNull = ''null''"
| "js_string (JBool b) = (if b then ''true'' else ''false'')"
| "js_string (JNum t) = t"
| "js_string (JStr s) = s"
| "js_string (JArr vs) = join '','' (map (\<lambda>v. if v = JUndef \<or> v = JNull then [] else js_string v) vs)"
| "js_string (JObj kvs) = ''[object Object]''"
  by pat_completeness auto
termination
proof (relation "measure size", goal_cases)
  case (2 vs v)
  then show ?case by (induction vs) auto
qed simp

section \<open>Numbers\<close>

text \<open>The value of a number's text: sign, integer part, fraction, exponent.\<close>

definition take_digits :: "string \<Rightarrow> string" where
  "take_digits s = takeWhile is_digit s"

definition exponent_value :: "string \<Rightarrow> rat" where
  "exponent_value s = (case s of [] \<Rightarrow> 1
     | c # cs \<Rightarrow> (case cs of [] \<Rightarrow> 1
         | d # ds \<Rightarrow> if d = CHR ''-'' then 1 / 10 ^ digits_value ds
                   else if d = CHR ''+'' then 10 ^ digits_value ds
                   else 10 ^ digits_value cs))"

definition fraction_value :: "string \<Rightarrow> rat" where
  "fraction_value s = (let ds = take_digits s in of_nat (digits_value ds) / 10 ^ length ds)"

definition unsigned_value :: "string \<Rightarrow> rat" where
  "unsigned_value s =
    (let r = skip_digits s in
     case r of [] \<Rightarrow> of_nat (digits_value s)
     | c # cs \<Rightarrow> if c = CHR ''.''
         then (of_nat (digits_value (take_digits s)) + fraction_value cs) * exponent_value (skip_digits cs)
         else of_nat (digits_value (take_digits s)) * exponent_value r)"

definition number_value :: "string \<Rightarrow> rat" where
  "number_value s = flt (case s of [] \<Rightarrow> 0
     | c # cs \<Rightarrow> if c = CHR ''-'' then - unsigned_value cs else unsigned_value s)"

text \<open>
  \<open>Number(v)\<close>, \<open>None\<close> for \<open>NaN\<close>. Of the numeric strings, those in the grammar of JSON are read.
\<close>

definition js_number :: "json \<Rightarrow> rat option" where
  "js_number v = (case v of
     JNull \<Rightarrow> Some 0
   | JBool b \<Rightarrow> Some (if b then 1 else 0)
   | JNum t \<Rightarrow> Some (number_value t)
   | JStr s \<Rightarrow> (let t = trim s in
       if t = [] then Some 0 else if valid_number t then Some (number_value t) else None)
   | _ \<Rightarrow> None)"

section \<open>Facts\<close>

lemma opt_get_simps [simp]:
  "opt_get JUndef k = JUndef" "opt_get JNull k = JUndef" "opt_get (JArr vs) k = JUndef"
  "opt_get (JStr s) k = JUndef" "opt_get (JNum t) k = JUndef" "opt_get (JBool b) k = JUndef"
  "opt_get (JObj kvs) k = (case dget kvs k of Some v \<Rightarrow> v | None \<Rightarrow> JUndef)"
  by (simp_all add: opt_get_def)

lemma truthy_or_else: "truthy (or_else v w) \<longleftrightarrow> truthy v \<or> truthy w"
  by (simp add: or_else_def)

lemma js_get_Inl: "js_get v k = Inl e \<longleftrightarrow> (v = JUndef \<or> v = JNull) \<and> e = type_error"
  by (cases v) auto

lemma number_show_nat: "n < 2 ^ 53 \<Longrightarrow> number_value (show_nat n) = of_nat n"
proof -
  assume n: "n < 2 ^ 53"
  obtain c cs where c: "show_nat n = c # cs" using show_nat_head by blast
  have d: "list_all is_digit (show_nat n)" by (rule show_nat_digits)
  then have "c \<noteq> CHR ''-''" using c by (auto simp: is_digit_def)
  moreover have "unsigned_value (show_nat n) = of_nat n"
    using skip_all_digits [OF d] by (simp add: unsigned_value_def)
  ultimately show ?thesis using n c by (simp add: number_value_def flt_of_nat_small)
qed

end
