(* ===== verification/Cli_Driver.thy ===== *)
theory Cli_Driver
  imports Js_Value
begin

text \<open>
  The messages and responses of \<open>src/providers/router.ts\<close>, and \<open>src/providers/cli-driver.ts\<close>: the
  providers that run an installed command line agent as a subprocess. The process is a parameter:
  what running a binary with arguments, an input and a time limit ends with.
\<close>

section \<open>Messages and responses\<close>

datatype MessageRole = MSystem | MUser | MAssistant

fun message_role :: "MessageRole \<Rightarrow> string" where
  "message_role MSystem = ''system''"
| "message_role MUser = ''user''"
| "message_role MAssistant = ''assistant''"

record LLMMessage =
  msg_role :: MessageRole
  msg_content :: string

text \<open>
  A count of the answer is whatever JSON value the provider put there; the total of the two
  Anthropic-style counts is their sum, kept as the expression.
\<close>

datatype token_count = Count json | Plus json json

record LLMResponse =
  resp_content :: json
  resp_provider :: string
  resp_model :: string
  promptTokens :: json
  completionTokens :: json
  totalTokens :: token_count

section \<open>ANSI escapes\<close>

definition ESC :: char where "ESC = CHR 0x1B"
definition BEL :: char where "BEL = CHR 0x07"

definition is_letter :: "char \<Rightarrow> bool" where
  "is_letter c = (let n = (of_char c :: nat) in (65 \<le> n \<and> n \<le> 90) \<or> (97 \<le> n \<and> n \<le> 122))"

lemma dropWhile_shorter:
  "dropWhile P (tl xs) = y # ys \<Longrightarrow> length ys < Suc (length xs)"
  using length_dropWhile_le [of P "tl xs"] by auto

text \<open>\<open>s.replace(/\\x1b\\[[0-9;]*[A-Za-z]/g, "")\<close>: the digits and the final letter are disjoint, so the
  greedy match is the only one.\<close>

function strip_csi :: "string \<Rightarrow> string" where
  "strip_csi [] = []"
| "strip_csi (c # cs) =
    (if c = ESC \<and> cs \<noteq> [] \<and> hd cs = CHR ''['' then
       (case dropWhile (\<lambda>d. is_digit d \<or> d = CHR '';'') (tl cs) of
          l # rest \<Rightarrow> if is_letter l then strip_csi rest else c # strip_csi cs
        | [] \<Rightarrow> c # strip_csi cs)
     else c # strip_csi cs)"
  by pat_completeness auto
termination by (relation "measure length") (auto dest!: dropWhile_shorter)

text \<open>\<open>s.replace(/\\x1b\\][^\\x07]*\\x07/g, "")\<close>\<close>

function strip_osc :: "string \<Rightarrow> string" where
  "strip_osc [] = []"
| "strip_osc (c # cs) =
    (if c = ESC \<and> cs \<noteq> [] \<and> hd cs = CHR '']'' then
       (case dropWhile (\<lambda>d. d \<noteq> BEL) (tl cs) of
          b # rest \<Rightarrow> strip_osc rest
        | [] \<Rightarrow> c # strip_osc cs)
     else c # strip_osc cs)"
  by pat_completeness auto
termination by (relation "measure length") (auto dest!: dropWhile_shorter)

definition stripAnsi :: "string \<Rightarrow> string" where
  "stripAnsi s = strip_osc (strip_csi s)"

section \<open>Replacing placeholders\<close>

text \<open>
  \<open>tok.replaceAll(pat, rep)\<close> with a string replacement, in which \<open>$$\<close> is a dollar, \<open>$&\<close> the match,
  \<open>$`\<close> what stands before the match and \<open>$'\<close> what stands after it.
\<close>

fun expand_dollar :: "string \<Rightarrow> string \<Rightarrow> string \<Rightarrow> string \<Rightarrow> string" where
  "expand_dollar m before after (c # d # ds) =
    (if c \<noteq> CHR ''$'' then c # expand_dollar m before after (d # ds)
     else if d = CHR ''$'' then d # expand_dollar m before after ds
     else if d = CHR ''&'' then m @ expand_dollar m before after ds
     else if d = CHR 0x60 then before @ expand_dollar m before after ds
     else if d = CHR 0x27 then after @ expand_dollar m before after ds
     else c # expand_dollar m before after (d # ds))"
| "expand_dollar m before after cs = cs"

function replace_all_from :: "string \<Rightarrow> string \<Rightarrow> string \<Rightarrow> string \<Rightarrow> string" where
  "replace_all_from pat rep prev [] = []"
| "replace_all_from pat rep prev (c # cs) =
    (if pat \<noteq> [] \<and> starts_with (c # cs) pat then
       expand_dollar pat prev (drop (length pat) (c # cs)) rep @
         replace_all_from pat rep (prev @ pat) (drop (length pat) (c # cs))
     else c # replace_all_from pat rep (prev @ [c]) cs)"
  by pat_completeness auto
termination by (relation "measure (\<lambda>(pat, rep, d, s). length s)") auto

definition replaceAll :: "string \<Rightarrow> string \<Rightarrow> string \<Rightarrow> string" where
  "replaceAll pat rep s = replace_all_from pat rep [] s"

section \<open>Drivers\<close>

record CliDriverConfig =
  cli_id :: string
  cli_label :: string
  binary :: string
  cli_args :: "string \<Rightarrow> string option \<Rightarrow> string list"
  cli_stdin :: bool
  cleanOutput :: "(string \<Rightarrow> string) option"
  defaultModel :: string
  timeoutMs :: "nat option"

definition clean :: "string \<Rightarrow> string" where
  "clean raw = trim (stripAnsi raw)"

text \<open>A system prompt that is missing or empty is falsy.\<close>

definition system_text :: "string option \<Rightarrow> string" where
  "system_text s = (case s of Some t \<Rightarrow> t | None \<Rightarrow> [])"

definition folded_prompt :: "string \<Rightarrow> string option \<Rightarrow> string" where
  "folded_prompt prompt s =
    (if system_text s \<noteq> [] then ''[system] '' @ system_text s @ [newline, newline] @ ''[user] '' @ prompt
     else prompt)"

definition BUILTIN_CLI_DRIVERS :: "CliDriverConfig list" where
  "BUILTIN_CLI_DRIVERS = [
    \<lparr>cli_id = ''claude-code-cli'', cli_label = ''Claude Code (Anthropic CLI)'', binary = ''claude'',
     cli_args = (\<lambda>prompt s. if system_text s \<noteq> []
       then [''--print'', ''--append-system-prompt'', system_text s, prompt] else [''--print'', prompt]),
     cli_stdin = False, cleanOutput = Some clean, defaultModel = ''claude-sonnet-4-via-cli'', timeoutMs = None\<rparr>,
    \<lparr>cli_id = ''codex-cli'', cli_label = ''Codex (OpenAI CLI)'', binary = ''codex'',
     cli_args = (\<lambda>prompt s. [''exec'', folded_prompt prompt s]),
     cli_stdin = False, cleanOutput = Some clean, defaultModel = ''gpt-via-codex-cli'', timeoutMs = None\<rparr>,
    \<lparr>cli_id = ''gemini-cli'', cli_label = ''Gemini CLI (Google)'', binary = ''gemini'',
     cli_args = (\<lambda>prompt s. [''-p'', folded_prompt prompt s]),
     cli_stdin = False, cleanOutput = Some clean, defaultModel = ''gemini-via-cli'', timeoutMs = None\<rparr>]"

text \<open>
  An entry of the file \<open>APOHARA_CLI_DRIVERS_CONFIG\<close>, with the fields the code casts it to. In a file
  that can be read and holds an array, \<open>None\<close> is an element \<open>null\<close>: reading its \<open>id\<close> throws, which
  ends the loop and keeps what was registered before.
\<close>

record UserDriver =
  ud_id :: "string option"
  ud_label :: "string option"
  ud_binary :: "string option"
  ud_args :: "string list option"
  ud_stdin :: "bool option"
  ud_defaultModel :: "string option"
  ud_timeoutMs :: "nat option"

definition template_args :: "string list option \<Rightarrow> string \<Rightarrow> string option \<Rightarrow> string list" where
  "template_args template prompt s =
     map (\<lambda>tok. replaceAll ''${system}'' (system_text s) (replaceAll ''${prompt}'' prompt tok))
       (case template of Some toks \<Rightarrow> toks | None \<Rightarrow> [''-p'', prompt])"

definition user_config :: "UserDriver \<Rightarrow> CliDriverConfig option" where
  "user_config u = (case (ud_id u, ud_binary u, ud_label u) of
     (Some (c # i), Some (d # b), Some (e # l)) \<Rightarrow>
       Some \<lparr>cli_id = c # i, cli_label = e # l, binary = d # b, cli_args = template_args (ud_args u),
         cli_stdin = (ud_stdin u = Some True), cleanOutput = Some clean,
         defaultModel = (case ud_defaultModel u of Some m \<Rightarrow> m | None \<Rightarrow> (c # i) @ ''-via-cli''),
         timeoutMs = ud_timeoutMs u\<rparr>
   | _ \<Rightarrow> None)"

fun add_user_drivers :: "UserDriver option list \<Rightarrow> (string, CliDriverConfig) dict \<Rightarrow> (string, CliDriverConfig) dict" where
  "add_user_drivers [] reg = reg"
| "add_user_drivers (None # us) reg = reg"
| "add_user_drivers (Some u # us) reg = add_user_drivers us
     (case user_config u of None \<Rightarrow> reg | Some cfg \<Rightarrow> dset (cli_id cfg) cfg reg)"

text \<open>\<open>None\<close>: no file is configured, or it cannot be read, is not JSON, or is not an array.\<close>

definition loadCliDriverRegistry :: "UserDriver option list option \<Rightarrow> (string, CliDriverConfig) dict" where
  "loadCliDriverRegistry entries =
    (let reg = foldl (\<lambda>m d. dset (cli_id d) d m) [] BUILTIN_CLI_DRIVERS in
     case entries of None \<Rightarrow> reg | Some us \<Rightarrow> add_user_drivers us reg)"

section \<open>A call\<close>

text \<open>
  How the process ends: it could not be started (the code and message of the error event), it was
  killed at the time limit, or it exited, with what had arrived on its two outputs by then.
\<close>

datatype process_end = StartError string string | TimedOut | Exited "int option" string string

definition cli_system :: "LLMMessage list \<Rightarrow> string" where
  "cli_system ms = trim (join [newline, newline] (map msg_content (filter (\<lambda>m. msg_role m = MSystem) ms)))"

definition cli_prompt :: "LLMMessage list \<Rightarrow> string" where
  "cli_prompt ms =
    (let parts = join [newline, newline]
       (map (\<lambda>m. ''['' @ message_role (msg_role m) @ ''] '' @ msg_content m)
         (filter (\<lambda>m. msg_role m \<noteq> MSystem) ms))
     in if parts \<noteq> [] then parts else ''(empty prompt)'')"

definition quoted :: "string \<Rightarrow> string" where
  "quoted s = dquote # s @ [dquote]"

definition callCliDriver ::
  "(string \<Rightarrow> string list \<Rightarrow> string option \<Rightarrow> nat \<Rightarrow> process_end) \<Rightarrow> CliDriverConfig \<Rightarrow> LLMMessage list \<Rightarrow>
   string + LLMResponse" where
  "callCliDriver run cfg ms =
    (let prompt = cli_prompt ms;
         system = cli_system ms;
         argv = cli_args cfg prompt (if system = [] then None else Some system);
         limit = (case timeoutMs cfg of Some t \<Rightarrow> t | None \<Rightarrow> 120000)
     in case run (binary cfg) argv (if cli_stdin cfg then Some prompt else None) limit of
          TimedOut \<Rightarrow> Inl (cli_id cfg @ '': CLI driver timed out after '' @ show_nat limit @
            '' ms (binary='' @ binary cfg @ '')'')
        | StartError code msg \<Rightarrow>
            if code = ''ENOENT'' then
              Inl (cli_id cfg @ '': binary '' @ quoted (binary cfg) @
                '' not found on PATH. Install the official CLI to enable this provider.'')
            else Inl msg
        | Exited code out err \<Rightarrow>
            (let exitCode = (case code of Some c \<Rightarrow> c | None \<Rightarrow> -1) in
             if exitCode \<noteq> 0 then
               Inl (cli_id cfg @ '': CLI driver exited with code '' @ show_int exitCode @
                 ''. stderr: '' @ trim err)
             else Inr \<lparr>resp_content = JStr (case cleanOutput cfg of Some f \<Rightarrow> f out | None \<Rightarrow> stripAnsi out),
               resp_provider = cli_id cfg, resp_model = defaultModel cfg,
               promptTokens = JNum ''0'', completionTokens = JNum ''0'', totalTokens = Count (JNum ''0'')\<rparr>))"

section \<open>Facts\<close>

lemma strip_plain: "ESC \<notin> set s \<Longrightarrow> stripAnsi s = s"
proof -
  have "ESC \<notin> set s \<Longrightarrow> strip_csi s = s" "ESC \<notin> set s \<Longrightarrow> strip_osc s = s"
    by (induction s) auto
  then show "ESC \<notin> set s \<Longrightarrow> stripAnsi s = s" by (simp add: stripAnsi_def)
qed

text \<open>A registered driver carries the name it is registered under, and the built-in ids stay
  registered whatever the file holds.\<close>

definition registry_ok :: "(string, CliDriverConfig) dict \<Rightarrow> bool" where
  "registry_ok reg \<longleftrightarrow> list_all (\<lambda>(i, cfg). cli_id cfg = i) reg \<and>
     list_all (\<lambda>i. i \<in> set (dkeys reg)) [''claude-code-cli'', ''codex-cli'', ''gemini-cli'']"

lemma registry_ok_dset: "registry_ok reg \<Longrightarrow> registry_ok (dset (cli_id cfg) cfg reg)"
proof -
  assume ok: "registry_ok reg"
  have "set (dset (cli_id cfg) cfg reg) \<subseteq> insert (cli_id cfg, cfg) (set reg)"
    unfolding dset_def by (induction reg) auto
  with ok show ?thesis
    by (fastforce simp: registry_ok_def list_all_iff dkeys_dset)
qed

lemma registry_ok_user: "registry_ok reg \<Longrightarrow> registry_ok (add_user_drivers us reg)"
  by (induction us reg rule: add_user_drivers.induct)
     (auto simp: registry_ok_dset split: option.splits)

lemma registry_ok_load: "registry_ok (loadCliDriverRegistry entries)"
proof -
  have "registry_ok (foldl (\<lambda>m d. dset (cli_id d) d m) [] BUILTIN_CLI_DRIVERS)"
    by (simp add: BUILTIN_CLI_DRIVERS_def registry_ok_def dset_def dkeys_def)
  then show ?thesis by (auto simp: loadCliDriverRegistry_def Let_def registry_ok_user split: option.splits)
qed

lemma registry_get: "registry_ok reg \<Longrightarrow> dget reg i = Some cfg \<Longrightarrow> cli_id cfg = i"
  unfolding registry_ok_def dget_def by (auto simp: list_all_iff dest!: map_of_SomeD)

section \<open>Templates of the drivers file\<close>

lemma expand_plain: "CHR ''$'' \<notin> set rep \<Longrightarrow> expand_dollar m b a rep = rep"
  by (induction m b a rep rule: expand_dollar.induct) auto

lemma replace_none: "CHR ''$'' \<notin> set s \<Longrightarrow> replace_all_from (CHR ''$'' # pat) rep prev s = s"
  by (induction s arbitrary: prev) (auto simp: starts_with_def)

lemma replace_one:
  "CHR ''$'' \<notin> set a \<Longrightarrow> CHR ''$'' \<notin> set b \<Longrightarrow> CHR ''$'' \<notin> set rep \<Longrightarrow>
   replace_all_from (CHR ''$'' # pat) rep prev (a @ (CHR ''$'' # pat) @ b) = a @ rep @ b"
proof (induction a arbitrary: prev)
  case Nil
  then show ?case by (simp add: starts_with_def expand_plain replace_none)
next
  case (Cons c a)
  then show ?case by (auto simp: starts_with_def)
qed

text \<open>
  A driver's argument template is filled in literally when neither the prompt nor the rest of
  the argument has a dollar sign; a dollar sign in the prompt is read as a replacement pattern, so
  that two of them reach the command line as one and \<open>$&\<close> as the placeholder itself.\<close>

theorem template_literal:
  assumes "CHR ''$'' \<notin> set (a @ prompt @ b)"
  shows "template_args (Some [a @ ''${prompt}'' @ b]) prompt s = [a @ prompt @ b] \<and>
    template_args (Some [''${prompt}'']) ''cost: $$5'' s = [''cost: $5''] \<and>
    template_args (Some [''${prompt}'']) ''echo $&'' s = [''echo ${prompt}'']"
proof (intro conjI)
  show "template_args (Some [a @ ''${prompt}'' @ b]) prompt s = [a @ prompt @ b]"
    using assms replace_one [of a b prompt "''{prompt}''" "[]"]
      replace_none [of "a @ prompt @ b" "''{system}''" "system_text s" "[]"]
    by (simp add: template_args_def replaceAll_def)
  have "replaceAll ''${prompt}'' ''cost: $$5'' ''${prompt}'' = ''cost: $5''"
    "replaceAll ''${prompt}'' ''echo $&'' ''${prompt}'' = ''echo ${prompt}''" by code_simp+
  moreover have "replaceAll ''${system}'' t ''cost: $5'' = ''cost: $5''"
    "replaceAll ''${system}'' t ''echo ${prompt}'' = ''echo ${prompt}''" for t
    by (simp_all add: replaceAll_def starts_with_def)
  ultimately show "template_args (Some [''${prompt}'']) ''cost: $$5'' s = [''cost: $5'']"
    "template_args (Some [''${prompt}'']) ''echo $&'' s = [''echo ${prompt}'']"
    by (simp_all add: template_args_def)
qed

lemma template_literal_witness:
  "template_args (Some [''--ask=${prompt}'']) ''[user] hi'' None = [''--ask=[user] hi'']"
  using template_literal [of "''--ask=''" "''[user] hi''" "[]" None] by simp

end
