(* ===== verification/Provider_Calls.thy ===== *)
theory Provider_Calls
  imports Core_Types Cli_Driver
begin

text \<open>
  The outbound half of \<open>src/providers/router.ts\<close>: the endpoint and model tables, the router's
  state, the events it writes, and one definition per \<open>call...\<close> method, from the key check and
  the request it builds to the answer or the error it makes of the reply.

  A call takes \<open>net\<close>, the answer of \<open>fetch\<close> to a request: the message of the error it rejects
  with, or a reply. A method that throws is \<open>Inl\<close> with the message of the error. The state keeps
  the requests sent. The state also holds \<open>disk\<close>, what the next writes of the event file answer
  (an error's message, or success; when the list is used up every write succeeds). Identifiers,
  time stamps and latencies of the events are not modelled.
\<close>

section \<open>Tables\<close>

fun API_ENDPOINTS :: "string option \<Rightarrow> ProviderId \<Rightarrow> string option" where
  "API_ENDPOINTS env OpencodeGo = Some ''https://api.opencode.ai/v1/messages''"
| "API_ENDPOINTS env AnthropicApi = Some ''https://api.anthropic.com/v1/messages''"
| "API_ENDPOINTS env GeminiApi = Some ''https://generativelanguage.googleapis.com/v1beta/models''"
| "API_ENDPOINTS env Deepseek = Some ''https://api.deepseek.com/v1/chat/completions''"
| "API_ENDPOINTS env DeepseekV4 = Some ''https://api.deepseek.com/v1/chat/completions''"
| "API_ENDPOINTS env Gemini =
    Some ''https://generativelanguage.googleapis.com/v1beta/models/gemini-2.0-flash:generateContent''"
| "API_ENDPOINTS env Tavily = Some ''https://api.tavily.com/search''"
| "API_ENDPOINTS env MoonshotK25 = Some ''https://api.moonshot.cn/v1/chat/completions''"
| "API_ENDPOINTS env MoonshotK26 = Some ''https://api.moonshot.cn/v1/chat/completions''"
| "API_ENDPOINTS env XiaomiMimo = Some ''https://api.mimi.finance/v1/chat/completions''"
| "API_ENDPOINTS env Qwen35Plus =
    Some ''https://dashscope.aliyuncs.com/api/v1/services/aigc/text-generation/generation''"
| "API_ENDPOINTS env Qwen36Plus =
    Some ''https://dashscope.aliyuncs.com/api/v1/services/aigc/text-generation/generation''"
| "API_ENDPOINTS env MinimaxM25 = Some ''https://api.minimax.chat/v1/text/chatcompletion_v2''"
| "API_ENDPOINTS env MinimaxM27 = Some ''https://api.minimax.chat/v1/text/chatcompletion_v2''"
| "API_ENDPOINTS env GlmDeepinfra = Some ''https://api.deepinfra.com/v1/chat/completions''"
| "API_ENDPOINTS env GlmFireworks = Some ''https://api.fireworks.ai/v1/chat/completions''"
| "API_ENDPOINTS env Groq = Some ''https://api.groq.com/openai/v1/chat/completions''"
| "API_ENDPOINTS env KiroAi = Some ''https://api.kiro.ai/v1/chat/completions''"
| "API_ENDPOINTS env Mistral = Some ''https://api.mistral.ai/v1/chat/completions''"
| "API_ENDPOINTS env Openai = Some ''https://api.openai.com/v1/chat/completions''"
| "API_ENDPOINTS env Carnice9bLocal =
    Some (case env of Some u \<Rightarrow> u | None \<Rightarrow> ''http://localhost:8000/v1/chat/completions'')"
| "API_ENDPOINTS env GlmZai = None"
| "API_ENDPOINTS env ClaudeCodeCli = None"
| "API_ENDPOINTS env CodexCli = None"
| "API_ENDPOINTS env GeminiCli = None"

fun MODEL_NAMES :: "ProviderId \<Rightarrow> string" where
  "MODEL_NAMES OpencodeGo = ''claude-sonnet-4-20250514''"
| "MODEL_NAMES AnthropicApi = ''claude-sonnet-4-20250514''"
| "MODEL_NAMES GeminiApi = ''gemini-2.0-flash''"
| "MODEL_NAMES Deepseek = ''deepseek-coder''"
| "MODEL_NAMES DeepseekV4 = ''deepseek-chat''"
| "MODEL_NAMES Gemini = ''gemini-2.0-flash''"
| "MODEL_NAMES Tavily = ''tavily-search''"
| "MODEL_NAMES MoonshotK25 = ''kimi-k2.5''"
| "MODEL_NAMES MoonshotK26 = ''kimi-k2.6''"
| "MODEL_NAMES XiaomiMimo = ''MiMo-V2-8B''"
| "MODEL_NAMES Qwen35Plus = ''qwen-plus''"
| "MODEL_NAMES Qwen36Plus = ''qwen-plus''"
| "MODEL_NAMES MinimaxM25 = ''MiniMax-M2.5''"
| "MODEL_NAMES MinimaxM27 = ''MiniMax-M2.7''"
| "MODEL_NAMES GlmDeepinfra = ''THUDM/glm-4-9b-chat''"
| "MODEL_NAMES GlmFireworks = ''THUDM/glm-4-9b-chat''"
| "MODEL_NAMES GlmZai = ''THUDM/glm-4-9b-chat''"
| "MODEL_NAMES Groq = ''llama-3.3-70b-versatile''"
| "MODEL_NAMES KiroAi = ''claude-sonnet-4-20250514''"
| "MODEL_NAMES Mistral = ''mistral-small-latest''"
| "MODEL_NAMES Openai = ''gpt-4o-mini''"
| "MODEL_NAMES Carnice9bLocal = ''carnice-9b''"
| "MODEL_NAMES ClaudeCodeCli = ''claude-sonnet-4-via-cli''"
| "MODEL_NAMES CodexCli = ''gpt-via-codex-cli''"
| "MODEL_NAMES GeminiCli = ''gemini-via-cli''"

section \<open>Requests and replies\<close>

record http_request =
  url :: string
  headers :: "(string \<times> string) list"
  request_body :: json
  timeout_ms :: nat

text \<open>\<open>reply_json\<close> is what \<open>response.json()\<close> resolves or rejects with.\<close>

record http_reply =
  reply_status :: nat
  statusText :: string
  reply_text :: string
  reply_json :: "string + json"

definition reply_ok :: "http_reply \<Rightarrow> bool" where
  "reply_ok rep \<longleftrightarrow> 200 \<le> reply_status rep \<and> reply_status rep < 300"

section \<open>The state of the router\<close>

datatype api_key = OpencodeKey | AnthropicKey | GeminiDirectKey | DeepseekKey | GeminiKey | TavilyKey
  | MoonshotKey | XiaomiKey | AlibabaKey | MinimaxKey | DeepinfraKey | FireworksKey | ZaiKey
  | GroqKey | MistralKey | OpenaiKey

text \<open>The name under which each key is looked up when the configuration has none.\<close>

fun key_name :: "api_key \<Rightarrow> string" where
  "key_name OpencodeKey = ''opencode-go''"
| "key_name AnthropicKey = ''anthropic-api''"
| "key_name GeminiDirectKey = ''gemini-api''"
| "key_name DeepseekKey = ''deepseek''"
| "key_name GeminiKey = ''gemini''"
| "key_name TavilyKey = ''tavily''"
| "key_name MoonshotKey = ''moonshot''"
| "key_name XiaomiKey = ''xiaomi''"
| "key_name AlibabaKey = ''alibaba''"
| "key_name MinimaxKey = ''minimax''"
| "key_name DeepinfraKey = ''deepinfra''"
| "key_name FireworksKey = ''fireworks''"
| "key_name ZaiKey = ''zai''"
| "key_name GroqKey = ''groq''"
| "key_name MistralKey = ''mistral''"
| "key_name OpenaiKey = ''openai''"

record ProviderHealth =
  failureCount :: nat
  lastFailureTime :: "int option"
  isOnCooldown :: bool
  lastErrorClass :: "ProviderErrorClass option"
  needsAuthRefresh :: bool
  retryAfterMs :: "rat option"
  cooldownExpiresAt :: "rat option"

record RouterConfig =
  cfg_key :: "api_key \<Rightarrow> string option"
  cfg_cooldownMinutes :: "rat option"
  cfg_maxFailures :: "nat option"
  cfg_simulateFailure :: "bool option"
  cfg_eventLedger :: bool
  cfg_replayMode :: "bool option"

text \<open>An event of the router's own file: type, payload, severity, and of the metadata the provider
  and the error class.\<close>

datatype payload_value = PJson json | PNum "rat option"

record router_event =
  re_type :: string
  re_payload :: "(string \<times> payload_value) list"
  re_severity :: EventSeverity
  re_provider :: "ProviderId option"
  re_errorClass :: "ProviderErrorClass option"

text \<open>
  \<open>clock\<close> is \<open>Date.now()\<close>, \<open>timers\<close> the cooldown removals scheduled and not yet run, with their due
  times. \<open>ledger_answers\<close> is what the shared event ledger answers to the next \<open>log\<close> calls.
\<close>

record router =
  keys :: "api_key \<Rightarrow> string"
  carnice_base :: "string option"
  auth_cooldown :: rat
  providerHealth :: "(ProviderId, ProviderHealth) dict"
  cooldownMinutes :: rat
  maxFailuresBeforeCooldown :: nat
  simulateFailure :: bool
  failureSimulated :: bool
  eventLedger :: bool
  replayMode :: bool
  cliRegistry :: "(string, CliDriverConfig) dict option"
  events :: "router_event list"
  llm_requests :: "(ProviderId \<times> string \<times> LLMMessage list) list"
  sent :: "http_request list"
  disk :: "string option list"
  ledger_answers :: "string option list"
  clock :: int
  timers :: "(int \<times> ProviderId) list"

definition fresh_health :: ProviderHealth where
  "fresh_health = \<lparr>failureCount = 0, lastFailureTime = None, isOnCooldown = False,
     lastErrorClass = None, needsAuthRefresh = False, retryAfterMs = None, cooldownExpiresAt = None\<rparr>"

definition allProviders :: "ProviderId list" where
  "allProviders = [OpencodeGo, AnthropicApi, GeminiApi, Deepseek, DeepseekV4, Gemini, Tavily,
     MoonshotK25, MoonshotK26, XiaomiMimo, Qwen35Plus, Qwen36Plus, MinimaxM25, MinimaxM27,
     GlmDeepinfra, GlmFireworks, GlmZai, Groq, KiroAi, Mistral, Openai]"

text \<open>\<open>APOHARA_COOLDOWN_AUTH_MS\<close>, read as a number (\<open>None\<close> when it is not finite).\<close>

definition COOLDOWN_AUTH_MS :: "rat option \<Rightarrow> rat" where
  "COOLDOWN_AUTH_MS env = (case env of Some e \<Rightarrow> if 0 < e then e else 3600000 | None \<Rightarrow> 3600000)"

definition resolve_key :: "(string \<Rightarrow> string option) \<Rightarrow> RouterConfig \<Rightarrow> api_key \<Rightarrow> string" where
  "resolve_key getProviderKey cfg k =
    (case cfg_key cfg k of
       Some (c # cs) \<Rightarrow> c # cs
     | _ \<Rightarrow> (case getProviderKey (key_name k) of Some s \<Rightarrow> s | None \<Rightarrow> []))"

definition new_router ::
  "(string \<Rightarrow> string option) \<Rightarrow> string option \<Rightarrow> rat option \<Rightarrow> RouterConfig \<Rightarrow> int \<Rightarrow> router" where
  "new_router getProviderKey carnice auth_env cfg now =
    \<lparr>keys = resolve_key getProviderKey cfg, carnice_base = carnice,
     auth_cooldown = COOLDOWN_AUTH_MS auth_env,
     providerHealth = foldl (\<lambda>m p. dset p fresh_health m) [] allProviders,
     cooldownMinutes = (case cfg_cooldownMinutes cfg of Some m \<Rightarrow> m | None \<Rightarrow> 5),
     maxFailuresBeforeCooldown = (case cfg_maxFailures cfg of Some m \<Rightarrow> m | None \<Rightarrow> 3),
     simulateFailure = (case cfg_simulateFailure cfg of Some b \<Rightarrow> b | None \<Rightarrow> False),
     failureSimulated = False, eventLedger = cfg_eventLedger cfg,
     replayMode = (case cfg_replayMode cfg of Some b \<Rightarrow> b | None \<Rightarrow> False),
     cliRegistry = None, events = [], llm_requests = [], sent = [], disk = [], ledger_answers = [],
     clock = now, timers = []\<rparr>"

section \<open>Steps\<close>

text \<open>\<open>await m\<close>, then the rest of the method, unless \<open>m\<close> throws.\<close>

definition and_then :: "(string + 'a) \<times> 's \<Rightarrow> ('a \<Rightarrow> 's \<Rightarrow> (string + 'b) \<times> 's) \<Rightarrow> (string + 'b) \<times> 's" where
  "and_then m f = (case m of (Inl e, s) \<Rightarrow> (Inl e, s) | (Inr x, s) \<Rightarrow> f x s)"

text \<open>
  \<open>logEvent\<close>: make the directory, append a line. The event counts as written when the append
  succeeds; an error of either rejects the call.
\<close>

definition logEvent :: "router_event \<Rightarrow> router \<Rightarrow> (string + unit) \<times> router" where
  "logEvent ev r = (case disk r of
     Some e # ds \<Rightarrow> (Inl e, r\<lparr>disk := ds\<rparr>)
   | None # ds \<Rightarrow> (Inr (), r\<lparr>disk := ds, events := events r @ [ev]\<rparr>)
   | [] \<Rightarrow> (Inr (), r\<lparr>events := events r @ [ev]\<rparr>))"

definition pstr :: "string \<Rightarrow> payload_value" where "pstr s = PJson (JStr s)"
definition pnat :: "nat \<Rightarrow> payload_value" where "pnat n = PJson (JNum (show_nat n))"

definition fetch :: "(http_request \<Rightarrow> string + http_reply) \<Rightarrow> http_request \<Rightarrow> router \<Rightarrow>
    (string + http_reply) \<times> router" where
  "fetch net req r = (net req, r\<lparr>sent := sent r @ [req]\<rparr>)"

definition API_URL :: "router \<Rightarrow> ProviderId \<Rightarrow> string" where
  "API_URL r p = (case API_ENDPOINTS (carnice_base r) p of Some u \<Rightarrow> u | None \<Rightarrow> ''undefined'')"

definition json_headers :: "(string \<times> string) list" where
  "json_headers = [(''Content-Type'', ''application/json'')]"

definition bearer :: "string \<Rightarrow> (string \<times> string) list" where
  "bearer k = json_headers @ [(''Authorization'', ''Bearer '' @ k)]"

definition message_json :: "LLMMessage \<Rightarrow> json" where
  "message_json m = JObj [(''role'', JStr (message_role (msg_role m))), (''content'', JStr (msg_content m))]"

definition messages_json :: "LLMMessage list \<Rightarrow> json" where
  "messages_json ms = JArr (map message_json ms)"

definition withReplayDefaults :: "router \<Rightarrow> (string \<times> json) list \<Rightarrow> json" where
  "withReplayDefaults r body =
     JObj (if replayMode r then dset ''temperature'' (JNum ''0'') body else body)"

text \<open>\<open>`${name} API Error: ${response.status} ${response.statusText}`\<close>\<close>

definition api_error :: "string \<Rightarrow> http_reply \<Rightarrow> string" where
  "api_error name rep = name @ '' API Error: '' @ show_nat (reply_status rep) @ '' '' @ statusText rep"

definition api_error_text :: "string \<Rightarrow> http_reply \<Rightarrow> string" where
  "api_error_text name rep = api_error name rep @ '' '' @ reply_text rep"

definition zero :: json where "zero = JNum ''0''"

definition chat_answer :: "json \<Rightarrow> json" where
  "chat_answer v = or_else (opt_get (opt_get (opt_first (opt_get v ''choices'')) ''message'') ''content'') (JStr [])"

text \<open>The answer of an OpenAI-style endpoint: \<open>choices[0].message.content\<close> and \<open>usage\<close>.\<close>

definition chat_response :: "ProviderId \<Rightarrow> string \<Rightarrow> json \<Rightarrow> json \<Rightarrow> LLMResponse" where
  "chat_response p model answer data =
    (let u = opt_get data ''usage'' in
     \<lparr>resp_content = answer, resp_provider = provider_name p, resp_model = model,
      promptTokens = or_else (opt_get u ''prompt_tokens'') zero,
      completionTokens = or_else (opt_get u ''completion_tokens'') zero,
      totalTokens = Count (or_else (opt_get u ''total_tokens'') zero)\<rparr>)"

definition read_chat :: "ProviderId \<Rightarrow> string \<Rightarrow> json \<Rightarrow> string + LLMResponse" where
  "read_chat p model data = (case js_get data ''choices'' of
     Inl e \<Rightarrow> Inl e | Inr c \<Rightarrow> Inr (chat_response p model (chat_answer data) data))"

text \<open>Send, throw \<open>bad reply\<close> on an error status, else read the body of the reply.\<close>

definition exchange :: "(http_request \<Rightarrow> string + http_reply) \<Rightarrow> http_request \<Rightarrow> (http_reply \<Rightarrow> string) \<Rightarrow>
    (json \<Rightarrow> string + LLMResponse) \<Rightarrow> router \<Rightarrow> (string + LLMResponse) \<times> router" where
  "exchange net req bad read r =
    and_then (fetch net req r) (\<lambda>rep r'.
      if \<not> reply_ok rep then (Inl (bad rep), r')
      else (case reply_json rep of Inl e \<Rightarrow> Inl e | Inr data \<Rightarrow> read data, r'))"

definition chat_request :: "string \<Rightarrow> (string \<times> string) list \<Rightarrow> json \<Rightarrow> http_request" where
  "chat_request u hs body = \<lparr>url = u, headers = hs, request_body = body, timeout_ms = 30000\<rparr>"

definition model_and_messages :: "string \<Rightarrow> LLMMessage list \<Rightarrow> (string \<times> json) list" where
  "model_and_messages model ms = [(''model'', JStr model), (''messages'', messages_json ms)]"

section \<open>Anthropic-style endpoints\<close>

text \<open>\<open>data.content?.find((b) => b.type === "text")?.text || ""\<close>\<close>

fun find_text :: "json list \<Rightarrow> string + json" where
  "find_text [] = Inr JUndef"
| "find_text (b # bs) = (case js_get b ''type'' of Inl e \<Rightarrow> Inl e
     | Inr t \<Rightarrow> if t = JStr ''text'' then Inr (opt_get b ''text'') else find_text bs)"

definition read_anthropic :: "ProviderId \<Rightarrow> json \<Rightarrow> string + LLMResponse" where
  "read_anthropic p data = (case js_get data ''content'' of Inl e \<Rightarrow> Inl e
   | Inr c \<Rightarrow>
     (case (case c of JUndef \<Rightarrow> Inr JUndef | JNull \<Rightarrow> Inr JUndef | JArr bs \<Rightarrow> find_text bs | _ \<Rightarrow> Inl type_error) of
        Inl e \<Rightarrow> Inl e
      | Inr t \<Rightarrow>
        let u = opt_get data ''usage'';
            i = or_else (opt_get u ''input_tokens'') zero;
            out = or_else (opt_get u ''output_tokens'') zero
        in Inr \<lparr>resp_content = or_else t (JStr []), resp_provider = provider_name p, resp_model = MODEL_NAMES p,
             promptTokens = i, completionTokens = out, totalTokens = Plus i out\<rparr>))"

definition anthropic_body :: "ProviderId \<Rightarrow> LLMMessage list \<Rightarrow> (string \<times> json) list" where
  "anthropic_body p ms =
    (let system = join [newline] (map msg_content (filter (\<lambda>m. msg_role m = MSystem) ms)) in
     [(''model'', JStr (MODEL_NAMES p)), (''max_tokens'', JNum ''8096''),
      (''messages'', messages_json (filter (\<lambda>m. msg_role m \<noteq> MSystem) ms))] @
     (if system \<noteq> [] then [(''system'', JStr system)] else []))"

definition anthropic_request :: "router \<Rightarrow> ProviderId \<Rightarrow> string \<Rightarrow> nat \<Rightarrow> LLMMessage list \<Rightarrow> http_request" where
  "anthropic_request r p k t ms =
    \<lparr>url = API_URL r p,
     headers = json_headers @ [(''x-api-key'', k), (''anthropic-version'', ''2023-06-01'')],
     request_body = withReplayDefaults r (anthropic_body p ms), timeout_ms = t\<rparr>"

text \<open>The last four characters of a key, all that the events show of it.\<close>

definition last_four :: "string \<Rightarrow> string" where
  "last_four k = drop (length k - 4) k"

definition api_call_failed :: "ProviderId \<Rightarrow> string option \<Rightarrow> http_reply \<Rightarrow> router_event" where
  "api_call_failed p k rep = \<lparr>re_type = ''api_call_failed'',
     re_payload = [(''provider'', pstr (provider_name p)), (''status'', pnat (reply_status rep))] @
       (case k of None \<Rightarrow> [] | Some s \<Rightarrow> [(''keyLastFour'', pstr (last_four s))]) @
       [(''error'', pstr (reply_text rep))],
     re_severity = Error, re_provider = Some p, re_errorClass = None\<rparr>"

definition key_rejected :: "ProviderId \<Rightarrow> string \<Rightarrow> string \<Rightarrow> router_event" where
  "key_rejected p k why = \<lparr>re_type = ''api_key_validation_failed'',
     re_payload = [(''provider'', pstr (provider_name p)), (''keyLastFour'', pstr (last_four k)),
       (''reason'', pstr why)],
     re_severity = Error, re_provider = Some p, re_errorClass = None\<rparr>"

text \<open>As \<open>exchange\<close>, with an event for an error status before the throw.\<close>

definition exchange_logged :: "(http_request \<Rightarrow> string + http_reply) \<Rightarrow> http_request \<Rightarrow>
    (http_reply \<Rightarrow> router_event) \<Rightarrow> (http_reply \<Rightarrow> string) \<Rightarrow> (json \<Rightarrow> string + LLMResponse) \<Rightarrow>
    router \<Rightarrow> (string + LLMResponse) \<times> router" where
  "exchange_logged net req ev bad read r =
    and_then (fetch net req r) (\<lambda>rep r'.
      if \<not> reply_ok rep then and_then (logEvent (ev rep) r') (\<lambda>u r''. (Inl (bad rep), r''))
      else (case reply_json rep of Inl e \<Rightarrow> Inl e | Inr data \<Rightarrow> read data, r'))"

definition callOpenCode ::
  "(http_request \<Rightarrow> string + http_reply) \<Rightarrow> LLMMessage list \<Rightarrow> router \<Rightarrow> (string + LLMResponse) \<times> router" where
  "callOpenCode net ms r =
    (if simulateFailure r \<and> \<not> failureSimulated r then
       (Inl ''OpenCode Go API Error: 429 Rate Limit Exceeded'', r\<lparr>failureSimulated := True\<rparr>)
     else if keys r OpencodeKey = [] then
       (Inl ''OpenCode API key not configured. Keys must start with 'oc-' or 'opencode-'.'', r)
     else exchange_logged net (anthropic_request r OpencodeGo (keys r OpencodeKey) 30000 ms)
       (api_call_failed OpencodeGo None) (api_error ''OpenCode Go'') (read_anthropic OpencodeGo) r)"

definition callAnthropicApi ::
  "(http_request \<Rightarrow> string + http_reply) \<Rightarrow> LLMMessage list \<Rightarrow> router \<Rightarrow> (string + LLMResponse) \<times> router" where
  "callAnthropicApi net ms r =
    (let k = keys r AnthropicKey in
     if k = [] then
       (Inl ''Anthropic API key not configured. Keys must start with 'sk-ant-api03-'.'', r)
     else if \<not> starts_with k ''sk-ant-api03-'' then
       and_then (logEvent (key_rejected AnthropicApi k ''format mismatch: must start with sk-ant-api03-'') r)
         (\<lambda>u r'. (Inl ''Invalid Anthropic API key format. Keys must start with 'sk-ant-api03-'. OAuth tokens (sk-ant-oat01-*) are not supported.'', r'))
     else exchange_logged net (anthropic_request r AnthropicApi k 60000 ms)
       (api_call_failed AnthropicApi (Some k)) (api_error ''Anthropic'') (read_anthropic AnthropicApi) r)"

section \<open>Google endpoints\<close>

definition read_gemini :: "ProviderId \<Rightarrow> string \<Rightarrow> json \<Rightarrow> string + LLMResponse" where
  "read_gemini p model data = (case js_get data ''candidates'' of Inl e \<Rightarrow> Inl e
   | Inr c \<Rightarrow>
     let u = opt_get data ''usageMetadata'' in
     Inr \<lparr>resp_content = or_else (opt_get (opt_first (opt_get (opt_get (opt_first c) ''content'') ''parts''))
            ''text'') (JStr []),
          resp_provider = provider_name p, resp_model = model,
          promptTokens = or_else (opt_get u ''promptTokenCount'') zero,
          completionTokens = or_else (opt_get u ''candidatesTokenCount'') zero,
          totalTokens = Count (or_else (opt_get u ''totalTokenCount'') zero)\<rparr>)"

text \<open>The two callers differ in the role they send for a system message.\<close>

definition gemini_body :: "(MessageRole \<Rightarrow> string) \<Rightarrow> LLMMessage list \<Rightarrow> json" where
  "gemini_body role ms = JObj [(''contents'', JArr (map (\<lambda>m.
     JObj [(''role'', JStr (role (msg_role m))),
           (''parts'', JArr [JObj [(''text'', JStr (msg_content m))]])]) ms))]"

definition callGeminiApi ::
  "(http_request \<Rightarrow> string + http_reply) \<Rightarrow> LLMMessage list \<Rightarrow> router \<Rightarrow> (string + LLMResponse) \<times> router" where
  "callGeminiApi net ms r =
    (let k = keys r GeminiDirectKey; model = MODEL_NAMES GeminiApi in
     if k = [] then
       (Inl ''Google AI Studio API key not configured. Keys must start with 'AIza'.'', r)
     else if \<not> starts_with k ''AIza'' then
       and_then (logEvent (key_rejected GeminiApi k ''format mismatch: must start with AIza'') r)
         (\<lambda>u r'. (Inl ''Invalid Google AI Studio API key format. Keys must start with 'AIza'.'', r'))
     else exchange_logged net
       \<lparr>url = API_URL r GeminiApi @ ''/'' @ model @ '':generateContent?key='' @ k,
        headers = json_headers @ [(''x-goog-api-key'', k)],
        request_body = gemini_body (\<lambda>role. if role = MAssistant then ''model'' else ''user'') ms,
        timeout_ms = 30000\<rparr>
       (api_call_failed GeminiApi (Some k)) (api_error ''Google AI Studio'') (read_gemini GeminiApi model) r)"

definition callGemini ::
  "(http_request \<Rightarrow> string + http_reply) \<Rightarrow> LLMMessage list \<Rightarrow> router \<Rightarrow> (string + LLMResponse) \<times> router" where
  "callGemini net ms r = exchange net
     (chat_request (API_URL r Gemini @ ''?key='' @ keys r GeminiKey) json_headers
       (gemini_body (\<lambda>role. if role = MAssistant then ''model'' else message_role role) ms))
     (api_error ''Gemini'') (read_gemini Gemini ''gemini-2.0-flash'') r"

section \<open>OpenAI-style endpoints\<close>

definition callZai ::
  "(http_request \<Rightarrow> string + http_reply) \<Rightarrow> LLMMessage list \<Rightarrow> string \<Rightarrow> router \<Rightarrow> (string + LLMResponse) \<times> router" where
  "callZai net ms model r =
    (if keys r ZaiKey = [] then (Inl ''Z.ai API key not configured'', r)
     else exchange net (chat_request ''https://api.siliconflow.cn/v1/chat/completions'' (bearer (keys r ZaiKey))
      (JObj (model_and_messages model ms)))
      (api_error ''Z.ai'') (read_chat GlmZai model) r)"

definition callDeepSeek ::
  "(http_request \<Rightarrow> string + http_reply) \<Rightarrow> LLMMessage list \<Rightarrow> router \<Rightarrow> (string + LLMResponse) \<times> router" where
  "callDeepSeek net ms r =
    exchange net (chat_request (API_URL r Deepseek) (bearer (keys r DeepseekKey))
      (withReplayDefaults r (model_and_messages ''deepseek-coder'' ms)))
      (api_error ''DeepSeek'') (read_chat Deepseek ''deepseek-coder'') r"

text \<open>
  Tavily answers a search, not a chat: the first user message (or the first message) is the query,
  and the results are rendered as text. \<open>forEach\<close> exists on arrays only.
\<close>

definition tavily_query :: "LLMMessage list \<Rightarrow> string" where
  "tavily_query ms =
    (let user = (case List.find (\<lambda>m. msg_role m = MUser) ms of Some m \<Rightarrow> msg_content m | None \<Rightarrow> [])
     in if user \<noteq> [] then user else (case ms of [] \<Rightarrow> [] | m # rest \<Rightarrow> msg_content m))"

fun tavily_results :: "nat \<Rightarrow> json list \<Rightarrow> string + string" where
  "tavily_results i [] = Inr []"
| "tavily_results i (v # vs) =
    (case js_get v ''title'' of Inl e \<Rightarrow> Inl e
     | Inr title \<Rightarrow>
       (case tavily_results (Suc i) vs of Inl e \<Rightarrow> Inl e
        | Inr rest \<Rightarrow> Inr (show_nat (Suc i) @ ''. '' @ js_string title @ '': '' @ js_string (opt_get v ''content'') @
            [newline] @ ''URL: '' @ js_string (opt_get v ''url'') @ [newline, newline] @ rest)))"

definition read_tavily :: "string \<Rightarrow> json \<Rightarrow> string + LLMResponse" where
  "read_tavily query data = (case js_get data ''results'' of Inl e \<Rightarrow> Inl e
   | Inr results \<Rightarrow>
     let answer = or_else (opt_get data ''answer'') (JStr []);
         summary = (if truthy answer then ''Summary: '' @ js_string answer @ [newline, newline] else [])
     in (case (case or_else results (JArr []) of JArr vs \<Rightarrow> tavily_results 0 vs | _ \<Rightarrow> Inl type_error) of
           Inl e \<Rightarrow> Inl e
         | Inr rendered \<Rightarrow>
           let text = summary @ ''Search Results:'' @ [newline] @ rendered
           in Inr \<lparr>resp_content = JStr text, resp_provider = ''tavily'', resp_model = ''tavily-search'',
                promptTokens = JNum (show_nat (length query)),
                completionTokens = JNum (show_nat (length text)),
                totalTokens = Count (JNum (show_nat (length query + length text)))\<rparr>))"

definition callTavily ::
  "(http_request \<Rightarrow> string + http_reply) \<Rightarrow> LLMMessage list \<Rightarrow> router \<Rightarrow> (string + LLMResponse) \<times> router" where
  "callTavily net ms r =
    (let query = tavily_query ms in
     if keys r TavilyKey = [] then
       (Inl ''Tavily API key not configured. Get one at https://app.tavily.com/'', r)
     else if query = [] then (Inl ''Tavily search requires a query'', r)
     else exchange net (chat_request (API_URL r Tavily) (bearer (keys r TavilyKey))
       (JObj [(''query'', JStr query), (''max_results'', JNum ''10''), (''include_answer'', JBool True),
              (''include_raw_content'', JBool False), (''include_images'', JBool False)]))
       (api_error ''Tavily'') (read_tavily query) r)"

definition callDeepSeekV4 ::
  "(http_request \<Rightarrow> string + http_reply) \<Rightarrow> LLMMessage list \<Rightarrow> router \<Rightarrow> (string + LLMResponse) \<times> router" where
  "callDeepSeekV4 net ms r =
    exchange net (chat_request (API_URL r DeepseekV4) (bearer (keys r DeepseekKey))
      (JObj (model_and_messages ''deepseek-chat'' ms)))
      (api_error ''DeepSeek V4'') (read_chat DeepseekV4 ''deepseek-chat'') r"

definition callMoonshot ::
  "(http_request \<Rightarrow> string + http_reply) \<Rightarrow> LLMMessage list \<Rightarrow> string \<Rightarrow> router \<Rightarrow> (string + LLMResponse) \<times> router" where
  "callMoonshot net ms model r =
    (if keys r MoonshotKey = [] then (Inl ''Moonshot API key not configured'', r)
     else exchange net (chat_request (API_URL r MoonshotK25) (bearer (keys r MoonshotKey))
      (JObj (model_and_messages model ms)))
      (api_error ''Moonshot (Kimi)'') (read_chat MoonshotK26 model) r)"

definition callXiaomi ::
  "(http_request \<Rightarrow> string + http_reply) \<Rightarrow> LLMMessage list \<Rightarrow> router \<Rightarrow> (string + LLMResponse) \<times> router" where
  "callXiaomi net ms r =
    (if keys r XiaomiKey = [] then (Inl ''Xiaomi API key not configured'', r)
     else exchange net (chat_request (API_URL r XiaomiMimo) (bearer (keys r XiaomiKey))
      (JObj (model_and_messages ''MiMo-V2-8B'' ms)))
      (api_error ''Xiaomi MiMo'') (read_chat XiaomiMimo ''MiMo-V2-8B'') r)"

definition read_qwen :: "string \<Rightarrow> json \<Rightarrow> string + LLMResponse" where
  "read_qwen model data = (case js_get data ''output'' of Inl e \<Rightarrow> Inl e
   | Inr out \<Rightarrow>
     Inr (chat_response Qwen36Plus model
       (or_else (opt_get (opt_get (opt_first (opt_get out ''choices'')) ''message'') ''content'')
         (or_else (opt_get out ''text'') (JStr []))) data))"

definition callQwen ::
  "(http_request \<Rightarrow> string + http_reply) \<Rightarrow> LLMMessage list \<Rightarrow> string \<Rightarrow> router \<Rightarrow> (string + LLMResponse) \<times> router" where
  "callQwen net ms model r =
    (if keys r AlibabaKey = [] then (Inl ''Alibaba API key not configured'', r)
     else exchange net (chat_request (API_URL r Qwen36Plus) (bearer (keys r AlibabaKey))
       (JObj [(''model'', JStr model), (''input'', JObj [(''messages'', messages_json ms)])]))
       (api_error ''Qwen (Alibaba)'') (read_qwen model) r)"

definition callMiniMax ::
  "(http_request \<Rightarrow> string + http_reply) \<Rightarrow> LLMMessage list \<Rightarrow> string \<Rightarrow> router \<Rightarrow> (string + LLMResponse) \<times> router" where
  "callMiniMax net ms model r =
    (if keys r MinimaxKey = [] then (Inl ''MiniMax API key not configured'', r)
     else exchange net (chat_request (API_URL r MinimaxM27) (bearer (keys r MinimaxKey))
      (JObj (model_and_messages model ms)))
      (api_error ''MiniMax'') (read_chat MinimaxM27 model) r)"

definition callDeepInfra ::
  "(http_request \<Rightarrow> string + http_reply) \<Rightarrow> LLMMessage list \<Rightarrow> string \<Rightarrow> router \<Rightarrow> (string + LLMResponse) \<times> router" where
  "callDeepInfra net ms model r =
    (if keys r DeepinfraKey = [] then (Inl ''DeepInfra API key not configured'', r)
     else exchange net (chat_request (API_URL r GlmDeepinfra) (bearer (keys r DeepinfraKey))
      (JObj (model_and_messages model ms)))
      (api_error ''DeepInfra'') (read_chat GlmDeepinfra model) r)"

definition callFireworks ::
  "(http_request \<Rightarrow> string + http_reply) \<Rightarrow> LLMMessage list \<Rightarrow> string \<Rightarrow> router \<Rightarrow> (string + LLMResponse) \<times> router" where
  "callFireworks net ms model r =
    (if keys r FireworksKey = [] then (Inl ''Fireworks API key not configured'', r)
     else exchange net (chat_request (API_URL r GlmFireworks) (bearer (keys r FireworksKey))
      (JObj (model_and_messages model ms)))
      (api_error ''Fireworks AI'') (read_chat GlmFireworks model) r)"

definition callGroq ::
  "(http_request \<Rightarrow> string + http_reply) \<Rightarrow> LLMMessage list \<Rightarrow> router \<Rightarrow> (string + LLMResponse) \<times> router" where
  "callGroq net ms r =
    (if keys r GroqKey = [] then (Inl ''Groq API key not configured. Get one at https://console.groq.com/keys'', r)
     else exchange net (chat_request (API_URL r Groq) (bearer (keys r GroqKey))
      (JObj (model_and_messages ''llama-3.3-70b-versatile'' ms)))
      (api_error_text ''Groq'') (read_chat Groq ''llama-4-maverick-17b-128e-instruct'') r)"

definition callKiroAI ::
  "(http_request \<Rightarrow> string + http_reply) \<Rightarrow> LLMMessage list \<Rightarrow> router \<Rightarrow> (string + LLMResponse) \<times> router" where
  "callKiroAI net ms r =
    exchange net (chat_request (API_URL r KiroAi) json_headers
      (JObj (model_and_messages (MODEL_NAMES KiroAi) ms)))
      (api_error_text ''Kiro AI'') (read_chat KiroAi (MODEL_NAMES KiroAi)) r"

definition callMistral ::
  "(http_request \<Rightarrow> string + http_reply) \<Rightarrow> LLMMessage list \<Rightarrow> router \<Rightarrow> (string + LLMResponse) \<times> router" where
  "callMistral net ms r =
    (if keys r MistralKey = [] then (Inl ''Mistral API key not configured. Get one at https://console.mistral.ai/'', r)
     else exchange net (chat_request (API_URL r Mistral) (bearer (keys r MistralKey))
      (JObj (model_and_messages (MODEL_NAMES Mistral) ms)))
      (api_error_text ''Mistral'') (read_chat Mistral (MODEL_NAMES Mistral)) r)"

definition callOpenAI ::
  "(http_request \<Rightarrow> string + http_reply) \<Rightarrow> LLMMessage list \<Rightarrow> router \<Rightarrow> (string + LLMResponse) \<times> router" where
  "callOpenAI net ms r =
    (if keys r OpenaiKey = [] then (Inl ''OpenAI API key not configured. Get one at https://platform.openai.com/'', r)
     else exchange net (chat_request (API_URL r Openai) (bearer (keys r OpenaiKey))
      (withReplayDefaults r (model_and_messages (MODEL_NAMES Openai) ms)))
      (api_error_text ''OpenAI'') (read_chat Openai (MODEL_NAMES Openai)) r)"

text \<open>
  The local server: a rejected \<open>fetch\<close> is rethrown with a hint, and a success writes a savings
  event. The dash of the message is the three bytes of U+2014.
\<close>

definition carnice_unreachable :: "router \<Rightarrow> string \<Rightarrow> string" where
  "carnice_unreachable r e = ''Carnice local server unreachable at '' @ API_URL r Carnice9bLocal @ '' '' @
     [CHR 0xE2, CHR 0x80, CHR 0x94] @ '' is llama-cpp-python running? Original: '' @ e"

definition savings_event :: "json \<Rightarrow> router_event" where
  "savings_event tokens = \<lparr>re_type = ''contextforge_savings'',
     re_payload = [(''provider'', pstr ''carnice-9b-local''), (''model'', pstr (MODEL_NAMES Carnice9bLocal)),
       (''tokens'', PJson tokens), (''costUsdLocal'', PNum (Some 0)),
       (''costUsdBaselineEstimate'',
         PNum (map_option (\<lambda>t. fmul (fdiv t 1000000) (flt (59 / 100))) (js_number tokens)))],
     re_severity = Info, re_provider = None, re_errorClass = None\<rparr>"

definition callCarnice ::
  "(http_request \<Rightarrow> string + http_reply) \<Rightarrow> LLMMessage list \<Rightarrow> router \<Rightarrow> (string + LLMResponse) \<times> router" where
  "callCarnice net ms r =
    (let model = MODEL_NAMES Carnice9bLocal;
         req = \<lparr>url = API_URL r Carnice9bLocal, headers = json_headers,
           request_body = withReplayDefaults r (model_and_messages model ms), timeout_ms = 60000\<rparr>
     in case fetch net req r of
          (Inl e, r1) \<Rightarrow> (Inl (carnice_unreachable r e), r1)
        | (Inr rep, r1) \<Rightarrow>
          if \<not> reply_ok rep then
            (Inl (''Carnice local server error: '' @ show_nat (reply_status rep) @ '' '' @ statusText rep @
                  '' '' @ reply_text rep), r1)
          else (case reply_json rep of Inl e \<Rightarrow> (Inl e, r1)
            | Inr data \<Rightarrow>
              (case js_get data ''usage'' of Inl e \<Rightarrow> (Inl e, r1)
               | Inr u \<Rightarrow>
                 and_then (logEvent (savings_event (or_else (opt_get u ''total_tokens'') zero)) r1)
                   (\<lambda>x r2. (Inr (chat_response Carnice9bLocal model (chat_answer data) data), r2)))))"

section \<open>Dispatch\<close>

text \<open>\<open>this.eventLedger.log("llm_request", ...)\<close>, when there is a shared ledger.\<close>

definition logLLMRequest :: "ProviderId \<Rightarrow> LLMMessage list \<Rightarrow> router \<Rightarrow> (string + unit) \<times> router" where
  "logLLMRequest p ms r =
    (if \<not> eventLedger r then (Inr (), r)
     else let r' = r\<lparr>llm_requests := llm_requests r @ [(p, MODEL_NAMES p, ms)]\<rparr> in
       (case ledger_answers r of
          Some e # as \<Rightarrow> (Inl e, r\<lparr>ledger_answers := as\<rparr>)
        | None # as \<Rightarrow> (Inr (), r'\<lparr>ledger_answers := as\<rparr>)
        | [] \<Rightarrow> (Inr (), r')))"

text \<open>
  What a call meets outside the router: the network, the drivers file (read once, when the first
  command line driver is called) and the processes it starts.
\<close>

record outside =
  net :: "http_request \<Rightarrow> string + http_reply"
  drivers_file :: "UserDriver option list option"
  run_process :: "string \<Rightarrow> string list \<Rightarrow> string option \<Rightarrow> nat \<Rightarrow> process_end"

definition router_callCliDriver :: "outside \<Rightarrow> ProviderId \<Rightarrow> LLMMessage list \<Rightarrow> router \<Rightarrow> (string + LLMResponse) \<times> router" where
  "router_callCliDriver w p ms r =
    (let reg = (case cliRegistry r of Some reg \<Rightarrow> reg | None \<Rightarrow> loadCliDriverRegistry (drivers_file w));
         r' = r\<lparr>cliRegistry := Some reg\<rparr>
     in case dget reg (provider_name p) of
          None \<Rightarrow> (Inl (''CLI driver provider '' @ quoted (provider_name p) @
            '' not registered. Available: '' @ join '', '' (dkeys reg)), r')
        | Some cfg \<Rightarrow> (callCliDriver (run_process w) cfg ms, r'))"

definition dispatch_call ::
  "outside \<Rightarrow> ProviderId \<Rightarrow> LLMMessage list \<Rightarrow> router \<Rightarrow> (string + LLMResponse) \<times> router" where
  "dispatch_call w p ms r = (case p of
     OpencodeGo \<Rightarrow> callOpenCode (net w) ms r
   | AnthropicApi \<Rightarrow> callAnthropicApi (net w) ms r
   | GeminiApi \<Rightarrow> callGeminiApi (net w) ms r
   | Deepseek \<Rightarrow> callDeepSeek (net w) ms r
   | DeepseekV4 \<Rightarrow> callDeepSeekV4 (net w) ms r
   | Gemini \<Rightarrow> callGemini (net w) ms r
   | Tavily \<Rightarrow> callTavily (net w) ms r
   | MoonshotK25 \<Rightarrow> callMoonshot (net w) ms ''kimi-k2.5'' r
   | MoonshotK26 \<Rightarrow> callMoonshot (net w) ms ''kimi-k2.6'' r
   | XiaomiMimo \<Rightarrow> callXiaomi (net w) ms r
   | Qwen35Plus \<Rightarrow> callQwen (net w) ms ''qwen-plus'' r
   | Qwen36Plus \<Rightarrow> callQwen (net w) ms ''qwen-plus'' r
   | MinimaxM25 \<Rightarrow> callMiniMax (net w) ms ''MiniMax-M2.5'' r
   | MinimaxM27 \<Rightarrow> callMiniMax (net w) ms ''MiniMax-M2.7'' r
   | GlmDeepinfra \<Rightarrow> callDeepInfra (net w) ms ''THUDM/glm-4-9b-chat'' r
   | GlmFireworks \<Rightarrow> callFireworks (net w) ms ''THUDM/glm-4-9b-chat'' r
   | GlmZai \<Rightarrow> callZai (net w) ms ''THUDM/glm-4-9b-chat'' r
   | Groq \<Rightarrow> callGroq (net w) ms r
   | KiroAi \<Rightarrow> callKiroAI (net w) ms r
   | Mistral \<Rightarrow> callMistral (net w) ms r
   | Openai \<Rightarrow> callOpenAI (net w) ms r
   | Carnice9bLocal \<Rightarrow> callCarnice (net w) ms r
   | _ \<Rightarrow> router_callCliDriver w p ms r)"

definition callProvider ::
  "outside \<Rightarrow> ProviderId \<Rightarrow> LLMMessage list \<Rightarrow> router \<Rightarrow> (string + LLMResponse) \<times> router" where
  "callProvider w p ms r =
     and_then (logLLMRequest p ms r) (\<lambda>u r'. dispatch_call w p ms r')"

section \<open>Facts\<close>

lemma and_then_simps [simp]:
  "and_then (Inl e, s) f = (Inl e, s)" "and_then (Inr x, s) f = f x s"
  by (simp_all add: and_then_def)

lemma and_then_Inr: "and_then m f = (Inr y, t) \<longleftrightarrow> (\<exists>x s. m = (Inr x, s) \<and> f x s = (Inr y, t))"
  by (cases m; cases "fst m") (auto simp: and_then_def)

lemma logEvent_cases:
  obtains (ok) d where "logEvent ev r = (Inr (), r\<lparr>disk := d, events := events r @ [ev]\<rparr>)"
      "disk r = [] \<longrightarrow> d = []"
  | (failed) e d where "logEvent ev r = (Inl e, r\<lparr>disk := d\<rparr>)" "disk r = Some e # d"
proof (cases "disk r")
  case Nil
  then have "logEvent ev r = (Inr (), r\<lparr>disk := disk r, events := events r @ [ev]\<rparr>)" by (simp add: logEvent_def)
  then show ?thesis by (rule ok) simp
next
  case (Cons a d)
  then show ?thesis by (cases a) (auto simp: logEvent_def intro: ok failed)
qed

lemma logEvent_writable [simp]: "disk r = [] \<Longrightarrow> logEvent ev r = (Inr (), r\<lparr>events := events r @ [ev]\<rparr>)"
  by (simp add: logEvent_def)

text \<open>What \<open>exchange\<close> makes of the answer of the network.\<close>

definition outcome :: "(http_reply \<Rightarrow> string) \<Rightarrow> (json \<Rightarrow> string + LLMResponse) \<Rightarrow> string + http_reply \<Rightarrow> string + LLMResponse" where
  "outcome bad read ans = (case ans of Inl e \<Rightarrow> Inl e
   | Inr rep \<Rightarrow> if \<not> reply_ok rep then Inl (bad rep)
       else (case reply_json rep of Inl e \<Rightarrow> Inl e | Inr data \<Rightarrow> read data))"

lemma exchange_eq: "exchange ask req bad read r = (outcome bad read (ask req), r\<lparr>sent := sent r @ [req]\<rparr>)"
  by (simp add: exchange_def fetch_def outcome_def and_then_def split: sum.split)

text \<open>The part of the state that calls do not touch.\<close>

definition same_health :: "router \<Rightarrow> router \<Rightarrow> bool" where
  "same_health r r' \<longleftrightarrow> providerHealth r' = providerHealth r \<and> timers r' = timers r \<and> clock r' = clock r \<and>
     keys r' = keys r \<and> auth_cooldown r' = auth_cooldown r \<and>
     maxFailuresBeforeCooldown r' = maxFailuresBeforeCooldown r \<and> cooldownMinutes r' = cooldownMinutes r \<and>
     (disk r = [] \<longrightarrow> disk r' = [])"

text \<open>What the shared ledger has seen, and whether there is one.\<close>

definition same_audit :: "router \<Rightarrow> router \<Rightarrow> bool" where
  "same_audit r r' \<longleftrightarrow> eventLedger r' = eventLedger r \<and> ledger_answers r' = ledger_answers r \<and>
     llm_requests r' = llm_requests r"

lemma same_audit_refl [simp]: "same_audit r r"
  by (simp add: same_audit_def)

lemma same_audit_trans: "same_audit r s \<Longrightarrow> same_audit s t \<Longrightarrow> same_audit r t"
  by (simp add: same_audit_def)

lemma same_health_refl [simp]: "same_health r r"
  by (simp add: same_health_def)

lemma same_health_trans: "same_health r s \<Longrightarrow> same_health s t \<Longrightarrow> same_health r t"
  by (simp add: same_health_def)

lemma logEvent_same: "same_health r (snd (logEvent ev r))" "same_audit r (snd (logEvent ev r))"
  by (rule logEvent_cases [of ev r]; auto simp: same_health_def same_audit_def)+

text \<open>The message of an error status names the status, between blanks, and its text.\<close>

definition names_status :: "http_reply \<Rightarrow> string \<Rightarrow> bool" where
  "names_status rep e \<longleftrightarrow> (\<exists>pre post. e = pre @ '' '' @ show_nat (reply_status rep) @ '' '' @ statusText rep @ post)"

text \<open>
  The three ways a call that talks HTTP can go: it does not send and fails with one of its own
  messages; it sends one request and the answer is read; or an error status is logged first.
\<close>

definition http_call :: "(http_request \<Rightarrow> string + http_reply) \<Rightarrow> string \<Rightarrow> router \<Rightarrow> (string + LLMResponse) \<times> router \<Rightarrow> bool" where
  "http_call ask label r out \<longleftrightarrow>
     same_health r (snd out) \<and> same_audit r (snd out) \<and>
     (\<forall>resp. fst out = Inr resp \<longrightarrow> resp_provider resp = label) \<and>
     ((sent (snd out) = sent r \<and> (\<exists>e. fst out = Inl e)) \<or>
      (\<exists>req. sent (snd out) = sent r @ [req] \<and>
         (\<forall>rep. ask req = Inr rep \<longrightarrow> \<not> reply_ok rep \<longrightarrow> disk r = [] \<longrightarrow>
            (\<exists>e. fst out = Inl e \<and> names_status rep e))))"

lemma http_call_refused: "http_call ask label r (Inl e, r)"
  by (simp add: http_call_def)

lemma http_call_exchange:
  assumes "\<And>rep. names_status rep (bad rep)"
    "\<And>data resp. read data = Inr resp \<Longrightarrow> resp_provider resp = label"
  shows "http_call ask label r (exchange ask req bad read r)"
  using assms
  by (auto simp: http_call_def exchange_eq same_health_def same_audit_def outcome_def split: sum.splits if_splits)

lemma http_call_logged:
  assumes "\<And>rep. names_status rep (bad rep)"
    "\<And>data resp. read data = Inr resp \<Longrightarrow> resp_provider resp = label"
  shows "http_call ask label r (exchange_logged ask req ev bad read r)"
proof (cases "ask req")
  case (Inr rep)
  define r1 where "r1 = r\<lparr>sent := sent r @ [req]\<rparr>"
  show ?thesis
  proof (cases "reply_ok rep")
    case True
    then show ?thesis using Inr assms(2)
      by (auto simp: http_call_def exchange_logged_def fetch_def same_health_def same_audit_def split: sum.splits)
  next
    case False
    then have e: "exchange_logged ask req ev bad read r = and_then (logEvent (ev rep) r1) (\<lambda>u r''. (Inl (bad rep), r''))"
      by (simp add: exchange_logged_def fetch_def Inr r1_def)
    show ?thesis unfolding e
    proof (cases rule: logEvent_cases [of "ev rep" r1])
      case (ok d)
      then show "http_call ask label r (and_then (logEvent (ev rep) r1) (\<lambda>u r''. (Inl (bad rep), r'')))"
        using assms(1) [of rep] logEvent_same [of r1 "ev rep"] Inr by (auto simp: http_call_def r1_def same_health_def same_audit_def)
    next
      case (failed e d)
      then show "http_call ask label r (and_then (logEvent (ev rep) r1) (\<lambda>u r''. (Inl (bad rep), r'')))"
        by (auto simp: http_call_def r1_def same_health_def same_audit_def)
    qed
  qed
qed (auto simp: http_call_def exchange_logged_def fetch_def same_health_def same_audit_def)

lemma api_error_shape [simp]: "names_status rep (api_error n rep)" "names_status rep (api_error_text n rep)"
proof -
  have "api_error n rep = (n @ '' API Error:'') @ '' '' @ show_nat (reply_status rep) @ '' '' @ statusText rep @ []"
    "api_error_text n rep = (n @ '' API Error:'') @ '' '' @ show_nat (reply_status rep) @ '' '' @ statusText rep @ ('' '' @ reply_text rep)"
    by (simp_all add: api_error_def api_error_text_def)
  then show "names_status rep (api_error n rep)" "names_status rep (api_error_text n rep)"
    unfolding names_status_def by blast+
qed

lemma read_labels:
  "read_chat p m data = Inr resp \<Longrightarrow> resp_provider resp = provider_name p"
  "read_anthropic p data = Inr resp \<Longrightarrow> resp_provider resp = provider_name p"
  "read_gemini p m data = Inr resp \<Longrightarrow> resp_provider resp = provider_name p"
  "read_tavily q data = Inr resp \<Longrightarrow> resp_provider resp = ''tavily''"
  "read_qwen m data = Inr resp \<Longrightarrow> resp_provider resp = ''qwen3.6-plus''"
  by (auto simp: read_chat_def chat_response_def Let_def read_anthropic_def read_gemini_def read_tavily_def
      read_qwen_def split: sum.splits json.splits)

text \<open>The provider that a success is labelled with: the calls shared by two versions of a model
  always name the newer one.\<close>

definition reported :: "ProviderId \<Rightarrow> ProviderId" where
  "reported p = (case p of MoonshotK25 \<Rightarrow> MoonshotK26 | Qwen35Plus \<Rightarrow> Qwen36Plus | MinimaxM25 \<Rightarrow> MinimaxM27 | _ \<Rightarrow> p)"

definition is_cli :: "ProviderId \<Rightarrow> bool" where
  "is_cli p \<longleftrightarrow> p \<in> set [ClaudeCodeCli, CodexCli, GeminiCli]"

lemmas call_defs = callDeepSeek_def callDeepSeekV4_def callTavily_def callMoonshot_def callXiaomi_def
  callQwen_def callMiniMax_def callDeepInfra_def callFireworks_def callZai_def callGroq_def callKiroAI_def
  callMistral_def callOpenAI_def callGemini_def

lemma http_calls_chat:
  "http_call ask ''deepseek'' r (callDeepSeek ask ms r)"
  "http_call ask ''deepseek-v4'' r (callDeepSeekV4 ask ms r)"
  "http_call ask ''tavily'' r (callTavily ask ms r)"
  "http_call ask ''moonshot-k2.6'' r (callMoonshot ask ms m r)"
  "http_call ask ''xiaomi-mimo'' r (callXiaomi ask ms r)"
  "http_call ask ''qwen3.6-plus'' r (callQwen ask ms m r)"
  "http_call ask ''minimax-m2.7'' r (callMiniMax ask ms m r)"
  "http_call ask ''glm-deepinfra'' r (callDeepInfra ask ms m r)"
  "http_call ask ''glm-fireworks'' r (callFireworks ask ms m r)"
  "http_call ask ''glm-zai'' r (callZai ask ms m r)"
  "http_call ask ''groq'' r (callGroq ask ms r)"
  "http_call ask ''kiro-ai'' r (callKiroAI ask ms r)"
  "http_call ask ''mistral'' r (callMistral ask ms r)"
  "http_call ask ''openai'' r (callOpenAI ask ms r)"
  "http_call ask ''gemini'' r (callGemini ask ms r)"
  unfolding call_defs Let_def
  by (auto intro!: http_call_exchange simp: http_call_refused dest: read_labels)

lemma http_call_event_then:
  "http_call ask label r (and_then (logEvent ev r) (\<lambda>u r'. (Inl e, r')))"
proof (cases rule: logEvent_cases [of ev r])
  case (ok d)
  then show ?thesis by (simp add: http_call_def same_health_def same_audit_def)
next
  case (failed e d)
  then show ?thesis by (simp add: http_call_def same_health_def same_audit_def)
qed

lemma http_calls_logged:
  "http_call ask ''opencode-go'' r (callOpenCode ask ms r)"
  "http_call ask ''anthropic-api'' r (callAnthropicApi ask ms r)"
  "http_call ask ''gemini-api'' r (callGeminiApi ask ms r)"
proof -
  have "http_call ask ''opencode-go'' r (Inl e, r\<lparr>failureSimulated := True\<rparr>)" for e
    by (simp add: http_call_def same_health_def same_audit_def)
  then show "http_call ask ''opencode-go'' r (callOpenCode ask ms r)" unfolding callOpenCode_def
    by (auto intro!: http_call_logged simp: http_call_refused dest: read_labels)
  show "http_call ask ''anthropic-api'' r (callAnthropicApi ask ms r)"
    "http_call ask ''gemini-api'' r (callGeminiApi ask ms r)"
    unfolding callAnthropicApi_def callGeminiApi_def Let_def
    by (auto intro!: http_call_logged http_call_event_then simp: http_call_refused dest: read_labels)
qed

lemma http_call_carnice: "http_call ask ''carnice-9b-local'' r (callCarnice ask ms r)"
proof -
  define req where "req = \<lparr>url = API_URL r Carnice9bLocal, headers = json_headers,
    request_body = withReplayDefaults r (model_and_messages (MODEL_NAMES Carnice9bLocal) ms), timeout_ms = 60000\<rparr>"
  define r1 where "r1 = r\<lparr>sent := sent r @ [req]\<rparr>"
  have h: "same_health r r1" "same_audit r r1" "disk r1 = disk r" "sent r1 = sent r @ [req]" by (simp_all add: r1_def same_health_def same_audit_def)
  have label: "resp_provider (chat_response Carnice9bLocal m a data) = ''carnice-9b-local''" for m a data
    by (simp add: chat_response_def Let_def)
  show ?thesis
  proof (cases "ask req")
    case (Inl e)
    then have "callCarnice ask ms r = (Inl (carnice_unreachable r e), r1)"
      by (simp add: callCarnice_def fetch_def req_def r1_def Let_def)
    with h Inl show ?thesis by (simp add: http_call_def)
  next
    case (Inr rep)
    show ?thesis
    proof (cases "reply_ok rep")
      case False
      define m where "m = ''Carnice local server error:'' @ '' '' @ show_nat (reply_status rep) @ '' '' @
          statusText rep @ ('' '' @ reply_text rep)"
      have "callCarnice ask ms r = (Inl m, r1)"
        using Inr False by (simp add: callCarnice_def fetch_def req_def r1_def m_def Let_def)
      moreover have "names_status rep m" unfolding names_status_def m_def by blast
      ultimately show ?thesis using h Inr by (simp add: http_call_def)
    next
      case True
      show ?thesis
      proof (cases "reply_json rep")
        case (Inl e)
        then have "callCarnice ask ms r = (Inl e, r1)"
          using Inr True by (simp add: callCarnice_def fetch_def req_def r1_def Let_def)
        with h Inr True show ?thesis by (simp add: http_call_def)
      next
        case data: (Inr data)
        show ?thesis
        proof (cases "js_get data ''usage''")
          case (Inl e)
          then have "callCarnice ask ms r = (Inl e, r1)"
            using Inr True data by (simp add: callCarnice_def fetch_def req_def r1_def Let_def)
          with h Inr True show ?thesis by (simp add: http_call_def)
        next
          case u: (Inr u)
          define ev where "ev = savings_event (or_else (opt_get u ''total_tokens'') zero)"
          have c: "callCarnice ask ms r = and_then (logEvent ev r1)
              (\<lambda>x r2. (Inr (chat_response Carnice9bLocal (MODEL_NAMES Carnice9bLocal) (chat_answer data) data), r2))"
            using Inr True data u by (simp add: callCarnice_def fetch_def req_def r1_def Let_def ev_def)
          show ?thesis unfolding c
            by (rule logEvent_cases [of ev r1]) (use h Inr True in \<open>auto simp: http_call_def label same_health_def same_audit_def\<close>)
        qed
      qed
    qed
  qed
qed

text \<open>Every call that is not a command line driver is one of these.\<close>

lemma http_call_dispatch:
  "\<not> is_cli p \<Longrightarrow> http_call (net w) (provider_name (reported p)) r (dispatch_call w p ms r)"
  by (cases p) (auto simp: dispatch_call_def is_cli_def reported_def http_calls_chat http_calls_logged http_call_carnice)

lemma dispatch_same: "same_health r (snd (dispatch_call w p ms r))"
proof (cases "is_cli p")
  case True
  then have "dispatch_call w p ms r = router_callCliDriver w p ms r" by (cases p) (simp_all add: is_cli_def dispatch_call_def)
  then show ?thesis by (simp add: router_callCliDriver_def Let_def same_health_def same_audit_def split: option.split)
qed (use http_call_dispatch in \<open>auto simp: http_call_def\<close>)

lemma dispatch_audit: "same_audit r (snd (dispatch_call w p ms r))"
proof (cases "is_cli p")
  case True
  then have "dispatch_call w p ms r = router_callCliDriver w p ms r" by (cases p) (simp_all add: is_cli_def dispatch_call_def)
  then show ?thesis by (simp add: router_callCliDriver_def Let_def same_audit_def split: option.split)
qed (use http_call_dispatch in \<open>auto simp: http_call_def\<close>)

text \<open>With a ledger that accepts everything, a call is in the ledger once, under its model's name.\<close>

lemma callProvider_audit:
  assumes "eventLedger r" "ledger_answers r = []" "callProvider w p ms r = (res, r')"
  shows "eventLedger r' \<and> ledger_answers r' = [] \<and> llm_requests r' = llm_requests r @ [(p, MODEL_NAMES p, ms)]"
proof -
  have "snd (callProvider w p ms r) = snd (dispatch_call w p ms (r\<lparr>llm_requests := llm_requests r @ [(p, MODEL_NAMES p, ms)]\<rparr>))"
    using assms(1,2) by (simp add: callProvider_def logLLMRequest_def Let_def)
  with assms dispatch_audit [of "r\<lparr>llm_requests := llm_requests r @ [(p, MODEL_NAMES p, ms)]\<rparr>" w p ms]
  show ?thesis by (simp add: same_audit_def)
qed

lemma log_request_same: "same_health r (snd (logLLMRequest p ms r))"
  by (auto simp: logLLMRequest_def same_health_def same_audit_def Let_def split: list.splits option.splits)

lemma callProvider_same: "same_health r (snd (callProvider w p ms r))"
  using log_request_same [of r p ms] dispatch_same
  by (auto simp: callProvider_def and_then_def split: prod.splits sum.splits elim: same_health_trans)

text \<open>\<open>callCliDriver\<close> answers under the driver's own name.\<close>

lemma callCliDriver_label: "callCliDriver run cfg ms = Inr resp \<Longrightarrow> resp_provider resp = cli_id cfg"
  by (auto simp: callCliDriver_def Let_def split: process_end.splits option.splits if_splits)

definition registry_loaded_ok :: "router \<Rightarrow> bool" where
  "registry_loaded_ok r \<longleftrightarrow> (case cliRegistry r of None \<Rightarrow> True | Some reg \<Rightarrow> registry_ok reg)"

text \<open>
  A response carries the name of the provider that was called, with three exceptions: Kimi K2.5,
  Qwen 3.5 and MiniMax M2.5 always answer as their newer versions, so what is recorded under the
  response's name is charged to another provider.\<close>

theorem response_label:
  assumes "callProvider w p ms r = (Inr resp, r')" "registry_loaded_ok r"
  shows "resp_provider resp = provider_name (reported p) \<and>
    (resp_provider resp \<noteq> provider_name p \<longleftrightarrow> p \<in> set [MoonshotK25, Qwen35Plus, MinimaxM25])"
proof -
  obtain r1 where r1: "logLLMRequest p ms r = (Inr (), r1)" "dispatch_call w p ms r1 = (Inr resp, r')"
    using assms(1) by (auto simp: callProvider_def and_then_def split: prod.splits sum.splits)
  have "cliRegistry r1 = cliRegistry r"
    using r1(1) by (auto simp: logLLMRequest_def Let_def split: if_splits list.splits option.splits)
  then have ok: "registry_loaded_ok r1" using assms(2) by (simp add: registry_loaded_ok_def)
  have "resp_provider resp = provider_name (reported p)"
  proof (cases "is_cli p")
    case True
    then have "reported p = p" "dispatch_call w p ms r1 = router_callCliDriver w p ms r1"
      by (cases p; simp add: is_cli_def reported_def dispatch_call_def)+
    with r1(2) ok show ?thesis
      by (auto simp: router_callCliDriver_def registry_loaded_ok_def registry_ok_load Let_def
          split: option.splits dest!: callCliDriver_label registry_get [rotated])
  next
    case False
    from http_call_dispatch [OF this, of w r1 ms] r1(2) show ?thesis by (simp add: http_call_def)
  qed
  then show ?thesis by (cases p) (simp_all add: reported_def)
qed

section \<open>An example\<close>

text \<open>A router with every key set, and a network that gives every request the same answer.\<close>

definition demo_cfg :: RouterConfig where
  "demo_cfg = \<lparr>cfg_key = (\<lambda>k. Some ''sk-ant-api03-x''), cfg_cooldownMinutes = None, cfg_maxFailures = None,
     cfg_simulateFailure = None, cfg_eventLedger = False, cfg_replayMode = None\<rparr>"

definition demo_router :: router where
  "demo_router = new_router (\<lambda>s. None) None None demo_cfg 0"

definition demo_world :: "string + http_reply \<Rightarrow> outside" where
  "demo_world ans = \<lparr>net = (\<lambda>req. ans), drivers_file = None, run_process = (\<lambda>b args inp t. TimedOut)\<rparr>"

definition demo_answer :: http_reply where
  "demo_answer = \<lparr>reply_status = 200, statusText = ''OK'', reply_text = [],
     reply_json = Inr (JObj [(''choices'', JArr [JObj [(''message'', JObj [(''content'', JStr ''hi'')])]])])\<rparr>"

definition demo_status :: "nat \<Rightarrow> string \<Rightarrow> http_reply" where
  "demo_status n t = \<lparr>reply_status = n, statusText = t, reply_text = [], reply_json = Inl []\<rparr>"

lemma demo_router_simps [simp]:
  "keys demo_router k = ''sk-ant-api03-x''" "cliRegistry demo_router = None" "eventLedger demo_router = False"
  "disk demo_router = []" "clock demo_router = 0" "timers demo_router = []" "simulateFailure demo_router = False"
  "events demo_router = []" "sent demo_router = []" "auth_cooldown demo_router = 3600000"
  "maxFailuresBeforeCooldown demo_router = 3" "replayMode demo_router = False" "carnice_base demo_router = None"
  "providerHealth demo_router = map (\<lambda>p. (p, fresh_health)) allProviders"
  by (simp_all add: demo_router_def new_router_def demo_cfg_def resolve_key_def COOLDOWN_AUTH_MS_def
      allProviders_def dset_def)

lemma demo_kimi:
  "fst (callProvider (demo_world (Inr demo_answer)) MoonshotK25 [] demo_router) =
     Inr (chat_response MoonshotK26 ''kimi-k2.5'' (JStr ''hi'') (JObj [(''choices'', JArr [JObj [(''message'', JObj [(''content'', JStr ''hi'')])]])]))"
  by (simp add: callProvider_def logLLMRequest_def dispatch_call_def callMoonshot_def exchange_eq outcome_def
      demo_world_def demo_answer_def reply_ok_def read_chat_def chat_answer_def or_else_def dget_def)

lemma response_label_witness:
  "\<exists>resp r'. callProvider (demo_world (Inr demo_answer)) MoonshotK25 [] demo_router = (Inr resp, r') \<and>
     resp_content resp = JStr ''hi'' \<and> resp_provider resp = ''moonshot-k2.6''"
proof -
  obtain resp r' where c: "callProvider (demo_world (Inr demo_answer)) MoonshotK25 [] demo_router = (Inr resp, r')"
    "resp_content resp = JStr ''hi''"
    using demo_kimi by (cases "callProvider (demo_world (Inr demo_answer)) MoonshotK25 [] demo_router")
      (auto simp: chat_response_def Let_def)
  from response_label [OF c(1)] c show ?thesis by (auto simp: registry_loaded_ok_def reported_def)
qed

end
