(* ===== verification/Provider_Router.thy ===== *)
theory Provider_Router
  imports Provider_Calls
begin

text \<open>
  The control half of \<open>src/providers/router.ts\<close>: the classification of errors, the health records
  with their cooldowns and timers, the choice of a fallback, and \<open>completion\<close>.

  The time is the field \<open>clock\<close>; \<open>advance\<close> moves it and runs the timers that fall due, in the order
  of their due times. While a provider is being called other calls and timers run: the second
  component of an attempt is what they do to the state.
\<close>

section \<open>Classification of errors\<close>

datatype thrown = ErrorThrown string | OtherThrown

definition is_word :: "char \<Rightarrow> bool" where
  "is_word c \<longleftrightarrow> is_letter c \<or> is_digit c \<or> c = CHR ''_''"

text \<open>\<open>/\\bw\\b/\<close> for a word \<open>w\<close> of word characters.\<close>

definition word_end :: "string \<Rightarrow> bool" where
  "word_end s = (case s of [] \<Rightarrow> True | c # cs \<Rightarrow> \<not> is_word c)"

fun has_word_after :: "bool \<Rightarrow> string \<Rightarrow> string \<Rightarrow> bool" where
  "has_word_after inside [] w = False"
| "has_word_after inside (c # cs) w =
    ((\<not> inside \<and> starts_with (c # cs) w \<and> word_end (drop (length w) (c # cs))) \<or>
     has_word_after (is_word c) cs w)"

definition has_word :: "string \<Rightarrow> string \<Rightarrow> bool" where
  "has_word s w = has_word_after False s w"

definition classifyError :: "thrown \<Rightarrow> ProviderErrorClass" where
  "classifyError err = (case err of
     OtherThrown \<Rightarrow> MODEL_ERROR
   | ErrorThrown message \<Rightarrow>
     (let msg = to_lower message in
      if has_word msg ''401'' \<or> has_word msg ''403'' \<or> contains msg ''unauthorized'' \<or>
         contains msg ''forbidden'' \<or> contains msg ''invalid api key'' \<or> contains msg ''invalid_api_key'' \<or>
         contains msg ''authentication'' \<or> contains msg ''api key not configured'' \<or>
         contains msg ''api key format'' then AUTH_FAILURE
      else if has_word msg ''429'' \<or> contains msg ''rate limit'' then RATE_LIMIT
      else if contains msg ''econnrefused'' \<or> contains msg ''enotfound'' \<or> contains msg ''etimedout'' \<or>
         contains msg ''econnaborted'' \<or> contains msg ''econnreset'' \<or> contains msg ''timeout'' \<or>
         contains msg ''network'' \<or> contains msg ''unreachable'' \<or> contains msg ''fetch failed'' then NETWORK
      else MODEL_ERROR))"

text \<open>The first position at which a matcher succeeds.\<close>

fun first_match :: "(string \<Rightarrow> 'a option) \<Rightarrow> string \<Rightarrow> 'a option" where
  "first_match f [] = f []"
| "first_match f (c # cs) = (case f (c # cs) of Some x \<Rightarrow> Some x | None \<Rightarrow> first_match f cs)"

definition after_prefix :: "string \<Rightarrow> string \<Rightarrow> string option" where
  "after_prefix p s = (if starts_with s p then Some (drop (length p) s) else None)"

text \<open>\<open>\\d+(?:\\.\\d+)?\<close>, with what follows it.\<close>

definition decimal_at :: "string \<Rightarrow> (string \<times> string) option" where
  "decimal_at s =
    (let ds = take_digits s; r = skip_digits s in
     if ds = [] then None
     else case r of [] \<Rightarrow> Some (ds, r)
       | c # cs \<Rightarrow> if c = CHR ''.'' \<and> take_digits cs \<noteq> [] then Some (ds @ c # take_digits cs, skip_digits cs)
                 else Some (ds, r))"

text \<open>\<open>/retry[- ]after[:= ]\\s*(\\d+(?:\\.\\d+)?)/\<close> and \<open>/retry after\\s+(\\d+(?:\\.\\d+)?)\\s*s/\<close>.\<close>

definition retry_header :: "string \<Rightarrow> string option" where
  "retry_header s = (case after_prefix ''retry'' s of
     Some (c # s1) \<Rightarrow> if c \<in> set ''- '' then
       (case after_prefix ''after'' s1 of
          Some (d # s2) \<Rightarrow> if d \<in> set '':= '' then map_option fst (decimal_at (dropWhile is_space s2)) else None
        | _ \<Rightarrow> None) else None
   | _ \<Rightarrow> None)"

definition retry_phrase :: "string \<Rightarrow> string option" where
  "retry_phrase s = (case after_prefix ''retry after'' s of
     Some (c # s1) \<Rightarrow> if is_space c then
       (case decimal_at (dropWhile is_space s1) of
          Some (t, r) \<Rightarrow> if starts_with (dropWhile is_space r) ''s'' then Some t else None
        | None \<Rightarrow> None) else None
   | _ \<Rightarrow> None)"

text \<open>Beyond the largest double the seconds are infinite, and the hint is not taken.\<close>

definition parseRetryAfterMs :: "thrown \<Rightarrow> rat option" where
  "parseRetryAfterMs err = (case err of OtherThrown \<Rightarrow> None
   | ErrorThrown message \<Rightarrow>
     (let msg = to_lower message;
          m = (case first_match retry_header msg of Some t \<Rightarrow> Some t | None \<Rightarrow> first_match retry_phrase msg)
      in case m of None \<Rightarrow> None
         | Some t \<Rightarrow> let seconds = number_value t in
             if 0 < seconds \<and> seconds < 2 ^ 1024 then Some (fmul seconds 1000) else None))"

text \<open>The message is lower case when it is compared, the last two names are not.\<close>

definition router_isRetryableError :: "thrown \<Rightarrow> bool" where
  "router_isRetryableError err = (case err of OtherThrown \<Rightarrow> False
   | ErrorThrown msg \<Rightarrow>
     (let message = to_lower msg in
      contains message ''429'' \<or> contains message ''rate limit'' \<or>
      contains message ''timeout'' \<or> contains message ''etimedout'' \<or> contains message ''econnaborted'' \<or>
      contains message ''network'' \<or> contains message ''fetch'' \<or>
      contains message ''ECONNREFUSED'' \<or> contains message ''ENOTFOUND''))"

section \<open>Health\<close>

definition COOLDOWN_RATE_LIMIT_DEFAULT_MS :: rat where "COOLDOWN_RATE_LIMIT_DEFAULT_MS = 300000"
definition COOLDOWN_NETWORK_MS :: rat where "COOLDOWN_NETWORK_MS = 30000"
definition COOLDOWN_MODEL_ERROR_MS :: rat where "COOLDOWN_MODEL_ERROR_MS = 60000"
definition NETWORK_MAX_RETRIES :: nat where "NETWORK_MAX_RETRIES = 3"

definition cooldown_ms :: "router \<Rightarrow> ProviderErrorClass option \<Rightarrow> rat option \<Rightarrow> nat \<Rightarrow> rat option" where
  "cooldown_ms r cls retry failures = (case cls of
     Some AUTH_FAILURE \<Rightarrow> Some (auth_cooldown r)
   | Some RATE_LIMIT \<Rightarrow> Some (case retry of Some ms \<Rightarrow> ms | None \<Rightarrow> COOLDOWN_RATE_LIMIT_DEFAULT_MS)
   | Some NETWORK \<Rightarrow> if NETWORK_MAX_RETRIES \<le> failures then Some COOLDOWN_NETWORK_MS else None
   | Some MODEL_ERROR \<Rightarrow> if maxFailuresBeforeCooldown r \<le> failures then Some COOLDOWN_MODEL_ERROR_MS else None
   | None \<Rightarrow> if maxFailuresBeforeCooldown r \<le> failures then Some (fmul (fmul (cooldownMinutes r) 60) 1000) else None)"

text \<open>\<open>setTimeout\<close> waits whole milliseconds, and one when the delay is below one or does not fit
  31 bits.\<close>

definition timer_delay :: "rat \<Rightarrow> int" where
  "timer_delay ms = (if ms < 1 \<or> 2147483647 < ms then 1 else \<lfloor>ms\<rfloor>)"

fun class_name :: "ProviderErrorClass \<Rightarrow> string" where
  "class_name AUTH_FAILURE = ''AUTH_FAILURE''"
| "class_name RATE_LIMIT = ''RATE_LIMIT''"
| "class_name NETWORK = ''NETWORK''"
| "class_name MODEL_ERROR = ''MODEL_ERROR''"

definition class_json :: "ProviderErrorClass option \<Rightarrow> json" where
  "class_json cls = (case cls of None \<Rightarrow> JNull | Some c \<Rightarrow> JStr (class_name c))"

definition model_error_event :: "ProviderId \<Rightarrow> nat \<Rightarrow> router_event" where
  "model_error_event p n = \<lparr>re_type = ''provider_model_error'',
     re_payload = [(''provider'', pstr (provider_name p)), (''failureCount'', pnat n),
       (''message'', pstr (''Provider '' @ provider_name p @ '' returned a model-class error''))],
     re_severity = Warning, re_provider = Some p, re_errorClass = Some MODEL_ERROR\<rparr>"

definition cooldown_event :: "ProviderId \<Rightarrow> ProviderErrorClass option \<Rightarrow> ProviderHealth \<Rightarrow> rat \<Rightarrow> router_event" where
  "cooldown_event p cls h ms = \<lparr>re_type = ''fallback_cooldown'',
     re_payload = [(''provider'', pstr (provider_name p)), (''failureCount'', pnat (failureCount h)),
       (''cooldownMs'', PNum (Some ms)), (''errorClass'', PJson (class_json cls)),
       (''needsAuthRefresh'', PJson (JBool (needsAuthRefresh h))),
       (''immediate'', PJson (JBool (cls = Some AUTH_FAILURE \<or> cls = Some RATE_LIMIT)))],
     re_severity = Warning, re_provider = Some p, re_errorClass = cls\<rparr>"

definition put_health :: "ProviderId \<Rightarrow> ProviderHealth \<Rightarrow> router \<Rightarrow> router" where
  "put_health p h r = r\<lparr>providerHealth := dset p h (providerHealth r)\<rparr>"

definition failed_health :: "int \<Rightarrow> ProviderErrorClass option \<Rightarrow> rat option \<Rightarrow> ProviderHealth \<Rightarrow> ProviderHealth" where
  "failed_health now cls retry h =
     h\<lparr>failureCount := failureCount h + 1, lastFailureTime := Some now,
       lastErrorClass := (case cls of Some c \<Rightarrow> Some c | None \<Rightarrow> lastErrorClass h),
       retryAfterMs := retry, needsAuthRefresh := (cls = Some AUTH_FAILURE)\<rparr>"

definition recordProviderFailure ::
  "ProviderId \<Rightarrow> ProviderErrorClass option \<Rightarrow> rat option \<Rightarrow> router \<Rightarrow> (string + unit) \<times> router" where
  "recordProviderFailure p cls retry r = (case dget (providerHealth r) p of
     None \<Rightarrow> (Inr (), r)
   | Some h0 \<Rightarrow>
     (let h = failed_health (clock r) cls retry h0;
          r1 = put_health p h r
      in and_then (if cls = Some MODEL_ERROR then logEvent (model_error_event p (failureCount h)) r1 else (Inr (), r1))
        (\<lambda>u r2. case cooldown_ms r cls retry (failureCount h) of
           None \<Rightarrow> (Inr (), r2)
         | Some ms \<Rightarrow>
           (let h' = h\<lparr>isOnCooldown := True, cooldownExpiresAt := Some (fadd (of_int (clock r)) ms)\<rparr> in
            and_then (logEvent (cooldown_event p cls h ms) (put_health p h' r2))
              (\<lambda>u r3. (Inr (), r3\<lparr>timers := timers r3 @ [(clock r + timer_delay ms, p)]\<rparr>))))))"

definition recordProviderSuccess :: "ProviderId \<Rightarrow> router \<Rightarrow> router" where
  "recordProviderSuccess p r = (case dget (providerHealth r) p of
     None \<Rightarrow> r
   | Some h \<Rightarrow> put_health p (h\<lparr>failureCount := 0, isOnCooldown := False, cooldownExpiresAt := None,
       needsAuthRefresh := False, retryAfterMs := None, lastErrorClass := None\<rparr>) r)"

text \<open>The callback of the timer: whatever cooldown the provider has by then is lifted.\<close>

definition expired_event :: "ProviderId \<Rightarrow> router_event" where
  "expired_event p = \<lparr>re_type = ''cooldown_expired'',
     re_payload = [(''provider'', pstr (provider_name p)),
       (''message'', pstr (''Provider '' @ provider_name p @ '' cooldown expired, ready for requests''))],
     re_severity = Info, re_provider = Some p, re_errorClass = None\<rparr>"

definition cooldown_over :: "ProviderId \<Rightarrow> router \<Rightarrow> router" where
  "cooldown_over p r = (case dget (providerHealth r) p of
     None \<Rightarrow> r
   | Some h \<Rightarrow> snd (logEvent (expired_event p) (put_health p (h\<lparr>isOnCooldown := False, cooldownExpiresAt := None,
       failureCount := 0, retryAfterMs := None\<rparr>) r)))"

definition advance :: "int \<Rightarrow> router \<Rightarrow> router" where
  "advance now r =
    (let due = sort_key fst (filter (\<lambda>t. fst t \<le> now) (timers r))
     in fold (\<lambda>t. cooldown_over (snd t)) due
          (r\<lparr>clock := now, timers := filter (\<lambda>t. now < fst t) (timers r)\<rparr>))"

definition router_isOnCooldown :: "router \<Rightarrow> ProviderId \<Rightarrow> bool" where
  "router_isOnCooldown r p = (case dget (providerHealth r) p of None \<Rightarrow> False | Some h \<Rightarrow> isOnCooldown h)"

definition getFailureCount :: "router \<Rightarrow> ProviderId \<Rightarrow> nat" where
  "getFailureCount r p = (case dget (providerHealth r) p of None \<Rightarrow> 0 | Some h \<Rightarrow> failureCount h)"

definition getProviderHealth :: "router \<Rightarrow> ProviderId \<Rightarrow> ProviderHealth option" where
  "getProviderHealth r p = dget (providerHealth r) p"

section \<open>Fallback\<close>

definition FALLBACK_ORDER :: "ProviderId list" where
  "FALLBACK_ORDER = [AnthropicApi, GeminiApi, Groq, DeepseekV4, KiroAi, Openai, MoonshotK26, Qwen36Plus,
     OpencodeGo, MinimaxM27, Mistral, MoonshotK25, Gemini, Tavily, Qwen35Plus, Deepseek, GlmDeepinfra,
     GlmFireworks, GlmZai, XiaomiMimo, MinimaxM25]"

fun index_of :: "'a \<Rightarrow> 'a list \<Rightarrow> nat option" where
  "index_of x [] = None"
| "index_of x (y # ys) = (if y = x then Some 0 else map_option Suc (index_of x ys))"

definition healthy :: "router \<Rightarrow> ProviderId \<Rightarrow> bool" where
  "healthy r p = (case dget (providerHealth r) p of None \<Rightarrow> False | Some h \<Rightarrow> \<not> isOnCooldown h)"

text \<open>\<open>rnd\<close> is the random start used when no provider is given. The loop over
  \<open>(startIdx + i) % length\<close> reads the list rotated by \<open>startIdx\<close>.\<close>

definition start_index :: "nat \<Rightarrow> ProviderId option \<Rightarrow> nat" where
  "start_index rnd from = (case from of None \<Rightarrow> rnd
     | Some p \<Rightarrow> (case index_of p FALLBACK_ORDER of None \<Rightarrow> 0 | Some i \<Rightarrow> i + 1))"

definition fallback :: "nat \<Rightarrow> ProviderId option \<Rightarrow> router \<Rightarrow> ProviderId" where
  "fallback rnd from r =
    (case List.find (healthy r) (rotate (start_index rnd from) FALLBACK_ORDER) of
       Some p \<Rightarrow> p
     | None \<Rightarrow> hd FALLBACK_ORDER)"

section \<open>Completion\<close>

text \<open>\<open>findLastUserMessageIndex\<close>, \<open>None\<close> for -1.\<close>

fun findLastUserMessageIndex :: "LLMMessage list \<Rightarrow> nat option" where
  "findLastUserMessageIndex [] = None"
| "findLastUserMessageIndex (m # ms) = (case findLastUserMessageIndex ms of
     Some i \<Rightarrow> Some (Suc i)
   | None \<Rightarrow> if msg_role m = MUser then Some 0 else None)"

text \<open>
  The optional context service: \<open>None\<close> when it is disabled; else its decision on an agent and a
  text, the new text with the tokens saved, if it answers. Only the content of the last user
  message is replaced.
\<close>

type_synonym context_service = "(string \<Rightarrow> string \<Rightarrow> (string \<times> int) option) option"

definition optimized_messages :: "context_service \<Rightarrow> string option \<Rightarrow> LLMMessage list \<Rightarrow> LLMMessage list" where
  "optimized_messages service agent ms = (case (agent, service) of
     (Some (c # cs), Some optimize) \<Rightarrow>
       (case findLastUserMessageIndex ms of
          None \<Rightarrow> ms
        | Some i \<Rightarrow> (case optimize (c # cs) (msg_content (ms ! i)) of
            Some (text, saved) \<Rightarrow> if text \<noteq> [] \<and> 0 < saved then ms[i := (ms ! i)\<lparr>msg_content := text\<rparr>] else ms
          | None \<Rightarrow> ms))
   | _ \<Rightarrow> ms)"

definition selected_event :: "ProviderId \<Rightarrow> router_event" where
  "selected_event p = \<lparr>re_type = ''provider_selected'',
     re_payload = [(''provider'', pstr (provider_name p)),
       (''message'', pstr (''Routing request to '' @ provider_name p))],
     re_severity = Info, re_provider = Some p, re_errorClass = None\<rparr>"

definition fallback_event :: "ProviderId \<Rightarrow> string \<Rightarrow> router_event" where
  "fallback_event p e = \<lparr>re_type = ''provider_fallback'',
     re_payload = [(''message'', pstr (''Provider '' @ provider_name p @
         '' failed with retryable error, trying next provider'')),
       (''fromProvider'', pstr (provider_name p)),
       (''errorClass'', PJson (class_json (Some (classifyError (ErrorThrown e))))), (''error'', pstr e)],
     re_severity = Warning, re_provider = Some p, re_errorClass = Some (classifyError (ErrorThrown e))\<rparr>"

definition exhausted_event :: "router \<Rightarrow> router_event" where
  "exhausted_event r = \<lparr>re_type = ''task_exhausted'',
     re_payload = [(''message'', pstr ''All providers failed or unavailable''),
       (''providers'', PJson (JArr (map (\<lambda>p. JStr (provider_name p)) (dkeys (providerHealth r)))))],
     re_severity = Error, re_provider = None, re_errorClass = None\<rparr>"

text \<open>
  One attempt: what the call meets, and what happens to the state while it waits.
\<close>

type_synonym attempt_world = "outside \<times> (router \<Rightarrow> router)"

text \<open>
  The body of the loop up to the decision to go on: the inner value is the answer of the
  provider, the outer error that of a failing write of the event file.
\<close>

definition try_provider :: "attempt_world \<Rightarrow> ProviderId \<Rightarrow> LLMMessage list \<Rightarrow> router \<Rightarrow>
    (string + (string + LLMResponse)) \<times> router" where
  "try_provider w p ms r =
    (let (res, r1) = callProvider (fst w) p ms r; r2 = snd w r1 in
     case res of
       Inr resp \<Rightarrow> (Inr (Inr resp), recordProviderSuccess p r2)
     | Inl e \<Rightarrow> and_then (recordProviderFailure p (Some (classifyError (ErrorThrown e)))
           (parseRetryAfterMs (ErrorThrown e)) r2)
         (\<lambda>u r3. (Inr (Inl e), r3)))"

definition completion :: "(nat \<Rightarrow> attempt_world) \<Rightarrow> context_service \<Rightarrow> string option \<Rightarrow> ProviderId option \<Rightarrow>
    LLMMessage list \<Rightarrow> router \<Rightarrow> (string + LLMResponse) \<times> router" where
  "completion w service agent provider messages r =
    (let p = (case provider of Some p \<Rightarrow> p | None \<Rightarrow> OpencodeGo);
         ms = optimized_messages service agent messages
     in and_then (logEvent (selected_event p) r) (\<lambda>u r1.
        and_then (try_provider (w 0) p ms r1) (\<lambda>res r2.
          case res of
            Inr resp \<Rightarrow> (Inr resp, r2)
          | Inl e \<Rightarrow>
            if router_isRetryableError (ErrorThrown e) then
              and_then (logEvent (fallback_event p e) r2) (\<lambda>u r3.
                let q = fallback 0 (Some p) r3 in
                if q = p then and_then (logEvent (exhausted_event r3) r3) (\<lambda>u r4. (Inl e, r4))
                else and_then (try_provider (w 1) q ms r3) (\<lambda>res r4. (res, r4)))
            else (Inl e, r2))))"

section \<open>Facts on classification\<close>

lemma starts_with_append [simp]: "starts_with (w @ b) w"
  by (simp add: starts_with_def)

lemma has_word_after_intro:
  "\<not> is_word c \<Longrightarrow> w \<noteq> [] \<Longrightarrow> word_end b \<Longrightarrow> has_word_after k (a @ c # w @ b) w"
proof (induction a arbitrary: k)
  case Nil
  then obtain x xs where "w = x # xs" by (cases w) auto
  then have "has_word_after False (w @ b) w" using Nil by (simp add: starts_with_def)
  with Nil show ?case by simp
qed simp

text \<open>A status between blanks is found as a word, whatever surrounds it.\<close>

lemma status_word:
  assumes "names_status rep e" "w = show_nat (reply_status rep)" "to_lower w = w"
  shows "has_word (to_lower e) w"
proof -
  obtain pre post where e: "e = pre @ '' '' @ w @ '' '' @ statusText rep @ post"
    using assms(1,2) by (auto simp: names_status_def)
  have b: "lower_char (CHR '' '') = CHR '' ''" "\<not> is_word (CHR '' '')" by code_simp+
  have l: "to_lower e = to_lower pre @ CHR '' '' # w @ (CHR '' '' # to_lower (statusText rep @ post))"
    unfolding e using assms(3) b(1) by (simp add: to_lower_def)
  have "w \<noteq> []" using assms(2) show_nat.simps [of "reply_status rep"] by (auto split: if_splits)
  then show ?thesis unfolding has_word_def l by (intro has_word_after_intro) (simp_all add: word_end_def b)
qed

lemma status_contained: "names_status rep e \<Longrightarrow> contains e (show_nat (reply_status rep))"
  unfolding names_status_def contains_iff by (metis append.assoc)

lemma three_digits: "show_nat 401 = ''401''" "show_nat 403 = ''403''" "show_nat 429 = ''429''"
  by (simp_all add: show_nat.simps digit_char_def) (code_simp+)

text \<open>Words that turn an error into one that is retried with another provider.\<close>

definition retry_words :: "string list" where
  "retry_words = [''429'', ''rate limit'', ''timeout'', ''etimedout'', ''econnaborted'', ''network'', ''fetch'']"

lemma retryable_iff:
  "router_isRetryableError (ErrorThrown e) \<longleftrightarrow> (\<exists>w \<in> set retry_words. contains (to_lower e) w)"
proof -
  have "\<not> contains (to_lower e) ''ECONNREFUSED''" "\<not> contains (to_lower e) ''ENOTFOUND''"
    using to_lower_no_capital by (auto dest!: to_lower_no_capital simp: is_capital_def)
  then show ?thesis by (auto simp: router_isRetryableError_def retry_words_def Let_def)
qed

text \<open>The key a call refuses to go without; the others send whatever they have.\<close>

definition required_key :: "ProviderId \<Rightarrow> api_key option" where
  "required_key p = (case p of
     OpencodeGo \<Rightarrow> Some OpencodeKey | AnthropicApi \<Rightarrow> Some AnthropicKey | GeminiApi \<Rightarrow> Some GeminiDirectKey
   | Tavily \<Rightarrow> Some TavilyKey | MoonshotK25 \<Rightarrow> Some MoonshotKey | MoonshotK26 \<Rightarrow> Some MoonshotKey
   | XiaomiMimo \<Rightarrow> Some XiaomiKey | Qwen35Plus \<Rightarrow> Some AlibabaKey | Qwen36Plus \<Rightarrow> Some AlibabaKey
   | MinimaxM25 \<Rightarrow> Some MinimaxKey | MinimaxM27 \<Rightarrow> Some MinimaxKey | GlmDeepinfra \<Rightarrow> Some DeepinfraKey
   | GlmFireworks \<Rightarrow> Some FireworksKey | GlmZai \<Rightarrow> Some ZaiKey | Groq \<Rightarrow> Some GroqKey
   | Mistral \<Rightarrow> Some MistralKey | Openai \<Rightarrow> Some OpenaiKey | _ \<Rightarrow> None)"

lemma not_configured:
  "contains (to_lower e) ''api key not configured'' \<Longrightarrow> classifyError (ErrorThrown e) = AUTH_FAILURE"
  by (simp add: classifyError_def Let_def)

lemma key_message: "contains e ''API key not configured'' \<Longrightarrow> classifyError (ErrorThrown e) = AUTH_FAILURE"
proof -
  have "to_lower ''API key not configured'' = ''api key not configured''" by code_simp
  then show "contains e ''API key not configured'' \<Longrightarrow> classifyError (ErrorThrown e) = AUTH_FAILURE"
    using contains_to_lower [of e "''API key not configured''"] not_configured by simp
qed

lemma key_messages:
  "list_all (\<lambda>e. contains e ''API key not configured'')
    [''OpenCode API key not configured. Keys must start with 'oc-' or 'opencode-'.'',
     ''Anthropic API key not configured. Keys must start with 'sk-ant-api03-'.'',
     ''Google AI Studio API key not configured. Keys must start with 'AIza'.'',
     ''Tavily API key not configured. Get one at https://app.tavily.com/'',
     ''Moonshot API key not configured'', ''Xiaomi API key not configured'', ''Alibaba API key not configured'',
     ''MiniMax API key not configured'', ''DeepInfra API key not configured'', ''Fireworks API key not configured'',
     ''Z.ai API key not configured'', ''Groq API key not configured. Get one at https://console.groq.com/keys'',
     ''Mistral API key not configured. Get one at https://console.mistral.ai/'',
     ''OpenAI API key not configured. Get one at https://platform.openai.com/'']"
  by code_simp

lemma dispatch_missing_key:
  assumes "required_key p = Some k" "keys r k = []" "\<not> simulateFailure r"
  shows "\<exists>e. dispatch_call w p ms r = (Inl e, r) \<and> contains e ''API key not configured''"
  using assms key_messages
  by (cases p) (simp_all add: required_key_def dispatch_call_def call_defs callOpenCode_def callAnthropicApi_def
      callGeminiApi_def del: contains.simps)

text \<open>
  A call to a provider that needs a key and has none sends nothing, leaves the state as it is and
  fails with an error of class AUTH_FAILURE, which puts the provider on the long cooldown.\<close>

theorem missing_key:
  assumes "required_key p = Some k" "keys r k = []" "\<not> simulateFailure r" "eventLedger r = False"
  shows "\<exists>e. callProvider w p ms r = (Inl e, r) \<and> classifyError (ErrorThrown e) = AUTH_FAILURE"
  using dispatch_missing_key [OF assms(1-3), of w ms] assms(4) key_message
  by (auto simp: callProvider_def logLLMRequest_def)

lemma missing_key_witness:
  "\<exists>e. callProvider (demo_world (Inl [])) Groq [] (demo_router\<lparr>keys := (\<lambda>k. [])\<rparr>) =
      (Inl e, demo_router\<lparr>keys := (\<lambda>k. [])\<rparr>) \<and> classifyError (ErrorThrown e) = AUTH_FAILURE"
  using missing_key [of Groq GroqKey "demo_router\<lparr>keys := (\<lambda>k. [])\<rparr>" "demo_world (Inl [])" "[]"]
  by (auto simp: required_key_def)

text \<open>
  What an error status means: when the provider that was asked answers 401 or 403 the error has
  class AUTH_FAILURE, when it answers 429 the error is retried and has class RATE_LIMIT unless it
  also speaks of authorisation; this holds for every provider with an HTTP endpoint, whatever the
  status text and the body are.\<close>

theorem status_class:
  assumes "\<not> is_cli p" "dispatch_call w p ms r = (res, r')" "sent r' = sent r @ [req]"
    and "net w req = Inr rep" "reply_status rep \<in> {401, 403, 429}" "disk r = []"
  shows "\<exists>e. res = Inl e \<and>
    (reply_status rep \<noteq> 429 \<longrightarrow> classifyError (ErrorThrown e) = AUTH_FAILURE) \<and>
    (reply_status rep = 429 \<longrightarrow> router_isRetryableError (ErrorThrown e) \<and>
      classifyError (ErrorThrown e) \<in> {AUTH_FAILURE, RATE_LIMIT})"
proof -
  have bad: "\<not> reply_ok rep" using assms(5) by (auto simp: reply_ok_def)
  from http_call_dispatch [OF assms(1), of w r ms] obtain e where e: "res = Inl e" "names_status rep e"
    using assms(2,3,4,6) bad by (auto simp: http_call_def)
  have l: "to_lower ''401'' = ''401''" "to_lower ''403'' = ''403''" "to_lower ''429'' = ''429''" by code_simp+
  show ?thesis
  proof (cases "reply_status rep = 429")
    case True
    have "contains (to_lower e) (to_lower ''429'')"
      using contains_to_lower [OF status_contained [OF e(2)]] True by (simp add: three_digits)
    then have "router_isRetryableError (ErrorThrown e)" by (auto simp: retryable_iff retry_words_def l)
    moreover have "has_word (to_lower e) ''429''" by (rule status_word [OF e(2)]) (simp_all add: True three_digits l)
    ultimately show ?thesis using e(1) True by (simp add: classifyError_def Let_def)
  next
    case False
    then have "has_word (to_lower e) ''401'' \<or> has_word (to_lower e) ''403''"
      using assms(5) status_word [OF e(2)] three_digits l by auto
    then show ?thesis using e(1) False by (auto simp: classifyError_def Let_def)
  qed
qed

lemma status_class_witness:
  "classifyError (ErrorThrown (api_error ''Xiaomi MiMo'' (demo_status 403 ''Quota''))) = AUTH_FAILURE"
proof -
  define r' where "r' = snd (dispatch_call (demo_world (Inr (demo_status 403 ''Quota''))) XiaomiMimo [] demo_router)"
  define req where "req = last (sent r')"
  have "dispatch_call (demo_world (Inr (demo_status 403 ''Quota''))) XiaomiMimo [] demo_router =
      (Inl (api_error ''Xiaomi MiMo'' (demo_status 403 ''Quota'')), r')" "sent r' = [req]"
    by (simp_all add: r'_def req_def dispatch_call_def callXiaomi_def exchange_eq outcome_def demo_world_def
        reply_ok_def demo_status_def)
  then show ?thesis
    using status_class [of XiaomiMimo "demo_world (Inr (demo_status 403 ''Quota''))" "[]" demo_router _ r' req
      "demo_status 403 ''Quota''"]
    by (simp add: is_cli_def demo_world_def demo_status_def)
qed

end
