(* ===== verification/Provider_Completion.thy ===== *)
theory Provider_Completion
  imports Provider_Router
begin

text \<open>
  What the router of \<open>src/providers/router.ts\<close> guarantees: the choice of the fallback, the life of a
  cooldown from the failure that starts it to the timer that lifts it, and the outcomes of
  \<open>completion\<close>.
\<close>

section \<open>The fallback\<close>

lemma FALLBACK_ORDER_facts:
  "length FALLBACK_ORDER = 21" "distinct FALLBACK_ORDER" "set FALLBACK_ORDER = set allProviders"
  "FALLBACK_ORDER \<noteq> []"
  by (simp_all add: FALLBACK_ORDER_def allProviders_def insert_commute)

lemma index_of_Some: "index_of x ys = Some i \<Longrightarrow> i < length ys \<and> ys ! i = x"
  by (induction ys arbitrary: i) (auto split: if_splits)

lemma index_of_None: "index_of x ys = None \<longleftrightarrow> x \<notin> set ys"
  by (induction ys) auto

lemma find_rotate:
  assumes "x \<in> set xs" "P x" "n = length xs"
  shows "\<exists>i < n. List.find P (rotate k xs) = Some (xs ! ((k + i) mod n)) \<and> P (xs ! ((k + i) mod n)) \<and>
    (\<forall>j < i. \<not> P (xs ! ((k + j) mod n)))"
proof -
  have "List.find P (rotate k xs) \<noteq> None" using assms by (auto simp: find_None_iff)
  then obtain i where "i < length (rotate k xs)" "P (rotate k xs ! i)"
    "List.find P (rotate k xs) = Some (rotate k xs ! i)" "\<forall>j < i. \<not> P (rotate k xs ! j)"
    by (metis find_Some_iff not_None_eq)
  then show ?thesis using assms(3) by (auto simp: nth_rotate intro!: exI [of _ i])
qed

text \<open>If some provider is healthy, \<open>fallback\<close> returns a healthy one, the first of the priority list read
  cyclically from behind the failed provider, and never the failed provider itself while another is
  healthy. If none is, it returns \<open>anthropic-api\<close>, cooldown or not.\<close>

theorem fallback_choice:
  assumes "p0 \<in> set FALLBACK_ORDER" "healthy r p0"
  shows "(\<exists>i < 21. fallback rnd from r = FALLBACK_ORDER ! ((start_index rnd from + i) mod 21) \<and>
      (\<forall>j < i. \<not> healthy r (FALLBACK_ORDER ! ((start_index rnd from + j) mod 21)))) \<and>
    healthy r (fallback rnd from r) \<and> (from = Some p \<and> p \<noteq> p0 \<longrightarrow> fallback rnd from r \<noteq> p) \<and>
    (\<forall>r'. (\<forall>q. \<not> healthy r' q) \<longrightarrow> fallback rnd from r' = AnthropicApi)"
proof -
  let ?s = "start_index rnd from"
  from find_rotate [where P = "healthy r" and k = ?s, OF assms FALLBACK_ORDER_facts(1) [symmetric]] obtain i where i: "i < 21"
    "fallback rnd from r = FALLBACK_ORDER ! ((?s + i) mod 21)" "healthy r (fallback rnd from r)"
    "\<forall>j < i. \<not> healthy r (FALLBACK_ORDER ! ((?s + j) mod 21))"
    by (auto simp: fallback_def FALLBACK_ORDER_facts)
  obtain k where k: "k < 21" "FALLBACK_ORDER ! k = p0"
    using assms(1) FALLBACK_ORDER_facts(1) by (metis in_set_conv_nth)
  have "fallback rnd from r \<noteq> p" if f: "from = Some p" "p \<noteq> p0"
  proof
    assume eq: "fallback rnd from r = p"
    have "(?s + i) mod 21 < length FALLBACK_ORDER" using FALLBACK_ORDER_facts(1) by simp
    then have "p \<in> set FALLBACK_ORDER" using eq i(2) nth_mem by metis
    then obtain m where m: "index_of p FALLBACK_ORDER = Some m" using index_of_None by (metis not_None_eq)
    then have s: "?s = m + 1" "m < 21" "FALLBACK_ORDER ! m = p"
      using f(1) index_of_Some [OF m] FALLBACK_ORDER_facts(1) by (auto simp: start_index_def)
    have "(?s + i) mod 21 = m"
      using eq i(2) s FALLBACK_ORDER_facts(1,2) by (metis mod_less_divisor nth_eq_iff_index_eq zero_less_numeral)
    then have i20: "i = 20" using s(1,2) i(1) by (auto simp: mod_if split: if_splits)
    have "k \<noteq> m" using k(2) s(3) f(2) by auto
    then have "(?s + (if m < k then k - m - 1 else k + 20 - m)) mod 21 = k \<and>
        (if m < k then k - m - 1 else k + 20 - m) < 20"
      using s(1,2) k(1) by (auto simp: mod_if)
    then have "\<exists>j < 20. (?s + j) mod 21 = k" by blast
    with i(4) i20 k(2) assms(2) show False by blast
  qed
  moreover have "fallback rnd from r' = AnthropicApi" if "\<forall>q. \<not> healthy r' q" for r'
    using that by (auto simp: fallback_def FALLBACK_ORDER_def find_None_iff split: option.split
        dest!: find_SomeD)
  ultimately show ?thesis using i by blast
qed

lemma fallback_choice_witness:
  "fallback 0 (Some Groq) (put_health DeepseekV4 (fresh_health\<lparr>isOnCooldown := True\<rparr>) demo_router) \<noteq> Groq"
proof -
  have "healthy (put_health DeepseekV4 (fresh_health\<lparr>isOnCooldown := True\<rparr>) demo_router) Openai"
    by (simp add: healthy_def put_health_def allProviders_def fresh_health_def dget_def dset_def)
  from fallback_choice [OF _ this, of 0 "Some Groq" Groq] show ?thesis by (simp add: FALLBACK_ORDER_def)
qed

section \<open>Cooldowns\<close>

lemma dget_dset [simp]: "dget (dset k v m) k' = (if k' = k then Some v else dget m k')"
  by (induction m) (auto simp: dget_def dset_def)

text \<open>What the timer of a provider does, once and for a list of timers.\<close>

lemma cooldown_over_frame:
  "clock (cooldown_over p r) = clock r" "timers (cooldown_over p r) = timers r"
  "disk r = [] \<Longrightarrow> disk (cooldown_over p r) = []"
  using logEvent_same [of "put_health p h r" "expired_event p" for h]
  by (auto simp: cooldown_over_def same_health_def put_health_def split: option.splits)

lemma cooldown_over_health:
  "dget (providerHealth (cooldown_over p r)) q =
     (if q = p then map_option (\<lambda>h. h\<lparr>isOnCooldown := False, cooldownExpiresAt := None, failureCount := 0,
        retryAfterMs := None\<rparr>) (dget (providerHealth r) q) else dget (providerHealth r) q)"
  using logEvent_same(1) [of "put_health p h r" "expired_event p" for h]
  by (auto simp: cooldown_over_def same_health_def put_health_def split: option.splits)

lemma fold_over_frame:
  "clock (fold (\<lambda>t. cooldown_over (snd t)) ts r) = clock r \<and>
   timers (fold (\<lambda>t. cooldown_over (snd t)) ts r) = timers r \<and>
   (disk r = [] \<longrightarrow> disk (fold (\<lambda>t. cooldown_over (snd t)) ts r) = [])"
  by (induction ts arbitrary: r) (simp_all add: cooldown_over_frame)

lemma fold_over_cooldown:
  "router_isOnCooldown (fold (\<lambda>t. cooldown_over (snd t)) ts r) q \<longleftrightarrow>
     router_isOnCooldown r q \<and> q \<notin> snd ` set ts"
  by (induction ts arbitrary: r)
     (auto simp: router_isOnCooldown_def cooldown_over_health split: option.splits)

lemma advance_frame:
  "clock (advance now r) = now" "timers (advance now r) = filter (\<lambda>t. now < fst t) (timers r)"
  "disk r = [] \<Longrightarrow> disk (advance now r) = []"
  using fold_over_frame [of "sort_key fst (filter (\<lambda>t. fst t \<le> now) (timers r))"
      "r\<lparr>clock := now, timers := filter (\<lambda>t. now < fst t) (timers r)\<rparr>"]
  by (simp_all add: advance_def)

lemma advance_cooldown:
  "router_isOnCooldown (advance now r) q \<longleftrightarrow>
     router_isOnCooldown r q \<and> \<not> (\<exists>t. (t, q) \<in> set (timers r) \<and> t \<le> now)"
proof -
  have "router_isOnCooldown (r\<lparr>clock := now, timers := ts\<rparr>) q = router_isOnCooldown r q" for ts
    by (simp add: router_isOnCooldown_def)
  then show ?thesis by (force simp: advance_def fold_over_cooldown)
qed

text \<open>What a failure does, when the event file can be written.\<close>

lemma recordFailure_eq:
  assumes "disk r = []" "dget (providerHealth r) p = Some h0"
  shows "\<exists>r'. recordProviderFailure p cls retry r = (Inr (), r') \<and> disk r' = [] \<and> clock r' = clock r \<and>
    auth_cooldown r' = auth_cooldown r \<and> same_audit r r' \<and>
    (\<forall>q. q \<noteq> p \<longrightarrow> dget (providerHealth r') q = dget (providerHealth r) q) \<and>
    (let h = failed_health (clock r) cls retry h0 in
     case cooldown_ms r cls retry (failureCount h) of
       None \<Rightarrow> dget (providerHealth r') p = Some h \<and> timers r' = timers r
     | Some ms \<Rightarrow> dget (providerHealth r') p =
           Some (h\<lparr>isOnCooldown := True, cooldownExpiresAt := Some (fadd (of_int (clock r)) ms)\<rparr>) \<and>
         timers r' = timers r @ [(clock r + timer_delay ms, p)])"
  using assms
  by (simp add: recordProviderFailure_def put_health_def Let_def same_audit_def split: option.split)

lemma recordFailure_unknown: "dget (providerHealth r) p = None \<Longrightarrow> recordProviderFailure p cls retry r = (Inr (), r)"
  by (simp add: recordProviderFailure_def)

lemma recordSuccess_frame:
  "clock (recordProviderSuccess p r) = clock r \<and> timers (recordProviderSuccess p r) = timers r \<and>
   disk (recordProviderSuccess p r) = disk r \<and> same_audit r (recordProviderSuccess p r) \<and>
   router_isOnCooldown (recordProviderSuccess p r) q = (q \<noteq> p \<and> router_isOnCooldown r q)"
  by (auto simp: recordProviderSuccess_def put_health_def same_audit_def router_isOnCooldown_def split: option.split)

text \<open>Everything that happens to the health records: results of calls, in any order, and time.\<close>

datatype router_op = Fail ProviderId "ProviderErrorClass option" "rat option" | Succeed ProviderId | Wait nat

fun router_step :: "router_op \<Rightarrow> router \<Rightarrow> router" where
  "router_step (Fail p cls retry) r = snd (recordProviderFailure p cls retry r)"
| "router_step (Succeed p) r = recordProviderSuccess p r"
| "router_step (Wait n) r = advance (clock r + int n) r"

definition cooldown_inv :: "router \<Rightarrow> bool" where
  "cooldown_inv r \<longleftrightarrow> disk r = [] \<and> (\<forall>t p. (t, p) \<in> set (timers r) \<longrightarrow> clock r < t) \<and>
     (\<forall>p. router_isOnCooldown r p \<longrightarrow> (\<exists>t. (t, p) \<in> set (timers r)))"

lemma timer_delay_pos: "0 < timer_delay ms"
  by (auto simp: timer_delay_def)

lemma cooldown_inv_step: "cooldown_inv r \<Longrightarrow> cooldown_inv (router_step op r)"
proof (cases op)
  case (Fail p cls retry)
  assume inv: "cooldown_inv r"
  show ?thesis
  proof (cases "dget (providerHealth r) p")
    case None
    then show ?thesis using inv by (simp add: Fail recordFailure_unknown)
  next
    case (Some h0)
    from inv have d: "disk r = []" by (simp add: cooldown_inv_def)
    from recordFailure_eq [OF d Some, of cls retry] obtain r' where
      r': "recordProviderFailure p cls retry r = (Inr (), r')" "disk r' = []" "clock r' = clock r"
        "\<forall>q. q \<noteq> p \<longrightarrow> dget (providerHealth r') q = dget (providerHealth r) q"
      and c: "let h = failed_health (clock r) cls retry h0 in
         case cooldown_ms r cls retry (failureCount h) of
           None \<Rightarrow> dget (providerHealth r') p = Some h \<and> timers r' = timers r
         | Some ms \<Rightarrow> dget (providerHealth r') p =
             Some (h\<lparr>isOnCooldown := True, cooldownExpiresAt := Some (fadd (of_int (clock r)) ms)\<rparr>) \<and>
             timers r' = timers r @ [(clock r + timer_delay ms, p)]"
      by blast
    have other: "router_isOnCooldown r' q = router_isOnCooldown r q" if "q \<noteq> p" for q
      using r'(4) that by (simp add: router_isOnCooldown_def)
    show ?thesis
    proof (cases "cooldown_ms r cls retry (failureCount (failed_health (clock r) cls retry h0))")
      case None
      then have "timers r' = timers r" "router_isOnCooldown r' p = router_isOnCooldown r p"
        using c Some by (simp_all add: router_isOnCooldown_def failed_health_def)
      with inv r' other show ?thesis unfolding cooldown_inv_def Fail by simp metis
    next
      case ms: (Some ms)
      then have "timers r' = timers r @ [(clock r + timer_delay ms, p)]" using c by simp
      with inv r' other timer_delay_pos [of ms] show ?thesis unfolding cooldown_inv_def Fail
        by (simp add: r') metis
    qed
  qed
next
  case (Succeed p)
  assume "cooldown_inv r"
  with recordSuccess_frame [of p r] show ?thesis by (simp add: cooldown_inv_def Succeed)
next
  case (Wait n)
  assume "cooldown_inv r"
  then show ?thesis unfolding cooldown_inv_def Wait
    by (auto simp: advance_frame advance_cooldown) (metis not_le)
qed

definition router_next :: "router \<Rightarrow> router \<Rightarrow> bool" where
  "router_next r r' \<longleftrightarrow> (\<exists>op. r' = router_step op r)"

definition router_start :: "router \<Rightarrow> bool" where
  "router_start r \<longleftrightarrow> (\<exists>getKey carnice auth cfg now. r = new_router getKey carnice auth cfg now)"

lemma new_router_health:
  "providerHealth (new_router getKey carnice auth cfg now) = map (\<lambda>p. (p, fresh_health)) allProviders"
  by (simp add: new_router_def allProviders_def dset_def)

lemma fresh_available: "\<not> router_isOnCooldown (new_router getKey carnice auth cfg now) q"
  unfolding router_isOnCooldown_def new_router_health dget_def
  by (auto simp: fresh_health_def split: option.split dest!: map_of_SomeD)

interpretation cooldowns: invariant_machine router_start router_next cooldown_inv
proof
  fix r assume "router_start r"
  then show "cooldown_inv r"
    by (auto simp: router_start_def cooldown_inv_def fresh_available) (simp_all add: new_router_def)
qed (auto simp: router_next_def intro: cooldown_inv_step)

definition router_run :: "router_op list \<Rightarrow> router \<Rightarrow> router" where
  "router_run ops r = fold router_step ops r"

lemma router_run_steps: "rtranclp router_next r (router_run ops r)"
proof (induction ops arbitrary: r)
  case (Cons op ops)
  have "router_next r (router_step op r)" by (auto simp: router_next_def)
  with Cons show ?case by (auto simp: router_run_def intro: converse_rtranclp_into_rtranclp)
qed (simp add: router_run_def)

text \<open>No provider is locked out for ever: after any sequence of failures, successes and waits, as long
  as the event file can be written, every provider on cooldown has a timer that is still to run, and
  once the time of the last timer has passed no provider is on cooldown.\<close>

theorem cooldowns_end:
  assumes "router_start r0" "r = router_run ops r0" "\<forall>t p. (t, p) \<in> set (timers r) \<longrightarrow> t \<le> now"
  shows "(\<forall>p. router_isOnCooldown r p \<longrightarrow> (\<exists>t. clock r < t \<and> (t, p) \<in> set (timers r))) \<and>
    (\<forall>p. \<not> router_isOnCooldown (advance now r) p)"
proof -
  have "cooldown_inv r" using cooldowns.inv_reachable [OF assms(1) router_run_steps] assms(2) by simp
  with assms(3) show ?thesis unfolding cooldown_inv_def advance_cooldown by blast
qed

text \<open>
  Cooldowns can be lifted early: a timer is never cancelled, so a provider that fails again while a
  timer of its is pending (it was on cooldown, or had recovered in between) leaves the new cooldown when
  the old timer runs, before the time recorded as the end of the cooldown.\<close>

theorem cooldown_lifted_early:
  assumes "(t, p) \<in> set (timers r)" "dget (providerHealth r) p = Some h0" "disk r = []"
    and "of_int t < fadd (of_int (clock r)) (auth_cooldown r)"
  shows "\<exists>r' h e. recordProviderFailure p (Some AUTH_FAILURE) retry r = (Inr (), r') \<and>
    getProviderHealth r' p = Some h \<and> isOnCooldown h \<and> cooldownExpiresAt h = Some e \<and> of_int t < e \<and>
    \<not> router_isOnCooldown (advance t r') p"
proof -
  from recordFailure_eq [OF assms(3,2), of "Some AUTH_FAILURE" retry] obtain r' where
    r': "recordProviderFailure p (Some AUTH_FAILURE) retry r = (Inr (), r')"
      "dget (providerHealth r') p = Some ((failed_health (clock r) (Some AUTH_FAILURE) retry h0)
         \<lparr>isOnCooldown := True, cooldownExpiresAt := Some (fadd (of_int (clock r)) (auth_cooldown r))\<rparr>)"
      "timers r' = timers r @ [(clock r + timer_delay (auth_cooldown r), p)]"
    by (auto simp: cooldown_ms_def Let_def)
  then show ?thesis using assms(1,4)
    by (intro exI [of _ r'] exI conjI) (auto simp: getProviderHealth_def advance_cooldown)
qed

lemmas run_simps = router_run_def recordProviderFailure_def recordProviderSuccess_def put_health_def
  cooldown_ms_def timer_delay_def failed_health_def allProviders_def fresh_health_def dget_def dset_def
  router_isOnCooldown_def advance_def COOLDOWN_RATE_LIMIT_DEFAULT_MS_def

lemma cooldowns_end_witness:
  "router_isOnCooldown (router_run [Fail Groq (Some AUTH_FAILURE) None, Wait 10, Fail Groq (Some RATE_LIMIT) (Some 5000)]
     demo_router) Groq \<and>
   \<not> router_isOnCooldown (advance 3600000 (router_run [Fail Groq (Some AUTH_FAILURE) None, Wait 10,
     Fail Groq (Some RATE_LIMIT) (Some 5000)] demo_router)) Groq"
proof -
  let ?ops = "[Fail Groq (Some AUTH_FAILURE) None, Wait 10, Fail Groq (Some RATE_LIMIT) (Some 5000)]"
  have "router_start demo_router" unfolding router_start_def demo_router_def by blast
  moreover have "timers (router_run ?ops demo_router) = [(3600000, Groq), (5010, Groq)]"
    by (simp add: run_simps)
  moreover have "router_isOnCooldown (router_run ?ops demo_router) Groq" by (simp add: run_simps)
  ultimately show ?thesis using cooldowns_end [of demo_router _ ?ops 3600000, OF _ refl] by simp
qed

lemma cooldown_lifted_early_witness:
  "\<exists>r' h e. recordProviderFailure Groq (Some AUTH_FAILURE) None
      (router_run [Fail Groq (Some RATE_LIMIT) None, Wait 299999, Succeed Groq] demo_router) = (Inr (), r') \<and>
    getProviderHealth r' Groq = Some h \<and> cooldownExpiresAt h = Some e \<and> 300000 < e \<and>
    \<not> router_isOnCooldown (advance 300000 r') Groq"
proof -
  let ?r = "router_run [Fail Groq (Some RATE_LIMIT) None, Wait 299999, Succeed Groq] demo_router"
  have "timers ?r = [(300000, Groq)]" "disk ?r = []" "clock ?r = 299999" "auth_cooldown ?r = 3600000"
    "dget (providerHealth ?r) Groq \<noteq> None"
    by (simp_all add: run_simps)
  moreover have "of_int 300000 < fadd (of_int 299999) 3600000" by code_simp
  ultimately show ?thesis using cooldown_lifted_early [of 300000 Groq ?r _ None] by fastforce
qed

section \<open>Completion\<close>

text \<open>The state in which the first provider is called.\<close>

definition selected :: "ProviderId \<Rightarrow> router \<Rightarrow> router" where
  "selected p r = r\<lparr>events := events r @ [selected_event p]\<rparr>"

lemma selected_simps [simp]:
  "disk (selected p r) = disk r" "providerHealth (selected p r) = providerHealth r" "clock (selected p r) = clock r"
  "eventLedger (selected p r) = eventLedger r" "ledger_answers (selected p r) = ledger_answers r"
  "llm_requests (selected p r) = llm_requests r" "auth_cooldown (selected p r) = auth_cooldown r"
  "timers (selected p r) = timers r" "router_isOnCooldown (selected p r) q = router_isOnCooldown r q"
  by (simp_all add: selected_def router_isOnCooldown_def)

text \<open>An attempt in a quiet, writable world: the failure or the success is recorded, nothing else.\<close>

definition quiet :: "attempt_world \<Rightarrow> bool" where
  "quiet w \<longleftrightarrow> snd w = id"

lemma try_success:
  "quiet w \<Longrightarrow> callProvider (fst w) p ms r = (Inr resp, r1) \<Longrightarrow>
   try_provider w p ms r = (Inr (Inr resp), recordProviderSuccess p r1)"
  by (simp add: try_provider_def quiet_def)

lemma recordFailure_writable:
  "disk r = [] \<Longrightarrow> \<exists>r'. recordProviderFailure p cls retry r = (Inr (), r') \<and> disk r' = [] \<and> same_audit r r' \<and>
     clock r' = clock r \<and> (\<forall>q. q \<noteq> p \<longrightarrow> dget (providerHealth r') q = dget (providerHealth r) q)"
proof (cases "dget (providerHealth r) p")
  case (Some h)
  then show "disk r = [] \<Longrightarrow> ?thesis" using recordFailure_eq [OF _ Some, of cls retry] by blast
qed (simp add: recordFailure_unknown same_audit_def)

lemma try_failure:
  assumes "quiet w" "callProvider (fst w) p ms r = (Inl e, r1)" "disk r = []"
  shows "try_provider w p ms r = (Inr (Inl e), snd (recordProviderFailure p (Some (classifyError (ErrorThrown e)))
    (parseRetryAfterMs (ErrorThrown e)) r1))"
proof -
  have "disk r1 = []" using callProvider_same [of r "fst w" p ms] assms(2,3) by (simp add: same_health_def)
  then obtain r2 where "recordProviderFailure p (Some (classifyError (ErrorThrown e)))
      (parseRetryAfterMs (ErrorThrown e)) r1 = (Inr (), r2)"
    using recordFailure_writable by blast
  with assms(1,2) show ?thesis by (simp add: try_provider_def quiet_def)
qed

text \<open>A completed attempt adds its call to the shared ledger and leaves the file writable.\<close>

lemma try_audit:
  assumes "quiet w" "disk r = []" "eventLedger r" "ledger_answers r = []"
  shows "\<exists>res r'. try_provider w p ms r = (Inr res, r') \<and> res = fst (callProvider (fst w) p ms r) \<and> disk r' = [] \<and>
    eventLedger r' \<and> ledger_answers r' = [] \<and> llm_requests r' = llm_requests r @ [(p, MODEL_NAMES p, ms)]"
proof -
  obtain res r1 where c: "callProvider (fst w) p ms r = (res, r1)" by force
  have d: "disk r1 = []" using callProvider_same [of r "fst w" p ms] c assms(2) by (simp add: same_health_def)
  have a: "eventLedger r1 \<and> ledger_answers r1 = [] \<and> llm_requests r1 = llm_requests r @ [(p, MODEL_NAMES p, ms)]"
    using callProvider_audit [OF assms(3,4) c] .
  show ?thesis
  proof (cases res)
    case (Inl e)
    obtain r2 where r2: "recordProviderFailure p (Some (classifyError (ErrorThrown e)))
        (parseRetryAfterMs (ErrorThrown e)) r1 = (Inr (), r2)" "disk r2 = []" "same_audit r1 r2"
      using recordFailure_writable [OF d] by blast
    then show ?thesis using try_failure [OF assms(1) c [unfolded Inl] assms(2)] a c Inl
      by (simp add: same_audit_def)
  next
    case (Inr resp)
    then show ?thesis using try_success [OF assms(1) c [unfolded Inr]] recordSuccess_frame [of p r1] a c d
      by (auto simp: same_audit_def)
  qed
qed

text \<open>
  The router in which \<open>completion\<close> looks for another provider: the one after the failed call, with the
  failure of \<open>p\<close> recorded and the event of the change.\<close>

definition changing_over :: "outside \<Rightarrow> ProviderId \<Rightarrow> LLMMessage list \<Rightarrow> string \<Rightarrow> router \<Rightarrow> router" where
  "changing_over v p ms e r =
    (let r2 = snd (recordProviderFailure p (Some (classifyError (ErrorThrown e))) (parseRetryAfterMs (ErrorThrown e))
        (snd (callProvider v p ms (selected p r))))
     in r2\<lparr>events := events r2 @ [fallback_event p e]\<rparr>)"

lemma healthy_changed: "q \<noteq> p \<Longrightarrow> disk r = [] \<Longrightarrow> healthy (changing_over v p ms e r) q = healthy r q"
proof -
  assume q: "q \<noteq> p" and d: "disk r = []"
  let ?r1 = "snd (callProvider v p ms (selected p r))"
  have h: "providerHealth ?r1 = providerHealth r" "disk ?r1 = []"
    using callProvider_same [of "selected p r" v p ms] d by (simp_all add: same_health_def)
  obtain r2 where "recordProviderFailure p (Some (classifyError (ErrorThrown e))) (parseRetryAfterMs (ErrorThrown e)) ?r1 = (Inr (), r2)"
    "dget (providerHealth r2) q = dget (providerHealth r) q"
    using recordFailure_writable [OF h(2)] q h(1) by metis
  then show ?thesis by (simp add: changing_over_def healthy_def Let_def)
qed

lemma fallback_healthy: "healthy r (fallback rnd from r) \<or> fallback rnd from r = AnthropicApi"
  by (auto simp: fallback_def FALLBACK_ORDER_def split: option.split dest: find_SomeD)

lemma completion_exact:
  assumes "quiet (w 0)" "quiet (w 1)" "disk r = []" "eventLedger r" "ledger_answers r = []"
    and "completion w service agent provider messages r = (res, r')"
    and "p = (case provider of Some p \<Rightarrow> p | None \<Rightarrow> OpencodeGo)" "ms = optimized_messages service agent messages"
  shows "case fst (callProvider (fst (w 0)) p ms (selected p r)) of
      Inr resp \<Rightarrow> res = Inr resp \<and> llm_requests r' = llm_requests r @ [(p, MODEL_NAMES p, ms)]
    | Inl e \<Rightarrow>
        let s = changing_over (fst (w 0)) p ms e r; q = fallback 0 (Some p) s in
        if router_isRetryableError (ErrorThrown e) \<and> q \<noteq> p
        then res = fst (callProvider (fst (w 1)) q ms s) \<and> (healthy r q \<or> q = AnthropicApi) \<and>
          llm_requests r' = llm_requests r @ [(p, MODEL_NAMES p, ms), (q, MODEL_NAMES q, ms)]
        else res = Inl e \<and> llm_requests r' = llm_requests r @ [(p, MODEL_NAMES p, ms)]"
proof -
  obtain first r0 where c0: "callProvider (fst (w 0)) p ms (selected p r) = (first, r0)" by force
  obtain r1 where t1: "try_provider (w 0) p ms (selected p r) = (Inr first, r1)" "disk r1 = []" "eventLedger r1"
    "ledger_answers r1 = []" "llm_requests r1 = llm_requests r @ [(p, MODEL_NAMES p, ms)]"
    using try_audit [OF assms(1), of "selected p r" p ms] assms(3-5) c0 by auto
  show ?thesis
  proof (cases first)
    case (Inr resp)
    then have "completion w service agent provider messages r = (Inr resp, r1)"
      using t1(1) assms(3) unfolding assms(7,8) by (simp add: completion_def selected_def Let_def)
    then show ?thesis using assms(6) t1(5) Inr by (simp add: c0)
  next
    case (Inl e)
    define s where "s = changing_over (fst (w 0)) p ms e r"
    define q where "q = fallback 0 (Some p) s"
    have "try_provider (w 0) p ms (selected p r) = (Inr (Inl e), snd (recordProviderFailure p
        (Some (classifyError (ErrorThrown e))) (parseRetryAfterMs (ErrorThrown e)) r0))"
      using try_failure [OF assms(1) c0 [unfolded Inl]] assms(3) by simp
    then have "r1 = snd (recordProviderFailure p
        (Some (classifyError (ErrorThrown e))) (parseRetryAfterMs (ErrorThrown e)) r0)"
      using t1(1) by simp
    then have s: "s = r1\<lparr>events := events r1 @ [fallback_event p e]\<rparr>"
      by (simp add: s_def changing_over_def c0 Let_def)
    then have st: "disk s = []" "eventLedger s" "ledger_answers s = []" "llm_requests s = llm_requests r1"
      using t1 by simp_all
    have c: "completion w service agent provider messages r =
        (if router_isRetryableError (ErrorThrown e) then
           if q = p then (Inl e, s\<lparr>events := events s @ [exhausted_event s]\<rparr>)
           else and_then (try_provider (w 1) q ms s) (\<lambda>res r4. (res, r4))
         else (Inl e, r1))"
      using assms(3) t1(1,2) st(1) unfolding assms(7,8) q_def s Inl by (simp add: completion_def selected_def Let_def)
    have h: "healthy r q \<or> q = AnthropicApi" if "q \<noteq> p"
      using healthy_changed [OF that assms(3)] fallback_healthy [of s 0 "Some p"] by (auto simp: q_def s_def)
    obtain r3 where t2: "try_provider (w 1) q ms s = (Inr (fst (callProvider (fst (w 1)) q ms s)), r3)"
      "llm_requests r3 = llm_requests s @ [(q, MODEL_NAMES q, ms)]"
      using try_audit [OF assms(2) st(1-3), of q ms] by blast
    from c h t2 st t1(5) assms(6) show ?thesis
      by (simp add: c0 Inl Let_def s_def [symmetric] q_def [symmetric] split: if_splits)
  qed
qed

text \<open>C34.
  Whom \<open>completion\<close> calls and what it answers, with or without a named provider and context service, provided that nothing
  else happens to the router while a call waits, that the event file can be written, and that the event ledger is
  on and takes every entry (a write or an entry that fails ends the call with that error instead). The selected provider is
  called first. Its answer is the answer; so is its error when it is not worth a retry or when the search for another
  provider, in the router with the failure recorded, comes back to it. Otherwise the provider found is called with the same
  messages, it was not on cooldown before the call or is the last resort, and its answer or error is the result. There
  is no third call: the ledger's entries of requests grow by exactly those calls, in order.\<close>

theorem completion_calls:
  assumes "quiet (w 0)" "quiet (w 1)" "disk r = []" "eventLedger r" "ledger_answers r = []"
    and "completion w service agent provider messages r = (res, r')"
    and "p = (case provider of Some p \<Rightarrow> p | None \<Rightarrow> OpencodeGo)" "ms = optimized_messages service agent messages"
  shows "case fst (callProvider (fst (w 0)) p ms (selected p r)) of
      Inr resp \<Rightarrow> res = Inr resp \<and> llm_requests r' = llm_requests r @ [(p, MODEL_NAMES p, ms)]
    | Inl e \<Rightarrow>
        let s = changing_over (fst (w 0)) p ms e r; q = fallback 0 (Some p) s in
        if router_isRetryableError (ErrorThrown e) \<and> q \<noteq> p
        then res = fst (callProvider (fst (w 1)) q ms s) \<and> (healthy r q \<or> q = AnthropicApi) \<and>
          llm_requests r' = llm_requests r @ [(p, MODEL_NAMES p, ms), (q, MODEL_NAMES q, ms)]
        else res = Inl e \<and> llm_requests r' = llm_requests r @ [(p, MODEL_NAMES p, ms)]"
  using assms by (rule completion_exact)

lemma optimized_off [simp]: "optimized_messages None agent ms = ms"
  by (simp add: optimized_messages_def split: option.split list.split)

text \<open>Groq is rate limited, and the provider behind it in the order of fallbacks works.\<close>

definition demo_worlds :: "nat \<Rightarrow> attempt_world" where
  "demo_worlds k = (demo_world (Inr (if k = 0 then demo_status 429 ''Busy'' else demo_answer)), id)"

lemma demo_ledger: "llm_requests demo_router = []" "ledger_answers demo_router = []"
  by (simp_all add: demo_router_def new_router_def)

definition demo_429 :: string where
  "demo_429 = api_error_text ''Groq'' (demo_status 429 ''Busy'')"

lemma demo_first_fails: "fst (callProvider (fst (demo_worlds 0)) Groq ms (selected Groq (demo_router\<lparr>eventLedger := True\<rparr>))) = Inl demo_429"
  by (simp add: callProvider_def logLLMRequest_def dispatch_call_def callGroq_def exchange_eq outcome_def demo_429_def
      demo_worlds_def demo_world_def reply_ok_def demo_status_def demo_ledger selected_def Let_def)

lemma demo_second_works:
  "ledger_answers r = [] \<Longrightarrow> \<exists>resp. fst (callProvider (fst (demo_worlds 1)) DeepseekV4 ms r) = Inr resp"
  by (simp add: callProvider_def logLLMRequest_def dispatch_call_def callDeepSeekV4_def exchange_eq outcome_def
      demo_worlds_def demo_world_def demo_answer_def reply_ok_def read_chat_def chat_answer_def or_else_def dget_def Let_def)

lemma demo_quiet: "quiet (demo_worlds k)"
  by (simp add: quiet_def demo_worlds_def)

lemma demo_retryable: "router_isRetryableError (ErrorThrown demo_429)"
  by code_simp

definition demo_over :: router where
  "demo_over = changing_over (fst (demo_worlds 0)) Groq [] demo_429 (demo_router\<lparr>eventLedger := True\<rparr>)"

lemma demo_over: "fallback 0 (Some Groq) demo_over = DeepseekV4" "ledger_answers demo_over = []"
proof -
  let ?r = "demo_router\<lparr>eventLedger := True\<rparr>"
  have "healthy demo_over DeepseekV4"
    unfolding demo_over_def by (subst healthy_changed) (simp_all add: healthy_def dget_def allProviders_def fresh_health_def)
  then show "fallback 0 (Some Groq) demo_over = DeepseekV4"
    by (simp add: fallback_def FALLBACK_ORDER_def start_index_def numeral_eq_Suc)
  define r1 where "r1 = snd (callProvider (fst (demo_worlds 0)) Groq [] (selected Groq ?r))"
  have c: "callProvider (fst (demo_worlds 0)) Groq [] (selected Groq ?r) = (Inl demo_429, r1)"
    using demo_first_fails [of "[]"] by (simp add: r1_def prod_eq_iff)
  have s1: "same_health (selected Groq ?r) r1" "ledger_answers r1 = []"
    using callProvider_same [of "selected Groq ?r" "fst (demo_worlds 0)" Groq "[]"]
      callProvider_audit [of "selected Groq ?r" "fst (demo_worlds 0)" Groq "[]", OF _ _ c] by (simp_all add: c demo_ledger)
  then have "disk r1 = []" by (simp add: same_health_def)
  then obtain r2 where "recordProviderFailure Groq (Some (classifyError (ErrorThrown demo_429)))
      (parseRetryAfterMs (ErrorThrown demo_429)) r1 = (Inr (), r2)" "same_audit r1 r2"
    using recordFailure_writable by blast
  then show "ledger_answers demo_over = []" using s1(2)
    by (simp add: demo_over_def changing_over_def c same_audit_def Let_def)
qed

lemma completion_calls_witness:
  "\<exists>resp r'. completion demo_worlds None None (Some Groq) [] (demo_router\<lparr>eventLedger := True\<rparr>) = (Inr resp, r') \<and>
     map fst (llm_requests r') = [Groq, DeepseekV4]"
proof -
  let ?r = "demo_router\<lparr>eventLedger := True\<rparr>"
  obtain res r' where c: "completion demo_worlds None None (Some Groq) [] ?r = (res, r')" by force
  have "res = fst (callProvider (fst (demo_worlds 1)) DeepseekV4 [] demo_over)" "map fst (llm_requests r') = [Groq, DeepseekV4]"
    using completion_calls [OF demo_quiet demo_quiet _ _ _ c, OF _ _ _ refl refl]
    by (simp_all add: demo_first_fails demo_ledger demo_retryable demo_over(1) Let_def flip: demo_over_def)
  then show ?thesis using c demo_second_works [OF demo_over(2), of "[]"] by auto
qed

text \<open>An error that is not worth a retry ends \<open>completion\<close> with that error; the records of the other
  providers stay as they were, and if it is an authentication failure of a provider with a record, the
  provider is on cooldown from now for the configured time and marked for a key refresh.\<close>

theorem completion_no_retry:
  assumes "quiet (w 0)" "disk r = []" "completion w None agent (Some p) ms r = (res, r')"
    and "fst (callProvider (fst (w 0)) p ms (selected p r)) = Inl e" "\<not> router_isRetryableError (ErrorThrown e)"
  shows "res = Inl e \<and> (\<forall>q. q \<noteq> p \<longrightarrow> getProviderHealth r' q = getProviderHealth r q) \<and>
    (classifyError (ErrorThrown e) = AUTH_FAILURE \<and> getProviderHealth r p \<noteq> None \<longrightarrow>
      (\<exists>h. getProviderHealth r' p = Some h \<and> isOnCooldown h \<and> needsAuthRefresh h \<and>
        cooldownExpiresAt h = Some (fadd (of_int (clock r)) (auth_cooldown r))))"
proof -
  obtain r1 where c: "callProvider (fst (w 0)) p ms (selected p r) = (Inl e, r1)"
    using assms(4) by (cases "callProvider (fst (w 0)) p ms (selected p r)") auto
  then have s: "same_health (selected p r) r1" using callProvider_same [of "selected p r" "fst (w 0)" p ms] by simp
  define cls where "cls = classifyError (ErrorThrown e)"
  define retry where "retry = parseRetryAfterMs (ErrorThrown e)"
  have d: "disk r1 = []" using s assms(2) by (simp add: same_health_def)
  obtain r2 where r2: "recordProviderFailure p (Some cls) retry r1 = (Inr (), r2)"
    "\<forall>q. q \<noteq> p \<longrightarrow> dget (providerHealth r2) q = dget (providerHealth r1) q"
    using recordFailure_writable [OF d] by blast
  have "try_provider (w 0) p ms (selected p r) = (Inr (Inl e), r2)"
    using try_failure [OF assms(1) c] assms(2) r2(1) by (simp add: cls_def retry_def)
  then have res: "res = Inl e \<and> r' = r2"
    using assms(2,3,5) by (simp add: completion_def selected_def)
  have "\<exists>h. getProviderHealth r2 p = Some h \<and> isOnCooldown h \<and> needsAuthRefresh h \<and>
      cooldownExpiresAt h = Some (fadd (of_int (clock r)) (auth_cooldown r))"
    if "cls = AUTH_FAILURE" "getProviderHealth r p \<noteq> None"
  proof -
    from that(2) s obtain h0 where "dget (providerHealth r1) p = Some h0"
      by (auto simp: getProviderHealth_def same_health_def)
    from recordFailure_eq [OF d this, of "Some cls" retry] r2(1) that(1) s show ?thesis
      by (auto simp: cooldown_ms_def Let_def getProviderHealth_def failed_health_def same_health_def)
  qed
  with res r2(2) s show ?thesis by (auto simp: cls_def getProviderHealth_def same_health_def)
qed

lemma completion_no_retry_witness:
  "\<exists>h r'. completion (\<lambda>k. (demo_world (Inl []), id)) None None (Some MoonshotK26) [] (demo_router\<lparr>keys := (\<lambda>k. [])\<rparr>) =
     (Inl ''Moonshot API key not configured'', r') \<and> getProviderHealth r' MoonshotK26 = Some h \<and> isOnCooldown h"
proof -
  let ?e = "''Moonshot API key not configured''" and ?r = "demo_router\<lparr>keys := (\<lambda>k. [])\<rparr>"
  obtain res r' where c: "completion (\<lambda>k. (demo_world (Inl []), id)) None None (Some MoonshotK26) [] ?r = (res, r')"
    by force
  have "quiet (demo_world (Inl []), id)" "disk ?r = []" "getProviderHealth ?r MoonshotK26 \<noteq> None"
    "fst (callProvider (fst (demo_world (Inl []), id)) MoonshotK26 [] (selected MoonshotK26 ?r)) = Inl ?e"
    by (simp_all add: quiet_def getProviderHealth_def allProviders_def dget_def callProvider_def logLLMRequest_def
        selected_def dispatch_call_def callMoonshot_def)
  moreover have "\<not> router_isRetryableError (ErrorThrown ?e)" "classifyError (ErrorThrown ?e) = AUTH_FAILURE"
    by code_simp+
  ultimately show ?thesis using completion_no_retry [of "\<lambda>k. (demo_world (Inl []), id)" ?r None MoonshotK26 "[]" res r' ?e] c
    by auto
qed

section \<open>Command line drivers\<close>

definition cli_binary :: "ProviderId \<Rightarrow> string" where
  "cli_binary p = (case p of ClaudeCodeCli \<Rightarrow> ''claude'' | CodexCli \<Rightarrow> ''codex'' | _ \<Rightarrow> ''gemini'')"

definition timed_out_message :: "ProviderId \<Rightarrow> string" where
  "timed_out_message p = provider_name p @ '': CLI driver timed out after 120000 ms (binary='' @ cli_binary p @ '')''"

lemma timed_out_class:
  "list_all (\<lambda>p. \<not> router_isRetryableError (ErrorThrown (timed_out_message p)) \<and>
     classifyError (ErrorThrown (timed_out_message p)) = MODEL_ERROR) [ClaudeCodeCli, CodexCli, GeminiCli]"
  by code_simp

lemma cli_timed_out:
  assumes "is_cli p" "\<forall>b a i t. run b a i t = TimedOut"
  shows "\<exists>cfg. dget (loadCliDriverRegistry None) (provider_name p) = Some cfg \<and>
    callCliDriver run cfg ms = Inl (timed_out_message p)"
proof -
  have t: "show_nat 120000 = ''120000''" by (simp add: show_nat.simps digit_char_def) code_simp
  from assms show ?thesis
    by (cases p) (simp_all add: is_cli_def loadCliDriverRegistry_def BUILTIN_CLI_DRIVERS_def dget_def dset_def
        callCliDriver_def timed_out_message_def cli_binary_def t Let_def)
qed

text \<open>
  A command line agent that runs into its time limit is not replaced: the message of the driver is
  classified as a model error and not as worth a retry, so \<open>completion\<close> fails with it, calls no other
  provider, and, the three drivers having no health record, leaves no trace in the records.\<close>

theorem cli_timeout_fails:
  assumes "is_cli p" "\<forall>b a i t. run_process (fst (w 0)) b a i t = TimedOut" "drivers_file (fst (w 0)) = None"
    and "cliRegistry r = None" "quiet (w 0)" "disk r = []" "eventLedger r = False" "getProviderHealth r p = None"
  shows "\<exists>r'. completion w None agent (Some p) ms r = (Inl (timed_out_message p), r') \<and>
    providerHealth r' = providerHealth r \<and> sent r' = sent r"
proof -
  have p: "p \<in> {ClaudeCodeCli, CodexCli, GeminiCli}" using assms(1) by (simp add: is_cli_def)
  obtain cfg where "dget (loadCliDriverRegistry None) (provider_name p) = Some cfg"
    "callCliDriver (run_process (fst (w 0))) cfg ms = Inl (timed_out_message p)"
    using cli_timed_out [OF assms(1,2)] by blast
  moreover have "dispatch_call v p ms s = router_callCliDriver v p ms s" for v s
    using p by (auto simp: dispatch_call_def)
  ultimately have "callProvider (fst (w 0)) p ms (selected p r) =
      (Inl (timed_out_message p), (selected p r)\<lparr>cliRegistry := Some (loadCliDriverRegistry None)\<rparr>)"
    using assms(3,4,7) by (simp add: callProvider_def logLLMRequest_def router_callCliDriver_def selected_def)
  then have "try_provider (w 0) p ms (selected p r) =
      (Inr (Inl (timed_out_message p)), (selected p r)\<lparr>cliRegistry := Some (loadCliDriverRegistry None)\<rparr>)"
    using assms(5,6,8) by (simp add: try_failure recordFailure_unknown getProviderHealth_def selected_def)
  moreover have "\<not> router_isRetryableError (ErrorThrown (timed_out_message p))"
    using timed_out_class p by (auto simp del: append.simps)
  ultimately show ?thesis using assms(6)
    by (simp add: completion_def selected_def)
qed

lemma cli_timeout_fails_witness:
  "\<exists>r'. completion (\<lambda>k. (demo_world (Inl []), id)) None None (Some ClaudeCodeCli) [] demo_router =
     (Inl (timed_out_message ClaudeCodeCli), r') \<and> providerHealth r' = providerHealth demo_router"
  using cli_timeout_fails [of ClaudeCodeCli "\<lambda>k. (demo_world (Inl []), id)" demo_router None "[]"]
  by (auto simp: is_cli_def demo_world_def quiet_def getProviderHealth_def allProviders_def dget_def)

end
