(* ===== verification/Js_Double.thy ===== *)
theory Js_Double
  imports Js_Number
begin

text \<open>
  The whole of the JavaScript numbers (IEEE 754 binary64): a rational number rounded to nearest, ties
  to even, with the subnormal numbers and the overflow, the two infinities and NaN. Used where a
  result depends on the ends of the range, as it does in the sampling of \<^verbatim>\<open>Capability_Stats\<close>. The two
  zeros are one value; the source divides by no zero that could be negative.
\<close>

section \<open>Rounding\<close>

text \<open>The exponent of the last place of the significand of a positive number.\<close>

definition last_place :: "rat \<Rightarrow> int" where
  "last_place x = max (binexp x - 52) (- 1074)"

definition magnitude :: "rat \<Rightarrow> rat" where
  "magnitude x = of_int (round_even (x * 2 powi (- last_place x))) * 2 powi last_place x"

definition round_double :: "rat \<Rightarrow> rat" where
  "round_double x = (if x = 0 then 0 else if 0 < x then magnitude x else - magnitude (- x))"

definition huge :: rat where "huge = 2 ^ 1024"

datatype double = Dbl rat | Infty bool | Nan

text \<open>\<open>Infty True\<close> is the positive one.\<close>

definition dbl :: "rat \<Rightarrow> double" where
  "dbl x = (if huge \<le> \<bar>round_double x\<bar> then Infty (0 < x) else Dbl (round_double x))"

section \<open>Operations\<close>

fun dadd :: "double \<Rightarrow> double \<Rightarrow> double" where
  "dadd (Dbl x) (Dbl y) = dbl (x + y)"
| "dadd (Infty s) (Infty t) = (if s = t then Infty s else Nan)"
| "dadd (Infty s) (Dbl y) = Infty s"
| "dadd (Dbl x) (Infty t) = Infty t"
| "dadd a b = Nan"

fun dneg :: "double \<Rightarrow> double" where
  "dneg (Dbl x) = Dbl (- x)"
| "dneg (Infty s) = Infty (\<not> s)"
| "dneg Nan = Nan"

definition dsub :: "double \<Rightarrow> double \<Rightarrow> double" where
  "dsub a b = dadd a (dneg b)"

fun dmul :: "double \<Rightarrow> double \<Rightarrow> double" where
  "dmul (Dbl x) (Dbl y) = dbl (x * y)"
| "dmul (Infty s) (Infty t) = Infty (s = t)"
| "dmul (Infty s) (Dbl y) = (if y = 0 then Nan else Infty (s = (0 < y)))"
| "dmul (Dbl x) (Infty t) = (if x = 0 then Nan else Infty (t = (0 < x)))"
| "dmul a b = Nan"

fun ddiv :: "double \<Rightarrow> double \<Rightarrow> double" where
  "ddiv (Dbl x) (Dbl y) = (if y = 0 then (if x = 0 then Nan else Infty (0 < x)) else dbl (x / y))"
| "ddiv (Infty s) (Dbl y) = Infty (s = (0 \<le> y))"
| "ddiv (Dbl x) (Infty t) = Dbl 0"
| "ddiv a b = Nan"

text \<open>Every comparison with NaN is false.\<close>

fun dless :: "double \<Rightarrow> double \<Rightarrow> bool" where
  "dless (Dbl x) (Dbl y) \<longleftrightarrow> x < y"
| "dless (Infty s) (Infty t) \<longleftrightarrow> \<not> s \<and> t"
| "dless (Infty s) (Dbl y) \<longleftrightarrow> \<not> s"
| "dless (Dbl x) (Infty t) \<longleftrightarrow> t"
| "dless a b \<longleftrightarrow> False"

definition dle :: "double \<Rightarrow> double \<Rightarrow> bool" where
  "dle a b \<longleftrightarrow> dless a b \<or> a = b \<and> a \<noteq> Nan"

lemma dle_Dbl [simp]: "dle (Dbl x) (Dbl y) \<longleftrightarrow> x \<le> y"
  by (auto simp: dle_def)

section \<open>Rounding is monotone\<close>

lemma last_place_mono: "0 < x \<Longrightarrow> x \<le> y \<Longrightarrow> last_place x \<le> last_place y"
  using binexp_mono by (fastforce simp: last_place_def)

lemma powi_add: "(2 :: rat) powi (a + b) = 2 powi a * 2 powi b"
  by (rule power_int_add) simp

lemma scaled: "(x :: rat) = x * 2 powi (- e) * 2 powi e"
  by (simp add: power_int_minus)

text \<open>The significand has at most 53 bits, and all of them above the subnormal numbers.\<close>

lemma magnitude_below:
  assumes "0 < x" "last_place x \<le> e"
  shows "magnitude x \<le> 2 powi (e + 53)"
proof -
  let ?l = "last_place x"
  have "x < 2 powi (binexp x + 1)" using binexp_bounds [OF assms(1)] by blast
  also have "\<dots> \<le> 2 powi (?l + 53)" by (intro power_int_increasing) (simp_all add: last_place_def)
  finally have "x * 2 powi (- ?l) \<le> 2 powi (?l + 53) * 2 powi (- ?l)" by (intro mult_right_mono) simp_all
  also have "\<dots> = of_int (2 ^ 53)" by (simp flip: powi_add)
  finally have "round_even (x * 2 powi (- ?l)) \<le> 2 ^ 53" by (rule round_even_le_int)
  then have "magnitude x \<le> of_int (2 ^ 53) * 2 powi ?l"
    unfolding magnitude_def by (intro mult_right_mono) (simp_all only: of_int_le_iff zero_le_power_int zero_le_numeral)
  also have "\<dots> = 2 powi (?l + 53)" by (simp add: powi_add)
  also have "\<dots> \<le> 2 powi (e + 53)" using assms(2) by (intro power_int_increasing) simp_all
  finally show ?thesis .
qed

lemma magnitude_above:
  assumes "0 < y" "- 1074 < last_place y"
  shows "2 powi (last_place y + 52) \<le> magnitude y"
proof -
  let ?l = "last_place y"
  have b: "binexp y = ?l + 52" using assms(2) by (simp add: last_place_def)
  have "of_int (2 ^ 52) = (2 :: rat) powi (?l + 52) * 2 powi (- ?l)" by (simp flip: powi_add)
  also have "\<dots> \<le> y * 2 powi (- ?l)"
    using binexp_bounds [OF assms(1)] unfolding b by (intro mult_right_mono) simp_all
  finally have "2 ^ 52 \<le> round_even (y * 2 powi (- ?l))" by (rule round_even_ge_int)
  then have "of_int (2 ^ 52) * 2 powi ?l \<le> magnitude y"
    unfolding magnitude_def by (intro mult_right_mono) (simp_all only: of_int_le_iff zero_le_power_int zero_le_numeral)
  moreover have "(2 :: rat) powi (?l + 52) = of_int (2 ^ 52) * 2 powi ?l" by (simp add: powi_add)
  ultimately show ?thesis by simp
qed

lemma magnitude_mono:
  assumes "0 < x" "x \<le> y"
  shows "magnitude x \<le> magnitude y"
proof (cases "last_place x = last_place y")
  case True
  have "round_even (x * 2 powi (- last_place y)) \<le> round_even (y * 2 powi (- last_place y))"
    using assms by (intro round_even_mono mult_right_mono) auto
  then show ?thesis unfolding magnitude_def True by (intro mult_right_mono) auto
next
  case False
  with last_place_mono [OF assms] have l: "last_place x < last_place y" by simp
  moreover have "- 1074 \<le> last_place x" by (simp add: last_place_def)
  ultimately have "magnitude x \<le> 2 powi (last_place y - 1 + 53)" "2 powi (last_place y + 52) \<le> magnitude y"
    using assms by (intro magnitude_below magnitude_above; simp)+
  then show ?thesis by (simp add: add.commute)
qed

lemma magnitude_nonneg: "0 < x \<Longrightarrow> 0 \<le> magnitude x"
proof -
  assume "0 < x"
  then have "(of_int 0 :: rat) \<le> x * 2 powi (- last_place x)" by simp
  then have "0 \<le> round_even (x * 2 powi (- last_place x))" by (rule round_even_ge_int)
  then show ?thesis by (simp add: magnitude_def)
qed

lemma round_double_mono: "x \<le> y \<Longrightarrow> round_double x \<le> round_double y"
proof -
  assume le: "x \<le> y"
  consider "0 < x" | "x \<le> 0" "0 \<le> y" | "y < 0" using le by linarith
  then show ?thesis
  proof cases
    case 2
    then have "round_double x \<le> 0" "0 \<le> round_double y"
      using magnitude_nonneg [of "- x"] magnitude_nonneg [of y] by (auto simp: round_double_def)
    then show ?thesis by simp
  qed (use le magnitude_mono [of x y] magnitude_mono [of "- y" "- x"] in \<open>auto simp: round_double_def\<close>)
qed

lemma round_double_minus: "round_double (- x) = - round_double x"
  by (simp add: round_double_def)

section \<open>Doubles\<close>

definition is_double :: "rat \<Rightarrow> bool" where
  "is_double x \<longleftrightarrow> round_double x = x \<and> \<bar>x\<bar> < huge"

lemma is_double_minus [simp]: "is_double (- x) = is_double x"
  by (simp add: is_double_def round_double_minus)

text \<open>A number with a significand of 53 bits and an exponent in the range.\<close>

lemma magnitude_repr:
  assumes "0 < m" "m < 2 ^ 53" "- 1074 \<le> e"
  shows "magnitude (of_int m * 2 powi e) = of_int m * 2 powi e"
proof -
  let ?x = "of_int m * 2 powi e :: rat"
  have x: "0 < ?x" using assms(1) by simp
  have "?x < of_int (2 ^ 53) * 2 powi e"
    using assms(2) by (intro mult_strict_right_mono) (simp_all only: of_int_less_iff zero_less_power_int zero_less_numeral)
  then have u: "?x < (2 :: rat) powi (53 + e)" by (simp add: powi_add)
  have "2 powi binexp ?x \<le> ?x" using binexp_bounds [OF x] by blast
  with u have "2 powi binexp ?x < (2 :: rat) powi (53 + e)" by (rule order.strict_trans1 [rotated])
  then have "binexp ?x < 53 + e"
    using power_int_increasing [of "53 + e" "binexp ?x" "2 :: rat"] by force
  then have l: "last_place ?x \<le> e" using assms(3) by (simp add: last_place_def)
  have "(2 :: rat) powi e * 2 powi (- last_place ?x) = 2 powi (e - last_place ?x)" by (simp flip: powi_add)
  also have "\<dots> = of_int (2 ^ nat (e - last_place ?x))" using l by (simp add: power_int_def)
  finally have "?x * 2 powi (- last_place ?x) = of_int (m * 2 ^ nat (e - last_place ?x))"
    by (simp add: mult.assoc)
  then have "of_int (round_even (?x * 2 powi (- last_place ?x))) = ?x * 2 powi (- last_place ?x)"
    by (simp only: round_even_int)
  then show ?thesis using scaled [of ?x "last_place ?x"] unfolding magnitude_def by simp
qed

lemma round_double_repr:
  assumes "\<bar>m\<bar> < 2 ^ 53" "- 1074 \<le> e"
  shows "round_double (of_int m * 2 powi e) = of_int m * 2 powi e"
proof -
  consider "m = 0" | "0 < m" | "m < 0" by linarith
  then show ?thesis
  proof cases
    case 2
    then show ?thesis using magnitude_repr [of m e] assms by (simp add: round_double_def)
  next
    case 3
    then have "0 < of_int (- m) * (2 :: rat) powi e" by (intro mult_pos_pos) simp_all
    then have "round_double (of_int (- m) * 2 powi e) = of_int (- m) * 2 powi e"
      using magnitude_repr [of "- m" e] assms 3 unfolding round_double_def by simp
    then show ?thesis using round_double_minus [of "of_int m * 2 powi e"] by simp
  qed (simp add: round_double_def)
qed

lemma double_int: "\<bar>n\<bar> < 2 ^ 53 \<Longrightarrow> is_double (of_int n)"
proof -
  assume n: "\<bar>n\<bar> < 2 ^ 53"
  have "\<bar>of_int n :: rat\<bar> = of_int \<bar>n\<bar>" by simp
  also have "\<dots> < of_int (2 ^ 53)" using n by (simp only: of_int_less_iff)
  also have "\<dots> = 2 ^ 53" by simp
  also have "\<dots> \<le> huge" unfolding huge_def by (rule power_increasing) simp_all
  finally show ?thesis using round_double_repr [OF n, of 0] by (simp add: is_double_def)
qed

lemma double_power: "- 1074 \<le> e \<Longrightarrow> e < 1024 \<Longrightarrow> is_double (2 powi e)"
proof -
  assume e: "- 1074 \<le> e" "e < 1024"
  have "(2 :: rat) powi e < 2 powi 1024" using e(2) by (intro power_int_strict_increasing) simp_all
  also have "(2 :: rat) powi 1024 = huge" by (simp add: huge_def power_int_def)
  finally show ?thesis using round_double_repr [of 1 e] e(1) by (simp add: is_double_def)
qed

lemma double_consts [simp]: "is_double 0" "is_double 1" "is_double 2" "is_double (numeral k * 0)"
  using double_int [of 0] double_int [of 1] double_int [of 2] by simp_all

text \<open>Rounding keeps within bounds that are doubles.\<close>

lemma dbl_between:
  assumes "is_double a" "is_double b" "a \<le> x" "x \<le> b"
  shows "\<exists>r. dbl x = Dbl r \<and> a \<le> r \<and> r \<le> b"
proof -
  have "a \<le> round_double x" "round_double x \<le> b" using round_double_mono [of a x] round_double_mono [of x b] assms by (simp_all add: is_double_def)
  moreover from this have "\<bar>round_double x\<bar> < huge" using assms(1,2) by (simp add: is_double_def abs_less_iff)
  ultimately show ?thesis by (simp add: dbl_def)
qed

lemma dbl_double [simp]: "is_double x \<Longrightarrow> dbl x = Dbl x"
  by (simp add: is_double_def dbl_def)

text \<open>What rounding yields is a double.\<close>

lemma magnitude_form:
  assumes "0 < x"
  obtains m e where "magnitude x = of_int m * 2 powi e" "\<bar>m\<bar> < 2 ^ 53" "- 1074 \<le> e"
proof -
  let ?l = "last_place x"
  define m where "m = round_even (x * 2 powi (- ?l))"
  have f: "magnitude x = of_int m * 2 powi ?l" by (simp add: magnitude_def m_def)
  have p: "(0 :: rat) < 2 powi ?l" by simp
  have "of_int m * 2 powi ?l \<le> (of_int (2 ^ 53) :: rat) * 2 powi ?l"
    using magnitude_below [OF assms order_refl] by (simp add: f powi_add mult.commute)
  then have "m \<le> 2 ^ 53" using p by (simp only: mult_le_cancel_right_pos of_int_le_iff)
  moreover have "0 \<le> m" using magnitude_nonneg [OF assms] p by (simp add: f zero_le_mult_iff)
  moreover have l: "- 1074 \<le> ?l" by (simp add: last_place_def)
  moreover have "magnitude x = of_int (2 ^ 52) * 2 powi (?l + 1)" if "m = 2 ^ 53"
    using that by (simp add: f powi_add)
  ultimately show ?thesis using that [of m ?l] that [of "2 ^ 52" "?l + 1"] f by (cases "m = 2 ^ 53") auto
qed

lemma round_double_idem: "round_double (round_double x) = round_double x"
proof -
  have pos: "round_double (magnitude y) = magnitude y" if "0 < y" for y
    using magnitude_form [OF that] round_double_repr by metis
  then show ?thesis using pos [of x] pos [of "- x"] round_double_minus [of "magnitude (- x)"]
    by (cases "x = 0"; cases "0 < x") (auto simp: round_double_def [of x], simp_all add: round_double_def)
qed

lemma dbl_is_double: "dbl x = Dbl r \<Longrightarrow> is_double r"
  by (auto simp: dbl_def is_double_def round_double_idem split: if_splits)

text \<open>Below one there is a gap of at least half a unit in the last place.\<close>

lemma below_one:
  assumes "dbl x = Dbl r" "0 \<le> x" "r < 1"
  shows "r \<le> 1 - 2 powi (- 53)"
proof (cases "x < 1 / 2")
  case True
  have h: "is_double (1 / 2)" using double_power [of "- 1"] by (simp add: power_int_minus)
  have "r \<le> 1 / 2" using dbl_between [OF double_consts(1) h, of x] True assms by auto
  moreover have "(2 :: rat) powi (- 53) \<le> 1 / 2" by (simp add: power_int_minus)
  ultimately show ?thesis by simp
next
  case False
  have "\<not> 1 \<le> x"
  proof
    assume "1 \<le> x"
    then have "1 \<le> round_double x" using round_double_mono [of 1 x] double_consts(2) by (simp add: is_double_def)
    then show False using assms(1,3) by (auto simp: dbl_def split: if_splits)
  qed
  then have "binexp x = - 1" using False by (intro binexp_unique) (simp_all add: power_int_minus)
  then have l: "last_place x = - 53" by (simp add: last_place_def)
  define m where "m = round_even (x * 2 powi 53)"
  have "r = magnitude x" using assms(1) False by (auto simp: dbl_def round_double_def split: if_splits)
  then have r: "r = of_int m * 2 powi (- 53)" by (simp add: magnitude_def l m_def)
  have "(of_int m :: rat) < of_int (2 ^ 53)" using assms(3) by (simp add: r power_int_minus field_simps)
  then have "m \<le> 2 ^ 53 - 1" by (simp only: of_int_less_iff)
  then have "(of_int m :: rat) \<le> of_int (2 ^ 53 - 1)" by (simp only: of_int_le_iff)
  then show ?thesis by (simp add: r power_int_minus field_simps)
qed

end
