(* ===== verification/Capability_Stats.thy ===== *)
theory Capability_Stats
  imports "HOL-Library.Multiset" Capability_Manifest Provider_Calls Js_Double
begin

text \<open>
  \<open>src/core/capability-stats.ts\<close>: counts of successes and failures per provider and task type,
  kept in a file, and Thompson sampling over them.

  The random source is a stream of numbers and a position in it. The Gamma and Beta samplers compute with doubles,
  every operation rounded, with overflow, underflow and NaN (\<^verbatim>\<open>Js_Double\<close>); the logarithm, cosine, root and
  power are parameters. The loop of the Gamma sampler has fuel, \<open>None\<close> when it runs out. The file is its entries, as the code casts
  them; \<open>None\<close> is a file that is missing or cannot be read. \<open>writes\<close> is what the next writes answer.
\<close>

section \<open>The store\<close>

record CapabilityCounts =
  cc_provider :: ProviderId
  cc_role :: TaskType
  successes :: nat
  failures :: nat
  cc_lastUpdated :: string

fun task_type_name :: "TaskType \<Rightarrow> string" where
  "task_type_name TResearch = ''research''"
| "task_type_name TPlanning = ''planning''"
| "task_type_name TCodegen = ''codegen''"
| "task_type_name TDebugging = ''debugging''"
| "task_type_name TVerification = ''verification''"

definition keyOf :: "ProviderId \<Rightarrow> TaskType \<Rightarrow> string" where
  "keyOf p t = provider_name p @ ''|'' @ task_type_name t"

text \<open>
  \<open>writeQueue\<close> is a chain of promises: once one write is rejected the later ones are not started and
  reject with the same error.
\<close>

record CapabilityStats =
  stats_file :: "CapabilityCounts list option"
  stats_map :: "(string, CapabilityCounts) dict"
  loaded :: bool
  queue_error :: "string option"
  writes :: "string option list"

definition new_stats :: "CapabilityCounts list option \<Rightarrow> string option list \<Rightarrow> CapabilityStats" where
  "new_stats f ws = \<lparr>stats_file = f, stats_map = [], loaded = False, queue_error = None, writes = ws\<rparr>"

definition ensureLoaded :: "CapabilityStats \<Rightarrow> CapabilityStats" where
  "ensureLoaded s =
    (if loaded s then s
     else s\<lparr>loaded := True,
       stats_map := (case stats_file s of None \<Rightarrow> stats_map s
         | Some es \<Rightarrow> foldl (\<lambda>m e. dset (keyOf (cc_provider e) (cc_role e)) e m) (stats_map s) es)\<rparr>)"

definition stats_flush :: "CapabilityStats \<Rightarrow> (string + unit) \<times> CapabilityStats" where
  "stats_flush s = (case queue_error s of
     Some e \<Rightarrow> (Inl e, s)
   | None \<Rightarrow> (case writes s of
       Some e # ws \<Rightarrow> (Inl e, s\<lparr>writes := ws, queue_error := Some e\<rparr>)
     | None # ws \<Rightarrow> (Inr (), s\<lparr>writes := ws, stats_file := Some (map snd (stats_map s))\<rparr>)
     | [] \<Rightarrow> (Inr (), s\<lparr>stats_file := Some (map snd (stats_map s))\<rparr>)))"

definition fresh_counts :: "ProviderId \<Rightarrow> TaskType \<Rightarrow> CapabilityCounts" where
  "fresh_counts p t = \<lparr>cc_provider = p, cc_role = t, successes = 0, failures = 0,
     cc_lastUpdated = ''1970-01-01T00:00:00.000Z''\<rparr>"

definition counted :: "bool \<Rightarrow> string \<Rightarrow> CapabilityCounts \<Rightarrow> CapabilityCounts" where
  "counted success now c = c\<lparr>successes := (if success then successes c + 1 else successes c),
     failures := (if success then failures c else failures c + 1), cc_lastUpdated := now\<rparr>"

definition stats_update :: "string \<Rightarrow> ProviderId \<Rightarrow> TaskType \<Rightarrow> bool \<Rightarrow> CapabilityStats \<Rightarrow> (string + unit) \<times> CapabilityStats" where
  "stats_update now p t success s =
    (let s1 = ensureLoaded s; k = keyOf p t;
         existing = (case dget (stats_map s1) k of Some c \<Rightarrow> c | None \<Rightarrow> fresh_counts p t)
     in stats_flush (s1\<lparr>stats_map := dset k (counted success now existing) (stats_map s1)\<rparr>))"

definition updateOutcome :: "string \<Rightarrow> ProviderId \<Rightarrow> TaskRole \<Rightarrow> bool \<Rightarrow> CapabilityStats \<Rightarrow> (string + unit) \<times> CapabilityStats" where
  "updateOutcome now p role success s = stats_update now p (roleToTaskType role) success s"

definition stats_get :: "ProviderId \<Rightarrow> TaskType \<Rightarrow> CapabilityStats \<Rightarrow> CapabilityCounts option \<times> CapabilityStats" where
  "stats_get p t s = (let s1 = ensureLoaded s in (dget (stats_map s1) (keyOf p t), s1))"

definition stats_all :: "CapabilityStats \<Rightarrow> CapabilityCounts list \<times> CapabilityStats" where
  "stats_all s = (let s1 = ensureLoaded s in (map snd (stats_map s1), s1))"

section \<open>Sampling\<close>

text \<open>
  The random source: a stream of doubles of the interval from 0 to 1, without 1. The functions of \<open>Math\<close> that the language
  leaves to the implementation are parameters.\<close>

type_synonym rng = "nat \<Rightarrow> rat"

record js_math =
  math_log :: "double \<Rightarrow> double"
  math_cos :: "double \<Rightarrow> double"
  math_sqrt :: "double \<Rightarrow> double"
  math_pow :: "double \<Rightarrow> double \<Rightarrow> double"

definition MIN_VALUE :: rat where "MIN_VALUE = 2 powi (-1074)"
definition MATH_PI :: rat where "MATH_PI = 884279719003555 / 281474976710656"

text \<open>Box-Muller, the first of the two values.\<close>

definition sampleStandardNormal :: "js_math \<Rightarrow> rng \<Rightarrow> nat \<Rightarrow> double \<times> nat" where
  "sampleStandardNormal M rng i =
    (let u0 = rng i; u = (if u0 = 0 then MIN_VALUE else u0); v = rng (i + 1)
     in (dmul (math_sqrt M (dmul (Dbl (- 2)) (math_log M (Dbl u))))
          (math_cos M (dmul (dmul (Dbl 2) (Dbl MATH_PI)) (Dbl v))), i + 2))"

text \<open>The two loops of Marsaglia and Tsang, for a shape of at least one.\<close>

fun gamma_loop :: "nat \<Rightarrow> js_math \<Rightarrow> rng \<Rightarrow> double \<Rightarrow> double \<Rightarrow> nat \<Rightarrow> (double \<times> nat) option" where
  "gamma_loop 0 M rng d c i = None"
| "gamma_loop (Suc n) M rng d c i =
    (let (x, j) = sampleStandardNormal M rng i; v0 = dadd (Dbl 1) (dmul c x) in
     if dle v0 (Dbl 0) then gamma_loop n M rng d c j
     else
       let v = dmul (dmul v0 v0) v0; u = Dbl (rng j) in
       if dless u (dsub (Dbl 1) (dmul (dmul (dmul (dmul (dbl 0.0331) x) x) x) x)) then Some (dmul d v, j + 1)
       else if dless (math_log M u) (dadd (dmul (dmul (dbl 0.5) x) x) (dmul d (dadd (dsub (Dbl 1) v) (math_log M v))))
         then Some (dmul d v, j + 1)
       else gamma_loop n M rng d c (j + 1))"

definition gamma_large :: "nat \<Rightarrow> js_math \<Rightarrow> double \<Rightarrow> rng \<Rightarrow> nat \<Rightarrow> (double \<times> nat) option" where
  "gamma_large fuel M shape rng i =
    (let d = dsub shape (ddiv (Dbl 1) (Dbl 3)) in gamma_loop fuel M rng d (ddiv (Dbl 1) (math_sqrt M (dmul (Dbl 9) d))) i)"

definition sampleGamma :: "nat \<Rightarrow> js_math \<Rightarrow> double \<Rightarrow> rng \<Rightarrow> nat \<Rightarrow> (double \<times> nat) option" where
  "sampleGamma fuel M shape rng i =
    (if dless shape (Dbl 1) then
       let u = rng i; safeU = (if u = 0 then MIN_VALUE else u) in
       map_option (\<lambda>(g, j). (dmul g (math_pow M (Dbl safeU) (ddiv (Dbl 1) shape)), j))
         (gamma_large fuel M (dadd shape (Dbl 1)) rng (i + 1))
     else gamma_large fuel M shape rng i)"

text \<open>
  The outcome of sampling: a value and the position in the random source, the error thrown, no end within the fuel, or
  a sort whose order the language does not fix, which takes scores that are NaN.\<close>

datatype 'a sampled = Sampled 'a nat | SampleError | OutOfFuel | Unordered

definition sampleBeta :: "nat \<Rightarrow> js_math \<Rightarrow> double \<Rightarrow> double \<Rightarrow> rng \<Rightarrow> nat \<Rightarrow> double sampled" where
  "sampleBeta fuel M a b rng i =
    (if dle a (Dbl 0) \<or> dle b (Dbl 0) then SampleError
     else case sampleGamma fuel M a rng i of None \<Rightarrow> OutOfFuel
       | Some (x, j) \<Rightarrow> (case sampleGamma fuel M b rng j of None \<Rightarrow> OutOfFuel
           | Some (y, k) \<Rightarrow> Sampled (ddiv x (dadd x y)) k))"

text \<open>The two priors, read from the environment; \<open>None\<close> is a variable that is no finite number.\<close>

definition prior :: "rat option \<Rightarrow> rat" where
  "prior env = (case env of Some v \<Rightarrow> if 0 < v then v else 2 | None \<Rightarrow> 2)"

definition counts_of :: "CapabilityCounts option \<Rightarrow> nat \<times> nat" where
  "counts_of c = (case c of Some c \<Rightarrow> (successes c, failures c) | None \<Rightarrow> (0, 0))"

text \<open>A prior and a count, added.\<close>

definition shape_of :: "rat option \<Rightarrow> nat \<Rightarrow> double" where
  "shape_of env n = dadd (Dbl (prior env)) (Dbl (of_nat n))"

definition stats_sample :: "nat \<Rightarrow> js_math \<Rightarrow> rat option \<Rightarrow> rat option \<Rightarrow> rng \<Rightarrow> nat \<Rightarrow> ProviderId \<Rightarrow> TaskType \<Rightarrow> CapabilityStats \<Rightarrow>
    double sampled \<times> CapabilityStats" where
  "stats_sample fuel M ea eb rng i p t s =
    (let s1 = ensureLoaded s; (su, fa) = counts_of (dget (stats_map s1) (keyOf p t))
     in (sampleBeta fuel M (shape_of ea su) (shape_of eb fa) rng i, s1))"

record ranked =
  rk_provider :: ProviderId
  rk_score :: double
  rk_rate :: double

fun score_all :: "nat \<Rightarrow> js_math \<Rightarrow> rat option \<Rightarrow> rat option \<Rightarrow> rng \<Rightarrow> nat \<Rightarrow> (ProviderId \<Rightarrow> nat \<times> nat) \<Rightarrow> ProviderId list \<Rightarrow>
    ranked list sampled" where
  "score_all fuel M ea eb rng i counts [] = Sampled [] i"
| "score_all fuel M ea eb rng i counts (p # ps) =
    (let (su, fa) = counts p in
     case sampleBeta fuel M (shape_of ea su) (shape_of eb fa) rng i of
       SampleError \<Rightarrow> SampleError
     | OutOfFuel \<Rightarrow> OutOfFuel
     | Unordered \<Rightarrow> Unordered
     | Sampled x j \<Rightarrow>
         (case score_all fuel M ea eb rng j counts ps of
            Sampled rs k \<Rightarrow> Sampled (\<lparr>rk_provider = p, rk_score = x,
              rk_rate = (if su + fa = 0 then dbl 0.5 else ddiv (Dbl (of_nat su)) (Dbl (of_nat (su + fa))))\<rparr> # rs) k
          | SampleError \<Rightarrow> SampleError
          | OutOfFuel \<Rightarrow> OutOfFuel
          | Unordered \<Rightarrow> Unordered))"

text \<open>
  The comparison \<open>b.score - a.score || b.rate - a.rate\<close>: NaN, as zero, leaves it to the rates. A comparison that is transitive on the
  elements has one result, since the sort of the language is stable; where it is not, the language leaves the order open.
\<close>

definition compare_ranked :: "ranked \<Rightarrow> ranked \<Rightarrow> double" where
  "compare_ranked a b = (let diff = dsub (rk_score b) (rk_score a) in
     if diff = Dbl 0 \<or> diff = Nan then dsub (rk_rate b) (rk_rate a) else diff)"

definition not_after :: "ranked \<Rightarrow> ranked \<Rightarrow> bool" where
  "not_after a b \<longleftrightarrow> \<not> dless (Dbl 0) (compare_ranked a b)"

fun rank_insert :: "ranked \<Rightarrow> ranked list \<Rightarrow> ranked list" where
  "rank_insert x [] = [x]"
| "rank_insert x (y # ys) = (if not_after x y then x # y # ys else y # rank_insert x ys)"

definition rank_sort :: "ranked list \<Rightarrow> ranked list" where
  "rank_sort rs = foldr rank_insert rs []"

definition sortable :: "ranked list \<Rightarrow> bool" where
  "sortable rs \<longleftrightarrow> list_all (\<lambda>a. list_all (\<lambda>b. list_all (\<lambda>c. not_after a b \<and> not_after b c \<longrightarrow> not_after a c) rs) rs) rs"

definition stats_rank :: "nat \<Rightarrow> js_math \<Rightarrow> rat option \<Rightarrow> rat option \<Rightarrow> rng \<Rightarrow> nat \<Rightarrow> ProviderId list \<Rightarrow> TaskType \<Rightarrow> CapabilityStats \<Rightarrow>
    ranked list sampled \<times> CapabilityStats" where
  "stats_rank fuel M ea eb rng i ps t s =
    (let s1 = ensureLoaded s in
     ((case score_all fuel M ea eb rng i (\<lambda>p. counts_of (dget (stats_map s1) (keyOf p t))) ps of
         Sampled rs k \<Rightarrow> if sortable rs then Sampled (rank_sort rs) k else Unordered
       | SampleError \<Rightarrow> SampleError | OutOfFuel \<Rightarrow> OutOfFuel | Unordered \<Rightarrow> Unordered), s1))"

section \<open>The samplers\<close>

text \<open>What is relied on: \<open>Math.random\<close> gives doubles below one, and \<open>Math\<close> is right to within generous bounds.\<close>

definition random_doubles :: "rng \<Rightarrow> bool" where
  "random_doubles rng \<longleftrightarrow> (\<forall>i. is_double (rng i) \<and> 0 \<le> rng i \<and> rng i < 1)"

definition in_bounds :: "rat \<Rightarrow> rat \<Rightarrow> double \<Rightarrow> bool" where
  "in_bounds a b z \<longleftrightarrow> (\<exists>r. z = Dbl r \<and> is_double r \<and> a \<le> r \<and> r \<le> b)"

definition math_ok :: "js_math \<Rightarrow> bool" where
  "math_ok M \<longleftrightarrow>
    (\<forall>u. is_double u \<and> 0 < u \<and> u < 1 \<longrightarrow> in_bounds (- 1000) 0 (math_log M (Dbl u))) \<and>
    (\<forall>x. in_bounds (- 1) 1 (math_cos M (Dbl x))) \<and>
    (\<forall>y. 0 \<le> y \<and> y \<le> 2000 \<longrightarrow> in_bounds 0 50 (math_sqrt M (Dbl y))) \<and>
    (\<forall>y. 1 \<le> y \<longrightarrow> (\<exists>s. math_sqrt M (Dbl y) = Dbl s \<and> 1 \<le> s)) \<and>
    (\<forall>u e. is_double u \<and> 0 < u \<and> u < 1 \<and> 0 < e \<longrightarrow> in_bounds 0 1 (math_pow M (Dbl u) (Dbl e))) \<and>
    (\<forall>u. 0 < u \<and> u < 1 \<longrightarrow> math_pow M (Dbl u) (Infty True) = Dbl 0)"

lemma math_okD:
  assumes "math_ok M"
  shows "is_double u \<Longrightarrow> 0 < u \<Longrightarrow> u < 1 \<Longrightarrow> in_bounds (- 1000) 0 (math_log M (Dbl u))"
    "in_bounds (- 1) 1 (math_cos M (Dbl x))"
    "0 \<le> y \<Longrightarrow> y \<le> 2000 \<Longrightarrow> in_bounds 0 50 (math_sqrt M (Dbl y))"
    "1 \<le> y \<Longrightarrow> \<exists>s. math_sqrt M (Dbl y) = Dbl s \<and> 1 \<le> s"
    "is_double u \<Longrightarrow> 0 < u \<Longrightarrow> u < 1 \<Longrightarrow> 0 < e \<Longrightarrow> in_bounds 0 1 (math_pow M (Dbl u) (Dbl e))"
    "0 < u \<Longrightarrow> u < 1 \<Longrightarrow> math_pow M (Dbl u) (Infty True) = Dbl 0"
  using assms unfolding math_ok_def by blast+

lemma doubles: "is_double (- 2000)" "is_double (- 1000)" "is_double (- 50)" "is_double (- 49)" "is_double (- 1)" "is_double 4"
  "is_double 8" "is_double 50" "is_double 51" "is_double 2000" "is_double 2601" "is_double 132651"
  using double_int [of 2000] double_int [of 1000] double_int [of 50] double_int [of 49] double_int [of 4] double_int [of 8]
    double_int [of 51] double_int [of 2601] double_int [of 132651] by simp_all

lemma dbl_within: "is_double a \<Longrightarrow> is_double b \<Longrightarrow> a \<le> x \<Longrightarrow> x \<le> b \<Longrightarrow> in_bounds a b (dbl x)"
  using dbl_between [of a b x] dbl_is_double by (auto simp: in_bounds_def)

lemma MIN_VALUE_facts: "is_double MIN_VALUE" "0 < MIN_VALUE" "MIN_VALUE < 1"
proof -
  have "(2 :: rat) powi (- 1074) < 2 powi 0" by (rule power_int_strict_increasing) simp_all
  then show "is_double MIN_VALUE" "0 < MIN_VALUE" "MIN_VALUE < 1"
    using double_power [of "- 1074"] by (simp_all add: MIN_VALUE_def)
qed

lemma safe_uniform:
  assumes "random_doubles rng"
  shows "is_double (if rng i = 0 then MIN_VALUE else rng i)" "0 < (if rng i = 0 then MIN_VALUE else rng i)"
    "(if rng i = 0 then MIN_VALUE else rng i) < 1"
proof -
  have "is_double (rng i)" "0 \<le> rng i" "rng i < 1" using assms by (simp_all add: random_doubles_def)
  then show "is_double (if rng i = 0 then MIN_VALUE else rng i)" "0 < (if rng i = 0 then MIN_VALUE else rng i)"
    "(if rng i = 0 then MIN_VALUE else rng i) < 1" using MIN_VALUE_facts by auto
qed

lemma abs_mult_le: "\<bar>x\<bar> \<le> a \<Longrightarrow> \<bar>y\<bar> \<le> b \<Longrightarrow> - (a * b) \<le> x * y \<and> x * y \<le> a * (b :: rat)"
  using abs_le_iff [of "x * y" "a * b"] mult_mono' [of "\<bar>x\<bar>" a "\<bar>y\<bar>" b] by (simp add: abs_mult)

lemma normal_within:
  assumes "math_ok M" "random_doubles rng"
  shows "\<exists>x. sampleStandardNormal M rng i = (Dbl x, i + 2) \<and> - 50 \<le> x \<and> x \<le> 50"
proof -
  let ?u = "if rng i = 0 then MIN_VALUE else rng i"
  from math_okD(1) [OF assms(1) safe_uniform [OF assms(2)]] obtain l where l: "math_log M (Dbl ?u) = Dbl l" "- 1000 \<le> l" "l \<le> 0"
    by (auto simp: in_bounds_def)
  then obtain y where y: "dmul (Dbl (- 2)) (math_log M (Dbl ?u)) = Dbl y" "0 \<le> y" "y \<le> 2000"
    using dbl_between [OF double_consts(1) doubles(10), of "- 2 * l"] by auto
  from math_okD(3) [OF assms(1) y(2,3)] obtain q where q: "math_sqrt M (Dbl y) = Dbl q" "0 \<le> q" "q \<le> 50"
    by (auto simp: in_bounds_def)
  have v: "0 \<le> rng (i + 1)" "rng (i + 1) < 1" using assms(2) by (simp_all add: random_doubles_def)
  obtain p where p: "dmul (Dbl 2) (Dbl MATH_PI) = Dbl p" "4 \<le> p" "p \<le> 8"
    using dbl_between [OF doubles(6,7), of "2 * MATH_PI"] by (auto simp: MATH_PI_def)
  have "0 \<le> p * rng (i + 1)" using p(2) v(1) by (intro mult_nonneg_nonneg) simp_all
  moreover have "p * rng (i + 1) \<le> 8 * 1" using p(2,3) v by (intro mult_mono) simp_all
  ultimately obtain a where a: "dmul (Dbl p) (Dbl (rng (i + 1))) = Dbl a"
    using dbl_between [OF double_consts(1) doubles(7), of "p * rng (i + 1)"] by auto
  from math_okD(2) [OF assms(1), of a] obtain c where c: "math_cos M (Dbl a) = Dbl c" "- 1 \<le> c" "c \<le> 1"
    by (auto simp: in_bounds_def)
  have "- (50 * 1) \<le> q * c \<and> q * c \<le> 50 * 1" using q c by (intro abs_mult_le) simp_all
  then obtain x where "dmul (Dbl q) (Dbl c) = Dbl x" "- 50 \<le> x" "x \<le> 50"
    using dbl_between [OF doubles(3,8), of "q * c"] by auto
  then show ?thesis using y q p a c by (simp add: sampleStandardNormal_def Let_def)
qed

text \<open>The base of the cube: not positive, or at least half a unit in the last place of one, and its cube no underflow.\<close>

lemma cube_within:
  assumes "0 \<le> c" "c \<le> 1" "- 50 \<le> x" "x \<le> 50" "\<not> dle (dadd (Dbl 1) (dmul (Dbl c) (Dbl x))) (Dbl 0)"
  shows "in_bounds (2 powi (- 159)) 132651 (dmul (dmul (dadd (Dbl 1) (dmul (Dbl c) (Dbl x))) (dadd (Dbl 1) (dmul (Dbl c) (Dbl x))))
    (dadd (Dbl 1) (dmul (Dbl c) (Dbl x))))"
proof -
  have "- (1 * 50) \<le> c * x \<and> c * x \<le> 1 * 50" using assms by (intro abs_mult_le) simp_all
  then obtain y where y: "dbl (c * x) = Dbl y" "- 50 \<le> y" "y \<le> 50"
    using dbl_between [OF doubles(3,8), of "c * x"] by auto
  then obtain v0 where v0: "dbl (1 + y) = Dbl v0" "- 49 \<le> v0" "v0 \<le> 51"
    using dbl_between [OF doubles(4,9), of "1 + y"] by auto
  have pos: "0 < v0" using assms(5) y v0 by simp
  have "0 < 1 + y"
  proof (rule ccontr)
    assume "\<not> 0 < 1 + y"
    then have "v0 \<le> 0" using dbl_between [OF doubles(4) double_consts(1), of "1 + y"] y(2) v0(1) by auto
    with pos show False by simp
  qed
  moreover have "- y \<le> 1 - 2 powi (- 53)" if "y < 0" "- y < 1"
  proof -
    have d: "is_double (- y)" using dbl_is_double [OF y(1)] by simp
    then have "dbl (- y) = Dbl (- y)" by (rule dbl_double)
    then show ?thesis using that by (intro below_one [of "- y"]) simp_all
  qed
  moreover have "(2 :: rat) powi (- 53) \<le> 1" by (simp add: power_int_minus)
  ultimately have "2 powi (- 53) \<le> 1 + y" by (cases "y < 0") auto
  then have lo: "2 powi (- 53) \<le> v0"
    using dbl_between [OF double_power [of "- 53"] doubles(9), of "1 + y"] y(3) v0(1) by auto
  have "2 powi (- 53) * 2 powi (- 53) \<le> v0 * v0" using lo pos by (intro mult_mono) simp_all
  moreover have "(2 :: rat) powi (- 53) * 2 powi (- 53) = 2 powi (- 106)" by (simp flip: powi_add)
  moreover have "v0 * v0 \<le> 51 * 51" using v0(3) pos by (intro mult_mono) simp_all
  ultimately obtain w where w: "dbl (v0 * v0) = Dbl w" "2 powi (- 106) \<le> w" "w \<le> 2601"
    using dbl_between [OF double_power [of "- 106"] doubles(11), of "v0 * v0"] by auto
  have "2 powi (- 106) * 2 powi (- 53) \<le> w * v0" using lo w(2) by (intro mult_mono) (simp_all add: order.trans [OF _ w(2)])
  moreover have "(2 :: rat) powi (- 106) * 2 powi (- 53) = 2 powi (- 159)" by (simp flip: powi_add)
  moreover have "w * v0 \<le> 2601 * 51" using v0(3) w(3) pos order.trans [OF _ w(2)] by (intro mult_mono) simp_all
  ultimately have "in_bounds (2 powi (- 159)) 132651 (dbl (w * v0))"
    using double_power [of "- 159"] doubles(12) by (intro dbl_within) simp_all
  then show ?thesis by (simp add: y v0 w)
qed

lemma scaled_within:
  assumes "1 / 2 \<le> d" "d \<le> 2 ^ 53" "in_bounds (2 powi (- 159)) 132651 v"
  shows "in_bounds (2 powi (- 160)) (2 ^ 71) (dmul (Dbl d) v)"
proof -
  from assms(3) obtain w where w: "v = Dbl w" "2 powi (- 159) \<le> w" "w \<le> 132651" by (auto simp: in_bounds_def)
  have "(1 / 2) * 2 powi (- 159) \<le> d * w" using assms(1) w(2) by (intro mult_mono) simp_all
  moreover have "(1 / 2) * (2 :: rat) powi (- 159) = 2 powi (- 160)"
    using powi_add [of "- 1" "- 159"] by (simp add: power_int_minus)
  moreover have "d * w \<le> 2 ^ 53 * 2 ^ 18"
    using assms(1,2) w(3) order.trans [OF _ w(2)] by (intro mult_mono) simp_all
  moreover have "is_double (2 ^ 71)" using double_power [of 71] by (simp add: power_int_def)
  ultimately show ?thesis
    using double_power [of "- 160"] unfolding w(1) dmul.simps by (intro dbl_within) (simp_all flip: power_add)
qed

lemma loop_within:
  assumes "math_ok M" "random_doubles rng" "1 / 2 \<le> d" "d \<le> 2 ^ 53" "0 \<le> c" "c \<le> 1"
  shows "gamma_loop n M rng (Dbl d) (Dbl c) i = Some (g, j) \<Longrightarrow> in_bounds (2 powi (- 160)) (2 ^ 71) g"
proof (induction n arbitrary: i)
  case (Suc n)
  obtain x where x: "sampleStandardNormal M rng i = (Dbl x, i + 2)" "- 50 \<le> x" "x \<le> 50"
    using normal_within [OF assms(1,2)] by blast
  let ?v0 = "dadd (Dbl 1) (dmul (Dbl c) (Dbl x))"
  show ?case
  proof (cases "dle ?v0 (Dbl 0)")
    case True
    then show ?thesis using Suc x by (simp add: Let_def)
  next
    case False
    from scaled_within [OF assms(3,4) cube_within [OF assms(5,6) x(2,3) False]]
    have w: "in_bounds (2 powi (- 160)) (2 ^ 71) (dmul (Dbl d) (dmul (dmul ?v0 ?v0) ?v0))" .
    have "g = dmul (Dbl d) (dmul (dmul ?v0 ?v0) ?v0) \<or> gamma_loop n M rng (Dbl d) (Dbl c) (Suc (Suc (Suc i))) = Some (g, j)"
      using Suc.prems False x(1) by (simp add: Let_def del: dadd.simps dmul.simps split: if_splits)
    then show ?thesis using w Suc.IH by blast
  qed
qed simp

lemma large_within:
  assumes "math_ok M" "random_doubles rng" "1 \<le> shape" "shape \<le> 2 ^ 53"
  shows "gamma_large n M (Dbl shape) rng i = Some (g, j) \<Longrightarrow> in_bounds (2 powi (- 160)) (2 ^ 71) g"
proof -
  have half: "is_double (1 / 2)" using double_power [of "- 1"] by (simp add: power_int_minus)
  have big: "is_double (2 ^ 53)" "is_double (2 ^ 57)"
    using double_power [of 53] double_power [of 57] by (simp_all add: power_int_def)
  obtain t where t: "ddiv (Dbl 1) (Dbl 3) = Dbl t" "0 \<le> t" "t \<le> 1 / 2"
    using dbl_between [OF double_consts(1) half, of "1 / 3"] by auto
  have "1 / 2 \<le> shape - t" "shape - t \<le> 2 ^ 53" using assms(3,4) t(2,3) by simp_all
  then obtain d where d: "dbl (shape - t) = Dbl d" "1 / 2 \<le> d" "d \<le> 2 ^ 53"
    using dbl_between [OF half big(1)] by blast
  have "4 \<le> 9 * d" "9 * d \<le> 2 ^ 57" using d(2,3) by simp_all
  then obtain e where e: "dbl (9 * d) = Dbl e" "4 \<le> e"
    using dbl_between [OF doubles(6) big(2)] by blast
  then obtain q where q: "math_sqrt M (Dbl e) = Dbl q" "1 \<le> q"
    using math_okD(4) [OF assms(1), of e] by auto
  then obtain c where c: "dbl (1 / q) = Dbl c" "0 \<le> c" "c \<le> 1"
    using dbl_between [OF double_consts(1,2), of "1 / q"] by auto
  assume "gamma_large n M (Dbl shape) rng i = Some (g, j)"
  then have "gamma_loop n M rng (Dbl d) (Dbl c) i = Some (g, j)"
    using t d e q c by (simp add: gamma_large_def dsub_def Let_def)
  then show ?thesis using loop_within [OF assms(1,2) d(2,3) c(2,3)] by blast
qed

text \<open>A draw is a number and not negative; for a shape of at least one it is positive.\<close>

lemma gamma_within:
  assumes "math_ok M" "random_doubles rng" "0 < shape" "shape \<le> 2 ^ 53" "sampleGamma n M (Dbl shape) rng i = Some (g, j)"
  shows "in_bounds (if shape < 1 then 0 else 2 powi (- 160)) (2 ^ 71) g"
proof (cases "shape < 1")
  case False
  then show ?thesis using large_within [OF assms(1,2) _ assms(4)] assms(5) by (simp add: sampleGamma_def)
next
  case True
  let ?u = "if rng i = 0 then MIN_VALUE else rng i"
  let ?p = "math_pow M (Dbl ?u) (ddiv (Dbl 1) (Dbl shape))"
  note u = safe_uniform(2,3) [OF assms(2), of i]
  obtain sh where sh: "dbl (shape + 1) = Dbl sh" "1 \<le> sh" "sh \<le> 2"
    using dbl_between [OF double_consts(2,3), of "shape + 1"] True assms(3) by auto
  from assms(5) True sh(1) obtain g0 where g0: "gamma_large n M (Dbl sh) rng (i + 1) = Some (g0, j)" "g = dmul g0 ?p"
    by (auto simp: sampleGamma_def Let_def simp del: ddiv.simps)
  have "sh \<le> 2 ^ 53" using sh(3) by simp
  from large_within [OF assms(1,2) sh(2) this g0(1)] obtain r where r: "g0 = Dbl r" "2 powi (- 160) \<le> r" "r \<le> 2 ^ 71"
    by (auto simp: in_bounds_def)
  then have rp: "0 \<le> r" by (rule_tac order.trans [OF _ r(2)]) simp
  have p: "in_bounds 0 1 ?p"
  proof (cases "ddiv (Dbl 1) (Dbl shape)")
    case (Dbl e)
    have "1 \<le> round_double (1 / shape)" using round_double_mono [of 1 "1 / shape"] double_consts(2) True assms(3) by (simp add: is_double_def)
    then have "1 \<le> e" using Dbl assms(3) by (auto simp: dbl_def split: if_splits)
    then show ?thesis unfolding Dbl using math_okD(5) [OF assms(1) safe_uniform [OF assms(2)], of e] by simp
  next
    case (Infty s)
    then have "s" using assms(3) by (auto simp: dbl_def split: if_splits)
    then show ?thesis unfolding Infty using math_okD(6) [OF assms(1) u] by (simp add: in_bounds_def)
  next
    case Nan
    then show ?thesis using assms(3) by (auto simp: dbl_def split: if_splits)
  qed
  then obtain q where q: "?p = Dbl q" "0 \<le> q" "q \<le> 1" by (auto simp: in_bounds_def)
  have "r * q \<le> 2 ^ 71 * 1" using r(3) q rp by (intro mult_mono) simp_all
  moreover have "0 \<le> r * q" using rp q(2) by simp
  moreover have "is_double (2 ^ 71)" using double_power [of 71] by (simp add: power_int_def)
  ultimately have "in_bounds 0 (2 ^ 71) (dbl (r * q))" by (intro dbl_within) simp_all
  then show ?thesis using True unfolding g0(2) r(1) q(1) by simp
qed

lemma quotient_within:
  assumes "in_bounds a (2 ^ 71) x" "in_bounds b (2 ^ 71) y" "0 \<le> a" "0 \<le> b"
  shows "in_bounds 0 1 (ddiv x (dadd x y)) \<or> ddiv x (dadd x y) = Nan \<and> a = 0 \<and> b = 0"
proof -
  obtain p where p: "x = Dbl p" "is_double p" "a \<le> p" "p \<le> 2 ^ 71" using assms(1) by (auto simp: in_bounds_def)
  obtain q where q: "y = Dbl q" "is_double q" "b \<le> q" "q \<le> 2 ^ 71" using assms(2) by (auto simp: in_bounds_def)
  have "is_double (2 ^ 72)" using double_power [of 72] by (simp add: power_int_def)
  moreover have "p + q \<le> 2 ^ 72" using p(4) q(4) by simp
  moreover have "p \<le> p + q" "q \<le> p + q" using p(3) q(3) assms(3,4) by simp_all
  ultimately obtain s where s: "dbl (p + q) = Dbl s" "p \<le> s" "q \<le> s"
    using dbl_between [OF p(2), of "2 ^ 72" "p + q"] dbl_between [OF q(2), of "2 ^ 72" "p + q"] by auto
  show ?thesis
  proof (cases "s = 0")
    case True
    then have "p = 0" "a = 0" "b = 0" using s(2,3) p(3) q(3) assms(3,4) by linarith+
    then show ?thesis using True s(1) p(1) q(1) by simp
  next
    case False
    then have "0 < s" using s(2) p(3) assms(3) by linarith
    then have "0 \<le> p / s" "p / s \<le> 1" using s(2) p(3) assms(3) by simp_all
    then have "in_bounds 0 1 (dbl (p / s))" by (intro dbl_within) simp_all
    then show ?thesis using False s(1) p(1) q(1) by simp
  qed
qed

lemma beta_within:
  assumes "math_ok M" "random_doubles rng" "0 < a" "a \<le> 2 ^ 53" "0 < b" "b \<le> 2 ^ 53"
    and "sampleBeta n M (Dbl a) (Dbl b) rng i = r"
  shows "r = OutOfFuel \<or> (\<exists>x k. r = Sampled (Dbl x) k \<and> 0 \<le> x \<and> x \<le> 1) \<or> (\<exists>k. r = Sampled Nan k \<and> a < 1 \<and> b < 1)"
proof (cases "sampleGamma n M (Dbl a) rng i")
  case None
  then show ?thesis using assms(3,5,7) by (auto simp: sampleBeta_def)
next
  case (Some xj)
  obtain x j where x: "sampleGamma n M (Dbl a) rng i = Some (x, j)" using Some by (cases xj) simp
  show ?thesis
  proof (cases "sampleGamma n M (Dbl b) rng j")
    case None
    then show ?thesis using assms(3,5,7) x by (auto simp: sampleBeta_def)
  next
    case (Some yk)
    then obtain y k where y: "sampleGamma n M (Dbl b) rng j = Some (y, k)" by (cases yk) simp
    have "r = Sampled (ddiv x (dadd x y)) k" using assms(3,5,7) x y by (auto simp: sampleBeta_def)
    moreover have "(0 :: rat) \<le> (if z < 1 then 0 else 2 powi (- 160))" "(if z < 1 then 0 else (2 :: rat) powi (- 160)) = 0 \<longleftrightarrow> z < 1" for z :: rat
      by simp_all
    ultimately show ?thesis
      using quotient_within [OF gamma_within [OF assms(1,2,3,4) x] gamma_within [OF assms(1,2,5,6) y]]
      unfolding in_bounds_def by metis
  qed
qed

text \<open>The error is thrown exactly for a parameter that is not positive.\<close>

lemma beta_error: "sampleBeta n M a b rng i = SampleError \<longleftrightarrow> dle a (Dbl 0) \<or> dle b (Dbl 0)"
  by (auto simp: sampleBeta_def split: option.splits prod.splits)

lemma shape_within:
  assumes "is_double (prior env)" "prior env \<le> 2 ^ 52" "n \<le> 2 ^ 52"
  shows "\<exists>a. shape_of env n = Dbl a \<and> 0 < a \<and> a \<le> 2 ^ 53 \<and> (a < 1 \<longrightarrow> prior env < 1 \<and> n = 0)"
proof -
  have p: "0 < prior env" by (auto simp: prior_def split: option.split)
  have n: "(of_nat n :: rat) \<le> 2 ^ 52" using assms(3) of_nat_le_iff [of n "2 ^ 52", where 'a = rat] by simp
  have big: "is_double (2 ^ 53)" using double_power [of 53] by (simp add: power_int_def)
  have "prior env + of_nat n \<le> 2 ^ 53" using assms(2) n by simp
  then obtain a where a: "dbl (prior env + of_nat n) = Dbl a" "prior env \<le> a" "a \<le> 2 ^ 53"
    using dbl_between [OF assms(1) big, of "prior env + of_nat n"] by auto
  have "1 \<le> a" if "0 < n"
  proof -
    have "1 \<le> (of_nat n :: rat)" using that of_nat_le_iff [of 1 n, where 'a = rat] by simp
    then have "1 \<le> prior env + of_nat n" using p by simp
    from round_double_mono [OF this] show ?thesis using a(1) double_consts(2) by (auto simp: is_double_def dbl_def split: if_splits)
  qed
  then have "a < 1 \<Longrightarrow> n = 0" by (metis not_gr_zero not_le)
  then show ?thesis using a p by (intro exI [of _ a]) (auto simp: shape_of_def)
qed

text \<open>C40.
  A sampled score is a number from 0 to 1, the ends included, in the arithmetic of doubles. With whatever counts of up to
  \<open>2\<^sup>5\<^sup>2\<close> are stored and with priors that are doubles of up to \<open>2\<^sup>5\<^sup>2\<close>, for every random source of doubles below one and any
  \<open>Math\<close> that is right to within the bounds of \<open>math_ok\<close>, sampling throws no error, and what it yields is such a number, provided
  that the loop of the Gamma sampler ends. The one exception is NaN, and it needs both priors below one and neither a success nor
  a failure recorded: then both draws can underflow to zero (\<open>tiny_priors_nan\<close>). The default priors are 2.\<close>

theorem beta_in_unit:
  assumes "math_ok M" "random_doubles rng" "is_double (prior ea)" "prior ea \<le> 2 ^ 52" "is_double (prior eb)" "prior eb \<le> 2 ^ 52"
    and "counts_of (dget (stats_map (ensureLoaded s)) (keyOf p t)) = (su, fa)" "su \<le> 2 ^ 52" "fa \<le> 2 ^ 52"
  shows "case fst (stats_sample fuel M ea eb rng i p t s) of
      Sampled (Dbl x) k \<Rightarrow> 0 \<le> x \<and> x \<le> 1
    | Sampled Nan k \<Rightarrow> prior ea < 1 \<and> prior eb < 1 \<and> su = 0 \<and> fa = 0
    | Sampled (Infty positive) k \<Rightarrow> False
    | OutOfFuel \<Rightarrow> True
    | SampleError \<Rightarrow> False
    | Unordered \<Rightarrow> False"
proof -
  obtain a where a: "shape_of ea su = Dbl a" "0 < a" "a \<le> 2 ^ 53" "a < 1 \<longrightarrow> prior ea < 1 \<and> su = 0"
    using shape_within [OF assms(3,4,8)] by blast
  obtain b where b: "shape_of eb fa = Dbl b" "0 < b" "b \<le> 2 ^ 53" "b < 1 \<longrightarrow> prior eb < 1 \<and> fa = 0"
    using shape_within [OF assms(5,6,9)] by blast
  have "fst (stats_sample fuel M ea eb rng i p t s) = sampleBeta fuel M (Dbl a) (Dbl b) rng i"
    using assms(7) a(1) b(1) by (simp add: stats_sample_def Let_def)
  with beta_within [OF assms(1,2) a(2,3) b(2,3) refl, of fuel i] a(4) b(4) show ?thesis by auto
qed

text \<open>
  Two crude instances of \<open>Math\<close> within the bounds, which differ in the power: the first gives its base, the second has it underflow. The
  random source yields one half.\<close>

definition demo_math :: js_math where
  "demo_math = \<lparr>math_log = (\<lambda>u. Dbl (- 1)), math_cos = (\<lambda>x. Dbl 0), math_sqrt = (\<lambda>y. Dbl 1),
     math_pow = (\<lambda>u e. if e = Infty True then Dbl 0 else u)\<rparr>"

definition demo_tiny :: js_math where "demo_tiny = demo_math\<lparr>math_pow := (\<lambda>u e. Dbl 0)\<rparr>"

definition demo_rng :: rng where "demo_rng = (\<lambda>i. 1 / 2)"

lemma demo_math_ok: "math_ok demo_math" "math_ok demo_tiny"
  using doubles(5) double_consts by (auto simp: math_ok_def demo_math_def demo_tiny_def in_bounds_def)

lemma demo_rng_ok: "random_doubles demo_rng"
  using double_power [of "- 1"] by (simp add: random_doubles_def demo_rng_def power_int_minus)

lemma demo_loop:
  assumes "M = demo_math \<or> M = demo_tiny"
  shows "gamma_loop 1 M demo_rng d (Dbl 1) i = Some (dmul d (Dbl 1), i + 3)"
proof -
  obtain q where q: "dmul (Dbl 2) (Dbl MATH_PI) = Dbl q" "4 \<le> q" "q \<le> 8"
    using dbl_between [OF doubles(6,7), of "2 * MATH_PI"] by (auto simp: MATH_PI_def)
  have "sampleStandardNormal M demo_rng i = (Dbl 0, i + 2)"
    using assms double_consts by (auto simp: sampleStandardNormal_def demo_math_def demo_tiny_def Let_def)
  moreover obtain r where "dbl (331 / 10000) = Dbl r"
    using dbl_between [OF double_consts(1,2), of "331 / 10000"] by auto
  ultimately show ?thesis by (simp add: demo_rng_def dsub_def Let_def)
qed

lemma demo_large:
  assumes "M = demo_math \<or> M = demo_tiny"
  shows "\<exists>d. gamma_large 1 M shape demo_rng i = Some (dmul d (Dbl 1), i + 3)"
proof -
  have "math_sqrt M y = Dbl 1" for y using assms by (auto simp: demo_math_def demo_tiny_def)
  moreover have "ddiv (Dbl 1) (Dbl 1) = Dbl 1" using double_consts(2) by simp
  ultimately have "gamma_large 1 M shape demo_rng i = gamma_loop 1 M demo_rng (dsub shape (ddiv (Dbl 1) (Dbl 3))) (Dbl 1) i"
    by (simp only: gamma_large_def Let_def)
  then show ?thesis using demo_loop [OF assms] by metis
qed

lemma beta_in_unit_witness:
  "\<exists>x k. fst (stats_sample 1 demo_math None None demo_rng 0 Groq TCodegen (new_stats None [])) = Sampled (Dbl x) k \<and> 0 \<le> x \<and> x \<le> 1"
proof -
  let ?r = "fst (stats_sample 1 demo_math None None demo_rng 0 Groq TCodegen (new_stats None []))"
  have p: "prior None = 2" by (simp add: prior_def)
  then have s: "shape_of None 0 = Dbl 2" by (simp add: shape_of_def)
  have c: "counts_of (dget (stats_map (ensureLoaded (new_stats None []))) (keyOf Groq TCodegen)) = (0, 0)"
    by (simp add: counts_of_def ensureLoaded_def new_stats_def dget_def)
  obtain d e where "gamma_large 1 demo_math (Dbl 2) demo_rng 0 = Some (dmul d (Dbl 1), 3)"
    "gamma_large 1 demo_math (Dbl 2) demo_rng 3 = Some (dmul e (Dbl 1), 6)"
    using demo_large [of demo_math "Dbl 2" 0] demo_large [of demo_math "Dbl 2" 3] by auto
  then have "\<exists>z. ?r = Sampled z 6" using c s by (simp add: stats_sample_def sampleBeta_def sampleGamma_def Let_def)
  then obtain z where z: "?r = Sampled z 6" by blast
  show ?thesis
    using beta_in_unit [OF demo_math_ok(1) demo_rng_ok _ _ _ _ c, of None None 1 0] z by (cases z) (simp_all add: p)
qed

text \<open>
  Any positive prior is accepted. With a prior of \<open>1/2048\<close> for both and no outcome yet, and a random source that yields one half, both
  powers are \<open>0.5\<close> to the 2048, which is zero, and the score is zero by zero.\<close>

lemma tiny_priors_nan:
  "sampleBeta 1 demo_tiny (shape_of (Some (1 / 2048)) 0) (shape_of (Some (1 / 2048)) 0) demo_rng 0 = Sampled Nan 8"
proof -
  have "is_double (1 / 2048)" using double_power [of "- 11"] by (simp add: power_int_minus)
  then have s: "shape_of (Some (1 / 2048)) 0 = Dbl (1 / 2048)" by (simp add: shape_of_def prior_def)
  obtain sh where sh: "dbl (2049 / 2048) = Dbl sh" "1 \<le> sh" "sh \<le> 2"
    using dbl_between [OF double_consts(2,3), of "2049 / 2048"] by auto
  have "sampleGamma 1 demo_tiny (Dbl (1 / 2048)) demo_rng i = Some (Dbl 0, i + 4)" for i
  proof -
    obtain d where d: "gamma_large 1 demo_tiny (Dbl sh) demo_rng (i + 1) = Some (dmul d (Dbl 1), i + 4)"
      using demo_large [of demo_tiny "Dbl sh" "i + 1"] by auto
    have "sh \<le> 2 ^ 53" using sh(3) by simp
    from large_within [OF demo_math_ok(2) demo_rng_ok sh(2) this d] obtain r where "dmul d (Dbl 1) = Dbl r"
      by (auto simp: in_bounds_def)
    then show ?thesis using d sh(1) by (simp add: sampleGamma_def demo_tiny_def Let_def)
  qed
  then show ?thesis by (simp add: s sampleBeta_def)
qed

lemma shape_pos: "is_double (prior env) \<Longrightarrow> \<not> dle (shape_of env n) (Dbl 0)"
proof -
  assume d: "is_double (prior env)"
  have "0 < prior env" by (auto simp: prior_def split: option.split)
  also have "prior env \<le> round_double (prior env + of_nat n)"
    using round_double_mono [of "prior env" "prior env + of_nat n"] d by (simp add: is_double_def)
  finally show ?thesis using \<open>0 < prior env\<close> by (auto simp: shape_of_def dbl_def dle_def)
qed

lemma score_all_ok:
  assumes "is_double (prior ea)" "is_double (prior eb)"
  shows "score_all fuel M ea eb rng i counts ps \<noteq> SampleError \<and>
   (score_all fuel M ea eb rng i counts ps = Sampled rs k \<longrightarrow> map rk_provider rs = ps)"
proof (induction ps arbitrary: i rs k)
  case (Cons p ps)
  obtain su fa where c: "counts p = (su, fa)" by force
  have "sampleBeta fuel M (shape_of ea su) (shape_of eb fa) rng i \<noteq> SampleError"
    using shape_pos assms by (simp add: beta_error)
  then show ?case using Cons.IH
    by (cases "sampleBeta fuel M (shape_of ea su) (shape_of eb fa) rng i") (auto simp: c Let_def split: sampled.splits if_splits)
qed simp

section \<open>The counts\<close>

lemma provider_name_bar: "CHR ''|'' \<notin> set (provider_name p)"
  by (cases p) simp_all

lemma keyOf_inj [simp]: "keyOf p t = keyOf p' t' \<longleftrightarrow> p = p' \<and> t = t'"
proof
  assume k: "keyOf p t = keyOf p' t'"
  have w: "takeWhile (\<lambda>c. c \<noteq> CHR ''|'') (keyOf q s) = provider_name q" for q s
  proof -
    have "\<forall>c \<in> set (provider_name q). c \<noteq> CHR ''|''" using provider_name_bar [of q] by metis
    then show ?thesis by (simp add: keyOf_def takeWhile_append)
  qed
  have p: "p = p'" using w [of p t] w [of p' t'] k provider_name_inj by (metis injD)
  moreover have "task_type_name t = task_type_name t'" using k p by (simp add: keyOf_def)
  then have "t = t'" by (cases t; cases t'; simp)
  ultimately show "p = p' \<and> t = t'" by simp
qed simp

definition stats_wf :: "(string, CapabilityCounts) dict \<Rightarrow> bool" where
  "stats_wf m \<longleftrightarrow> distinct (dkeys m) \<and> list_all (\<lambda>(k, c). k = keyOf (cc_provider c) (cc_role c)) m"

text \<open>What is written is what is read back.\<close>

lemma reload: "stats_wf m \<Longrightarrow> foldl (\<lambda>m e. dset (keyOf (cc_provider e) (cc_role e)) e m) [] (map snd m) = m"
proof (induction m rule: rev_induct)
  case (snoc x m)
  obtain k c where x: "x = (k, c)" by force
  have "stats_wf m" "k = keyOf (cc_provider c) (cc_role c)" "k \<notin> set (dkeys m)"
    using snoc.prems by (auto simp: stats_wf_def x dkeys_def)
  with snoc.IH show ?case by (simp add: x dset_fresh)
qed simp

lemma dset_keys: "set (dset k v m) \<subseteq> insert (k, v) (set m)"
  by (induction m) (auto simp: dset_def)

lemma stats_wf_dset: "stats_wf m \<Longrightarrow> k = keyOf (cc_provider c) (cc_role c) \<Longrightarrow> stats_wf (dset k c m)"
  using dset_keys [of k c m] by (fastforce simp: stats_wf_def list_all_iff dkeys_dset)

text \<open>A run of updates, as the router makes them, on a file that can be written.\<close>

type_synonym outcome_event = "ProviderId \<times> TaskRole \<times> bool"

fun record_all :: "string \<Rightarrow> outcome_event list \<Rightarrow> CapabilityStats \<Rightarrow> CapabilityStats" where
  "record_all now [] s = s"
| "record_all now ((p, role, ok) # es) s = record_all now es (snd (updateOutcome now p role ok s))"

definition tally :: "ProviderId \<Rightarrow> TaskType \<Rightarrow> bool \<Rightarrow> outcome_event list \<Rightarrow> nat" where
  "tally p t ok es = length (filter (\<lambda>(q, role, b). q = p \<and> roleToTaskType role = t \<and> b = ok) es)"

definition tallied :: "outcome_event list \<Rightarrow> CapabilityStats \<Rightarrow> bool" where
  "tallied es s \<longleftrightarrow> loaded s \<and> queue_error s = None \<and> writes s = [] \<and> stats_wf (stats_map s) \<and>
     (es \<noteq> [] \<longrightarrow> stats_file s = Some (map snd (stats_map s))) \<and>
     (\<forall>p t. counts_of (dget (stats_map s) (keyOf p t)) = (tally p t True es, tally p t False es))"

lemma tallied_update:
  assumes "tallied es s"
  shows "fst (updateOutcome now p role ok s) = Inr ()" "tallied (es @ [(p, role, ok)]) (snd (updateOutcome now p role ok s))"
proof -
  let ?t = "roleToTaskType role"
  define c where "c = (case dget (stats_map s) (keyOf p ?t) of Some c \<Rightarrow> c | None \<Rightarrow> fresh_counts p ?t)"
  define m where "m = dset (keyOf p ?t) (counted ok now c) (stats_map s)"
  have u: "updateOutcome now p role ok s = (Inr (), s\<lparr>stats_map := m, stats_file := Some (map snd m)\<rparr>)"
    using assms by (simp add: tallied_def updateOutcome_def stats_update_def ensureLoaded_def stats_flush_def
        m_def c_def Let_def)
  have wf: "stats_wf (stats_map s)" using assms by (simp add: tallied_def)
  have "keyOf p ?t = keyOf (cc_provider c) (cc_role c)"
  proof (cases "dget (stats_map s) (keyOf p ?t)")
    case (Some c')
    then have "(keyOf p ?t, c') \<in> set (stats_map s)" by (simp add: dget_def map_of_SomeD)
    with wf Some show ?thesis by (auto simp: c_def stats_wf_def list_all_iff)
  qed (simp add: c_def fresh_counts_def)
  then have "stats_wf m" unfolding m_def by (intro stats_wf_dset wf) (simp add: counted_def)
  moreover have "counts_of (dget m (keyOf q t)) = (tally q t True (es @ [(p, role, ok)]), tally q t False (es @ [(p, role, ok)]))"
    for q t
  proof -
    have "counts_of (Some c) = counts_of (dget (stats_map s) (keyOf p ?t))"
      by (simp add: c_def counts_of_def fresh_counts_def split: option.split)
    then have "counts_of (Some c) = (tally p ?t True es, tally p ?t False es)"
      using assms by (simp add: tallied_def)
    moreover have "counts_of (dget (stats_map s) (keyOf q t)) = (tally q t True es, tally q t False es)"
      using assms by (simp add: tallied_def)
    moreover have "dget m k = (if k = keyOf p ?t then Some (counted ok now c) else dget (stats_map s) k)" for k
      by (simp add: m_def dict.get_put)
    ultimately show ?thesis by (auto simp: counts_of_def counted_def tally_def)
  qed
  ultimately show "fst (updateOutcome now p role ok s) = Inr ()"
    "tallied (es @ [(p, role, ok)]) (snd (updateOutcome now p role ok s))"
    using assms by (simp_all add: u tallied_def)
qed


lemma tallied_all: "tallied es s \<Longrightarrow> tallied (es @ fs) (record_all now fs s)"
proof (induction fs arbitrary: es s)
  case (Cons f fs)
  obtain p role ok where f: "f = (p, role, ok)" by (cases f) auto
  from Cons.IH [OF tallied_update(2) [OF Cons.prems, where now = now and p = p and role = role and ok = ok]] show ?case by (simp add: f)
qed simp

text \<open>The counts survive: after any sequence of outcomes on an empty store with a writable file, a new
  process that loads the file finds for every provider and task type exactly the number of successes
  and failures recorded for it, through whatever role they were recorded.\<close>

theorem stats_survive_restart:
  assumes "es \<noteq> []" "s = record_all now es (new_stats None [])"
  shows "counts_of (fst (stats_get p t (new_stats (stats_file s) ws))) = (tally p t True es, tally p t False es)"
proof -
  obtain e es' where es: "es = e # es'" using assms(1) by (cases es) auto
  obtain q role ok where e: "e = (q, role, ok)" by (cases e) auto
  have "tallied [] (ensureLoaded (new_stats None []))"
    by (simp add: tallied_def ensureLoaded_def new_stats_def stats_wf_def tally_def counts_of_def dkeys_def)
  from tallied_update(2) [OF this] have "tallied [e] (snd (updateOutcome now q role ok (new_stats None [])))"
    by (simp add: e updateOutcome_def stats_update_def ensureLoaded_def Let_def new_stats_def)
  from tallied_all [OF this, of es'] have t: "tallied es s" by (simp add: assms(2) es e)
  then have "stats_map (ensureLoaded (new_stats (stats_file s) ws)) = stats_map s"
    using assms(1) by (simp add: tallied_def ensureLoaded_def new_stats_def reload)
  with t show ?thesis by (simp add: stats_get_def tallied_def Let_def)
qed

lemma stats_survive_restart_witness:
  "counts_of (fst (stats_get Groq TPlanning (new_stats (stats_file
     (record_all [] [(Groq, Planning, True), (Openai, Planning, False), (Groq, Planning, False), (Groq, Planning, True)]
       (new_stats None []))) []))) = (2, 1)"
  using stats_survive_restart [OF _ refl, of "[(Groq, Planning, True), (Openai, Planning, False),
    (Groq, Planning, False), (Groq, Planning, True)]"] by (simp add: tally_def)

text \<open>One failed write stops all later ones: the queue stays rejected, though the counts in memory go on.\<close>

lemma stats_queue_stuck:
  "queue_error s = Some e \<Longrightarrow> fst (updateOutcome now p role ok s) = Inl e \<and>
   queue_error (snd (updateOutcome now p role ok s)) = Some e \<and> stats_file (snd (updateOutcome now p role ok s)) = stats_file s"
  by (simp add: updateOutcome_def stats_update_def stats_flush_def ensureLoaded_def Let_def)

section \<open>Ranking\<close>

lemma rank_insert_perm: "mset (rank_insert x ys) = add_mset x (mset ys)"
  by (induction ys) simp_all

lemma rank_sort_perm: "mset (rank_sort rs) = mset rs"
  by (induction rs) (simp_all add: rank_sort_def rank_insert_perm)

lemma dbl_minus: "dbl (- x) = dneg (dbl x)"
  by (cases "x = 0") (auto simp: dbl_def round_double_minus round_double_def huge_def)

lemma dsub_swap: "dsub a b = dneg (dsub b a)"
proof (cases a; cases b)
  fix x y assume "a = Dbl x" "b = Dbl y"
  then show ?thesis using dbl_minus [of "y - x"] by (simp add: dsub_def)
qed (auto simp: dsub_def)

lemma dneg_iff [simp]: "dneg a = Dbl 0 \<longleftrightarrow> a = Dbl 0" "dneg a = Nan \<longleftrightarrow> a = Nan"
  by (cases a; simp)+

text \<open>The comparison changes its sign with the order, so of two elements one is not after the other.\<close>

lemma not_after_total: "not_after a b \<or> not_after b a"
proof -
  have "compare_ranked a b = dneg (compare_ranked b a)"
    using dsub_swap [of "rk_score b" "rk_score a"] dsub_swap [of "rk_rate b" "rk_rate a"] by (simp add: compare_ranked_def Let_def)
  then show ?thesis by (cases "compare_ranked b a") (auto simp: not_after_def)
qed

lemma rank_insert_sorted:
  assumes "\<And>a b c. a \<in> A \<Longrightarrow> b \<in> A \<Longrightarrow> c \<in> A \<Longrightarrow> not_after a b \<Longrightarrow> not_after b c \<Longrightarrow> not_after a c"
  shows "x \<in> A \<Longrightarrow> set ys \<subseteq> A \<Longrightarrow> sorted_wrt not_after ys \<Longrightarrow> sorted_wrt not_after (rank_insert x ys)"
proof (induction ys)
  case (Cons y ys)
  have "set (rank_insert x ys) = insert x (set ys)"
    using rank_insert_perm [of x ys] by (metis set_mset_add_mset_insert set_mset_mset)
  moreover have "not_after y x" if "\<not> not_after x y" using that not_after_total by blast
  moreover have "not_after x z" if "not_after x y" "z \<in> set ys" for z
    using that Cons.prems assms [of x y z] by auto
  ultimately show ?case using Cons by auto
qed simp

lemma rank_sort_sorted:
  assumes "sortable rs"
  shows "sorted_wrt not_after (rank_sort rs)"
proof -
  have t: "not_after a c" if "a \<in> set rs" "b \<in> set rs" "c \<in> set rs" "not_after a b" "not_after b c" for a b c
    using assms that unfolding sortable_def list_all_iff by blast
  have "set qs \<subseteq> set rs \<Longrightarrow> sorted_wrt not_after (rank_sort qs)" for qs
  proof (induction qs)
    case (Cons q qs)
    have "set (rank_sort qs) = set qs" using rank_sort_perm by (metis set_mset_mset)
    then show ?case using Cons rank_insert_sorted [of "set rs" q "rank_sort qs", OF t] by (simp add: rank_sort_def)
  qed (simp add: rank_sort_def)
  then show ?thesis by simp
qed

text \<open>A ranking holds every candidate as often as it was given, in the order of the comparison.\<close>

lemma rank_complete:
  assumes "is_double (prior ea)" "is_double (prior eb)" "stats_rank fuel M ea eb rng i ps t s = (Sampled rs k, s')"
  shows "mset (map rk_provider rs) = mset ps \<and> sorted_wrt not_after rs \<and> s' = ensureLoaded s"
proof -
  obtain rs0 where r: "score_all fuel M ea eb rng i (\<lambda>p. counts_of (dget (stats_map (ensureLoaded s)) (keyOf p t))) ps = Sampled rs0 k"
    "sortable rs0" "rs = rank_sort rs0" "s' = ensureLoaded s"
    using assms(3) by (cases "score_all fuel M ea eb rng i (\<lambda>p. counts_of (dget (stats_map (ensureLoaded s)) (keyOf p t))) ps")
      (simp_all add: stats_rank_def Let_def split: if_splits)
  have "map rk_provider rs0 = ps"
    using score_all_ok [OF assms(1,2), THEN conjunct2, rule_format, OF r(1)] .
  moreover have "mset (map rk_provider (rank_sort rs0)) = mset (map rk_provider rs0)"
    using rank_sort_perm [of rs0] by (metis mset_map)
  ultimately show ?thesis using r rank_sort_sorted by simp
qed

end
