(* ===== verification/Agent_Router.thy ===== *)
theory Agent_Router
  imports Capability_Stats
begin

text \<open>
  \<open>src/core/agent-router.ts\<close>: which provider a task of a role goes to, and the execution of a task
  with other providers when one fails.

  The keys that are configured, the random source and the provider router are parameters; the
  provider router is a function on a world of its own, so that \<open>completion\<close> of the model of
  \<open>router.ts\<close> can take its place. The ledger is the list of the events logged; \<open>ledger_results\<close> is what the
  next calls of \<open>log\<close> answer. The texts of messages are left out.
\<close>

section \<open>Tokens\<close>

text \<open>The name the key is looked up by; \<open>None\<close> where no key is needed.\<close>

fun token_name :: "ProviderId \<Rightarrow> string option" where
  "token_name OpencodeGo = Some ''opencode-go''"
| "token_name AnthropicApi = Some ''anthropic-api''"
| "token_name GeminiApi = Some ''gemini-api''"
| "token_name Deepseek = Some ''deepseek''"
| "token_name DeepseekV4 = Some ''deepseek''"
| "token_name Tavily = Some ''tavily''"
| "token_name Gemini = Some ''gemini''"
| "token_name MoonshotK25 = Some ''moonshot''"
| "token_name MoonshotK26 = Some ''moonshot''"
| "token_name XiaomiMimo = Some ''xiaomi''"
| "token_name Qwen35Plus = Some ''alibaba''"
| "token_name Qwen36Plus = Some ''alibaba''"
| "token_name MinimaxM25 = Some ''minimax''"
| "token_name MinimaxM27 = Some ''minimax''"
| "token_name GlmDeepinfra = Some ''deepinfra''"
| "token_name GlmFireworks = Some ''fireworks''"
| "token_name GlmZai = Some ''zai''"
| "token_name Groq = Some ''groq''"
| "token_name KiroAi = None"
| "token_name Mistral = Some ''mistral''"
| "token_name Openai = Some ''openai''"
| "token_name Carnice9bLocal = None"
| "token_name ClaudeCodeCli = None"
| "token_name CodexCli = None"
| "token_name GeminiCli = None"

type_synonym key_store = "string \<Rightarrow> string option"

definition validateToken :: "key_store \<Rightarrow> ProviderId \<Rightarrow> bool" where
  "validateToken key p = (case token_name p of None \<Rightarrow> True
     | Some n \<Rightarrow> (case key n of Some (c # cs) \<Rightarrow> True | _ \<Rightarrow> False))"

definition getAvailableProviders :: "key_store \<Rightarrow> ProviderId list" where
  "getAvailableProviders key = filter (validateToken key) (map mc_id MODELS)"

definition getProviderInfo :: "ProviderId \<Rightarrow> (string \<times> string \<times> string list) option" where
  "getProviderInfo p = map_option (\<lambda>m. (mc_name m, mc_provider m, strengths m)) (getModelById p)"

section \<open>Thompson sampling\<close>

definition explorationRate :: "rat option \<Rightarrow> double" where
  "explorationRate env = (case env of Some v \<Rightarrow> if 0 \<le> v \<and> v \<le> 1 then Dbl v else dbl 0.05 | None \<Rightarrow> dbl 0.05)"

text \<open>The settings of the sampler: fuel, \<open>Math\<close>, the two priors and the exploration rate of the environment,
  the random source and the position in it.\<close>

record sampler =
  sm_fuel :: nat
  sm_math :: js_math
  sm_alpha :: "rat option"
  sm_beta :: "rat option"
  sm_rate :: "rat option"
  sm_rng :: rng
  sm_pos :: nat

definition pickViaThompson :: "sampler \<Rightarrow> CapabilityStats \<Rightarrow> ProviderId list \<Rightarrow> TaskType \<Rightarrow>
    (ProviderId \<times> bool) option sampled \<times> CapabilityStats" where
  "pickViaThompson m s candidates t = (case candidates of
     [] \<Rightarrow> (Sampled None (sm_pos m), s)
   | [p] \<Rightarrow> (Sampled (Some (p, False)) (sm_pos m), s)
   | _ \<Rightarrow>
     (let s1 = ensureLoaded s;
          observed = map (\<lambda>p. counts_of (dget (stats_map s1) (keyOf p t))) candidates
      in if \<not> list_ex (\<lambda>(su, fa). 0 < su + fa) observed then (Sampled None (sm_pos m), s1)
         else if dless (Dbl (sm_rng m (sm_pos m))) (explorationRate (sm_rate m)) then
           (let draw = dmul (Dbl (sm_rng m (sm_pos m + 1))) (Dbl (of_nat (length candidates)));
                idx = min (length candidates - 1) (case draw of Dbl z \<Rightarrow> nat \<lfloor>z\<rfloor> | _ \<Rightarrow> length candidates - 1)
            in (Sampled (Some (candidates ! idx, True)) (sm_pos m + 2), s1))
         else (case stats_rank (sm_fuel m) (sm_math m) (sm_alpha m) (sm_beta m) (sm_rng m) (sm_pos m + 1) candidates t s1 of
             (Sampled (r # rs) k, s2) \<Rightarrow> (Sampled (Some (rk_provider r, False)) k, s2)
           | (Sampled [] k, s2) \<Rightarrow> (SampleError, s2)
           | (SampleError, s2) \<Rightarrow> (SampleError, s2)
           | (Unordered, s2) \<Rightarrow> (Unordered, s2)
           | (OutOfFuel, s2) \<Rightarrow> (OutOfFuel, s2))))"

section \<open>Routing\<close>

record agent_event =
  ae_type :: string
  ae_severity :: EventSeverity
  ae_role :: TaskRole
  ae_provider :: ProviderId
  ae_to :: "ProviderId option"
  ae_reason :: "string option"

record 'w agents =
  agent_stats :: CapabilityStats
  agent_log :: "agent_event list"
  ledger_results :: "string option list"
  asked :: "ProviderId list"
  world :: 'w

definition agent_log_event :: "agent_event \<Rightarrow> 'w agents \<Rightarrow> (string + unit) \<times> 'w agents" where
  "agent_log_event ev s = (case ledger_results s of
     Some e # as \<Rightarrow> (Inl e, s\<lparr>ledger_results := as\<rparr>)
   | None # as \<Rightarrow> (Inr (), s\<lparr>ledger_results := as, agent_log := agent_log s @ [ev]\<rparr>)
   | [] \<Rightarrow> (Inr (), s\<lparr>agent_log := agent_log s @ [ev]\<rparr>))"

definition agent_event_of :: "string \<Rightarrow> EventSeverity \<Rightarrow> TaskRole \<Rightarrow> ProviderId \<Rightarrow> agent_event" where
  "agent_event_of t sev role p =
     \<lparr>ae_type = t, ae_severity = sev, ae_role = role, ae_provider = p, ae_to = None, ae_reason = None\<rparr>"

record RouteResult =
  rr_provider :: ProviderId
  rr_model :: "ModelCapability option"
  requiresFallback :: bool
  fallbackProviders :: "ProviderId list"
  explored :: bool

text \<open>The provider chosen by sampling, or by the manifest, if its token is there.\<close>

definition choose_provider :: "key_store \<Rightarrow> (ProviderId \<times> bool) option \<Rightarrow> TaskType \<Rightarrow> ProviderId option \<times> bool" where
  "choose_provider key pick t =
    (let best = (case selectBestProvider (getAvailableProviders key) t of
         Some p \<Rightarrow> if validateToken key p then Some p else None | None \<Rightarrow> None)
     in case pick of
          Some (p, ex) \<Rightarrow> if validateToken key p then (Some p, ex) else (best, False)
        | None \<Rightarrow> (best, False))"

definition route_with :: "key_store \<Rightarrow> (ProviderId \<times> bool) option \<Rightarrow> TaskRole \<Rightarrow> 'w agents \<Rightarrow>
    (string + RouteResult) \<times> 'w agents" where
  "route_with key pick role s =
    (let (chosen, ex) = choose_provider key pick (roleToTaskType role);
         primary = (case chosen of Some p \<Rightarrow> p | None \<Rightarrow> ROLE_TO_PROVIDER role);
         order = (case chosen of
             Some p \<Rightarrow> p # filter (\<lambda>q. q \<noteq> p) (ROLE_FALLBACK_ORDER role)
           | None \<Rightarrow> ROLE_FALLBACK_ORDER role);
         direct = (\<lambda>s. and_then (agent_log_event (agent_event_of ''provider_selected'' Info role primary) s)
           (\<lambda>u s. (Inr \<lparr>rr_provider = primary, rr_model = getModelById primary, requiresFallback = False,
              fallbackProviders = order, explored = ex\<rparr>, s)))
     in and_then (agent_log_event (agent_event_of ''role_assignment'' Info role primary) s) (\<lambda>u s1.
          if validateToken key primary then direct s1
          else case List.find (\<lambda>q. q \<noteq> primary \<and> validateToken key q) order of
              None \<Rightarrow> direct s1
            | Some f \<Rightarrow>
                and_then (agent_log_event ((agent_event_of ''provider_fallback'' Warning role f)
                    \<lparr>ae_to := Some f, ae_reason := Some ''invalid_token''\<rparr>) s1)
                  (\<lambda>u s2. (Inr \<lparr>rr_provider = f, rr_model = getModelById f, requiresFallback = True,
                     fallbackProviders = order, explored = ex\<rparr>, s2))))"

text \<open>\<open>None\<close>: the sampler ran out of fuel, or threw, or the order of the scores is left open.\<close>

definition routeTask :: "key_store \<Rightarrow> sampler \<Rightarrow> TaskRole \<Rightarrow> 'w agents \<Rightarrow> ((string + RouteResult) \<times> 'w agents) option" where
  "routeTask key m role s =
    (let (pick, st) = pickViaThompson m (agent_stats s) (getAvailableProviders key) (roleToTaskType role)
     in case pick of
          Sampled pk k \<Rightarrow> Some (route_with key pk role (s\<lparr>agent_stats := st\<rparr>))
        | _ \<Rightarrow> None)"

section \<open>Execution with fallback\<close>

definition agent_isRetryableError :: "string \<Rightarrow> bool" where
  "agent_isRetryableError msg =
    (let message = to_lower msg in
     contains message ''429'' \<or> contains message ''rate limit'' \<or>
     contains message ''timeout'' \<or> contains message ''etimedout'' \<or> contains message ''econnaborted'' \<or>
     contains message ''network'' \<or> contains message ''fetch'' \<or> contains message ''econnrefused'' \<or>
     contains message ''enotfound'')"

type_synonym ('w, 'r) provider_call = "ProviderId \<Rightarrow> 'w \<Rightarrow> (string + 'r) \<times> 'w"

definition ask :: "('w, 'r) provider_call \<Rightarrow> ProviderId \<Rightarrow> 'w agents \<Rightarrow> (string + 'r) \<times> 'w agents" where
  "ask call p s = (case call p (world s) of (res, v) \<Rightarrow> (res, s\<lparr>world := v, asked := asked s @ [p]\<rparr>))"

definition record_stats :: "string \<Rightarrow> ProviderId \<Rightarrow> TaskRole \<Rightarrow> bool \<Rightarrow> 'w agents \<Rightarrow> (string + unit) \<times> 'w agents" where
  "record_stats now p role ok s =
    (case updateOutcome now p role ok (agent_stats s) of (res, st) \<Rightarrow> (res, s\<lparr>agent_stats := st\<rparr>))"

definition outcome_event_of :: "ProviderId \<Rightarrow> TaskRole \<Rightarrow> bool \<Rightarrow> string option \<Rightarrow> agent_event" where
  "outcome_event_of p role ok reason =
    (agent_event_of ''provider_outcome'' (if ok then Info else Warning) role p)\<lparr>ae_reason := reason\<rparr>"

text \<open>The statistics are updated, then the outcome is logged; either may throw.\<close>

definition record_outcome :: "string \<Rightarrow> ProviderId \<Rightarrow> TaskRole \<Rightarrow> bool \<Rightarrow> string option \<Rightarrow> 'w agents \<Rightarrow>
    (string + unit) \<times> 'w agents" where
  "record_outcome now p role ok reason s =
    and_then (record_stats now p role ok s) (\<lambda>u s1. agent_log_event (outcome_event_of p role ok reason) s1)"

text \<open>The \<open>try\<close> blocks of the first provider and of a fallback.\<close>

definition try_primary :: "string \<Rightarrow> ('w, 'r) provider_call \<Rightarrow> TaskRole \<Rightarrow> ProviderId \<Rightarrow> 'w agents \<Rightarrow> (string + 'r) \<times> 'w agents" where
  "try_primary now call role p s =
    and_then (ask call p s) (\<lambda>resp s1. and_then (record_outcome now p role True None s1) (\<lambda>u s2. (Inr resp, s2)))"

definition try_fallback :: "string \<Rightarrow> ('w, 'r) provider_call \<Rightarrow> TaskRole \<Rightarrow> ProviderId \<Rightarrow> ProviderId \<Rightarrow> 'w agents \<Rightarrow>
    (string + 'r) \<times> 'w agents" where
  "try_fallback now call role from p s =
    and_then (ask call p s) (\<lambda>resp s1.
      and_then (agent_log_event ((agent_event_of ''fallback_succeeded'' Info role p)\<lparr>ae_to := Some p\<rparr>) s1) (\<lambda>u s2.
        and_then (record_outcome now p role True None s2) (\<lambda>u s3. (Inr resp, s3))))"

text \<open>The loop over the fallbacks: \<open>Inr None\<close> when it is left without an answer. An error of the
  recording in the \<open>catch\<close> block leaves the whole function.\<close>

fun try_fallbacks :: "key_store \<Rightarrow> string \<Rightarrow> ('w, 'r) provider_call \<Rightarrow> TaskRole \<Rightarrow> ProviderId \<Rightarrow> ProviderId list \<Rightarrow> 'w agents \<Rightarrow>
    (string + (ProviderId \<times> 'r) option) \<times> 'w agents" where
  "try_fallbacks key now call role from [] s = (Inr None, s)"
| "try_fallbacks key now call role from (p # ps) s =
    (if \<not> validateToken key p then try_fallbacks key now call role from ps s
     else case try_fallback now call role from p s of
         (Inr resp, s1) \<Rightarrow> (Inr (Some (p, resp)), s1)
       | (Inl e, s1) \<Rightarrow> and_then (record_outcome now p role False (Some e) s1)
           (\<lambda>u s2. try_fallbacks key now call role from ps s2))"

definition execute_routed :: "key_store \<Rightarrow> string \<Rightarrow> ('w, 'r) provider_call \<Rightarrow> TaskRole \<Rightarrow> RouteResult \<Rightarrow> 'w agents \<Rightarrow>
    (string + ProviderId \<times> 'r) \<times> 'w agents" where
  "execute_routed key now call role route s =
    (let p = rr_provider route in
     case try_primary now call role p s of
       (Inr resp, s1) \<Rightarrow> (Inr (p, resp), s1)
     | (Inl e, s1) \<Rightarrow>
         and_then (record_outcome now p role False (Some e) s1) (\<lambda>u s2.
           if \<not> agent_isRetryableError e then (Inl e, s2)
           else and_then (agent_log_event ((agent_event_of ''provider_fallback'' Warning role p)
                 \<lparr>ae_to := (case tl (fallbackProviders route) of q # qs \<Rightarrow> Some q | [] \<Rightarrow> None), ae_reason := Some e\<rparr>) s2)
             (\<lambda>u s3. and_then (try_fallbacks key now call role p (tl (fallbackProviders route)) s3)
               (\<lambda>found s4. case found of
                   Some answer \<Rightarrow> (Inr answer, s4)
                 | None \<Rightarrow> and_then (agent_log_event (agent_event_of ''task_exhausted'' Error role p) s4)
                     (\<lambda>u s5. (Inl e, s5))))))"

definition routeTaskWithFallback :: "key_store \<Rightarrow> sampler \<Rightarrow> string \<Rightarrow> ('w, 'r) provider_call \<Rightarrow> TaskRole \<Rightarrow> 'w agents \<Rightarrow>
    ((string + ProviderId \<times> 'r) \<times> 'w agents) option" where
  "routeTaskWithFallback key m now call role s =
    (case routeTask key m role s of
       None \<Rightarrow> None
     | Some routed \<Rightarrow> Some (and_then routed (\<lambda>route s1. execute_routed key now call role route s1)))"

section \<open>Facts on routing\<close>

lemma kiro_available: "KiroAi \<in> set (getAvailableProviders key)"
  using provider_in_MODELS [of KiroAi] by (auto simp: getAvailableProviders_def validateToken_def)

lemma available_valid: "p \<in> set (getAvailableProviders key) \<Longrightarrow> validateToken key p"
  by (auto simp: getAvailableProviders_def)

text \<open>Some provider needs no key, so a choice is always made.\<close>

lemma choose_valid: "\<exists>p ex. choose_provider key pick t = (Some p, ex) \<and> validateToken key p"
proof -
  have "\<not> set (getAvailableProviders key) \<subseteq> {Carnice9bLocal}" using kiro_available [of key] by auto
  then obtain b where b: "selectBestProvider (getAvailableProviders key) t = Some b"
    using select_best_None [of "getAvailableProviders key" t] by auto
  then have "b \<in> set (getAvailableProviders key)"
    unfolding selectBestProvider_def by (rule find_SomeD [THEN conjunct2])
  with b available_valid show ?thesis by (auto simp: choose_provider_def Let_def split: option.split)
qed

lemma log_event_cases:
  "agent_log_event ev s = (Inr (), s') \<Longrightarrow> agent_stats s' = agent_stats s \<and> asked s' = asked s \<and> world s' = world s"
  by (auto simp: agent_log_event_def split: list.splits option.splits)

text \<open>
  Whatever keys are configured and whatever the sampler picks, \<open>routeTask\<close> selects a provider whose
  token is there and reports no fallback: four kinds of provider need no key, so the search through the
  fallback order for a valid token is never entered. The fallback order starts with the selected provider
  and has no provider twice.\<close>

theorem route_token_valid:
  assumes "routeTask key m role s = Some (Inr r, s')"
  shows "validateToken key (rr_provider r) \<and> \<not> requiresFallback r \<and> rr_model r = getModelById (rr_provider r) \<and>
    distinct (fallbackProviders r) \<and> hd (fallbackProviders r) = rr_provider r \<and>
    set (fallbackProviders r) = insert (rr_provider r) (set (ROLE_FALLBACK_ORDER role))"
proof -
  obtain pk s1 where "route_with key pk role s1 = (Inr r, s')"
    using assms by (auto simp: routeTask_def split: prod.splits sampled.splits)
  moreover obtain p ex where "choose_provider key pk (roleToTaskType role) = (Some p, ex)" "validateToken key p"
    using choose_valid by blast
  ultimately have "r = \<lparr>rr_provider = p, rr_model = getModelById p, requiresFallback = False,
      fallbackProviders = p # filter (\<lambda>q. q \<noteq> p) (ROLE_FALLBACK_ORDER role), explored = ex\<rparr>" "validateToken key p"
    by (auto simp: route_with_def Let_def and_then_Inr)
  then show ?thesis using distinct_ROLE_FALLBACK_ORDER [of role] by auto
qed

definition demo_sampler :: sampler where
  "demo_sampler = \<lparr>sm_fuel = 1, sm_math = demo_math, sm_alpha = None, sm_beta = None, sm_rate = None, sm_rng = demo_rng, sm_pos = 0\<rparr>"

definition demo_agents :: "'w \<Rightarrow> 'w agents" where
  "demo_agents v = \<lparr>agent_stats = new_stats None [], agent_log = [], ledger_results = [], asked = [], world = v\<rparr>"

lemma demo_available: "getAvailableProviders (\<lambda>n. None) = [KiroAi, Carnice9bLocal, ClaudeCodeCli, CodexCli, GeminiCli]"
  unfolding getAvailableProviders_def MODELS_ids by (simp add: validateToken_def)

lemma route_token_valid_witness:
  "\<exists>r s'. routeTask (\<lambda>n. None) demo_sampler Execution (demo_agents ()) = Some (Inr r, s') \<and>
     validateToken (\<lambda>n. None) (rr_provider r) \<and> \<not> requiresFallback r"
proof -
  have "\<exists>r s'. routeTask (\<lambda>n. None) demo_sampler Execution (demo_agents ()) = Some (Inr r, s')"
  proof -
    obtain p ex where "choose_provider (\<lambda>n. None) None TCodegen = (Some p, ex)" "validateToken (\<lambda>n. None) p"
      using choose_valid by blast
    then show ?thesis
      by (simp add: routeTask_def pickViaThompson_def demo_available demo_agents_def new_stats_def ensureLoaded_def
          counts_of_def route_with_def Let_def and_then_def agent_log_event_def)
  qed
  then show ?thesis using route_token_valid by metis
qed

section \<open>Facts on execution\<close>

text \<open>A store and a ledger that accept what is written to them.\<close>

definition reliable :: "'w agents \<Rightarrow> bool" where
  "reliable s \<longleftrightarrow> ledger_results s = [] \<and> queue_error (agent_stats s) = None \<and> writes (agent_stats s) = []"

text \<open>The outcomes in the ledger, which the ranking learns from.\<close>

definition outcomes :: "'w agents \<Rightarrow> (ProviderId \<times> bool) list" where
  "outcomes s = map (\<lambda>ev. (ae_provider ev, ae_severity ev = Info))
     (filter (\<lambda>ev. ae_type ev = ''provider_outcome'') (agent_log s))"

lemma log_reliable:
  "reliable s \<Longrightarrow> agent_log_event ev s = (Inr (), s\<lparr>agent_log := agent_log s @ [ev]\<rparr>)"
  by (simp add: reliable_def agent_log_event_def)

lemma record_reliable:
  assumes "reliable s"
  shows "\<exists>s'. record_outcome now p role ok reason s = (Inr (), s') \<and> reliable s' \<and> asked s' = asked s \<and>
    world s' = world s \<and> outcomes s' = outcomes s @ [(p, ok)]"
proof -
  let ?st = "snd (updateOutcome now p role ok (agent_stats s))"
  have u: "fst (updateOutcome now p role ok (agent_stats s)) = Inr () \<and> queue_error ?st = None \<and> writes ?st = []"
    using assms by (simp add: reliable_def updateOutcome_def stats_update_def stats_flush_def ensureLoaded_def Let_def)
  then have "updateOutcome now p role ok (agent_stats s) = (Inr (), ?st)" by (simp add: prod_eq_iff)
  then have "record_stats now p role ok s = (Inr (), s\<lparr>agent_stats := ?st\<rparr>)"
    by (auto simp: record_stats_def split: prod.split)
  moreover have r: "reliable (s\<lparr>agent_stats := ?st\<rparr>)" using assms u by (simp add: reliable_def)
  ultimately have "record_outcome now p role ok reason s = (Inr (), s\<lparr>agent_stats := ?st,
      agent_log := agent_log s @ [outcome_event_of p role ok reason]\<rparr>)"
    by (simp add: record_outcome_def log_reliable)
  then show ?thesis using r
    by (simp add: reliable_def outcomes_def outcome_event_of_def agent_event_of_def)
qed

lemma log_other:
  "reliable s \<Longrightarrow> ae_type ev \<noteq> ''provider_outcome'' \<Longrightarrow>
   \<exists>s'. agent_log_event ev s = (Inr (), s') \<and> reliable s' \<and> asked s' = asked s \<and> world s' = world s \<and> outcomes s' = outcomes s"
  by (simp add: log_reliable reliable_def outcomes_def)

lemma ask_eq:
  "ask call p s = (fst (call p (world s)), s\<lparr>world := snd (call p (world s)), asked := asked s @ [p]\<rparr>)"
  by (simp add: ask_def split: prod.split)

lemma ask_reliable: "reliable s \<Longrightarrow> reliable (snd (ask call p s)) \<and> asked (snd (ask call p s)) = asked s @ [p] \<and>
   outcomes (snd (ask call p s)) = outcomes s"
  by (simp add: ask_eq reliable_def outcomes_def)

lemma try_fallback_reliable:
  assumes "reliable s" "try_fallback now call role from p s = (res, s')"
  shows "reliable s' \<and> asked s' = asked s @ [p] \<and> fst (call p (world s)) = res \<and>
    outcomes s' = outcomes s @ (if isl res then [] else [(p, True)])"
proof (cases "fst (call p (world s))")
  case (Inl e)
  then show ?thesis using assms ask_reliable [OF assms(1), of call p]
    by (simp add: try_fallback_def ask_eq) (metis Inl isl_def)
next
  case (Inr r)
  define s1 where "s1 = snd (ask call p s)"
  have s1: "reliable s1" "asked s1 = asked s @ [p]" "outcomes s1 = outcomes s"
    using ask_reliable [OF assms(1), of call p] by (simp_all add: s1_def)
  obtain s2 where s2: "agent_log_event ((agent_event_of ''fallback_succeeded'' Info role p)\<lparr>ae_to := Some p\<rparr>) s1 = (Inr (), s2)"
    "reliable s2" "asked s2 = asked s1" "outcomes s2 = outcomes s1"
    using log_other [OF s1(1), of "(agent_event_of ''fallback_succeeded'' Info role p)\<lparr>ae_to := Some p\<rparr>"]
    by (auto simp: agent_event_of_def)
  obtain s3 where s3: "record_outcome now p role True None s2 = (Inr (), s3)" "reliable s3" "asked s3 = asked s2"
    "outcomes s3 = outcomes s2 @ [(p, True)]"
    using record_reliable [OF s2(2)] by blast
  have "ask call p s = (Inr r, s1)" using Inr by (simp add: s1_def ask_eq)
  then have "try_fallback now call role from p s = (Inr r, s3)" by (simp add: try_fallback_def s2 s3)
  with assms(2) have "res = Inr r" "s' = s3" by simp_all
  with Inr s1 s2 s3 show ?thesis by simp
qed

lemma try_fallbacks_reliable:
  "reliable s \<Longrightarrow> try_fallbacks key now call role from ps s = (res, s') \<Longrightarrow> reliable s' \<and>
   (let c = filter (validateToken key) ps in
    (res = Inr None \<and> (\<forall>q\<in>set c. \<exists>v e. fst (call q v) = Inl e) \<and> asked s' = asked s @ c \<and> outcomes s' = outcomes s @ map (\<lambda>p. (p, False)) c) \<or>
    (\<exists>k r. k < length c \<and> res = Inr (Some (c ! k, r)) \<and> (\<exists>v. fst (call (c ! k) v) = Inr r) \<and>
      (\<forall>q\<in>set (take k c). \<exists>v e. fst (call q v) = Inl e) \<and> asked s' = asked s @ take (Suc k) c \<and>
      outcomes s' = outcomes s @ map (\<lambda>p. (p, False)) (take k c) @ [(c ! k, True)]))"
proof (induction ps arbitrary: s)
  case Nil
  then show ?case by simp
next
  case (Cons p ps)
  show ?case
  proof (cases "validateToken key p")
    case False
    with Cons show ?thesis by simp
  next
    case True
    obtain r1 s1 where t: "try_fallback now call role from p s = (r1, s1)" by force
    note t1 = try_fallback_reliable [OF Cons.prems(1) t]
    show ?thesis
    proof (cases r1)
      case (Inr r)
      with Cons.prems(2) True t have "res = Inr (Some (p, r))" "s' = s1" by simp_all
      with True t1 Inr show ?thesis by (auto simp: Let_def intro!: exI [of _ 0])
    next
      case (Inl e)
      obtain s2 where s2: "record_outcome now p role False (Some e) s1 = (Inr (), s2)" "reliable s2" "asked s2 = asked s1"
        "outcomes s2 = outcomes s1 @ [(p, False)]"
        using record_reliable t1 by blast
      have "try_fallbacks key now call role from ps s2 = (res, s')"
        using Cons.prems(2) True t Inl s2(1) by simp
      note IH = Cons.IH [OF s2(2) this, unfolded Let_def]
      from IH consider
          "res = Inr None" "\<forall>q\<in>set (filter (validateToken key) ps). \<exists>v e. fst (call q v) = Inl e"
            "asked s' = asked s2 @ filter (validateToken key) ps"
            "outcomes s' = outcomes s2 @ map (\<lambda>p. (p, False)) (filter (validateToken key) ps)"
        | k r where "k < length (filter (validateToken key) ps)" "res = Inr (Some (filter (validateToken key) ps ! k, r))"
            "\<exists>v. fst (call (filter (validateToken key) ps ! k) v) = Inr r"
            "\<forall>q\<in>set (take k (filter (validateToken key) ps)). \<exists>v e. fst (call q v) = Inl e"
            "asked s' = asked s2 @ take (Suc k) (filter (validateToken key) ps)"
            "outcomes s' = outcomes s2 @ map (\<lambda>p. (p, False)) (take k (filter (validateToken key) ps)) @
              [(filter (validateToken key) ps ! k, True)]"
        by blast
      then show ?thesis
      proof cases
        case 1
        then show ?thesis using True t1 Inl s2 IH by (auto simp: Let_def)
      next
        case (2 k r)
        then show ?thesis using True t1 Inl s2 IH
          unfolding Let_def by (intro conjI disjI2 exI [of _ "Suc k"] exI [of _ r]) auto
      qed
    qed
  qed
qed

lemma try_primary_reliable:
  assumes "reliable s" "try_primary now call role p s = (res, s')"
  shows "reliable s' \<and> asked s' = asked s @ [p] \<and> fst (call p (world s)) = res \<and>
    outcomes s' = outcomes s @ (if isl res then [] else [(p, True)])"
proof (cases "fst (call p (world s))")
  case (Inl e)
  then have "res = Inl e" "s' = snd (ask call p s)" using assms(2) by (simp_all add: try_primary_def ask_eq)
  with Inl ask_reliable [OF assms(1), of call p] show ?thesis by simp
next
  case (Inr r)
  define s1 where "s1 = snd (ask call p s)"
  have s1: "reliable s1" "asked s1 = asked s @ [p]" "outcomes s1 = outcomes s" "ask call p s = (Inr r, s1)"
    using ask_reliable [OF assms(1), of call p] Inr by (simp_all add: s1_def ask_eq)
  obtain s2 where s2: "record_outcome now p role True None s1 = (Inr (), s2)" "reliable s2" "asked s2 = asked s1"
    "outcomes s2 = outcomes s1 @ [(p, True)]"
    using record_reliable [OF s1(1)] by blast
  have "res = Inr r" "s' = s2" using assms(2) by (simp_all add: try_primary_def s1(4) s2(1))
  with Inr s1 s2 show ?thesis by simp
qed

text \<open>What a failed first provider leads to.\<close>

lemma after_primary_failed:
  assumes "reliable s1" "agent_isRetryableError e"
    and "and_then (agent_log_event ((agent_event_of ''provider_fallback'' Warning role p)\<lparr>ae_to := q, ae_reason := Some e\<rparr>) s1)
       (\<lambda>u s3. and_then (try_fallbacks key now call role p ps s3) (\<lambda>found s4. case found of
          Some answer \<Rightarrow> (Inr answer, s4)
        | None \<Rightarrow> and_then (agent_log_event (agent_event_of ''task_exhausted'' Error role p) s4) (\<lambda>u s5. (Inl e, s5))))
       = (res, s')"
  shows "let c = filter (validateToken key) ps in
    (res = Inl e \<and> (\<forall>q\<in>set c. \<exists>v e. fst (call q v) = Inl e) \<and> asked s' = asked s1 @ c \<and> outcomes s' = outcomes s1 @ map (\<lambda>q. (q, False)) c) \<or>
    (\<exists>k r. k < length c \<and> res = Inr (c ! k, r) \<and> (\<exists>v. fst (call (c ! k) v) = Inr r) \<and>
      (\<forall>q\<in>set (take k c). \<exists>v e. fst (call q v) = Inl e) \<and> asked s' = asked s1 @ take (Suc k) c \<and>
      outcomes s' = outcomes s1 @ map (\<lambda>p. (p, False)) (take k c) @ [(c ! k, True)])"
proof -
  obtain s3 where s3: "agent_log_event ((agent_event_of ''provider_fallback'' Warning role p)\<lparr>ae_to := q, ae_reason := Some e\<rparr>) s1 = (Inr (), s3)"
    "reliable s3" "asked s3 = asked s1" "outcomes s3 = outcomes s1"
    using log_other [OF assms(1), of "(agent_event_of ''provider_fallback'' Warning role p)\<lparr>ae_to := q, ae_reason := Some e\<rparr>"]
    by (auto simp: agent_event_of_def)
  obtain found s4 where t: "try_fallbacks key now call role p ps s3 = (found, s4)" by force
  note F = try_fallbacks_reliable [OF s3(2) t, unfolded Let_def]
  obtain s5 where s5: "agent_log_event (agent_event_of ''task_exhausted'' Error role p) s4 = (Inr (), s5)"
    "asked s5 = asked s4" "outcomes s5 = outcomes s4"
    using log_other [of s4 "agent_event_of ''task_exhausted'' Error role p"] F by (auto simp: agent_event_of_def)
  from F consider
      "found = Inr None" "\<forall>q\<in>set (filter (validateToken key) ps). \<exists>v e. fst (call q v) = Inl e"
        "asked s4 = asked s3 @ filter (validateToken key) ps"
        "outcomes s4 = outcomes s3 @ map (\<lambda>p. (p, False)) (filter (validateToken key) ps)"
    | k r where "k < length (filter (validateToken key) ps)" "found = Inr (Some (filter (validateToken key) ps ! k, r))"
        "\<exists>v. fst (call (filter (validateToken key) ps ! k) v) = Inr r"
        "\<forall>q\<in>set (take k (filter (validateToken key) ps)). \<exists>v e. fst (call q v) = Inl e"
        "asked s4 = asked s3 @ take (Suc k) (filter (validateToken key) ps)"
        "outcomes s4 = outcomes s3 @ map (\<lambda>p. (p, False)) (take k (filter (validateToken key) ps)) @
          [(filter (validateToken key) ps ! k, True)]"
    by blast
  then show ?thesis
  proof cases
    case 1
    then have "res = Inl e" "s' = s5" using assms(3) s3(1) s5(1) t by simp_all
    with 1 s3 s5 show ?thesis by (simp add: Let_def)
  next
    case (2 k r)
    then have "res = Inr (filter (validateToken key) ps ! k, r)" "s' = s4" using assms(3) s3(1) t by simp_all
    with 2 s3 show ?thesis unfolding Let_def by (intro disjI2 exI [of _ k] exI [of _ r]) simp
  qed
qed

lemma execute_routed_calls:
  assumes "reliable s" "execute_routed key now call role route s = (res, s')"
    and p: "p = rr_provider route" and c: "c = filter (validateToken key) (tl (fallbackProviders route))"
  shows "\<exists>k. k \<le> length c \<and> asked s' = asked s @ take (Suc k) (p # c) \<and>
    outcomes s' = outcomes s @ map (\<lambda>q. (q, False)) (take k (p # c)) @ [((p # c) ! k, \<not> isl res)] \<and>
    (\<forall>q\<in>set (take k (p # c)). \<exists>v e. fst (call q v) = Inl e) \<and>
    (case res of Inr (q, answer) \<Rightarrow> q = (p # c) ! k \<and> (\<exists>v. fst (call q v) = Inr answer)
       | Inl e \<Rightarrow> fst (call p (world s)) = Inl e \<and> k = (if agent_isRetryableError e then length c else 0)) \<and>
    (0 < k \<longrightarrow> (\<exists>e. fst (call p (world s)) = Inl e \<and> agent_isRetryableError e))"
proof -
  obtain r1 s1 where t: "try_primary now call role p s = (r1, s1)" by force
  note t1 = try_primary_reliable [OF assms(1) t]
  show ?thesis
  proof (cases r1)
    case (Inr answer)
    then have "res = Inr (p, answer)" "s' = s1" using assms(2) t by (simp_all add: execute_routed_def p [symmetric] Let_def)
    with t1 Inr show ?thesis by (intro exI [of _ 0]) auto
  next
    case (Inl e)
    obtain s2 where s2: "record_outcome now p role False (Some e) s1 = (Inr (), s2)" "reliable s2" "asked s2 = asked s1"
      "outcomes s2 = outcomes s1 @ [(p, False)]"
      using record_reliable t1 by blast
    have called: "fst (call p (world s)) = Inl e" using t1 Inl by simp
    show ?thesis
    proof (cases "agent_isRetryableError e")
      case False
      then have "res = Inl e" "s' = s2" using assms(2) t Inl s2(1) by (simp_all add: execute_routed_def p [symmetric] Let_def)
      with t1 Inl s2 False called show ?thesis by (intro exI [of _ 0]) simp
    next
      case True
      note failed = after_primary_failed [OF s2(2) True, where role = role and p = p and q = "case tl (fallbackProviders route) of q # qs \<Rightarrow> Some q | [] \<Rightarrow> None"
          and key = key and now = now and call = call and ps = "tl (fallbackProviders route)" and res = res and s' = s', unfolded Let_def, folded c]
      have "(res = Inl e \<and> (\<forall>q\<in>set c. \<exists>v e. fst (call q v) = Inl e) \<and> asked s' = asked s2 @ c \<and>
          outcomes s' = outcomes s2 @ map (\<lambda>q. (q, False)) c) \<or>
        (\<exists>k r. k < length c \<and> res = Inr (c ! k, r) \<and> (\<exists>v. fst (call (c ! k) v) = Inr r) \<and>
          (\<forall>q\<in>set (take k c). \<exists>v e. fst (call q v) = Inl e) \<and> asked s' = asked s2 @ take (Suc k) c \<and>
          outcomes s' = outcomes s2 @ map (\<lambda>p. (p, False)) (take k c) @ [(c ! k, True)])"
        using assms(2) t Inl s2(1) True by (intro failed) (simp add: execute_routed_def p [symmetric] Let_def)
      then show ?thesis
      proof (elim disjE exE conjE, goal_cases)
        case 1
        have "p # c = take (length c) (p # c) @ [(p # c) ! length c]"
          using take_Suc_conv_app_nth [of "length c" "p # c"] by simp
        from arg_cong [where f = "map (\<lambda>q. (q, False))", OF this]
        have "map (\<lambda>q. (q, False)) (p # c) = map (\<lambda>q. (q, False)) (take (length c) (p # c)) @ [((p # c) ! length c, False)]"
          unfolding map_append by simp
        moreover have "\<forall>q\<in>set (take (length c) (p # c)). \<exists>v e. fst (call q v) = Inl e"
          using 1(2) called in_set_takeD [where n = "length c" and xs = "p # c"] set_ConsD by metis
        ultimately show ?thesis using 1 t1 Inl s2 called True by (intro exI [of _ "length c"]) simp
      next
        case (2 k r)
        with t1 Inl s2 called True show ?thesis by (intro exI [of _ "Suc k"]) auto
      qed
    qed
  qed
qed

text \<open>With a ledger and a store that accept writes, \<open>routeTaskWithFallback\<close> asks the selected provider and
  then the fallbacks with a token, in their order and each once, and stops at the first that answers. The
  fallbacks are tried only after an error that is retryable; a failure of all of them is reported as the
  error of the first. Exactly one outcome is recorded per provider asked, a failure for each but the last.\<close>

theorem execute_calls:
  assumes "reliable s" "execute_routed key now call role route s = (res, s')"
    and "p = rr_provider route" "c = filter (validateToken key) (tl (fallbackProviders route))"
  shows "\<exists>k. k \<le> length c \<and> asked s' = asked s @ take (Suc k) (p # c) \<and>
    outcomes s' = outcomes s @ map (\<lambda>q. (q, False)) (take k (p # c)) @ [((p # c) ! k, \<not> isl res)] \<and>
    (\<forall>q\<in>set (take k (p # c)). \<exists>v e. fst (call q v) = Inl e) \<and>
    (case res of Inr (q, answer) \<Rightarrow> q = (p # c) ! k \<and> (\<exists>v. fst (call q v) = Inr answer)
       | Inl e \<Rightarrow> fst (call p (world s)) = Inl e \<and> k = (if agent_isRetryableError e then length c else 0)) \<and>
    (0 < k \<longrightarrow> (\<exists>e. fst (call p (world s)) = Inl e \<and> agent_isRetryableError e))"
  using assms by (rule execute_routed_calls)

text \<open>A call that answers with the error 429 on Groq and succeeds elsewhere.\<close>

definition groq_down :: "(nat, string) provider_call" where
  "groq_down p n = (if p = Groq then Inl ''Groq 429'' else Inr ''done'', n + 1)"

definition demo_route :: RouteResult where
  "demo_route = \<lparr>rr_provider = Groq, rr_model = None, requiresFallback = False,
     fallbackProviders = [Groq, KiroAi, ClaudeCodeCli], explored = False\<rparr>"

lemma execute_calls_witness:
  "asked (snd (execute_routed (\<lambda>n. None) ''t'' groq_down Execution demo_route (demo_agents 0))) = [Groq, KiroAi] \<and>
   outcomes (snd (execute_routed (\<lambda>n. None) ''t'' groq_down Execution demo_route (demo_agents 0))) = [(Groq, False), (KiroAi, True)]"
proof -
  let ?r = "execute_routed (\<lambda>n. None) ''t'' groq_down Execution demo_route (demo_agents 0)"
  have r: "reliable (demo_agents 0)" by (simp add: reliable_def demo_agents_def new_stats_def)
  have c: "[KiroAi, ClaudeCodeCli] = filter (validateToken (\<lambda>n. None)) (tl (fallbackProviders demo_route))"
    by (simp add: demo_route_def validateToken_def)
  have p: "Groq = rr_provider demo_route" by (simp add: demo_route_def)
  have e: "agent_isRetryableError ''Groq 429''" by code_simp
  have o: "outcomes (demo_agents (0::nat)) = []" "asked (demo_agents (0::nat)) = []" by (simp_all add: outcomes_def demo_agents_def)
  obtain res s' where run: "?r = (res, s')" by force
  from execute_calls [OF r run p c] obtain k where k: "k \<le> length [KiroAi, ClaudeCodeCli]"
    "asked s' = asked (demo_agents (0::nat)) @ take (Suc k) [Groq, KiroAi, ClaudeCodeCli]"
    "outcomes s' = outcomes (demo_agents (0::nat)) @ map (\<lambda>q. (q, False)) (take k [Groq, KiroAi, ClaudeCodeCli]) @
       [([Groq, KiroAi, ClaudeCodeCli] ! k, \<not> isl res)]"
    "\<forall>q\<in>set (take k [Groq, KiroAi, ClaudeCodeCli]). \<exists>v e. fst (groq_down q v) = Inl e"
    "case res of Inr (q, answer) \<Rightarrow> q = [Groq, KiroAi, ClaudeCodeCli] ! k \<and> (\<exists>v. fst (groq_down q v) = Inr answer)
       | Inl e \<Rightarrow> fst (groq_down Groq (world (demo_agents 0))) = Inl e \<and>
           k = (if agent_isRetryableError e then length [KiroAi, ClaudeCodeCli] else 0)"
    by (elim exE conjE) (rule that; assumption)
  have "k = 1 \<and> \<not> isl res"
  proof (cases res)
    case (Inl err)
    then have "k = 2" using k(5) e by (auto simp: groq_down_def)
    then show ?thesis using k(4) by (auto simp: groq_down_def numeral_2_eq_2)
  next
    case (Inr a)
    have "k \<noteq> 0"
    proof
      assume "k = 0"
      then show False using k(5) Inr by (cases a) (auto simp: groq_down_def)
    qed
    moreover have "k \<noteq> 2" using k(4) by (auto simp: groq_down_def numeral_2_eq_2)
    ultimately have "k = 1" using k(1) by simp
    then show ?thesis using Inr by simp
  qed
  then show ?thesis using k run o by simp
qed

text \<open>
  The statistics are written inside the \<open>try\<close> block of the call: once a write of the statistics was
  rejected, every later task ends in that error. The selected provider is asked, its answer is thrown
  away, no other provider is asked and no outcome reaches the ledger.\<close>

theorem answer_lost:
  assumes "queue_error (agent_stats s) = Some w"
  shows "\<exists>s'. execute_routed key now call role route s = (Inl w, s') \<and> queue_error (agent_stats s') = Some w \<and>
    asked s' = asked s @ [rr_provider route] \<and> agent_log s' = agent_log s"
proof -
  have u: "\<exists>t. updateOutcome now p role ok st = (Inl w, t) \<and> queue_error t = Some w" if "queue_error st = Some w" for p ok st
    using that by (simp add: updateOutcome_def stats_update_def stats_flush_def ensureLoaded_def Let_def)
  have rec: "\<exists>s2. record_outcome now p role ok reason s1 = (Inl w, s2) \<and> queue_error (agent_stats s2) = Some w \<and>
      asked s2 = asked s1 \<and> agent_log s2 = agent_log s1" if "queue_error (agent_stats s1) = Some w" for p ok reason and s1 :: "'a agents"
    using u [OF that, of p ok] by (auto simp: record_outcome_def record_stats_def and_then_def)
  let ?p = "rr_provider route"
  obtain e s1 where t: "try_primary now call role ?p s = (Inl e, s1)" "queue_error (agent_stats s1) = Some w"
    "asked s1 = asked s @ [?p]" "agent_log s1 = agent_log s"
  proof (cases "fst (call ?p (world s))")
    case (Inl e)
    show ?thesis
      by (rule that [of e "snd (ask call ?p s)"]) (simp_all add: try_primary_def ask_eq Inl assms)
  next
    case (Inr r)
    have "queue_error (agent_stats (snd (ask call ?p s))) = Some w" by (simp add: ask_eq assms)
    from rec [OF this, of ?p True None] obtain s2 where "record_outcome now ?p role True None (snd (ask call ?p s)) = (Inl w, s2)"
      "queue_error (agent_stats s2) = Some w" "asked s2 = asked s @ [?p]" "agent_log s2 = agent_log s"
      by (auto simp: ask_eq)
    then show ?thesis by (intro that [of w s2]) (simp_all add: try_primary_def ask_eq Inr)
  qed
  from rec [OF t(2), of ?p False "Some e"] obtain s2 where "record_outcome now ?p role False (Some e) s1 = (Inl w, s2)"
    "queue_error (agent_stats s2) = Some w" "asked s2 = asked s1" "agent_log s2 = agent_log s1" by blast
  with t show ?thesis by (simp add: execute_routed_def Let_def)
qed

lemma answer_lost_witness:
  "\<exists>s'. execute_routed (\<lambda>n. None) ''t'' groq_down Execution (demo_route\<lparr>rr_provider := KiroAi\<rparr>)
     ((demo_agents 0)\<lparr>agent_stats := (new_stats None [])\<lparr>queue_error := Some ''EROFS''\<rparr>\<rparr>) = (Inl ''EROFS'', s') \<and>
     asked s' = [KiroAi]"
  using answer_lost [where w = "''EROFS''" and key = "\<lambda>n. None" and now = "''t''" and call = groq_down and role = Execution and
    route = "demo_route\<lparr>rr_provider := KiroAi\<rparr>" and
    s = "(demo_agents 0)\<lparr>agent_stats := (new_stats None [])\<lparr>queue_error := Some ''EROFS''\<rparr>\<rparr>"]
  by (auto simp: demo_agents_def)

end
