(* ===== verification/Routing.thy ===== *)
theory Routing
  imports Agent_Router Provider_Completion
begin

text \<open>
  The agent router on top of the provider router: \<open>routeTaskWithFallback\<close> of
  \<open>src/core/agent-router.ts\<close> with \<open>completion\<close> of \<open>src/providers/router.ts\<close> as the call it makes.
\<close>

text \<open>\<open>providerRouter.completion({ messages, provider })\<close>.\<close>

definition router_call :: "(nat \<Rightarrow> attempt_world) \<Rightarrow> context_service \<Rightarrow> LLMMessage list \<Rightarrow> (router, LLMResponse) provider_call" where
  "router_call w service ms p r = completion w service None (Some p) ms r"

lemma execute_routed_answer:
  assumes "reliable s" "call (rr_provider route) (world s) = (Inr resp, v)"
  shows "\<exists>s'. execute_routed key now call role route s = (Inr (rr_provider route, resp), s') \<and> world s' = v \<and>
    outcomes s' = outcomes s @ [(rr_provider route, True)]"
proof -
  let ?p = "rr_provider route"
  define s1 where "s1 = snd (ask call ?p s)"
  have s1: "ask call ?p s = (Inr resp, s1)" "reliable s1" "outcomes s1 = outcomes s" "world s1 = v"
    using ask_reliable [OF assms(1), of call ?p] assms(2) by (simp_all add: s1_def ask_eq)
  obtain s2 where "record_outcome now ?p role True None s1 = (Inr (), s2)" "world s2 = world s1"
    "outcomes s2 = outcomes s1 @ [(?p, True)]"
    using record_reliable [OF s1(2)] by blast
  with s1 show ?thesis by (simp add: execute_routed_def try_primary_def)
qed

text \<open>An answer of the second provider is credited to the first. When the selected provider fails with an
  error that is worth a retry and \<open>completion\<close> of the provider router then gets an answer, it comes from
  another provider; \<open>routeTaskWithFallback\<close> still returns the selected provider as its author and
  records a success, and no failure, of that provider, which the later rankings learn from.\<close>

theorem credit_goes_to_asked:
  assumes "reliable s" "p = rr_provider route" "r = world s"
    and "quiet (w 0)" "quiet (w 1)" "disk r = []" "eventLedger r" "ledger_answers r = []"
    and "completion w service None (Some p) ms r = (Inr resp, r')"
    and "\<forall>msgs. isl (fst (callProvider (fst (w 0)) p msgs (selected p r)))"
  shows "\<exists>s' q. execute_routed key now (router_call w service ms) role route s = (Inr (p, resp), s') \<and>
    outcomes s' = outcomes s @ [(p, True)] \<and> q \<noteq> p \<and>
    (\<exists>v msgs. fst (callProvider (fst (w 1)) q msgs v) = Inr resp) \<and>
    map fst (llm_requests (world s')) = map fst (llm_requests r) @ [p, q]"
proof -
  have c: "router_call w service ms (rr_provider route) (world s) = (Inr resp, r')"
    using assms(2,3,9) by (simp add: router_call_def)
  obtain s' where s': "execute_routed key now (router_call w service ms) role route s = (Inr (p, resp), s')"
    "world s' = r'" "outcomes s' = outcomes s @ [(p, True)]"
    using execute_routed_answer [of s "router_call w service ms" route, OF assms(1) c] assms(2) by blast
  define msgs where "msgs = optimized_messages service None ms"
  obtain e where e: "fst (callProvider (fst (w 0)) p msgs (selected p r)) = Inl e"
    using assms(10) by (auto simp: isl_def)
  define v where "v = changing_over (fst (w 0)) p msgs e r"
  define q where "q = fallback 0 (Some p) v"
  have "q \<noteq> p" "Inr resp = fst (callProvider (fst (w 1)) q msgs v)"
    "llm_requests r' = llm_requests r @ [(p, MODEL_NAMES p, msgs), (q, MODEL_NAMES q, msgs)]"
    using completion_exact [OF assms(4-9), OF refl refl, folded msgs_def]
    by (auto simp: e q_def v_def Let_def split: if_splits)
  with s' show ?thesis by (intro exI [of _ s'] exI [of _ q]) auto
qed

lemma demo_second_answers:
  "\<exists>resp r'. completion demo_worlds None None (Some Groq) [] (demo_router\<lparr>eventLedger := True\<rparr>) = (Inr resp, r')"
proof -
  obtain res r' where c: "completion demo_worlds None None (Some Groq) [] (demo_router\<lparr>eventLedger := True\<rparr>) = (res, r')" by force
  have "res = fst (callProvider (fst (demo_worlds 1)) DeepseekV4 [] demo_over)"
    using completion_exact [OF demo_quiet demo_quiet _ _ _ c, OF _ _ _ refl refl]
    by (simp add: demo_first_fails demo_ledger demo_retryable demo_over(1) Let_def flip: demo_over_def)
  then show ?thesis using c demo_second_works [OF demo_over(2), of "[]"] by auto
qed

definition demo_mixed :: "router agents" where
  "demo_mixed = demo_agents (demo_router\<lparr>eventLedger := True\<rparr>)"

lemma credit_goes_to_asked_witness:
  "\<exists>resp s' q. execute_routed (\<lambda>n. None) ''t'' (router_call demo_worlds None []) Execution demo_route demo_mixed = (Inr (Groq, resp), s') \<and>
     q \<noteq> Groq \<and> map fst (llm_requests (world s')) = [Groq, q] \<and> outcomes s' = [(Groq, True)]"
proof -
  obtain resp r' where c: "completion demo_worlds None None (Some Groq) [] (world demo_mixed) = (Inr resp, r')"
    using demo_second_answers by (auto simp: demo_mixed_def demo_agents_def)
  have w: "world demo_mixed = demo_router\<lparr>eventLedger := True\<rparr>" "reliable demo_mixed" "outcomes demo_mixed = []"
    by (simp_all add: demo_mixed_def demo_agents_def reliable_def new_stats_def outcomes_def)
  have "Groq = rr_provider demo_route" by (simp add: demo_route_def)
  moreover have "quiet (demo_worlds k)" for k by (simp add: quiet_def demo_worlds_def)
  moreover have "disk (world demo_mixed) = []" "eventLedger (world demo_mixed)" "ledger_answers (world demo_mixed) = []"
    by (simp_all add: w demo_ledger)
  moreover have "\<forall>msgs. isl (fst (callProvider (fst (demo_worlds 0)) Groq msgs (selected Groq (world demo_mixed))))"
    by (simp add: w demo_first_fails)
  ultimately obtain s' q where "execute_routed (\<lambda>n. None) ''t'' (router_call demo_worlds None []) Execution demo_route demo_mixed =
      (Inr (Groq, resp), s')" "outcomes s' = outcomes demo_mixed @ [(Groq, True)]" "q \<noteq> Groq"
    "map fst (llm_requests (world s')) = map fst (llm_requests (world demo_mixed)) @ [Groq, q]"
    using credit_goes_to_asked [OF w(2) _ refl _ _ _ _ _ c, where key = "\<lambda>n. None" and now = "''t''" and role = Execution] by blast
  then show ?thesis by (auto simp: w demo_ledger)
qed

end
