(* ===== verification/Verification_Mesh.thy ===== *)
theory Verification_Mesh
  imports "HOL-Library.Word" Jcr_Gate Js_Value Agent_Router Provider_Router
begin

unbundle bit_operations_syntax

text \<open>
  \<open>src/core/verification-mesh.ts\<close>: a second agent and an arbiter for critical tasks, with a budget on
  their cost.

  The answers of the routed calls, the times they take and the indexer are parameters, gathered in
  \<open>mesh_world\<close>; a response is a JavaScript value. The ledger is the list of the events logged, and
  \<open>mesh_ledger\<close> is what the next calls of \<open>log\<close> answer. Costs are binary64 numbers. Warnings on the
  console are left out.
\<close>

section \<open>Types and state\<close>

datatype MeshComplexity = CLow | CMedium | CHigh | CCritical
datatype min_complexity = MinHigh | MinCritical
datatype mesh_mode = Structural | Semantic

record VerificationPolicy =
  policy_enabled :: bool
  policy_mode :: mesh_mode
  max_extra_cost_pct :: rat
  min_complexity :: min_complexity

text \<open>The fields of \<open>Partial<VerificationPolicy>\<close> that are given.\<close>

record policy_patch =
  patch_enabled :: "bool option"
  patch_mode :: "mesh_mode option"
  patch_max :: "rat option"
  patch_min :: "min_complexity option"

record mesh_task =
  mt_id :: "string option"
  mt_messages :: "LLMMessage list"
  mt_complexity :: "MeshComplexity option"
  filesModified :: "int option"

record MeshExecutionOptions =
  opt_role :: TaskRole
  opt_task :: mesh_task
  opt_policy :: policy_patch
  agentBTimeoutMs :: "int option"

datatype verdict = VA | VB | VConflict

record mesh_agent =
  ag_provider :: ProviderId
  ag_response :: json
  ag_exitCode :: int
  crashed :: bool
  timedOut :: bool

record mesh_verdict =
  arb_verdict :: verdict
  arb_reasoning :: string
  arb_provider :: ProviderId

record MeshResult =
  result_A :: "ProviderId \<times> json \<times> int"
  result_B :: "mesh_agent option"
  result_arbiter :: "mesh_verdict option"
  meshApplied :: bool
  meshCostDelta :: rat
  totalCost :: rat

datatype mesh_event =
    MeshSkipped
  | MeshDegraded bool ProviderId
  | ContextCompressed "string list" nat "string list"
  | GateDecided rat bool string rat bool
  | CircuitBreaker rat rat
  | MeshCompleted verdict ProviderId ProviderId string rat

record VerificationMesh =
  mesh_log :: "mesh_event list"
  mesh_ledger :: "string option list"
  mesh_calls :: "(TaskRole \<times> string option \<times> LLMMessage list) list"
  sessionCostBase :: rat
  sessionVerificationCost :: rat
  meshEnabled :: bool
  jcrGate :: JCRSafetyGate

definition defaultPolicy :: VerificationPolicy where
  "defaultPolicy = \<lparr>policy_enabled = True, policy_mode = Structural, max_extra_cost_pct = 15, min_complexity = MinHigh\<rparr>"

definition new_mesh :: "string option list \<Rightarrow> VerificationMesh" where
  "new_mesh answers = \<lparr>mesh_log = [], mesh_ledger = answers, mesh_calls = [], sessionCostBase = 0,
     sessionVerificationCost = 0, meshEnabled = True,
     jcrGate = \<lparr>threshold = DEFAULT_JCR_THRESHOLD, decision_log = []\<rparr>\<rparr>"

record FileSignature =
  sig_name :: string
  sig_parameters :: string
  sig_return :: "string option"
  sig_line :: int

text \<open>
  What happens outside during one \<open>execute\<close>: the results of the calls, with the time the first took
  and the time the second takes, the indexer if there is one, the arbiter's answer to its messages.
\<close>

record mesh_world =
  reply_A :: "string + ProviderId \<times> json"
  elapsed_A :: int
  reply_B :: "string + ProviderId \<times> json"
  delay_B :: int
  indexer :: "(string \<Rightarrow> string + FileSignature list) option"
  reply_arbiter :: "LLMMessage list \<Rightarrow> string + ProviderId \<times> json"
  gate_now :: nat

definition mesh_emit :: "mesh_event \<Rightarrow> VerificationMesh \<Rightarrow> (string + unit) \<times> VerificationMesh" where
  "mesh_emit ev m = (case mesh_ledger m of
     Some e # as \<Rightarrow> (Inl e, m\<lparr>mesh_ledger := as\<rparr>)
   | None # as \<Rightarrow> (Inr (), m\<lparr>mesh_ledger := as, mesh_log := mesh_log m @ [ev]\<rparr>)
   | [] \<Rightarrow> (Inr (), m\<lparr>mesh_log := mesh_log m @ [ev]\<rparr>))"

definition routerFn :: "TaskRole \<Rightarrow> string option \<Rightarrow> LLMMessage list \<Rightarrow> 'a \<Rightarrow> VerificationMesh \<Rightarrow> 'a \<times> VerificationMesh" where
  "routerFn role i ms answer m = (answer, m\<lparr>mesh_calls := mesh_calls m @ [(role, i, ms)]\<rparr>)"

section \<open>Which tasks are verified, and costs\<close>

definition merged_policy :: "policy_patch \<Rightarrow> VerificationPolicy" where
  "merged_policy p =
    \<lparr>policy_enabled = (case patch_enabled p of Some b \<Rightarrow> b | None \<Rightarrow> policy_enabled defaultPolicy),
     policy_mode = (case patch_mode p of Some b \<Rightarrow> b | None \<Rightarrow> policy_mode defaultPolicy),
     max_extra_cost_pct = (case patch_max p of Some b \<Rightarrow> b | None \<Rightarrow> max_extra_cost_pct defaultPolicy),
     min_complexity = (case patch_min p of Some b \<Rightarrow> b | None \<Rightarrow> min_complexity defaultPolicy)\<rparr>"

definition shouldVerify :: "mesh_task \<Rightarrow> VerificationPolicy \<Rightarrow> VerificationMesh \<Rightarrow> bool" where
  "shouldVerify t p m =
    (if \<not> policy_enabled p \<or> \<not> meshEnabled m then False
     else if min_complexity p = MinCritical \<and> mt_complexity t \<noteq> Some CCritical then False
     else if min_complexity p = MinHigh \<and> mt_complexity t \<noteq> Some CHigh \<and> mt_complexity t \<noteq> Some CCritical then False
     else if (case filesModified t of Some n \<Rightarrow> n \<noteq> 0 \<and> n < 3 | None \<Rightarrow> False) then False
     else True)"

fun costMap :: "ProviderId \<Rightarrow> rat" where
  "costMap OpencodeGo = 2"
| "costMap AnthropicApi = 3"
| "costMap GeminiApi = 1"
| "costMap DeepseekV4 = 2"
| "costMap Deepseek = 1"
| "costMap Tavily = 0.5"
| "costMap Gemini = 0.5"
| "costMap MoonshotK25 = 2"
| "costMap MoonshotK26 = 2.5"
| "costMap XiaomiMimo = 0.5"
| "costMap Carnice9bLocal = 0"
| "costMap Qwen35Plus = 1"
| "costMap Qwen36Plus = 1.5"
| "costMap MinimaxM25 = 1"
| "costMap MinimaxM27 = 1.5"
| "costMap GlmDeepinfra = 0.5"
| "costMap GlmFireworks = 0.5"
| "costMap GlmZai = 0.5"
| "costMap Groq = flt 0.3"
| "costMap KiroAi = flt 0.2"
| "costMap Mistral = 0.5"
| "costMap Openai = 1"
| "costMap ClaudeCodeCli = 0"
| "costMap CodexCli = 0"
| "costMap GeminiCli = 0"

definition estimateCost :: "ProviderId \<Rightarrow> rat" where
  "estimateCost p = (if costMap p = 0 then 1 else costMap p)"

section \<open>Contents\<close>

fun extractContent :: "json \<Rightarrow> string" where
  "extractContent (JStr s) = s"
| "extractContent (JObj kvs) =
    (case dget kvs ''content'' of Some v \<Rightarrow> js_string v
     | None \<Rightarrow> (case dget kvs ''text'' of Some v \<Rightarrow> js_string v | None \<Rightarrow> stringify (JObj kvs)))"
| "extractContent (JArr vs) = stringify (JArr vs)"
| "extractContent v = js_string v"

text \<open>The 32-bit hash, and its text in base 36.\<close>

definition hash32 :: "string \<Rightarrow> 32 word" where
  "hash32 s = foldl (\<lambda>h c. push_bit 5 h - h + word_of_nat (of_char c)) 0 s"

definition digit36 :: "nat \<Rightarrow> char" where
  "digit36 n = char_of (if n < 10 then 48 + n else 87 + n)"

fun show36 :: "nat \<Rightarrow> string" where
  "show36 n = (if n < 36 then [digit36 n] else show36 (n div 36) @ [digit36 (n mod 36)])"

declare show36.simps [simp del]

definition hashContent :: "string \<Rightarrow> string" where
  "hashContent s = (let h = sint (hash32 s) in if h < 0 then ''-'' @ show36 (nat (- h)) else show36 (nat h))"

section \<open>Modified files\<close>

definition set_add :: "'a \<Rightarrow> 'a list \<Rightarrow> 'a list" where
  "set_add x xs = (if x \<in> set xs then xs else xs @ [x])"

text \<open>The line terminators that the dot of a regular expression does not match.\<close>

definition is_eol :: "char \<Rightarrow> bool" where
  "is_eol c \<longleftrightarrow> c = CHR 0x0A \<or> c = CHR 0x0D"

text \<open>\<open>/^\+\+\+ b\/(.+)$/gm\<close>: the argument says whether a line begins here.\<close>

fun diff_scan :: "bool \<Rightarrow> string \<Rightarrow> string list" where
  "diff_scan b [] = []"
| "diff_scan b (c # cs) =
    (let path = takeWhile (\<lambda>c. \<not> is_eol c) (drop 6 (c # cs))
     in if b \<and> starts_with (c # cs) ''+++ b/'' \<and> path \<noteq> [] then path # diff_scan False cs
        else diff_scan (is_eol c) cs)"

text \<open>\<open>(.+?)(?:\r?\n|$)\<close> here: what is captured and what is left.\<close>

definition match_line :: "string \<Rightarrow> (string \<times> string) option" where
  "match_line s = (let b = takeWhile (\<lambda>c. \<not> is_eol c) s; r = dropWhile (\<lambda>c. \<not> is_eol c) s
     in if b = [] then None
        else case r of [] \<Rightarrow> Some (b, [])
          | c # cs \<Rightarrow> if c = CHR 0x0A then Some (b, cs)
              else (case cs of [] \<Rightarrow> None | d # ds \<Rightarrow> if d = CHR 0x0A then Some (b, ds) else None))"

text \<open>\<open>\s*(.+?)(?:\r?\n|$)\<close>: as much white space as leaves a match.\<close>

fun match_label :: "string \<Rightarrow> (string \<times> string) option" where
  "match_label [] = None"
| "match_label (c # cs) =
    (if is_space c then (case match_label cs of Some r \<Rightarrow> Some r | None \<Rightarrow> match_line (c # cs))
     else match_line (c # cs))"

definition match_file :: "string \<Rightarrow> (string \<times> string) option" where
  "match_file s = (if starts_with s ''File:'' \<or> starts_with s ''file:'' then match_label (drop 5 s) else None)"

lemma match_line_shorter: "match_line s = Some (b, r) \<Longrightarrow> length r < length s"
proof -
  assume m: "match_line s = Some (b, r)"
  have "length (takeWhile (\<lambda>c. \<not> is_eol c) s) + length (dropWhile (\<lambda>c. \<not> is_eol c) s) = length s"
    by (metis length_append takeWhile_dropWhile_id)
  with m show ?thesis by (auto simp: match_line_def Let_def split: if_splits list.splits)
qed

lemma match_label_shorter: "match_label s = Some (b, r) \<Longrightarrow> length r < length s"
  by (induction s) (auto split: if_splits option.splits dest: match_line_shorter)

lemma match_file_shorter: "match_file s = Some (b, r) \<Longrightarrow> length r < length s"
  using match_label_shorter [of "drop 5 s" b r] by (auto simp: match_file_def split: if_splits)

text \<open>\<open>/(?:^|\n)(?:File|file):\s*(.+?)(?:\r?\n|$)/g\<close>\<close>

function file_scan :: "string \<Rightarrow> string list" where
  "file_scan [] = []"
| "file_scan (c # cs) =
    (if c = CHR 0x0A then
       (case match_file cs of Some (path, rest) \<Rightarrow> path # file_scan rest | None \<Rightarrow> file_scan cs)
     else file_scan cs)"
  by pat_completeness auto
termination
  by (relation "measure length") (auto dest: match_file_shorter)

definition file_matches :: "string \<Rightarrow> string list" where
  "file_matches s = (case match_file s of Some (path, rest) \<Rightarrow> path # file_scan rest | None \<Rightarrow> file_scan s)"

definition listed_files :: "json \<Rightarrow> string list" where
  "listed_files response = (case opt_get response ''modifiedFiles'' of
     JArr vs \<Rightarrow> concat (map (\<lambda>v. case v of JStr s \<Rightarrow> [s] | _ \<Rightarrow> []) vs)
   | _ \<Rightarrow> [])"

definition plausible_path :: "string \<Rightarrow> bool" where
  "plausible_path p \<longleftrightarrow> 0 < length p \<and> \<not> contains p '' '' \<and> contains p ''.''"

definition extractModifiedFiles :: "json \<Rightarrow> string list" where
  "extractModifiedFiles response =
    (let content = extractContent response
     in fold set_add (listed_files response @ diff_scan True content @
          filter plausible_path (map trim (file_matches content))) [])"

section \<open>Signatures\<close>

definition fetchFileSignatures :: "mesh_world \<Rightarrow> string list \<Rightarrow> VerificationMesh \<Rightarrow>
    (string + (string, FileSignature list) dict option) \<times> VerificationMesh" where
  "fetchFileSignatures w paths m = (case indexer w of
     None \<Rightarrow> (Inr None, m)
   | Some get \<Rightarrow>
       (let found = foldl (\<lambda>d p. case get p of Inr sigs \<Rightarrow> dset p sigs d | Inl e \<Rightarrow> d) [] paths;
            failed = filter (\<lambda>p. isl (get p)) paths
        in and_then (mesh_emit (ContextCompressed paths (length found) failed) m)
             (\<lambda>u m1. (Inr (if 0 < length found then Some found else None), m1))))"

definition signature_line :: "FileSignature \<Rightarrow> string" where
  "signature_line g = ''  '' @ sig_name g @ ''('' @ sig_parameters g @ '')'' @
     (case sig_return g of Some (c # cs) \<Rightarrow> '': '' @ (c # cs) | _ \<Rightarrow> []) @ '' [L'' @ show_int (sig_line g) @ '']''"

definition buildCompressedContext :: "(string, FileSignature list) dict \<Rightarrow> string" where
  "buildCompressedContext d =
    join [newline, newline] (map (\<lambda>(p, sigs). join [newline] ((''=== '' @ p @ '' ==='') # map signature_line sigs))
      (filter (\<lambda>(p, sigs). sigs \<noteq> []) d))"

section \<open>The arbiter\<close>

definition verdict_of :: "json \<Rightarrow> verdict option" where
  "verdict_of v = (if v = JStr ''A'' then Some VA else if v = JStr ''B'' then Some VB
     else if v = JStr ''conflict'' then Some VConflict else None)"

text \<open>\<open>/\{[\s\S]*?\}/\<close>: from the first opening brace to the first closing brace behind it.\<close>

definition first_braces :: "string \<Rightarrow> string option" where
  "first_braces s = (let r = dropWhile (\<lambda>c. c \<noteq> CHR 0x7B) s in
     if CHR 0x7D \<in> set r then Some (takeWhile (\<lambda>c. c \<noteq> CHR 0x7D) r @ [CHR 0x7D]) else None)"

definition parseArbiterResponse :: "string \<Rightarrow> verdict \<times> string" where
  "parseArbiterResponse content =
    (case (case first_braces content of None \<Rightarrow> None
         | Some t \<Rightarrow> (case json_parse t of None \<Rightarrow> None
             | Some parsed \<Rightarrow> (case verdict_of (opt_get parsed ''verdict'') of None \<Rightarrow> None
                 | Some v \<Rightarrow> Some (v, js_string (or_else (opt_get parsed ''reasoning'') (JStr ''No reasoning provided''))))))
     of Some r \<Rightarrow> r
      | None \<Rightarrow>
          if contains (to_lower content) (dquote # ''verdict'' @ [dquote]) \<and>
             contains (to_lower content) (dquote # ''b'' @ [dquote])
          then (VB, ''Extracted B from partial response'')
          else (VConflict, ''Could not parse arbiter response: '' @ take 200 content))"

definition taskDescription :: "LLMMessage list \<Rightarrow> string" where
  "taskDescription ms = (case List.find (\<lambda>m. msg_role m = MUser) ms of
       Some m \<Rightarrow> if msg_content m \<noteq> [] then msg_content m
         else (case ms of x # xs \<Rightarrow> if msg_content x \<noteq> [] then msg_content x else ''Unknown task'' | [] \<Rightarrow> ''Unknown task'')
     | None \<Rightarrow> (case ms of x # xs \<Rightarrow> if msg_content x \<noteq> [] then msg_content x else ''Unknown task'' | [] \<Rightarrow> ''Unknown task''))"

definition ARBITER_SYSTEM :: string where
  "ARBITER_SYSTEM = ''You are an impartial code arbiter. You will see two outputs (A and B) generated by different AI agents for the same task. Compare them and decide which is better. Consider correctness, completeness, clarity, and conciseness. Respond with ONLY valid JSON in this exact format: {''
     @ dquote # ''verdict'' @ dquote # '': '' @ dquote # ''A'' @ dquote # '' or '' @ dquote # ''B'' @ dquote # '' or '' @ dquote
     # ''conflict'' @ dquote # '', '' @ dquote # ''reasoning'' @ dquote # '': '' @ dquote # ''brief explanation'' @ dquote # ''}''"

definition context_block :: "string option \<Rightarrow> string" where
  "context_block compressed = (case compressed of
     Some (c # cs) \<Rightarrow> [newline, newline] @ ''--- FILE SIGNATURES (AST) ---'' @ newline # (c # cs) @ newline # ''--- END SIGNATURES ---''
   | _ \<Rightarrow> [])"

definition arbiter_messages :: "mesh_task \<Rightarrow> string option \<Rightarrow> string \<Rightarrow> string \<Rightarrow> LLMMessage list" where
  "arbiter_messages t compressed a b =
    [\<lparr>msg_role = MSystem, msg_content = ARBITER_SYSTEM\<rparr>,
     \<lparr>msg_role = MUser, msg_content = ''Task: '' @ taskDescription (mt_messages t) @ context_block compressed
        @ [newline, newline] @ ''--- OUTPUT A ---'' @ newline # a @ [newline, newline] @ ''--- OUTPUT B ---'' @ newline # b
        @ [newline, newline] @ ''Which output is better? Reply with JSON only.''\<rparr>]"

definition structural_fallback :: "string \<Rightarrow> string \<Rightarrow> mesh_verdict" where
  "structural_fallback a b =
    (if of_nat (length a) < fmul (of_nat (length b)) (flt 0.8) then
       \<lparr>arb_verdict = VA, arb_reasoning = ''A is more concise (LLM arbiter unavailable, structural fallback)'', arb_provider = Groq\<rparr>
     else if of_nat (length b) < fmul (of_nat (length a)) (flt 0.8) then
       \<lparr>arb_verdict = VB, arb_reasoning = ''B is more concise (LLM arbiter unavailable, structural fallback)'', arb_provider = Groq\<rparr>
     else
       \<lparr>arb_verdict = VA, arb_reasoning = ''Outputs similar length; preferring primary executor (LLM arbiter unavailable)'',
        arb_provider = Groq\<rparr>)"

text \<open>The compressed context, and whether the source is called \<open>signatures\<close>. A failing log is caught here.\<close>

definition compress_context :: "mesh_world \<Rightarrow> string list \<Rightarrow> VerificationMesh \<Rightarrow> (string option \<times> bool) \<times> VerificationMesh" where
  "compress_context w files m =
    (if files \<noteq> [] \<and> indexer w \<noteq> None then
       (case fetchFileSignatures w files m of
          (Inr (Some d), m1) \<Rightarrow> ((Some (buildCompressedContext d), True), m1)
        | (_, m1) \<Rightarrow> ((None, False), m1))
     else ((None, False), m))"

definition nonempty :: "string option \<Rightarrow> bool" where
  "nonempty s = (case s of Some (c # cs) \<Rightarrow> True | _ \<Rightarrow> False)"

definition arbiter_gate_input :: "string option \<Rightarrow> JCRGateInput" where
  "arbiter_gate_input compressed = \<lparr>agentRole = ''critic'', candidateCount = 2,
     reuseRate = (if nonempty compressed then 1 else 0), layoutShuffled = False\<rparr>"

text \<open>The \<open>try\<close> block around the arbiter's answer.\<close>

definition ask_arbiter :: "mesh_world \<Rightarrow> mesh_task \<Rightarrow> string option \<Rightarrow> bool \<Rightarrow> string \<Rightarrow> string \<Rightarrow> VerificationMesh \<Rightarrow>
    mesh_verdict \<times> VerificationMesh" where
  "ask_arbiter w t compressed signatures a b m =
    (let ms = arbiter_messages t compressed a b;
         tid = ''arbiter-'' @ (case mt_id t of Some (c # cs) \<Rightarrow> c # cs | _ \<Rightarrow> ''unknown'')
     in case routerFn Verification (Some tid) ms (reply_arbiter w ms) m of
          (Inl e, m1) \<Rightarrow> (structural_fallback a b, m1)
        | (Inr (p, response), m1) \<Rightarrow>
            (let (v, r) = parseArbiterResponse (extractContent response)
             in (\<lparr>arb_verdict = v, arb_reasoning = (if signatures then r @ '' (evaluated using AST signatures)'' else r),
                 arb_provider = p\<rparr>, m1)))"

definition identical_verdict :: mesh_verdict where
  "identical_verdict = \<lparr>arb_verdict = VA, arb_reasoning = ''Outputs are structurally identical'', arb_provider = Groq\<rparr>"

definition gate_arbiter :: "mesh_world \<Rightarrow> string option \<Rightarrow> VerificationMesh \<Rightarrow> (string + JCRDecision) \<times> VerificationMesh" where
  "gate_arbiter w compressed m = (case gateDecision (gate_now w) (arbiter_gate_input compressed) (jcrGate m) of
     (d, g) \<Rightarrow> (d, m\<lparr>jcrGate := g\<rparr>))"

definition runArbiter :: "mesh_world \<Rightarrow> json \<Rightarrow> json \<Rightarrow> mesh_task \<Rightarrow> VerificationMesh \<Rightarrow> (string + mesh_verdict) \<times> VerificationMesh" where
  "runArbiter w ra rb t m =
    (let a = extractContent ra; b = extractContent rb in
     if hashContent a = hashContent b then (Inr identical_verdict, m)
     else
       let files = fold set_add (extractModifiedFiles ra @ extractModifiedFiles rb) [];
           ((compressed, signatures), m1) = compress_context w files m
       in and_then (gate_arbiter w compressed m1) (\<lambda>d m2.
            and_then (mesh_emit (GateDecided (riskScore d) (useDense d) (reason d) (threshold (jcrGate m2)) signatures) m2) (\<lambda>u m3.
              let dropped = useDense d \<and> nonempty compressed;
                  (v, m4) = ask_arbiter w t (if dropped then None else compressed) (if dropped then False else signatures) a b m3
              in (Inr v, m4))))"

section \<open>execute\<close>

datatype B_outcome = BTimeout | BThrows string | BAnswer ProviderId json

definition agentBTimeout :: "int option \<Rightarrow> int \<Rightarrow> int" where
  "agentBTimeout given elapsed = (case given of Some t \<Rightarrow> t | None \<Rightarrow> max (elapsed * 2) 30000)"

text \<open>\<open>Promise.race\<close> of the second call and the timer.\<close>

definition race_B :: "int option \<Rightarrow> mesh_world \<Rightarrow> B_outcome" where
  "race_B given w =
    (if timer_delay (of_int (agentBTimeout given (elapsed_A w))) \<le> delay_B w then BTimeout
     else case reply_B w of Inl e \<Rightarrow> BThrows e | Inr (p, v) \<Rightarrow> BAnswer p v)"

definition A_alone :: "ProviderId \<Rightarrow> json \<Rightarrow> mesh_agent option \<Rightarrow> MeshResult" where
  "A_alone p v b = \<lparr>result_A = (p, v, 0), result_B = b, result_arbiter = None, meshApplied = False,
     meshCostDelta = 0, totalCost = estimateCost p\<rparr>"

definition degraded :: "bool \<Rightarrow> ProviderId \<Rightarrow> mesh_agent" where
  "degraded timeout p = \<lparr>ag_provider = p, ag_response = JNull, ag_exitCode = (if timeout then 143 else 139),
     crashed = (\<not> timeout), timedOut = timeout\<rparr>"

text \<open>The costs are added and compared with the limit before anything else is awaited.\<close>

definition charge :: "rat \<Rightarrow> rat \<Rightarrow> VerificationMesh \<Rightarrow> (string + unit) \<times> VerificationMesh" where
  "charge limit cost m =
    (let m1 = m\<lparr>sessionVerificationCost := fadd (sessionVerificationCost m) cost\<rparr>;
         pct = fmul (fdiv (sessionVerificationCost m1) (sessionCostBase m1)) 100
     in if limit < pct then mesh_emit (CircuitBreaker pct limit) (m1\<lparr>meshEnabled := False\<rparr>)
        else (Inr (), m1))"

definition verified_result :: "ProviderId \<Rightarrow> json \<Rightarrow> ProviderId \<Rightarrow> json \<Rightarrow> mesh_verdict \<Rightarrow> MeshResult" where
  "verified_result p va q vb v =
    (let cost = fadd (estimateCost q) (estimateCost (arb_provider v))
     in \<lparr>result_A = (p, va, 0),
         result_B = Some \<lparr>ag_provider = q, ag_response = vb, ag_exitCode = 0, crashed = False, timedOut = False\<rparr>,
         result_arbiter = Some v, meshApplied = True, meshCostDelta = cost, totalCost = fadd (estimateCost p) cost\<rparr>)"

text \<open>After both agents answered.\<close>

definition arbitrate :: "mesh_world \<Rightarrow> mesh_task \<Rightarrow> rat \<Rightarrow> ProviderId \<Rightarrow> json \<Rightarrow> ProviderId \<Rightarrow> json \<Rightarrow> VerificationMesh \<Rightarrow>
    (string + MeshResult) \<times> VerificationMesh" where
  "arbitrate w t limit p va q vb m =
    and_then (runArbiter w va vb t m) (\<lambda>v m1.
      let cost = fadd (estimateCost q) (estimateCost (arb_provider v)) in
      and_then (charge limit cost m1) (\<lambda>u m2.
        and_then (mesh_emit (MeshCompleted (arb_verdict v) p q (arb_reasoning v) cost) m2) (\<lambda>u m3.
          (Inr (verified_result p va q vb v), m3))))"

definition execute :: "mesh_world \<Rightarrow> MeshExecutionOptions \<Rightarrow> VerificationMesh \<Rightarrow> (string + MeshResult) \<times> VerificationMesh" where
  "execute w opts m =
    (let policy = merged_policy (opt_policy opts); t = opt_task opts;
         verify = shouldVerify t policy m
     in and_then (routerFn (opt_role opts) (mt_id t) (mt_messages t) (reply_A w) m) (\<lambda>(p, va) m0.
       let m1 = m0\<lparr>sessionCostBase := fadd (sessionCostBase m0) (estimateCost p)\<rparr> in
       if \<not> verify then and_then (mesh_emit MeshSkipped m1) (\<lambda>u m2. (Inr (A_alone p va None), m2))
       else case routerFn (opt_role opts) (mt_id t) (mt_messages t) (race_B (agentBTimeoutMs opts) w) m1 of
           (BThrows e, m2) \<Rightarrow> (Inl e, m2)
         | (BTimeout, m2) \<Rightarrow> and_then (mesh_emit (MeshDegraded True Groq) m2)
             (\<lambda>u m3. (Inr (A_alone p va (Some (degraded True Groq))), m3))
         | (BAnswer q vb, m2) \<Rightarrow>
             if vb = JNull then and_then (mesh_emit (MeshDegraded False q) m2)
               (\<lambda>u m3. (Inr (A_alone p va (Some (degraded False q))), m3))
             else arbitrate w t (max_extra_cost_pct policy) p va q vb m2))"

section \<open>The budget\<close>

definition budget :: "VerificationMesh \<Rightarrow> rat \<times> rat \<times> bool" where
  "budget m = (sessionCostBase m, sessionVerificationCost m, meshEnabled m)"

text \<open>What logging, a call and the gate leave alone.\<close>

lemma emit_frame [simp]:
  "budget (snd (mesh_emit ev m)) = budget m" "jcrGate (snd (mesh_emit ev m)) = jcrGate m"
  "mesh_calls (snd (mesh_emit ev m)) = mesh_calls m"
  by (auto simp: mesh_emit_def budget_def split: list.splits option.splits)

lemma call_frame [simp]:
  "budget (snd (routerFn role i ms ans m)) = budget m" "jcrGate (snd (routerFn role i ms ans m)) = jcrGate m"
  "mesh_calls (snd (routerFn role i ms ans m)) = mesh_calls m @ [(role, i, ms)]"
  "fst (routerFn role i ms ans m) = ans"
  by (simp_all add: routerFn_def budget_def)

lemma gate_threshold: "threshold (snd (gateDecision now i g)) = threshold g"
  by (simp add: gateDecision_def Let_def split: sum.split)

lemma gate_frame [simp]:
  "budget (snd (gate_arbiter w c m)) = budget m" "threshold (jcrGate (snd (gate_arbiter w c m))) = threshold (jcrGate m)"
  "mesh_calls (snd (gate_arbiter w c m)) = mesh_calls m"
  using gate_threshold [of "gate_now w" "arbiter_gate_input c" "jcrGate m"]
  by (auto simp: gate_arbiter_def budget_def split: prod.split)

definition same_mesh :: "VerificationMesh \<Rightarrow> VerificationMesh \<Rightarrow> bool" where
  "same_mesh m m' \<longleftrightarrow> budget m' = budget m \<and> threshold (jcrGate m') = threshold (jcrGate m)"

lemma same_mesh_refl [simp]: "same_mesh m m" by (simp add: same_mesh_def)

lemma same_mesh_trans: "same_mesh m m1 \<Longrightarrow> same_mesh m1 m2 \<Longrightarrow> same_mesh m m2" by (simp add: same_mesh_def)

text \<open>An event is logged or an error comes back; the rest of the state is the same.\<close>

lemma emit_cases:
  obtains (ok) m1 where "mesh_emit ev m = (Inr (), m1)" "same_mesh m m1" "mesh_calls m1 = mesh_calls m"
  | (fails) e m1 where "mesh_emit ev m = (Inl e, m1)" "same_mesh m m1" "mesh_calls m1 = mesh_calls m"
proof (cases "mesh_emit ev m")
  case (Pair r m1)
  then have "same_mesh m m1" "mesh_calls m1 = mesh_calls m"
    using emit_frame [of ev m] by (simp_all add: same_mesh_def)
  with Pair that show ?thesis by (cases r) auto
qed

lemma fetch_frame: "same_mesh m (snd (fetchFileSignatures w ps m)) \<and> mesh_calls (snd (fetchFileSignatures w ps m)) = mesh_calls m"
proof (cases "indexer w")
  case (Some get)
  define found where "found = foldl (\<lambda>d p. case get p of Inr sigs \<Rightarrow> dset p sigs d | Inl e \<Rightarrow> d) [] ps"
  have "fetchFileSignatures w ps m = and_then (mesh_emit (ContextCompressed ps (length found) (filter (\<lambda>p. isl (get p)) ps)) m)
      (\<lambda>u m1. (Inr (if 0 < length found then Some found else None), m1))"
    by (simp add: fetchFileSignatures_def Some found_def Let_def)
  then show ?thesis
    by (cases rule: emit_cases [of "ContextCompressed ps (length found) (filter (\<lambda>p. isl (get p)) ps)" m]) simp_all
qed (simp add: fetchFileSignatures_def)

lemma compress_frame: "same_mesh m (snd (compress_context w fs m)) \<and> mesh_calls (snd (compress_context w fs m)) = mesh_calls m"
  using fetch_frame [of m w fs]
  by (auto simp: compress_context_def split: sum.splits option.splits prod.splits)

lemma ask_arbiter_frame: "same_mesh m (snd (ask_arbiter w t c sg a b m))"
  by (simp add: ask_arbiter_def same_mesh_def routerFn_def budget_def Let_def split: sum.split prod.split)

text \<open>The decision of the gate on the arbiter: the two inputs it can get.\<close>

lemma arbiter_gate: "\<exists>d m1. gate_arbiter w c m = (Inr d, m1) \<and> same_mesh m m1 \<and> mesh_calls m1 = mesh_calls m \<and>
    (threshold (jcrGate m) = DEFAULT_JCR_THRESHOLD \<longrightarrow> useDense d = nonempty c)"
proof -
  have r: "computeJcrRisk (arbiter_gate_input c) = Inr (if nonempty c then fadd BASE_RISK_JUDGE RISK_HIGH_REUSE else BASE_RISK_JUDGE)"
    by (cases "nonempty c"; simp add: arbiter_gate_input_def) code_simp+
  have "DEFAULT_JCR_THRESHOLD < (if nonempty c then fadd BASE_RISK_JUDGE RISK_HIGH_REUSE else BASE_RISK_JUDGE) \<longleftrightarrow> nonempty c"
    by (cases "nonempty c"; simp) code_simp+
  moreover have "to_lower ''critic'' \<in> set JUDGE_ROLES" by code_simp
  moreover obtain d m1 where "gate_arbiter w c m = (d, m1)" by force
  ultimately show ?thesis using r gate_frame [of w c m]
    by (auto simp: gate_arbiter_def gateDecision_def Let_def same_mesh_def arbiter_gate_input_def)
qed

lemma runArbiter_cases:
  assumes "runArbiter w ra rb t m = (res, m')"
  shows "same_mesh m m'"
    and "threshold (jcrGate m) = DEFAULT_JCR_THRESHOLD \<Longrightarrow> mesh_calls m' = mesh_calls m \<or>
      (\<exists>tid. mesh_calls m' = mesh_calls m @ [(Verification, Some tid, arbiter_messages t None (extractContent ra) (extractContent rb))])"
proof -
  define a where "a = extractContent ra"
  define b where "b = extractContent rb"
  define fs where "fs = fold set_add (extractModifiedFiles ra @ extractModifiedFiles rb) []"
  obtain c sg m1 where c: "compress_context w fs m = ((c, sg), m1)" by (metis prod.collapse)
  have m1: "same_mesh m m1" "mesh_calls m1 = mesh_calls m" using compress_frame [of m w fs] c by simp_all
  obtain d m2 where m2: "gate_arbiter w c m1 = (Inr d, m2)" "same_mesh m1 m2" "mesh_calls m2 = mesh_calls m1"
    "threshold (jcrGate m1) = DEFAULT_JCR_THRESHOLD \<Longrightarrow> useDense d = nonempty c"
    using arbiter_gate [of w c m1] by blast
  define ev where "ev = GateDecided (riskScore d) (useDense d) (reason d) (threshold (jcrGate m2)) sg"
  define dropped where "dropped = (useDense d \<and> nonempty c)"
  have run: "runArbiter w ra rb t m = (if hashContent a = hashContent b then (Inr identical_verdict, m)
      else and_then (mesh_emit ev m2) (\<lambda>u m3.
        let (v, m4) = ask_arbiter w t (if dropped then None else c) (if dropped then False else sg) a b m3 in (Inr v, m4)))"
    unfolding runArbiter_def Let_def fs_def [symmetric] c a_def [symmetric] b_def [symmetric]
    by (simp add: m2(1) ev_def dropped_def)
  have "same_mesh m m' \<and> (threshold (jcrGate m) = DEFAULT_JCR_THRESHOLD \<longrightarrow> mesh_calls m' = mesh_calls m \<or>
      (\<exists>tid. mesh_calls m' = mesh_calls m @ [(Verification, Some tid, arbiter_messages t None a b)]))"
  proof (cases "hashContent a = hashContent b")
    case True
    then show ?thesis using assms run by simp
  next
    case False
    show ?thesis
    proof (cases rule: emit_cases [of ev m2])
      case (ok m3)
      obtain v m4 where m4: "ask_arbiter w t (if dropped then None else c) (if dropped then False else sg) a b m3 = (v, m4)" by force
      then have "m' = m4" using assms run False ok by simp
      moreover have "same_mesh m3 m4" using ask_arbiter_frame m4 by (metis snd_conv)
      moreover have "same_mesh m m3" using m1(1) m2(2) ok(2) same_mesh_trans by blast
      moreover have "\<exists>tid. mesh_calls m4 = mesh_calls m3 @ [(Verification, Some tid, arbiter_messages t (if dropped then None else c) a b)]"
        using m4 by (auto simp: ask_arbiter_def routerFn_def Let_def split: sum.splits prod.splits)
      moreover have "arbiter_messages t (if dropped then None else c) a b = arbiter_messages t None a b"
        if "threshold (jcrGate m) = DEFAULT_JCR_THRESHOLD"
      proof -
        have "dropped = nonempty c" using m2(4) m1(1) that by (simp add: dropped_def same_mesh_def)
        then show ?thesis by (auto simp: nonempty_def arbiter_messages_def context_block_def split: option.splits list.splits)
      qed
      ultimately show ?thesis using ok(3) m2(3) m1(2) by (auto intro: same_mesh_trans)
    next
      case (fails e m3)
      then have "m' = m3" using assms run False by simp
      then show ?thesis using fails m1 m2 by (auto intro: same_mesh_trans)
    qed
  qed
  then show "same_mesh m m'"
    and "threshold (jcrGate m) = DEFAULT_JCR_THRESHOLD \<Longrightarrow> mesh_calls m' = mesh_calls m \<or>
      (\<exists>tid. mesh_calls m' = mesh_calls m @ [(Verification, Some tid, arbiter_messages t None (extractContent ra) (extractContent rb))])"
    by (simp_all add: a_def b_def)
qed

lemma estimateCost_pos: "0 < estimateCost p"
  by (cases p) (simp_all add: estimateCost_def)

text \<open>The costs make sense, and while the mesh is on, their ratio is within the limit.\<close>

definition budget_ok :: "rat \<Rightarrow> VerificationMesh \<Rightarrow> bool" where
  "budget_ok limit m \<longleftrightarrow> flt (sessionCostBase m) = sessionCostBase m \<and> 0 \<le> sessionCostBase m \<and>
     0 \<le> sessionVerificationCost m \<and> (sessionVerificationCost m = 0 \<or> 0 < sessionCostBase m) \<and>
     threshold (jcrGate m) = DEFAULT_JCR_THRESHOLD \<and>
     (meshEnabled m \<longrightarrow> sessionVerificationCost m = 0 \<or>
        fmul (fdiv (sessionVerificationCost m) (sessionCostBase m)) 100 \<le> limit)"

lemma budget_same: "same_mesh m m' \<Longrightarrow> budget_ok limit m' = budget_ok limit m"
  by (simp add: same_mesh_def budget_def budget_ok_def)

lemma ratio_antimono:
  assumes "0 \<le> v" "0 < b" "b \<le> b'"
  shows "fmul (fdiv v b') 100 \<le> fmul (fdiv v b) 100"
proof -
  have "fdiv v b' \<le> fdiv v b" using assms by (simp add: fdiv_def flt_mono frac_le)
  then show ?thesis by (simp add: fmul_def flt_mono)
qed

lemma budget_base:
  assumes "budget_ok limit m" "0 < c"
  shows "budget_ok limit (m\<lparr>sessionCostBase := fadd (sessionCostBase m) c\<rparr>)" "0 < fadd (sessionCostBase m) c"
proof -
  have le: "sessionCostBase m \<le> fadd (sessionCostBase m) c"
    using assms by (intro fadd_increasing) (simp_all add: budget_ok_def)
  show pos: "0 < fadd (sessionCostBase m) c" using assms by (simp add: budget_ok_def fadd_def)
  show "budget_ok limit (m\<lparr>sessionCostBase := fadd (sessionCostBase m) c\<rparr>)"
    using assms(1) pos le ratio_antimono [of "sessionVerificationCost m" "sessionCostBase m" "fadd (sessionCostBase m) c"]
    by (auto simp: budget_ok_def)
qed

lemma budget_charge:
  assumes "budget_ok limit m" "0 < sessionCostBase m" "0 \<le> cost"
  shows "budget_ok limit (snd (charge limit cost m))"
proof -
  define m1 where "m1 = m\<lparr>sessionVerificationCost := fadd (sessionVerificationCost m) cost\<rparr>"
  define pct where "pct = fmul (fdiv (sessionVerificationCost m1) (sessionCostBase m1)) 100"
  have v: "0 \<le> sessionVerificationCost m1" using assms by (simp add: m1_def budget_ok_def fadd_def)
  show ?thesis
  proof (cases "limit < pct")
    case True
    have "budget_ok limit (m1\<lparr>meshEnabled := False\<rparr>)" using assms(1,2) v by (simp add: budget_ok_def m1_def)
    moreover have "same_mesh (m1\<lparr>meshEnabled := False\<rparr>) (snd (charge limit cost m))"
      using True emit_frame [of "CircuitBreaker pct limit" "m1\<lparr>meshEnabled := False\<rparr>"]
      by (simp add: charge_def Let_def m1_def [symmetric] pct_def [symmetric] same_mesh_def)
    ultimately show ?thesis using budget_same by blast
  next
    case False
    then have "snd (charge limit cost m) = m1" by (simp add: charge_def Let_def m1_def [symmetric] pct_def [symmetric])
    with False assms(1,2) v show ?thesis by (simp add: budget_ok_def m1_def pct_def)
  qed
qed

lemma arbitrate_budget:
  assumes "budget_ok limit m" "0 < sessionCostBase m"
  shows "budget_ok limit (snd (arbitrate w t limit p va q vb m))"
proof -
  obtain r m1 where r: "runArbiter w va vb t m = (r, m1)" by force
  have m1: "same_mesh m m1" using runArbiter_cases(1) [OF r] .
  have ok: "budget_ok limit m1" "0 < sessionCostBase m1"
    using m1 assms budget_same [OF m1] by (auto simp: same_mesh_def budget_def)
  show ?thesis
  proof (cases r)
    case (Inl e)
    then show ?thesis using ok r by (simp add: arbitrate_def)
  next
    case (Inr v)
    define cost where "cost = fadd (estimateCost q) (estimateCost (arb_provider v))"
    have "0 \<le> cost" using estimateCost_pos [of q] estimateCost_pos [of "arb_provider v"] by (simp add: cost_def fadd_def)
    then have c: "budget_ok limit (snd (charge limit cost m1))" using budget_charge ok by blast
    obtain u m2 where m2: "charge limit cost m1 = (u, m2)" by force
    define ev where "ev = MeshCompleted (arb_verdict v) p q (arb_reasoning v) cost"
    have a: "arbitrate w t limit p va q vb m = and_then (u, m2) (\<lambda>u m2. and_then (mesh_emit ev m2) (\<lambda>u m3.
        (Inr (verified_result p va q vb v), m3)))"
      using r Inr m2 by (simp add: arbitrate_def Let_def cost_def ev_def)
    show ?thesis
    proof (cases u)
      case (Inl e)
      then show ?thesis using a c m2 by simp
    next
      case (Inr u')
      then show ?thesis using a c m2 budget_same by (cases rule: emit_cases [of ev m2]) auto
    qed
  qed
qed

text \<open>The cases of \<open>execute\<close>.\<close>

lemma execute_rejected: "reply_A w = Inl e \<Longrightarrow> execute w opts m =
   (Inl e, snd (routerFn (opt_role opts) (mt_id (opt_task opts)) (mt_messages (opt_task opts)) () m))"
  by (simp add: execute_def routerFn_def Let_def)

text \<open>The state after the first answer.\<close>

definition after_A :: "MeshExecutionOptions \<Rightarrow> ProviderId \<Rightarrow> VerificationMesh \<Rightarrow> VerificationMesh" where
  "after_A opts p m = m\<lparr>mesh_calls := mesh_calls m @ [(opt_role opts, mt_id (opt_task opts), mt_messages (opt_task opts))],
     sessionCostBase := fadd (sessionCostBase m) (estimateCost p)\<rparr>"

definition after_B :: "MeshExecutionOptions \<Rightarrow> ProviderId \<Rightarrow> VerificationMesh \<Rightarrow> VerificationMesh" where
  "after_B opts p m = (after_A opts p m)\<lparr>mesh_calls := mesh_calls (after_A opts p m) @
     [(opt_role opts, mt_id (opt_task opts), mt_messages (opt_task opts))]\<rparr>"

lemma execute_skips:
  assumes "reply_A w = Inr (p, va)" "\<not> shouldVerify (opt_task opts) (merged_policy (opt_policy opts)) m"
  shows "execute w opts m = and_then (mesh_emit MeshSkipped (after_A opts p m)) (\<lambda>u m2. (Inr (A_alone p va None), m2))"
  using assms by (simp add: execute_def routerFn_def after_A_def Let_def)

lemma execute_verifies:
  assumes "reply_A w = Inr (p, va)" "shouldVerify (opt_task opts) (merged_policy (opt_policy opts)) m"
  shows "execute w opts m = (case race_B (agentBTimeoutMs opts) w of
      BThrows e \<Rightarrow> (Inl e, after_B opts p m)
    | BTimeout \<Rightarrow> and_then (mesh_emit (MeshDegraded True Groq) (after_B opts p m))
        (\<lambda>u m3. (Inr (A_alone p va (Some (degraded True Groq))), m3))
    | BAnswer q vb \<Rightarrow> if vb = JNull then and_then (mesh_emit (MeshDegraded False q) (after_B opts p m))
          (\<lambda>u m3. (Inr (A_alone p va (Some (degraded False q))), m3))
        else arbitrate w (opt_task opts) (max_extra_cost_pct (merged_policy (opt_policy opts))) p va q vb (after_B opts p m))"
  using assms by (simp add: execute_def routerFn_def after_A_def after_B_def Let_def split: B_outcome.split)

lemma after_ok:
  assumes "budget_ok limit m"
  shows "budget_ok limit (after_A opts p m)" "budget_ok limit (after_B opts p m)" "0 < sessionCostBase (after_B opts p m)"
  using budget_base [OF assms estimateCost_pos [of p]]
  by (simp_all add: after_A_def after_B_def budget_ok_def)

lemma execute_budget:
  assumes "budget_ok limit m" "max_extra_cost_pct (merged_policy (opt_policy opts)) = limit"
  shows "budget_ok limit (snd (execute w opts m))"
proof (cases "reply_A w")
  case (Inl e)
  then show ?thesis using assms(1) by (simp add: execute_rejected routerFn_def budget_ok_def)
next
  case (Inr pv)
  obtain p va where A: "reply_A w = Inr (p, va)" using Inr by (cases pv) auto
  note ok = after_ok [OF assms(1), of opts p]
  show ?thesis
  proof (cases "shouldVerify (opt_task opts) (merged_policy (opt_policy opts)) m")
    case False
    then show ?thesis using ok(1) budget_same
      by (cases rule: emit_cases [of MeshSkipped "after_A opts p m"]) (auto simp: execute_skips [OF A])
  next
    case True
    note E = execute_verifies [OF A True, unfolded assms(2)]
    show ?thesis
    proof (cases "race_B (agentBTimeoutMs opts) w")
      case BTimeout
      then show ?thesis using ok(2) budget_same
        by (cases rule: emit_cases [of "MeshDegraded True Groq" "after_B opts p m"]) (auto simp: E)
    next
      case (BThrows e)
      then show ?thesis using ok(2) by (simp add: E)
    next
      case (BAnswer q vb)
      then show ?thesis using ok(2,3) budget_same arbitrate_budget
        by (cases rule: emit_cases [of "MeshDegraded False q" "after_B opts p m"]) (auto simp: E)
    qed
  qed
qed

lemma execute_disabled:
  assumes "\<not> meshEnabled m"
  shows "\<not> meshEnabled (snd (execute w opts m)) \<and> sessionVerificationCost (snd (execute w opts m)) = sessionVerificationCost m \<and>
    length (mesh_calls (snd (execute w opts m))) = length (mesh_calls m) + 1"
proof (cases "reply_A w")
  case (Inl e)
  then show ?thesis using assms by (simp add: execute_rejected routerFn_def)
next
  case (Inr pv)
  obtain p va where A: "reply_A w = Inr (p, va)" using Inr by (cases pv) auto
  have "\<not> shouldVerify (opt_task opts) (merged_policy (opt_policy opts)) m" using assms by (simp add: shouldVerify_def)
  then show ?thesis using assms
    by (cases rule: emit_cases [of MeshSkipped "after_A opts p m"])
      (auto simp: execute_skips [OF A] same_mesh_def budget_def after_A_def)
qed

definition mesh_step :: "rat \<Rightarrow> VerificationMesh \<Rightarrow> VerificationMesh \<Rightarrow> bool" where
  "mesh_step limit m m' \<longleftrightarrow> (\<exists>w opts. max_extra_cost_pct (merged_policy (opt_policy opts)) = limit \<and> m' = snd (execute w opts m))"

interpretation mesh: invariant_machine "\<lambda>m. \<exists>answers. m = new_mesh answers" "mesh_step limit" "budget_ok limit" for limit
proof
  show "budget_ok limit m" if "\<exists>answers. m = new_mesh answers" for m
    using that by (auto simp: new_mesh_def budget_ok_def)
qed (auto simp: mesh_step_def execute_budget)

definition mesh_run :: "(mesh_world \<times> MeshExecutionOptions) list \<Rightarrow> VerificationMesh \<Rightarrow> VerificationMesh" where
  "mesh_run runs m = fold (\<lambda>(w, opts) m. snd (execute w opts m)) runs m"

lemma mesh_run_steps:
  "\<forall>(w, opts)\<in>set runs. max_extra_cost_pct (merged_policy (opt_policy opts)) = limit \<Longrightarrow> (mesh_step limit)\<^sup>*\<^sup>* m (mesh_run runs m)"
proof (induction runs arbitrary: m)
  case (Cons r runs)
  obtain w opts where r: "r = (w, opts)" by force
  then have "mesh_step limit m (snd (execute w opts m))" using Cons.prems by (auto simp: mesh_step_def)
  moreover have "(mesh_step limit)\<^sup>*\<^sup>* (snd (execute w opts m)) (mesh_run (r # runs) m)"
    using Cons by (simp add: mesh_run_def r)
  ultimately show ?case by (rule converse_rtranclp_into_rtranclp)
qed (simp add: mesh_run_def)

text \<open>C37.
  The budget of the mesh. Over any sequence of \<open>execute\<close> calls with the same limit, whatever the calls,
  the indexer and the ledger do, as long as the mesh is on the verification cost is zero or at most the
  limit in percent of the cost of the first agents, in binary64 as the code computes it; once it is off
  it stays off, and every later task makes one call and adds nothing to the verification cost.\<close>

theorem mesh_budget:
  assumes "\<forall>(w, opts)\<in>set runs. max_extra_cost_pct (merged_policy (opt_policy opts)) = limit"
    and "m = mesh_run runs (new_mesh answers)"
  shows "(meshEnabled m \<longrightarrow> sessionVerificationCost m = 0 \<or>
      fmul (fdiv (sessionVerificationCost m) (sessionCostBase m)) 100 \<le> limit) \<and>
    (\<not> meshEnabled m \<longrightarrow> (\<forall>w opts. let m' = snd (execute w opts m) in \<not> meshEnabled m' \<and>
      sessionVerificationCost m' = sessionVerificationCost m \<and> length (mesh_calls m') = length (mesh_calls m) + 1))"
proof -
  have "budget_ok limit m"
    using mesh.inv_reachable [OF _ mesh_run_steps [OF assms(1)]] assms(2) by blast
  then show ?thesis using execute_disabled [of m] by (simp add: budget_ok_def Let_def)
qed

definition demo_mesh_world :: "json \<Rightarrow> string + ProviderId \<times> json \<Rightarrow> mesh_world" where
  "demo_mesh_world a b = \<lparr>reply_A = Inr (Groq, a), elapsed_A = 10, reply_B = b, delay_B = 20, indexer = None,
     reply_arbiter = (\<lambda>ms. Inl ''offline''), gate_now = 0\<rparr>"

definition demo_options :: MeshExecutionOptions where
  "demo_options = \<lparr>opt_role = Execution,
     opt_task = \<lparr>mt_id = None, mt_messages = [], mt_complexity = Some CCritical, filesModified = Some 3\<rparr>,
     opt_policy = \<lparr>patch_enabled = None, patch_mode = None, patch_max = None, patch_min = None\<rparr>, agentBTimeoutMs = None\<rparr>"

lemma new_mesh_simps:
  "mesh_log (new_mesh as) = []" "mesh_ledger (new_mesh as) = as" "mesh_calls (new_mesh as) = []" "sessionCostBase (new_mesh as) = 0"
  "sessionVerificationCost (new_mesh as) = 0" "meshEnabled (new_mesh as)"
  by (simp_all add: new_mesh_def)

lemma mesh_budget_witness:
  "\<not> meshEnabled (mesh_run [(demo_mesh_world (JStr ''x'') (Inr (Groq, JStr ''x'')), demo_options)] (new_mesh [])) \<and>
   (\<forall>w opts. length (mesh_calls (snd (execute w opts
     (mesh_run [(demo_mesh_world (JStr ''x'') (Inr (Groq, JStr ''x'')), demo_options)] (new_mesh []))))) = 3)"
proof -
  let ?runs = "[(demo_mesh_world (JStr ''x'') (Inr (Groq, JStr ''x'')), demo_options)]"
  let ?w = "demo_mesh_world (JStr ''x'') (Inr (Groq, JStr ''x''))"
  have A: "reply_A ?w = Inr (Groq, JStr ''x'')" by (simp add: demo_mesh_world_def)
  have V: "shouldVerify (opt_task demo_options) (merged_policy (opt_policy demo_options)) (new_mesh [])"
    by (simp add: shouldVerify_def merged_policy_def demo_options_def defaultPolicy_def new_mesh_def)
  have B: "race_B (agentBTimeoutMs demo_options) ?w = BAnswer Groq (JStr ''x'')"
    by (simp add: race_B_def demo_mesh_world_def demo_options_def agentBTimeout_def timer_delay_def)
  have limit: "max_extra_cost_pct (merged_policy (opt_policy demo_options)) = 15"
    by (simp add: merged_policy_def demo_options_def defaultPolicy_def)
  have "15 < fmul (fdiv (fadd 0 (fadd (estimateCost Groq) (estimateCost Groq))) (fadd 0 (estimateCost Groq))) 100" by code_simp
  then have off: "\<not> meshEnabled (mesh_run ?runs (new_mesh []))" "length (mesh_calls (mesh_run ?runs (new_mesh []))) = 2"
    by (simp_all add: mesh_run_def execute_verifies [OF A V] B limit arbitrate_def runArbiter_def identical_verdict_def
      charge_def mesh_emit_def after_B_def after_A_def new_mesh_simps Let_def)
  have "\<forall>(w, opts)\<in>set ?runs. max_extra_cost_pct (merged_policy (opt_policy opts)) = 15"
    by (simp add: limit)
  from mesh_budget [OF this refl, of "[]"] off show ?thesis by (simp add: Let_def)
qed

section \<open>The arbiter\<close>

text \<open>The signatures never reach the arbiter. The arbiter counts as a critic, and with a compressed context
  its reuse rate is 1, which is over the gate's threshold: the gate then drops that context. Whatever the
  indexer answers, the only call that \<open>runArbiter\<close> can make has the two full outputs and no signatures.\<close>

theorem arbiter_dense:
  assumes "runArbiter w ra rb t m = (res, m')" "threshold (jcrGate m) = DEFAULT_JCR_THRESHOLD"
  shows "mesh_calls m' = mesh_calls m \<or>
    (\<exists>tid. mesh_calls m' = mesh_calls m @ [(Verification, Some tid, arbiter_messages t None (extractContent ra) (extractContent rb))])"
  using assms by (rule runArbiter_cases(2))

definition demo_indexed :: mesh_world where
  "demo_indexed = (demo_mesh_world JNull (Inl []))\<lparr>indexer := Some (\<lambda>p. Inr [\<lparr>sig_name = ''f'', sig_parameters = [],
     sig_return = None, sig_line = 1\<rparr>])\<rparr>"

lemma arbiter_dense_witness:
  "let m = snd (runArbiter demo_indexed (JStr ''+++ b/x.ts'') (JStr ''y'') (opt_task demo_options) (new_mesh [])) in
   mesh_calls m = [] \<or> (\<exists>tid. mesh_calls m = [(Verification, Some tid, arbiter_messages (opt_task demo_options) None ''+++ b/x.ts'' ''y'')])"
  using arbiter_dense [of demo_indexed "JStr ''+++ b/x.ts''" "JStr ''y''" "opt_task demo_options" "new_mesh []", OF prod.collapse [symmetric]]
  by (simp add: new_mesh_def Let_def)

lemma hash_append: "hash32 (a @ s @ b) = foldl (\<lambda>h c. push_bit 5 h - h + word_of_nat (of_char c)) (foldl (\<lambda>h c. push_bit 5 h - h + word_of_nat (of_char c)) (hash32 a) s) b"
  by (simp add: hash32_def)

lemma hash_Aa_BB: "hash32 (a @ ''Aa'' @ b) = hash32 (a @ ''BB'' @ b)"
  unfolding hash_append by (simp add: push_bit_eq_mult algebra_simps)

text \<open>
  Two outputs that differ can pass for identical. Their texts are compared by a 32-bit hash only, which
  does not tell \<open>Aa\<close> from \<open>BB\<close>: outputs that differ in just that are reported as structurally identical,
  with the verdict for the first agent, and neither the gate nor the arbiter is asked.\<close>

theorem hash_collision:
  assumes "extractContent ra = a @ ''Aa'' @ b" "extractContent rb = a @ ''BB'' @ b"
  shows "extractContent ra \<noteq> extractContent rb \<and> runArbiter w ra rb t m = (Inr identical_verdict, m)"
  using assms hash_Aa_BB [of a b] by (simp add: runArbiter_def hashContent_def)

lemma hash_collision_witness:
  "runArbiter demo_indexed (JStr ''return Aa;'') (JObj [(''content'', JStr ''return BB;'')]) (opt_task demo_options) (new_mesh []) =
     (Inr identical_verdict, new_mesh [])"
  using hash_collision [of "JStr ''return Aa;''" "''return ''" "'';''" "JObj [(''content'', JStr ''return BB;'')]" demo_indexed
    "opt_task demo_options" "new_mesh []"]
  by (simp add: dget_def)

section \<open>Failures of the second agent\<close>

text \<open>
  A second agent that runs out of time is degraded to the first agent's answer, with the exit code 143
  and nothing charged. One that fails, which is what a crash of its provider is, is not: the promise of
  \<open>execute\<close> is rejected with its error, and the first agent's answer, already paid for, is lost without
  an event in the ledger.\<close>

theorem second_agent_fails:
  assumes "reply_A w = Inr (p, va)" "shouldVerify (opt_task opts) (merged_policy (opt_policy opts)) m" "mesh_ledger m = []"
  shows "(race_B (agentBTimeoutMs opts) w = BTimeout \<longrightarrow>
      (\<exists>m'. execute w opts m = (Inr (A_alone p va (Some (degraded True Groq))), m') \<and>
        sessionVerificationCost m' = sessionVerificationCost m \<and> mesh_log m' = mesh_log m @ [MeshDegraded True Groq])) \<and>
    (\<forall>e. race_B (agentBTimeoutMs opts) w = BThrows e \<longrightarrow>
      (\<exists>m'. execute w opts m = (Inl e, m') \<and> mesh_log m' = mesh_log m \<and>
        sessionCostBase m' = fadd (sessionCostBase m) (estimateCost p)))"
  using assms(3) execute_verifies [OF assms(1,2)]
  by (auto simp: mesh_emit_def after_B_def after_A_def)

lemma second_agent_fails_witness:
  "\<exists>m'. execute (demo_mesh_world (JStr ''x'') (Inl ''Groq 429'')) demo_options (new_mesh []) = (Inl ''Groq 429'', m') \<and> mesh_log m' = []"
proof -
  let ?w = "demo_mesh_world (JStr ''x'') (Inl ''Groq 429'')"
  have "reply_A ?w = Inr (Groq, JStr ''x'')" by (simp add: demo_mesh_world_def)
  moreover have "shouldVerify (opt_task demo_options) (merged_policy (opt_policy demo_options)) (new_mesh [])"
    by (simp add: shouldVerify_def merged_policy_def demo_options_def defaultPolicy_def new_mesh_def)
  moreover have "race_B (agentBTimeoutMs demo_options) ?w = BThrows ''Groq 429''"
    by (simp add: race_B_def demo_mesh_world_def demo_options_def agentBTimeout_def timer_delay_def)
  moreover have "mesh_ledger (new_mesh []) = []" "mesh_log (new_mesh []) = []" by (simp_all add: new_mesh_def)
  ultimately show ?thesis using second_agent_fails [of ?w Groq "JStr ''x''" demo_options "new_mesh []"] by auto
qed

section \<open>Reading the verdict\<close>

fun verdict_name :: "verdict \<Rightarrow> string" where
  "verdict_name VA = ''A''"
| "verdict_name VB = ''B''"
| "verdict_name VConflict = ''conflict''"

definition verdict_json :: "verdict \<Rightarrow> string \<Rightarrow> json" where
  "verdict_json v r = JObj [(''verdict'', JStr (verdict_name v)), (''reasoning'', JStr r)]"

lemma hex_no_brace: "n < 16 \<Longrightarrow> hex_char n \<noteq> CHR 0x7D"
proof
  assume "n < 16" "hex_char n = CHR 0x7D"
  then have "hex_value (CHR 0x7D) = Some n" using hex_char_value by metis
  then show False by (simp add: hex_value_def)
qed

lemma escape_no_brace: "c \<noteq> CHR 0x7D \<Longrightarrow> CHR 0x7D \<notin> set (escape_char c)"
proof -
  have "hex_char (of_char c div 16) \<noteq> CHR 0x7D" if "(of_char c :: nat) < 32"
    using that by (intro hex_no_brace) linarith
  moreover have "hex_char (of_char c mod 16) \<noteq> CHR 0x7D" by (intro hex_no_brace) simp
  ultimately show "c \<noteq> CHR 0x7D \<Longrightarrow> ?thesis" by (auto simp: escape_char_def dquote_def backslash_def)
qed

lemma str_no_brace: "CHR 0x7D \<notin> set s \<Longrightarrow> CHR 0x7D \<notin> set (stringify_str s)"
  by (auto simp: stringify_str_def dquote_def) (metis escape_no_brace)

lemma first_braces_between:
  assumes "CHR 0x7B \<notin> set pre" "CHR 0x7D \<notin> set body"
  shows "first_braces (pre @ CHR 0x7B # body @ CHR 0x7D # post) = Some (CHR 0x7B # body @ [CHR 0x7D])"
proof -
  have "dropWhile (\<lambda>c. c \<noteq> CHR 0x7B) (pre @ CHR 0x7B # body @ CHR 0x7D # post) = CHR 0x7B # body @ CHR 0x7D # post"
    using assms(1) by (subst dropWhile_append2) auto
  moreover have "takeWhile (\<lambda>c. c \<noteq> CHR 0x7D) (CHR 0x7B # body @ CHR 0x7D # post) = CHR 0x7B # body"
    using assms(2) by (subst takeWhile.simps, simp, subst takeWhile_append2) auto
  ultimately show ?thesis by (simp add: first_braces_def Let_def)
qed

text \<open>An answer of the arbiter in the requested form is read back, whatever stands around it, if no brace
  opens before it and its reasoning has no closing brace.\<close>

theorem verdict_roundtrip:
  assumes "CHR 0x7B \<notin> set pre" "CHR 0x7D \<notin> set r" "r \<noteq> []"
  shows "parseArbiterResponse (pre @ stringify (verdict_json v r) @ post) = (v, r)"
proof -
  define body where "body = stringify_str ''verdict'' @ '':'' @ stringify_str (verdict_name v) @ '','' @ stringify_str ''reasoning'' @ '':'' @ stringify_str r"
  have form: "stringify (verdict_json v r) = CHR 0x7B # body @ [CHR 0x7D]" by (simp add: verdict_json_def body_def)
  have "CHR 0x7D \<notin> set (stringify_str (verdict_name v))" by (rule str_no_brace) (cases v; simp)
  then have "CHR 0x7D \<notin> set body" using str_no_brace [of "''verdict''"] str_no_brace [of "''reasoning''"] str_no_brace [OF assms(2)]
    by (simp add: body_def)
  from first_braces_between [OF assms(1) this, of post]
  have "first_braces (pre @ stringify (verdict_json v r) @ post) = Some (stringify (verdict_json v r))" by (simp add: form)
  moreover have "json_parse (stringify (verdict_json v r)) = Some (verdict_json v r)"
    using json_roundtrip [of "verdict_json v r"] by (simp add: verdict_json_def)
  moreover have "verdict_of (opt_get (verdict_json v r) ''verdict'') = Some v"
    by (cases v) (simp_all add: verdict_json_def verdict_of_def dget_def)
  moreover have "js_string (or_else (opt_get (verdict_json v r) ''reasoning'') (JStr ''No reasoning provided'')) = r"
    using assms(3) by (simp add: verdict_json_def or_else_def dget_def)
  ultimately show ?thesis by (simp add: parseArbiterResponse_def)
qed

lemma verdict_roundtrip_witness:
  "parseArbiterResponse (''Sure: '' @ stringify (verdict_json VB ''B handles the empty list'') @ '' - done'') = (VB, ''B handles the empty list'')"
  by (rule verdict_roundtrip) simp_all

text \<open>With a brace in the reasoning the answer is cut there and no longer parses.\<close>

lemma brace_in_reasoning:
  "fst (parseArbiterResponse (stringify (verdict_json VA ''A returns {} on errors''))) = VConflict"
  by code_simp

text \<open>A label right behind another one is not seen: the match of the first takes the line break.\<close>

lemma second_label_missed:
  "extractModifiedFiles (JStr (''File: a.ts'' @ newline # ''File: b.ts'' @ newline # ''File: c.ts'')) = [''a.ts'', ''c.ts'']"
  by code_simp

text \<open>Files without signatures: the answer is said to be based on signatures, which nobody sent.\<close>

lemma signatures_claimed:
  "arb_reasoning (fst (ask_arbiter (w\<lparr>reply_arbiter := (\<lambda>ms. Inr (Groq, JStr (stringify (verdict_json VA ''ok''))))\<rparr>) t
     (Some (buildCompressedContext [(''x.ts'', [])])) True a b m)) = ''ok (evaluated using AST signatures)''"
proof -
  have "parseArbiterResponse (stringify (verdict_json VA ''ok'')) = (VA, ''ok'')" by code_simp
  then show ?thesis by (simp add: ask_arbiter_def routerFn_def)
qed

end
