(* ===== verification/Consolidator.thy ===== *)
theory Consolidator
  imports Core_Types Provider_Calls Json
begin

text \<open>
  \<open>src/core/consolidator.ts\<close>: the last phase of a run. It sorts the worktrees into successful and failed
  ones, creates a branch, merges the successful worktrees, writes a summary and computes the exit code.

  Git, the directory of worktrees, the state file and the file system are parameters; what the k-th git
  command answers is a function of k and of its arguments. The summary is the text of the file as bytes.
\<close>

section \<open>Types and state\<close>

record ConsolidationResult =
  cr_branch :: string
  successfulWorktrees :: "string list"
  failedWorktrees :: "string list"
  cr_exitCode :: nat
  summaryPath :: "string option"

record ConsolidatorConfig =
  worktreeBaseDir :: "string option"
  cc_stateFilePath :: "string option"

text \<open>Outside: the state file as parsed (\<open>None\<close>: missing or unreadable), the directories, the paths that exist, git.\<close>

record cons_world =
  state_file :: "string \<Rightarrow> OrchestratorState option"
  list_dirs :: "string \<Rightarrow> string list option"
  path_exists :: "string \<Rightarrow> bool"
  git_answer :: "nat \<Rightarrow> string list \<Rightarrow> int \<times> string"

record Consolidator =
  cons_log :: "(string \<times> EventSeverity) list"
  cons_ledger :: "string option list"
  git_calls :: "string list list"
  disk_answers :: "string option list"
  written :: "(string \<times> string) list"

definition worktreesDir :: "ConsolidatorConfig \<Rightarrow> string" where
  "worktreesDir c = (case worktreeBaseDir c of Some (x # xs) \<Rightarrow> x # xs | _ \<Rightarrow> ''.apohara/worktrees'')"

definition stateFilePath :: "ConsolidatorConfig \<Rightarrow> string" where
  "stateFilePath c = (case cc_stateFilePath c of Some (x # xs) \<Rightarrow> x # xs | _ \<Rightarrow> ''.apohara/state.json'')"

definition cons_emit :: "string \<Rightarrow> EventSeverity \<Rightarrow> Consolidator \<Rightarrow> (string + unit) \<times> Consolidator" where
  "cons_emit ev sev s = (case cons_ledger s of
     Some e # as \<Rightarrow> (Inl e, s\<lparr>cons_ledger := as\<rparr>)
   | None # as \<Rightarrow> (Inr (), s\<lparr>cons_ledger := as, cons_log := cons_log s @ [(ev, sev)]\<rparr>)
   | [] \<Rightarrow> (Inr (), s\<lparr>cons_log := cons_log s @ [(ev, sev)]\<rparr>))"

definition git :: "cons_world \<Rightarrow> string list \<Rightarrow> Consolidator \<Rightarrow> (int \<times> string) \<times> Consolidator" where
  "git w args s = (git_answer w (length (git_calls s)) args, s\<lparr>git_calls := git_calls s @ [args]\<rparr>)"

definition disk_op :: "Consolidator \<Rightarrow> (string + unit) \<times> Consolidator" where
  "disk_op s = (case disk_answers s of
     Some e # as \<Rightarrow> (Inl e, s\<lparr>disk_answers := as\<rparr>)
   | None # as \<Rightarrow> (Inr (), s\<lparr>disk_answers := as\<rparr>)
   | [] \<Rightarrow> (Inr (), s))"

section \<open>Successful and failed worktrees\<close>

definition empty_state :: OrchestratorState where
  "empty_state = \<lparr>currentTaskId = None, tasks = [], orch_status = Idle, lastError = None, failedProviderTimestamps = Some []\<rparr>"

definition loadState :: "cons_world \<Rightarrow> ConsolidatorConfig \<Rightarrow> OrchestratorState" where
  "loadState w c = (case state_file w (stateFilePath c) of Some st \<Rightarrow> st | None \<Rightarrow> empty_state)"

definition listWorktreeDirectories :: "cons_world \<Rightarrow> ConsolidatorConfig \<Rightarrow> string list" where
  "listWorktreeDirectories w c = (case list_dirs w (worktreesDir c) of Some ds \<Rightarrow> ds | None \<Rightarrow> [])"

text \<open>\<open>s.replace("lane-", "")\<close>: the first occurrence only.\<close>

fun drop_lane :: "string \<Rightarrow> string" where
  "drop_lane [] = []"
| "drop_lane (c # cs) = (if starts_with (c # cs) ''lane-'' then drop 5 (c # cs) else c # drop_lane cs)"

text \<open>One worktree of the loop.\<close>

definition classify_worktree :: "Task list \<Rightarrow> string \<Rightarrow> string list \<times> string list \<Rightarrow> string list \<times> string list" where
  "classify_worktree ts worktree acc = (case acc of (successful, failed) \<Rightarrow>
     if list_ex (\<lambda>t. contains (task_id t) (drop_lane worktree) \<and> task_status t = Completed) ts
     then (successful @ [worktree], failed)
     else if list_ex (\<lambda>t. task_status t = Failed) ts
     then (successful, if worktree \<in> set failed then failed else failed @ [worktree])
     else if ts \<noteq> [] \<and> list_all (\<lambda>t. task_status t = Completed) ts
     then (successful @ [worktree], failed)
     else (successful, failed))"

definition lane :: "nat \<Rightarrow> string" where "lane i = ''lane-'' @ show_nat i"

definition analyzeTaskResults :: "string list \<Rightarrow> Task list \<Rightarrow> string list \<times> string list" where
  "analyzeTaskResults dirs ts =
    (let (successful, failed) = fold (classify_worktree ts) dirs ([], []);
         done = length (filter (\<lambda>t. task_status t = Completed) ts);
         bad = length (filter (\<lambda>t. task_status t = Failed) ts)
     in if dirs = [] \<and> ts \<noteq> []
        then (successful @ map lane [0..<done], failed @ map lane [done..<done + bad])
        else (successful, failed))"

section \<open>The branch, the merges\<close>

definition createBranch :: "cons_world \<Rightarrow> string \<Rightarrow> Consolidator \<Rightarrow> bool \<times> Consolidator" where
  "createBranch w branch s =
    (case git w [''checkout'', ''main''] s of ((code, err), s1) \<Rightarrow>
       if code \<noteq> 0 then (False, s1)
       else (case git w [''pull'', ''origin'', ''main''] s1 of (pulled, s2) \<Rightarrow>
         (case git w [''checkout'', ''-b'', branch] s2 of ((code, err), s3) \<Rightarrow>
            if code = 0 then (True, s3)
            else (case git w [''checkout'', branch] s3 of ((code, err), s4) \<Rightarrow> (code = 0, s4)))))"

definition worktree_path :: "ConsolidatorConfig \<Rightarrow> string \<Rightarrow> string" where
  "worktree_path c worktree = worktreesDir c @ ''/'' @ worktree"

text \<open>The loop over the worktrees; the flag is \<open>allMerged\<close>.\<close>

fun merge_all :: "cons_world \<Rightarrow> ConsolidatorConfig \<Rightarrow> string list \<Rightarrow> bool \<Rightarrow> Consolidator \<Rightarrow> (string + bool) \<times> Consolidator" where
  "merge_all w c [] ok s = (Inr ok, s)"
| "merge_all w c (t # ts) ok s =
    (if \<not> path_exists w (worktree_path c t) then merge_all w c ts ok s
     else case git w [''merge'', worktree_path c t, ''--no-edit''] s of ((code, err), s1) \<Rightarrow>
       if code \<noteq> 0 then and_then (cons_emit ''merge_conflict'' Warning s1) (\<lambda>u s2. merge_all w c ts False s2)
       else and_then (cons_emit ''worktree_merged'' Info s1) (\<lambda>u s2. merge_all w c ts ok s2))"

definition mergeSuccessfulWorktrees :: "cons_world \<Rightarrow> ConsolidatorConfig \<Rightarrow> string list \<Rightarrow> Consolidator \<Rightarrow>
    (string + bool) \<times> Consolidator" where
  "mergeSuccessfulWorktrees w c ts s = (if ts = [] then (Inr False, s) else merge_all w c ts True s)"

section \<open>The summary\<close>

definition check_mark :: string where "check_mark = [CHR 0xE2, CHR 0x9C, CHR 0x85]"
definition cross_mark :: string where "cross_mark = [CHR 0xE2, CHR 0x9D, CHR 0x8C]"
definition warning_sign :: string where
  "warning_sign = [CHR 0xE2, CHR 0x9A, CHR 0xA0, CHR 0xEF, CHR 0xB8, CHR 0x8F]"

fun status_text :: "TaskStatus \<Rightarrow> string" where
  "status_text Pending = ''pending''"
| "status_text In_progress = ''in_progress''"
| "status_text Completed = ''completed''"
| "status_text Failed = ''failed''"

definition summary_rows :: "string list \<Rightarrow> string \<Rightarrow> string" where
  "summary_rows ts verdict = join [newline] (map (\<lambda>t. ''| '' @ t @ '' | '' @ verdict @ '' |'') ts)"

definition task_rows :: "Task list \<Rightarrow> string" where
  "task_rows ts = join [newline] (map (\<lambda>t. ''- **'' @ task_id t @ ''**: '' @ status_text (task_status t) @ '' - '' @ task_description t) ts)"

definition summary_content :: "string \<Rightarrow> string \<Rightarrow> string list \<Rightarrow> string list \<Rightarrow> Task list \<Rightarrow> bool \<Rightarrow> string" where
  "summary_content branch ts ok bad all merged =
    join [newline]
     [''# Apohara Auto Run Summary'', '''',
      ''**Branch:** `'' @ branch @ ''`'',
      ''**Timestamp:** '' @ ts,
      ''**Status:** '' @ (if merged then check_mark else warning_sign) @ '' '' @ (if merged then ''success'' else ''partial''), '''',
      ''---'', '''', ''## Task Results'', '''', ''| Worktree | Status |'', ''|----------|--------|'',
      summary_rows ok (check_mark @ '' Success''), summary_rows bad (cross_mark @ '' Failed''), '''',
      ''---'', '''', ''## Tasks Executed'', '''',
      (if task_rows all = [] then ''No tasks recorded'' else task_rows all), '''',
      ''---'', '''', ''## Summary'', '''',
      ''This run executed '' @ show_nat (length all) @ '' task(s) across '' @ show_nat (length ok + length bad) @ '' worktree lane(s).'',
      ''- Successful: '' @ show_nat (length ok), ''- Failed: '' @ show_nat (length bad), '''',
      ''The changes have been consolidated into branch `'' @ branch @ ''`.'', '''']"

definition generateSummary :: "string \<Rightarrow> string \<Rightarrow> string list \<Rightarrow> string list \<Rightarrow> Task list \<Rightarrow> bool \<Rightarrow> Consolidator \<Rightarrow>
    (string + string) \<times> Consolidator" where
  "generateSummary branch ts ok bad all merged s =
    (let path = ''.apohara/runs/'' @ ts @ ''/summary.md''
     in and_then (disk_op s) (\<lambda>u s1.
        and_then (disk_op s1) (\<lambda>u s2.
          let s3 = s2\<lparr>written := written s2 @ [(path, summary_content branch ts ok bad all merged)]\<rparr>
          in and_then (cons_emit ''summary_generated'' Info s3) (\<lambda>u s4. (Inr path, s4)))))"

section \<open>The run\<close>

definition calculateExitCode :: "string list \<Rightarrow> string list \<Rightarrow> bool \<Rightarrow> nat" where
  "calculateExitCode ok bad merged =
    (if \<not> merged \<and> ok = [] then 1 else if bad \<noteq> [] \<or> \<not> merged then 2 else 0)"

definition run_timestamp :: "string \<Rightarrow> string" where
  "run_timestamp now = map (\<lambda>c. if c = CHR '':'' \<or> c = CHR ''.'' then CHR ''-'' else c) now"

definition cons_run :: "cons_world \<Rightarrow> ConsolidatorConfig \<Rightarrow> string \<Rightarrow> Consolidator \<Rightarrow> (string + ConsolidationResult) \<times> Consolidator" where
  "cons_run w c now s =
    (let ts = run_timestamp now; branch = ''apohara/run-'' @ ts in
     and_then (cons_emit ''consolidation_started'' Info s) (\<lambda>u s1.
       let st = loadState w c;
           (ok, bad) = analyzeTaskResults (listWorktreeDirectories w c) (tasks st)
       in case createBranch w branch s1 of
            (False, s2) \<Rightarrow> and_then (cons_emit ''branch_creation_failed'' Error s2) (\<lambda>u s3.
              (Inr \<lparr>cr_branch = branch, successfulWorktrees = [], failedWorktrees = bad, cr_exitCode = 1, summaryPath = None\<rparr>, s3))
          | (True, s2) \<Rightarrow> and_then (cons_emit ''branch_created'' Info s2) (\<lambda>u s3.
              and_then (mergeSuccessfulWorktrees w c ok s3) (\<lambda>merged s4.
                and_then (generateSummary branch ts ok bad (tasks st) merged s4) (\<lambda>path s5.
                  let code = calculateExitCode ok bad merged in
                  and_then (cons_emit ''consolidation_completed'' (if code = 0 then Info else Warning) s5) (\<lambda>u s6.
                    (Inr \<lparr>cr_branch = branch, successfulWorktrees = ok, failedWorktrees = bad, cr_exitCode = code,
                       summaryPath = Some path\<rparr>, s6)))))))"

section \<open>Sorting\<close>

text \<open>What makes a worktree a successful one.\<close>

definition worktree_won :: "Task list \<Rightarrow> string \<Rightarrow> bool" where
  "worktree_won ts d \<longleftrightarrow> list_ex (\<lambda>t. contains (task_id t) (drop_lane d) \<and> task_status t = Completed) ts \<or>
     (ts \<noteq> [] \<and> list_all (\<lambda>t. task_status t = Completed) ts)"

lemma classify_eq:
  "classify_worktree ts d (a, b) =
    (if worktree_won ts d then (a @ [d], b)
     else (a, if list_ex (\<lambda>t. task_status t = Failed) ts \<and> d \<notin> set b then b @ [d] else b))"
proof -
  have "\<not> (ts \<noteq> [] \<and> list_all (\<lambda>t. task_status t = Completed) ts)" if "list_ex (\<lambda>t. task_status t = Failed) ts"
    using that by (auto simp: list_ex_iff list_all_iff)
  then show ?thesis by (auto simp: classify_worktree_def worktree_won_def)
qed

lemma classify_fold:
  "fold (classify_worktree ts) ds (a, b) = (ok, bad) \<Longrightarrow> distinct (a @ b @ ds) \<Longrightarrow>
   ok = a @ filter (worktree_won ts) ds \<and>
   bad = b @ (if list_ex (\<lambda>t. task_status t = Failed) ts then filter (\<lambda>d. \<not> worktree_won ts d) ds else [])"
proof (induction ds arbitrary: a b)
  case (Cons d ds)
  show ?case
  proof (cases "worktree_won ts d")
    case True
    with Cons.prems have "fold (classify_worktree ts) ds (a @ [d], b) = (ok, bad)" "distinct ((a @ [d]) @ b @ ds)"
      by (auto simp: classify_eq)
    from Cons.IH [OF this] True show ?thesis by simp
  next
    case False
    define b' where "b' = (if list_ex (\<lambda>t. task_status t = Failed) ts then b @ [d] else b)"
    have "d \<notin> set b" using Cons.prems(2) by auto
    with Cons.prems False have "fold (classify_worktree ts) ds (a, b') = (ok, bad)" "distinct (a @ b' @ ds)"
      by (auto simp: classify_eq b'_def)
    from Cons.IH [OF this] False show ?thesis by (simp add: b'_def)
  qed
qed simp

lemma analyze_dirs:
  assumes "distinct ds" "ds \<noteq> []"
  shows "analyzeTaskResults ds ts = (filter (worktree_won ts) ds,
    if list_ex (\<lambda>t. task_status t = Failed) ts then filter (\<lambda>d. \<not> worktree_won ts d) ds else [])"
proof -
  obtain ok bad where f: "fold (classify_worktree ts) ds ([], []) = (ok, bad)" by force
  with classify_fold [OF f] assms show ?thesis by (simp add: analyzeTaskResults_def Let_def)
qed

section \<open>The exit code\<close>

lemma git_frame [simp]: "cons_ledger (snd (git w args s)) = cons_ledger s" "disk_answers (snd (git w args s)) = disk_answers s"
  by (simp_all add: git_def)

text \<open>The merges that a list of worktrees asks for, and how git answers them from a number of calls on.\<close>

definition merge_args :: "ConsolidatorConfig \<Rightarrow> string \<Rightarrow> string list" where
  "merge_args c t = [''merge'', worktree_path c t, ''--no-edit'']"

lemma merge_all_result:
  "merge_all w c ts ok s = (Inr res, s') \<Longrightarrow>
   (let ps = filter (\<lambda>t. path_exists w (worktree_path c t)) ts in
    git_calls s' = git_calls s @ map (merge_args c) ps \<and>
    (res \<longleftrightarrow> ok \<and> (\<forall>i < length ps. fst (git_answer w (length (git_calls s) + i) (merge_args c (ps ! i))) = 0)))"
proof (induction ts arbitrary: ok s)
  case (Cons t ts)
  show ?case
  proof (cases "path_exists w (worktree_path c t)")
    case False
    with Cons show ?thesis by simp
  next
    case True
    define s1 where "s1 = s\<lparr>git_calls := git_calls s @ [merge_args c t]\<rparr>"
    define ans where "ans = fst (git_answer w (length (git_calls s)) (merge_args c t))"
    define ev where "ev = (if ans = 0 then (''worktree_merged'', Info) else (''merge_conflict'', Warning))"
    have step: "merge_all w c (t # ts) ok s = and_then (cons_emit (fst ev) (snd ev) s1) (\<lambda>u s2. merge_all w c ts (ok \<and> ans = 0) s2)"
      using True by (simp add: git_def s1_def ans_def ev_def merge_args_def split: prod.split)
    obtain s2 where s2: "cons_emit (fst ev) (snd ev) s1 = (Inr (), s2)" "merge_all w c ts (ok \<and> ans = 0) s2 = (Inr res, s')"
      using Cons.prems step by (cases "cons_emit (fst ev) (snd ev) s1"; cases "fst (cons_emit (fst ev) (snd ev) s1)") (auto simp: and_then_def)
    have g: "git_calls s2 = git_calls s @ [merge_args c t]"
      using s2(1) by (auto simp: cons_emit_def s1_def split: list.splits option.splits)
    from Cons.IH [OF s2(2)] show ?thesis
      by (simp add: Let_def g True ans_def All_less_Suc2 conj_ac)
  qed
qed simp

lemma emit_Inr: "cons_emit ev sev s = (Inr u, s') \<Longrightarrow> git_calls s' = git_calls s"
  by (auto simp: cons_emit_def split: list.splits option.splits)

lemma disk_Inr: "disk_op s = (Inr u, s') \<Longrightarrow> git_calls s' = git_calls s"
  by (auto simp: disk_op_def split: list.splits option.splits)

lemma summary_Inr: "generateSummary branch ts ok bad all merged s = (Inr path, s') \<Longrightarrow> git_calls s' = git_calls s"
  by (auto simp: generateSummary_def Let_def and_then_Inr dest!: emit_Inr disk_Inr)

text \<open>The branch depends on the commands made so far, and so does what comes after it.\<close>

lemma createBranch_git:
  "git_calls s = git_calls t \<Longrightarrow> fst (createBranch w b s) = fst (createBranch w b t) \<and>
     git_calls (snd (createBranch w b s)) = git_calls (snd (createBranch w b t))"
  by (simp add: createBranch_def git_def split: prod.split)

text \<open>The merges of the won worktrees that exist all succeed, from the given number of commands on.\<close>

definition all_merge :: "cons_world \<Rightarrow> ConsolidatorConfig \<Rightarrow> nat \<Rightarrow> string list \<Rightarrow> bool" where
  "all_merge w c n won =
    (let ps = filter (\<lambda>t. path_exists w (worktree_path c t)) won
     in \<forall>i < length ps. fst (git_answer w (n + i) (merge_args c (ps ! i))) = 0)"

lemma cons_run_code:
  assumes run: "cons_run w c now s = (Inr res, s')"
    and b: "createBranch w (''apohara/run-'' @ run_timestamp now) s = (made, s1)"
    and an: "analyzeTaskResults (listWorktreeDirectories w c) (tasks (loadState w c)) = (won, lost)"
  shows "failedWorktrees res = lost \<and> (\<not> made \<longrightarrow> cr_exitCode res = 1 \<and> successfulWorktrees res = [] \<and> git_calls s' = git_calls s1) \<and>
    (made \<longrightarrow> successfulWorktrees res = won \<and>
      cr_exitCode res = (if won = [] then 1 else if lost \<noteq> [] \<or> \<not> all_merge w c (length (git_calls s1)) won then 2 else 0))"
proof -
  define br where "br = ''apohara/run-'' @ run_timestamp now"
  obtain s0 where s0: "cons_emit ''consolidation_started'' Info s = (Inr (), s0)"
    using run unfolding cons_run_def Let_def and_then_Inr by auto
  obtain made' s2 where c2: "createBranch w br s0 = (made', s2)" by force
  have m: "made' = made" "git_calls s2 = git_calls s1"
    using createBranch_git [of s0 s w br] emit_Inr [OF s0] b c2 by (simp_all add: br_def)
  have run': "(case (made', s2) of
            (False, s2) \<Rightarrow> and_then (cons_emit ''branch_creation_failed'' Error s2) (\<lambda>u s3.
              (Inr \<lparr>cr_branch = br, successfulWorktrees = [], failedWorktrees = lost, cr_exitCode = 1, summaryPath = None\<rparr>, s3))
          | (True, s2) \<Rightarrow> and_then (cons_emit ''branch_created'' Info s2) (\<lambda>u s3.
              and_then (mergeSuccessfulWorktrees w c won s3) (\<lambda>merged s4.
                and_then (generateSummary br (run_timestamp now) won lost (tasks (loadState w c)) merged s4) (\<lambda>path s5.
                  let code = calculateExitCode won lost merged in
                  and_then (cons_emit ''consolidation_completed'' (if code = 0 then Info else Warning) s5) (\<lambda>u s6.
                    (Inr \<lparr>cr_branch = br, successfulWorktrees = won, failedWorktrees = lost, cr_exitCode = code,
                       summaryPath = Some path\<rparr>, s6)))))) = (Inr res, s')"
    using run unfolding cons_run_def Let_def s0 and_then_def [of "(Inr (), s0)"] an br_def [symmetric]
    by (simp add: c2)
  show ?thesis
  proof (cases made)
    case False
    then show ?thesis using run' m by (auto simp: and_then_Inr dest!: emit_Inr)
  next
    case True
    then obtain s3 merged s4 where s3: "cons_emit ''branch_created'' Info s2 = (Inr (), s3)"
      "mergeSuccessfulWorktrees w c won s3 = (Inr merged, s4)"
      and r: "failedWorktrees res = lost" "successfulWorktrees res = won" "cr_exitCode res = calculateExitCode won lost merged"
      using run' m by (auto simp: and_then_Inr Let_def)
    have n: "length (git_calls s3) = length (git_calls s1)" using emit_Inr [OF s3(1)] m(2) by simp
    show ?thesis
    proof (cases "won = []")
      case True
      then have "\<not> merged" using s3(2) by (simp add: mergeSuccessfulWorktrees_def)
      with True r \<open>made\<close> show ?thesis by (simp add: calculateExitCode_def)
    next
      case False
      then have "merge_all w c won True s3 = (Inr merged, s4)" using s3(2) by (simp add: mergeSuccessfulWorktrees_def)
      from merge_all_result [OF this] have "merged = all_merge w c (length (git_calls s1)) won"
        by (simp add: all_merge_def Let_def n)
      with False r \<open>made\<close> show ?thesis by (simp add: calculateExitCode_def)
    qed
  qed
qed

text \<open>The exit code of a consolidation that has worktrees. It is 1 when the branch could not be created or no
  worktree won, 0 when all merges of the worktrees that won and exist succeeded and none is listed as
  failed, and 2 otherwise. A worktree wins when a completed task's identifier contains its number, or when
  all tasks are completed; the others are listed as failed if some task failed, and not at all otherwise.\<close>

theorem exit_code:
  assumes "cons_run w c now s = (Inr res, s')"
    and "createBranch w (''apohara/run-'' @ run_timestamp now) s = (made, s1)"
    and "dirs = listWorktreeDirectories w c" "distinct dirs" "dirs \<noteq> []" "ts = tasks (loadState w c)"
    and "won = filter (worktree_won ts) dirs"
    and "lost = (if list_ex (\<lambda>t. task_status t = Failed) ts then filter (\<lambda>d. \<not> worktree_won ts d) dirs else [])"
  shows "failedWorktrees res = lost \<and> (\<not> made \<longrightarrow> cr_exitCode res = 1 \<and> successfulWorktrees res = [] \<and> git_calls s' = git_calls s1) \<and>
    (made \<longrightarrow> successfulWorktrees res = won \<and>
      cr_exitCode res = (if won = [] then 1 else if lost \<noteq> [] \<or> \<not> all_merge w c (length (git_calls s1)) won then 2 else 0))"
proof (rule cons_run_code [OF assms(1,2)])
  show "analyzeTaskResults (listWorktreeDirectories w c) (tasks (loadState w c)) = (won, lost)"
    using analyze_dirs [OF assms(4,5), of ts] by (simp only: assms(3,6,7,8))
qed

text \<open>A worktree wins by a task that is not its own: the number 1 is found in \<open>task-10\<close>.\<close>

definition demo_cons_task :: "string \<Rightarrow> TaskStatus \<Rightarrow> Task" where
  "demo_cons_task i st = \<lparr>task_id = i, task_role = None, task_description = [], task_status = st, createdAt = 0, updatedAt = 0\<rparr>"

lemma won_by_substring:
  "worktree_won [demo_cons_task ''task-1'' Failed, demo_cons_task ''task-10'' Completed] ''lane-1''"
  by code_simp

definition demo_cons_world :: cons_world where
  "demo_cons_world = \<lparr>state_file = (\<lambda>p. Some (empty_state\<lparr>tasks := [demo_cons_task ''task-1'' Failed, demo_cons_task ''task-10'' Completed]\<rparr>)),
     list_dirs = (\<lambda>p. Some [''lane-1'', ''lane-2'']), path_exists = (\<lambda>p. True), git_answer = (\<lambda>k args. (0, []))\<rparr>"

definition new_consolidator :: Consolidator where
  "new_consolidator = \<lparr>cons_log = [], cons_ledger = [], git_calls = [], disk_answers = [], written = []\<rparr>"

lemma exit_code_witness:
  "\<exists>res s'. cons_run demo_cons_world \<lparr>worktreeBaseDir = None, cc_stateFilePath = None\<rparr> ''t'' new_consolidator = (Inr res, s') \<and>
     cr_exitCode res = 2 \<and> successfulWorktrees res = [''lane-1''] \<and> failedWorktrees res = [''lane-2'']"
proof -
  let ?c = "\<lparr>worktreeBaseDir = None, cc_stateFilePath = None\<rparr>"
  let ?ts = "[demo_cons_task ''task-1'' Failed, demo_cons_task ''task-10'' Completed]"
  have won: "filter (worktree_won ?ts) [''lane-1'', ''lane-2''] = [''lane-1'']" "filter (\<lambda>d. \<not> worktree_won ?ts d) [''lane-1'', ''lane-2''] = [''lane-2'']"
    "list_ex (\<lambda>t. task_status t = Failed) ?ts"
    by code_simp+
  have d: "listWorktreeDirectories demo_cons_world ?c = [''lane-1'', ''lane-2'']" "tasks (loadState demo_cons_world ?c) = ?ts"
    by (simp_all add: listWorktreeDirectories_def demo_cons_world_def loadState_def)
  have made: "\<exists>s1. createBranch demo_cons_world (''apohara/run-'' @ run_timestamp ''t'') new_consolidator = (True, s1)"
    by (simp add: createBranch_def git_def demo_cons_world_def)
  then obtain s1 where b: "createBranch demo_cons_world (''apohara/run-'' @ run_timestamp ''t'') new_consolidator = (True, s1)" by blast
  have a: "analyzeTaskResults [''lane-1'', ''lane-2''] ?ts = ([''lane-1''], [''lane-2''])"
    using analyze_dirs [of "[''lane-1'', ''lane-2'']" ?ts] won by simp
  obtain res s' where run: "cons_run demo_cons_world ?c ''t'' new_consolidator = (Inr res, s')"
  proof -
    have "\<exists>res s'. cons_run demo_cons_world ?c ''t'' new_consolidator = (Inr res, s')"
      unfolding cons_run_def Let_def d a
      by (simp add: cons_emit_def new_consolidator_def createBranch_def git_def demo_cons_world_def mergeSuccessfulWorktrees_def
        generateSummary_def disk_op_def Let_def)
    with that show ?thesis by blast
  qed
  from exit_code [OF run b d(1) [symmetric] _ _ d(2) [symmetric] refl refl] won show ?thesis using run by auto
qed

end
