(* ===== verification/Sanitize.thy ===== *)
theory Sanitize
  imports "HOL-Library.Sublist" Json
begin

text \<open>
  \<open>src/lib/sanitize.ts\<close>: redaction of API keys. The five regular expressions have one shape, a literal
  prefix and a run of characters of a class of a fixed or a minimal length. What the console wrappers
  and the file wrappers pass on is the redacted value; the calls they pass it to are outside.
\<close>

section \<open>The patterns\<close>

record key_pattern =
  kp_prefix :: string
  kp_class :: "char \<Rightarrow> bool"
  kp_count :: nat
  kp_more :: bool

definition in_range :: "nat \<Rightarrow> nat \<Rightarrow> char \<Rightarrow> bool" where
  "in_range a b c \<longleftrightarrow> a \<le> of_char c \<and> (of_char c :: nat) \<le> b"

definition is_upper :: "char \<Rightarrow> bool" where "is_upper c = in_range 65 90 c"
definition is_alnum :: "char \<Rightarrow> bool" where
  "is_alnum c \<longleftrightarrow> in_range 97 122 c \<or> is_upper c \<or> is_digit c"
definition is_key_char :: "char \<Rightarrow> bool" where
  "is_key_char c \<longleftrightarrow> is_alnum c \<or> c = CHR ''_'' \<or> c = CHR ''-''"

definition REDACTION_PATTERNS :: "key_pattern list" where
  "REDACTION_PATTERNS =
    [\<lparr>kp_prefix = ''sk-'', kp_class = is_alnum, kp_count = 32, kp_more = True\<rparr>,
     \<lparr>kp_prefix = ''AIza'', kp_class = is_key_char, kp_count = 35, kp_more = False\<rparr>,
     \<lparr>kp_prefix = ''sk-ant-'', kp_class = is_key_char, kp_count = 32, kp_more = True\<rparr>,
     \<lparr>kp_prefix = ''AKIA'', kp_class = (\<lambda>c. is_digit c \<or> is_upper c), kp_count = 16, kp_more = False\<rparr>,
     \<lparr>kp_prefix = [], kp_class = is_alnum, kp_count = 40, kp_more = False\<rparr>]"

definition REDACTED_PLACEHOLDER :: string where
  "REDACTED_PLACEHOLDER = ''[REDACTED]''"

text \<open>The length of a match at the start of the text.\<close>

definition key_match :: "key_pattern \<Rightarrow> string \<Rightarrow> nat option" where
  "key_match p s =
    (if starts_with s (kp_prefix p) then
       let run = length (takeWhile (kp_class p) (drop (length (kp_prefix p)) s))
       in if kp_count p \<le> run then Some (length (kp_prefix p) + (if kp_more p then run else kp_count p)) else None
     else None)"

section \<open>Redaction\<close>

text \<open>\<open>s.replace(pattern, "[REDACTED]")\<close> and the number of matches of \<open>s.match(pattern)\<close>.\<close>

function replace_keys :: "key_pattern \<Rightarrow> string \<Rightarrow> string" where
  "replace_keys p [] = []"
| "replace_keys p (c # cs) = (case key_match p (c # cs) of
     Some n \<Rightarrow> REDACTED_PLACEHOLDER @ replace_keys p (drop (n - 1) cs)
   | None \<Rightarrow> c # replace_keys p cs)"
  by pat_completeness auto
termination by (relation "measure (\<lambda>(p, s). length s)") auto

function count_keys :: "key_pattern \<Rightarrow> string \<Rightarrow> nat" where
  "count_keys p [] = 0"
| "count_keys p (c # cs) = (case key_match p (c # cs) of
     Some n \<Rightarrow> Suc (count_keys p (drop (n - 1) cs))
   | None \<Rightarrow> count_keys p cs)"
  by pat_completeness auto
termination by (relation "measure (\<lambda>(p, s). length s)") auto

text \<open>
  The state of the module: the debug flag, whether the console methods are the wrappers, \<open>lastIndex\<close> of each pattern (the patterns are global ones),
  and the lines that the debug mode printed, as pattern and count.
\<close>

record sanitizer =
  debugMode :: bool
  wrapped :: bool
  lastIndexes :: "nat list"
  debug_lines :: "(nat \<times> nat) list"

definition new_sanitizer :: sanitizer where
  "new_sanitizer = \<lparr>debugMode = False, wrapped = False, lastIndexes = map (\<lambda>p. 0) REDACTION_PATTERNS, debug_lines = []\<rparr>"

definition enableDebugMode :: "sanitizer \<Rightarrow> sanitizer" where "enableDebugMode m = m\<lparr>debugMode := True\<rparr>"
definition disableDebugMode :: "sanitizer \<Rightarrow> sanitizer" where "disableDebugMode m = m\<lparr>debugMode := False\<rparr>"

text \<open>One pattern of the loop; \<open>match\<close> and \<open>replace\<close> set its \<open>lastIndex\<close> to 0.\<close>

definition redact_one :: "nat \<times> key_pattern \<Rightarrow> string \<times> sanitizer \<Rightarrow> string \<times> sanitizer" where
  "redact_one ip acc = (case (ip, acc) of ((i, p), (s, m)) \<Rightarrow>
     (replace_keys p s,
      m\<lparr>lastIndexes := (lastIndexes m)[i := 0],
        debug_lines := (if count_keys p s \<noteq> 0 \<and> debugMode m then debug_lines m @ [(i, count_keys p s)] else debug_lines m)\<rparr>))"

definition redact_run :: "string \<Rightarrow> sanitizer \<Rightarrow> string \<times> sanitizer" where
  "redact_run input m = fold redact_one (enumerate 0 REDACTION_PATTERNS) (input, m)"

definition redact :: "string \<Rightarrow> string" where
  "redact input = fold replace_keys REDACTION_PATTERNS input"

fun redactObject :: "json \<Rightarrow> json" where
  "redactObject (JStr s) = JStr (redact s)"
| "redactObject (JArr vs) = JArr (map redactObject vs)"
| "redactObject (JObj kvs) = JObj (map (\<lambda>kv. (fst kv, redactObject (snd kv))) kvs)"
| "redactObject v = v"

text \<open>
  What the wrappers of the console methods pass on (an \<open>undefined\<close> argument is not a value of the
  model; it is passed on as it is), and what \<open>safeAppendFileSync\<close> and \<open>safeAppendFile\<close> append. The
  wrappers call the original methods, so wrapping twice is wrapping once.\<close>

definition redact_args :: "json list \<Rightarrow> json list" where
  "redact_args args = map (\<lambda>arg. case arg of JStr s \<Rightarrow> JStr (redact s) | JObj kvs \<Rightarrow> redactObject arg
     | JArr vs \<Rightarrow> redactObject arg | JNull \<Rightarrow> redactObject arg | _ \<Rightarrow> arg) args"

datatype console_method = Con_log | Con_error | Con_warn | Con_info

definition wrapConsole :: "sanitizer \<Rightarrow> sanitizer" where "wrapConsole m = m\<lparr>wrapped := True\<rparr>"
definition unwrapConsole :: "sanitizer \<Rightarrow> sanitizer" where "unwrapConsole m = m\<lparr>wrapped := False\<rparr>"

text \<open>The call of an original method that a call of a console method makes.\<close>

definition console_call :: "sanitizer \<Rightarrow> console_method \<Rightarrow> json list \<Rightarrow> console_method \<times> json list" where
  "console_call m method args = (method, if wrapped m then redact_args args else args)"

definition safeAppendFileSync :: "string \<Rightarrow> string \<Rightarrow> string" where
  "safeAppendFileSync data file = file @ redact data"

definition countApiKeys :: "string \<Rightarrow> sanitizer \<Rightarrow> nat \<times> sanitizer" where
  "countApiKeys input m =
    (foldl (\<lambda>n p. n + count_keys p input) 0 REDACTION_PATTERNS, m\<lparr>lastIndexes := map (\<lambda>i. 0) (lastIndexes m)\<rparr>)"

section \<open>Testing for keys\<close>

text \<open>The first match from an index on: where it ends.\<close>

fun find_key :: "key_pattern \<Rightarrow> string \<Rightarrow> nat option" where
  "find_key p [] = key_match p []"
| "find_key p (c # cs) = (case key_match p (c # cs) of
     Some n \<Rightarrow> Some n
   | None \<Rightarrow> map_option Suc (find_key p cs))"

text \<open>\<open>pattern.test(input)\<close> of a global pattern, with its \<open>lastIndex\<close> before and after.\<close>

definition key_test :: "key_pattern \<Rightarrow> nat \<Rightarrow> string \<Rightarrow> bool \<times> nat" where
  "key_test p li s = (if length s < li then (False, 0)
     else case find_key p (drop li s) of Some e \<Rightarrow> (True, li + e) | None \<Rightarrow> (False, 0))"

fun some_test :: "key_pattern list \<Rightarrow> nat list \<Rightarrow> string \<Rightarrow> bool \<times> nat list" where
  "some_test (p # ps) (i # js) s = (case key_test p i s of
     (True, i') \<Rightarrow> (True, i' # js)
   | (False, i') \<Rightarrow> (case some_test ps js s of (b, js') \<Rightarrow> (b, i' # js')))"
| "some_test ps js s = (False, js)"

definition containsApiKey :: "string \<Rightarrow> sanitizer \<Rightarrow> bool \<times> sanitizer" where
  "containsApiKey input m = (case some_test REDACTION_PATTERNS (lastIndexes m) input of
     (b, js) \<Rightarrow> (b, m\<lparr>lastIndexes := js\<rparr>))"

section \<open>No key survives\<close>

text \<open>The words of a pattern, and texts that contain one.\<close>

definition key_word :: "key_pattern \<Rightarrow> string \<Rightarrow> bool" where
  "key_word p w \<longleftrightarrow> (\<exists>t. w = kp_prefix p @ t \<and> length t = kp_count p \<and> list_all (kp_class p) t)"

fun occurs :: "key_pattern \<Rightarrow> string \<Rightarrow> bool" where
  "occurs p [] = (key_match p [] \<noteq> None)"
| "occurs p (c # cs) = (key_match p (c # cs) \<noteq> None \<or> occurs p cs)"

lemma key_match_word: "key_match p s \<noteq> None \<longleftrightarrow> (\<exists>w. key_word p w \<and> prefix w s)"
proof -
  have take_run: "kp_count p \<le> length (takeWhile (kp_class p) r) \<longleftrightarrow>
      (\<exists>t. length t = kp_count p \<and> list_all (kp_class p) t \<and> prefix t r)" for r
  proof
    assume "kp_count p \<le> length (takeWhile (kp_class p) r)"
    then show "\<exists>t. length t = kp_count p \<and> list_all (kp_class p) t \<and> prefix t r"
      by (intro exI [of _ "take (kp_count p) (takeWhile (kp_class p) r)"])
        (auto simp: list_all_iff dest!: in_set_takeD set_takeWhileD
          intro: prefix_order.trans [OF take_is_prefix takeWhile_is_prefix])
  next
    assume "\<exists>t. length t = kp_count p \<and> list_all (kp_class p) t \<and> prefix t r"
    then obtain t u where t: "length t = kp_count p" "list_all (kp_class p) t" "r = t @ u" by (auto simp: prefix_def)
    then have "takeWhile (kp_class p) r = t @ takeWhile (kp_class p) u" by (simp add: list_all_iff)
    then show "kp_count p \<le> length (takeWhile (kp_class p) r)" using t(1) by simp
  qed
  show ?thesis
  proof (cases "starts_with s (kp_prefix p)")
    case True
    then obtain r where r: "s = kp_prefix p @ r" by (auto simp: starts_with_iff)
    have "key_match p s \<noteq> None \<longleftrightarrow> kp_count p \<le> length (takeWhile (kp_class p) r)"
      using True by (simp add: key_match_def r Let_def)
    then show ?thesis unfolding take_run by (auto simp: key_word_def r)
  next
    case False
    then show ?thesis by (auto simp: key_match_def key_word_def starts_with_iff prefix_def)
  qed
qed

lemma occurs_word: "occurs p s \<longleftrightarrow> (\<exists>w. key_word p w \<and> sublist w s)"
proof (induction s)
  case Nil
  then show ?case using key_match_word [of p "[]"] by simp
next
  case (Cons c cs)
  then show ?case using key_match_word [of p "c # cs"] by (auto simp: sublist_Cons_right)
qed

text \<open>A pattern that the placeholder can neither match nor help to match.\<close>

definition separated :: "key_pattern \<Rightarrow> bool" where
  "separated p \<longleftrightarrow> CHR ''['' \<notin> set (kp_prefix p) \<and> CHR '']'' \<notin> set (kp_prefix p) \<and>
     \<not> kp_class p (CHR ''['') \<and> \<not> kp_class p (CHR '']'') \<and> 8 < kp_count p"

lemma patterns_separated: "list_all separated REDACTION_PATTERNS"
  by (simp add: REDACTION_PATTERNS_def separated_def) code_simp

lemma word_facts:
  "separated p \<Longrightarrow> key_word p w \<Longrightarrow> CHR ''['' \<notin> set w \<and> CHR '']'' \<notin> set w \<and> 8 < length w"
  by (auto simp: separated_def key_word_def list_all_iff)

lemma sublist_around: "c \<notin> set w \<Longrightarrow> sublist w (x @ c # y) \<Longrightarrow> sublist w x \<or> sublist w y"
proof (induction x)
  case Nil
  then show ?case by (cases w) (auto simp: sublist_Cons_right)
next
  case (Cons d x)
  then consider "prefix w (d # x @ c # y)" | "sublist w (x @ c # y)" by (auto simp: sublist_Cons_right)
  then show ?case
  proof cases
    case 1
    then obtain u where u: "d # x @ c # y = w @ u" by (auto simp: prefix_def)
    then have "(d # x) @ (c # y) = w @ u" by simp
    then have "prefix w (d # x)" using Cons.prems(1) unfolding append_eq_append_conv2
      by (auto simp: prefix_def append_eq_Cons_conv) (metis append_eq_Cons_conv in_set_conv_decomp)+
    then show ?thesis by (simp add: sublist_Cons_right)
  next
    case 2
    then show ?thesis using Cons by (auto simp: sublist_Cons_right)
  qed
qed

text \<open>Replacing creates no new words: up to the first bracket nothing has changed.\<close>

lemma replace_prefix: "CHR ''['' \<notin> set w \<Longrightarrow> prefix w (replace_keys p s) \<Longrightarrow> prefix w s"
proof (induction p s arbitrary: w rule: replace_keys.induct)
  case (2 p c cs)
  show ?case
  proof (cases "key_match p (c # cs)")
    case None
    with 2 show ?thesis by (cases w) auto
  next
    case (Some n)
    with 2(3,4) show ?thesis by (cases w) (auto simp: REDACTED_PLACEHOLDER_def)
  qed
qed simp

lemma sublist_of_drop: "sublist w (drop n s) \<Longrightarrow> sublist w s"
  by (metis append_take_drop_id append_assoc sublist_def)

lemma sublist_placeholder:
  assumes "separated q" "key_word q w" "sublist w (REDACTED_PLACEHOLDER @ r)"
  shows "sublist w r"
proof -
  note w = word_facts [OF assms(1,2)]
  have "sublist w (CHR ''['' # ''REDACTED'' @ CHR '']'' # r)" using assms(3) by (simp add: REDACTED_PLACEHOLDER_def)
  then have "sublist w [] \<or> sublist w (''REDACTED'' @ CHR '']'' # r)"
    using w sublist_around [of "CHR ''[''" w "[]" "''REDACTED'' @ CHR '']'' # r"] by (simp del: append.simps add: append_Nil)
  moreover have "\<not> sublist w []" using w by (cases w) simp_all
  ultimately have "sublist w (''REDACTED'' @ CHR '']'' # r)" by blast
  then have "sublist w ''REDACTED'' \<or> sublist w r" using w sublist_around [of "CHR '']''" w "''REDACTED''" r] by blast
  moreover have "\<not> sublist w ''REDACTED''" using w sublist_length_le [of w "''REDACTED''"] by auto
  ultimately show ?thesis by blast
qed

lemma replace_no_new: "separated q \<Longrightarrow> key_word q w \<Longrightarrow> sublist w (replace_keys p s) \<Longrightarrow> sublist w s"
proof (induction p s rule: replace_keys.induct)
  case (2 p c cs)
  show ?case
  proof (cases "key_match p (c # cs)")
    case None
    then have "prefix w (c # replace_keys p cs) \<or> sublist w (replace_keys p cs)"
      using 2(5) by (auto simp: sublist_Cons_right)
    then show ?thesis
    proof
      assume "prefix w (c # replace_keys p cs)"
      then have "prefix w (c # cs)"
        using replace_prefix [of w p "c # cs"] word_facts [OF 2(3,4)] None by simp
      then show ?thesis by (simp add: sublist_Cons_right)
    qed (use 2(1) [OF None 2(3,4)] in \<open>auto simp: sublist_Cons_right\<close>)
  next
    case (Some n)
    then have "sublist w (replace_keys p (drop (n - 1) cs))" using 2(3-5) sublist_placeholder by simp
    then show ?thesis using 2(2) [OF Some 2(3,4)] sublist_of_drop by (auto simp: sublist_Cons_right)
  qed
qed simp

text \<open>And of the words of the pattern itself it leaves none.\<close>

lemma replace_removes: "separated p \<Longrightarrow> key_word p w \<Longrightarrow> \<not> sublist w (replace_keys p s)"
proof (induction p s rule: replace_keys.induct)
  case (1 p)
  then show ?case using word_facts by fastforce
next
  case (2 p c cs)
  show ?case
  proof (cases "key_match p (c # cs)")
    case None
    have "\<not> prefix w (c # replace_keys p cs)"
    proof
      assume "prefix w (c # replace_keys p cs)"
      then have "prefix w (c # cs)" using replace_prefix [of w p "c # cs"] word_facts [OF 2(3,4)] None by simp
      then show False using key_match_word [of p "c # cs"] 2(4) None by blast
    qed
    then show ?thesis using None 2(1) [OF None 2(3,4)] by (simp add: sublist_Cons_right)
  next
    case (Some n)
    then show ?thesis using 2(2) [OF Some 2(3,4)] sublist_placeholder [OF 2(3,4)] by auto
  qed
qed

lemma fold_replace:
  "list_all separated ps \<Longrightarrow> separated q \<Longrightarrow> q \<in> set ps \<or> \<not> occurs q s \<Longrightarrow> \<not> occurs q (fold replace_keys ps s)"
proof (induction ps arbitrary: s)
  case (Cons p ps)
  have "q \<in> set ps \<or> \<not> occurs q (replace_keys p s)"
  proof (cases "q = p")
    case True
    then show ?thesis unfolding occurs_word using Cons.prems(2) replace_removes [of p _ s] by blast
  next
    case False
    have "\<not> occurs q s \<Longrightarrow> \<not> occurs q (replace_keys p s)"
      unfolding occurs_word using Cons.prems(2) replace_no_new [of q _ p s] by blast
    then show ?thesis using Cons.prems(3) False by auto
  qed
  with Cons show ?case by simp
qed simp

lemma replace_keys_none: "\<not> occurs p s \<Longrightarrow> replace_keys p s = s"
  by (induction p s rule: replace_keys.induct) (auto split: option.splits)

lemma redact_clean: "list_all (\<lambda>p. \<not> occurs p (redact s)) REDACTION_PATTERNS"
  using fold_replace [OF patterns_separated] patterns_separated by (auto simp: list_all_iff redact_def)

lemma redact_id: "list_all (\<lambda>p. \<not> occurs p s) REDACTION_PATTERNS \<Longrightarrow> redact s = s"
proof -
  have "list_all (\<lambda>p. \<not> occurs p s) ps \<Longrightarrow> fold replace_keys ps s = s" for ps
    by (induction ps) (simp_all add: replace_keys_none)
  then show "list_all (\<lambda>p. \<not> occurs p s) REDACTION_PATTERNS \<Longrightarrow> ?thesis" by (simp add: redact_def)
qed

lemma redact_run_result: "fst (redact_run s m) = redact s"
proof -
  have "fst (fold redact_one (enumerate k ps) (s, m)) = fold replace_keys ps s" for k ps
    by (induction ps arbitrary: k s m) (simp_all add: redact_one_def)
  then show ?thesis by (simp add: redact_run_def redact_def)
qed

text \<open>The string values in a value.\<close>

fun strings_of :: "json \<Rightarrow> string list" where
  "strings_of (JStr s) = [s]"
| "strings_of (JArr vs) = concat (map strings_of vs)"
| "strings_of (JObj kvs) = concat (map (\<lambda>kv. strings_of (snd kv)) kvs)"
| "strings_of v = []"

lemma strings_redacted: "strings_of (redactObject v) = map redact (strings_of v)"
proof (induction v rule: redactObject.induct)
  case (2 vs)
  then show ?case by (induction vs) auto
next
  case (3 kvs)
  then show ?case by (induction kvs) auto
qed simp_all

text \<open>C20.
  Redaction is complete for what its patterns recognise, and idempotent. In the text that \<open>redact\<close> returns
  none of the five patterns matches anywhere, although they are applied one after another and a
  replacement changes the text that the earlier ones have seen; redacting it again changes nothing, and a
  text is passed on unchanged exactly when no pattern matches in it.
  The same holds for every string value in the result of \<open>redactObject\<close>, whatever is in the object. Keys
  of a shape that no pattern has (\<open>valid_keys_that_leak\<close>) and the names of properties
  (\<open>keys_not_redacted\<close>) are passed on as they are.\<close>

theorem redact_complete:
  "list_all (\<lambda>p. \<not> occurs p (fst (redact_run s m))) REDACTION_PATTERNS \<and> redact (fst (redact_run s m)) = fst (redact_run s m) \<and>
   (redact s = s) = list_all (\<lambda>p. \<not> occurs p s) REDACTION_PATTERNS \<and>
   list_all (\<lambda>t. list_all (\<lambda>p. \<not> occurs p t) REDACTION_PATTERNS) (strings_of (redactObject v)) \<and>
   redactObject (redactObject v) = redactObject v"
proof -
  have "redactObject (redactObject v) = redactObject v"
  proof (induction v rule: redactObject.induct)
    case (1 s)
    then show ?case using redact_id redact_clean by simp
  qed simp_all
  moreover have "(redact s = s) = list_all (\<lambda>p. \<not> occurs p s) REDACTION_PATTERNS"
    using redact_clean [of s] redact_id [of s] by metis
  ultimately show ?thesis using redact_clean redact_id by (simp add: redact_run_result strings_redacted list_all_iff)
qed

text \<open>The names of properties are passed on as they are.\<close>

lemma keys_not_redacted: "redactObject (JObj [(k, JNull)]) = JObj [(k, JNull)]"
  by simp

text \<open>
  The patterns are global ones, so \<open>test\<close> goes on from where the last test ended: the same text asked
  again is said to have no key.
\<close>

definition demo_key :: string where "demo_key = ''AKIA'' @ replicate 16 (CHR ''7'')"

lemma key_denied:
  "let (b1, m1) = containsApiKey demo_key new_sanitizer; (b2, m2) = containsApiKey demo_key m1
   in b1 \<and> \<not> b2 \<and> fst (countApiKeys demo_key m1) = 1"
  by code_simp

end
