(* ===== verification/Memory_Prompt.thy ===== *)
theory Memory_Prompt
  imports Ledger Js_Number
begin

text \<open>
  \<open>src/core/memory-injection.ts\<close>: memories as an XML block, and the block in a prompt. The search is a
  parameter that answers a list or throws.
\<close>

section \<open>Memories\<close>

datatype MemoryType = Correction | Preference | Architecture | Past_error

fun memory_type :: "MemoryType \<Rightarrow> string" where
  "memory_type Correction = ''correction''"
| "memory_type Preference = ''preference''"
| "memory_type Architecture = ''architecture''"
| "memory_type Past_error = ''past_error''"

record Memory =
  mem_id :: string
  mem_type :: MemoryType
  mem_content :: string
  created_at :: nat
  similarity :: rat

section \<open>The block\<close>

text \<open>\<open>text.replace(/c/g, w)\<close> for a single character.\<close>

definition replace_char :: "char \<Rightarrow> string \<Rightarrow> string \<Rightarrow> string" where
  "replace_char c w s = concat (map (\<lambda>d. if d = c then w else [d]) s)"

definition squote :: char where "squote = CHR 0x27"

definition escapeXml :: "string \<Rightarrow> string" where
  "escapeXml s = replace_char squote ''&apos;'' (replace_char dquote ''&quot;''
     (replace_char (CHR ''>'') ''&gt;'' (replace_char (CHR ''<'') ''&lt;'' (replace_char (CHR ''&'') ''&amp;'' s))))"

definition memory_element :: "Memory \<Rightarrow> string" where
  "memory_element m = ''  <memory type='' @ [dquote] @ memory_type (mem_type m) @ [dquote] @ ''>'' @
     escapeXml (mem_content m) @ ''</memory>''"

definition block_open :: string where "block_open = ''<apohara_memory>'' @ [newline]"
definition block_close :: string where "block_close = ''</apohara_memory>''"

definition formatMemoryBlock :: "Memory list \<Rightarrow> string" where
  "formatMemoryBlock ms = (if ms = [] then []
     else block_open @ join [newline] (map memory_element ms) @ [newline] @ block_close)"

definition injectMemoriesIntoPrompt :: "string \<Rightarrow> Memory list \<Rightarrow> string" where
  "injectMemoriesIntoPrompt basePrompt ms =
    (let block = formatMemoryBlock ms; ls = split_lines basePrompt in
     if block = [] then basePrompt
     else if length ls = 1 then basePrompt @ [newline, newline] @ block
     else hd ls @ [newline, newline] @ block @ [newline] @ join [newline] (tl ls))"

definition fetchAndFormatMemories :: "string \<Rightarrow> (string \<Rightarrow> nat \<Rightarrow> string + Memory list) \<Rightarrow> string" where
  "fetchAndFormatMemories query searchFn = (case searchFn query 5 of
     Inr ms \<Rightarrow> formatMemoryBlock ms
   | Inl e \<Rightarrow> [])"

section \<open>A reader of blocks\<close>

text \<open>What the replacements amount to, in one pass.\<close>

definition xml_char :: "char \<Rightarrow> string" where
  "xml_char c = (if c = CHR ''&'' then ''&amp;'' else if c = CHR ''<'' then ''&lt;'' else if c = CHR ''>'' then ''&gt;''
     else if c = dquote then ''&quot;'' else if c = squote then ''&apos;'' else [c])"

text \<open>\<open>strip p s\<close> is \<open>s\<close> without its prefix \<open>p\<close>.\<close>

definition strip :: "string \<Rightarrow> string \<Rightarrow> string option" where
  "strip p s = (if starts_with s p then Some (drop (length p) s) else None)"

definition entity :: "string \<Rightarrow> (char \<times> string) option" where
  "entity s = List.find (\<lambda>(c, r). starts_with s r)
     [(CHR ''&'', ''&amp;''), (CHR ''<'', ''&lt;''), (CHR ''>'', ''&gt;''), (dquote, ''&quot;''), (squote, ''&apos;'')]"

function read_text :: "string \<Rightarrow> string" where
  "read_text [] = []"
| "read_text (c # cs) = (case entity (c # cs) of
     Some (d, r) \<Rightarrow> d # read_text (drop (length r - 1) cs)
   | None \<Rightarrow> c # read_text cs)"
  by pat_completeness auto
termination by (relation "measure length") auto

definition read_element :: "string \<Rightarrow> ((MemoryType \<times> string) \<times> string) option" where
  "read_element s = (case strip (''  <memory type='' @ [dquote]) s of None \<Rightarrow> None
     | Some r \<Rightarrow> (case List.find (\<lambda>t. takeWhile (\<lambda>c. c \<noteq> dquote) r = memory_type t)
           [Correction, Preference, Architecture, Past_error] of None \<Rightarrow> None
       | Some t \<Rightarrow> (case strip (dquote # ''>'') (drop (length (memory_type t)) r) of None \<Rightarrow> None
         | Some u \<Rightarrow> (case strip (''</memory>'' @ [newline]) (dropWhile (\<lambda>c. c \<noteq> CHR ''<'') u) of None \<Rightarrow> None
           | Some v \<Rightarrow> Some ((t, read_text (takeWhile (\<lambda>c. c \<noteq> CHR ''<'') u)), v)))))"

fun read_elements :: "nat \<Rightarrow> string \<Rightarrow> (MemoryType \<times> string) list option" where
  "read_elements 0 s = None"
| "read_elements (Suc n) s = (if s = block_close then Some []
     else case read_element s of None \<Rightarrow> None
       | Some (m, r) \<Rightarrow> map_option ((#) m) (read_elements n r))"

definition read_block :: "string \<Rightarrow> (MemoryType \<times> string) list option" where
  "read_block s = (if s = [] then Some []
     else case strip block_open s of None \<Rightarrow> None | Some r \<Rightarrow> read_elements (length r) r)"

section \<open>Facts\<close>

lemma replace_char_append [simp]: "replace_char c w (s @ t) = replace_char c w s @ replace_char c w t"
  by (simp add: replace_char_def)

lemma replace_char_Nil [simp]: "replace_char c w [] = []"
  by (simp add: replace_char_def)

lemma replace_char_Cons: "replace_char c w (d # s) = (if d = c then w else [d]) @ replace_char c w s"
  by (simp add: replace_char_def)

lemma escape_one_pass: "escapeXml s = concat (map xml_char s)"
proof (induction s)
  case (Cons c s)
  have "escapeXml (c # s) = escapeXml [c] @ escapeXml s"
    by (simp add: escapeXml_def replace_char_Cons)
  moreover have "escapeXml [c] = xml_char c"
    by (simp add: escapeXml_def replace_char_Cons xml_char_def dquote_def squote_def)
  ultimately show ?case by (simp add: Cons.IH)
qed (simp add: escapeXml_def)

lemma strip_append [simp]: "strip p (p @ s) = Some s"
  by (simp add: strip_def starts_with_def)

lemma starts_with_simps [simp]: "starts_with s []" "starts_with (c # s) (d # p) \<longleftrightarrow> c = d \<and> starts_with s p"
  "\<not> starts_with [] (d # p)"
  by (simp_all add: starts_with_def)

lemma xml_no_lt: "CHR ''<'' \<notin> set (xml_char c)"
  by (simp add: xml_char_def)

lemma escape_no_lt: "CHR ''<'' \<notin> set (escapeXml s)"
  using xml_no_lt by (auto simp: escape_one_pass)

lemma read_xml_char: "read_text (xml_char c @ r) = c # read_text r"
proof (cases "c \<in> {CHR ''&'', CHR ''<'', CHR ''>'', dquote, squote}")
  case True
  then show ?thesis by (elim insertE) (simp_all add: xml_char_def entity_def dquote_def squote_def)
next
  case False
  then have "xml_char c = [c]" "entity (c # r) = None" by (simp_all add: xml_char_def entity_def)
  then show ?thesis by simp
qed

lemma read_escape: "read_text (escapeXml s) = s"
  by (induction s) (simp_all add: escape_one_pass read_xml_char)

lemma type_no_quote: "dquote \<notin> set (memory_type t)"
  by (cases t) (simp_all add: dquote_def)

lemma memory_type_inj [simp]: "memory_type a = memory_type b \<longleftrightarrow> a = b"
  by (cases a; cases b) simp_all

lemma takeWhile_stop: "c \<notin> set s \<Longrightarrow> takeWhile (\<lambda>x. x \<noteq> c) (s @ c # r) = s"
  by (metis (mono_tags, lifting) append_Nil2 takeWhile_append2 takeWhile.simps(2))

lemma dropWhile_stop: "c \<notin> set s \<Longrightarrow> dropWhile (\<lambda>x. x \<noteq> c) (s @ c # r) = c # r"
  by (metis (mono_tags, lifting) dropWhile_append2 dropWhile.simps(2))

lemma read_memory_element:
  "read_element (memory_element m @ newline # r) = Some ((mem_type m, mem_content m), r)"
proof -
  let ?t = "memory_type (mem_type m)" and ?e = "escapeXml (mem_content m)"
  have s: "memory_element m @ newline # r =
      (''  <memory type='' @ [dquote]) @ ?t @ dquote # (CHR ''>'' # ?e @ CHR ''<'' # ''/memory>'' @ newline # r)"
    by (simp add: memory_element_def)
  have f: "List.find (\<lambda>t. ?t = memory_type t) [Correction, Preference, Architecture, Past_error] = Some (mem_type m)"
    by (cases "mem_type m") simp_all
  have c: "CHR ''<'' # ''/memory>'' @ newline # r = (''</memory>'' @ [newline]) @ r" by simp
  have q: "strip (dquote # ''>'') (dquote # CHR ''>'' # x) = Some x" for x
    using strip_append [of "dquote # ''>''" x] by simp
  show ?thesis
    unfolding read_element_def s strip_append option.case takeWhile_stop [OF type_no_quote] f
      append_eq_conv_conj [THEN iffD1, OF refl, THEN conjunct2] q
    by (simp add: takeWhile_stop dropWhile_stop escape_no_lt read_escape strip_def)
qed

lemma read_memory_elements:
  "length ms < n \<Longrightarrow> read_elements n (concat (map (\<lambda>m. memory_element m @ [newline]) ms) @ block_close) =
     Some (map (\<lambda>m. (mem_type m, mem_content m)) ms)"
proof (induction ms arbitrary: n)
  case Nil
  then show ?case by (cases n) simp_all
next
  case (Cons m ms)
  then obtain k where k: "n = Suc k" "length ms < k" by (cases n) auto
  have "memory_element m @ newline # s \<noteq> block_close" for s by (simp add: memory_element_def block_close_def)
  then show ?case using Cons.IH [OF k(2)] by (simp add: k(1) read_memory_element)
qed

lemma join_lines: "xs \<noteq> [] \<Longrightarrow> join [c] xs @ c # r = concat (map (\<lambda>x. x @ [c]) xs) @ r"
proof (induction xs)
  case (Cons x xs)
  then show ?case by (cases xs) simp_all
qed simp

text \<open>C38.
  The memory block is faithful. Escaping in five replacements is escaping in one pass over the text, so
  that no replacement touches what another one wrote, and undoing it gives the text back; a reader of
  the block finds exactly the memories that were formatted, in order, with their types and contents, so
  no content can end its element early or pass for another memory.\<close>

theorem memory_block_roundtrip:
  "escapeXml s = concat (map xml_char s) \<and> read_text (escapeXml s) = s \<and>
   read_block (formatMemoryBlock ms) = Some (map (\<lambda>m. (mem_type m, mem_content m)) ms)"
proof (intro conjI)
  show "read_block (formatMemoryBlock ms) = Some (map (\<lambda>m. (mem_type m, mem_content m)) ms)"
  proof (cases "ms = []")
    case False
    let ?r = "concat (map (\<lambda>m. memory_element m @ [newline]) ms) @ block_close"
    have "formatMemoryBlock ms = block_open @ ?r"
      using False join_lines [of "map memory_element ms" newline block_close] by (simp add: formatMemoryBlock_def comp_def)
    moreover have "length ms < length ?r"
    proof -
      have "length ms \<le> length (concat (map (\<lambda>m. memory_element m @ [newline]) ms))"
        by (induction ms) simp_all
      then show ?thesis by (simp add: block_close_def)
    qed
    ultimately show ?thesis
      using read_memory_elements [of ms "length ?r"] by (simp add: read_block_def block_open_def strip_def)
  qed (simp add: formatMemoryBlock_def read_block_def)
qed (rule escape_one_pass, rule read_escape)

text \<open>
  The block goes after the first line of a prompt with several; taking it out again leaves the prompt,
  with one empty line more after the first.\<close>

lemma inject_multiline:
  assumes "ms \<noteq> []" "newline \<notin> set l"
  shows "injectMemoriesIntoPrompt (l @ newline # rest) ms = l @ [newline, newline] @ formatMemoryBlock ms @ newline # rest"
proof -
  have ls: "split_lines (l @ newline # rest) = l # split_lines rest" using assms(2) by (rule split_lines_append)
  have j: "join [newline] (split_lines rest) = rest"
  proof (induction rest)
    case (Cons c cs)
    then show ?case using split_lines_ne [of cs] by (cases "split_lines cs"; cases "tl (split_lines cs)") auto
  qed simp
  show ?thesis using assms split_lines_ne [of rest]
    by (simp add: injectMemoriesIntoPrompt_def ls j formatMemoryBlock_def block_open_def)
qed

lemma inject_none: "injectMemoriesIntoPrompt p [] = p"
  by (simp add: injectMemoriesIntoPrompt_def formatMemoryBlock_def)

end
