(* ===== verification/Decompose.thy ===== *)
theory Decompose
  imports Routing Decomposer Memory_Prompt
begin

text \<open>
  \<open>decompose\<close> of \<open>src/core/decomposer.ts\<close> as a whole: the prompt with the memory block, the routed call,
  the reading of the answer, and then \<open>decompose_parsed\<close>. The indexer client is what its three calls
  answer; an answer whose values are not of the shape that the cast claims is \<open>Outside\<close>, where the code
  goes on with wrongly typed values.
\<close>

section \<open>The prompt\<close>

definition decompose_prompt :: "string \<Rightarrow> string" where
  \<open>decompose_prompt memoryBlock = join [newline]
    [''You are a task decomposition engine. Given a user request, break it down into atomic, actionable tasks.'',
     memoryBlock,
     ''Output format: Return a JSON object with a "tasks" array. Each task must have:'',
     ''- id: A short kebab-case identifier (e.g., "setup-deps", "impl-core")'',
     ''- description: Clear description of what to do'',
     ''- estimatedComplexity: "low", "medium", or "high"'',
     ''- dependencies: Array of task IDs that must complete before this one'',
     ''- role: One of "research", "planning", "execution", or "verification". '',
     ''  - "research": Tasks that gather information, search docs, or explore codebase'',
     ''  - "planning": Tasks that decompose milestones, create plans, or design architecture'',
     ''  - "execution": Tasks that implement code, write files, or modify the codebase'',
     ''  - "verification": Tasks that test, review, audit, or validate implementations'',
     ''- files: Array of file paths likely to be created or modified (e.g., "src/main.ts", "tests/integration.test.ts"). Be specific but reasonable. Empty array if no files needed.'',
     '''',
     ''Rules:'',
     ''- Tasks should be independently implementable when dependencies are met'',
     ''- Prefer many small tasks over few large ones'',
     ''- Include setup, implementation, and verification tasks'',
     ''- Dependencies must reference valid task IDs'',
     '''',
     ''Example:'',
     ''{'',
     ''  "tasks": ['',
     ''    {'',
     ''      "id": "setup-project",'',
     ''      "description": "Initialize project structure and dependencies",'',
     ''      "estimatedComplexity": "low",'',
     ''      "dependencies": [],'',
     ''      "role": "execution",'',
     ''      "files": ["package.json", "tsconfig.json", "src/index.ts"]'',
     ''    },'',
     ''    {'',
     ''      "id": "impl-core",'',
     ''      "description": "Implement the core functionality",'',
     ''      "estimatedComplexity": "high",'',
     ''      "dependencies": ["setup-project"],'',
     ''      "role": "execution",'',
     ''      "files": ["src/core/handler.ts", "src/types.ts"]'',
     ''    }'',
     ''  ]'',
     ''}'']\<close>

definition decompose_messages :: "string \<Rightarrow> string \<Rightarrow> LLMMessage list" where
  "decompose_messages memoryBlock prompt =
    [\<lparr>msg_role = MSystem, msg_content = decompose_prompt memoryBlock\<rparr>,
     \<lparr>msg_role = MUser, msg_content = ''Decompose this request into tasks: '' @ prompt\<rparr>]"

text \<open>The client: \<open>searchMemory\<close>, what the broad search answers, \<open>getBlastRadius\<close>.\<close>

type_synonym indexer_answers =
  "((string \<Rightarrow> nat \<Rightarrow> string + Memory list) \<times> SearchResult list option \<times> (string \<Rightarrow> string list option)) option"

definition fetchMemoryBlock :: "indexer_answers \<Rightarrow> string \<Rightarrow> string" where
  "fetchMemoryBlock ix prompt = (case ix of None \<Rightarrow> [] | Some (searchMemory, _) \<Rightarrow> fetchAndFormatMemories prompt searchMemory)"

section \<open>Reading the answer\<close>

fun as_string :: "json \<Rightarrow> string option" where
  "as_string (JStr s) = Some s"
| "as_string v = None"

fun as_strings :: "json list \<Rightarrow> string list option" where
  "as_strings [] = Some []"
| "as_strings (v # vs) = (case (as_string v, as_strings vs) of (Some s, Some ss) \<Rightarrow> Some (s # ss) | _ \<Rightarrow> None)"

fun complexity_name :: "Complexity \<Rightarrow> string" where
  "complexity_name Low = ''low''"
| "complexity_name Medium = ''medium''"
| "complexity_name High = ''high''"

definition as_complexity :: "json \<Rightarrow> Complexity option" where
  "as_complexity v = (case v of JStr s \<Rightarrow> List.find (\<lambda>c. complexity_name c = s) [Low, Medium, High] | _ \<Rightarrow> None)"

text \<open>
  The dependencies as the \<open>for\<close> loop reads them, and the two lists of files as the tests read them; the
  outer \<open>None\<close> is a list with a value that is no string.\<close>

definition as_deps :: "json \<Rightarrow> string list option option" where
  "as_deps v = (case v of JArr vs \<Rightarrow> map_option Some (as_strings vs)
     | JStr s \<Rightarrow> Some (Some (map (\<lambda>c. [c]) s))
     | _ \<Rightarrow> Some None)"

definition as_files :: "json \<Rightarrow> string list option option" where
  "as_files v = (case v of JArr vs \<Rightarrow> map_option Some (as_strings vs) | _ \<Rightarrow> Some None)"

definition as_estimated :: "json \<Rightarrow> string list option option" where
  "as_estimated v = (case v of JArr vs \<Rightarrow> map_option Some (as_strings vs)
     | _ \<Rightarrow> if truthy v then None else Some None)"

definition raw_task :: "(string \<times> json) list \<Rightarrow> RawTask option" where
  "raw_task kvs = (let v = opt_get (JObj kvs) in
     case (as_string (v ''id''), as_string (v ''description''), as_complexity (v ''estimatedComplexity''),
           as_deps (v ''dependencies''), as_files (v ''files''), as_estimated (v ''estimatedFiles'')) of
       (Some i, Some d, Some c, Some ds, Some fs, Some es) \<Rightarrow>
         Some \<lparr>raw_id = i, raw_description = d, raw_complexity = c, raw_deps = ds,
           raw_role = (case v ''role'' of JStr (r # rs) \<Rightarrow> Some (r # rs) | _ \<Rightarrow> None), raw_files = fs, raw_estimated = es\<rparr>
     | _ \<Rightarrow> None)"

text \<open>Reading the names comes first, and throws on a \<open>null\<close> in the list.\<close>

fun raw_tasks :: "json list \<Rightarrow> RawTask list outcome_of" where
  "raw_tasks [] = Returns []"
| "raw_tasks (v # vs) = (case v of
     JNull \<Rightarrow> Throws type_error
   | JObj kvs \<Rightarrow> (case raw_tasks vs of Throws e \<Rightarrow> Throws e | Outside \<Rightarrow> Outside
       | Returns ts \<Rightarrow> (case raw_task kvs of None \<Rightarrow> Outside | Some t \<Rightarrow> Returns (t # ts)))
   | _ \<Rightarrow> (case raw_tasks vs of Throws e \<Rightarrow> Throws e | _ \<Rightarrow> Outside))"

record DecompositionResult =
  dr_tasks :: "DecomposedTask list"
  originalPrompt :: string

definition decomposed :: "string \<Rightarrow> string + DecomposedTask list \<Rightarrow> DecompositionResult outcome_of" where
  "decomposed prompt r = (case r of Inl e \<Rightarrow> Throws e | Inr ts \<Rightarrow> Returns \<lparr>dr_tasks = ts, originalPrompt = prompt\<rparr>)"

definition decompose_answer ::
  "indexer_answers \<Rightarrow> string list option \<Rightarrow> string \<Rightarrow> json \<Rightarrow> DecompositionResult outcome_of" where
  "decompose_answer ix found prompt answer =
    (let failed = ''Failed to parse LLM decomposition response: '' @ js_string answer;
         client = map_option snd ix
     in case as_string answer of None \<Rightarrow> Throws failed
     | Some c \<Rightarrow> (case json_parse (extract_json c) of None \<Rightarrow> Throws failed
       | Some v \<Rightarrow> (case js_get v ''tasks'' of Inl e \<Rightarrow> Throws e
         | Inr (JArr ts) \<Rightarrow> (case raw_tasks ts of Throws e \<Rightarrow> Throws e | Outside \<Rightarrow> Outside
             | Returns raws \<Rightarrow> decomposed prompt (decompose_parsed client found (Some raws)))
         | Inr _ \<Rightarrow> decomposed prompt (decompose_parsed client found None))))"

text \<open>\<open>decompose\<close>; \<open>None\<close> is a sampler that ran out of fuel.\<close>

definition decompose ::
  "key_store \<Rightarrow> sampler \<Rightarrow> string \<Rightarrow> (nat \<Rightarrow> attempt_world) \<Rightarrow> context_service \<Rightarrow> indexer_answers \<Rightarrow> string list option \<Rightarrow>
   string \<Rightarrow> router agents \<Rightarrow> (DecompositionResult outcome_of \<times> router agents) option" where
  "decompose key m now w service ix found prompt s =
    (let messages = decompose_messages (fetchMemoryBlock ix prompt) prompt in
     case routeTaskWithFallback key m now (router_call w service messages) Planning s of
       None \<Rightarrow> None
     | Some (Inl e, s1) \<Rightarrow> Some (Throws e, s1)
     | Some (Inr (p, resp), s1) \<Rightarrow> Some (decompose_answer ix found prompt (resp_content resp), s1))"

section \<open>What is read\<close>

text \<open>The JSON of a task.\<close>

definition strings_json :: "string list option \<Rightarrow> json" where
  "strings_json xs = (case xs of None \<Rightarrow> JUndef | Some ss \<Rightarrow> JArr (map JStr ss))"

definition task_fields :: "RawTask \<Rightarrow> (string \<times> json) list" where
  "task_fields t = [(''id'', JStr (raw_id t)), (''description'', JStr (raw_description t)),
     (''estimatedComplexity'', JStr (complexity_name (raw_complexity t))), (''dependencies'', strings_json (raw_deps t)),
     (''role'', case raw_role t of None \<Rightarrow> JUndef | Some r \<Rightarrow> JStr r), (''files'', strings_json (raw_files t)),
     (''estimatedFiles'', strings_json (raw_estimated t))]"

definition task_json :: "RawTask \<Rightarrow> json" where "task_json t = JObj (task_fields t)"

definition answer_json :: "RawTask list \<Rightarrow> json" where
  "answer_json raws = JObj [(''tasks'', JArr (map task_json raws))]"

lemma as_strings_JStr [simp]: "as_strings (map JStr ss) = Some ss"
  by (induction ss) simp_all

lemma strings_reparsed: "reparsed (strings_json xs) = strings_json xs"
  by (cases xs) (simp_all add: strings_json_def)

lemma strings_wf: "wf_json (strings_json xs)"
  by (cases xs) (simp_all add: strings_json_def list_all_iff)

lemma strings_undef: "strings_json xs = JUndef \<longleftrightarrow> xs = None"
  by (cases xs) (simp_all add: strings_json_def)

lemma complexity_read: "List.find (\<lambda>x. complexity_name x = complexity_name c) [Low, Medium, High] = Some c"
  by (cases c) simp_all

lemma task_json_wf: "wf_json (task_json t)"
  by (auto simp: task_json_def task_fields_def strings_wf split: option.split)

lemma field_read:
  "distinct (map fst kvs) \<Longrightarrow>
   opt_get (JObj (map (\<lambda>kv. (fst kv, reparsed (snd kv))) (filter (\<lambda>kv. snd kv \<noteq> JUndef) kvs))) k =
     (case dget kvs k of None \<Rightarrow> JUndef | Some v \<Rightarrow> reparsed v)"
proof (induction kvs)
  case (Cons kv kvs)
  moreover have "dget kvs k = None" if "k \<notin> fst ` set kvs" for k
    using that by (auto simp: dget_def map_of_eq_None_iff)
  ultimately show ?case by (cases kv) (auto simp: dget_Cons)
qed (simp add: dget_def)

lemma as_complexity_name [simp]: "as_complexity (JStr (complexity_name c)) = Some c"
  by (simp only: as_complexity_def json.case complexity_read)

lemma as_strings_json [simp]:
  "as_deps (strings_json xs) = Some xs" "as_files (strings_json xs) = Some xs" "as_estimated (strings_json xs) = Some xs"
  by (cases xs, simp_all add: as_deps_def as_files_def as_estimated_def strings_json_def)+

text \<open>A role in an answer is not the empty text.\<close>

lemma raw_task_json:
  assumes "raw_role t \<noteq> Some []"
  shows "\<exists>kvs. reparsed (task_json t) = JObj kvs \<and> raw_task kvs = Some t"
proof -
  have r: "(case reparsed (case raw_role t of None \<Rightarrow> JUndef | Some r \<Rightarrow> JStr r) of JStr (r # rs) \<Rightarrow> Some (r # rs) | _ \<Rightarrow> None) = raw_role t"
    using assms by (cases "raw_role t") (auto split: list.split)
  let ?kvs = "map (\<lambda>kv. (fst kv, reparsed (snd kv))) (filter (\<lambda>kv. snd kv \<noteq> JUndef) (task_fields t))"
  have "distinct (map fst (task_fields t))" by (simp add: task_fields_def)
  note f = field_read [OF this]
  have "raw_task ?kvs = Some t"
    unfolding raw_task_def Let_def f
    by (simp add: task_fields_def dget_Cons strings_reparsed r)
  then show ?thesis by (simp add: task_json_def)
qed

lemma raw_tasks_json: "list_all (\<lambda>t. raw_role t \<noteq> Some []) ts \<Longrightarrow> raw_tasks (map (\<lambda>t. reparsed (task_json t)) ts) = Returns ts"
proof (induction ts)
  case (Cons t ts)
  then show ?case using raw_task_json [of t] by auto
qed simp

lemma task_json_defined: "task_json t \<noteq> JUndef"
  by (simp add: task_json_def)

lemma read_answer_json:
  assumes "list_all (\<lambda>t. raw_role t \<noteq> Some []) ts" "skip_space r = []" "delim r"
  shows "\<exists>v. json_parse (stringify (answer_json ts) @ r) = Some v \<and>
    js_get v ''tasks'' = Inr (JArr (map (\<lambda>t. reparsed (task_json t)) ts))"
proof -
  have "wf_json (answer_json ts)" by (simp add: answer_json_def task_json_wf list_all_iff)
  then have "parse_value (2 * length (stringify (answer_json ts) @ r) + 2) (stringify (answer_json ts) @ r) =
      Some (reparsed (answer_json ts), r)"
    using assms(3) by (intro parse_stringify) (simp_all add: answer_json_def)
  then show ?thesis
    using assms(2) by (auto simp: json_parse_def answer_json_def dget_def comp_def task_json_defined)
qed

section \<open>Fences\<close>

lemma dropWhile_space: "\<not> is_space c \<Longrightarrow> dropWhile is_space (p @ c # r) = dropWhile is_space p @ c # r"
  by (induction p) auto

lemma trim_around:
  assumes "\<not> is_space c" "\<not> is_space d"
  shows "\<exists>p' q'. trim (p @ c # m @ d # q) = p' @ c # m @ d # q' \<and> set p' \<subseteq> set p"
proof -
  have "dropWhile is_space (p @ c # m @ d # q) = dropWhile is_space p @ c # m @ d # q"
    using dropWhile_space [OF assms(1), of p "m @ d # q"] by simp
  moreover have "dropWhile is_space (rev q @ d # rev m @ c # x) = dropWhile is_space (rev q) @ d # rev m @ c # x" for x
    by (rule dropWhile_space [OF assms(2)])
  ultimately have "trim (p @ c # m @ d # q) = dropWhile is_space p @ c # m @ d # rev (dropWhile is_space (rev q))"
    by (simp add: trim_def)
  moreover have "set (dropWhile is_space p) \<subseteq> set p" by (auto dest: set_dropWhileD)
  ultimately show ?thesis by blast
qed

lemma after_first_skip: "c \<notin> set p \<Longrightarrow> after_first (c # w) (p @ c # w @ r) = Some r"
  by (induction p) (auto simp: starts_with_def)

lemma before_first_none: "\<not> contains s w \<Longrightarrow> c \<notin> set w \<Longrightarrow> w \<noteq> [] \<Longrightarrow> before_first w (s @ c # w @ r) = Some (s @ [c])"
proof (induction s)
  case Nil
  then have "\<not> starts_with (c # w @ r) w" by (cases w) (auto simp: starts_with_def)
  moreover have "before_first w (w @ r) = Some []" using Nil by (cases w) (auto simp: starts_with_def)
  ultimately show ?case by simp
next
  case (Cons d s)
  have "\<not> starts_with (d # s @ c # w @ r) w"
  proof
    assume "starts_with (d # s @ c # w @ r) w"
    then obtain b where b: "d # s @ c # w @ r = w @ b" by (auto simp: starts_with_iff)
    have "prefix w (d # s)"
    proof (rule ccontr)
      assume n: "\<not> prefix w (d # s)"
      have "prefix w ((d # s) @ c # w @ r)" using b by (auto simp: prefix_def)
      with n obtain u where u: "w = (d # s) @ u" "prefix u (c # w @ r)" unfolding prefix_append by blast
      then show False using Cons.prems(2) n by (cases u) auto
    qed
    then show False using Cons.prems(1) by (auto simp: starts_with_iff prefix_def)
  qed
  then show ?case using Cons by simp
qed

lemma no_fence_after: "\<not> contains s w \<Longrightarrow> after_first w s = None"
  by (induction s) auto

lemma fenced_none: "\<not> contains s fence \<Longrightarrow> fenced (fence @ u) s = None"
  using no_fence_after [of s "fence @ u"] by (auto simp: fenced_def contains_iff)

lemma stringify_answer: "\<exists>m. stringify (answer_json ts) = CHR ''{'' # m @ ''}''"
  by (simp add: answer_json_def)

lemma extract_bare:
  assumes "\<not> contains (stringify (answer_json ts)) fence"
  shows "extract_json (stringify (answer_json ts)) = stringify (answer_json ts)"
proof -
  obtain m where m: "stringify (answer_json ts) = CHR ''{'' # m @ ''}''" using stringify_answer by blast
  have "trim (CHR ''{'' # m @ ''}'') = CHR ''{'' # m @ ''}''"
    by (simp add: trim_def is_space_def)
  then show ?thesis
    using fenced_none [OF assms, of "''json''"] fenced_none [OF assms, of "[]"] m by (simp add: extract_json_def Let_def)
qed

lemma extract_fenced:
  assumes "\<not> contains (stringify (answer_json ts)) fence" "CHR 0x60 \<notin> set pre"
  shows "extract_json (pre @ fence @ ''json'' @ newline # stringify (answer_json ts) @ newline # fence @ post) =
    stringify (answer_json ts) @ [newline]"
proof -
  let ?s = "stringify (answer_json ts)" and ?q = "CHR 0x60"
  obtain m where m: "?s = CHR ''{'' # m @ ''}''" using stringify_answer by blast
  let ?m = "[?q, ?q] @ ''json'' @ newline # ?s @ newline # [?q, ?q]"
  have "\<not> is_space ?q" by (simp add: is_space_def)
  then obtain p' q' where t: "trim (pre @ ?q # ?m @ ?q # post) = p' @ ?q # ?m @ ?q # q'" "set p' \<subseteq> set pre"
    using trim_around by blast
  have "after_first (?q # [?q, ?q] @ ''json'') (p' @ ?q # ([?q, ?q] @ ''json'') @ (newline # ?s @ newline # fence @ q')) =
      Some (newline # ?s @ newline # fence @ q')"
    using t(2) assms(2) by (intro after_first_skip) auto
  moreover have "dropWhile is_space (newline # ?s @ newline # fence @ q') = ?s @ newline # fence @ q'"
    by (simp add: m newline_def is_space_def)
  moreover have "before_first fence (?s @ newline # fence @ q') = Some (?s @ [newline])"
    by (rule before_first_none [OF assms(1)]) (simp_all add: fence_def newline_def)
  ultimately have "fenced (fence @ ''json'') (p' @ ?q # ?m @ ?q # q') = Some (?s @ [newline])"
    by (simp add: fenced_def fence_def)
  then show ?thesis using t(1) by (simp add: extract_json_def Let_def fence_def)
qed

text \<open>An answer is read as what was written. When a model answers with the JSON text of a list of tasks,
  bare or in a \<open>```json\<close> fence with prose around it, and no text in it has a fence of its own,
  \<open>decompose\<close> gets exactly those tasks and returns what validation, cycle search and enrichment make of
  them, with the prompt.\<close>

theorem decompose_reads_answer:
  assumes "list_all (\<lambda>t. raw_role t \<noteq> Some []) raws" "\<not> contains (stringify (answer_json raws)) fence"
    and "CHR 0x60 \<notin> set pre"
    and "routeTaskWithFallback key m now (router_call w service (decompose_messages (fetchMemoryBlock ix prompt) prompt))
      Planning s = Some (Inr (p, resp), s')"
    and "resp_content resp = JStr (stringify (answer_json raws)) \<or> resp_content resp = JStr
      (pre @ fence @ ''json'' @ newline # stringify (answer_json raws) @ newline # fence @ post)"
  shows "decompose key m now w service ix found prompt s =
    Some (decomposed prompt (decompose_parsed (map_option snd ix) found (Some raws)), s')"
proof -
  obtain c r where c: "resp_content resp = JStr c" "extract_json c = stringify (answer_json raws) @ r" "r = [] \<or> r = [newline]"
    using assms(5) extract_bare [OF assms(2)] extract_fenced [OF assms(2,3), of post] by (metis append_Nil2)
  have "skip_space r = []" "delim r" using c(3) by (auto simp: skip_space_def is_json_space_def newline_def delim_def is_number_char_def is_digit_def)
  from read_answer_json [OF assms(1) this] obtain v where v: "json_parse (extract_json c) = Some v"
      "js_get v ''tasks'' = Inr (JArr (map (\<lambda>t. reparsed (task_json t)) raws))"
    by (auto simp: c(2))
  then have "decompose_answer ix found prompt (resp_content resp) =
      decomposed prompt (decompose_parsed (map_option snd ix) found (Some raws))"
    by (simp add: decompose_answer_def c(1) raw_tasks_json [OF assms(1)] Let_def)
  then show ?thesis using assms(4) by (simp add: decompose_def Let_def)
qed

text \<open>A run through the built-in driver of the Claude command line, which needs no key.\<close>

definition demo_tasks :: "RawTask list" where "demo_tasks = [demo_raw ''a'' [], demo_raw ''b'' [''a'']]"

definition demo_cli :: "nat \<Rightarrow> attempt_world" where
  "demo_cli k = (\<lparr>net = (\<lambda>req. Inl []), drivers_file = None,
     run_process = (\<lambda>b args inp t. Exited (Some 0) (stringify (answer_json demo_tasks)) [])\<rparr>, id)"

lemma demo_tasks_text: "clean (stringify (answer_json demo_tasks)) = stringify (answer_json demo_tasks)"
  "\<not> contains (stringify (answer_json demo_tasks)) fence"
  by code_simp+

lemma demo_cli_completion:
  "\<exists>resp r'. completion demo_cli None None (Some ClaudeCodeCli) ms demo_router = (Inr resp, r') \<and>
     resp_content resp = JStr (stringify (answer_json demo_tasks))"
proof -
  have q: "quiet (demo_cli 0)" by (simp add: quiet_def demo_cli_def)
  have "dget (loadCliDriverRegistry None) ''claude-code-cli'' = Some (hd BUILTIN_CLI_DRIVERS)"
    by (simp add: loadCliDriverRegistry_def BUILTIN_CLI_DRIVERS_def dget_def dset_def)
  then have "\<exists>resp r1. callProvider (fst (demo_cli 0)) ClaudeCodeCli ms (selected ClaudeCodeCli demo_router) = (Inr resp, r1) \<and>
      resp_content resp = JStr (stringify (answer_json demo_tasks))"
    by (simp add: callProvider_def logLLMRequest_def dispatch_call_def router_callCliDriver_def demo_cli_def
        callCliDriver_def Let_def BUILTIN_CLI_DRIVERS_def demo_tasks_text selected_def)
  then obtain resp r1 where r: "callProvider (fst (demo_cli 0)) ClaudeCodeCli ms (selected ClaudeCodeCli demo_router) = (Inr resp, r1)"
      "resp_content resp = JStr (stringify (answer_json demo_tasks))" by blast
  then show ?thesis using try_success [OF q r(1)]
    by (simp add: completion_def selected_def optimized_messages_def logEvent_def Let_def)
qed

lemma demo_planning:
  "\<exists>route s1. routeTask (\<lambda>n. None) demo_sampler Planning (demo_agents demo_router) = Some (Inr route, s1) \<and>
     rr_provider route = ClaudeCodeCli \<and> reliable s1 \<and> world s1 = demo_router"
proof -
  have "selectBestProvider [KiroAi, Carnice9bLocal, ClaudeCodeCli, CodexCli, GeminiCli] TPlanning = Some ClaudeCodeCli"
    by code_simp
  then have "choose_provider (\<lambda>n. None) None TPlanning = (Some ClaudeCodeCli, False)"
    by (simp add: choose_provider_def demo_available validateToken_def)
  then show ?thesis
    by (simp add: routeTask_def pickViaThompson_def demo_available demo_agents_def new_stats_def ensureLoaded_def
        counts_of_def route_with_def Let_def and_then_def agent_log_event_def validateToken_def reliable_def)
qed

lemma decompose_reads_answer_witness:
  "\<exists>s'. decompose (\<lambda>n. None) demo_sampler ''t'' demo_cli None None None ''p'' (demo_agents demo_router) =
     Some (decomposed ''p'' (decompose_parsed None None (Some demo_tasks)), s')"
proof -
  let ?ms = "decompose_messages (fetchMemoryBlock None ''p'') ''p''"
  obtain route s1 where route: "routeTask (\<lambda>n. None) demo_sampler Planning (demo_agents demo_router) = Some (Inr route, s1)"
    "rr_provider route = ClaudeCodeCli" "reliable s1" "world s1 = demo_router"
    using demo_planning by blast
  obtain resp r' where resp: "completion demo_cli None None (Some ClaudeCodeCli) ?ms demo_router = (Inr resp, r')"
    "resp_content resp = JStr (stringify (answer_json demo_tasks))"
    using demo_cli_completion by blast
  then have "router_call demo_cli None ?ms (rr_provider route) (world s1) = (Inr resp, r')"
    by (simp add: router_call_def route)
  from execute_routed_answer [where call = "router_call demo_cli None ?ms" and route = route and key = "\<lambda>n. None" and now = "''t''" and role = Planning, OF route(3) this] obtain s' where
    "routeTaskWithFallback (\<lambda>n. None) demo_sampler ''t'' (router_call demo_cli None ?ms) Planning (demo_agents demo_router) =
      Some (Inr (ClaudeCodeCli, resp), s')"
    by (auto simp: routeTaskWithFallback_def route)
  from decompose_reads_answer [of demo_tasks "[]", OF _ demo_tasks_text(2) _ this, of "[]" None] resp(2)
  show ?thesis by (simp add: demo_tasks_def demo_raw_def)
qed

text \<open>A fence inside a task's text ends the JSON early, and the whole answer is refused.\<close>

lemma fence_in_description:
  "case decompose_answer None None ''p'' (JStr (fence @ ''json'' @ newline #
       stringify (answer_json [demo_raw ''a'' []\<lparr>raw_description := ''see ```x```''\<rparr>]) @ newline # fence)) of
     Throws e \<Rightarrow> contains e ''Failed to parse'' | _ \<Rightarrow> False"
  by code_simp

end
