(* ===== verification/Indexer_Client.thy ===== *)
theory Indexer_Client
  imports Ledger Js_Value Memory_Prompt "HOL-Library.Multiset"
begin

text \<open>
  \<open>src/core/indexer-client.ts\<close>: the client of the indexer daemon. What reaches the client from outside
  (a call of a method, an answer of the file system, an event of a socket or of the daemon's process, a
  timer) is an action, and \<open>perform\<close> is the code from that event to its next \<open>await\<close>; a run is a list of
  actions. An action whose event cannot occur in the state gives \<open>None\<close>. Sockets are counted, not told
  apart: any event of a socket may occur while one has not closed. Listeners of the client's events
  are taken not to call the client.
\<close>

section \<open>The event emitter\<close>

text \<open>
  A registered function: one given to \<open>on\<close>, or the wrapper, new at each call, that \<open>once\<close> registers. A
  name without an entry and one with an empty list are the same to every method.\<close>

datatype listener = Plain nat | Wrapper nat

type_synonym emitter = "(string, listener list) dict"

definition listeners :: "emitter \<Rightarrow> string \<Rightarrow> listener list" where
  "listeners em ev = (case dget em ev of None \<Rightarrow> [] | Some ls \<Rightarrow> ls)"

definition em_on :: "string \<Rightarrow> listener \<Rightarrow> emitter \<Rightarrow> emitter" where
  "em_on ev l em = dset ev (listeners em ev @ [l]) em"

text \<open>\<open>off\<close> takes the first occurrence out; the list is changed in place.\<close>

definition em_off :: "string \<Rightarrow> listener \<Rightarrow> emitter \<Rightarrow> emitter" where
  "em_off ev l em = dset ev (remove1 l (listeners em ev)) em"

definition em_once :: "string \<Rightarrow> nat \<Rightarrow> emitter \<Rightarrow> emitter" where
  "em_once ev w em = em_on ev (Wrapper w) em"

definition removeAllListeners :: "string option \<Rightarrow> emitter \<Rightarrow> emitter" where
  "removeAllListeners ev em = (case ev of Some (c # cs) \<Rightarrow> ddelete (c # cs) em | _ \<Rightarrow> [])"

text \<open>
  The loop of \<open>emit\<close> runs over the list by index while the wrappers it calls take themselves out of it:
  the functions called, and the list afterwards.\<close>

function emit_from :: "nat \<Rightarrow> listener list \<Rightarrow> listener list \<times> listener list" where
  "emit_from i ls = (if i < length ls then
     (let l = ls ! i; (called, ls') = emit_from (Suc i) (case l of Wrapper w \<Rightarrow> remove1 l ls | Plain f \<Rightarrow> ls)
      in (l # called, ls'))
   else ([], ls))"
  by pat_completeness auto
termination
  by (relation "measure (\<lambda>(i, ls). length ls - i)") (auto split: listener.split simp: length_remove1)

declare emit_from.simps [simp del]

definition em_emit :: "string \<Rightarrow> emitter \<Rightarrow> listener list \<times> emitter" where
  "em_emit ev em = (case emit_from 0 (listeners em ev) of (called, ls) \<Rightarrow>
     (called, if ev \<in> set (dkeys em) then dset ev ls em else em))"

section \<open>The client\<close>

datatype ConnectionState = Disconnected | Connecting | Connected | Reconnecting

datatype client_event = Ev_spawn | Ev_error string | Ev_state ConnectionState | Ev_connected | Ev_disconnected
  | Ev_socket_error string | Ev_reconnecting nat | Ev_reconnect_failed nat | Ev_parse_error string

definition MAX_RECONNECT_ATTEMPTS :: nat where "MAX_RECONNECT_ATTEMPTS = 5"
definition RECONNECT_DELAY_MS :: nat where "RECONNECT_DELAY_MS = 1000"
definition SOCKET_READY_DELAY_MS :: nat where "SOCKET_READY_DELAY_MS = 500"
definition REQUEST_TIMEOUT_MS :: nat where "REQUEST_TIMEOUT_MS = 30000"

text \<open>Where a call of \<open>connect\<close> waits.\<close>

datatype connect_phase = Checking | Making_dir | Spawning | Attempting

text \<open>
  Calls of \<open>connect\<close> and of \<open>sendRequest\<close> are numbered. \<open>calls\<close> are the connects that wait and
  \<open>conn_results\<close> what the others returned or threw; \<open>waiting\<close> the requests that wait for a connect;
  \<open>pending\<close> is \<open>pendingRequests\<close> with the call behind the two functions; \<open>answers\<close> is how the promises
  of the requests were settled, in order; \<open>timeouts\<close> and \<open>live_timers\<close> are the timers that run.\<close>

record client =
  cstate :: ConnectionState
  socket :: bool
  open_sockets :: nat
  daemon :: bool
  kills :: nat
  requestId :: nat
  pending :: "(nat, nat \<times> string) dict"
  reconnectAttempts :: nat
  reconnectTimer :: "nat option"
  live_timers :: "(nat, nat) dict"
  timer_count :: nat
  connectResolver :: "nat option"
  last_error :: "string option"
  next_call :: nat
  calls :: "(nat, connect_phase) dict"
  conn_results :: "(nat \<times> (string + bool)) list"
  waiting :: "(nat, nat \<times> string \<times> json) dict"
  answers :: "(nat \<times> (string + json)) list"
  timeouts :: "(nat \<times> string) list"
  lines_sent :: "string list"
  emitted :: "client_event list"

definition new_client :: client where
  "new_client = \<lparr>cstate = Disconnected, socket = False, open_sockets = 0, daemon = False, kills = 0, requestId = 0,
     pending = [], reconnectAttempts = 0, reconnectTimer = None, live_timers = [], timer_count = 0,
     connectResolver = None, last_error = None, next_call = 0, calls = [], conn_results = [], waiting = [],
     answers = [], timeouts = [], lines_sent = [], emitted = []\<rparr>"

definition emits :: "client_event \<Rightarrow> client \<Rightarrow> client" where
  "emits ev c = c\<lparr>emitted := emitted c @ [ev]\<rparr>"

definition setState :: "ConnectionState \<Rightarrow> client \<Rightarrow> client" where
  "setState st c = emits (Ev_state st) (c\<lparr>cstate := st\<rparr>)"

subsection \<open>Connecting\<close>

definition scheduleReconnect :: "client \<Rightarrow> client" where
  "scheduleReconnect c =
    (if MAX_RECONNECT_ATTEMPTS \<le> reconnectAttempts c then emits (Ev_reconnect_failed (reconnectAttempts c)) c
     else let c1 = emits (Ev_reconnecting (Suc (reconnectAttempts c)))
                (setState Reconnecting (c\<lparr>reconnectAttempts := Suc (reconnectAttempts c)\<rparr>))
          in c1\<lparr>reconnectTimer := Some (timer_count c1), timer_count := Suc (timer_count c1),
               live_timers := dset (timer_count c1) (RECONNECT_DELAY_MS * reconnectAttempts c1) (live_timers c1)\<rparr>)"

definition handleDisconnection :: "client \<Rightarrow> client" where
  "handleDisconnection c =
    (if cstate c = Connected \<or> cstate c = Connecting
     then scheduleReconnect (emits Ev_disconnected (setState Disconnected c)) else c)"

text \<open>\<open>connectResolver(b)\<close>, when there is one.\<close>

definition resolve_connect :: "bool \<Rightarrow> client \<Rightarrow> client" where
  "resolve_connect b c = (case connectResolver c of None \<Rightarrow> c
     | Some k \<Rightarrow> c\<lparr>connectResolver := None, calls := ddelete k (calls c),
         conn_results := conn_results c @ [(k, Inr b)]\<rparr>)"

definition attemptConnection :: "nat \<Rightarrow> client \<Rightarrow> client" where
  "attemptConnection k c = c\<lparr>connectResolver := Some k, socket := True, open_sockets := Suc (open_sockets c),
     calls := dset k Attempting (calls c)\<rparr>"

text \<open>A call of \<open>connect\<close> up to the test for the socket file; its number.\<close>

definition connect_call :: "client \<Rightarrow> nat \<times> client" where
  "connect_call c = (let k = next_call c; c1 = c\<lparr>next_call := Suc k\<rparr> in
     (k, if cstate c = Connected \<or> cstate c = Connecting
         then c1\<lparr>conn_results := conn_results c @ [(k, Inr (cstate c = Connected))]\<rparr>
         else (setState Connecting c1)\<lparr>calls := dset k Checking (calls c)\<rparr>))"

definition socket_checked :: "nat \<Rightarrow> bool \<Rightarrow> client \<Rightarrow> client" where
  "socket_checked k exists c = (if exists then attemptConnection k c
     else emits Ev_spawn (c\<lparr>calls := dset k Making_dir (calls c)\<rparr>))"

text \<open>
  In \<open>spawnDaemon\<close> the directory is made and the process is started; it ends when the delay is over, the
  process reports an error, or the directory cannot be made.\<close>

definition dir_made :: "nat \<Rightarrow> client \<Rightarrow> client" where
  "dir_made k c = c\<lparr>daemon := True, calls := dset k Spawning (calls c)\<rparr>"

definition spawn_ready :: "nat \<Rightarrow> client \<Rightarrow> client" where
  "spawn_ready k c = attemptConnection k c"

definition connect_throws :: "nat \<Rightarrow> string \<Rightarrow> client \<Rightarrow> client" where
  "connect_throws k e c = c\<lparr>calls := ddelete k (calls c), conn_results := conn_results c @ [(k, Inl e)]\<rparr>"

definition process_error :: "string \<Rightarrow> client \<Rightarrow> client" where
  "process_error e c = emits (Ev_error e) (c\<lparr>last_error := Some e\<rparr>)"

definition spawn_error :: "nat \<Rightarrow> string \<Rightarrow> client \<Rightarrow> client" where
  "spawn_error k e c = connect_throws k e (process_error e c)"

definition on_socket_connect :: "client \<Rightarrow> client" where
  "on_socket_connect c =
     resolve_connect True (emits Ev_connected ((setState Connected c)\<lparr>reconnectAttempts := 0\<rparr>))"

definition on_socket_error :: "string \<Rightarrow> client \<Rightarrow> client" where
  "on_socket_error e c = (let c1 = emits (Ev_socket_error e) (c\<lparr>last_error := Some e\<rparr>)
     in resolve_connect False (if cstate c1 \<noteq> Reconnecting then handleDisconnection c1 else c1))"

definition on_socket_close :: "client \<Rightarrow> client" where
  "on_socket_close c = handleDisconnection (c\<lparr>open_sockets := open_sockets c - 1\<rparr>)"

definition client_disconnect :: "client \<Rightarrow> client" where
  "client_disconnect c =
    (let c1 = (case reconnectTimer c of None \<Rightarrow> c
               | Some t \<Rightarrow> c\<lparr>live_timers := ddelete t (live_timers c), reconnectTimer := None\<rparr>);
         c2 = c1\<lparr>socket := False, kills := (if daemon c1 then Suc (kills c1) else kills c1)\<rparr>
     in emits Ev_disconnected (setState Disconnected c2))"

subsection \<open>Requests\<close>

datatype rpc = Ping json | Shutdown | Embed string | Search string nat | Index_file string | Get_blast_radius string
  | Get_file_signatures string | Store_memory string MemoryType | Search_memory string nat

definition num :: "nat \<Rightarrow> json" where "num n = JNum (show_nat n)"

fun rpc_method :: "rpc \<Rightarrow> string" where
  "rpc_method (Ping v) = ''ping''"
| "rpc_method Shutdown = ''shutdown''"
| "rpc_method (Embed t) = ''embed''"
| "rpc_method (Search q k) = ''search''"
| "rpc_method (Index_file p) = ''index_file''"
| "rpc_method (Get_blast_radius t) = ''get_blast_radius''"
| "rpc_method (Get_file_signatures p) = ''get_file_signatures''"
| "rpc_method (Store_memory t ty) = ''store_memory''"
| "rpc_method (Search_memory q k) = ''search_memory''"

fun rpc_params :: "rpc \<Rightarrow> json" where
  "rpc_params (Ping v) = v"
| "rpc_params Shutdown = JUndef"
| "rpc_params (Embed t) = JObj [(''text'', JStr t)]"
| "rpc_params (Search q k) = JObj [(''query'', JStr q), (''k'', num k)]"
| "rpc_params (Index_file p) = JObj [(''path'', JStr p)]"
| "rpc_params (Get_blast_radius t) = JObj [(''target'', JStr t)]"
| "rpc_params (Get_file_signatures p) = JObj [(''file_path'', JStr p)]"
| "rpc_params (Store_memory t ty) = JObj [(''content'', JStr t), (''memory_type'', JStr (memory_type ty))]"
| "rpc_params (Search_memory q k) = JObj [(''query'', JStr q), (''top_k'', num k)]"

text \<open>What the method makes of the result; \<open>shutdown\<close> disconnects first.\<close>

fun rpc_result :: "rpc \<Rightarrow> json \<Rightarrow> string + json" where
  "rpc_result (Search q k) v = js_get v ''results''"
| "rpc_result (Store_memory t ty) v = js_get v ''memory_id''"
| "rpc_result (Search_memory q k) v = js_get v ''memories''"
| "rpc_result c v = Inr v"

definition rpc_after :: "rpc \<Rightarrow> client \<Rightarrow> client" where
  "rpc_after m c = (if m = Shutdown then client_disconnect c else c)"

definition request_line :: "nat \<Rightarrow> string \<Rightarrow> json \<Rightarrow> string" where
  "request_line i method params = stringify (JObj [(''jsonrpc'', JStr ''2.0''), (''method'', JStr method),
     (''params'', params), (''id'', num i)]) @ [newline]"

text \<open>The part of \<open>sendRequest\<close> after the connection, for the call \<open>r\<close>.\<close>

definition transmit :: "nat \<Rightarrow> string \<Rightarrow> json \<Rightarrow> client \<Rightarrow> client" where
  "transmit r method params c = (let i = Suc (requestId c); c1 = c\<lparr>requestId := i\<rparr> in
     if \<not> socket c then c1\<lparr>answers := answers c @ [(r, Inl ''Not connected'')]\<rparr>
     else c1\<lparr>pending := dset i (r, method) (pending c), lines_sent := lines_sent c @ [request_line i method params],
            timeouts := timeouts c @ [(i, method)]\<rparr>)"

definition sendRequest :: "string \<Rightarrow> json \<Rightarrow> client \<Rightarrow> client" where
  "sendRequest method params c = (let r = next_call c; c1 = c\<lparr>next_call := Suc r\<rparr> in
     if cstate c = Connected then transmit r method params c1
     else case connect_call c1 of (k, c2) \<Rightarrow> c2\<lparr>waiting := dset r (k, method, params) (waiting c)\<rparr>)"

text \<open>A request goes on when the connect that it waits for has ended.\<close>

definition resume :: "nat \<Rightarrow> client \<Rightarrow> client option" where
  "resume r c = (case dget (waiting c) r of None \<Rightarrow> None
     | Some (k, method, params) \<Rightarrow> (let c1 = c\<lparr>waiting := ddelete r (waiting c)\<rparr> in
         case dget (conn_results c) k of None \<Rightarrow> None
         | Some (Inl e) \<Rightarrow> Some (c1\<lparr>answers := answers c @ [(r, Inl e)]\<rparr>)
         | Some (Inr False) \<Rightarrow> Some (c1\<lparr>answers := answers c @ [(r, Inl ''Failed to connect to indexer daemon'')]\<rparr>)
         | Some (Inr True) \<Rightarrow> Some (transmit r method params c1)))"

text \<open>\<open>pending.reject\<close> or \<open>pending.resolve\<close> with the deletion of the entry.\<close>

definition settle_request :: "nat \<Rightarrow> string + json \<Rightarrow> client \<Rightarrow> client" where
  "settle_request i a c = (case dget (pending c) i of None \<Rightarrow> c
     | Some (r, method) \<Rightarrow> c\<lparr>pending := ddelete i (pending c), answers := answers c @ [(r, a)]\<rparr>)"

definition request_timeout :: "nat \<Rightarrow> string \<Rightarrow> client \<Rightarrow> client" where
  "request_timeout i method c = settle_request i (Inl (''Request timeout: '' @ method))
     (c\<lparr>timeouts := removeAll (i, method) (timeouts c)\<rparr>)"

text \<open>The key of \<open>pendingRequests\<close> that the \<open>id\<close> of a response is, if it can be one.\<close>

definition id_key :: "json \<Rightarrow> nat option" where
  "id_key v = (case v of JNum t \<Rightarrow> (let x = number_value t in
       if 0 \<le> x \<and> of_int \<lfloor>x\<rfloor> = x then Some (nat \<lfloor>x\<rfloor>) else None)
     | _ \<Rightarrow> None)"

definition response_outcome :: "json \<Rightarrow> string + json" where
  "response_outcome v = (let e = opt_get v ''error'' in
     if truthy e then Inl (''JSON-RPC error: '' @ js_string (opt_get e ''message'') @ '' (code: '' @
       js_string (opt_get e ''code'') @ '')'')
     else Inr (opt_get v ''result''))"

definition handle_line :: "string \<Rightarrow> client \<Rightarrow> client" where
  "handle_line line c = (case json_parse line of None \<Rightarrow> emits (Ev_parse_error line) c
     | Some v \<Rightarrow> (case js_get v ''id'' of Inl e \<Rightarrow> emits (Ev_parse_error line) c
       | Inr w \<Rightarrow> (case id_key w of None \<Rightarrow> c | Some i \<Rightarrow> settle_request i (response_outcome v) c)))"

definition handleData :: "string \<Rightarrow> client \<Rightarrow> client" where
  "handleData data c = fold handle_line (filter (\<lambda>l. trim l \<noteq> []) (split_lines data)) c"

subsection \<open>Runs\<close>

datatype action = A_connect | A_request rpc | A_resume nat | A_checked nat bool | A_dir_made nat | A_spawned nat | A_spawn_error nat string
  | A_mkdir_failed nat string | A_process_error string | A_socket_connect | A_socket_error string | A_socket_close
  | A_data string | A_write_failed nat string | A_timeout nat string | A_reconnect nat | A_disconnect

definition guarded :: "bool \<Rightarrow> 'a \<Rightarrow> 'a option" where
  "guarded b x = (if b then Some x else None)"

fun perform :: "action \<Rightarrow> client \<Rightarrow> client option" where
  "perform A_connect c = Some (snd (connect_call c))"
| "perform (A_request m) c = Some (sendRequest (rpc_method m) (rpc_params m) c)"
| "perform (A_resume r) c = resume r c"
| "perform (A_checked k e) c = guarded (dget (calls c) k = Some Checking) (socket_checked k e c)"
| "perform (A_dir_made k) c = guarded (dget (calls c) k = Some Making_dir) (dir_made k c)"
| "perform (A_spawned k) c = guarded (dget (calls c) k = Some Spawning) (spawn_ready k c)"
| "perform (A_spawn_error k e) c = guarded (dget (calls c) k = Some Spawning) (spawn_error k e c)"
| "perform (A_mkdir_failed k e) c = guarded (dget (calls c) k = Some Making_dir) (connect_throws k e c)"
| "perform (A_process_error e) c = guarded (daemon c) (process_error e c)"
| "perform A_socket_connect c = guarded (0 < open_sockets c) (on_socket_connect c)"
| "perform (A_socket_error e) c = guarded (0 < open_sockets c) (on_socket_error e c)"
| "perform A_socket_close c = guarded (0 < open_sockets c) (on_socket_close c)"
| "perform (A_data d) c = guarded (0 < open_sockets c) (handleData d c)"
| "perform (A_write_failed i e) c = guarded (0 < i \<and> i \<le> requestId c) (settle_request i (Inl e) c)"
| "perform (A_timeout i m) c = guarded ((i, m) \<in> set (timeouts c)) (request_timeout i m c)"
| "perform (A_reconnect t) c = guarded (dget (live_timers c) t \<noteq> None)
     (snd (connect_call (c\<lparr>live_timers := ddelete t (live_timers c)\<rparr>)))"
| "perform A_disconnect c = Some (client_disconnect c)"

fun run_client :: "action list \<Rightarrow> client \<Rightarrow> client option" where
  "run_client [] c = Some c"
| "run_client (a # as) c = (case perform a c of None \<Rightarrow> None | Some c' \<Rightarrow> run_client as c')"

section \<open>Every request is settled once\<close>

definition is_request :: "action \<Rightarrow> bool" where
  "is_request a = (case a of A_request m \<Rightarrow> True | _ \<Rightarrow> False)"

definition request_count :: "action list \<Rightarrow> nat" where
  "request_count as = length (filter is_request as)"

text \<open>The calls of \<open>sendRequest\<close> that were settled, that wait for their answer, that wait for a connection.\<close>

definition req_calls :: "client \<Rightarrow> nat list" where
  "req_calls c = map fst (answers c) @ map (\<lambda>x. fst (snd x)) (pending c) @ dkeys (waiting c)"

definition client_ok :: "client \<Rightarrow> bool" where
  "client_ok c \<longleftrightarrow> distinct (req_calls c) \<and> (\<forall>r \<in> set (req_calls c). r < next_call c) \<and> distinct (dkeys (pending c)) \<and>
     (\<forall>i r m. (i, r, m) \<in> set (pending c) \<longrightarrow> i \<le> requestId c \<and> (i, m) \<in> set (timeouts c)) \<and>
     reconnectAttempts c \<le> MAX_RECONNECT_ATTEMPTS"

text \<open>The part of a state that the connection code leaves alone.\<close>

definition same_requests :: "client \<Rightarrow> client \<Rightarrow> bool" where
  "same_requests c c' \<longleftrightarrow> pending c' = pending c \<and> waiting c' = waiting c \<and> answers c' = answers c \<and>
     timeouts c' = timeouts c \<and> requestId c' = requestId c \<and> next_call c \<le> next_call c' \<and>
     (reconnectAttempts c \<le> MAX_RECONNECT_ATTEMPTS \<longrightarrow> reconnectAttempts c' \<le> MAX_RECONNECT_ATTEMPTS)"

lemmas connection_defs = emits_def setState_def scheduleReconnect_def handleDisconnection_def resolve_connect_def
  attemptConnection_def connect_call_def socket_checked_def dir_made_def spawn_ready_def connect_throws_def process_error_def
  spawn_error_def on_socket_connect_def on_socket_error_def on_socket_close_def client_disconnect_def

lemma same_requests_refl [simp]: "same_requests c c"
  by (simp add: same_requests_def)

lemma same_requests_trans: "same_requests c d \<Longrightarrow> same_requests d e \<Longrightarrow> same_requests c e"
  by (auto simp: same_requests_def)

lemma connection_same [simp]:
  "same_requests c (emits ev c)" "same_requests c (setState st c)" "same_requests c (scheduleReconnect c)"
  "same_requests c (handleDisconnection c)" "same_requests c (resolve_connect b c)"
  "same_requests c (attemptConnection k c)" "same_requests c (snd (connect_call c))"
  "same_requests c (socket_checked k e c)" "same_requests c (dir_made k c)" "same_requests c (spawn_ready k c)"
  "same_requests c (connect_throws k x c)"
  "same_requests c (process_error x c)" "same_requests c (spawn_error k x c)" "same_requests c (on_socket_connect c)"
  "same_requests c (on_socket_error x c)" "same_requests c (on_socket_close c)" "same_requests c (client_disconnect c)"
  by (simp_all add: same_requests_def connection_defs Let_def split: option.split)

lemma same_requests_ok: "same_requests c c' \<Longrightarrow> client_ok c \<Longrightarrow> client_ok c' \<and> mset (req_calls c') = mset (req_calls c)"
proof -
  assume s: "same_requests c c'" and ok: "client_ok c"
  have r: "req_calls c' = req_calls c" using s by (simp add: same_requests_def req_calls_def)
  have "r < next_call c'" if "r \<in> set (req_calls c)" for r
    using s ok that unfolding client_ok_def same_requests_def by (meson less_le_trans)
  then have "client_ok c'" using s ok unfolding client_ok_def r by (simp add: same_requests_def)
  with r show ?thesis by simp
qed

lemmas connection_ok = connection_same [THEN same_requests_ok]

lemma dget_split:
  assumes "distinct (dkeys m)" "dget m k = Some v"
  shows "\<exists>xs ys. m = xs @ (k, v) # ys \<and> ddelete k m = xs @ ys"
proof -
  have "(k, v) \<in> set m" using assms(2) by (simp add: dget_def map_of_SomeD)
  then obtain xs ys where m: "m = xs @ (k, v) # ys" by (auto simp: in_set_conv_decomp)
  with assms(1) have "k \<notin> set (dkeys xs)" "k \<notin> set (dkeys ys)" by (auto simp: dkeys_def)
  then have "ddelete k xs = xs" "ddelete k ys = ys"
    by (force simp: ddelete_def dkeys_def AList.delete_eq intro!: filter_True)+
  with m show ?thesis by (auto simp: ddelete_def AList.delete_eq)
qed

lemma settle_ok:
  assumes "client_ok (c\<lparr>timeouts := ts\<rparr>)" "\<And>j r m. (j, r, m) \<in> set (pending c) \<Longrightarrow> j = i \<or> (j, m) \<in> set (timeouts c)"
    and "dget (pending c) i = None \<longrightarrow> timeouts c = ts \<or> client_ok c"
  shows "client_ok (settle_request i a c) \<and> mset (req_calls (settle_request i a c)) = mset (req_calls c) \<and>
    (dget (pending c) i = Some (r, m) \<longrightarrow> (r, a) \<in> set (answers (settle_request i a c)))"
proof (cases "dget (pending c) i")
  case None
  with assms(1,3) show ?thesis by (auto simp: settle_request_def)
next
  case (Some v)
  obtain q n where v: "v = (q, n)" by force
  obtain xs ys where m: "pending c = xs @ (i, q, n) # ys" "ddelete i (pending c) = xs @ ys"
    using dget_split [of "pending c" i v] Some assms(1) v by (auto simp: client_ok_def)
  have s: "settle_request i a c = c\<lparr>pending := xs @ ys, answers := answers c @ [(q, a)]\<rparr>"
    using Some v m by (simp add: settle_request_def)
  have "i \<notin> set (dkeys xs) \<union> set (dkeys ys)" using assms(1) by (auto simp: client_ok_def m dkeys_def)
  then have n: "j \<noteq> i" if "(j, x) \<in> set (xs @ ys)" for j x using that by (force simp: dkeys_def)
  have t: "(j, m) \<in> set (timeouts c)" if "(j, r, m) \<in> set (xs @ ys)" for j r m
    using assms(2) [of j r m] n [OF that] that by (auto simp: m)
  have e: "mset (req_calls (settle_request i a c)) = mset (req_calls c)"
    by (simp add: s req_calls_def m)
  then have d: "distinct (req_calls (settle_request i a c))" "set (req_calls (settle_request i a c)) = set (req_calls c)"
  proof -
    have "distinct (req_calls c)" using assms(1) by (simp add: client_ok_def req_calls_def)
    then show "distinct (req_calls (settle_request i a c))" using mset_eq_imp_distinct_iff [OF e] by simp
  qed (rule mset_eq_setD [OF e])
  have "client_ok (settle_request i a c)"
    unfolding client_ok_def d(2)
    using assms(1) d(1) t by (auto simp: s client_ok_def m dkeys_def req_calls_def)
  with e Some v show ?thesis by (simp add: s)
qed

lemma settle_request_ok:
  assumes "client_ok c"
  shows "client_ok (settle_request i a c) \<and> mset (req_calls (settle_request i a c)) = mset (req_calls c)"
proof -
  have "client_ok (c\<lparr>timeouts := timeouts c\<rparr>)" using assms by simp
  moreover have "j = i \<or> (j, m) \<in> set (timeouts c)" if "(j, r, m) \<in> set (pending c)" for j r m
    using assms that by (auto simp: client_ok_def)
  ultimately show ?thesis using settle_ok [where c = c and ts = "timeouts c" and i = i and a = a] by blast
qed

lemma timeout_ok:
  assumes "client_ok c"
  shows "client_ok (request_timeout i m c) \<and> mset (req_calls (request_timeout i m c)) = mset (req_calls c) \<and>
    (dget (pending c) i = Some (r, m) \<longrightarrow> r \<in> fst ` set (answers (request_timeout i m c)))"
proof -
  let ?c = "c\<lparr>timeouts := removeAll (i, m) (timeouts c)\<rparr>"
  have "client_ok (?c\<lparr>timeouts := timeouts c\<rparr>)" using assms by simp
  moreover have "j = i \<or> (j, n) \<in> set (timeouts ?c)" if "(j, r, n) \<in> set (pending ?c)" for j r n
    using assms that by (auto simp: client_ok_def)
  moreover have "dget (pending ?c) i = None \<longrightarrow> client_ok ?c"
  proof
    assume "dget (pending ?c) i = None"
    then have "i \<notin> fst ` set (pending c)" by (simp add: dget_def map_of_eq_None_iff)
    then have "j \<noteq> i" if "(j, x) \<in> set (pending c)" for j x using that by force
    then show "client_ok ?c" using assms by (fastforce simp: client_ok_def req_calls_def)
  qed
  ultimately show ?thesis
    using settle_ok [where c = ?c and ts = "timeouts c" and i = i and a = "Inl (''Request timeout: '' @ m)" and r = r and m = m]
    by (simp add: request_timeout_def req_calls_def image_iff) (metis fst_conv)
qed

lemma handle_line_ok: "client_ok c \<Longrightarrow> client_ok (handle_line l c) \<and> mset (req_calls (handle_line l c)) = mset (req_calls c)"
  using settle_request_ok same_requests_ok [OF connection_same(1)]
  by (simp add: handle_line_def split: option.split sum.split)

lemma handleData_ok: "client_ok c \<Longrightarrow> client_ok (handleData d c) \<and> mset (req_calls (handleData d c)) = mset (req_calls c)"
proof -
  have "client_ok c \<Longrightarrow> client_ok (fold handle_line ls c) \<and> mset (req_calls (fold handle_line ls c)) = mset (req_calls c)" for ls
  proof (induction ls arbitrary: c)
    case (Cons l ls)
    then show ?case using handle_line_ok [of c l] Cons.IH [of "handle_line l c"] by simp
  qed simp
  then show "client_ok c \<Longrightarrow> ?thesis" by (simp add: handleData_def)
qed

lemma new_call_ok:
  assumes "client_ok c" "pending c' = pending c" "timeouts c' = timeouts c" "requestId c' = requestId c"
    and "reconnectAttempts c' = reconnectAttempts c" "next_call c < next_call c'"
    and "mset (req_calls c') = add_mset (next_call c) (mset (req_calls c))"
  shows "client_ok c'"
proof -
  have e: "mset (req_calls c') = mset (next_call c # req_calls c)" using assms(7) by simp
  have "next_call c \<notin> set (req_calls c)" using assms(1) by (auto simp: client_ok_def)
  with assms(1) have "distinct (next_call c # req_calls c)" by (simp add: client_ok_def)
  then have "distinct (req_calls c')" using mset_eq_imp_distinct_iff [OF e] by simp
  moreover have "set (req_calls c') = insert (next_call c) (set (req_calls c))" using mset_eq_setD [OF e] by simp
  ultimately show ?thesis using assms by (fastforce simp: client_ok_def)
qed

text \<open>Sending takes a call that is not counted yet and makes it pending or answered.\<close>

lemma transmit_ok:
  assumes "client_ok c" "r \<notin> set (req_calls c)" "r < next_call c"
  shows "client_ok (transmit r me p c) \<and> mset (req_calls (transmit r me p c)) = add_mset r (mset (req_calls c))"
proof -
  have f: "Suc (requestId c) \<notin> set (dkeys (pending c))"
    using assms(1) by (fastforce simp: client_ok_def dkeys_def)
  then have d: "dset (Suc (requestId c)) x (pending c) = pending c @ [(Suc (requestId c), x)]" for x
    by (rule dset_fresh)
  have e: "mset (req_calls (transmit r me p c)) = mset (r # req_calls c)"
    by (simp add: transmit_def Let_def req_calls_def d)
  have "distinct (r # req_calls c)" using assms(1,2) by (simp add: client_ok_def)
  then have "distinct (req_calls (transmit r me p c))" using mset_eq_imp_distinct_iff [OF e] by simp
  moreover have "set (req_calls (transmit r me p c)) = insert r (set (req_calls c))" using mset_eq_setD [OF e] by simp
  ultimately have "client_ok (transmit r me p c)"
    using assms f by (auto simp: client_ok_def transmit_def Let_def d) (fastforce simp: dkeys_def)+
  with e show ?thesis by simp
qed

lemma sendRequest_ok:
  assumes "client_ok c"
  shows "client_ok (sendRequest me p c) \<and> size (mset (req_calls (sendRequest me p c))) = Suc (size (mset (req_calls c)))"
proof (cases "cstate c = Connected")
  case True
  let ?c = "c\<lparr>next_call := Suc (next_call c)\<rparr>"
  have "client_ok ?c" "mset (req_calls ?c) = mset (req_calls c)"
    using same_requests_ok [of c ?c] assms by (simp_all add: same_requests_def)
  moreover have "next_call c \<notin> set (req_calls ?c)" using assms by (auto simp: client_ok_def req_calls_def)
  ultimately show ?thesis
    using transmit_ok [of ?c "next_call c" me p] True by (simp add: sendRequest_def Let_def del: size_mset)
next
  case False
  let ?c = "c\<lparr>next_call := Suc (next_call c)\<rparr>"
  define k c2 where "k = fst (connect_call ?c)" and "c2 = snd (connect_call ?c)"
  have s: "same_requests ?c c2" by (simp add: c2_def)
  have "next_call c \<notin> set (dkeys (waiting c))" using assms by (auto simp: client_ok_def req_calls_def)
  then have "dset (next_call c) x (waiting c) = waiting c @ [(next_call c, x)]" for x by (rule dset_fresh)
  moreover have eq: "sendRequest me p c = c2\<lparr>waiting := dset (next_call c) (k, me, p) (waiting c)\<rparr>"
    using False by (simp add: sendRequest_def Let_def k_def c2_def split: prod.split)
  moreover have "reconnectAttempts c2 = reconnectAttempts c"
    by (simp add: c2_def connect_call_def setState_def emits_def Let_def)
  ultimately have "mset (req_calls (sendRequest me p c)) = add_mset (next_call c) (mset (req_calls c))"
      "client_ok (sendRequest me p c)"
    using s by (auto simp: same_requests_def req_calls_def dkeys_def intro!: new_call_ok [OF assms])
  then show ?thesis by (simp del: size_mset)
qed

lemma resume_ok:
  assumes "client_ok c" "resume r c = Some c'"
  shows "client_ok c' \<and> mset (req_calls c') = mset (req_calls c)"
proof -
  obtain k me p where w: "dget (waiting c) r = Some (k, me, p)"
    using assms(2) by (auto simp: resume_def split: option.splits)
  have "distinct (dkeys (waiting c))" using assms(1) by (simp add: client_ok_def req_calls_def)
  from dget_split [OF this w] obtain xs ys where s: "waiting c = xs @ (r, k, me, p) # ys" "ddelete r (waiting c) = xs @ ys"
    by blast
  let ?c = "c\<lparr>waiting := xs @ ys\<rparr>"
  have m: "mset (r # req_calls ?c) = mset (req_calls c)" by (simp add: req_calls_def s dkeys_def)
  then have d: "distinct (r # req_calls ?c)" "set (r # req_calls ?c) = set (req_calls c)"
    using assms(1) mset_eq_imp_distinct_iff [OF m] mset_eq_setD [OF m] by (auto simp: client_ok_def)
  then have "r < next_call c" using assms(1) by (auto simp: client_ok_def)
  have ok: "client_ok ?c" using assms(1) d by (auto simp: client_ok_def)
  consider a where "c' = ?c\<lparr>answers := answers c @ [(r, a)]\<rparr>" | "c' = transmit r me p ?c"
    using assms(2) unfolding resume_def w by (auto simp: s(2) Let_def split: option.splits sum.splits bool.splits)
  then show ?thesis
  proof cases
    case 1
    then have e: "mset (req_calls c') = mset (req_calls c)" using m by (simp add: req_calls_def)
    then have "distinct (req_calls c')" "set (req_calls c') = set (req_calls c)"
      using assms(1) mset_eq_imp_distinct_iff [OF e] mset_eq_setD [OF e] by (auto simp: client_ok_def)
    then have "client_ok c'" using assms(1) 1 by (auto simp: client_ok_def)
    with e show ?thesis by simp
  next
    case 2
    then show ?thesis using transmit_ok [OF ok, of r me p] d(1) \<open>r < next_call c\<close> m by simp
  qed
qed

lemma perform_ok:
  assumes "client_ok c" "perform a c = Some c'"
  shows "client_ok c' \<and> length (req_calls c') = (if is_request a then Suc (length (req_calls c)) else length (req_calls c))"
proof -
  have "client_ok c' \<and> size (mset (req_calls c')) = (if is_request a then Suc (size (mset (req_calls c))) else size (mset (req_calls c)))"
    using assms(2)
  proof (cases a)
    case (A_request m)
    with assms sendRequest_ok [OF assms(1), of "rpc_method m" "rpc_params m"] show ?thesis by (auto simp: is_request_def)
  next
    case (A_resume r)
    with assms resume_ok [of c r c'] show ?thesis by (simp add: is_request_def)
  next
    case (A_reconnect t)
    let ?c = "c\<lparr>live_timers := ddelete t (live_timers c)\<rparr>"
    have "same_requests c ?c" by (simp add: same_requests_def)
    then have "same_requests c (snd (connect_call ?c))" using same_requests_trans connection_same(7) by blast
    with A_reconnect assms show ?thesis
      using same_requests_ok [of c "snd (connect_call ?c)"] by (auto simp: is_request_def guarded_def simp del: size_mset split: if_splits)
  next
    case (A_write_failed i e)
    with assms settle_request_ok show ?thesis by (auto simp: is_request_def guarded_def simp del: size_mset split: if_splits)
  next
    case (A_timeout i m)
    with assms timeout_ok show ?thesis by (auto simp: is_request_def guarded_def simp del: size_mset split: if_splits)
  next
    case (A_data d)
    with assms handleData_ok show ?thesis by (auto simp: is_request_def guarded_def simp del: size_mset split: if_splits)
  qed (use assms in \<open>auto simp: is_request_def guarded_def connection_ok simp del: size_mset split: if_splits\<close>)
  then show ?thesis by simp
qed

lemma run_client_ok:
  "client_ok c \<Longrightarrow> run_client as c = Some c' \<Longrightarrow> client_ok c' \<and> length (req_calls c') = length (req_calls c) + request_count as"
proof (induction as arbitrary: c)
  case (Cons a as)
  then obtain d where d: "perform a c = Some d" "run_client as d = Some c'" by (auto split: option.splits)
  with perform_ok [OF Cons.prems(1) d(1)] Cons.IH [of d] show ?case by (auto simp: request_count_def)
qed (simp add: request_count_def)

lemma new_client_ok: "client_ok new_client" "req_calls new_client = []"
  by (simp_all add: client_ok_def new_client_def req_calls_def dkeys_def)

text \<open>The client as a machine with an invariant.\<close>

definition client_step :: "client \<Rightarrow> client \<Rightarrow> bool" where
  "client_step c c' \<longleftrightarrow> (\<exists>a. perform a c = Some c')"

interpretation client_runs: invariant_machine "\<lambda>c. c = new_client" client_step client_ok
  using new_client_ok perform_ok by unfold_locales (auto simp: client_step_def)

text \<open>C13.
  Every request of the indexer client is settled at most once and none is lost. After any sequence of
  calls and events, the promises settled so far belong to different calls of \<open>sendRequest\<close>; each call is
  settled, in \<open>pendingRequests\<close>, or waiting for a connection, and is in exactly one of the three; and a
  pending one has a timeout that still runs, and whose expiry settles it. At most five reconnections
  are counted.\<close>

theorem requests_settle_once:
  assumes "run_client as new_client = Some c"
  shows "distinct (map fst (answers c)) \<and> distinct (req_calls c) \<and>
    length (answers c) + length (pending c) + length (waiting c) = request_count as \<and>
    (\<forall>i r m. dget (pending c) i = Some (r, m) \<longrightarrow> r \<notin> fst ` set (answers c) \<and>
       (\<exists>c'. perform (A_timeout i m) c = Some c' \<and> r \<in> fst ` set (answers c'))) \<and>
    reconnectAttempts c \<le> 5"
proof -
  from run_client_ok [OF new_client_ok(1) assms] new_client_ok(2)
  have ok: "client_ok c" and n: "length (req_calls c) = request_count as" by simp_all
  have "r \<notin> fst ` set (answers c) \<and> (\<exists>c'. perform (A_timeout i m) c = Some c' \<and> r \<in> fst ` set (answers c'))"
    if "dget (pending c) i = Some (r, m)" for i r m
  proof -
    have e: "(i, r, m) \<in> set (pending c)" using that by (simp add: dget_def map_of_SomeD)
    then have "r \<in> (\<lambda>x. fst (snd x)) ` set (pending c)" by force
    moreover have "(i, m) \<in> set (timeouts c)" using ok e by (auto simp: client_ok_def)
    ultimately show ?thesis using ok timeout_ok [OF ok, of i m r] that
      by (auto simp: guarded_def client_ok_def req_calls_def)
  qed
  then show ?thesis using ok n by (simp add: client_ok_def req_calls_def MAX_RECONNECT_ATTEMPTS_def)
qed

text \<open>A first call that connects, sends its request and gets an answer, and a second that is still pending.\<close>

definition response_line :: "nat \<Rightarrow> json \<Rightarrow> string" where
  "response_line i v = stringify (JObj [(''jsonrpc'', JStr ''2.0''), (''result'', v), (''id'', num i)])"

definition demo_actions :: "action list" where
  "demo_actions = [A_request (Ping JUndef), A_checked 1 True, A_socket_connect, A_resume 0, A_request Shutdown,
     A_data (response_line 1 (JStr ''pong'') @ [newline])]"

lemma requests_settle_once_witness:
  "\<exists>c. run_client demo_actions new_client = Some c \<and> answers c = [(0, Inr (JStr ''pong''))] \<and> pending c = [(2, (2, ''shutdown''))] \<and>
     length (answers c) + length (pending c) + length (waiting c) = request_count demo_actions"
proof -
  have "case run_client demo_actions new_client of None \<Rightarrow> False | Some c \<Rightarrow>
      answers c = [(0, Inr (JStr ''pong''))] \<and> pending c = [(2, (2, ''shutdown''))]"
    by code_simp
  then obtain c where c: "run_client demo_actions new_client = Some c" "answers c = [(0, Inr (JStr ''pong''))]"
      "pending c = [(2, (2, ''shutdown''))]"
    by (auto split: option.splits)
  with requests_settle_once [OF c(1)] show ?thesis by blast
qed

section \<open>Answers\<close>

lemma id_key_num: "i < 2 ^ 53 \<Longrightarrow> id_key (num i) = Some i"
  by (simp add: id_key_def num_def number_show_nat Let_def) (metis of_int_of_nat_eq)

lemma response_wf: "wf_json v \<Longrightarrow> wf_json (JObj [(''jsonrpc'', JStr ''2.0''), (''result'', v), (''id'', num i)])"
  by (simp add: num_def valid_show_nat)

lemma response_read:
  assumes "wf_json v"
  shows "\<exists>w. json_parse (response_line i v) = Some w \<and> js_get w ''id'' = Inr (num i) \<and> response_outcome w = Inr (reparsed v)"
proof -
  let ?w = "reparsed (JObj [(''jsonrpc'', JStr ''2.0''), (''result'', v), (''id'', num i)])"
  have "json_parse (response_line i v) = Some ?w"
    unfolding response_line_def by (rule json_roundtrip [OF response_wf [OF assms]]) simp
  then show ?thesis by (auto simp: num_def response_outcome_def Let_def dget_Cons)
qed

lemma handle_response:
  assumes "wf_json v" "i < 2 ^ 53"
  shows "handle_line (response_line i v) c = settle_request i (Inr (reparsed v)) c"
  using response_read [OF assms(1), of i] id_key_num [OF assms(2)] by (auto simp: handle_line_def)

lemma response_no_newline: "wf_json v \<Longrightarrow> newline \<notin> set (response_line i v)"
  unfolding response_line_def by (rule stringify_no_newline, rule response_wf)

lemma split_whole_lines:
  "(\<And>l. l \<in> set ls \<Longrightarrow> newline \<notin> set l) \<Longrightarrow> split_lines (concat (map (\<lambda>l. l @ [newline]) ls)) = ls @ [[]]"
  by (induction ls) (simp_all add: split_lines_append)

lemma response_not_blank: "trim (response_line i v) \<noteq> []"
proof -
  obtain s where "response_line i v = CHR ''{'' # s @ ''}''" by (simp add: response_line_def)
  then show ?thesis by (simp add: trim_def is_space_def)
qed

text \<open>Settling several requests, each with a value of its own.\<close>

lemma settle_many:
  "distinct (dkeys (pending c)) \<Longrightarrow> distinct (map fst rs) \<Longrightarrow> (\<And>i v. (i, v) \<in> set rs \<Longrightarrow> i \<in> set (dkeys (pending c))) \<Longrightarrow>
   let c' = fold (\<lambda>(i, v). settle_request i (Inr v)) rs c in
     answers c' = answers c @ map (\<lambda>(i, v). (fst (the (dget (pending c) i)), Inr v)) rs \<and>
     dkeys (pending c') = filter (\<lambda>i. i \<notin> fst ` set rs) (dkeys (pending c))"
proof (induction rs arbitrary: c)
  case (Cons x rs)
  obtain i v where x: "x = (i, v)" by force
  have "i \<in> set (dkeys (pending c))" using Cons.prems(3) x by auto
  then obtain r m where d: "dget (pending c) i = Some (r, m)"
    using dict.has_iff [of i "pending c"] by auto
  let ?c = "settle_request i (Inr v) c"
  have c: "?c = c\<lparr>pending := ddelete i (pending c), answers := answers c @ [(r, Inr v)]\<rparr>"
    using d by (simp add: settle_request_def)
  have k: "dkeys (ddelete i (pending c)) = filter (\<lambda>j. j \<noteq> i) (dkeys (pending c))" by (rule dict.keys_remove)
  have g: "dget (ddelete i (pending c)) j = dget (pending c) j" if "j \<in> fst ` set rs" for j
    using that Cons.prems(2) x by (auto simp: dict.get_remove)
  have "let c' = fold (\<lambda>(i, v). settle_request i (Inr v)) rs ?c in
     answers c' = answers ?c @ map (\<lambda>(i, v). (fst (the (dget (pending ?c) i)), Inr v)) rs \<and>
     dkeys (pending c') = filter (\<lambda>i. i \<notin> fst ` set rs) (dkeys (pending ?c))"
  proof (rule Cons.IH)
    show "distinct (dkeys (pending ?c))" using Cons.prems(1) by (simp add: c k)
    show "distinct (map fst rs)" using Cons.prems(2) by simp
    show "j \<in> set (dkeys (pending ?c))" if "(j, w) \<in> set rs" for j w
      using that Cons.prems(2,3) x by (force simp: c k)
  qed
  moreover have "map (\<lambda>(i, v). (fst (the (dget (ddelete i' (pending c)) i)), Inr v)) rs =
      map (\<lambda>(i, v). (fst (the (dget (pending c) i)), Inr v)) rs" if "i' = i" for i'
    using g that by (intro map_cong) force+
  moreover have "filter (\<lambda>j. j \<notin> fst ` set rs) (filter (\<lambda>j. j \<noteq> i) ks) = filter (\<lambda>j. j \<notin> fst ` set (x # rs)) ks" for ks
    by (simp add: x conj_commute)
  ultimately show ?case using d by (simp add: x c k Let_def)
qed simp

lemma handle_responses:
  assumes "list_all (\<lambda>(i, v). wf_json v \<and> i < 2 ^ 53) rs"
  shows "handleData (concat (map (\<lambda>(i, v). response_line i v @ [newline]) rs)) c =
    fold (\<lambda>(i, v). settle_request i (Inr (reparsed v))) rs c"
proof -
  let ?ls = "map (\<lambda>(i, v). response_line i v) rs"
  have s: "concat (map (\<lambda>(i, v). response_line i v @ [newline]) rs) = concat (map (\<lambda>l. l @ [newline]) ?ls)"
    by (simp add: comp_def case_prod_unfold)
  have "filter (\<lambda>l. trim l \<noteq> []) (split_lines (concat (map (\<lambda>l. l @ [newline]) ?ls))) = ?ls"
    using assms response_not_blank
    by (subst split_whole_lines) (auto simp: list_all_iff response_no_newline trim_def intro!: filter_True)
  then have "handleData (concat (map (\<lambda>l. l @ [newline]) ?ls)) c = fold handle_line ?ls c" by (simp add: handleData_def)
  also have "\<dots> = fold (\<lambda>(i, v). settle_request i (Inr (reparsed v))) rs c"
    using assms by (induction rs arbitrary: c) (auto simp: handle_response)
  finally show ?thesis unfolding s .
qed

text \<open>C28.
  Answers that arrive in whole lines reach their callers. When the daemon answers any of the pending
  requests, in any order and however many in one chunk, each with a JSON value of its own, the
  promises of exactly these requests are resolved, in the order of the answers, with the values as JSON
  carries them, and exactly these requests are no longer pending.\<close>

theorem responses_delivered:
  assumes "run_client as new_client = Some c" "distinct (map fst rs)"
    and "list_all (\<lambda>(i, v). wf_json v \<and> i < 2 ^ 53 \<and> i \<in> set (dkeys (pending c))) rs"
  shows "let c' = handleData (concat (map (\<lambda>(i, v). response_line i v @ [newline]) rs)) c in
    answers c' = answers c @ map (\<lambda>(i, v). (fst (the (dget (pending c) i)), Inr (reparsed v))) rs \<and>
    dkeys (pending c') = filter (\<lambda>i. i \<notin> fst ` set rs) (dkeys (pending c))"
proof -
  let ?rs = "map (\<lambda>(i, v). (i, reparsed v)) rs"
  have "client_ok c" using run_client_ok [OF new_client_ok(1) assms(1)] by simp
  then have d: "distinct (dkeys (pending c))" by (simp add: client_ok_def)
  have f: "map fst ?rs = map fst rs" by (simp add: comp_def case_prod_unfold)
  then have k: "fst ` set ?rs = fst ` set rs" by (metis set_map)
  have "fold (\<lambda>(i, v). settle_request i (Inr (reparsed v))) rs c = fold (\<lambda>(i, v). settle_request i (Inr v)) ?rs c"
    by (induction rs arbitrary: c) auto
  moreover have "list_all (\<lambda>(i, v). wf_json v \<and> i < 2 ^ 53) rs" using assms(3) by (auto simp: list_all_iff)
  ultimately have h: "handleData (concat (map (\<lambda>(i, v). response_line i v @ [newline]) rs)) c =
      fold (\<lambda>(i, v). settle_request i (Inr v)) ?rs c" using handle_responses by simp
  have "i \<in> set (dkeys (pending c))" if "(i, v) \<in> set ?rs" for i v using that assms(3) by (auto simp: list_all_iff)
  then show ?thesis
    using settle_many [OF d, of ?rs] assms(2) unfolding h f k by (simp add: Let_def comp_def case_prod_unfold)
qed

definition demo_pending :: "action list" where
  "demo_pending = [A_connect, A_checked 0 True, A_socket_connect, A_request (Ping JUndef), A_request (Embed ''x'')]"

lemma responses_delivered_witness:
  "\<exists>c. run_client demo_pending new_client = Some c \<and>
     answers (handleData (response_line 2 (JStr ''b'') @ [newline] @ response_line 1 (JStr ''a'') @ [newline]) c) =
       [(2, Inr (JStr ''b'')), (1, Inr (JStr ''a''))]"
proof -
  have "case run_client demo_pending new_client of None \<Rightarrow> False | Some c \<Rightarrow>
      answers c = [] \<and> pending c = [(1, (1, ''ping'')), (2, (2, ''embed''))]"
    by code_simp
  then obtain c where c: "run_client demo_pending new_client = Some c" "answers c = []"
      "pending c = [(1, (1, ''ping'')), (2, (2, ''embed''))]"
    by (auto split: option.splits)
  from responses_delivered [OF c(1), of "[(2, JStr ''b''), (1, JStr ''a'')]"] c show ?thesis
    by (simp add: Let_def dkeys_def dget_def)
qed

text \<open>A response that arrives in two chunks is lost: each part is taken for a malformed line.\<close>

lemma split_response_lost:
  "case run_client demo_pending new_client of None \<Rightarrow> False | Some c \<Rightarrow>
     let l = response_line 1 (JStr ''a''); c' = handleData (drop 20 l @ [newline]) (handleData (take 20 l) c)
     in answers c' = [] \<and> dget (pending c') 1 = Some (1, ''ping'')"
  by code_simp

section \<open>Connections that never come\<close>

text \<open>A client that says it is connecting while nothing is under way.\<close>

definition stuck :: "client \<Rightarrow> bool" where
  "stuck c \<longleftrightarrow> cstate c = Connecting \<and> calls c = [] \<and> open_sockets c = 0 \<and> live_timers c = [] \<and>
     list_all (\<lambda>x. snd x \<noteq> Inr True) (conn_results c)"

definition only_failed :: "client \<Rightarrow> client \<Rightarrow> bool" where
  "only_failed c c' \<longleftrightarrow> lines_sent c' = lines_sent c \<and> (\<exists>xs. answers c' = answers c @ xs \<and> list_all (\<lambda>x. isl (snd x)) xs)"

lemma only_failed_trans: "only_failed c d \<Longrightarrow> only_failed d e \<Longrightarrow> only_failed c e"
  by (auto simp: only_failed_def)

lemma only_failed_refl [simp]: "answers c' = answers c \<Longrightarrow> lines_sent c' = lines_sent c \<Longrightarrow> only_failed c c'"
  by (simp add: only_failed_def)

lemma settle_stuck:
  "stuck c \<Longrightarrow> stuck (settle_request i a c)" "only_failed c (settle_request i (Inl e) c)"
  by (auto simp: settle_request_def stuck_def only_failed_def split: option.split)

lemma connect_stuck:
  assumes "stuck c"
  shows "stuck (snd (connect_call c)) \<and> only_failed c (snd (connect_call c))"
  using assms by (simp add: connect_call_def stuck_def Let_def)

lemma dget_mem: "dget m k = Some v \<Longrightarrow> (k, v) \<in> set m"
  by (simp add: dget_def map_of_SomeD)

lemma perform_stuck:
  assumes "stuck c" "perform a c = Some c'" "a \<noteq> A_disconnect"
  shows "stuck c' \<and> only_failed c c'"
proof (cases a)
  case (A_request m)
  then show ?thesis using assms
    by (auto simp: sendRequest_def connect_call_def stuck_def only_failed_def Let_def)
next
  case (A_resume r)
  have "dget (conn_results c) k \<noteq> Some (Inr True)" for k
    using assms(1) by (auto simp: stuck_def list_all_iff dest!: dget_mem)
  then show ?thesis using A_resume assms
    by (auto simp: resume_def stuck_def only_failed_def Let_def split: option.splits sum.splits bool.splits)
next
  case (A_timeout i m)
  have t: "stuck (c\<lparr>timeouts := ts\<rparr>)" "only_failed c (c\<lparr>timeouts := ts\<rparr>)" for ts using assms(1) by (simp_all add: stuck_def)
  show ?thesis using A_timeout assms settle_stuck(1) [OF t(1)] only_failed_trans [OF t(2) settle_stuck(2)]
    by (auto simp: guarded_def request_timeout_def split: if_splits)
next
  case (A_process_error e)
  then show ?thesis using assms by (auto simp: guarded_def process_error_def emits_def stuck_def split: if_splits)
qed (use assms settle_stuck connect_stuck in \<open>auto simp: guarded_def stuck_def split: if_splits\<close>)

lemma run_stuck:
  "stuck c \<Longrightarrow> run_client as c = Some c' \<Longrightarrow> A_disconnect \<notin> set as \<Longrightarrow> stuck c' \<and> only_failed c c'"
proof (induction as arbitrary: c)
  case (Cons a as)
  then obtain d where "perform a c = Some d" "run_client as d = Some c'" by (auto split: option.splits)
  with Cons show ?case using perform_stuck [of c a d] only_failed_trans by fastforce
qed simp

text \<open>A daemon that fails to start disables the client. When the daemon's process reports an error, or its
  directory cannot be made, while the client has no connection, no other connect under way and no
  reconnection planned, \<open>connect\<close> throws but leaves the state at connecting: from then on, until someone
  calls \<open>disconnect\<close>, every connect answers false at once, no line is sent, every request that is settled is
  rejected, and the daemon is never started again.\<close>

theorem spawn_failure_disables:
  assumes "perform (A_spawn_error k e) c = Some c1 \<or> perform (A_mkdir_failed k e) c = Some c1"
    and "cstate c = Connecting" "dkeys (calls c) = [k]" "open_sockets c = 0" "live_timers c = []"
    and "list_all (\<lambda>x. snd x \<noteq> Inr True) (conn_results c)"
    and "run_client as c1 = Some c2" "A_disconnect \<notin> set as"
  shows "cstate c2 = Connecting \<and> calls c2 = [] \<and> lines_sent c2 = lines_sent c \<and>
    conn_results (snd (connect_call c2)) = conn_results c2 @ [(next_call c2, Inr False)] \<and>
    (\<exists>xs. answers c2 = answers c @ xs \<and> list_all (\<lambda>x. isl (snd x)) xs)"
proof -
  obtain v where v: "calls c = [(k, v)]" using assms(3) by (cases "calls c") (auto simp: dkeys_def)
  have "stuck c1 \<and> answers c1 = answers c \<and> lines_sent c1 = lines_sent c"
    using assms(1,2,4-6)
    by (auto simp: guarded_def spawn_error_def connect_throws_def process_error_def emits_def stuck_def v ddelete_def
        AList.delete_eq split: if_splits)
  with run_stuck [OF _ assms(7,8)] have "stuck c2" "only_failed c c2" by (auto simp: only_failed_def)
  then show ?thesis by (simp add: stuck_def only_failed_def connect_call_def Let_def)
qed

lemma spawn_failure_disables_witness:
  "\<exists>c1 c2. run_client [A_request (Ping JUndef), A_checked 1 False, A_dir_made 1, A_spawn_error 1 ''ENOENT''] new_client = Some c1 \<and>
     run_client [A_resume 0, A_request (Ping JUndef), A_resume 2] c1 = Some c2 \<and> cstate c2 = Connecting \<and> lines_sent c2 = [] \<and>
     length (answers c2) = 2 \<and> list_all (\<lambda>x. isl (snd x)) (answers c2)"
proof -
  let ?as = "[A_request (Ping JUndef), A_checked 1 False, A_dir_made 1]"
  have "case run_client ?as new_client of None \<Rightarrow> False | Some c \<Rightarrow> cstate c = Connecting \<and> dkeys (calls c) = [1] \<and>
      open_sockets c = 0 \<and> live_timers c = [] \<and> conn_results c = [] \<and> answers c = [] \<and> lines_sent c = [] \<and>
      (case perform (A_spawn_error 1 ''ENOENT'') c of None \<Rightarrow> False | Some c1 \<Rightarrow>
        (case run_client [A_resume 0, A_request (Ping JUndef), A_resume 2] c1 of None \<Rightarrow> False | Some c2 \<Rightarrow> length (answers c2) = 2))"
    by code_simp
  then obtain c c1 c2 where c: "run_client ?as new_client = Some c" "cstate c = Connecting" "dkeys (calls c) = [1]"
      "open_sockets c = 0" "live_timers c = []" "conn_results c = []" "answers c = []" "lines_sent c = []"
    and c1: "perform (A_spawn_error 1 ''ENOENT'') c = Some c1"
    and c2: "run_client [A_resume 0, A_request (Ping JUndef), A_resume 2] c1 = Some c2" "length (answers c2) = 2"
    by (auto split: option.splits)
  have split: "run_client (as @ [a]) d = (case run_client as d of None \<Rightarrow> None | Some d' \<Rightarrow> perform a d')" for as a d
    by (induction as arbitrary: d) (auto split: option.split)
  have "run_client (?as @ [A_spawn_error 1 ''ENOENT'']) new_client = Some c1" unfolding split c(1) using c1 by simp
  moreover have "cstate c2 = Connecting \<and> calls c2 = [] \<and> lines_sent c2 = lines_sent c \<and>
      conn_results (snd (connect_call c2)) = conn_results c2 @ [(next_call c2, Inr False)] \<and>
      (\<exists>xs. answers c2 = answers c @ xs \<and> list_all (\<lambda>x. isl (snd x)) xs)"
    by (rule spawn_failure_disables [OF disjI1 [OF c1] c(2-5) _ c2(1)]) (simp_all add: c(6))
  ultimately show ?thesis using c c2 by auto
qed

text \<open>
  A connect whose resolver was overwritten is never answered: it waits in the attempt for ever, and the
  requests that wait for it with it.\<close>

definition abandoned :: "nat \<Rightarrow> client \<Rightarrow> bool" where
  "abandoned k c \<longleftrightarrow> dget (calls c) k = Some Attempting \<and> connectResolver c \<noteq> Some k \<and> dget (conn_results c) k = None \<and> k < next_call c"

lemma dget_snoc: "dget (m @ [(k, v)]) j = (case dget m j of Some w \<Rightarrow> Some w | None \<Rightarrow> if j = k then Some v else None)"
  by (induction m) (auto simp: dget_def)

lemmas abandoned_defs = abandoned_def connection_defs sendRequest_def resume_def transmit_def settle_request_def
  request_timeout_def guarded_def dget_snoc dict.get_put dict.get_remove Let_def

lemma handleData_same: "calls (handleData d c) = calls c \<and> connectResolver (handleData d c) = connectResolver c \<and>
   conn_results (handleData d c) = conn_results c \<and> next_call (handleData d c) = next_call c"
proof -
  have l: "calls (handle_line l c) = calls c \<and> connectResolver (handle_line l c) = connectResolver c \<and>
     conn_results (handle_line l c) = conn_results c \<and> next_call (handle_line l c) = next_call c" for l c
    by (simp add: handle_line_def emits_def settle_request_def split: option.split sum.split)
  have "calls (fold handle_line ls c) = calls c \<and> connectResolver (fold handle_line ls c) = connectResolver c \<and>
     conn_results (fold handle_line ls c) = conn_results c \<and> next_call (fold handle_line ls c) = next_call c" for ls
    by (induction ls arbitrary: c) (simp_all add: l)
  then show ?thesis by (simp add: handleData_def)
qed

lemma abandoned_for_ever:
  assumes "abandoned k c" "perform a c = Some c'"
  shows "abandoned k c'"
proof (cases a)
  case (A_data d)
  then show ?thesis using assms handleData_same [of d c] by (auto simp: abandoned_def guarded_def split: if_splits)
next
  case (A_socket_error e)
  then show ?thesis using assms by (auto simp: abandoned_defs split: if_splits option.splits)
qed (use assms in \<open>auto simp: abandoned_defs split: if_splits option.splits sum.splits bool.splits\<close>)

lemma abandoned_reached:
  "case run_client [A_connect, A_checked 0 True, A_disconnect, A_connect, A_checked 1 True] new_client of
     None \<Rightarrow> False | Some c \<Rightarrow> abandoned 0 c"
  by code_simp

section \<open>Listeners\<close>

text \<open>
  After a function registered with \<open>once\<close> the next function of the list is not called: removing the
  wrapper from the list while \<open>emit\<close> runs over it moves the rest one place to the front.\<close>

fun called_by_emit :: "listener list \<Rightarrow> listener list" where
  "called_by_emit [] = []"
| "called_by_emit (Plain f # ls) = Plain f # called_by_emit ls"
| "called_by_emit (Wrapper w # ls) = Wrapper w # called_by_emit (tl ls)"

lemma emit_from_called:
  "distinct (filter (\<lambda>l. l \<in> range Wrapper) (pre @ ls)) \<Longrightarrow> fst (emit_from (length pre) (pre @ ls)) = called_by_emit ls"
proof (induction ls arbitrary: pre rule: called_by_emit.induct)
  case 1
  then show ?case by (simp add: emit_from.simps)
next
  case (2 f ls)
  have "fst (emit_from (length (pre @ [Plain f])) ((pre @ [Plain f]) @ ls)) = called_by_emit ls"
    using 2(2) by (intro 2(1)) simp
  then show ?case by (subst emit_from.simps) (simp add: case_prod_unfold Let_def)
next
  case (3 w ls)
  have w: "Wrapper w \<notin> set pre" using 3(2) by auto
  have "fst (emit_from (Suc (length pre)) (pre @ ls)) = called_by_emit (tl ls)"
  proof (cases ls)
    case Nil
    then show ?thesis by (subst emit_from.simps) simp
  next
    case (Cons l ls')
    then show ?thesis using 3(1) [of "pre @ [l]"] 3(2) by (simp split: if_splits)
  qed
  then show ?case using w by (subst emit_from.simps) (simp add: case_prod_unfold Let_def remove1_append)
qed

lemma once_skips_next:
  "distinct (filter (\<lambda>l. l \<in> range Wrapper) (listeners em ev)) \<Longrightarrow> fst (em_emit ev em) = called_by_emit (listeners em ev)"
  using emit_from_called [of "[]" "listeners em ev"] by (simp add: em_emit_def case_prod_unfold)

end
