(* ===== verification/Context_Forge.thy ===== *)
theory Context_Forge
  imports Provider_Completion
begin

text \<open>
  \<open>src/core/contextforge-client.ts\<close>: the client of the optional context service, and what the router makes
  of its answer (\<open>src/providers/router.ts\<close>). A call meets a network and three readings of the clock; the
  answers of the ledger, when there is one, are a list as in the model of the router.
\<close>

section \<open>The client\<close>

record forge_event =
  fe_type :: string
  fe_payload :: json
  fe_severity :: EventSeverity
  fe_at :: int

record forge =
  baseUrl :: string
  cf_timeoutMs :: "rat option"
  cf_ledger :: bool
  lastUnavailableLogMs :: int
  cf_answers :: "string option list"
  cf_events :: "forge_event list"
  cf_sent :: "http_request list"

definition UNAVAILABLE_LOG_DEDUP_MS :: int where "UNAVAILABLE_LOG_DEDUP_MS = 60000"

definition new_forge :: "string \<Rightarrow> rat option \<Rightarrow> bool \<Rightarrow> string option list \<Rightarrow> forge" where
  "new_forge base timeout ledger answers =
     \<lparr>baseUrl = rev (dropWhile (\<lambda>c. c = CHR ''/'') (rev base)), cf_timeoutMs = timeout, cf_ledger = ledger,
      lastUnavailableLogMs = 0, cf_answers = answers, cf_events = [], cf_sent = []\<rparr>"

record forge_env =
  CONTEXTFORGE_ENABLED :: "string option"
  CONTEXTFORGE_BASE_URL :: "string option"
  CONTEXTFORGE_TIMEOUT_MS :: "string option"

definition fromEnv :: "forge_env \<Rightarrow> bool \<Rightarrow> string option list \<Rightarrow> forge option" where
  "fromEnv env ledger answers =
    (if CONTEXTFORGE_ENABLED env \<noteq> Some ''1'' then None
     else Some (new_forge
       (case CONTEXTFORGE_BASE_URL env of Some u \<Rightarrow> u | None \<Rightarrow> ''http://localhost:8001'')
       (js_number (JStr (case CONTEXTFORGE_TIMEOUT_MS env of Some t \<Rightarrow> t | None \<Rightarrow> ''3000'')))
       ledger answers))"

text \<open>
  What a call meets: \<open>fetch\<close> rejects with an error of some name or resolves, and the clock is read at the
  start, at the end and in \<open>logUnavailable\<close>.\<close>

record forge_world =
  forge_net :: "http_request \<Rightarrow> string + http_reply"
  at_start :: int
  at_end :: int
  at_log :: int

definition forge_log :: "string \<Rightarrow> json \<Rightarrow> EventSeverity \<Rightarrow> int \<Rightarrow> forge \<Rightarrow> (string + unit) \<times> forge" where
  "forge_log ty payload sev now c =
    (let ev = \<lparr>fe_type = ty, fe_payload = payload, fe_severity = sev, fe_at = now\<rparr> in
     case cf_answers c of
       Some e # as \<Rightarrow> (Inl e, c\<lparr>cf_answers := as\<rparr>)
     | None # as \<Rightarrow> (Inr (), c\<lparr>cf_answers := as, cf_events := cf_events c @ [ev]\<rparr>)
     | [] \<Rightarrow> (Inr (), c\<lparr>cf_events := cf_events c @ [ev]\<rparr>))"

definition jint :: "int \<Rightarrow> json" where "jint i = JNum (show_int i)"

definition unavailable_payload :: "string \<Rightarrow> string \<Rightarrow> int \<Rightarrow> json" where
  "unavailable_payload endpoint reason latency =
     JObj [(''endpoint'', JStr endpoint), (''reason'', JStr reason), (''latencyMs'', jint latency)]"

definition logUnavailable :: "string \<Rightarrow> string \<Rightarrow> int \<Rightarrow> int \<Rightarrow> forge \<Rightarrow> (string + unit) \<times> forge" where
  "logUnavailable endpoint reason latency now c =
    (if now - lastUnavailableLogMs c < UNAVAILABLE_LOG_DEDUP_MS then (Inr (), c)
     else let c1 = c\<lparr>lastUnavailableLogMs := now\<rparr> in
       if cf_ledger c then forge_log ''contextforge_unavailable'' (unavailable_payload endpoint reason latency) Warning now c1
       else (Inr (), c1))"

text \<open>A timeout that is no number, or a negative one, makes \<open>AbortSignal.timeout\<close> throw before the request.\<close>

definition timeout_usable :: "rat option \<Rightarrow> bool" where
  "timeout_usable t = (case t of None \<Rightarrow> False | Some x \<Rightarrow> -1 < x)"

definition forge_request :: "forge \<Rightarrow> string \<Rightarrow> json \<Rightarrow> http_request" where
  "forge_request c path body = \<lparr>url = baseUrl c @ path, headers = json_headers, request_body = body,
     timeout_ms = (case cf_timeoutMs c of Some x \<Rightarrow> nat \<lfloor>x\<rfloor> | None \<Rightarrow> 0)\<rparr>"

definition forge_fetch :: "forge_world \<Rightarrow> http_request \<Rightarrow> forge \<Rightarrow> (string + http_reply) \<times> forge" where
  "forge_fetch w req c = (if timeout_usable (cf_timeoutMs c) then (forge_net w req, c\<lparr>cf_sent := cf_sent c @ [req]\<rparr>)
     else (Inl type_error, c))"

definition health :: "forge_world \<Rightarrow> forge \<Rightarrow> bool \<times> forge" where
  "health w c = (case forge_fetch w \<lparr>url = baseUrl c @ ''/health'', headers = [], request_body = JUndef,
       timeout_ms = timeout_ms (forge_request c [] JUndef)\<rparr> c of
     (Inl e, c1) \<Rightarrow> (False, c1) | (Inr rep, c1) \<Rightarrow> (reply_ok rep, c1))"

definition forge_body :: "string \<Rightarrow> string \<Rightarrow> json" where
  "forge_body agentId context = JObj [(''agent_id'', JStr agentId), (''context'', JStr context)]"

definition fetch_reason :: "string \<Rightarrow> string" where
  "fetch_reason name = (if name = ''TimeoutError'' \<or> name = ''AbortError'' then ''timeout'' else ''network'')"

definition unavailable :: "forge_world \<Rightarrow> string \<Rightarrow> string \<Rightarrow> forge \<Rightarrow> (string + json option) \<times> forge" where
  "unavailable w path reason c =
     and_then (logUnavailable path reason (at_end w - at_start w) (at_log w) c) (\<lambda>u c1. (Inr None, c1))"

text \<open>\<open>callJson\<close>; \<open>None\<close> is \<open>null\<close>. The payload is only built when there is a ledger.\<close>

definition callJson :: "forge_world \<Rightarrow> string \<Rightarrow> json \<Rightarrow> string \<Rightarrow> (int \<Rightarrow> json \<Rightarrow> string + json) \<Rightarrow> forge \<Rightarrow>
    (string + json option) \<times> forge" where
  "callJson w path body successEvent buildPayload c =
    (case forge_fetch w (forge_request c path body) c of
       (Inl name, c1) \<Rightarrow> unavailable w path (fetch_reason name) c1
     | (Inr rep, c1) \<Rightarrow>
       if \<not> reply_ok rep then unavailable w path (''http_'' @ show_nat (reply_status rep)) c1
       else (case reply_json rep of Inl e \<Rightarrow> unavailable w path ''parse'' c1
         | Inr data \<Rightarrow>
           let answer = (if data = JNull then None else Some data) in
           if cf_ledger c1 then
             (case buildPayload (at_end w - at_start w) data of Inl e \<Rightarrow> (Inl e, c1)
              | Inr payload \<Rightarrow> and_then (forge_log successEvent payload Info (at_log w) c1) (\<lambda>u c2. (Inr answer, c2)))
           else (Inr answer, c1)))"

text \<open>The properties that a payload reads from the answer.\<close>

fun read_fields :: "json \<Rightarrow> string list \<Rightarrow> string + (string \<times> json) list" where
  "read_fields v [] = Inr []"
| "read_fields v (k # ks) = (case js_get v k of Inl e \<Rightarrow> Inl e
     | Inr x \<Rightarrow> (case read_fields v ks of Inl e \<Rightarrow> Inl e | Inr kvs \<Rightarrow> Inr ((k, x) # kvs)))"

definition forge_payload :: "string \<Rightarrow> string list \<Rightarrow> int \<Rightarrow> json \<Rightarrow> string + json" where
  "forge_payload agentId ks latency data = (case read_fields data ks of Inl e \<Rightarrow> Inl e
     | Inr kvs \<Rightarrow> Inr (JObj ((''agent_id'', JStr agentId) # kvs @ [(''latencyMs'', jint latency)])))"

definition forge_register :: "forge_world \<Rightarrow> string \<Rightarrow> string \<Rightarrow> forge \<Rightarrow> (string + json option) \<times> forge" where
  "forge_register w agentId context = callJson w ''/tools/register_context'' (forge_body agentId context)
     ''contextforge_registered'' (forge_payload agentId [''token_count''])"

definition forge_optimize :: "forge_world \<Rightarrow> string \<Rightarrow> string \<Rightarrow> forge \<Rightarrow> (string + json option) \<times> forge" where
  "forge_optimize w agentId context = callJson w ''/tools/get_optimized_context'' (forge_body agentId context)
     ''contextforge_optimized''
     (forge_payload agentId [''strategy'', ''original_tokens'', ''final_tokens'', ''tokens_saved'', ''savings_pct''])"

section \<open>In the router\<close>

text \<open>
  The decision that \<open>completion\<close> reads: the new text with the tokens saved, when both are of the type that
  the interface names.\<close>

definition decision :: "json option \<Rightarrow> (string \<times> int) option outcome_of" where
  "decision a = (case a of None \<Rightarrow> Returns None
     | Some v \<Rightarrow> (case (opt_get v ''final_context'', opt_get v ''tokens_saved'') of
         (JStr t, JNum n) \<Rightarrow> (let x = number_value n in
            if of_int \<lfloor>x\<rfloor> = x then Returns (Some (t, \<lfloor>x\<rfloor>)) else Outside)
       | _ \<Rightarrow> Outside))"

text \<open>The messages that \<open>completion\<close> goes on with, and the error that it throws before any provider is called.\<close>

definition optimize_request :: "forge_world \<Rightarrow> forge option \<Rightarrow> string option \<Rightarrow> LLMMessage list \<Rightarrow>
    LLMMessage list outcome_of \<times> forge option" where
  "optimize_request w client agent ms = (case (agent, client, findLastUserMessageIndex ms) of
     (Some (a # as), Some c, Some i) \<Rightarrow>
       (case forge_optimize w (a # as) (msg_content (ms ! i)) c of
          (Inl e, c1) \<Rightarrow> (Throws e, Some c1)
        | (Inr ans, c1) \<Rightarrow> (case decision ans of Throws e \<Rightarrow> Throws e | Outside \<Rightarrow> Outside
            | Returns d \<Rightarrow> Returns (optimized_messages (Some (\<lambda>_ _. d)) agent ms), Some c1))
   | _ \<Rightarrow> (Returns ms, client))"

section \<open>Facts\<close>

definition is_unavailable :: "forge_event \<Rightarrow> bool" where
  "is_unavailable ev \<longleftrightarrow> fe_type ev = ''contextforge_unavailable''"

definition unavailable_times :: "forge \<Rightarrow> int list" where
  "unavailable_times c = map fe_at (filter is_unavailable (cf_events c))"

text \<open>The calls of a client, one after the other.\<close>

datatype forge_call = Health | Register string string | Optimize string string

fun forge_do :: "forge_world \<times> forge_call \<Rightarrow> forge \<Rightarrow> forge" where
  "forge_do (w, Health) c = snd (health w c)"
| "forge_do (w, Register a t) c = snd (forge_register w a t c)"
| "forge_do (w, Optimize a t) c = snd (forge_optimize w a t c)"

definition spaced :: "forge \<Rightarrow> bool" where
  "spaced c \<longleftrightarrow> sorted_wrt (\<lambda>s t. s + 60000 \<le> t) (unavailable_times c) \<and>
     list_all (\<lambda>t. t \<le> lastUnavailableLogMs c) (unavailable_times c)"

lemma forge_log_other:
  "ty \<noteq> ''contextforge_unavailable'' \<Longrightarrow> forge_log ty p sev now c = (r, c') \<Longrightarrow> spaced c \<Longrightarrow> spaced c'"
  by (auto simp: forge_log_def spaced_def unavailable_times_def is_unavailable_def Let_def split: list.splits option.splits)

lemma logUnavailable_spaced: "spaced c \<Longrightarrow> logUnavailable e r l now c = (x, c') \<Longrightarrow> spaced c'"
  by (fastforce simp: logUnavailable_def UNAVAILABLE_LOG_DEDUP_MS_def forge_log_def spaced_def unavailable_times_def
      is_unavailable_def list_all_iff sorted_wrt_append Let_def split: if_splits list.splits option.splits)

lemma unavailable_spaced: "spaced c \<Longrightarrow> spaced (snd (unavailable w path reason c))"
  using logUnavailable_spaced by (auto simp: unavailable_def and_then_def split: prod.splits sum.splits)

lemma fetch_spaced: "forge_fetch w req c = (r, c') \<Longrightarrow> spaced c \<Longrightarrow> spaced c'"
  by (auto simp: forge_fetch_def spaced_def unavailable_times_def split: if_splits)

lemma callJson_spaced:
  "ev \<noteq> ''contextforge_unavailable'' \<Longrightarrow> spaced c \<Longrightarrow> spaced (snd (callJson w path body ev build c))"
  using unavailable_spaced fetch_spaced forge_log_other
  by (fastforce simp: callJson_def and_then_def Let_def split: prod.splits sum.splits)

lemma forge_do_spaced: "spaced c \<Longrightarrow> spaced (forge_do x c)"
proof -
  assume c: "spaced c"
  obtain w d where x: "x = (w, d)" by force
  have "spaced (snd (health w c))" using fetch_spaced c by (auto simp: health_def split: prod.splits sum.splits)
  then show ?thesis
    using c by (cases d) (simp_all add: x forge_register_def forge_optimize_def callJson_spaced)
qed

text \<open>A service that is down does not flood the ledger. Over any sequence of calls of a client, whatever the
  service answers and however the clock jumps, two \<open>contextforge_unavailable\<close> events are at least 60
  seconds apart.\<close>

theorem unavailable_deduplicated:
  "sorted_wrt (\<lambda>s t. s + 60000 \<le> t) (unavailable_times (fold forge_do xs (new_forge base timeout ledger answers)))"
proof -
  have "spaced c \<Longrightarrow> spaced (fold forge_do xs c)" for c
    by (induction xs arbitrary: c) (simp_all add: forge_do_spaced)
  moreover have "spaced (new_forge base timeout ledger answers)"
    by (simp add: spaced_def new_forge_def unavailable_times_def)
  ultimately show ?thesis by (simp add: spaced_def)
qed

lemma unavailable_result:
  assumes "unavailable w path reason c = (res, c')"
  shows "(res = Inr None \<or> (\<exists>e. res = Inl e \<and> cf_ledger c \<and> Some e \<in> set (cf_answers c)))"
  using assms by (auto simp: unavailable_def and_then_def logUnavailable_def forge_log_def Let_def
      split: if_splits list.splits option.splits)

lemma read_fields_ok: "v \<noteq> JNull \<Longrightarrow> v \<noteq> JUndef \<Longrightarrow> \<exists>kvs. read_fields v ks = Inr kvs"
proof (induction ks)
  case (Cons k ks)
  then obtain kvs x where "read_fields v ks = Inr kvs" "js_get v k = Inr x" by (cases v) auto
  then show ?case by simp
qed simp

text \<open>
  What a call to the context service can do to its caller. A call throws only when the client has a
  ledger, and then only because the ledger rejects a write or because the service answers with a
  success status and the JSON value null, whose fields the payload of the event reads.\<close>

theorem forge_throws:
  assumes "forge_optimize w agent context c = (Inl e, c')"
  shows "cf_ledger c \<and> (Some e \<in> set (cf_answers c) \<or>
    (e = type_error \<and> (\<exists>rep. forge_net w (forge_request c ''/tools/get_optimized_context'' (forge_body agent context)) = Inr rep \<and>
       reply_ok rep \<and> (reply_json rep = Inr JNull \<or> reply_json rep = Inr JUndef))))"
proof -
  let ?req = "forge_request c ''/tools/get_optimized_context'' (forge_body agent context)"
  let ?c = "c\<lparr>cf_sent := cf_sent c @ [?req]\<rparr>"
  have u: "cf_ledger d \<and> Some e \<in> set (cf_answers d)" if "unavailable w p r d = (Inl e, c')" for p r d
    using unavailable_result [OF that] by auto
  have a: "cf_ledger ?c = cf_ledger c" "cf_answers ?c = cf_answers c" by simp_all
  show ?thesis
  proof (cases "timeout_usable (cf_timeoutMs c)")
    case False
    then show ?thesis using assms u by (auto simp: forge_optimize_def callJson_def forge_fetch_def)
  next
    case True
    then have f: "forge_fetch w ?req c = (forge_net w ?req, ?c)" by (simp add: forge_fetch_def)
    show ?thesis
    proof (cases "\<exists>rep data. forge_net w ?req = Inr rep \<and> reply_ok rep \<and> reply_json rep = Inr data")
      case False
      then have "\<exists>p r. unavailable w p r ?c = (Inl e, c')"
        using assms f by (auto simp: forge_optimize_def callJson_def split: sum.splits if_splits)
      then show ?thesis using u a by metis
    next
      case True
      then obtain rep data where r: "forge_net w ?req = Inr rep" "reply_ok rep" "reply_json rep = Inr data" by blast
      show ?thesis
      proof (cases "data = JNull \<or> data = JUndef")
        case True
        then show ?thesis using assms f r
          by (auto simp: forge_optimize_def callJson_def forge_payload_def Let_def split: if_splits)
      next
        case False
        then obtain kvs where "read_fields data [''strategy'', ''original_tokens'', ''final_tokens'', ''tokens_saved'', ''savings_pct''] = Inr kvs"
          using read_fields_ok by blast
        then show ?thesis using assms f r
          by (auto simp: forge_optimize_def callJson_def forge_payload_def Let_def and_then_def forge_log_def
              split: if_splits list.splits option.splits)
      qed
    qed
  qed
qed

definition demo_null :: forge_world where
  "demo_null = \<lparr>forge_net = (\<lambda>req. Inr \<lparr>reply_status = 200, statusText = ''OK'', reply_text = ''null'', reply_json = Inr JNull\<rparr>),
     at_start = 0, at_end = 5, at_log = 5\<rparr>"

definition demo_forge :: forge where "demo_forge = new_forge ''http://localhost:8001/'' (Some 3000) True []"

lemma demo_null_throws: "\<exists>c'. forge_optimize demo_null ''a'' ''x'' demo_forge = (Inl type_error, c')"
  by (simp add: forge_optimize_def callJson_def forge_fetch_def demo_forge_def new_forge_def timeout_usable_def
      demo_null_def reply_ok_def forge_payload_def Let_def)

lemma forge_throws_witness:
  "\<exists>c'. forge_optimize demo_null ''a'' ''x'' demo_forge = (Inl type_error, c') \<and> cf_ledger demo_forge"
proof -
  obtain c' where c: "forge_optimize demo_null ''a'' ''x'' demo_forge = (Inl type_error, c')" using demo_null_throws by blast
  with forge_throws [OF c] show ?thesis by blast
qed

text \<open>With no ledger, \<open>completion\<close> goes on with the messages of the abstract service of the router's model.\<close>

lemma optimize_request_abstract:
  assumes "\<not> cf_ledger c" "optimize_request w (Some c) agent ms = (Returns ms', client')"
  shows "\<exists>d. ms' = optimized_messages (Some (\<lambda>_ _. d)) agent ms"
proof -
  have n: "optimized_messages (Some (\<lambda>_ _. None)) agent ms = ms"
    by (auto simp: optimized_messages_def split: option.split list.split)
  show ?thesis
    using assms(2) n
    by (auto simp: optimize_request_def split: option.splits list.splits prod.splits sum.splits outcome_of.splits) metis+
qed

lemma no_ledger_no_throw: "\<not> cf_ledger c \<Longrightarrow> fst (optimize_request w (Some c) agent ms) \<noteq> Throws e"
  using forge_throws
  by (auto simp: optimize_request_def decision_def Let_def split: option.splits list.splits prod.splits sum.splits json.splits if_splits)

end
