(* ===== verification/Isolation.thy ===== *)
theory Isolation
  imports Js_Value
begin

text \<open>
  \<open>src/core/isolation.ts\<close>: the retry loop around the binary that creates and destroys worktrees. What a
  run of the binary ends with is a parameter, one end for each attempt.
\<close>

section \<open>One run of the binary\<close>

text \<open>The process cannot be started, or it exits with a code and its two outputs.\<close>

datatype binary_end = Not_started string | Ended int string string

definition IsolationEngine_binary :: string where
  "IsolationEngine_binary = ''isolation-engine/target/debug/isolation-engine''"

definition executeBinary :: "binary_end \<Rightarrow> string + json" where
  "executeBinary e = (case e of
     Not_started msg \<Rightarrow> Inl msg
   | Ended exitCode out err \<Rightarrow>
       if exitCode \<noteq> 0 \<and> trim out = [] then
         Inl (''Binary exited with code '' @ show_int exitCode @ ''. Stderr: '' @ err)
       else (case json_parse out of
           None \<Rightarrow> Inl (''Failed to parse binary output: '' @ out @ ''. Stderr: '' @ err)
         | Some v \<Rightarrow> Inr v))"

section \<open>The retry loop\<close>

definition retry_delays :: "nat list" where "retry_delays = [1000, 4000, 16000]"

definition isolation_error :: "string \<Rightarrow> json" where
  "isolation_error msg = JObj [(''status'', JStr ''error''), (''error'', JStr msg)]"

text \<open>
  What an attempt throws or returns: \<open>result.status\<close> is read inside the \<open>try\<close>, and both branches of the test
  return the result.\<close>

definition isolation_attempt :: "binary_end \<Rightarrow> string + json" where
  "isolation_attempt e = (case executeBinary e of Inl msg \<Rightarrow> Inl msg
     | Inr v \<Rightarrow> (case js_get v ''status'' of Inl msg \<Rightarrow> Inl msg | Inr st \<Rightarrow> Inr v))"

text \<open>The loop from attempt \<open>k\<close> on with the delays that are left: the result, the delays slept, the attempts made.\<close>

fun retry_loop :: "(nat \<Rightarrow> binary_end) \<Rightarrow> nat list \<Rightarrow> nat \<Rightarrow> json \<times> nat list \<times> nat" where
  "retry_loop run [] k = (case isolation_attempt (run k) of
     Inr v \<Rightarrow> (v, [], Suc k) | Inl msg \<Rightarrow> (isolation_error msg, [], Suc k))"
| "retry_loop run (d # ds) k = (case isolation_attempt (run k) of
     Inr v \<Rightarrow> (v, [], Suc k)
   | Inl msg \<Rightarrow> (case retry_loop run ds (Suc k) of (v, slept, n) \<Rightarrow> (v, d # slept, n)))"

definition executeWithRetry :: "(nat \<Rightarrow> binary_end) \<Rightarrow> json \<times> nat list \<times> nat" where
  "executeWithRetry run = retry_loop run retry_delays 0"

text \<open>The two operations: the arguments that every attempt runs the binary with.\<close>

definition createWorktree :: "(string list \<Rightarrow> nat \<Rightarrow> binary_end) \<Rightarrow> string \<Rightarrow> string \<Rightarrow> json \<times> nat list \<times> nat" where
  "createWorktree run path branch = executeWithRetry (run [IsolationEngine_binary, ''create'', path, branch])"

definition destroyWorktree :: "(string list \<Rightarrow> nat \<Rightarrow> binary_end) \<Rightarrow> string \<Rightarrow> json \<times> nat list \<times> nat" where
  "destroyWorktree run path = executeWithRetry (run [IsolationEngine_binary, ''destroy'', path])"

section \<open>Facts\<close>

lemma retry_loop_cases:
  "(\<exists>m \<le> length ds. list_all (\<lambda>j. isl (isolation_attempt (run j))) [k..<k + m] \<and>
      (\<exists>v. isolation_attempt (run (k + m)) = Inr v \<and> retry_loop run ds k = (v, take m ds, Suc (k + m)))) \<or>
   (list_all (\<lambda>j. isl (isolation_attempt (run j))) [k..<Suc (k + length ds)] \<and>
      (\<exists>msg. isolation_attempt (run (k + length ds)) = Inl msg \<and>
        retry_loop run ds k = (isolation_error msg, ds, Suc (k + length ds))))"
proof (induction ds arbitrary: k)
  case Nil
  then show ?case by (cases "isolation_attempt (run k)") auto
next
  case (Cons d ds)
  show ?case
  proof (cases "isolation_attempt (run k)")
    case (Inr v)
    then show ?thesis by (intro disjI1 exI [of _ 0]) simp
  next
    case (Inl msg)
    have up: "[k..<Suc (k + m)] = k # [Suc k..<Suc (k + m)]" for m
      by (rule upt_conv_Cons) simp
    from Cons.IH [of "Suc k"] show ?thesis
    proof (elim disjE exE conjE, goal_cases)
      case (1 m v)
      then show ?case using Inl up [of m] by (intro disjI1 exI [of _ "Suc m"]) (simp del: upt_Suc)
    next
      case (2 msg')
      then show ?case using Inl up [of "Suc (length ds)"] by (intro disjI2) (simp del: upt_Suc)
    qed
  qed
qed

text \<open>
  A worktree operation makes at most four attempts and never throws. It returns what the binary
  answered at the first attempt whose output is JSON other than null, an error that the binary reports
  included, after sleeping the first delays of 1, 4 and 16 seconds between the attempts; when all four
  fail it returns an error result with the message of the last.\<close>

theorem isolation_outcome:
  "case executeWithRetry run of (res, slept, n) \<Rightarrow>
     1 \<le> n \<and> n \<le> 4 \<and> slept = take (n - 1) [1000, 4000, 16000] \<and>
     list_all (\<lambda>j. isl (isolation_attempt (run j))) [0..<n - 1] \<and>
     (case isolation_attempt (run (n - 1)) of Inr v \<Rightarrow> res = v | Inl msg \<Rightarrow> n = 4 \<and> res = isolation_error msg)"
  using retry_loop_cases [of retry_delays run 0]
  by (auto simp: executeWithRetry_def retry_delays_def)

text \<open>An answer \<open>null\<close> counts as a failure of the binary.\<close>

lemma null_is_retried: "isolation_attempt (Ended 0 ''null'' []) = Inl type_error"
  by code_simp

end
