(* ===== verification/Sandbox.thy ===== *)
theory Sandbox
  imports Js_Value Core_Types Decomposer
begin

text \<open>
  \<open>src/core/sandbox.ts\<close>: commands run under the sandbox binary, or directly where there is none and the
  user consented. The platform, the files that exist, the processes and the answers of the ledger are
  parameters; the processes started and the events logged are kept in order. A process that runs over
  its time limit is killed, which is one way for it to end.
\<close>

section \<open>Options and results\<close>

datatype PermissionTier = Readonly | Workspace_write | Danger_full_access

fun permission_name :: "PermissionTier \<Rightarrow> string" where
  "permission_name Readonly = ''readonly''"
| "permission_name Workspace_write = ''workspace_write''"
| "permission_name Danger_full_access = ''danger_full_access''"

record SandboxExecOptions =
  workdir :: string
  command :: string
  opt_permission :: "PermissionTier option"
  opt_timeout :: "nat option"
  opt_taskId :: "string option"

record SandboxExecResult =
  exitCode :: json
  stdout :: json
  stderr :: json
  violations :: "json list"
  durationMs :: json
  exec_error :: "string option"

text \<open>How a process that was started ended, or why it could not be started.\<close>

type_synonym process_result = "string + int \<times> string \<times> string"

record sandbox_event =
  sb_type :: string
  sb_payload :: json
  sb_severity :: EventSeverity
  sb_taskId :: "string option"

record isolator =
  sandboxBinaryPath :: string
  spawned :: "(string list \<times> string option) list"
  sb_events :: "sandbox_event list"
  sb_answers :: "string option list"

record sandbox_env =
  platform :: string
  force_nonlinux :: "string option"
  allow_unsandboxed :: "string option"
  file_exists :: "string \<Rightarrow> bool"
  run_command :: "string list \<Rightarrow> string option \<Rightarrow> nat option \<Rightarrow> process_result"
  elapsed :: int

definition new_isolator :: "string option \<Rightarrow> isolator" where
  "new_isolator path = \<lparr>sandboxBinaryPath = (case path of Some (c # cs) \<Rightarrow> c # cs | _ \<Rightarrow> ''target/release/apohara-sandbox''),
     spawned = [], sb_events = [], sb_answers = []\<rparr>"

definition sb_log :: "string \<Rightarrow> json \<Rightarrow> EventSeverity \<Rightarrow> string option \<Rightarrow> isolator \<Rightarrow> (string + unit) \<times> isolator" where
  "sb_log ty payload sev task s =
    (let ev = \<lparr>sb_type = ty, sb_payload = payload, sb_severity = sev, sb_taskId = task\<rparr> in
     case sb_answers s of
       Some e # as \<Rightarrow> (Inl e, s\<lparr>sb_answers := as\<rparr>)
     | None # as \<Rightarrow> (Inr (), s\<lparr>sb_answers := as, sb_events := sb_events s @ [ev]\<rparr>)
     | [] \<Rightarrow> (Inr (), s\<lparr>sb_events := sb_events s @ [ev]\<rparr>))"

definition start_process :: "sandbox_env \<Rightarrow> string list \<Rightarrow> string option \<Rightarrow> nat \<Rightarrow> isolator \<Rightarrow> process_result \<times> isolator" where
  "start_process w argv cwd timeout s =
     (run_command w argv cwd (if timeout = 0 then None else Some timeout), s\<lparr>spawned := spawned s @ [(argv, cwd)]\<rparr>)"

text \<open>\<open>s.split(/\s+/)\<close>\<close>

function split_space :: "string \<Rightarrow> string list" where
  "split_space s = (let w = takeWhile (\<lambda>c. \<not> is_space c) s; r = dropWhile (\<lambda>c. \<not> is_space c) s in
     if r = [] then [w] else w # split_space (dropWhile is_space r))"
  by pat_completeness auto
termination
proof (relation "measure length", goal_cases)
  case (2 s w r)
  then obtain c cs where "r = c # cs" "is_space c" by (metis hd_dropWhile list.collapse)
  then have "length (dropWhile is_space r) < length r" using length_dropWhile_le [of is_space cs] by simp
  also have "length r \<le> length s" using 2 length_dropWhile_le by metis
  finally show ?case using 2 by simp
qed simp

declare split_space.simps [simp del]

section \<open>The log of an execution\<close>

definition jbool :: "bool \<Rightarrow> json" where "jbool b = JBool b"
definition jnat :: "nat \<Rightarrow> json" where "jnat n = JNum (show_nat n)"

text \<open>A violation with a \<open>syscall\<close> is kept, any other value becomes one by its text.\<close>

definition normalize_violation :: "json \<Rightarrow> json \<times> json" where
  "normalize_violation v = (case v of
     JObj kvs \<Rightarrow> if dhas kvs ''syscall'' then (opt_get v ''syscall'', opt_get v ''path'') else (JStr (js_string v), JUndef)
   | _ \<Rightarrow> (JStr (js_string v), JUndef))"

definition normalized_json :: "json \<Rightarrow> json" where
  "normalized_json v = (case v of
     JObj kvs \<Rightarrow> if dhas kvs ''syscall'' then v else JObj [(''syscall'', JStr (js_string v))]
   | _ \<Rightarrow> JObj [(''syscall'', JStr (js_string v))])"

definition execution_severity :: "SandboxExecResult \<Rightarrow> EventSeverity" where
  "execution_severity r =
    (if exec_error r = Some ''parse_error'' \<or> exec_error r = Some ''execution_error'' then Error
     else if violations r \<noteq> [] then Warning else Info)"

definition execution_payload :: "SandboxExecResult \<Rightarrow> PermissionTier \<Rightarrow> json" where
  "execution_payload r p = JObj [(''exitCode'', exitCode r), (''violations'', JArr (map normalized_json (violations r))),
     (''permission'', JStr (permission_name p)), (''durationMs'', durationMs r),
     (''hasError'', jbool (case exec_error r of Some (c # cs) \<Rightarrow> True | _ \<Rightarrow> False)),
     (''violationCount'', jnat (length (violations r)))]"

definition violation_payload :: "SandboxExecResult \<Rightarrow> PermissionTier \<Rightarrow> json \<Rightarrow> json" where
  "violation_payload r p v = (case normalize_violation v of (sys, path) \<Rightarrow>
     JObj [(''syscall'', sys), (''path'', path), (''permission'', JStr (permission_name p)), (''exitCode'', exitCode r)])"

fun log_violations :: "string option \<Rightarrow> SandboxExecResult \<Rightarrow> PermissionTier \<Rightarrow> json list \<Rightarrow> isolator \<Rightarrow>
    (string + unit) \<times> isolator" where
  "log_violations task r p [] s = (Inr (), s)"
| "log_violations task r p (v # vs) s = (case sb_log ''security_violation'' (violation_payload r p v) Warning task s of
     (Inl e, s1) \<Rightarrow> (Inl e, s1) | (Inr u, s1) \<Rightarrow> log_violations task r p vs s1)"

definition logExecution :: "string option \<Rightarrow> SandboxExecResult \<Rightarrow> PermissionTier \<Rightarrow> isolator \<Rightarrow> (string + unit) \<times> isolator" where
  "logExecution task r p s = (case sb_log ''sandbox_execution'' (execution_payload r p) (execution_severity r) task s of
     (Inl e, s1) \<Rightarrow> (Inl e, s1) | (Inr u, s1) \<Rightarrow> log_violations task r p (violations r) s1)"

section \<open>Execution\<close>

definition jnum :: "int \<Rightarrow> json" where "jnum i = JNum (show_int i)"

definition failed_result :: "string \<Rightarrow> int \<Rightarrow> string \<Rightarrow> SandboxExecResult" where
  "failed_result msg ms err = \<lparr>exitCode = jnum 1, stdout = JStr [], stderr = JStr msg, violations = [], durationMs = jnum ms,
     exec_error = Some err\<rparr>"

text \<open>\<open>v ?? w\<close>\<close>

definition nullish_or :: "json \<Rightarrow> json \<Rightarrow> json" where
  "nullish_or v w = (if v = JUndef \<or> v = JNull then w else v)"

text \<open>
  The result that the binary printed; \<open>None\<close> where reading it throws: a \<open>null\<close>, or violations that are not an
  array, of which \<open>includes\<close> or \<open>map\<close> is called.\<close>

definition read_result :: "json \<Rightarrow> int \<Rightarrow> int \<Rightarrow> SandboxExecResult option" where
  "read_result v code ms =
    (if v = JNull then None
     else let vs = nullish_or (opt_get v ''violations'') (JArr []) in
       case vs of JArr xs \<Rightarrow> Some \<lparr>exitCode = nullish_or (opt_get v ''exit_code'') (jnum code),
           stdout = nullish_or (opt_get v ''stdout'') (JStr []), stderr = nullish_or (opt_get v ''stderr'') (JStr []),
           violations = xs, durationMs = nullish_or (opt_get v ''duration_ms'') (jnum ms),
           exec_error = (if (case opt_get v ''exit_code'' of JNum t \<Rightarrow> number_value t = 99 | _ \<Rightarrow> False) \<or>
               JStr ''unavailable'' \<in> set xs then Some ''sandbox_unavailable'' else None)\<rparr>
       | _ \<Rightarrow> None)"

definition replace_first :: "string \<Rightarrow> string \<Rightarrow> string \<Rightarrow> string" where
  "replace_first w u s = (case (before_first w s, after_first w s) of (Some a, Some b) \<Rightarrow> a @ u @ b | _ \<Rightarrow> s)"

definition resolve_binary :: "sandbox_env \<Rightarrow> string \<Rightarrow> string option" where
  "resolve_binary w path = (if file_exists w path then Some path
     else let debugPath = replace_first ''/release/'' ''/debug/'' path in
       if debugPath \<noteq> path \<and> file_exists w debugPath then Some debugPath else None)"

definition sandbox_argv :: "string \<Rightarrow> string \<Rightarrow> PermissionTier \<Rightarrow> nat \<Rightarrow> string option \<Rightarrow> string \<Rightarrow> string list" where
  "sandbox_argv binary dir p timeout task cmd =
    [binary, ''--workdir'', dir, ''--permission'', permission_name p] @
    (if timeout \<noteq> 0 then [''--timeout-ms'', show_nat timeout] else []) @
    (case task of Some (c # cs) \<Rightarrow> [''--task-id'', c # cs] | _ \<Rightarrow> []) @ ''--'' # split_space (trim cmd)"

definition permission_of :: "SandboxExecOptions \<Rightarrow> PermissionTier" where
  "permission_of opts = (case opt_permission opts of Some p \<Rightarrow> p | None \<Rightarrow> Workspace_write)"

definition timeout_of :: "SandboxExecOptions \<Rightarrow> nat" where
  "timeout_of opts = (case opt_timeout opts of Some t \<Rightarrow> t | None \<Rightarrow> 120000)"

definition bypass_payload :: "sandbox_env \<Rightarrow> SandboxExecOptions \<Rightarrow> string list \<Rightarrow> int \<Rightarrow> json" where
  "bypass_payload w opts argv code = JObj [(''platform'', JStr (platform w)),
     (''permission'', JStr (permission_name (permission_of opts))), (''command'', JArr (map JStr argv)),
     (''workdir'', JStr (workdir opts)), (''exitCode'', jnum code), (''reason'', JStr ''non_linux_with_explicit_consent'')]"

definition no_consent_result :: "sandbox_env \<Rightarrow> SandboxExecResult" where
  "no_consent_result w = \<lparr>exitCode = jnum 99, stdout = JStr [],
     stderr = JStr (''Sandbox unavailable on '' @ platform w @ ''. To run unsandboxed, set APOHARA_ALLOW_UNSANDBOXED=1 '' @
       ''(no syscall isolation, no namespace separation).''),
     violations = [JStr ''sandbox_unavailable_no_consent''], durationMs = jnum 0, exec_error = Some ''sandbox_unavailable''\<rparr>"

text \<open>The direct run; without consent an error of the ledger leaves the method, with it the \<open>catch\<close> takes it.\<close>

definition execBypassNonLinux :: "sandbox_env \<Rightarrow> SandboxExecOptions \<Rightarrow> isolator \<Rightarrow> (string + SandboxExecResult) \<times> isolator" where
  "execBypassNonLinux w opts s =
    (let p = permission_of opts; task = opt_taskId opts in
     if allow_unsandboxed w \<noteq> Some ''1'' then
       (case logExecution task (no_consent_result w) p s of
          (Inl e, s1) \<Rightarrow> (Inl e, s1) | (Inr u, s1) \<Rightarrow> (Inr (no_consent_result w), s1))
     else
       (let argv = split_space (trim (command opts)) in
        case start_process w argv (Some (workdir opts)) (timeout_of opts) s of
          (Inl msg, s1) \<Rightarrow> (Inr (failed_result msg (elapsed w) ''execution_error''), s1)
        | (Inr (code, out, err), s1) \<Rightarrow>
            (let res = \<lparr>exitCode = jnum code, stdout = JStr out, stderr = JStr err, violations = [],
                durationMs = jnum (elapsed w), exec_error = None\<rparr> in
             case sb_log ''sandbox_bypassed'' (bypass_payload w opts argv code) Warning task s1 of
               (Inl e, s2) \<Rightarrow> (Inr (failed_result e (elapsed w) ''execution_error''), s2)
             | (Inr u, s2) \<Rightarrow> (case logExecution task res p s2 of
                 (Inl e, s3) \<Rightarrow> (Inr (failed_result e (elapsed w) ''execution_error''), s3)
               | (Inr u, s3) \<Rightarrow> (Inr res, s3)))))"

definition sandboxed :: "sandbox_env \<Rightarrow> SandboxExecOptions \<Rightarrow> string \<Rightarrow> isolator \<Rightarrow> SandboxExecResult \<times> isolator" where
  "sandboxed w opts binary s =
    (let p = permission_of opts; task = opt_taskId opts; ms = elapsed w in
     case start_process w (sandbox_argv binary (workdir opts) p (timeout_of opts) task (command opts)) None (timeout_of opts) s of
       (Inl msg, s1) \<Rightarrow> (failed_result msg ms ''execution_error'', s1)
     | (Inr (code, out, err), s1) \<Rightarrow>
         if trim out = [] then
           ((failed_result (if err = [] then ''Sandbox binary produced no output'' else err) ms ''sandbox_error'')
              \<lparr>exitCode := jnum code\<rparr>, s1)
         else (let bad = failed_result (''Failed to parse sandbox output: '' @ out) ms ''parse_error'' in
           case json_parse out of None \<Rightarrow> (bad, s1)
           | Some v \<Rightarrow> (case read_result v code ms of None \<Rightarrow> (bad, s1)
             | Some res \<Rightarrow> (case logExecution task res p s1 of
                 (Inl e, s2) \<Rightarrow> (bad, s2) | (Inr u, s2) \<Rightarrow> (res, s2)))))"

definition not_linux :: "sandbox_env \<Rightarrow> bool" where
  "not_linux w \<longleftrightarrow> platform w \<noteq> ''linux'' \<or> force_nonlinux w = Some ''1''"

definition sandbox_exec :: "sandbox_env \<Rightarrow> SandboxExecOptions \<Rightarrow> isolator \<Rightarrow> (string + SandboxExecResult) \<times> isolator" where
  "sandbox_exec w opts s =
    (if not_linux w then execBypassNonLinux w opts s
     else case resolve_binary w (sandboxBinaryPath s) of
       None \<Rightarrow> (Inr (failed_result (''Sandbox binary not found at: '' @ sandboxBinaryPath s @
           ''. Build with 'cargo build -p apohara-sandbox' (debug) or 'cargo build -p apohara-sandbox --release'.'')
           0 ''binary_not_found''), s)
     | Some binary \<Rightarrow> (case sandboxed w opts binary s of (res, s1) \<Rightarrow> (Inr res, s1)))"

section \<open>Confinement\<close>

lemma sb_log_spawned: "sb_log ty p sev t s = (r, s') \<Longrightarrow> spawned s' = spawned s \<and> sandboxBinaryPath s' = sandboxBinaryPath s"
  by (auto simp: sb_log_def Let_def split: list.splits option.splits)

lemma log_violations_spawned: "log_violations t r p vs s = (x, s') \<Longrightarrow> spawned s' = spawned s"
  by (induction vs arbitrary: s) (auto dest: sb_log_spawned split: prod.splits sum.splits)

lemma logExecution_spawned: "logExecution t r p s = (x, s') \<Longrightarrow> spawned s' = spawned s"
  by (auto simp: logExecution_def dest!: sb_log_spawned log_violations_spawned split: prod.splits sum.splits)

lemma sandboxed_spawned: "spawned (snd (sandboxed w opts b s)) =
    spawned s @ [(sandbox_argv b (workdir opts) (permission_of opts) (timeout_of opts) (opt_taskId opts) (command opts), None)]"
  by (auto simp: sandboxed_def start_process_def Let_def dest!: logExecution_spawned
      split: prod.split sum.split option.split)

text \<open>C18.
  Nothing runs outside the sandbox without consent. On Linux a call starts at most one process, the
  sandbox binary, at the configured path or its debug counterpart and only where that file exists, with
  the working directory, the permission and the words of the command after \<open>--\<close>. Elsewhere, or when
  the platform test is overridden, it starts none unless \<open>APOHARA_ALLOW_UNSANDBOXED\<close> is 1; the result
  is then the error \<open>sandbox_unavailable\<close> with exit code 99, or an error of the ledger.\<close>

theorem sandbox_confinement:
  assumes "sandbox_exec w opts s = (res, s')"
  shows "(spawned s' = spawned s \<and> (not_linux w \<longrightarrow> (\<forall>r. res = Inr r \<longrightarrow> r = no_consent_result w))) \<or>
    (\<not> not_linux w \<and> (\<exists>b. file_exists w b \<and>
       b \<in> {sandboxBinaryPath s, replace_first ''/release/'' ''/debug/'' (sandboxBinaryPath s)} \<and>
       spawned s' = spawned s @ [(sandbox_argv b (workdir opts) (permission_of opts) (timeout_of opts)
         (opt_taskId opts) (command opts), None)])) \<or>
    (not_linux w \<and> allow_unsandboxed w = Some ''1'' \<and>
       spawned s' = spawned s @ [(split_space (trim (command opts)), Some (workdir opts))])"
proof (cases "not_linux w")
  case True
  then have "execBypassNonLinux w opts s = (res, s')" using assms by (simp add: sandbox_exec_def)
  then show ?thesis
    using True by (cases "allow_unsandboxed w = Some ''1''")
      (auto simp: execBypassNonLinux_def start_process_def Let_def dest!: sb_log_spawned logExecution_spawned
        split: prod.splits sum.splits)
next
  case False
  show ?thesis
  proof (cases "resolve_binary w (sandboxBinaryPath s)")
    case None
    with False assms show ?thesis by (auto simp: sandbox_exec_def)
  next
    case (Some b)
    then have "s' = snd (sandboxed w opts b s)" using False assms by (auto simp: sandbox_exec_def split: prod.splits)
    moreover have "file_exists w b \<and> b \<in> {sandboxBinaryPath s, replace_first ''/release/'' ''/debug/'' (sandboxBinaryPath s)}"
      using Some by (auto simp: resolve_binary_def Let_def split: if_splits)
    ultimately show ?thesis using False sandboxed_spawned [of w opts b s] by auto
  qed
qed

definition demo_env :: "string \<Rightarrow> string option \<Rightarrow> process_result \<Rightarrow> sandbox_env" where
  "demo_env os consent r = \<lparr>platform = os, force_nonlinux = None, allow_unsandboxed = consent,
     file_exists = (\<lambda>f. f = ''target/debug/apohara-sandbox''), run_command = (\<lambda>a c t. r), elapsed = 7\<rparr>"

definition demo_opts :: SandboxExecOptions where
  "demo_opts = \<lparr>workdir = ''/w'', command = '' bun  test '', opt_permission = None, opt_timeout = None, opt_taskId = None\<rparr>"

lemma demo_paths:
  "replace_first ''/release/'' ''/debug/'' ''target/release/apohara-sandbox'' = ''target/debug/apohara-sandbox''"
  "split_space (trim '' bun  test '') = [''bun'', ''test'']" "show_nat 120000 = ''120000''"
proof -
  show "replace_first ''/release/'' ''/debug/'' ''target/release/apohara-sandbox'' = ''target/debug/apohara-sandbox''"
    by (simp add: replace_first_def starts_with_def)
  have "trim '' bun  test '' = ''bun  test''" by (simp add: trim_def is_space_def)
  then show "split_space (trim '' bun  test '') = [''bun'', ''test'']"
    by (simp add: split_space.simps is_space_def Let_def)
  have "digit_char 0 = CHR ''0''" "digit_char 1 = CHR ''1''" "digit_char 2 = CHR ''2''" by code_simp+
  then show "show_nat 120000 = ''120000''" by (simp add: show_nat.simps)
qed

lemma demo_parse: "json_parse ''{}'' = Some (JObj [])" "trim ''{}'' \<noteq> []"
  by code_simp+

lemma sandbox_confinement_witness:
  "case sandbox_exec (demo_env ''linux'' None (Inr (0, ''{}'', []))) demo_opts (new_isolator None) of (res, s') \<Rightarrow>
     (\<exists>b. b = ''target/debug/apohara-sandbox'' \<and> spawned s' = [([b, ''--workdir'', ''/w'', ''--permission'', ''workspace_write'',
        ''--timeout-ms'', ''120000'', ''--'', ''bun'', ''test''], None)])"
proof -
  let ?w = "demo_env ''linux'' None (Inr (0, ''{}'', []))"
  obtain res s' where e: "sandbox_exec ?w demo_opts (new_isolator None) = (res, s')" by force
  have "\<not> not_linux ?w" by (simp add: not_linux_def demo_env_def)
  moreover have n: "spawned (new_isolator None) = []" "sandboxBinaryPath (new_isolator None) = ''target/release/apohara-sandbox''"
    by (simp_all add: new_isolator_def)
  moreover have "spawned s' \<noteq> []"
    using e by (auto simp: sandbox_exec_def not_linux_def demo_env_def new_isolator_def resolve_binary_def demo_paths Let_def
        dest!: arg_cong [where f = "\<lambda>x. spawned (snd x)"] simp: sandboxed_spawned split: prod.splits)
  ultimately obtain b where "file_exists ?w b" "spawned s' = [(sandbox_argv b (workdir demo_opts) (permission_of demo_opts)
      (timeout_of demo_opts) (opt_taskId demo_opts) (command demo_opts), None)]"
    using sandbox_confinement [OF e] by auto
  then show ?thesis
    using e by (simp add: sandbox_argv_def demo_env_def demo_opts_def permission_of_def timeout_of_def demo_paths)
qed

section \<open>The audit trail\<close>

lemma sb_log_quiet: "sb_answers s = [] \<Longrightarrow>
    sb_log ty p sev t s = (Inr (), s\<lparr>sb_events := sb_events s @ [\<lparr>sb_type = ty, sb_payload = p, sb_severity = sev, sb_taskId = t\<rparr>]\<rparr>)"
  by (simp add: sb_log_def)

lemma log_violations_quiet: "sb_answers s = [] \<Longrightarrow>
    log_violations t r p vs s = (Inr (), s\<lparr>sb_events := sb_events s @
      map (\<lambda>v. \<lparr>sb_type = ''security_violation'', sb_payload = violation_payload r p v, sb_severity = Warning, sb_taskId = t\<rparr>) vs\<rparr>)"
  by (induction vs arbitrary: s) (simp_all add: sb_log_quiet)

definition execution_events :: "string option \<Rightarrow> SandboxExecResult \<Rightarrow> PermissionTier \<Rightarrow> sandbox_event list" where
  "execution_events t r p =
     \<lparr>sb_type = ''sandbox_execution'', sb_payload = execution_payload r p, sb_severity = execution_severity r, sb_taskId = t\<rparr> #
     map (\<lambda>v. \<lparr>sb_type = ''security_violation'', sb_payload = violation_payload r p v, sb_severity = Warning, sb_taskId = t\<rparr>) (violations r)"

lemma logExecution_quiet: "sb_answers s = [] \<Longrightarrow>
    logExecution t r p s = (Inr (), s\<lparr>sb_events := sb_events s @ execution_events t r p\<rparr>)"
  by (simp add: logExecution_def sb_log_quiet log_violations_quiet execution_events_def)

text \<open>What the ledger says of an execution. With a ledger that accepts every event, an execution whose output
  was read is logged once, with one event for each violation; a direct run is logged as a bypass first,
  with the command, and a refusal as well. An execution that ended in an error of the wrapper (no
  binary, a process that did not start, no output, output that is no JSON) leaves no event at all, so no
  event ever has the severity error.\<close>

theorem sandbox_audit:
  assumes "sb_answers s = []" "sandbox_exec w opts s = (Inr res, s')"
  shows "\<exists>evs. sb_events s' = sb_events s @ evs \<and>
    (evs = [] \<and> exec_error res \<in> Some ` {''binary_not_found'', ''execution_error'', ''sandbox_error'', ''parse_error''} \<or>
     exec_error res \<in> {None, Some ''sandbox_unavailable''} \<and>
       (evs = execution_events (opt_taskId opts) res (permission_of opts) \<or>
        (\<exists>code. spawned s' = spawned s @ [(split_space (trim (command opts)), Some (workdir opts))] \<and>
          evs = \<lparr>sb_type = ''sandbox_bypassed'', sb_payload = bypass_payload w opts (split_space (trim (command opts))) code,
              sb_severity = Warning, sb_taskId = opt_taskId opts\<rparr> # execution_events (opt_taskId opts) res (permission_of opts)))) \<and>
    list_all (\<lambda>ev. sb_severity ev \<noteq> Error) evs"
proof -
  have sev: "list_all (\<lambda>ev. sb_severity ev \<noteq> Error) (execution_events t r p)"
    if "exec_error r \<in> {None, Some ''sandbox_unavailable''}" for t r p
    using that by (auto simp: execution_events_def execution_severity_def list_all_iff)
  show ?thesis
  proof (cases "not_linux w")
    case True
    then have e: "execBypassNonLinux w opts s = (Inr res, s')" using assms(2) by (simp add: sandbox_exec_def)
    show ?thesis
    proof (cases "allow_unsandboxed w = Some ''1''")
      case False
      then have "res = no_consent_result w" "s' = s\<lparr>sb_events := sb_events s @ execution_events (opt_taskId opts) res (permission_of opts)\<rparr>"
        using e assms(1) by (auto simp: execBypassNonLinux_def logExecution_quiet Let_def)
      then show ?thesis using sev [of res] by (auto simp: no_consent_result_def)
    next
      case True
      then show ?thesis
        using e assms(1) sev
        by (cases "run_command w (split_space (trim (command opts))) (Some (workdir opts))
              (if timeout_of opts = 0 then None else Some (timeout_of opts))")
          (auto simp: execBypassNonLinux_def start_process_def logExecution_quiet sb_log_quiet failed_result_def Let_def)
    qed
  next
    case False
    show ?thesis
    proof (cases "resolve_binary w (sandboxBinaryPath s)")
      case None
      with False assms(2) show ?thesis by (auto simp: sandbox_exec_def failed_result_def)
    next
      case (Some b)
      then have e: "sandboxed w opts b s = (res, s')" using False assms(2) by (auto simp: sandbox_exec_def split: prod.splits)
      let ?r = "run_command w (sandbox_argv b (workdir opts) (permission_of opts) (timeout_of opts) (opt_taskId opts) (command opts))
          None (if timeout_of opts = 0 then None else Some (timeout_of opts))"
      have err: "exec_error r \<in> {None, Some ''sandbox_unavailable''}" if "read_result v code ms = Some r" for v code ms r
        using that by (auto simp: read_result_def Let_def split: json.splits if_splits)
      show ?thesis
        using e assms(1) sev err
        by (cases ?r) (auto simp: sandboxed_def start_process_def logExecution_quiet failed_result_def Let_def
            split: prod.splits if_splits option.splits)
    qed
  qed
qed

lemma sandbox_audit_witness:
  "case sandbox_exec (demo_env ''darwin'' (Some ''1'') (Inr (0, ''ok'', []))) demo_opts (new_isolator None) of (res, s') \<Rightarrow>
     map sb_type (sb_events s') = [''sandbox_bypassed'', ''sandbox_execution''] \<and> list_all (\<lambda>ev. sb_severity ev \<noteq> Error) (sb_events s')"
proof -
  let ?x = "sandbox_exec (demo_env ''darwin'' (Some ''1'') (Inr (0, ''ok'', []))) demo_opts (new_isolator None)"
  have a: "sb_answers (new_isolator None) = []" "sb_events (new_isolator None) = []" by (simp_all add: new_isolator_def)
  have "(case fst ?x of Inl e \<Rightarrow> False | Inr r \<Rightarrow> True) \<and> map sb_type (sb_events (snd ?x)) = [''sandbox_bypassed'', ''sandbox_execution'']"
    by (simp add: sandbox_exec_def not_linux_def execBypassNonLinux_def start_process_def demo_env_def demo_opts_def new_isolator_def
        sb_log_quiet logExecution_quiet execution_events_def Let_def)
  then obtain res s' where x: "?x = (Inr res, s')" "map sb_type (sb_events s') = [''sandbox_bypassed'', ''sandbox_execution'']"
    by (cases ?x) (auto split: sum.splits)
  from sandbox_audit [OF a(1) x(1)] a(2) have "list_all (\<lambda>ev. sb_severity ev \<noteq> Error) (sb_events s')" by auto
  with x show ?thesis by simp
qed

text \<open>A ledger that rejects the event turns a successful execution into a failure to parse its output.\<close>

lemma ledger_failure_is_parse_error:
  "case sandbox_exec (demo_env ''linux'' None (Inr (0, ''{}'', []))) demo_opts ((new_isolator None)\<lparr>sb_answers := [Some ''disk full'']\<rparr>) of
     (Inr res, s') \<Rightarrow> exec_error res = Some ''parse_error'' | _ \<Rightarrow> False"
  by (simp add: sandbox_exec_def not_linux_def resolve_binary_def sandboxed_def start_process_def demo_env_def demo_opts_def
      new_isolator_def demo_paths demo_parse read_result_def nullish_or_def logExecution_def sb_log_def failed_result_def Let_def)

end
