(* ===== verification/Token_Store.thy ===== *)
theory Token_Store
  imports Indexer_Client Decompose
begin

text \<open>
  \<open>src/lib/oauth-pkce.ts\<close> and \<open>src/lib/oauth-token-store.ts\<close>: base64url, and the store of an OAuth token with
  its file and its refresh. Bytes are characters. The clock, the endpoint, the random bytes, the digest
  and the success of a write are parameters.
\<close>

section \<open>base64url\<close>

definition b64_digit :: "nat \<Rightarrow> char" where
  "b64_digit n = (if n < 26 then char_of (65 + n) else if n < 52 then char_of (71 + n)
     else if n < 62 then char_of (n - 4) else if n = 62 then CHR ''+'' else CHR ''/'')"

text \<open>\<open>Buffer.from(data).toString("base64")\<close>\<close>

fun base64 :: "string \<Rightarrow> string" where
  "base64 [] = []"
| "base64 [a] = (let x = of_char a * 16 in [b64_digit (x div 64), b64_digit (x mod 64), CHR ''='', CHR ''=''])"
| "base64 [a, b] = (let x = (of_char a * 256 + of_char b) * 4
     in [b64_digit (x div 4096), b64_digit (x div 64 mod 64), b64_digit (x mod 64), CHR ''=''])"
| "base64 (a # b # c # r) = (let x = (of_char a * 256 + of_char b) * 256 + of_char c
     in [b64_digit (x div 262144), b64_digit (x div 4096 mod 64), b64_digit (x div 64 mod 64), b64_digit (x mod 64)] @ base64 r)"

definition b64_value :: "char \<Rightarrow> nat option" where
  "b64_value c = (let n = (of_char c :: nat) in
     if 65 \<le> n \<and> n \<le> 90 then Some (n - 65) else if 97 \<le> n \<and> n \<le> 122 then Some (n - 71)
     else if 48 \<le> n \<and> n \<le> 57 then Some (n + 4) else if c = CHR ''+'' then Some 62
     else if c = CHR ''/'' then Some 63 else None)"

text \<open>
  \<open>Buffer.from(s, "base64")\<close> up to the padding; \<open>None\<close> for a text with other characters, which the model does
  not decode. A single digit at the end holds no byte.\<close>

fun b64_bytes :: "nat list \<Rightarrow> string" where
  "b64_bytes (p # q # r # s # xs) = (let x = ((p * 64 + q) * 64 + r) * 64 + s
     in [char_of (x div 65536), char_of (x div 256 mod 256), char_of (x mod 256)] @ b64_bytes xs)"
| "b64_bytes [p, q, r] = (let x = (p * 64 + q) * 64 + r in [char_of (x div 1024), char_of (x div 4 mod 256)])"
| "b64_bytes [p, q] = [char_of ((p * 64 + q) div 16)]"
| "b64_bytes xs = []"

definition base64_decode :: "string \<Rightarrow> string option" where
  "base64_decode s = map_option b64_bytes (those (map b64_value (takeWhile (\<lambda>c. c \<noteq> CHR ''='') s)))"

definition base64urlEncode :: "string \<Rightarrow> string" where
  "base64urlEncode data = rev (dropWhile (\<lambda>c. c = CHR ''='') (rev
     (replace_char (CHR ''/'') ''_'' (replace_char (CHR ''+'') ''-'' (base64 data)))))"

definition base64urlDecode :: "string \<Rightarrow> string option" where
  "base64urlDecode encoded =
    (let padded = encoded @ replicate ((4 - length encoded mod 4) mod 4) (CHR ''='')
     in base64_decode (replace_char (CHR ''_'') ''/'' (replace_char (CHR ''-'') ''+'' padded)))"

definition generateCodeVerifier :: "string \<Rightarrow> string" where
  "generateCodeVerifier random_bytes = base64urlEncode random_bytes"

definition generateCodeChallenge :: "(string \<Rightarrow> string) \<Rightarrow> string \<Rightarrow> string" where
  "generateCodeChallenge sha256 verifier = base64urlEncode (sha256 verifier)"

lemma of_char_less [simp]: "(of_char c :: nat) < 256" by simp

lemma div_mod_parts:
  fixes a b c :: nat
  assumes "a < 256" "b < 256" "c < 256"
  shows "((a * 256 + b) * 256 + c) div 65536 = a" "((a * 256 + b) * 256 + c) div 256 mod 256 = b"
    "((a * 256 + b) * 256 + c) mod 256 = c"
proof -
  have d: "(x * 256 + y) div 256 = x" "(x * 256 + y) mod 256 = y" if "y < 256" for x y :: nat
    using that by simp_all
  have e: "x div 65536 = x div 256 div 256" for x :: nat by (simp add: div_mult2_eq [symmetric])
  show "((a * 256 + b) * 256 + c) div 65536 = a" unfolding e d(1) [OF assms(3)] by (rule d(1) [OF assms(2)])
  show "((a * 256 + b) * 256 + c) div 256 mod 256 = b" unfolding d(1) [OF assms(3)] by (rule d(2) [OF assms(2)])
  show "((a * 256 + b) * 256 + c) mod 256 = c" by (rule d(2) [OF assms(3)])
qed

lemma b64_parts:
  fixes x :: nat
  shows "((x div 262144 * 64 + x div 4096 mod 64) * 64 + x div 64 mod 64) * 64 + x mod 64 = x"
    "(x div 4096 * 64 + x div 64 mod 64) * 64 + x mod 64 = x" "x div 64 * 64 + x mod 64 = x"
proof -
  have d: "x div 4096 = x div 64 div 64" "x div 262144 = x div 64 div 64 div 64" by (simp_all add: div_mult2_eq [symmetric])
  show "((x div 262144 * 64 + x div 4096 mod 64) * 64 + x div 64 mod 64) * 64 + x mod 64 = x"
    "(x div 4096 * 64 + x div 64 mod 64) * 64 + x mod 64 = x" "x div 64 * 64 + x mod 64 = x"
    unfolding d by simp_all
qed

lemma b64_value_digit: "n < 64 \<Longrightarrow> b64_value (b64_digit n) = Some n"
  by (auto simp: b64_value_def b64_digit_def Let_def)

lemma code_of_digit: "n < 64 \<Longrightarrow> (of_char (b64_digit n) :: nat) =
    (if n < 26 then 65 + n else if n < 52 then 71 + n else if n < 62 then n - 4 else if n = 62 then 43 else 47)"
  by (simp add: b64_digit_def)

lemma b64_digit_plain: "n < 64 \<Longrightarrow> b64_digit n \<noteq> CHR ''='' \<and> b64_digit n \<noteq> CHR ''-'' \<and> b64_digit n \<noteq> CHR ''_''"
  using code_of_digit [of n] by (auto dest!: arg_cong [where f = "of_char :: char \<Rightarrow> nat"] split: if_splits)

text \<open>The digits of a text, and the padding after them.\<close>

fun b64_digits :: "string \<Rightarrow> nat list" where
  "b64_digits [] = []"
| "b64_digits [a] = (let x = of_char a * 16 in [x div 64, x mod 64])"
| "b64_digits [a, b] = (let x = (of_char a * 256 + of_char b) * 4 in [x div 4096, x div 64 mod 64, x mod 64])"
| "b64_digits (a # b # c # r) = (let x = (of_char a * 256 + of_char b) * 256 + of_char c
     in [x div 262144, x div 4096 mod 64, x div 64 mod 64, x mod 64] @ b64_digits r)"

lemma b64_digits_less: "list_all (\<lambda>n. n < 64) (b64_digits s)"
proof (induction s rule: b64_digits.induct)
  case (2 a)
  have "(of_char a :: nat) < 256" by simp
  then show ?case by (simp add: Let_def div_less_iff_less_mult; linarith)
next
  case (3 a b)
  have "(of_char a :: nat) < 256" "(of_char b :: nat) < 256" by (rule of_char_less)+
  then show ?case by (simp add: Let_def div_less_iff_less_mult; linarith)
next
  case (4 a b c r)
  have "(of_char a :: nat) < 256" "(of_char b :: nat) < 256" "(of_char c :: nat) < 256" by (rule of_char_less)+
  then show ?case using 4 by (simp add: Let_def div_less_iff_less_mult; linarith)
qed simp

lemma b64_bytes_digits: "b64_bytes (b64_digits s) = s"
proof (induction s rule: b64_digits.induct)
  case (4 a b c r)
  show ?case
    unfolding b64_digits.simps Let_def append.simps b64_bytes.simps b64_parts
      div_mod_parts [OF of_char_less of_char_less of_char_less] char_of_char using 4 by simp
next
  case (3 a b)
  have "(of_char a :: nat) < 256" "(of_char b :: nat) < 256" by (rule of_char_less)+
  then have "(of_char a * 256 + of_char b) * 4 div 1024 = (of_char a :: nat)"
    "(of_char a * 256 + of_char b) * 4 div 4 mod 256 = (of_char b :: nat)" by simp_all
  then show ?case
    unfolding b64_digits.simps Let_def b64_bytes.simps b64_parts by simp
next
  case (2 a)
  show ?case unfolding b64_digits.simps Let_def b64_bytes.simps b64_parts by simp
qed simp

lemma base64_digits: "\<exists>n < 3. base64 s = map b64_digit (b64_digits s) @ replicate n (CHR ''='')"
proof (induction s rule: base64.induct)
  case (2 a)
  then show ?case by (intro exI [of _ 2]) (simp add: Let_def numeral_2_eq_2)
next
  case (3 a b)
  then show ?case by (intro exI [of _ 1]) (simp add: Let_def)
next
  case (4 a b c r)
  then show ?case by (auto simp: Let_def)
qed (intro exI [of _ 0], simp)

text \<open>The alphabet of base64url: the digits with two of them renamed.\<close>

definition url_digit :: "nat \<Rightarrow> char" where
  "url_digit n = (if n = 62 then CHR ''-'' else if n = 63 then CHR ''_'' else b64_digit n)"

lemma b64_digit_special:
  "n < 64 \<Longrightarrow> b64_digit n = CHR ''+'' \<longleftrightarrow> n = 62" "n < 64 \<Longrightarrow> b64_digit n = CHR ''/'' \<longleftrightarrow> n = 63"
  using code_of_digit [of n] by (auto simp: b64_digit_def dest!: arg_cong [where f = "of_char :: char \<Rightarrow> nat"] split: if_splits)

lemma b64_value_special: "b64_value (CHR ''+'') = Some 62" "b64_value (CHR ''/'') = Some 63"
  by (simp_all add: b64_value_def)

definition unurl :: "char \<Rightarrow> char" where
  "unurl c = (if c = CHR ''-'' then CHR ''+'' else if c = CHR ''_'' then CHR ''/'' else c)"

lemma url_digit_plain: "n < 64 \<Longrightarrow> url_digit n \<noteq> CHR ''='' \<and> url_digit n \<noteq> CHR ''+'' \<and> url_digit n \<noteq> CHR ''/''"
  using b64_digit_plain [of n] b64_digit_special [of n] by (simp add: url_digit_def)

lemma unurl_digit: "n < 64 \<Longrightarrow> unurl (url_digit n) = b64_digit n"
  using b64_digit_plain [of n] b64_digit_special [of n] by (auto simp: url_digit_def unurl_def)

lemma replace_digits:
  "list_all (\<lambda>n. n < 64) ns \<Longrightarrow> replace_char (CHR ''/'') ''_'' (replace_char (CHR ''+'') ''-'' (map b64_digit ns)) = map url_digit ns"
proof (induction ns)
  case (Cons n ns)
  then show ?case using b64_digit_special [of n] by (auto simp: replace_char_Cons url_digit_def)
qed simp

lemma replace_padding: "c \<noteq> CHR ''='' \<Longrightarrow> replace_char c w (replicate n (CHR ''='')) = replicate n (CHR ''='')"
  by (induction n) (simp_all add: replace_char_Cons)

lemma encode_digits: "base64urlEncode s = map url_digit (b64_digits s)"
proof -
  obtain n where n: "base64 s = map b64_digit (b64_digits s) @ replicate n (CHR ''='')" using base64_digits by blast
  have e: "replace_char (CHR ''/'') ''_'' (replace_char (CHR ''+'') ''-'' (base64 s)) =
      map url_digit (b64_digits s) @ replicate n (CHR ''='')"
    using replace_digits [OF b64_digits_less, of s] by (simp add: n replace_padding)
  have k: "url_digit x \<noteq> CHR ''=''" if "x \<in> set (b64_digits s)" for x
    using that b64_digits_less [of s] url_digit_plain [of x] by (auto simp: list_all_iff)
  have "dropWhile (\<lambda>c. c = CHR ''='') (replicate n (CHR ''='') @ xs) = dropWhile (\<lambda>c. c = CHR ''='') xs" for xs
    by (induction n) simp_all
  moreover have "dropWhile (\<lambda>c. c = CHR ''='') (rev (map url_digit (b64_digits s))) = rev (map url_digit (b64_digits s))"
  proof -
    have dw: "(\<And>c. c \<in> set xs \<Longrightarrow> \<not> P c) \<Longrightarrow> dropWhile P xs = xs" for P :: "char \<Rightarrow> bool" and xs
      by (cases xs) simp_all
    show ?thesis by (rule dw) (use k in auto)
  qed
  ultimately show ?thesis by (simp add: base64urlEncode_def e)
qed

lemma length_digits: "length (b64_digits s) = (4 * length s + 2) div 3"
  by (induction s rule: b64_digits.induct) (simp_all add: Let_def)

lemma decode_digits:
  assumes "list_all (\<lambda>n. n < 64) ns"
  shows "base64_decode (replace_char (CHR ''_'') ''/'' (replace_char (CHR ''-'') ''+'' (map url_digit ns @ replicate k (CHR ''='')))) =
    Some (b64_bytes ns)"
proof -
  have r: "replace_char (CHR ''_'') ''/'' (replace_char (CHR ''-'') ''+'' xs) = map unurl xs" for xs
    by (induction xs) (auto simp: replace_char_Cons unurl_def)
  have m: "map unurl (map url_digit ns) = map b64_digit ns"
    using assms by (induction ns) (simp_all add: unurl_digit)
  have "c \<noteq> CHR ''=''" if "c \<in> set (map b64_digit ns)" for c
    using that assms b64_digit_plain by (auto simp: list_all_iff)
  then have "takeWhile (\<lambda>c. c \<noteq> CHR ''='') (map b64_digit ns @ replicate k (CHR ''='')) =
      map b64_digit ns @ takeWhile (\<lambda>c. c \<noteq> CHR ''='') (replicate k (CHR ''=''))"
    by (rule takeWhile_append2)
  then have "takeWhile (\<lambda>c. c \<noteq> CHR ''='') (map b64_digit ns @ replicate k (CHR ''='')) = map b64_digit ns"
    by (cases k) simp_all
  moreover have "those (map b64_value (map b64_digit ns)) = Some ns"
    using assms by (induction ns) (simp_all add: b64_value_digit)
  moreover have "map unurl (replicate k (CHR ''='')) = replicate k (CHR ''='')" by (simp add: unurl_def)
  ultimately show ?thesis by (simp only: base64_decode_def r map_append m option.map)
qed

text \<open>base64url is faithful: what \<open>base64urlEncode\<close> writes has none of the characters that base64url replaces,
  is four thirds as long as the input, rounded up and without padding, so that a code verifier of 32
  bytes has 43 characters, and \<open>base64urlDecode\<close> gives the bytes back.\<close>

theorem base64url_roundtrip:
  "base64urlDecode (base64urlEncode s) = Some s \<and>
   set (base64urlEncode s) \<inter> {CHR ''+'', CHR ''/'', CHR ''=''} = {} \<and>
   length (base64urlEncode s) = (4 * length s + 2) div 3"
proof (intro conjI)
  show "base64urlDecode (base64urlEncode s) = Some s"
    using decode_digits [OF b64_digits_less, of s] by (simp add: base64urlDecode_def encode_digits b64_bytes_digits Let_def)
  show "set (base64urlEncode s) \<inter> {CHR ''+'', CHR ''/'', CHR ''=''} = {}"
    using b64_digits_less [of s] url_digit_plain by (fastforce simp: encode_digits list_all_iff)
qed (simp add: encode_digits length_digits)

section \<open>Tokens\<close>

text \<open>
  \<open>expires_at\<close> is \<open>None\<close> for \<open>NaN\<close>: what the sum with a missing \<open>expires_in\<close> gives, never at most the
  clock, and written to the file as \<open>null\<close>.\<close>

record OAuthToken =
  access_token :: string
  refresh_token :: "string option"
  token_type :: string
  expires_at :: "int option"
  scope :: "string option"

definition isTokenExpired :: "OAuthToken \<Rightarrow> int \<Rightarrow> int \<Rightarrow> bool" where
  "isTokenExpired t bufferSeconds now = (case expires_at t of None \<Rightarrow> False | Some e \<Rightarrow> e \<le> now + bufferSeconds * 1000)"

definition calculateExpiresAt :: "int \<Rightarrow> int \<Rightarrow> int" where
  "calculateExpiresAt expiresIn now = now + expiresIn * 1000"

definition has_refresh_token :: "OAuthToken \<Rightarrow> bool" where
  "has_refresh_token t = (case refresh_token t of Some (c # cs) \<Rightarrow> True | _ \<Rightarrow> False)"

definition opt_json :: "string option \<Rightarrow> json" where
  "opt_json s = (case s of None \<Rightarrow> JUndef | Some t \<Rightarrow> JStr t)"

text \<open>The text of a date is a parameter; \<open>toISOString\<close> throws on \<open>NaN\<close>.\<close>

definition iso_date :: "(int \<Rightarrow> string) \<Rightarrow> OAuthToken \<Rightarrow> string + json" where
  "iso_date date_text t = (case expires_at t of None \<Rightarrow> Inl ''RangeError'' | Some e \<Rightarrow> Inr (JStr (date_text e)))"

definition sanitizeTokenForLogging :: "(int \<Rightarrow> string) \<Rightarrow> OAuthToken option \<Rightarrow> string + json" where
  "sanitizeTokenForLogging date_text token = (case token of None \<Rightarrow> Inr (JObj [(''present'', JBool False)])
     | Some t \<Rightarrow> map_sum id (\<lambda>d. JObj [(''present'', JBool True), (''token_type'', JStr (token_type t)), (''expires_at'', d),
         (''has_refresh_token'', JBool (has_refresh_token t)), (''scope'', opt_json (scope t))]) (iso_date date_text t))"

section \<open>The file\<close>

definition token_json :: "OAuthToken \<Rightarrow> json" where
  "token_json t = JObj [(''access_token'', JStr (access_token t)), (''refresh_token'', opt_json (refresh_token t)),
     (''token_type'', JStr (token_type t)),
     (''expires_at'', case expires_at t of None \<Rightarrow> JNull | Some e \<Rightarrow> JNum (show_int e)), (''scope'', opt_json (scope t))]"

text \<open>What reading the file gives: there is none, reading or parsing throws, or its value.\<close>

datatype token_file = No_file | Bad_file | Json_file json

definition as_opt_string :: "json \<Rightarrow> string option option" where
  "as_opt_string v = (case v of JUndef \<Rightarrow> Some None | JStr s \<Rightarrow> Some (Some s) | _ \<Rightarrow> None)"

definition as_int :: "json \<Rightarrow> int option" where
  "as_int v = (case v of JNum t \<Rightarrow> (let x = number_value t in if of_int \<lfloor>x\<rfloor> = x then Some \<lfloor>x\<rfloor> else None) | _ \<Rightarrow> None)"

definition token_of :: "json \<Rightarrow> OAuthToken option" where
  "token_of v = (case (as_string (opt_get v ''access_token''), as_opt_string (opt_get v ''refresh_token''),
       as_string (opt_get v ''token_type''), as_int (opt_get v ''expires_at''), as_opt_string (opt_get v ''scope'')) of
     (Some a, Some r, Some ty, Some e, Some sc) \<Rightarrow>
       Some \<lparr>access_token = a, refresh_token = r, token_type = ty, expires_at = Some e, scope = sc\<rparr>
   | _ \<Rightarrow> None)"

text \<open>A \<open>null\<close> in the file is a read of a property that throws, and is caught.\<close>

definition loadToken :: "token_file \<Rightarrow> OAuthToken option outcome_of" where
  "loadToken f = (case f of No_file \<Rightarrow> Returns None | Bad_file \<Rightarrow> Returns None
     | Json_file v \<Rightarrow>
       if v = JNull \<or> \<not> truthy (opt_get v ''access_token'') \<or> \<not> truthy (opt_get v ''expires_at'') then Returns None
       else (case token_of v of None \<Rightarrow> Outside | Some t \<Rightarrow> Returns (Some t)))"

section \<open>The store\<close>

record token_store =
  store_token :: "OAuthToken option"
  has_handler :: bool
  store_file :: token_file
  store_writes :: "string option list"
  refreshes :: "string list"

definition new_store :: "bool \<Rightarrow> token_file \<Rightarrow> token_store" where
  "new_store handler f = \<lparr>store_token = None, has_handler = handler, store_file = f, store_writes = [], refreshes = []\<rparr>"

definition saveToken :: "OAuthToken \<Rightarrow> token_store \<Rightarrow> (string + unit) \<times> token_store" where
  "saveToken t s = (case store_writes s of
     Some e # ws \<Rightarrow> (Inl e, s\<lparr>store_writes := ws\<rparr>)
   | None # ws \<Rightarrow> (Inr (), s\<lparr>store_writes := ws, store_file := Json_file (reparsed (token_json t))\<rparr>)
   | [] \<Rightarrow> (Inr (), s\<lparr>store_file := Json_file (reparsed (token_json t))\<rparr>))"

definition store_initialize :: "token_store \<Rightarrow> token_store option" where
  "store_initialize s = (case loadToken (store_file s) of Returns t \<Rightarrow> Some (s\<lparr>store_token := t\<rparr>) | _ \<Rightarrow> None)"

text \<open>The refresh: without a refresh token it throws; else the handler answers a token or throws.\<close>

definition refreshToken :: "(string \<Rightarrow> string + OAuthToken) \<Rightarrow> OAuthToken \<Rightarrow> token_store \<Rightarrow> (string + OAuthToken) \<times> token_store" where
  "refreshToken handler t s = (case refresh_token t of
     Some (c # cs) \<Rightarrow> (if has_handler s then (handler (c # cs), s\<lparr>refreshes := refreshes s @ [c # cs]\<rparr>)
        else (Inl ''No refresh handler configured'', s))
   | _ \<Rightarrow> (Inl ''No refresh token available'', s))"

text \<open>A call of \<open>getToken\<close> that no other call interrupts; \<open>None\<close> when the file is outside the model.\<close>

definition get_loaded :: "(string \<Rightarrow> string + OAuthToken) \<Rightarrow> bool \<Rightarrow> int \<Rightarrow> token_store \<Rightarrow> OAuthToken option \<times> token_store" where
  "get_loaded handler forceRefresh now s = (case store_token s of None \<Rightarrow> (None, s)
     | Some t \<Rightarrow>
       if forceRefresh \<or> (has_handler s \<and> isTokenExpired t 60 now) then
         if \<not> has_handler s then (None, s)
         else (case refreshToken handler t s of (Inl e, s1) \<Rightarrow> (None, s1)
           | (Inr t', s1) \<Rightarrow> (case saveToken t' (s1\<lparr>store_token := Some t'\<rparr>) of
               (Inl e, s2) \<Rightarrow> (None, s2) | (Inr u, s2) \<Rightarrow> (store_token s2, s2)))
       else (Some t, s))"

definition getToken :: "(string \<Rightarrow> string + OAuthToken) \<Rightarrow> bool \<Rightarrow> int \<Rightarrow> token_store \<Rightarrow> (OAuthToken option \<times> token_store) option" where
  "getToken handler forceRefresh now s = map_option (get_loaded handler forceRefresh now)
     (case store_token s of None \<Rightarrow> store_initialize s | Some t \<Rightarrow> Some s)"

definition setToken :: "OAuthToken \<Rightarrow> token_store \<Rightarrow> (string + unit) \<times> token_store" where
  "setToken t s = (case saveToken t (s\<lparr>store_token := Some t\<rparr>) of (Inl e, s1) \<Rightarrow> (Inl e, s1)
     | (Inr u, s1) \<Rightarrow> (if expires_at t = None then Inl ''RangeError'' else Inr (), s1))"

definition clearToken :: "token_store \<Rightarrow> token_store" where
  "clearToken s = s\<lparr>store_token := None, store_file := No_file\<rparr>"

definition hasToken :: "int \<Rightarrow> token_store \<Rightarrow> bool" where
  "hasToken now s = (case store_token s of None \<Rightarrow> False | Some t \<Rightarrow> \<not> isTokenExpired t 60 now)"

definition getSanitizedInfo :: "(int \<Rightarrow> string) \<Rightarrow> string \<Rightarrow> token_store \<Rightarrow> string + json" where
  "getSanitizedInfo date_text provider s = (case store_token s of
     None \<Rightarrow> Inr (JObj [(''provider'', JStr provider), (''present'', JBool False)])
   | Some t \<Rightarrow> map_sum id (\<lambda>d. JObj [(''provider'', JStr provider), (''present'', JBool True), (''token_type'', JStr (token_type t)),
       (''expires_at'', d), (''has_refresh_token'', JBool (has_refresh_token t))]) (iso_date date_text t))"

section \<open>The refresh handler of \<open>createOAuthTokenStore\<close>\<close>

definition refresh_request :: "string \<Rightarrow> string \<Rightarrow> string option \<Rightarrow> (string \<Rightarrow> string) \<Rightarrow> string \<Rightarrow> http_request" where
  "refresh_request endpoint clientId clientSecret form refreshTok =
    (let sec = (case clientSecret of Some (c # cs) \<Rightarrow> Some (c # cs) | _ \<Rightarrow> None) in
     \<lparr>url = endpoint,
      headers = (''Content-Type'', ''application/x-www-form-urlencoded'') #
        (case sec of None \<Rightarrow> [] | Some p \<Rightarrow> [(''Authorization'', ''Basic '' @ base64 (clientId @ '':'' @ p))]),
      request_body = JStr (join ''&'' ([''grant_type=refresh_token'', ''refresh_token='' @ form refreshTok] @
        (case sec of None \<Rightarrow> [] | Some p \<Rightarrow> [''client_id='' @ form clientId]))),
      timeout_ms = 0\<rparr>)"

definition refreshed_token :: "int \<Rightarrow> string \<Rightarrow> json \<Rightarrow> OAuthToken outcome_of" where
  "refreshed_token now old data =
    (if data = JNull then Throws type_error
     else case (as_string (opt_get data ''access_token''), as_string (or_else (opt_get data ''refresh_token'') (JStr old)),
          as_string (opt_get data ''token_type''), as_opt_string (opt_get data ''scope'')) of
       (Some a, Some r, Some ty, Some sc) \<Rightarrow> (let ei = opt_get data ''expires_in'' in
          if ei = JUndef then Returns \<lparr>access_token = a, refresh_token = Some r, token_type = ty, expires_at = None, scope = sc\<rparr>
          else case as_int ei of None \<Rightarrow> Outside
            | Some n \<Rightarrow> Returns \<lparr>access_token = a, refresh_token = Some r, token_type = ty, expires_at = Some (calculateExpiresAt n now), scope = sc\<rparr>)
     | _ \<Rightarrow> Outside)"

definition refresh_handler :: "(http_request \<Rightarrow> string + http_reply) \<Rightarrow> string \<Rightarrow> string \<Rightarrow> string option \<Rightarrow> (string \<Rightarrow> string) \<Rightarrow>
    int \<Rightarrow> string \<Rightarrow> OAuthToken outcome_of" where
  "refresh_handler ask_endpoint endpoint clientId clientSecret form now refreshTok =
    (case ask_endpoint (refresh_request endpoint clientId clientSecret form refreshTok) of
       Inl e \<Rightarrow> Throws e
     | Inr rep \<Rightarrow>
       if \<not> reply_ok rep then Throws (''Token refresh failed: '' @ show_nat (reply_status rep) @ '' '' @ statusText rep)
       else (case reply_json rep of Inl e \<Rightarrow> Throws e | Inr data \<Rightarrow> refreshed_token now refreshTok data))"

section \<open>What a caller gets\<close>

lemma number_show_int: "\<bar>i\<bar> < 2 ^ 53 \<Longrightarrow> number_value (show_int i) = of_int i"
proof (cases "i < 0")
  case True
  moreover assume "\<bar>i\<bar> < 2 ^ 53"
  ultimately have n: "nat (- i) < 2 ^ 53" by (simp add: nat_less_iff)
  have "unsigned_value (show_nat (nat (- i))) = of_nat (nat (- i))"
    using skip_all_digits [OF show_nat_digits] by (simp add: unsigned_value_def)
  moreover have "flt (- of_nat (nat (- i))) = - of_nat (nat (- i))"
    using flt_of_nat_small [OF n] by (cases "nat (- i) = 0") (simp_all add: flt_def)
  ultimately show ?thesis using True by (simp add: show_int_def number_value_def)
next
  case False
  moreover assume "\<bar>i\<bar> < 2 ^ 53"
  ultimately show ?thesis using number_show_nat [of "nat i"] by (simp add: show_int_def nat_less_iff)
qed

definition storable :: "OAuthToken \<Rightarrow> bool" where
  "storable t \<longleftrightarrow> access_token t \<noteq> [] \<and> (case expires_at t of None \<Rightarrow> False | Some e \<Rightarrow> e \<noteq> 0 \<and> \<bar>e\<bar> < 2 ^ 53)"

lemma show_int_zero: "show_int e = ''0'' \<or> show_int e = ''-0'' \<Longrightarrow> \<bar>e\<bar> < 2 ^ 53 \<Longrightarrow> e = 0"
proof -
  assume "show_int e = ''0'' \<or> show_int e = ''-0''" "\<bar>e\<bar> < 2 ^ 53"
  moreover have "number_value ''0'' = 0" "number_value ''-0'' = 0" by code_simp+
  ultimately have "(of_int e :: rat) = 0" using number_show_int [of e] by auto
  then show ?thesis by simp
qed

lemma load_saved:
  assumes "storable t"
  shows "loadToken (Json_file (reparsed (token_json t))) = Returns (Some t)"
proof -
  obtain e where e: "expires_at t = Some e" "e \<noteq> 0" "\<bar>e\<bar> < 2 ^ 53"
    using assms by (auto simp: storable_def split: option.splits)
  let ?v = "reparsed (token_json t)"
  have f: "opt_get ?v ''access_token'' = JStr (access_token t)" "opt_get ?v ''token_type'' = JStr (token_type t)"
    "opt_get ?v ''expires_at'' = JNum (show_int e)" "opt_get ?v ''refresh_token'' = opt_json (refresh_token t)"
    "opt_get ?v ''scope'' = opt_json (scope t)"
    by (cases "refresh_token t"; cases "scope t"; simp add: token_json_def opt_json_def e(1) dget_Cons)+
  have "as_int (JNum (show_int e)) = Some e" by (simp add: as_int_def number_show_int [OF e(3)])
  moreover have "as_opt_string (opt_json x) = Some x" for x by (cases x) (simp_all add: as_opt_string_def opt_json_def)
  ultimately have "token_of ?v = Some t" using e(1) by (simp add: token_of_def f)
  moreover have "truthy (JNum (show_int e))" using show_int_zero [of e] e(2,3) by auto
  moreover have "?v \<noteq> JNull" by (simp add: token_json_def)
  ultimately show ?thesis using assms by (simp add: loadToken_def f storable_def)
qed

text \<open>What \<open>loadToken\<close> refuses, although it was written as it was.\<close>

lemma load_refused:
  assumes "access_token t = [] \<or> expires_at t = None \<or> expires_at t = Some 0"
  shows "loadToken (Json_file (reparsed (token_json t))) = Returns None"
proof -
  let ?v = "reparsed (token_json t)"
  have "opt_get ?v ''access_token'' = JStr (access_token t)"
    "opt_get ?v ''expires_at'' = (case expires_at t of None \<Rightarrow> JNull | Some e \<Rightarrow> JNum (show_int e))"
    by (cases "refresh_token t"; cases "scope t"; cases "expires_at t"; simp add: token_json_def opt_json_def dget_Cons)+
  moreover have "show_int 0 = ''0''" by code_simp
  ultimately show ?thesis using assms by (auto simp: loadToken_def)
qed

text \<open>A token survives a restart. When \<open>setToken\<close> succeeds, a new store on the same file gets the same token
  from \<open>getToken\<close>, with all its fields, for as long as it is more than a minute from its expiry, without
  a call of the refresh handler.\<close>

theorem token_survives_restart:
  assumes "setToken t s = (Inr (), s')" "storable t" "\<not> isTokenExpired t 60 now"
  shows "\<exists>s''. getToken handler False now (new_store h (store_file s')) = Some (Some t, s'') \<and> refreshes s'' = []"
proof -
  have "store_file s' = Json_file (reparsed (token_json t))"
    using assms(1) by (auto simp: setToken_def saveToken_def split: list.splits option.splits if_splits prod.splits sum.splits)
  then show ?thesis
    using load_saved [OF assms(2)] assms(3) by (simp add: getToken_def new_store_def store_initialize_def get_loaded_def)
qed

definition demo_token :: OAuthToken where
  "demo_token = \<lparr>access_token = ''a'', refresh_token = Some ''r'', token_type = ''Bearer'', expires_at = Some 100000, scope = None\<rparr>"

lemma token_survives_restart_witness:
  "\<exists>s' s''. setToken demo_token (new_store True No_file) = (Inr (), s') \<and>
     getToken (\<lambda>r. Inl ''no'') False 1000 (new_store True (store_file s')) = Some (Some demo_token, s'')"
proof -
  have "\<exists>s'. setToken demo_token (new_store True No_file) = (Inr (), s')"
    by (simp add: setToken_def saveToken_def new_store_def demo_token_def)
  then obtain s' where s': "setToken demo_token (new_store True No_file) = (Inr (), s')" by blast
  have "storable demo_token" "\<not> isTokenExpired demo_token 60 1000"
    by (simp_all add: storable_def demo_token_def isTokenExpired_def)
  from token_survives_restart [OF s' this] s' show ?thesis by blast
qed

text \<open>What \<open>getToken\<close> hands out. With a refresh handler, a call that is not forced returns a token with more
  than a minute to live, or the one that the handler just answered to the stored refresh token and that
  is on disk and in memory, or nothing. Without a handler it returns the stored token even when that has
  expired.\<close>

theorem getToken_returns:
  assumes "getToken handler False now s = Some (Some t, s')"
  shows "store_token s' = Some t \<and>
    (has_handler s \<and> (\<not> isTokenExpired t 60 now \<and> refreshes s' = refreshes s \<or>
       (\<exists>r. refreshes s' = refreshes s @ [r] \<and> handler r = Inr t \<and> store_file s' = Json_file (reparsed (token_json t)))) \<or>
     \<not> has_handler s \<and> refreshes s' = refreshes s)"
proof -
  obtain s1 where s1: "get_loaded handler False now s1 = (Some t, s')" "has_handler s1 = has_handler s" "refreshes s1 = refreshes s"
    using assms by (auto simp: getToken_def store_initialize_def split: option.splits outcome_of.splits)
  then show ?thesis
    by (auto simp: get_loaded_def refreshToken_def saveToken_def
        split: option.splits if_splits list.splits prod.splits sum.splits)
qed

lemma getToken_returns_witness:
  "\<exists>s'. getToken (\<lambda>r. Inr demo_token) False 0 (new_store True (Json_file (reparsed (token_json (demo_token\<lparr>expires_at := Some 5\<rparr>))))) =
     Some (Some demo_token, s') \<and> store_token s' = Some demo_token \<and> refreshes s' = [''r'']"
proof -
  let ?t = "demo_token\<lparr>expires_at := Some 5\<rparr>"
  let ?s = "new_store True (Json_file (reparsed (token_json ?t)))"
  have "storable ?t" by (simp add: storable_def demo_token_def)
  then have "\<exists>s'. getToken (\<lambda>r. Inr demo_token) False 0 ?s = Some (Some demo_token, s') \<and> refreshes s' \<noteq> []"
    using load_saved [of ?t]
    by (simp add: getToken_def store_initialize_def new_store_def get_loaded_def isTokenExpired_def refreshToken_def saveToken_def)
      (simp add: demo_token_def saveToken_def)
  then obtain s' where s': "getToken (\<lambda>r. Inr demo_token) False 0 ?s = Some (Some demo_token, s')" "refreshes s' \<noteq> []" by blast
  from getToken_returns [OF s'(1)] s' obtain r where "refreshes s' = [r]" "store_token s' = Some demo_token"
    by (auto simp: new_store_def)
  moreover have "r = ''r''" if "refreshes s' = [r]" for r
    using s'(1) that load_saved [OF \<open>storable ?t\<close>]
    by (auto simp: getToken_def store_initialize_def new_store_def get_loaded_def isTokenExpired_def refreshToken_def saveToken_def demo_token_def)
  ultimately show ?thesis using s'(1) by auto
qed

text \<open>
  An answer of the endpoint without \<open>expires_in\<close> gives a token that never expires in memory, whose storing
  fails after the fact, and that a new process does not find.\<close>

lemma no_expiry:
  "case refreshed_token 0 ''r'' (JObj [(''access_token'', JStr ''a''), (''token_type'', JStr ''Bearer'')]) of
     Returns t \<Rightarrow> \<not> isTokenExpired t 60 1000000000000 \<and> fst (setToken t (new_store True No_file)) = Inl ''RangeError'' \<and>
       loadToken (Json_file (reparsed (token_json t))) = Returns None
   | _ \<Rightarrow> False"
  by code_simp

section \<open>Calls that overlap\<close>

text \<open>
  \<open>getToken\<close> with a token loaded and a handler, as the calls of several callers: a call is at the \<open>await\<close> of
  a refresh or of the write, or has returned. \<open>shared\<close> is \<open>refreshPromise\<close>; a refresh that was started is
  open until its promise is settled.\<close>

datatype token_call = Awaits nat | Saves OAuthToken | Got "OAuthToken option"

record token_calls =
  current :: OAuthToken
  shared :: "nat option"
  settled_refreshes :: "(nat, string + OAuthToken) dict"
  refresh_count :: nat
  call_list :: "(nat, token_call) dict"

datatype token_action = T_call bool int | T_answer nat "string + OAuthToken" | T_resume nat | T_saved nat "string option"

definition open_refreshes :: "token_calls \<Rightarrow> nat list" where
  "open_refreshes s = filter (\<lambda>p. \<not> dhas (settled_refreshes s) p) [0..<refresh_count s]"

fun token_step :: "token_action \<Rightarrow> token_calls \<Rightarrow> token_calls option" where
  "token_step (T_call forceRefresh now) s = (let k = length (call_list s) in
     if forceRefresh \<or> isTokenExpired (current s) 60 now then
       (case shared s of
          Some p \<Rightarrow> Some (s\<lparr>call_list := dset k (Awaits p) (call_list s)\<rparr>)
        | None \<Rightarrow> (let p = refresh_count s in
            Some (s\<lparr>shared := Some p, refresh_count := Suc p, call_list := dset k (Awaits p) (call_list s)\<rparr>)))
     else Some (s\<lparr>call_list := dset k (Got (Some (current s))) (call_list s)\<rparr>))"
| "token_step (T_answer p r) s = (if p \<in> set (open_refreshes s)
     then Some (s\<lparr>settled_refreshes := dset p r (settled_refreshes s)\<rparr>) else None)"
| "token_step (T_resume k) s = (case dget (call_list s) k of
     Some (Awaits p) \<Rightarrow> (case dget (settled_refreshes s) p of
        None \<Rightarrow> None
      | Some (Inl e) \<Rightarrow> Some (s\<lparr>shared := None, call_list := dset k (Got None) (call_list s)\<rparr>)
      | Some (Inr t) \<Rightarrow> Some (s\<lparr>current := t, call_list := dset k (Saves t) (call_list s)\<rparr>))
   | _ \<Rightarrow> None)"
| "token_step (T_saved k err) s = (case dget (call_list s) k of
     Some (Saves t) \<Rightarrow> Some (s\<lparr>shared := None,
       call_list := dset k (Got (if err = None then Some (current s) else None)) (call_list s)\<rparr>)
   | _ \<Rightarrow> None)"

fun token_run :: "token_action list \<Rightarrow> token_calls \<Rightarrow> token_calls option" where
  "token_run [] s = Some s"
| "token_run (a # as) s = (case token_step a s of None \<Rightarrow> None | Some s' \<Rightarrow> token_run as s')"

definition idle_calls :: "OAuthToken \<Rightarrow> token_calls" where
  "idle_calls t = \<lparr>current = t, shared = None, settled_refreshes = [], refresh_count = 0, call_list = []\<rparr>"

text \<open>
  While every call shares the refresh that is open, there is only one. The write that follows a refresh
  undoes this: two callers of one refresh both clear \<open>refreshPromise\<close>, each after its own write, and the
  second does so while a refresh of a later caller is open, so that the next caller starts another.\<close>

lemma one_refresh_before_writes:
  "\<forall>as. list_all (\<lambda>a. case a of T_call b n \<Rightarrow> True | _ \<Rightarrow> False) as \<longrightarrow>
     (case token_run as (idle_calls t) of None \<Rightarrow> False | Some s \<Rightarrow> length (open_refreshes s) \<le> 1)"
proof (intro allI impI)
  fix as :: "token_action list"
  have "list_all (\<lambda>a. case a of T_call b n \<Rightarrow> True | _ \<Rightarrow> False) as \<Longrightarrow> settled_refreshes s = [] \<Longrightarrow>
      refresh_count s = (if shared s = None then 0 else 1) \<Longrightarrow>
      (case token_run as s of None \<Rightarrow> False | Some s \<Rightarrow> length (open_refreshes s) \<le> 1)" for s
  proof (induction as arbitrary: s)
    case Nil
    then show ?case by (simp add: open_refreshes_def)
  next
    case (Cons a as)
    then obtain b n where a: "a = T_call b n" by (cases a) auto
    obtain s' where "token_step a s = Some s'" "settled_refreshes s' = []" "refresh_count s' = (if shared s' = None then 0 else 1)"
      using Cons.prems by (cases "shared s"; cases "b \<or> isTokenExpired (current s) 60 n"; simp add: a Let_def)
    then show ?case using Cons.IH [of s'] Cons.prems(1) by simp
  qed
  moreover assume "list_all (\<lambda>a. case a of T_call b n \<Rightarrow> True | _ \<Rightarrow> False) as"
  ultimately show "case token_run as (idle_calls t) of None \<Rightarrow> False | Some s \<Rightarrow> length (open_refreshes s) \<le> 1"
    by (simp add: idle_calls_def)
qed

lemma two_refreshes_open:
  "case token_run [T_call True 0, T_call True 0, T_answer 0 (Inr demo_token), T_resume 0, T_resume 1, T_saved 0 None,
      T_call True 0, T_saved 1 None, T_call True 0] (idle_calls demo_token) of
     None \<Rightarrow> False | Some s \<Rightarrow> open_refreshes s = [1, 2]"
  by code_simp

end
