(* ===== verification/Credentials.thy ===== *)
theory Credentials
  imports Sanitize Routing Token_Store
begin

text \<open>
  \<open>src/core/credentials.ts\<close> and \<open>getProviderKey\<close> of \<open>src/core/config.ts\<close>: where the key of a provider comes
  from, the format checks, and the OAuth tokens of the providers that use them. The environment, the home
  directory and the files are parameters; the Gemini module is a parameter too. A credentials file whose
  value is no object has no entries. Paths are joined without being normalised.
\<close>

section \<open>Keys\<close>

type_synonym environment = "string \<Rightarrow> string option"

definition FREE_PROVIDERS :: "string list" where "FREE_PROVIDERS = [''kiro-ai'', ''iflow-ai'']"
definition OAUTH_PROVIDERS :: "string list" where "OAUTH_PROVIDERS = [''claude-ai'', ''anthropic'', ''gemini-ai'']"

definition non_empty :: "string option \<Rightarrow> string option" where
  "non_empty v = (case v of Some (c # cs) \<Rightarrow> Some (c # cs) | _ \<Rightarrow> None)"

definition getCredentialsPath :: "environment \<Rightarrow> string \<Rightarrow> string" where
  "getCredentialsPath env home = (case non_empty (env ''XDG_CONFIG_HOME'') of
     Some xdg \<Rightarrow> xdg @ ''/apohara/credentials.json'' | None \<Rightarrow> home @ ''/.apohara/credentials.json'')"

definition readCredentialsFileSync :: "token_file \<Rightarrow> json" where
  "readCredentialsFileSync f = (case f of Json_file v \<Rightarrow> v | _ \<Rightarrow> JNull)"

definition extractKey :: "json \<Rightarrow> string option" where
  "extractKey entry = (case entry of
     JStr (c # cs) \<Rightarrow> Some (c # cs)
   | JObj kvs \<Rightarrow> (case dget kvs ''apiKey'' of Some (JStr (c # cs)) \<Rightarrow> Some (c # cs) | _ \<Rightarrow> None)
   | _ \<Rightarrow> None)"

text \<open>\<open>toUpperCase\<close> of the names of providers, which are ASCII, and the name of the environment variable.\<close>

definition upper_char :: "char \<Rightarrow> char" where
  "upper_char c = (let n = (of_char c :: nat) in if 97 \<le> n \<and> n \<le> 122 then char_of (n - 32) else c)"

definition env_key :: "string \<Rightarrow> string" where
  "env_key provider = replace_char (CHR ''-'') ''_'' (map upper_char provider) @ ''_API_KEY''"

text \<open>
  The two resolvers. In the first, an error of reading, of parsing or of the look-up is caught; the second
  tests the parsed value for truth.\<close>

definition resolveCredential :: "environment \<Rightarrow> token_file \<Rightarrow> string \<Rightarrow> string option" where
  "resolveCredential env f provider =
    (let from_file = (case f of Json_file v \<Rightarrow> (case js_get v provider of Inl e \<Rightarrow> None | Inr entry \<Rightarrow> extractKey entry) | _ \<Rightarrow> None)
     in case from_file of Some k \<Rightarrow> Some k
      | None \<Rightarrow> (case non_empty (env (env_key provider)) of Some k \<Rightarrow> Some k
         | None \<Rightarrow> if provider \<in> set FREE_PROVIDERS then Some ''anonymous'' else None))"

definition resolveCredentialSync :: "environment \<Rightarrow> token_file \<Rightarrow> string \<Rightarrow> string option" where
  "resolveCredentialSync env f provider =
    (let parsed = readCredentialsFileSync f;
         from_file = (if truthy parsed then extractKey (opt_get parsed provider) else None)
     in case from_file of Some k \<Rightarrow> Some k
      | None \<Rightarrow> (case non_empty (env (env_key provider)) of Some k \<Rightarrow> Some k
         | None \<Rightarrow> if provider \<in> set FREE_PROVIDERS then Some ''anonymous'' else None))"

definition ENV_KEY_MAP :: "(string \<times> string) list" where
  "ENV_KEY_MAP = [(''anthropic-api'', ''ANTHROPIC_API_KEY''), (''gemini-api'', ''GOOGLE_AI_STUDIO_API_KEY'')]"

definition getProviderKey :: "environment \<Rightarrow> token_file \<Rightarrow> string \<Rightarrow> string option" where
  "getProviderKey env f provider =
    (let envKey = (case map_of ENV_KEY_MAP provider of Some k \<Rightarrow> k | None \<Rightarrow> env_key provider)
     in case non_empty (env envKey) of Some k \<Rightarrow> Some k | None \<Rightarrow> resolveCredentialSync env f provider)"

section \<open>Format checks\<close>

text \<open>\<open>None\<close> is a valid key, else the error.\<close>

definition validateApiKeyFormat :: "string \<Rightarrow> string \<Rightarrow> string option" where
  "validateApiKeyFormat keyName value =
    (let starts = starts_with value; n = length value in
     if value = [] then None
     else if keyName = ''ANTHROPIC_API_KEY'' then
       (if \<not> starts ''sk-ant-api03-'' then Some ''Invalid Anthropic API key format. Keys must start with 'sk-ant-api03-'. Note: OAuth tokens (sk-ant-oat01-*) are not supported.''
        else if n < 40 then Some ''Invalid Anthropic API key: too short (minimum 40 characters).'' else None)
     else if keyName = ''OPENCODE_API_KEY'' then
       (if \<not> starts ''oc-'' \<and> \<not> starts ''opencode-'' then Some ''Invalid OpenCode API key format. Keys must start with 'oc-' or 'opencode-'.''
        else if n < 20 then Some ''Invalid OpenCode API key: too short (minimum 20 characters).'' else None)
     else if keyName = ''GOOGLE_AI_STUDIO_API_KEY'' then
       (if \<not> starts ''AIza'' then Some ''Invalid Google AI Studio API key format. Keys must start with 'AIza'.''
        else if n \<noteq> 39 then Some ''Invalid Google AI Studio API key: must be exactly 39 characters (AIza + 35 chars).'' else None)
     else if keyName = ''OPENAI_API_KEY'' then
       (if \<not> starts ''sk-'' \<and> \<not> starts ''sk-proj-'' then Some ''Invalid OpenAI API key format. Keys must start with 'sk-' or 'sk-proj-'.''
        else if n < 40 then Some ''Invalid OpenAI API key: too short (minimum 40 characters).'' else None)
     else if keyName = ''DEEPSEEK_API_KEY'' then
       (if \<not> starts ''sk-'' \<and> \<not> starts ''deepseek-'' then Some ''Invalid DeepSeek API key format. Keys must start with 'sk-' or 'deepseek-'.''
        else if n < 20 then Some ''Invalid DeepSeek API key: too short (minimum 20 characters).'' else None)
     else if n < 10 then Some (''Invalid API key for '' @ keyName @ '': too short (minimum 10 characters).'') else None)"

section \<open>OAuth tokens\<close>

definition loadClientId :: "token_file \<Rightarrow> string \<Rightarrow> json" where
  "loadClientId f provider =
    (let key = (case map_of [(''claude-ai'', ''claude-oauth-client-id''), (''anthropic'', ''claude-oauth-client-id'')] provider of
          Some k \<Rightarrow> k | None \<Rightarrow> provider @ ''-oauth-client-id'')
     in case f of Json_file v \<Rightarrow> (case js_get v key of Inl e \<Rightarrow> JStr [] | Inr w \<Rightarrow> or_else w (JStr [])) | _ \<Rightarrow> JStr [])"

definition CLAUDE_TOKEN_ENDPOINT :: string where "CLAUDE_TOKEN_ENDPOINT = ''https://claude.ai/api/oauth/token''"

definition claude_refresh :: "(http_request \<Rightarrow> string + http_reply) \<Rightarrow> (string \<Rightarrow> string) \<Rightarrow> token_file \<Rightarrow> string \<Rightarrow> int \<Rightarrow> string \<Rightarrow>
    OAuthToken outcome_of" where
  "claude_refresh ask_endpoint form f provider now refreshTok =
    (let clientId = loadClientId f provider in
     if \<not> truthy clientId then Throws (''No client ID configured for '' @ provider)
     else case ask_endpoint \<lparr>url = CLAUDE_TOKEN_ENDPOINT, headers = [(''Content-Type'', ''application/x-www-form-urlencoded'')],
          request_body = JStr (join ''&'' [''grant_type=refresh_token'', ''refresh_token='' @ form refreshTok,
            ''client_id='' @ form (js_string clientId)]), timeout_ms = 0\<rparr> of
       Inl e \<Rightarrow> Throws e
     | Inr rep \<Rightarrow>
       if \<not> reply_ok rep then Throws (''Token refresh failed: '' @ show_nat (reply_status rep) @ '' '' @ statusText rep)
       else (case reply_json rep of Inl e \<Rightarrow> Throws e | Inr data \<Rightarrow> refreshed_token now refreshTok data))"

text \<open>
  The stores, made when they are first asked for. For \<open>gemini-ai\<close> the module is asked for a function that it
  does not export, which throws; the callers treat that provider before.\<close>

type_synonym stores = "(string, token_store) dict"

definition getTokenStore :: "(string \<Rightarrow> token_file) \<Rightarrow> string \<Rightarrow> stores \<Rightarrow> (string + token_store) \<times> stores" where
  "getTokenStore token_files provider st = (case dget st provider of
     Some s \<Rightarrow> (Inr s, st)
   | None \<Rightarrow> if provider = ''gemini-ai'' then (Inl type_error, st)
       else (let s = new_store True (token_files provider) in (Inr s, dset provider s st)))"

text \<open>What the Gemini module answers: a token, validity, information; \<open>Inl\<close> where it throws.\<close>

record gemini_module =
  getGeminiAccessToken :: "string + string option"
  hasValidGeminiCredentials :: "string + bool"
  getGeminiTokenInfo :: "string + json"

definition resolveOAuthToken :: "(string \<Rightarrow> token_file) \<Rightarrow> gemini_module \<Rightarrow> (string \<Rightarrow> string + OAuthToken) \<Rightarrow> int \<Rightarrow> string \<Rightarrow> stores \<Rightarrow>
    (string option \<times> stores) option" where
  "resolveOAuthToken token_files gemini handler now provider st =
    (if provider \<notin> set OAUTH_PROVIDERS then Some (None, st)
     else if provider = ''gemini-ai'' then
       Some (case getGeminiAccessToken gemini of Inl e \<Rightarrow> None | Inr t \<Rightarrow> t, st)
     else case getTokenStore token_files provider st of
         (Inl e, st1) \<Rightarrow> Some (None, st1)
       | (Inr s, st1) \<Rightarrow> map_option (\<lambda>(t, s'). (map_option access_token t, dset provider s' st1)) (getToken handler False now s))"

definition hasOAuthToken :: "(string \<Rightarrow> token_file) \<Rightarrow> gemini_module \<Rightarrow> int \<Rightarrow> string \<Rightarrow> stores \<Rightarrow> bool \<times> stores" where
  "hasOAuthToken token_files gemini now provider st =
    (if provider \<notin> set OAUTH_PROVIDERS then (False, st)
     else if provider = ''gemini-ai'' then (case hasValidGeminiCredentials gemini of Inl e \<Rightarrow> False | Inr b \<Rightarrow> b, st)
     else case getTokenStore token_files provider st of (Inl e, st1) \<Rightarrow> (False, st1) | (Inr s, st1) \<Rightarrow> (hasToken now s, st1))"

definition getOAuthTokenInfo :: "(string \<Rightarrow> token_file) \<Rightarrow> gemini_module \<Rightarrow> (int \<Rightarrow> string) \<Rightarrow> string \<Rightarrow> stores \<Rightarrow> json \<times> stores" where
  "getOAuthTokenInfo token_files gemini date_text provider st =
    (let failed = JObj [(''provider'', JStr provider), (''error'', JStr ''Failed to get token info'')] in
     if provider \<notin> set OAUTH_PROVIDERS then (JObj [(''provider'', JStr provider), (''oauth_supported'', JBool False)], st)
     else if provider = ''gemini-ai'' then (case getGeminiTokenInfo gemini of Inl e \<Rightarrow> failed | Inr v \<Rightarrow> v, st)
     else case getTokenStore token_files provider st of (Inl e, st1) \<Rightarrow> (failed, st1)
       | (Inr s, st1) \<Rightarrow> (case getSanitizedInfo date_text provider s of Inl e \<Rightarrow> failed | Inr v \<Rightarrow> v, st1))"

section \<open>Where a key comes from\<close>

lemma resolve_sync: "resolveCredentialSync env f provider = resolveCredential env f provider"
proof -
  have e: "extractKey JUndef = None" by (simp add: extractKey_def)
  show ?thesis
    by (cases f) (auto simp: resolveCredential_def resolveCredentialSync_def readCredentialsFileSync_def Let_def e opt_get_def
        split: sum.split elim!: truthy.elims)
qed

text \<open>The key in the credentials file.\<close>

definition file_key :: "token_file \<Rightarrow> string \<Rightarrow> string option" where
  "file_key f provider = (case f of Json_file v \<Rightarrow> extractKey (opt_get v provider) | _ \<Rightarrow> None)"

lemma resolve_cases:
  "resolveCredential env f provider = (case file_key f provider of Some k \<Rightarrow> Some k
     | None \<Rightarrow> (case non_empty (env (env_key provider)) of Some k \<Rightarrow> Some k
        | None \<Rightarrow> if provider \<in> set FREE_PROVIDERS then Some ''anonymous'' else None))"
proof -
  have e: "extractKey JUndef = None" by (simp add: extractKey_def)
  show ?thesis by (auto simp: resolveCredential_def file_key_def opt_get_def Let_def e split: token_file.split sum.split)
qed

text \<open>The precedence of keys. The two resolvers agree on every environment, file and provider, and look at the
  credentials file first; \<open>getProviderKey\<close>, which the routers ask, looks at the environment first, and at the
  file only when the variable of the provider is missing or empty. A key that is found is never empty.\<close>

theorem key_precedence:
  "resolveCredentialSync env f p = resolveCredential env f p \<and>
   resolveCredential env f p = (case file_key f p of Some k \<Rightarrow> Some k
     | None \<Rightarrow> (case non_empty (env (env_key p)) of Some k \<Rightarrow> Some k
        | None \<Rightarrow> if p \<in> set FREE_PROVIDERS then Some ''anonymous'' else None)) \<and>
   getProviderKey env f p = (case non_empty (env (case map_of ENV_KEY_MAP p of Some v \<Rightarrow> v | None \<Rightarrow> env_key p)) of
       Some k \<Rightarrow> Some k | None \<Rightarrow> resolveCredential env f p) \<and>
   getProviderKey env f p \<noteq> Some [] \<and> resolveCredential env f p \<noteq> Some []"
proof -
  have x: "extractKey v \<noteq> Some []" for v
    by (auto simp: extractKey_def split: json.splits list.splits option.splits)
  have n: "non_empty v \<noteq> Some []" for v by (auto simp: non_empty_def split: option.splits list.splits)
  have r: "resolveCredential env f p \<noteq> Some []"
    using x n by (auto simp: resolve_cases file_key_def split: option.splits token_file.splits)
  then show ?thesis using n
    by (auto simp: resolve_sync resolve_cases getProviderKey_def Let_def split: option.splits)
qed

text \<open>
  The documented variable of the primary provider is never read. The schema of the configuration and the
  format checks name it \<open>OPENCODE_API_KEY\<close>; the routers look the key up under \<open>opencode-go\<close>, that is in
  \<open>OPENCODE_GO_API_KEY\<close>. With no other variable set and no credentials file, the agent router takes the
  provider for unavailable, whatever the value of the documented variable.\<close>

theorem opencode_key_unread:
  "getProviderKey (\<lambda>v. if v = ''OPENCODE_API_KEY'' then Some k else None) No_file ''opencode-go'' = None \<and>
   \<not> validateToken (getProviderKey (\<lambda>v. if v = ''OPENCODE_API_KEY'' then Some k else None) No_file) OpencodeGo \<and>
   OpencodeGo \<notin> set (getAvailableProviders (getProviderKey (\<lambda>v. if v = ''OPENCODE_API_KEY'' then Some k else None) No_file))"
proof -
  have "env_key ''opencode-go'' = ''OPENCODE_GO_API_KEY''" by code_simp
  then have k: "getProviderKey (\<lambda>v. if v = ''OPENCODE_API_KEY'' then Some k else None) No_file ''opencode-go'' = None"
    by (simp add: getProviderKey_def ENV_KEY_MAP_def resolve_sync resolve_cases file_key_def non_empty_def FREE_PROVIDERS_def)
  then have "\<not> validateToken (getProviderKey (\<lambda>v. if v = ''OPENCODE_API_KEY'' then Some k else None) No_file) OpencodeGo"
    by (simp add: validateToken_def)
  with k show ?thesis using available_valid by blast
qed

section \<open>Valid keys and redaction\<close>

lemma in_patterns: "p \<in> set REDACTION_PATTERNS \<Longrightarrow> key_word p w \<Longrightarrow> \<not> sublist w (redact s)"
  using redact_clean [of s] by (auto simp: list_all_iff occurs_word)

lemma sublist_mono: "sublist w k \<Longrightarrow> sublist k s \<Longrightarrow> sublist w s"
  by (rule sublist_order.order_trans)

text \<open>Valid Anthropic and Google keys do not leak. A key of characters of the key alphabet that passes the
  format check of one of these two providers does not occur in a redacted text, whatever is around it.\<close>

theorem valid_keys_redacted:
  assumes "validateApiKeyFormat name k = None" "name \<in> {''ANTHROPIC_API_KEY'', ''GOOGLE_AI_STUDIO_API_KEY''}"
    and "k \<noteq> []" "list_all is_key_char k"
  shows "\<not> sublist k (redact (a @ k @ b))"
proof -
  have "\<exists>p w. p \<in> set REDACTION_PATTERNS \<and> key_word p w \<and> prefix w k"
  proof (cases "name = ''ANTHROPIC_API_KEY''")
    case True
    then have k: "starts_with k ''sk-ant-api03-''" "40 \<le> length k"
      using assms(1,3) by (auto simp: validateApiKeyFormat_def Let_def split: if_splits)
    then obtain r where "k = ''sk-ant-'' @ (''api03-'' @ r)" by (auto simp: starts_with_iff)
    then obtain t where t: "k = ''sk-ant-'' @ t" "33 \<le> length t" using k(2) by auto
    have "list_all is_key_char (take 32 t)" using assms(4) t by (auto simp: list_all_iff dest: in_set_takeD)
    then have "key_word \<lparr>kp_prefix = ''sk-ant-'', kp_class = is_key_char, kp_count = 32, kp_more = True\<rparr> (''sk-ant-'' @ take 32 t)"
      using t(2) by (simp add: key_word_def)
    moreover have "prefix (''sk-ant-'' @ take 32 t) k" using t(1) take_is_prefix by simp
    ultimately show ?thesis unfolding REDACTION_PATTERNS_def by (intro exI conjI) (auto)
  next
    case False
    then have k: "starts_with k ''AIza''" "length k = 39"
      using assms(1,2,3) by (auto simp: validateApiKeyFormat_def Let_def split: if_splits)
    then obtain t where t: "k = ''AIza'' @ t" "length t = 35" by (auto simp: starts_with_iff)
    then have "key_word \<lparr>kp_prefix = ''AIza'', kp_class = is_key_char, kp_count = 35, kp_more = False\<rparr> k"
      using assms(4) by (auto simp: key_word_def list_all_iff)
    then show ?thesis unfolding REDACTION_PATTERNS_def by (intro exI conjI) (auto)
  qed
  then obtain p w where "p \<in> set REDACTION_PATTERNS" "key_word p w" "sublist w k" by (auto intro: prefix_imp_sublist)
  then show ?thesis using in_patterns sublist_mono by blast
qed

definition demo_anthropic :: string where
  "demo_anthropic = ''sk-ant-api03-'' @ replicate 30 (CHR ''x'')"

lemma valid_keys_redacted_witness: "\<not> sublist demo_anthropic (redact (''key='' @ demo_anthropic @ []))"
proof -
  have x: "is_key_char (CHR ''x'')" "list_all is_key_char ''sk-ant-api03-''" by code_simp+
  have "validateApiKeyFormat ''ANTHROPIC_API_KEY'' demo_anthropic = None"
    by (simp add: validateApiKeyFormat_def demo_anthropic_def starts_with_def Let_def)
  moreover have "list_all is_key_char demo_anthropic" using x by (simp add: demo_anthropic_def list_all_iff)
  ultimately show ?thesis
    using valid_keys_redacted [of "''ANTHROPIC_API_KEY''" demo_anthropic "''key=''" "[]"] by (simp add: demo_anthropic_def)
qed

text \<open>Keys of other providers are valid and not redacted, the project keys of OpenAI among them.\<close>

lemma valid_keys_that_leak:
  "validateApiKeyFormat ''OPENAI_API_KEY'' (''sk-proj-'' @ replicate 38 (CHR ''x'')) = None \<and>
   redact (''sk-proj-'' @ replicate 38 (CHR ''x'')) = ''sk-proj-'' @ replicate 38 (CHR ''x'')"
  "validateApiKeyFormat ''OPENCODE_API_KEY'' (''oc-'' @ replicate 30 (CHR ''x'')) = None \<and>
   redact (''oc-'' @ replicate 30 (CHR ''x'')) = ''oc-'' @ replicate 30 (CHR ''x'')"
  by code_simp+

text \<open>
  A store that was just made has loaded nothing, so \<open>hasOAuthToken\<close> denies a token that \<open>resolveOAuthToken\<close> hands
  out from the same file.\<close>

lemma token_denied:
  assumes "storable t" "\<not> isTokenExpired t 60 now" "token_files ''claude-ai'' = Json_file (reparsed (token_json t))"
  shows "fst (hasOAuthToken token_files gemini now ''claude-ai'' []) = False"
    "\<exists>st. resolveOAuthToken token_files gemini handler now ''claude-ai'' [] = Some (Some (access_token t), st)"
  using load_saved [OF assms(1)] assms(2,3)
  by (simp_all add: hasOAuthToken_def resolveOAuthToken_def OAUTH_PROVIDERS_def getTokenStore_def hasToken_def new_store_def
      getToken_def store_initialize_def get_loaded_def Let_def)

end
