(* ===== verification/Summary.thy ===== *)
theory Summary
  imports "HOL-Library.Multiset" Js_Value Ledger Scheduler
begin

text \<open>
  \<open>src/core/summary.ts\<close>: the summary of a run, from the events of the ledger files and the persisted state.

  An event is read from its JSON line into the fields that the summary uses; a line that parses to a value
  of another shape than \<open>EventLog\<close> is outside the model, except \<open>null\<close>, on which the sort throws. Numbers
  are binary64. Parameters (\<open>summary_env\<close>): the collation key behind \<open>localeCompare\<close>, \<open>Date.getTime\<close> on the text of a
  time stamp (\<open>None\<close> is \<open>NaN\<close>), and the texts of \<open>`${n}`\<close> and \<open>toLocaleString\<close> for a number.
  Directories are written normalised, without a slash at the end.
\<close>

section \<open>Events\<close>

datatype js_num = NaN | Num rat

record run_event =
  re_timestamp :: string
  re_type :: string
  re_taskId :: "string option"
  re_provider :: "string option"
  re_tokens :: "(rat \<times> rat \<times> rat) option"
  re_cost :: "rat option"
  re_duration :: "rat option"
  re_payload :: "string \<Rightarrow> string option"

definition text_ok :: "json \<Rightarrow> string \<Rightarrow> bool" where
  "text_ok v k = (case opt_get v k of JUndef \<Rightarrow> True | JNull \<Rightarrow> True | JStr s \<Rightarrow> True | _ \<Rightarrow> False)"

definition text_at :: "json \<Rightarrow> string \<Rightarrow> string option" where
  "text_at v k = (case opt_get v k of JStr s \<Rightarrow> Some s | _ \<Rightarrow> None)"

definition num_ok :: "json \<Rightarrow> string \<Rightarrow> bool" where
  "num_ok v k = (case opt_get v k of JUndef \<Rightarrow> True | JNull \<Rightarrow> True | JNum t \<Rightarrow> True | _ \<Rightarrow> False)"

definition num_at :: "json \<Rightarrow> string \<Rightarrow> rat option" where
  "num_at v k = (case opt_get v k of JNum t \<Rightarrow> Some (number_value t) | _ \<Rightarrow> None)"

definition nullish_or_object :: "json \<Rightarrow> bool" where
  "nullish_or_object v = (case v of JUndef \<Rightarrow> True | JNull \<Rightarrow> True | JObj kvs \<Rightarrow> True | _ \<Rightarrow> False)"

text \<open>The fields of the payload that the summary reads.\<close>

definition payload_fields :: "string list" where
  "payload_fields = [''from'', ''provider'', ''to'', ''fallback'', ''file'']"

definition event_ok :: "json \<Rightarrow> bool" where
  "event_ok v = (let p = opt_get v ''payload''; m = opt_get v ''metadata''; t = opt_get m ''tokens'' in
     (case opt_get v ''timestamp'' of JStr s \<Rightarrow> True | _ \<Rightarrow> False) \<and>
     (case opt_get v ''type'' of JStr s \<Rightarrow> True | _ \<Rightarrow> False) \<and> text_ok v ''taskId'' \<and>
     (case p of JObj kvs \<Rightarrow> True | _ \<Rightarrow> False) \<and> list_all (text_ok p) payload_fields \<and>
     nullish_or_object m \<and> text_ok m ''provider'' \<and> num_ok m ''costUsd'' \<and> num_ok m ''durationMs'' \<and>
     nullish_or_object t \<and> list_all (num_ok t) [''prompt'', ''completion'', ''total''])"

text \<open>\<open>x || 0\<close>\<close>

definition or_zero :: "rat option \<Rightarrow> rat" where
  "or_zero x = (case x of None \<Rightarrow> 0 | Some r \<Rightarrow> r)"

definition read_event :: "json \<Rightarrow> run_event" where
  "read_event v = (let p = opt_get v ''payload''; m = opt_get v ''metadata''; t = opt_get m ''tokens'' in
     \<lparr>re_timestamp = (case text_at v ''timestamp'' of Some s \<Rightarrow> s | None \<Rightarrow> []),
      re_type = (case text_at v ''type'' of Some s \<Rightarrow> s | None \<Rightarrow> []),
      re_taskId = text_at v ''taskId'', re_provider = text_at m ''provider'',
      re_tokens = (case t of JObj kvs \<Rightarrow> Some (or_zero (num_at t ''prompt''), or_zero (num_at t ''completion''),
         or_zero (num_at t ''total'')) | _ \<Rightarrow> None),
      re_cost = num_at m ''costUsd'', re_duration = num_at m ''durationMs'', re_payload = text_at p\<rparr>)"

section \<open>Reading the ledger files\<close>

text \<open>The lines that are not blank and parse.\<close>

definition parse_lines :: "string \<Rightarrow> json list" where
  "parse_lines s = List.map_filter json_parse (filter (\<lambda>l. trim l \<noteq> []) (split_lines s))"

text \<open>
  The file system: the file of the ledger object, \<open>None\<close> when it is missing or unreadable, and the entries
  of the directory of events with whether they are files and their text.\<close>

record event_files =
  own_file :: "string option"
  listing :: "(string \<times> bool \<times> string option) list option"

record summary_env =
  collation :: "string \<Rightarrow> nat list"
  get_time :: "string \<Rightarrow> int option"
  number_text :: "rat \<Rightarrow> string"
  locale_text :: "rat \<Rightarrow> string"

definition join_path :: "string \<Rightarrow> string \<Rightarrow> string" where
  "join_path d n = d @ CHR ''/'' # n"

definition listed_events :: "string \<Rightarrow> string \<Rightarrow> string \<times> bool \<times> string option \<Rightarrow> json list" where
  "listed_events ledgerFilePath eventsDir e = (case e of (name, isFile, c) \<Rightarrow>
     if isFile \<and> ends_with name ''.jsonl'' \<and> join_path eventsDir name \<noteq> ledgerFilePath then
       (case c of Some s \<Rightarrow> parse_lines s | None \<Rightarrow> []) else [])"

definition raw_events :: "string \<Rightarrow> string \<Rightarrow> event_files \<Rightarrow> json list" where
  "raw_events ledgerFilePath eventsDir F =
     (case own_file F of Some s \<Rightarrow> parse_lines s | None \<Rightarrow> []) @
     (case listing F of Some es \<Rightarrow> concat (map (listed_events ledgerFilePath eventsDir) es) | None \<Rightarrow> [])"

definition readEvents :: "summary_env \<Rightarrow> string \<Rightarrow> string \<Rightarrow> event_files \<Rightarrow> run_event list outcome_of" where
  "readEvents E ledgerFilePath eventsDir F = (let raw = raw_events ledgerFilePath eventsDir F in
     if JNull \<in> set raw \<and> 2 \<le> length raw then Throws type_error
     else if list_all event_ok raw then
       Returns (sort_key (\<lambda>e. collation E (re_timestamp e)) (map read_event raw))
     else Outside)"

section \<open>Task results\<close>

record TaskResult =
  tr_id :: string
  tr_status :: TaskStatus
  tr_description :: string
  tr_durationMs :: "js_num option"
  tr_provider :: "string option"
  tr_costUsd :: "rat option"

definition time_diff :: "summary_env \<Rightarrow> string \<Rightarrow> string \<Rightarrow> js_num" where
  "time_diff E start stop = (case (get_time E start, get_time E stop) of
     (Some s, Some e) \<Rightarrow> Num (of_int (e - s)) | _ \<Rightarrow> NaN)"

definition has_type :: "string \<Rightarrow> run_event \<Rightarrow> bool" where
  "has_type t e \<longleftrightarrow> re_type e = t"

definition truthy_text :: "string option \<Rightarrow> bool" where
  "truthy_text s \<longleftrightarrow> s \<noteq> None \<and> s \<noteq> Some []"

definition truthy_number :: "rat option \<Rightarrow> bool" where
  "truthy_number x \<longleftrightarrow> x \<noteq> None \<and> x \<noteq> Some 0"

definition buildResult :: "summary_env \<Rightarrow> string \<Rightarrow> TaskStatus \<Rightarrow> string \<Rightarrow> run_event list \<Rightarrow> TaskResult" where
  "buildResult E i status description taskEvents =
    (let completionEvent = List.find (has_type ''task_completed'') taskEvents;
         startEvent = List.find (\<lambda>e. has_type ''task_started'' e \<or> has_type ''task_dispatched'' e) taskEvents
     in \<lparr>tr_id = i, tr_status = status, tr_description = description,
         tr_durationMs = (case completionEvent of None \<Rightarrow> None
           | Some c \<Rightarrow> (case startEvent of
               Some s \<Rightarrow> Some (time_diff E (re_timestamp s) (re_timestamp c))
             | None \<Rightarrow> if truthy_number (re_duration c) then map_option Num (re_duration c) else None)),
         tr_provider = Option.bind (List.find (\<lambda>e. truthy_text (re_provider e)) taskEvents) re_provider,
         tr_costUsd = Option.bind (List.find (\<lambda>e. truthy_number (re_cost e)) taskEvents) re_cost\<rparr>)"

text \<open>A \<open>Set\<close> filled from a list: the elements in the order of their first insertion.\<close>

definition set_insert :: "'a list \<Rightarrow> 'a \<Rightarrow> 'a list" where
  "set_insert s x = (if x \<in> set s then s else s @ [x])"

definition set_of :: "'a list \<Rightarrow> 'a list" where
  "set_of xs = foldl set_insert [] xs"

definition task_events :: "string \<Rightarrow> run_event list \<Rightarrow> run_event list" where
  "task_events i events = filter (\<lambda>e. re_taskId e = Some i) events"

definition event_task_ids :: "run_event list \<Rightarrow> string list" where
  "event_task_ids events = set_of (map (\<lambda>e. the (re_taskId e)) (filter (\<lambda>e. truthy_text (re_taskId e)) events))"

definition event_status :: "run_event list \<Rightarrow> TaskStatus" where
  "event_status taskEvents =
     (if List.find (has_type ''task_completed'') taskEvents \<noteq> None then Completed else In_progress)"

definition extractTaskResults :: "summary_env \<Rightarrow> OrchestratorState \<Rightarrow> run_event list \<Rightarrow> TaskResult list" where
  "extractTaskResults E st events =
     map (\<lambda>t. buildResult E (task_id t) (task_status t) (task_description t) (task_events (task_id t) events))
       (tasks st) @
     map (\<lambda>i. buildResult E i (event_status (task_events i events)) i (task_events i events))
       (filter (\<lambda>i. i \<notin> set (map task_id (tasks st))) (event_task_ids events))"

section \<open>Totals\<close>

record TokenSummary =
  prompt_tokens :: rat
  completion_tokens :: rat
  total_tokens :: rat

definition add_tokens :: "rat \<times> rat \<Rightarrow> run_event \<Rightarrow> rat \<times> rat" where
  "add_tokens pc e = (case re_tokens e of None \<Rightarrow> pc
     | Some (p, c, t) \<Rightarrow> (fadd (fst pc) p, fadd (snd pc) c))"

definition calculateTokens :: "run_event list \<Rightarrow> TokenSummary option" where
  "calculateTokens events = (let (p, c) = foldl add_tokens (0, 0) events; t = fadd p c in
     if t = 0 then None else Some \<lparr>prompt_tokens = p, completion_tokens = c, total_tokens = t\<rparr>)"

definition add_cost :: "rat \<Rightarrow> run_event \<Rightarrow> rat" where
  "add_cost acc e = (case re_cost e of Some c \<Rightarrow> fadd acc c | None \<Rightarrow> acc)"

definition calculateCost :: "run_event list \<Rightarrow> rat option" where
  "calculateCost events = (let t = foldl add_cost 0 events in if 0 < t then Some t else None)"

record FallbackEvent =
  fromProvider :: string
  toProvider :: string
  fb_timestamp :: string
  fb_taskId :: "string option"

definition text_or :: "string option \<Rightarrow> string \<Rightarrow> string" where
  "text_or s d = (if truthy_text s then the s else d)"

definition fallback_of :: "run_event \<Rightarrow> FallbackEvent" where
  "fallback_of e = \<lparr>
     fromProvider = text_or (re_payload e ''from'') (text_or (re_payload e ''provider'') ''unknown''),
     toProvider = text_or (re_payload e ''to'') (text_or (re_payload e ''fallback'') ''unknown''),
     fb_timestamp = re_timestamp e, fb_taskId = re_taskId e\<rparr>"

definition is_fallback :: "run_event \<Rightarrow> bool" where
  "is_fallback e \<longleftrightarrow> has_type ''provider_fallback'' e \<or> has_type ''fallback'' e"

definition extractFallbacks :: "run_event list \<Rightarrow> FallbackEvent list" where
  "extractFallbacks events = map fallback_of (filter is_fallback events)"

text \<open>One event of \<open>trackFiles\<close>, on the lists of created and of modified files.\<close>

definition track_file :: "string list \<times> string list \<Rightarrow> run_event \<Rightarrow> string list \<times> string list" where
  "track_file cm e = (case re_payload e ''file'' of None \<Rightarrow> cm
     | Some f \<Rightarrow>
       if f = [] then cm
       else if has_type ''file_created'' e then (set_insert (fst cm) f, snd cm)
       else if has_type ''file_modified'' e then
         (fst cm, if f \<in> set (fst cm) then snd cm else set_insert (snd cm) f)
       else cm)"

definition trackFiles :: "run_event list \<Rightarrow> string list \<times> string list" where
  "trackFiles events = foldl track_file ([], []) events"

record ProviderStats =
  ps_taskCount :: nat
  ps_totalTokens :: rat
  ps_totalCostUsd :: rat

definition add_stats :: "(string, ProviderStats) dict \<Rightarrow> run_event \<Rightarrow> (string, ProviderStats) dict" where
  "add_stats m e = (case re_provider e of None \<Rightarrow> m
     | Some p \<Rightarrow>
       if p = [] then m
       else let old = (case dget m p of Some s \<Rightarrow> s
                | None \<Rightarrow> \<lparr>ps_taskCount = 0, ps_totalTokens = 0, ps_totalCostUsd = 0\<rparr>) in
         dset p \<lparr>ps_taskCount = ps_taskCount old + 1,
           ps_totalTokens = fadd (ps_totalTokens old) (case re_tokens e of Some (a, b, t) \<Rightarrow> t | None \<Rightarrow> 0),
           ps_totalCostUsd = fadd (ps_totalCostUsd old) (or_zero (re_cost e))\<rparr> m)"

definition calculateProviderStats :: "run_event list \<Rightarrow> (string, ProviderStats) dict" where
  "calculateProviderStats events = foldl add_stats [] events"

definition calculateDuration :: "summary_env \<Rightarrow> run_event list \<Rightarrow> js_num option" where
  "calculateDuration E events = (if events = [] then None
     else Some (time_diff E (re_timestamp (hd events)) (re_timestamp (last events))))"

section \<open>The text\<close>

record RunSummary =
  rs_timestamp :: string
  rs_duration :: "js_num option"
  rs_tasks :: "TaskResult list"
  rs_tokens :: "TokenSummary option"
  rs_costUsd :: "rat option"
  rs_fallbacks :: "FallbackEvent list"
  rs_created :: "string list"
  rs_modified :: "string list"
  rs_providers :: "(string, ProviderStats) dict"
  rs_runId :: string

fun pad_left :: "nat \<Rightarrow> string \<Rightarrow> string" where
  "pad_left k s = replicate (k - length s) (CHR ''0'') @ s"

text \<open>\<open>x.toFixed(k)\<close>: the nearest multiple of \<open>10 ^ -k\<close>, the larger on a tie, of the absolute value.\<close>

definition fixed_abs :: "nat \<Rightarrow> rat \<Rightarrow> string" where
  "fixed_abs k x = (let n = nat \<lfloor>x * 10 ^ k + 1 / 2\<rfloor> in
     if k = 0 then show_nat n
     else show_nat (n div 10 ^ k) @ ''.'' @ pad_left k (show_nat (n mod 10 ^ k)))"

definition to_fixed :: "nat \<Rightarrow> rat \<Rightarrow> string" where
  "to_fixed k x = (if x < 0 then ''-'' @ fixed_abs k (- x) else fixed_abs k x)"

text \<open>\<open>x % m\<close> for \<open>0 \<le> x\<close>, which is exact.\<close>

definition rem_pos :: "rat \<Rightarrow> rat \<Rightarrow> rat" where
  "rem_pos x m = x - of_int \<lfloor>x / m\<rfloor> * m"

definition formatDuration :: "summary_env \<Rightarrow> rat \<Rightarrow> string" where
  "formatDuration E ms =
    (if ms < 1000 then number_text E ms @ ''ms''
     else if ms < 60000 then to_fixed 1 (fdiv ms 1000) @ ''s''
     else show_int \<lfloor>fdiv ms 60000\<rfloor> @ ''m '' @ to_fixed 0 (fdiv (rem_pos ms 60000) 1000) @ ''s'')"

definition count_status :: "TaskStatus \<Rightarrow> TaskResult list \<Rightarrow> nat" where
  "count_status s ts = length (filter (\<lambda>t. tr_status t = s) ts)"

definition done_mark :: string where "done_mark = [CHR 0xE2, CHR 0x9C, CHR 0x85]"
definition failed_mark :: string where "failed_mark = [CHR 0xE2, CHR 0x9D, CHR 0x8C]"
definition hourglass :: string where "hourglass = [CHR 0xE2, CHR 0x8F, CHR 0xB3]"
definition white_circle :: string where "white_circle = [CHR 0xE2, CHR 0x9A, CHR 0xAA]"
definition caution_mark :: string where
  "caution_mark = [CHR 0xE2, CHR 0x9A, CHR 0xA0, CHR 0xEF, CHR 0xB8, CHR 0x8F]"
definition right_arrow :: string where "right_arrow = [CHR 0xE2, CHR 0x86, CHR 0x92]"

definition getOverallStatus :: "TaskResult list \<Rightarrow> string" where
  "getOverallStatus ts =
    (if ts = [] then white_circle @ '' No tasks''
     else let completed = count_status Completed ts; failed = count_status Failed ts in
       if failed = 0 \<and> completed = length ts then done_mark @ '' All tasks completed''
       else if 0 < completed \<and> 0 < failed then caution_mark @ '' Partial success''
       else if 0 < failed then failed_mark @ '' All tasks failed''
       else hourglass @ '' In progress or unknown'')"

definition dollars :: "rat \<Rightarrow> string" where
  "dollars c = ''$'' @ to_fixed 4 c"

definition narrative_body :: "TaskResult list \<Rightarrow> nat \<Rightarrow> string" where
  "narrative_body ts fallbackCount =
    (let completed = count_status Completed ts; failed = count_status Failed ts; n = length ts in
     if n = 0 then
       ''This run completed without any tasks being executed. The system may have been idle or the task queue was empty.'' @ [newline]
     else if failed = 0 \<and> completed = n then
       ''This run completed successfully. All '' @ show_nat n @ '' task(s) finished without errors.'' @
       (if 0 < fallbackCount then '' There were '' @ show_nat fallbackCount @
          '' provider fallback(s) during execution, but all tasks completed successfully despite the provider switches.'' else [])
     else if 0 < completed \<and> 0 < failed then
       ''This run completed with partial success. '' @ show_nat completed @ '' of '' @ show_nat n @
       '' task(s) completed successfully, while '' @ show_nat failed @ '' task(s) failed.'' @
       (if 0 < fallbackCount then '' '' @ show_nat fallbackCount @ '' provider fallback(s) occurred during this run.'' else [])
     else if 0 < failed then
       ''This run encountered issues. All '' @ show_nat n @ '' task(s) failed to complete successfully.''
     else ''This run is in progress or the status is unknown.'')"

definition generateNarrative :: "RunSummary \<Rightarrow> string" where
  "generateNarrative s = ''## Narrative'' @ [newline, newline] @
     narrative_body (rs_tasks s) (length (rs_fallbacks s)) @
     (if truthy_number (rs_costUsd s) then '' The estimated cost for this run was '' @ dollars (the (rs_costUsd s)) @ ''.'' else []) @
     [newline]"

fun status_name :: "TaskStatus \<Rightarrow> string" where
  "status_name Pending = ''pending''"
| "status_name In_progress = ''in_progress''"
| "status_name Completed = ''completed''"
| "status_name Failed = ''failed''"

text \<open>\<open>d ? formatDuration(d) : n\<close>: 0 and \<open>NaN\<close> are falsy.\<close>

definition duration_or :: "summary_env \<Rightarrow> js_num option \<Rightarrow> string \<Rightarrow> string" where
  "duration_or E d n = (case d of Some (Num x) \<Rightarrow> if x = 0 then n else formatDuration E x | _ \<Rightarrow> n)"

definition task_row :: "summary_env \<Rightarrow> TaskResult \<Rightarrow> string" where
  "task_row E t = ''| '' @ tr_id t @ '' | '' @
     (case tr_status t of Completed \<Rightarrow> done_mark | Failed \<Rightarrow> failed_mark | _ \<Rightarrow> hourglass) @ '' '' @
     status_name (tr_status t) @ '' | '' @ duration_or E (tr_durationMs t) ''N/A'' @ '' | '' @
     text_or (tr_provider t) ''N/A'' @ '' | '' @
     (if truthy_number (tr_costUsd t) then dollars (the (tr_costUsd t)) else ''N/A'') @ '' |''"

definition header_lines :: "summary_env \<Rightarrow> RunSummary \<Rightarrow> string list" where
  "header_lines E s = [''# Apohara Auto Run Summary'', [], ''**Run ID:** '' @ rs_runId s,
     ''**Timestamp:** '' @ rs_timestamp s] @
     (case rs_duration s of Some (Num x) \<Rightarrow> if x = 0 then [] else [''**Duration:** '' @ formatDuration E x] | _ \<Rightarrow> []) @
     [''**Status:** '' @ getOverallStatus (rs_tasks s), []]"

definition task_lines :: "summary_env \<Rightarrow> TaskResult list \<Rightarrow> string list" where
  "task_lines E ts = [''---'', [], ''## Tasks Executed'', []] @
     (if ts = [] then [''No tasks recorded in this run.'']
      else [''| Task ID | Status | Duration | Provider | Cost |'', ''|---------|--------|----------|----------|------|''] @
        map (task_row E) ts) @ [[]]"

definition usage_lines :: "summary_env \<Rightarrow> RunSummary \<Rightarrow> string list" where
  "usage_lines E s = (if rs_tokens s = None \<and> \<not> truthy_number (rs_costUsd s) then []
     else [''---'', [], ''## Usage Summary'', []] @
       (case rs_tokens s of None \<Rightarrow> []
        | Some t \<Rightarrow> [''- **Prompt Tokens:** '' @ locale_text E (prompt_tokens t),
            ''- **Completion Tokens:** '' @ locale_text E (completion_tokens t),
            ''- **Total Tokens:** '' @ locale_text E (total_tokens t)]) @
       (if truthy_number (rs_costUsd s) then [''- **Estimated Cost:** '' @ dollars (the (rs_costUsd s))] else []) @ [[]])"

definition fallback_row :: "FallbackEvent \<Rightarrow> string" where
  "fallback_row f = ''- '' @ fb_timestamp f @ '': '' @ fromProvider f @ '' '' @ right_arrow @ '' '' @ toProvider f @
     (if truthy_text (fb_taskId f) then '' (task: '' @ the (fb_taskId f) @ '')'' else [])"

definition fallback_lines :: "FallbackEvent list \<Rightarrow> string list" where
  "fallback_lines fs = (if fs = [] then []
     else [''---'', [], ''## Fallbacks Activated'', []] @ map fallback_row fs @ [[]])"

definition file_list :: "string \<Rightarrow> string list \<Rightarrow> string list" where
  "file_list title fs = (if fs = [] then [] else [title, []] @ map (\<lambda>f. ''- '' @ f) fs @ [[]])"

definition file_lines :: "string list \<Rightarrow> string list \<Rightarrow> string list" where
  "file_lines created modified = (if created = [] \<and> modified = [] then []
     else [''---'', [], ''## Files'', []] @ file_list ''### Created'' created @ file_list ''### Modified'' modified)"

definition provider_row :: "summary_env \<Rightarrow> string \<times> ProviderStats \<Rightarrow> string" where
  "provider_row E ps = ''| '' @ fst ps @ '' | '' @ show_nat (ps_taskCount (snd ps)) @ '' | '' @
     locale_text E (ps_totalTokens (snd ps)) @ '' | '' @ dollars (ps_totalCostUsd (snd ps)) @ '' |''"

definition provider_lines :: "summary_env \<Rightarrow> (string, ProviderStats) dict \<Rightarrow> string list" where
  "provider_lines E m = (if m = [] then []
     else [''---'', [], ''## Provider Statistics'', [], ''| Provider | Tasks | Tokens | Cost |'',
        ''|----------|-------|--------|------|''] @ map (provider_row E) m @ [[]])"

definition buildMarkdown :: "summary_env \<Rightarrow> RunSummary \<Rightarrow> string" where
  "buildMarkdown E s = join [newline] (header_lines E s @ task_lines E (rs_tasks s) @ usage_lines E s @
     fallback_lines (rs_fallbacks s) @ file_lines (rs_created s) (rs_modified s) @
     provider_lines E (rs_providers s) @ [''---'', [], generateNarrative s])"

section \<open>Generating a summary\<close>

record SummaryGenerator =
  sg_ledger :: EventLedger
  sg_ledgerPath :: string
  sg_eventsDir :: string
  sg_outputDir :: string
  sg_state :: StateMachine

definition default_to :: "string option \<Rightarrow> string \<Rightarrow> string" where
  "default_to x d = text_or x d"

text \<open>The constructor; the run id falls back to the given time stamp, with \<open>:\<close> and \<open>.\<close> replaced.\<close>

definition new_summary :: "string \<Rightarrow> string \<Rightarrow> string option \<Rightarrow> string option \<Rightarrow> string option \<Rightarrow> StateMachine \<Rightarrow> SummaryGenerator" where
  "new_summary cwd now rid evDir outDir sm =
    (let r = default_to rid (map (\<lambda>c. if c = CHR '':'' \<or> c = CHR ''.'' then CHR ''-'' else c) now) in
     \<lparr>sg_ledger = new_ledger r, sg_ledgerPath = join_path (join_path cwd ''.events'') (''run-'' @ r @ ''.jsonl''),
      sg_eventsDir = default_to evDir ''.events'', sg_outputDir = default_to outDir ''.apohara/runs'', sg_state = sm\<rparr>)"

definition last_segment :: "string \<Rightarrow> string" where
  "last_segment p = rev (takeWhile (\<lambda>c. c \<noteq> CHR ''/'') (rev p))"

definition cut_first :: "string \<Rightarrow> string \<Rightarrow> string" where
  "cut_first w s = (case (before_first w s, after_first w s) of (Some a, Some b) \<Rightarrow> a @ b | _ \<Rightarrow> s)"

definition run_id_of :: "string \<Rightarrow> string" where
  "run_id_of p = (let r = cut_first ''.jsonl'' (cut_first ''run-'' (last_segment p)) in if r = [] then ''unknown'' else r)"

definition summarize :: "summary_env \<Rightarrow> string \<Rightarrow> string \<Rightarrow> OrchestratorState \<Rightarrow> run_event list \<Rightarrow> RunSummary" where
  "summarize E now r st events = (let fs = trackFiles events in
     \<lparr>rs_timestamp = now, rs_duration = calculateDuration E events, rs_tasks = extractTaskResults E st events,
      rs_tokens = calculateTokens events, rs_costUsd = calculateCost events, rs_fallbacks = extractFallbacks events,
      rs_created = fst fs, rs_modified = snd fs, rs_providers = calculateProviderStats events, rs_runId = r\<rparr>)"

definition num_json :: "summary_env \<Rightarrow> rat option \<Rightarrow> json" where
  "num_json E x = (case x of None \<Rightarrow> JUndef | Some r \<Rightarrow> JNum (number_text E r))"

text \<open>\<open>JSON.stringify\<close> writes \<open>NaN\<close> as \<open>null\<close>.\<close>

definition duration_json :: "summary_env \<Rightarrow> js_num option \<Rightarrow> json" where
  "duration_json E d = (case d of None \<Rightarrow> JUndef | Some NaN \<Rightarrow> JNull | Some (Num x) \<Rightarrow> JNum (number_text E x))"

text \<open>
  The write of the summary: what the creation of the directory, the write and a failing log reject with. The
  result of \<open>generate\<close> comes with the file that it wrote, the ledger object and the ledger's file.\<close>

record write_io =
  dir_error :: "string option"
  file_error :: "string option"
  log_error :: string

definition writeSummary :: "write_io \<Rightarrow> string \<Rightarrow> string \<Rightarrow> string \<Rightarrow> (string + string) \<times> (string \<times> string) option" where
  "writeSummary W outputDir markdown r = (let p = join_path (join_path outputDir r) ''summary.md'' in
     case (dir_error W, file_error W) of
       (Some e, _) \<Rightarrow> (Inl e, None) | (None, Some e) \<Rightarrow> (Inl e, None) | (None, None) \<Rightarrow> (Inr p, Some (p, markdown)))"

definition generate :: "summary_env \<Rightarrow> (string \<Rightarrow> string) \<Rightarrow> ledger_io \<Rightarrow> write_io \<Rightarrow> string \<Rightarrow> event_files \<Rightarrow> SummaryGenerator \<Rightarrow>
    string outcome_of \<times> (string \<times> string) option \<times> EventLedger \<times> text_file" where
  "generate E H io W now F g =
    (let r = run_id_of (sg_ledgerPath g); st = sm_state (sm_load (sg_state g)) in
     case readEvents E (sg_ledgerPath g) (sg_eventsDir g) F of
       Throws e \<Rightarrow> (Throws e, None, sg_ledger g, own_file F)
     | Outside \<Rightarrow> (Outside, None, sg_ledger g, own_file F)
     | Returns events \<Rightarrow>
       let s = summarize E now r st events in
       (case writeSummary W (sg_outputDir g) (buildMarkdown E s) r of
          (Inl e, w) \<Rightarrow> (Throws e, w, sg_ledger g, own_file F)
        | (Inr p, w) \<Rightarrow>
          let (ok, led, f) = ledger_log H io ''summary_generated''
                (JObj [(''summaryPath'', JStr p), (''taskCount'', JNum (show_nat (length (rs_tasks s)))),
                  (''duration'', duration_json E (rs_duration s)), (''costUsd'', num_json E (rs_costUsd s))])
                Info None JUndef (sg_ledger g) (own_file F)
          in (if ok then Returns p else Throws (log_error W), w, led, f)))"

section \<open>Facts\<close>

lemma set_insert_fold: "distinct s \<Longrightarrow> distinct (foldl set_insert s xs) \<and> set (foldl set_insert s xs) = set s \<union> set xs"
  by (induction xs arbitrary: s) (auto simp: set_insert_def)

lemma set_of_facts [simp]: "distinct (set_of xs)" "set (set_of xs) = set xs"
  using set_insert_fold [of "[]" xs] by (simp_all add: set_of_def)

lemma find_none: "List.find P xs \<noteq> None \<longleftrightarrow> (\<exists>x \<in> set xs. P x)"
  by (auto simp: find_None_iff)

lemma event_task_ids_set: "set (event_task_ids es) = {i. i \<noteq> [] \<and> (\<exists>e \<in> set es. re_taskId e = Some i)}"
  by (force simp: event_task_ids_def truthy_text_def)

lemma distinct_event_task_ids: "distinct (event_task_ids es)"
  by (simp add: event_task_ids_def)

lemma buildResult_simps [simp]:
  "tr_id (buildResult E i s d es) = i" "tr_status (buildResult E i s d es) = s"
  "tr_description (buildResult E i s d es) = d"
  by (simp_all add: buildResult_def Let_def)

lemma event_status_iff: "event_status (task_events i es) =
    (if \<exists>e \<in> set es. re_taskId e = Some i \<and> re_type e = ''task_completed'' then Completed else In_progress)"
  by (auto simp: event_status_def find_None_iff task_events_def has_type_def)

text \<open>C27.
  The rows of the summary. The first rows are the tasks of the state, in order, with their ids and their
  states; then one row for every other non-empty task id of an event, none twice. A task that is known from events
  alone is completed exactly when it has a completion event, and otherwise in progress: never failed.\<close>

theorem summary_tasks:
  "let rs = extractTaskResults E st es; n = length (tasks st) in
    map tr_id (take n rs) = map task_id (tasks st) \<and> map tr_status (take n rs) = map task_status (tasks st) \<and>
    distinct (map tr_id (drop n rs)) \<and>
    set (map tr_id (drop n rs)) = {i. i \<noteq> [] \<and> (\<exists>e \<in> set es. re_taskId e = Some i)} - set (map task_id (tasks st)) \<and>
    map tr_status (drop n rs) = map (\<lambda>r. if \<exists>e \<in> set es. re_taskId e = Some (tr_id r) \<and> re_type e = ''task_completed''
      then Completed else In_progress) (drop n rs)"
proof -
  let ?a = "map (\<lambda>t. buildResult E (task_id t) (task_status t) (task_description t) (task_events (task_id t) es)) (tasks st)"
  let ?b = "map (\<lambda>i. buildResult E i (event_status (task_events i es)) i (task_events i es))
       (filter (\<lambda>i. i \<notin> set (map task_id (tasks st))) (event_task_ids es))"
  let ?rs = "extractTaskResults E st es" and ?n = "length (tasks st)"
  have rs: "take ?n ?rs = ?a" "drop ?n ?rs = ?b" by (simp_all add: extractTaskResults_def)
  show ?thesis unfolding Let_def rs
    by (simp only: map_map o_def buildResult_simps event_status_iff list.map_ident set_filter event_task_ids_set
        distinct_filter distinct_event_task_ids) blast
qed

subsection \<open>Files\<close>

definition file_event :: "string \<Rightarrow> string \<Rightarrow> run_event \<Rightarrow> bool" where
  "file_event t f e \<longleftrightarrow> f \<noteq> [] \<and> re_type e = t \<and> re_payload e ''file'' = Some f"

definition modified_first :: "string \<Rightarrow> run_event list \<Rightarrow> bool" where
  "modified_first f es \<longleftrightarrow> (\<exists>as e bs. es = as @ e # bs \<and> file_event ''file_modified'' f e \<and>
     (\<forall>e' \<in> set as. \<not> file_event ''file_created'' f e'))"

lemma modified_first_snoc: "modified_first f (es @ [e]) \<longleftrightarrow> modified_first f es \<or>
    file_event ''file_modified'' f e \<and> (\<forall>e' \<in> set es. \<not> file_event ''file_created'' f e')" (is "?l = ?r")
proof
  assume ?l
  then obtain as x bs where d: "es @ [e] = as @ x # bs" "file_event ''file_modified'' f x"
    "\<forall>e' \<in> set as. \<not> file_event ''file_created'' f e'" by (auto simp: modified_first_def)
  then show ?r by (cases bs rule: rev_cases) (auto simp: modified_first_def)
next
  assume ?r
  then show ?l
  proof
    assume "modified_first f es"
    then obtain as x bs where "es = as @ x # bs" "file_event ''file_modified'' f x"
      "\<forall>e' \<in> set as. \<not> file_event ''file_created'' f e'" by (auto simp: modified_first_def)
    then show ?l unfolding modified_first_def by (intro exI [of _ as] exI [of _ x] exI [of _ "bs @ [e]"]) simp
  qed (auto simp: modified_first_def)
qed

lemma trackFiles_snoc: "trackFiles (es @ [e]) = track_file (trackFiles es) e"
  by (simp add: trackFiles_def)

lemma track_invariant:
  "distinct (fst (trackFiles es)) \<and> distinct (snd (trackFiles es)) \<and>
   set (fst (trackFiles es)) = {f. \<exists>e \<in> set es. file_event ''file_created'' f e} \<and>
   set (snd (trackFiles es)) = {f. modified_first f es}"
proof (induction es rule: rev_induct)
  case Nil
  then show ?case by (simp add: trackFiles_def modified_first_def)
next
  case (snoc e es)
  obtain c m where cm: "trackFiles es = (c, m)" by fastforce
  have IH: "distinct c" "distinct m" "\<And>f. f \<in> set c \<longleftrightarrow> (\<exists>e \<in> set es. file_event ''file_created'' f e)"
    "\<And>f. f \<in> set m \<longleftrightarrow> modified_first f es" using snoc by (auto simp: cm)
  have fe: "file_event t f e \<longleftrightarrow> f \<noteq> [] \<and> re_type e = t \<and> re_payload e ''file'' = Some f" for t f
    by (simp add: file_event_def)
  have s: "set c = {f. \<exists>e \<in> set es. file_event ''file_created'' f e}" "set m = {f. modified_first f es}"
    using IH(3,4) by blast+
  show ?case
  proof (cases "re_payload e ''file''")
    case None
    then show ?thesis using IH(1,2) s
      by (simp add: trackFiles_snoc cm track_file_def modified_first_snoc fe)
  next
    case (Some f)
    then show ?thesis using IH(1,2) s
      by (auto simp: trackFiles_snoc cm track_file_def modified_first_snoc fe set_insert_def has_type_def)
  qed
qed

text \<open>The files of the summary. Each list holds a file once. A file is listed as created exactly when some event creates it, and as modified exactly when some event modifies it
  before which none creates it.\<close>

theorem summary_files:
  "distinct (fst (trackFiles es)) \<and> distinct (snd (trackFiles es)) \<and>
   set (fst (trackFiles es)) = {f. \<exists>e \<in> set es. file_event ''file_created'' f e} \<and>
   set (snd (trackFiles es)) = {f. \<exists>as e bs. es = as @ e # bs \<and> file_event ''file_modified'' f e \<and>
     (\<forall>e' \<in> set as. \<not> file_event ''file_created'' f e')}"
  using track_invariant [of es] by (simp add: modified_first_def)

subsection \<open>Provider statistics\<close>

definition provider_count :: "string \<Rightarrow> run_event list \<Rightarrow> nat" where
  "provider_count p es = (case dget (calculateProviderStats es) p of Some s \<Rightarrow> ps_taskCount s | None \<Rightarrow> 0)"

lemma provider_count_events:
  "p \<noteq> [] \<Longrightarrow> provider_count p es = length (filter (\<lambda>e. re_provider e = Some p) es)"
proof (induction es rule: rev_induct)
  case Nil
  then show ?case by (simp add: provider_count_def calculateProviderStats_def)
next
  case (snoc e es)
  then show ?case
    by (auto simp: provider_count_def calculateProviderStats_def add_stats_def Let_def dict.get_put split: option.splits)
qed

lemma provider_count_perm:
  assumes "p \<noteq> []" "mset es = mset es'"
  shows "provider_count p es = provider_count p es'"
  using assms by (simp add: provider_count_events) (metis mset_filter size_mset)

subsection \<open>What the text says\<close>

text \<open>The status line and the narrative look at the counts only: with one failure, no success and anything else pending they say that all tasks failed.\<close>

lemma all_failed_label:
  assumes "0 < count_status Failed ts" "count_status Completed ts = 0"
  shows "getOverallStatus ts = failed_mark @ '' All tasks failed'' \<and>
    narrative_body ts k = ''This run encountered issues. All '' @ show_nat (length ts) @ '' task(s) failed to complete successfully.''"
proof -
  have "ts \<noteq> []" using assms(1) by (auto simp: count_status_def)
  then show ?thesis using assms by (simp add: getOverallStatus_def narrative_body_def Let_def)
qed

text \<open>The seconds are rounded after the minutes are split off, so they can be 60.\<close>

lemma sixty_seconds: "formatDuration E 119999 = ''1m 60s''"
proof -
  have "\<lfloor>fdiv 119999 60000\<rfloor> = 1"  by code_simp
  moreover have "to_fixed 0 (fdiv (rem_pos 119999 60000) 1000) = ''60''" by code_simp
  moreover have "show_int 1 = ''1''" by code_simp
  ultimately show ?thesis by (simp add: formatDuration_def)
qed

text \<open>A line that is the JSON text \<open>null\<close> is not malformed: it is kept, and the sort throws on it.\<close>

lemma null_line_throws:
  assumes "JNull \<in> set (raw_events path dir F)" "2 \<le> length (raw_events path dir F)"
  shows "readEvents E path dir F = Throws type_error"
  using assms by (simp add: readEvents_def)

section \<open>The summary reads what the ledger wrote\<close>

lemma opt_get_reparsed: "wf_json v \<Longrightarrow> opt_get (reparsed v) k = reparsed (opt_get v k)"
proof (cases v)
  case (JObj kvs)
  assume "wf_json v"
  then have "distinct (map fst kvs)" by (simp add: JObj)
  then have "map_of (map (\<lambda>kv. (fst kv, reparsed (snd kv))) (filter (\<lambda>kv. snd kv \<noteq> JUndef) kvs)) k =
      (case map_of kvs k of None \<Rightarrow> None | Some w \<Rightarrow> if w = JUndef then None else Some (reparsed w))"
    by (induction kvs) (force simp: map_of_eq_None_iff split: option.splits)+
  then show ?thesis by (simp add: JObj dget_def split: option.splits)
qed simp_all

lemma wf_opt_get: "wf_json v \<Longrightarrow> wf_json (opt_get v k)"
  by (cases v) (auto simp: dget_def list_all_iff split: option.splits dest!: map_of_SomeD)

lemma shape_reparsed [simp]:
  "(case reparsed v of JStr s \<Rightarrow> f s | _ \<Rightarrow> z) = (case v of JStr s \<Rightarrow> f s | _ \<Rightarrow> z)"
  "(case reparsed v of JNum t \<Rightarrow> f t | _ \<Rightarrow> z) = (case v of JNum t \<Rightarrow> f t | _ \<Rightarrow> z)"
  "(case reparsed v of JObj kvs \<Rightarrow> c | _ \<Rightarrow> z) = (case v of JObj kvs \<Rightarrow> c | _ \<Rightarrow> z)"
  "nullish_or_object (reparsed v) = nullish_or_object v"
  by (cases v; simp add: nullish_or_object_def)+

lemma fields_reparsed:
  assumes "wf_json v"
  shows "text_ok (reparsed v) k = text_ok v k" "text_at (reparsed v) k = text_at v k"
    "num_ok (reparsed v) k = num_ok v k" "num_at (reparsed v) k = num_at v k"
  unfolding text_ok_def text_at_def num_ok_def num_at_def opt_get_reparsed [OF assms]
  by (cases "opt_get v k"; simp)+

lemma read_reparsed:
  assumes "wf_json v"
  shows "event_ok (reparsed v) = event_ok v" "read_event (reparsed v) = read_event v"
proof -
  have w: "wf_json (opt_get v ''payload'')" "wf_json (opt_get v ''metadata'')"
    "wf_json (opt_get (opt_get v ''metadata'') ''tokens'')" using assms by (simp_all add: wf_opt_get)
  note r = fields_reparsed [OF w(1)] fields_reparsed [OF w(2)] fields_reparsed [OF w(3)]
    fields_reparsed [OF assms] opt_get_reparsed [OF assms] opt_get_reparsed [OF w(2)]
  show "event_ok (reparsed v) = event_ok v"
    by (simp add: event_ok_def Let_def r payload_fields_def)
  show "read_event (reparsed v) = read_event v"
    unfolding read_event_def Let_def r shape_reparsed ..
qed

lemma opt_get_append: "opt_get (JObj (kvs @ kvs')) k =
    (case map_of kvs k of Some v \<Rightarrow> v | None \<Rightarrow> opt_get (JObj kvs') k)"
  by (simp add: dget_def map_add_def split: option.splits)

lemma read_seal:
  assumes "sealable ev"
  shows "event_ok (seal ev p h) = event_ok ev" "read_event (seal ev p h) = read_event ev"
proof -
  from assms obtain kvs where ev: "ev = JObj kvs" by (auto simp: sealable_def)
  have g: "opt_get (seal ev p h) k = opt_get ev k" if "k \<noteq> ''prev_hash''" "k \<noteq> ''hash''" for k
    using that by (simp add: ev opt_get_append dget_def map_add_def split: option.splits)
  have "text_ok (seal ev p h) k = text_ok ev k" "text_at (seal ev p h) k = text_at ev k"
    if "k \<noteq> ''prev_hash''" "k \<noteq> ''hash''" for k by (simp_all add: text_ok_def text_at_def g that)
  then show "event_ok (seal ev p h) = event_ok ev" "read_event (seal ev p h) = read_event ev"
    by (simp_all add: event_ok_def read_event_def g)
qed

text \<open>The text of a value starts with a character that is no white space, so its line is not blank.\<close>

lemma stringify_not_blank:
  assumes "wf_json v" "v \<noteq> JUndef"
  shows "trim (stringify v) \<noteq> []"
proof -
  have d: "\<not> is_space c" if "c = CHR ''-'' \<or> is_digit c" for c
    using that by (auto simp: is_digit_def is_space_def Let_def)
  have "\<exists>c cs. stringify v = c # cs \<and> \<not> is_space c"
  proof (cases v)
    case (JNum t)
    then show ?thesis using number_head [of t] assms d by auto
  qed (use assms in \<open>auto simp: stringify_str_def is_space_def dquote_def\<close>)
  then show ?thesis by (auto simp: trim_def)
qed

lemma parse_lines_lines: "parse_lines s = List.map_filter json_parse (filter (\<lambda>l. trim l \<noteq> []) (lines s))"
proof -
  have "trim [] = []" by (simp add: trim_def)
  then have "filter (\<lambda>l. trim l \<noteq> []) (filter (\<lambda>l. l \<noteq> []) ls) = filter (\<lambda>l. trim l \<noteq> []) ls" for ls
    by (induction ls) auto
  then show ?thesis by (simp add: parse_lines_def lines_def)
qed

lemma map_filter_append: "List.map_filter f (xs @ ys) = List.map_filter f xs @ List.map_filter f ys"
  by (induction xs) (auto simp: map_filter_simps split: option.splits)

lemma parse_lines_append:
  assumes "lines s' = lines s @ [stringify (seal ev p h)]" "sealable ev"
  shows "parse_lines s' = parse_lines s @ [reparsed (seal ev p h)]"
proof -
  have "seal ev p h \<noteq> JUndef" using assms(2) by (auto simp: sealable_def)
  then show ?thesis
    using stringify_not_blank [OF wf_seal [OF assms(2)]] seal_parse(1) [OF assms(2)]
    by (simp add: parse_lines_lines assms(1) map_filter_append map_filter_simps)
qed

text \<open>What the summary makes of a ledger file.\<close>

definition file_events :: "text_file \<Rightarrow> run_event list" where
  "file_events f = map read_event (parse_lines (content f))"

lemma read_sealed:
  assumes "sealable ev"
  shows "read_event (reparsed (seal ev p h)) = read_event ev" "event_ok (reparsed (seal ev p h)) = event_ok ev"
  using read_reparsed [OF wf_seal [OF assms]] read_seal [OF assms] by simp_all

lemma log_file_events:
  assumes "\<forall>x. H x \<noteq> []" "ledger_inv H (led, f, n)"
    and clean: "clean_op (OpLog io typ payload severity taskId metadata)"
    and res: "ledger_log H io typ payload severity taskId metadata led f = (True, led', f')"
    and content: "content f \<noteq> []"
  shows "\<exists>q. parse_lines (content f') = parse_lines (content f) @
     [reparsed (seal (event_json (event_id io) (event_time io) typ severity taskId payload metadata) q (lastHash led'))] \<and>
     lastHash led' = hashEvent H q (event_json (event_id io) (event_time io) typ severity taskId payload metadata) \<and>
     chained_file H (lastHash led') (content f') \<and> chained_file H q (content f) \<and>
     lines (content f') = lines (content f) @
       [stringify (seal (event_json (event_id io) (event_time io) typ severity taskId payload metadata) q (lastHash led'))]"
proof -
  let ?ev = "event_json (event_id io) (event_time io) typ severity taskId payload metadata"
  have q: "\<not> queueRejected led" using res by (auto simp: ledger_log_def)
  obtain r led1 f1 where i: "ledger_init H io led f = (r, led1, f1)" by (metis prod_cases3)
  with res q have r: "r" by (auto simp: ledger_log_def split: if_splits)
  note init = ledger_init_inv [OF assms(1,2) _ _ q i]
  have "f1 = f" using i content r clean
    by (auto simp: ledger_init_def Let_def split: InitPromise.splits if_splits)
  then have one: "chained_file H (lastHash led1) (content f)" using init r clean by auto
  have s: "sealable ?ev" using clean by simp
  have l: "lines (content f') = lines (content f) @ [stringify (seal ?ev (lastHash led1) (hashEvent H (lastHash led1) ?ev))]"
    "lastHash led' = hashEvent H (lastHash led1) ?ev" "chained_file H (lastHash led') (content f')"
    using res q i r clean chained_append [OF one s] \<open>f1 = f\<close>
    by (auto simp: ledger_log_def append_file_def Let_def split: if_splits option.splits)
  show ?thesis using parse_lines_append [OF l(1) s] l one by auto
qed

text \<open>What is logged is what the summary sees. After any history of clean calls, failures and restarts that wrote the file,
  one more successful \<open>log\<close> adds exactly one event to the events that the summary reads from the file: the one logged,
  readable when its payload and metadata have the types of the interface.\<close>

theorem summary_reads_ledger:
  assumes "\<forall>x. H x \<noteq> []" "list_all clean_op ops" "ledger_run H ops (new_ledger rid, None, 0) = (led, f, n)"
    and "content f \<noteq> []" "clean_op (OpLog io typ payload severity taskId metadata)"
    and "ledger_log H io typ payload severity taskId metadata led f = (True, led', f')"
  shows "file_events f' = file_events f @
      [read_event (event_json (event_id io) (event_time io) typ severity taskId payload metadata)] \<and>
    (list_all event_ok (parse_lines (content f')) \<longleftrightarrow> list_all event_ok (parse_lines (content f)) \<and>
      event_ok (event_json (event_id io) (event_time io) typ severity taskId payload metadata))"
proof -
  have "ledger_inv H (led, f, n)"
    using ledger.inv_reachable [OF _ ledger_run_steps [OF assms(1,2)]] assms(3) by metis
  moreover have "sealable (event_json (event_id io) (event_time io) typ severity taskId payload metadata)"
    using assms(5) by simp
  ultimately show ?thesis using log_file_events [OF assms(1) _ assms(5,6,4)]
    by (force simp: file_events_def read_sealed)
qed


subsection \<open>Events read twice\<close>

lemma own_path: "join_path ''.events'' name \<noteq> join_path (join_path (CHR ''/'' # d) ''.events'') file"
  by (simp add: join_path_def)

text \<open>
  With the default directory the paths of the listing are relative and the path of the ledger is absolute, so the
  test that skips the ledger's own file never holds.\<close>

lemma default_listing:
  assumes "own_file F = Some s" "listing F = Some es"
    and "g = new_summary (CHR ''/'' # d) now rid None outDir sm"
  shows "raw_events (sg_ledgerPath g) (sg_eventsDir g) F = parse_lines s @
    concat (map (\<lambda>e. if fst (snd e) \<and> ends_with (fst e) ''.jsonl'' then
      (case snd (snd e) of Some t \<Rightarrow> parse_lines t | None \<Rightarrow> []) else []) es)"
proof -
  have "sg_ledgerPath g = join_path (join_path (CHR ''/'' # d) ''.events'') (''run-'' @ sg_ledger_id @ ''.jsonl'')"
    if "sg_ledger_id = runId (sg_ledger g)" for sg_ledger_id
    using that by (simp add: assms(3) new_summary_def Let_def new_ledger_def)
  then have "join_path ''.events'' name \<noteq> sg_ledgerPath g" for name using own_path by simp
  moreover have "sg_eventsDir g = ''.events''"
    by (simp add: assms(3) new_summary_def Let_def default_to_def text_or_def truthy_text_def)
  ultimately have l: "listed_events (sg_ledgerPath g) (sg_eventsDir g) =
      (\<lambda>e. if fst (snd e) \<and> ends_with (fst e) ''.jsonl'' then (case snd (snd e) of Some t \<Rightarrow> parse_lines t | None \<Rightarrow> []) else [])"
    by (auto simp: fun_eq_iff listed_events_def)
  show ?thesis by (simp add: raw_events_def assms(1,2) l)
qed

text \<open>The events of a run count twice. With the default directory, where the only file listed is the run's own ledger,
  every event of the ledger is in the summary twice, and the task count of every provider is twice the number of the ledger's events of that provider.\<close>

theorem own_events_twice:
  assumes "own_file F = Some s" "listing F = Some [(name, True, Some s)]" "ends_with name ''.jsonl''"
    and "g = new_summary (CHR ''/'' # d) now rid None outDir sm"
    and "readEvents E (sg_ledgerPath g) (sg_eventsDir g) F = Returns es"
  shows "mset es = mset (file_events (Some s)) + mset (file_events (Some s)) \<and>
    (\<forall>p. p \<noteq> [] \<longrightarrow> provider_count p es = 2 * length (filter (\<lambda>e. re_provider e = Some p) (file_events (Some s))))"
proof -
  have "raw_events (sg_ledgerPath g) (sg_eventsDir g) F = parse_lines s @ parse_lines s"
    using default_listing [OF assms(1,2,4)] assms(3) by simp
  then have m: "mset es = mset (file_events (Some s)) + mset (file_events (Some s))"
    using assms(5) by (auto simp: readEvents_def Let_def file_events_def split: if_splits)
  then have "provider_count p es = provider_count p (file_events (Some s) @ file_events (Some s))" if "p \<noteq> []" for p
    using that by (intro provider_count_perm) simp_all
  with m show ?thesis by (simp add: provider_count_events)
qed

lemma readEvents_ok:
  assumes "list_all event_ok (raw_events path dir F)"
  shows "\<exists>es. readEvents E path dir F = Returns es"
proof -
  have "\<not> event_ok JNull" by (simp add: event_ok_def)
  then have "JNull \<notin> set (raw_events path dir F)" using assms by (auto simp: list_all_iff)
  then show ?thesis using assms by (simp add: readEvents_def Let_def)
qed

definition demo_event :: json where
  "demo_event = event_json ''e'' ''1'' ''task_started'' Info (Some ''t'') (JObj []) (JObj [(''provider'', JStr ''p'')])"

definition demo_text :: string where
  "demo_text = stringify (seal demo_event [] ''h'') @ [newline]"

definition demo_summary_env :: summary_env where
  "demo_summary_env = \<lparr>collation = (\<lambda>s. map of_char s), get_time = (\<lambda>s. Some 0), number_text = (\<lambda>x. ''1''),
     locale_text = (\<lambda>x. ''1'')\<rparr>"

lemma demo_parsed:
  "parse_lines demo_text = [reparsed (seal demo_event [] ''h'')]" "event_ok (reparsed (seal demo_event [] ''h''))"
  "re_provider (read_event (reparsed (seal demo_event [] ''h''))) = Some ''p''"
proof -
  have s: "sealable demo_event" by (simp add: demo_event_def)
  have "lines demo_text = lines [] @ [stringify (seal demo_event [] ''h'')]"
    using lines_snoc [of "[]" "stringify (seal demo_event [] ''h'')"] seal_text [OF s] by (simp add: demo_text_def)
  from parse_lines_append [OF this s] show "parse_lines demo_text = [reparsed (seal demo_event [] ''h'')]"
    by (simp add: parse_lines_lines)
  have "event_ok demo_event" "re_provider (read_event demo_event) = Some ''p''" by code_simp+
  then show "event_ok (reparsed (seal demo_event [] ''h''))" "re_provider (read_event (reparsed (seal demo_event [] ''h''))) = Some ''p''"
    by (simp_all add: read_sealed [OF s])
qed

lemma own_events_twice_witness:
  "\<exists>F es. own_file F = Some demo_text \<and>
     readEvents demo_summary_env ''/d/.events/run-r.jsonl'' ''.events'' F = Returns es \<and> provider_count ''p'' es = 2"
proof -
  let ?F = "\<lparr>own_file = Some demo_text, listing = Some [(''run-r.jsonl'', True, Some demo_text)]\<rparr>"
  let ?g = "new_summary ''/d'' ''1'' (Some ''r'') None None undefined"
  have g: "sg_ledgerPath ?g = ''/d/.events/run-r.jsonl''" "sg_eventsDir ?g = ''.events''"
    by (simp_all add: new_summary_def default_to_def text_or_def truthy_text_def join_path_def Let_def)
  have e: "ends_with ''run-r.jsonl'' ''.jsonl''" by code_simp
  then have raw: "raw_events (sg_ledgerPath ?g) (sg_eventsDir ?g) ?F = parse_lines demo_text @ parse_lines demo_text"
    using default_listing [of ?F demo_text _ ?g "''d''" "''1''" "Some ''r''" None] by simp
  then obtain es where es: "readEvents demo_summary_env (sg_ledgerPath ?g) (sg_eventsDir ?g) ?F = Returns es"
    using readEvents_ok [of "sg_ledgerPath ?g" "sg_eventsDir ?g" ?F demo_summary_env] unfolding raw by (auto simp: demo_parsed)
  have "provider_count ''p'' es = 2"
    using own_events_twice [OF _ _ e _ es, of demo_text "''d''" "''1''" "Some ''r''" None undefined] demo_parsed
    by (simp add: file_events_def)
  with es g show ?thesis by (intro exI [of _ ?F]) auto
qed

subsection \<open>Two ledger objects on one file\<close>

lemma second_writer_breaks:
  assumes "\<forall>x. H x \<noteq> []" "ledger_inv H (led, f, n)" "initPromise led = Fulfilled"
    and clean: "clean_op (OpLog io1 typ1 payload1 sev1 task1 meta1)" "clean_op (OpLog io2 typ2 payload2 sev2 task2 meta2)"
    and log1: "ledger_log H io1 typ1 payload1 sev1 task1 meta1 (new_ledger rid) f = (True, led2, f2)"
    and log2: "ledger_log H io2 typ2 payload2 sev2 task2 meta2 led f2 = (True, led3, f3)"
    and new: "lastHash led2 \<noteq> lastHash led"
  shows "ledger_verify H f3 = Inr (VFail (int (n + 2)) (PrevHashMismatch (lastHash led2) (JStr (lastHash led))))"
proof -
  have c: "content f \<noteq> []" "length (lines (content f)) = n + 1" using assms(2,3) by auto
  have "ledger_inv H (new_ledger rid, f, n)" using assms(2) by (auto simp: new_ledger_def)
  from log_file_events [OF assms(1) this clean(1) log1 c(1)]
  have f2: "chained_file H (lastHash led2) (content f2)" "length (lines (content f2)) = n + 2" using c(2) by auto
  let ?p = "lastHash led"
  let ?ev = "event_json (event_id io2) (event_time io2) typ2 sev2 task2 payload2 meta2"
  let ?l = "stringify (seal ?ev ?p (hashEvent H ?p ?ev))"
  have s: "sealable ?ev" using clean(2) by simp
  have f3: "f3 = Some (content f2 @ ?l @ [newline])"
    using log2 assms(3) clean(2) by (auto simp: ledger_log_def ledger_init_def append_file_def Let_def split: if_splits option.splits)
  show ?thesis using wrong_link_breaks [OF f2(1) s new] f2(2) by (simp add: f3)
qed

text \<open>What \<open>generate\<close> does once the events are read and the file can be written: it logs.\<close>

lemma generate_log:
  assumes "readEvents E (sg_ledgerPath g) (sg_eventsDir g) F = Returns es" "dir_error W = None" "file_error W = None"
  shows "\<exists>payload w. ((\<forall>x. valid_number (number_text E x)) \<longrightarrow> wf_json payload) \<and>
    generate E H io W now F g = (let (ok, led, f) = ledger_log H io ''summary_generated'' payload Info None JUndef (sg_ledger g) (own_file F)
      in (if ok then Returns (join_path (join_path (sg_outputDir g) (run_id_of (sg_ledgerPath g))) ''summary.md'')
          else Throws (log_error W), w, led, f))"
proof -
  define s where "s = summarize E now (run_id_of (sg_ledgerPath g)) (sm_state (sm_load (sg_state g))) es"
  define p where "p = join_path (join_path (sg_outputDir g) (run_id_of (sg_ledgerPath g))) ''summary.md''"
  define payload where "payload = JObj [(''summaryPath'', JStr p), (''taskCount'', JNum (show_nat (length (rs_tasks s)))),
      (''duration'', duration_json E (rs_duration s)), (''costUsd'', num_json E (rs_costUsd s))]"
  have "wf_json (duration_json E d)" "wf_json (num_json E x)" if "\<forall>x. valid_number (number_text E x)" for d x
    using that by (simp_all add: duration_json_def num_json_def split: option.splits js_num.splits)
  then have "(\<forall>x. valid_number (number_text E x)) \<longrightarrow> wf_json payload" by (simp add: payload_def valid_show_nat)
  moreover have "generate E H io W now F g = (let (ok, led, f) = ledger_log H io ''summary_generated'' payload Info None JUndef (sg_ledger g) (own_file F)
      in (if ok then Returns p else Throws (log_error W), Some (p, buildMarkdown E s), led, f))"
    unfolding generate_def writeSummary_def Let_def payload_def p_def s_def by (simp add: assms)
  ultimately show ?thesis unfolding p_def by blast
qed

text \<open>C12.
  The end of a run breaks its own ledger. \<open>auto\<close> generates the summary with a second ledger object on the run's file, which logs an
  event of its own, and then logs once more on the first object, which still holds the hash of the line before. Unless
  the digest of the second object's event happens to be that hash, the verification of the finished ledger fails at the last line.\<close>

theorem summary_breaks_ledger:
  assumes "\<forall>x. H x \<noteq> []" "list_all clean_op ops" "ledger_run H ops (new_ledger rid, None, 0) = (led, f, n)"
    and "initPromise led = Fulfilled" "own_file F = f" "\<forall>x. valid_number (number_text E x)"
    and "stat_ok io1" "genesis_cut io1 = None" "event_cut io1 = None"
    and "generate E H io1 W now F (new_summary cwd now (Some rid) evDir outDir sm) = (Returns p, w, led2, f2)" "rid \<noteq> []"
    and "clean_op (OpLog io2 typ payload severity taskId metadata)"
    and "ledger_log H io2 typ payload severity taskId metadata led f2 = (True, led3, f3)"
    and "lastHash led2 \<noteq> lastHash led"
  shows "ledger_verify H f3 = Inr (VFail (int (n + 2)) (PrevHashMismatch (lastHash led2) (JStr (lastHash led))))"
proof -
  let ?g = "new_summary cwd now (Some rid) evDir outDir sm"
  have inv: "ledger_inv H (led, f, n)"
    using ledger.inv_reachable [OF _ ledger_run_steps [OF assms(1,2)]] assms(3) by metis
  have g: "sg_ledger ?g = new_ledger rid"
    using assms(11) by (simp add: new_summary_def default_to_def text_or_def truthy_text_def Let_def)
  obtain es where es: "readEvents E (sg_ledgerPath ?g) (sg_eventsDir ?g) F = Returns es" "dir_error W = None" "file_error W = None"
    using assms(10) by (auto simp: generate_def writeSummary_def Let_def split: outcome_of.splits option.splits)
  obtain payload1 v where p: "(\<forall>x. valid_number (number_text E x)) \<longrightarrow> wf_json payload1"
    "generate E H io1 W now F ?g = (let (ok, led, f) = ledger_log H io1 ''summary_generated'' payload1 Info None JUndef (sg_ledger ?g) (own_file F)
      in (if ok then Returns (join_path (join_path (sg_outputDir ?g) (run_id_of (sg_ledgerPath ?g))) ''summary.md'')
          else Throws (log_error W), v, led, f))"
    using generate_log [OF es, of H io1 now] by auto
  obtain ok l2 g2 where log: "ledger_log H io1 ''summary_generated'' payload1 Info None JUndef (new_ledger rid) f = (ok, l2, g2)"
    by (metis prod_cases3)
  have p1: "wf_json payload1" "ledger_log H io1 ''summary_generated'' payload1 Info None JUndef (new_ledger rid) f = (True, led2, f2)"
    using p assms(6) assms(10) [unfolded p(2) g assms(5) log] log by (auto split: if_splits)
  have "clean_op (OpLog io1 ''summary_generated'' payload1 Info None JUndef)" using assms(7-9) p1(1) by simp
  from second_writer_breaks [OF assms(1) inv assms(4) this assms(12) p1(2) assms(13,14)] show ?thesis .
qed


text \<open>A digest that keeps its input, for the witness.\<close>

definition keep_digest :: "string \<Rightarrow> string" where "keep_digest s = CHR ''h'' # s"

definition demo_run :: "ledger_op list" where "demo_run = [OpLog demo_io ''a'' (JObj []) Info None JUndef]"


lemma demo_run:
  "\<exists>led s. ledger_run keep_digest demo_run (new_ledger ''r'', None, 0) = (led, Some s, 1) \<and> s \<noteq> [] \<and>
     initPromise led = Fulfilled \<and> \<not> queueRejected led \<and> list_all event_ok (parse_lines s)"
proof -
  let ?g = "genesis_json ''g'' ''0'' ''r''" and ?e = "event_json ''e'' ''1'' ''a'' Info None (JObj []) JUndef"
  let ?h = "hashEvent keep_digest GENESIS_PREV_HASH ?g"
  let ?t = "stringify (seal ?g GENESIS_PREV_HASH ?h) @ [newline]"
  let ?s = "?t @ stringify (seal ?e ?h (hashEvent keep_digest ?h ?e)) @ [newline]"
  have s: "sealable ?g" "sealable ?e" by simp_all
  have c: "chained_file keep_digest GENESIS_PREV_HASH []" by (simp add: chained_file_def)
  note c1 = chained_append [OF c s(1)]
  have l1: "lines ?t = lines [] @ [stringify (seal ?g GENESIS_PREV_HASH ?h)]" and c2: "chained_file keep_digest ?h ?t"
    using c1 by simp_all
  have l2: "lines ?s = lines ?t @ [stringify (seal ?e ?h (hashEvent keep_digest ?h ?e))]"
    using chained_append [OF c2 s(2)] by simp
  have "event_ok ?g" "event_ok ?e" by code_simp+
  then have "list_all event_ok (parse_lines ?s)"
    unfolding parse_lines_append [OF l2 s(2)] parse_lines_append [OF l1 s(1)]
    by (simp add: read_sealed [OF s(1)] read_sealed [OF s(2)]) (simp add: parse_lines_lines map_filter_simps)
  moreover have "ledger_run keep_digest demo_run (new_ledger ''r'', None, 0) =
      ((new_ledger ''r'')\<lparr>initPromise := Fulfilled, lastHash := hashEvent keep_digest ?h ?e\<rparr>, Some ?s, 1)"
    by (simp add: demo_run_def ledger_run_def ledger_log_def ledger_init_def new_ledger_def demo_io_def writeGenesis_def
      append_file_def Let_def)
  ultimately show ?thesis by (simp add: new_ledger_def)
qed

lemma keep_digest_ne: "\<forall>x. keep_digest x \<noteq> []"
  by (simp add: keep_digest_def)

lemma summary_reads_ledger_witness:
  "\<exists>led s led' f'. ledger_run keep_digest demo_run (new_ledger ''r'', None, 0) = (led, Some s, 1) \<and>
     ledger_log keep_digest demo_io ''b'' (JObj []) Info (Some ''t'') JUndef led (Some s) = (True, led', f') \<and>
     file_events f' = file_events (Some s) @ [read_event (event_json ''e'' ''1'' ''b'' Info (Some ''t'') (JObj []) JUndef)]"
proof -
  obtain led s where r: "ledger_run keep_digest demo_run (new_ledger ''r'', None, 0) = (led, Some s, 1)" "s \<noteq> []"
    "initPromise led = Fulfilled" "\<not> queueRejected led" using demo_run by blast
  have "fst (ledger_log keep_digest demo_io ''b'' (JObj []) Info (Some ''t'') JUndef led (Some s))"
    using r(3,4) by (simp add: ledger_log_def ledger_init_def demo_io_def append_file_def Let_def)
  then obtain led' f' where l: "ledger_log keep_digest demo_io ''b'' (JObj []) Info (Some ''t'') JUndef led (Some s) = (True, led', f')"
    by (metis prod.collapse)
  have "list_all clean_op demo_run" by (simp add: demo_run_def demo_io_def)
  from summary_reads_ledger [OF keep_digest_ne this r(1) _ _ l] r l show ?thesis
    by (auto simp: demo_io_def)
qed

lemma summary_breaks_ledger_witness:
  "\<exists>led s w led2 f2 led3 f3 k. ledger_run keep_digest demo_run (new_ledger ''r'', None, 0) = (led, Some s, 1) \<and>
     generate demo_summary_env keep_digest demo_io \<lparr>dir_error = None, file_error = None, log_error = []\<rparr> ''1''
       \<lparr>own_file = Some s, listing = None\<rparr> (new_summary ''/d'' ''1'' (Some ''r'') None None (\<lparr>sm_state = createInitialState, sm_file = None\<rparr>)) =
       (Returns ''.apohara/runs/r/summary.md'', w, led2, f2) \<and>
     ledger_log keep_digest demo_io ''summary_generated'' (JObj []) Info None JUndef led f2 = (True, led3, f3) \<and>
     ledger_verify keep_digest f3 = Inr (VFail 3 k)"
proof -
  let ?W = "\<lparr>dir_error = None, file_error = None, log_error = []\<rparr>" and ?sm = "\<lparr>sm_state = createInitialState, sm_file = None\<rparr>"
  let ?g = "new_summary ''/d'' ''1'' (Some ''r'') None None ?sm"
  obtain led s where r: "ledger_run keep_digest demo_run (new_ledger ''r'', None, 0) = (led, Some s, 1)" "s \<noteq> []"
    "initPromise led = Fulfilled" "\<not> queueRejected led" "list_all event_ok (parse_lines s)" using demo_run by blast
  let ?F = "\<lparr>own_file = Some s, listing = None\<rparr>"
  have clean: "list_all clean_op demo_run" by (simp add: demo_run_def demo_io_def)
  have inv: "ledger_inv keep_digest (led, Some s, 1)"
    using ledger.inv_reachable [OF _ ledger_run_steps [OF keep_digest_ne clean]] r(1) by metis
  have id: "run_id_of (sg_ledgerPath ?g) = ''r''" by code_simp
  obtain es where es: "readEvents demo_summary_env (sg_ledgerPath ?g) (sg_eventsDir ?g) ?F = Returns es"
    using readEvents_ok [of "sg_ledgerPath ?g" "sg_eventsDir ?g" ?F] r(5) by (auto simp: raw_events_def)
  have g: "sg_ledger ?g = new_ledger ''r''" "sg_outputDir ?g = ''.apohara/runs''"
    by (simp_all add: new_summary_def default_to_def text_or_def truthy_text_def Let_def)
  have log: "\<exists>led2 f2. ledger_log keep_digest demo_io t p Info None JUndef (new_ledger ''r'') (Some s) = (True, led2, f2)" for t p
    using r(2) by (auto simp: ledger_log_def ledger_init_def demo_io_def append_file_def Let_def new_ledger_def loadLastHash_def
      split: option.splits json.splits prod.splits)
  obtain w led2 f2 payload where gen: "generate demo_summary_env keep_digest demo_io ?W ''1'' ?F ?g =
      (Returns ''.apohara/runs/r/summary.md'', w, led2, f2)" and
      lp: "ledger_log keep_digest demo_io ''summary_generated'' payload Info None JUndef (new_ledger ''r'') (Some s) = (True, led2, f2)" "wf_json payload"
  proof -
    have v: "\<forall>x. valid_number (number_text demo_summary_env x)" by (simp add: demo_summary_env_def) code_simp
    obtain payload w where p: "(\<forall>x. valid_number (number_text demo_summary_env x)) \<longrightarrow> wf_json payload"
      "generate demo_summary_env keep_digest demo_io ?W ''1'' ?F ?g =
        (let (ok, led, f) = ledger_log keep_digest demo_io ''summary_generated'' payload Info None JUndef (sg_ledger ?g) (own_file ?F)
         in (if ok then Returns (join_path (join_path (sg_outputDir ?g) (run_id_of (sg_ledgerPath ?g))) ''summary.md'')
             else Throws (log_error ?W), w, led, f))"
      using generate_log [OF es, of ?W keep_digest demo_io "''1''"] by auto
    from log [of "''summary_generated''" payload] obtain led2 f2 where l:
      "ledger_log keep_digest demo_io ''summary_generated'' payload Info None JUndef (new_ledger ''r'') (Some s) = (True, led2, f2)" by blast
    with p(2) [unfolded g id] have "generate demo_summary_env keep_digest demo_io ?W ''1'' ?F ?g = (Returns ''.apohara/runs/r/summary.md'', w, led2, f2)"
      by (simp add: join_path_def)
    then show thesis using that l p(1) v by blast
  qed
  obtain led3 f3 where l3: "ledger_log keep_digest demo_io ''summary_generated'' (JObj []) Info None JUndef led f2 = (True, led3, f3)"
    using r(3,4) by (auto simp: ledger_log_def ledger_init_def demo_io_def append_file_def Let_def)
  have "ledger_inv keep_digest (new_ledger ''r'', Some s, 1)" using inv by (auto simp: new_ledger_def)
  from log_file_events [OF keep_digest_ne this _ lp(1)] lp(2) r(2)
  obtain q ev where q: "lastHash led2 = hashEvent keep_digest q ev" "chained_file keep_digest q s" by (auto simp: demo_io_def)
  moreover have "chained_file keep_digest (lastHash led) s" using inv r(3,4) by auto
  ultimately have "q = lastHash led" by (simp add: chained_file_def)
  then have "length (lastHash led) < length (lastHash led2)" by (simp add: q(1) hashEvent_def keep_digest_def)
  then have "lastHash led2 \<noteq> lastHash led" by auto
  have v: "valid_number (number_text demo_summary_env x)" for x by (simp add: demo_summary_env_def) code_simp
  have "\<exists>k. ledger_verify keep_digest f3 = Inr (VFail 3 k)"
    using summary_breaks_ledger [OF keep_digest_ne clean r(1,3) _ _ _ _ _ gen _ _ l3 \<open>lastHash led2 \<noteq> lastHash led\<close>]
    by (simp add: demo_io_def v)
  with r(1) gen l3 show ?thesis by blast
qed

end
