(* ===== verification/Github.thy ===== *)
theory Github
  imports Provider_Calls Js_Value
begin

text \<open>
  \<open>src/providers/github.ts\<close>: the GitHub client. A request is its method with url, headers and body; \<open>fetch\<close>, the
  response headers and the text of a date are parameters. The events that it appends to its own file are
  recorded in order; \<open>gh_answers\<close> are the outcomes of the next appends, \<open>None\<close> a success, and a success when the list is used up.
\<close>

section \<open>State\<close>

record gh_event =
  ge_type :: string
  ge_payload :: json
  ge_severity :: EventSeverity

record github =
  gh_token :: "string option"
  gh_answers :: "string option list"
  gh_events :: "gh_event list"
  gh_sent :: "(string \<times> http_request) list"

record github_reply =
  gr_reply :: http_reply
  gr_header :: "string \<Rightarrow> string option"
  gr_text_fails :: bool

record github_world =
  gh_net :: "string \<times> http_request \<Rightarrow> string + github_reply"
  gh_iso :: "string \<Rightarrow> string + string"

definition API_BASE :: string where "API_BASE = ''https://api.github.com''"

text \<open>A token argument that is not \<open>undefined\<close> overrides the configuration, the empty string included.\<close>

definition new_github :: "string option \<Rightarrow> string option \<Rightarrow> string option list \<Rightarrow> github" where
  "new_github configured token answers =
     \<lparr>gh_token = (case token of None \<Rightarrow> configured | Some t \<Rightarrow> Some t), gh_answers = answers, gh_events = [], gh_sent = []\<rparr>"

definition gh_log :: "string \<Rightarrow> (string \<times> json) list \<Rightarrow> EventSeverity \<Rightarrow> github \<Rightarrow> (string + unit) \<times> github" where
  "gh_log ty payload sev g =
    (let ev = \<lparr>ge_type = ty, ge_payload = JObj payload, ge_severity = sev\<rparr> in
     case gh_answers g of
       Some e # as \<Rightarrow> (Inl e, g\<lparr>gh_answers := as\<rparr>)
     | None # as \<Rightarrow> (Inr (), g\<lparr>gh_answers := as, gh_events := gh_events g @ [ev]\<rparr>)
     | [] \<Rightarrow> (Inr (), g\<lparr>gh_events := gh_events g @ [ev]\<rparr>))"

section \<open>The token\<close>

definition token_prefixes :: "string list" where
  "token_prefixes = [''gho_'', ''ghp_'', ''gh_'', ''ghs_'']"

text \<open>\<open>None\<close> when the token is valid, and the text of the error otherwise.\<close>

definition gh_validateToken :: "github \<Rightarrow> string option" where
  "gh_validateToken g = (let t = (case gh_token g of None \<Rightarrow> [] | Some t \<Rightarrow> t) in
     if trim t = [] then Some ''GITHUB_TOKEN is not configured. Set GITHUB_TOKEN environment variable.''
     else if length t < 10 then Some ''GITHUB_TOKEN appears to be malformed (too short).''
     else if \<not> list_ex (starts_with t) token_prefixes then
       Some ''GITHUB_TOKEN does not appear to be a valid GitHub token format (should start with gho_, ghp_, gh_, or ghs_).''
     else None)"

section \<open>Requests\<close>

definition auth_error :: "string \<Rightarrow> string" where
  "auth_error e = ''GitHub Authentication Error: '' @ e"

definition gh_request :: "string \<Rightarrow> string \<Rightarrow> string \<Rightarrow> json \<Rightarrow> string \<times> http_request" where
  "gh_request token endpoint meth body = (meth,
     \<lparr>url = API_BASE @ endpoint,
      headers = [(''Accept'', ''application/vnd.github.v3+json''), (''User-Agent'', ''Clarity-Code/1.0'')] @
        (if body = JUndef then [] else [(''Content-Type'', ''application/json'')]) @ [(''Authorization'', ''Bearer '' @ token)],
      request_body = body, timeout_ms = 30000\<rparr>)"

text \<open>Log, then throw.\<close>

definition log_throw :: "string \<Rightarrow> (string \<times> json) list \<Rightarrow> EventSeverity \<Rightarrow> string \<Rightarrow> github \<Rightarrow> (string + 'a) \<times> github" where
  "log_throw ty payload sev e g = and_then (gh_log ty payload sev g) (\<lambda>u g1. (Inl e, g1))"

text \<open>\<open>new Date(Number(reset) * 1000).toISOString()\<close>, which throws on a header that is no date.\<close>

definition reset_time :: "github_world \<Rightarrow> github_reply \<Rightarrow> string + string" where
  "reset_time W rep = (case gr_header rep ''X-RateLimit-Reset'' of
     Some r \<Rightarrow> if r = [] then Inr ''unknown'' else gh_iso W r | None \<Rightarrow> Inr ''unknown'')"

definition rate_limited :: "github_world \<Rightarrow> string \<Rightarrow> github_reply \<Rightarrow> github \<Rightarrow> (string + json) \<times> github" where
  "rate_limited W endpoint rep g = (case reset_time W rep of Inl e \<Rightarrow> (Inl e, g)
     | Inr t \<Rightarrow> log_throw ''github_rate_limit''
         [(''message'', JStr ''GitHub API rate limit exceeded (403)''), (''endpoint'', JStr endpoint),
          (''rateLimitRemaining'', JStr ''0''), (''rateLimitReset'', JStr t), (''cause'', JStr ''API rate limit exceeded''),
          (''action'', JStr ''Wait until the rate limit resets or use a different token'')] Error
         (''GitHub API Error: 403 Rate Limit Exceeded. Resets at '' @ t) g)"

definition read_reply :: "github_world \<Rightarrow> string \<Rightarrow> github_reply \<Rightarrow> github \<Rightarrow> (string + json) \<times> github" where
  "read_reply W endpoint rep g = (let s = reply_status (gr_reply rep) in
    if s = 401 then log_throw ''github_auth_failure''
      [(''message'', JStr ''GitHub API authentication failed (401 Unauthorized)''), (''endpoint'', JStr endpoint),
       (''cause'', JStr ''Invalid or expired token''), (''action'', JStr ''Check that GITHUB_TOKEN is valid and not expired'')] Error
      ''GitHub Authentication Error: 401 Unauthorized. Token may be invalid or expired.'' g
    else if s = 403 then
      (if gr_header rep ''X-RateLimit-Remaining'' = Some ''0'' then rate_limited W endpoint rep g
       else log_throw ''github_forbidden''
         [(''message'', JStr ''GitHub API request forbidden (403)''), (''endpoint'', JStr endpoint),
          (''cause'', JStr ''Insufficient permissions or API access blocked''),
          (''action'', JStr ''Check token scopes and repository access'')] Error
         ''GitHub API Error: 403 Forbidden. Check token scopes and repository access.'' g)
    else if s = 404 then log_throw ''github_not_found''
      [(''message'', JStr ''GitHub API resource not found (404)''), (''endpoint'', JStr endpoint),
       (''cause'', JStr ''Repository or resource does not exist'')] Warning
      (''GitHub API Error: 404 Not Found - '' @ endpoint) g
    else if \<not> reply_ok (gr_reply rep) then log_throw ''github_api_error''
      [(''message'', JStr (''GitHub API error: '' @ show_nat s @ '' '' @ statusText (gr_reply rep))), (''endpoint'', JStr endpoint),
       (''status'', JNum (show_nat s)),
       (''error'', JStr (if gr_text_fails rep then ''Unknown error'' else reply_text (gr_reply rep)))] Error
      (''GitHub API Error: '' @ show_nat s @ '' '' @ statusText (gr_reply rep)) g
    else (reply_json (gr_reply rep), g))"

definition apiRequest :: "github_world \<Rightarrow> string \<Rightarrow> string \<Rightarrow> json \<Rightarrow> github \<Rightarrow> (string + json) \<times> github" where
  "apiRequest W endpoint meth body g =
    (case gh_validateToken g of Some e \<Rightarrow> (Inl (auth_error e), g)
     | None \<Rightarrow>
       let req = gh_request (the (gh_token g)) endpoint meth body; g1 = g\<lparr>gh_sent := gh_sent g @ [req]\<rparr> in
       case gh_net W req of Inl e \<Rightarrow> (Inl e, g1) | Inr rep \<Rightarrow> read_reply W endpoint rep g1)"

definition getCurrentUser :: "github_world \<Rightarrow> github \<Rightarrow> (string + json) \<times> github" where
  "getCurrentUser W = apiRequest W ''/user'' ''GET'' JUndef"

definition repo_endpoint :: "string \<Rightarrow> string \<Rightarrow> string" where
  "repo_endpoint ow rp = ''/repos/'' @ ow @ ''/'' @ rp"

definition getRepository :: "github_world \<Rightarrow> string \<Rightarrow> string \<Rightarrow> github \<Rightarrow> (string + json) \<times> github" where
  "getRepository W ow rp = apiRequest W (repo_endpoint ow rp) ''GET'' JUndef"

section \<open>The remote\<close>

record remote =
  rm_owner :: string
  rm_repo :: string
  remoteUrl :: string

text \<open>The end of the pattern: \<open>([^/]+)\/([^/.]+?)(?:\.git)?$\<close>. The name of the repository holds no dot.\<close>

definition repo_name :: "string \<Rightarrow> string option" where
  "repo_name s = (let r = (if ends_with s ''.git'' then take (length s - 4) s else s) in
     if r \<noteq> [] \<and> CHR ''/'' \<notin> set r \<and> CHR ''.'' \<notin> set r then Some r else None)"

definition owner_repo :: "string \<Rightarrow> (string \<times> string) option" where
  "owner_repo s = (let ow = takeWhile (\<lambda>c. c \<noteq> CHR ''/'') s in
     case drop (length ow) s of [] \<Rightarrow> None
     | c # r \<Rightarrow> if ow = [] then None else map_option (\<lambda>n. (ow, n)) (repo_name r))"

text \<open>A match at the first position where one is.\<close>

fun match_remote :: "string \<Rightarrow> string \<Rightarrow> (string \<times> string) option" where
  "match_remote pre [] = None"
| "match_remote pre (c # s) =
    (case (if starts_with (c # s) pre then owner_repo (drop (length pre) (c # s)) else None) of
       Some m \<Rightarrow> Some m | None \<Rightarrow> match_remote pre s)"

definition ssh_prefix :: string where "ssh_prefix = ''git@github.com:''"
definition https_prefix :: string where "https_prefix = ''https://github.com/''"

text \<open>\<open>git remote get-url origin\<close> gives its output or fails.\<close>

definition detectRepositoryFromRemote :: "string option \<Rightarrow> remote option" where
  "detectRepositoryFromRemote out = (case out of None \<Rightarrow> None
     | Some s \<Rightarrow>
       let u = trim s in
       if u = [] then None
       else case match_remote ssh_prefix u of
         Some (ow, r) \<Rightarrow> Some \<lparr>rm_owner = ow, rm_repo = r, remoteUrl = u\<rparr>
       | None \<Rightarrow> (case match_remote https_prefix u of
           Some (ow, r) \<Rightarrow> Some \<lparr>rm_owner = ow, rm_repo = r, remoteUrl = u\<rparr> | None \<Rightarrow> None))"

section \<open>Authentication, repository and pull request\<close>

definition authenticate :: "github_world \<Rightarrow> github \<Rightarrow> (string + json \<times> json) \<times> github" where
  "authenticate W g =
    (case gh_validateToken g of
       Some e \<Rightarrow> log_throw ''github_auth_validation_failed'' [(''message'', JStr e), (''authenticated'', JBool False)] Error (auth_error e) g
     | None \<Rightarrow>
       let body = and_then (getCurrentUser W g) (\<lambda>user g1.
             case (js_get user ''login'', js_get user ''id'') of
               (Inr login, Inr i) \<Rightarrow> and_then (gh_log ''github_auth_success''
                   [(''message'', JStr (''Successfully authenticated as '' @ js_string login)), (''user'', login), (''authenticated'', JBool True)] Info g1)
                 (\<lambda>u g2. (Inr (login, i), g2))
             | _ \<Rightarrow> (Inl type_error, g1))
       in case body of (Inr x, g1) \<Rightarrow> (Inr x, g1)
          | (Inl e, g1) \<Rightarrow> log_throw ''github_auth_error''
              [(''message'', JStr (''Authentication failed: '' @ e)), (''authenticated'', JBool False)] Error e g1)"

record repo_info =
  ri_id :: json
  ri_private :: json
  ri_htmlUrl :: json
  ri_defaultBranch :: json

text \<open>The fields as they are read from the reply of the API, by the names of the declared type.\<close>

definition repo_info_of :: "json \<Rightarrow> string + repo_info" where
  "repo_info_of v = (case js_get v ''id'' of Inl e \<Rightarrow> Inl e
     | Inr i \<Rightarrow> Inr \<lparr>ri_id = i, ri_private = opt_get v ''private'', ri_htmlUrl = opt_get v ''htmlUrl'', ri_defaultBranch = opt_get v ''defaultBranch''\<rparr>)"

definition getRepositoryFromRemote :: "github_world \<Rightarrow> string option \<Rightarrow> github \<Rightarrow> (remote \<times> repo_info option) option \<times> github" where
  "getRepositoryFromRemote W out g = (case detectRepositoryFromRemote out of None \<Rightarrow> (None, g)
     | Some r \<Rightarrow> (case getRepository W (rm_owner r) (rm_repo r) g of
         (Inl e, g1) \<Rightarrow> (Some (r, None), g1)
       | (Inr v, g1) \<Rightarrow> (case repo_info_of v of Inl e \<Rightarrow> (Some (r, None), g1) | Inr i \<Rightarrow> (Some (r, Some i), g1))))"

record pull_request =
  pr_owner :: string
  pr_repo :: string
  pr_title :: string
  pr_body :: "string option"
  pr_head :: string
  pr_base :: json

definition pr_request_body :: "pull_request \<Rightarrow> json" where
  "pr_request_body p = JObj [(''title'', JStr (pr_title p)), (''body'', JStr (case pr_body p of None \<Rightarrow> [] | Some b \<Rightarrow> b)),
     (''head'', JStr (pr_head p)), (''base'', pr_base p)]"

record created_pr =
  cp_number :: json
  cp_htmlUrl :: json
  cp_state :: json
  cp_title :: json
  cp_head :: json
  cp_base :: json

definition pr_created :: "pull_request \<Rightarrow> json \<Rightarrow> github \<Rightarrow> (string + created_pr) \<times> github" where
  "pr_created p pr g = (case js_get pr ''number'' of Inl e \<Rightarrow> (Inl e, g)
     | Inr n \<Rightarrow> and_then (gh_log ''github_pr_created''
         [(''message'', JStr (''PR #'' @ js_string n @ '' created: '' @ [dquote] @ js_string (opt_get pr ''title'') @ [dquote])),
          (''prNumber'', n), (''prUrl'', opt_get pr ''html_url''), (''head'', JStr (pr_head p)), (''base'', pr_base p),
          (''repository'', JStr (pr_owner p @ ''/'' @ pr_repo p))] Info g)
       (\<lambda>u g1. (Inr \<lparr>cp_number = n, cp_htmlUrl = opt_get pr ''html_url'', cp_state = opt_get pr ''state'',
          cp_title = opt_get pr ''title'', cp_head = opt_get pr ''head'', cp_base = opt_get pr ''base''\<rparr>, g1)))"

definition createPullRequest :: "github_world \<Rightarrow> pull_request \<Rightarrow> github \<Rightarrow> (string + created_pr) \<times> github" where
  "createPullRequest W p g = (let endpoint = repo_endpoint (pr_owner p) (pr_repo p) @ ''/pulls'' in
     case and_then (apiRequest W endpoint ''POST'' (pr_request_body p) g) (pr_created p) of
       (Inr x, g1) \<Rightarrow> (Inr x, g1)
     | (Inl e, g1) \<Rightarrow> log_throw ''github_pr_error''
         [(''message'', JStr (''Failed to create PR: '' @ e)), (''cause'', JStr e), (''endpoint'', JStr endpoint),
          (''action'', JStr ''Check that the head branch exists and you have push access''),
          (''repository'', JStr (pr_owner p @ ''/'' @ pr_repo p)), (''head'', JStr (pr_head p)), (''base'', pr_base p)] Error e g1)"

section \<open>Facts\<close>

lemma gh_log_keeps [simp]:
  "gh_log t p s g = (x, g1) \<Longrightarrow> gh_token g1 = gh_token g \<and> gh_sent g1 = gh_sent g"
  by (auto simp: gh_log_def Let_def split: list.splits option.splits)

lemma log_throw_keeps: "log_throw t p s e g = (x, g1) \<Longrightarrow> gh_token g1 = gh_token g \<and> gh_sent g1 = gh_sent g"
  unfolding log_throw_def and_then_def
  by (cases "gh_log t p s g") (auto split: sum.splits dest: gh_log_keeps)

lemma read_reply_keeps: "read_reply W ep rep g = (x, g1) \<Longrightarrow> gh_token g1 = gh_token g \<and> gh_sent g1 = gh_sent g"
  by (auto simp: read_reply_def rate_limited_def Let_def split: if_splits sum.splits dest: log_throw_keeps)

section \<open>What is sent, and where\<close>

datatype gh_call = Get_user | Authenticate | From_remote "string option" | Repository string string | Create_pr pull_request

fun gh_do :: "github_world \<times> gh_call \<Rightarrow> github \<Rightarrow> github" where
  "gh_do (W, Get_user) g = snd (getCurrentUser W g)"
| "gh_do (W, Authenticate) g = snd (authenticate W g)"
| "gh_do (W, From_remote out) g = snd (getRepositoryFromRemote W out g)"
| "gh_do (W, Repository ow rp) g = snd (getRepository W ow rp g)"
| "gh_do (W, Create_pr p) g = snd (createPullRequest W p g)"

text \<open>What a call is to ask for: the path below the API, the method and the body.\<close>

fun call_request :: "gh_call \<Rightarrow> (string \<times> string \<times> json) option" where
  "call_request Get_user = Some (''/user'', ''GET'', JUndef)"
| "call_request Authenticate = Some (''/user'', ''GET'', JUndef)"
| "call_request (From_remote out) =
    map_option (\<lambda>r. (repo_endpoint (rm_owner r) (rm_repo r), ''GET'', JUndef)) (detectRepositoryFromRemote out)"
| "call_request (Repository ow rp) = Some (repo_endpoint ow rp, ''GET'', JUndef)"
| "call_request (Create_pr p) = Some (repo_endpoint (pr_owner p) (pr_repo p) @ ''/pulls'', ''POST'', pr_request_body p)"

text \<open>The requests of one call on a client: at most one, and none without a token that passes the check.\<close>

definition call_sends :: "github \<Rightarrow> gh_call \<Rightarrow> (string \<times> http_request) list" where
  "call_sends g c = (if gh_validateToken g \<noteq> None then []
     else case call_request c of None \<Rightarrow> []
       | Some (endpoint, meth, body) \<Rightarrow> [gh_request (the (gh_token g)) endpoint meth body])"

text \<open>
  A request of the client: the slash behind the name of the API's host ends the host, so that it is the
  API and no other host the name is a prefix of; and the token is the client's.\<close>

definition request_ok :: "github \<Rightarrow> string \<times> http_request \<Rightarrow> bool" where
  "request_ok g mr \<longleftrightarrow> gh_validateToken g = None \<and>
     starts_with (url (snd mr)) (API_BASE @ ''/'') \<and> map_of (headers (snd mr)) ''Authorization'' = Some (''Bearer '' @ the (gh_token g))"

lemma gh_request_ok: "gh_validateToken g = None \<Longrightarrow> request_ok g (gh_request (the (gh_token g)) (CHR ''/'' # ep) m b)"
  by (simp add: request_ok_def gh_request_def starts_with_def)

lemma call_request_path: "call_request c = Some (ep, m, b) \<Longrightarrow> \<exists>path. ep = CHR ''/'' # path"
  by (cases c) (auto simp: repo_endpoint_def)

lemma call_sends_ok: "list_all (request_ok g) (call_sends g c)"
  using gh_request_ok call_request_path by (fastforce simp: call_sends_def split: option.split)

lemma same_token: "gh_token g' = gh_token g \<Longrightarrow> gh_validateToken g' = gh_validateToken g \<and> call_sends g' c = call_sends g c"
proof -
  assume t: "gh_token g' = gh_token g"
  then have "gh_validateToken g' = gh_validateToken g" by (simp add: gh_validateToken_def)
  with t show ?thesis unfolding call_sends_def by (simp only:)
qed

text \<open>What an operation appends to the requests of the client.\<close>

definition sends :: "github \<Rightarrow> (string \<times> http_request) list \<Rightarrow> github \<Rightarrow> bool" where
  "sends g rs g' \<longleftrightarrow> gh_token g' = gh_token g \<and> gh_sent g' = gh_sent g @ rs"

lemma sends_refl [simp]: "sends g [] g"
  by (simp add: sends_def)

lemma sends_trans: "sends g rs g1 \<Longrightarrow> sends g1 [] g2 \<Longrightarrow> sends g rs g2"
  by (simp add: sends_def)

lemma apiRequest_sends:
  "sends g (if gh_validateToken g = None then [gh_request (the (gh_token g)) ep m b] else []) (snd (apiRequest W ep m b g))"
proof -
  obtain x g1 where r: "apiRequest W ep m b g = (x, g1)" by fastforce
  then show ?thesis
    by (auto simp: apiRequest_def sends_def Let_def split: option.splits sum.splits dest: read_reply_keeps)
qed

lemma and_then_sends:
  assumes "sends g rs (snd m)" "\<And>y g1. m = (Inr y, g1) \<Longrightarrow> sends g1 [] (snd (f y g1))"
  shows "sends g rs (snd (and_then m f))"
proof -
  obtain y g1 where m: "m = (y, g1)" by fastforce
  then show ?thesis
    using assms(1) assms(2) by (cases y) (auto simp: and_then_def intro: sends_trans)
qed

lemma log_sends: "sends g [] (snd (gh_log t p s g))"
  using gh_log_keeps [OF surjective_pairing] by (simp add: sends_def)

lemma log_throw_sends: "sends g [] (snd (log_throw t p s e g))"
  unfolding log_throw_def by (rule and_then_sends [OF log_sends]) simp

text \<open>An operation whose \<open>catch\<close> block logs and throws again.\<close>

lemma catch_sends:
  assumes "sends g rs (snd m)"
  shows "sends g rs (snd (case m of (Inr x, g1) \<Rightarrow> (Inr x, g1) | (Inl e, g1) \<Rightarrow> log_throw t (p e) s e g1))"
proof -
  obtain y g1 where m: "m = (y, g1)" by fastforce
  then show ?thesis using assms by (cases y) (auto intro: sends_trans log_throw_sends)
qed

lemma pr_created_sends: "sends g [] (snd (pr_created p v g))"
  unfolding pr_created_def by (cases "js_get v ''number''") (auto intro: and_then_sends log_sends)

lemma gh_do_sends: "sends g (call_sends g c) (gh_do (W, c) g)"
proof -
  have one: "call_sends g c = (if gh_validateToken g = None then [gh_request (the (gh_token g)) ep m b] else [])"
    if "call_request c = Some (ep, m, b)" for ep m b
    using that by (simp add: call_sends_def)
  show ?thesis
  proof (cases c)
    case Get_user
    then show ?thesis using one apiRequest_sends by (simp add: getCurrentUser_def)
  next
    case Authenticate
    show ?thesis
    proof (cases "gh_validateToken g")
      case None
      have "call_sends g c = [gh_request (the (gh_token g)) ''/user'' ''GET'' JUndef]"
        using one None by (simp add: Authenticate)
      moreover have "sends g [gh_request (the (gh_token g)) ''/user'' ''GET'' JUndef] (snd (apiRequest W ''/user'' ''GET'' JUndef g))"
        using apiRequest_sends [of g "''/user''" "''GET''" JUndef W] None by simp
      ultimately show ?thesis
        unfolding Authenticate gh_do.simps authenticate_def Let_def None option.case getCurrentUser_def
        by (simp only:) (intro catch_sends and_then_sends; auto split: sum.splits intro: and_then_sends log_sends)
    qed (simp add: Authenticate authenticate_def call_sends_def log_throw_sends)
  next
    case (From_remote out)
    show ?thesis
    proof (cases "detectRepositoryFromRemote out")
      case None
      then show ?thesis by (simp add: From_remote getRepositoryFromRemote_def call_sends_def)
    next
      case (Some r)
      have "snd (getRepositoryFromRemote W out g) = snd (getRepository W (rm_owner r) (rm_repo r) g)"
        by (simp add: getRepositoryFromRemote_def Some split: prod.splits sum.splits)
      then show ?thesis using one apiRequest_sends by (simp add: From_remote Some getRepository_def)
    qed
  next
    case (Repository ow rp)
    then show ?thesis using one apiRequest_sends by (simp add: getRepository_def)
  next
    case (Create_pr p)
    have "call_sends g c = (if gh_validateToken g = None then [gh_request (the (gh_token g))
        (repo_endpoint (pr_owner p) (pr_repo p) @ ''/pulls'') ''POST'' (pr_request_body p)] else [])"
      using one by (simp add: Create_pr)
    then show ?thesis
      unfolding Create_pr gh_do.simps createPullRequest_def Let_def
      by (simp only:) (intro catch_sends and_then_sends apiRequest_sends pr_created_sends)
  qed
qed

text \<open>C23.
  What is sent, and where. Whatever operations are called on a client, whatever the network and the log answer, the
  requests are, in order, exactly the one that each call stands for (\<open>call_request\<close>: path, method and body; a remote
  that is not understood stands for none), and none at all unless the client's token passes the check. Each
  goes to the host of the API and carries that token.\<close>

theorem github_confined:
  "gh_sent (foldl (\<lambda>g c. gh_do c g) (new_github configured token answers) calls) =
      concat (map (\<lambda>(W, c). call_sends (new_github configured token answers) c) calls) \<and>
    list_all (request_ok (new_github configured token answers))
     (gh_sent (foldl (\<lambda>g c. gh_do c g) (new_github configured token answers) calls))"
proof -
  let ?g = "new_github configured token answers"
  have "sends ?g (concat (map (\<lambda>(W, c). call_sends ?g c) calls)) (foldl (\<lambda>g c. gh_do c g) ?g calls)"
  proof (induction calls rule: rev_induct)
    case (snoc wc calls)
    obtain W c where wc: "wc = (W, c)" by force
    let ?h = "foldl (\<lambda>g c. gh_do c g) ?g calls"
    have "sends ?h (call_sends ?h c) (gh_do wc ?h)" unfolding wc by (rule gh_do_sends)
    with snoc same_token [of ?h ?g c] show ?case by (simp add: sends_def wc)
  qed simp
  moreover have "gh_sent ?g = []" by (simp add: new_github_def)
  moreover have "list_all (request_ok ?g) (concat (map (\<lambda>(W, c). call_sends ?g c) calls))"
    using call_sends_ok by (induction calls) auto
  ultimately show ?thesis by (simp add: sends_def)
qed

section \<open>The remote\<close>

lemma match_at: "owner_repo r = Some m \<Longrightarrow> pre \<noteq> [] \<Longrightarrow> match_remote pre (pre @ r) = Some m"
  by (cases pre) (simp_all add: starts_with_def)

lemma no_match: "CHR ''@'' \<in> set pre \<Longrightarrow> CHR ''@'' \<notin> set s \<Longrightarrow> match_remote pre s = None"
proof (induction s)
  case (Cons c s)
  have "\<not> starts_with (c # s) pre"
    using Cons.prems set_take_subset [of "length pre" "c # s"] by (auto simp: starts_with_def)
  then show ?case using Cons by simp
qed simp

lemma owner_repo_parts:
  assumes "ow \<noteq> []" "CHR ''/'' \<notin> set ow" "rp \<noteq> []" "CHR ''/'' \<notin> set rp" "CHR ''.'' \<notin> set rp" "suf = [] \<or> suf = ''.git''"
  shows "owner_repo (ow @ CHR ''/'' # rp @ suf) = Some (ow, rp)"
proof -
  have "takeWhile (\<lambda>c. c \<noteq> CHR ''/'') (ow @ CHR ''/'' # rp @ suf) = ow" using assms(2) by (subst takeWhile_append2) auto
  moreover have "\<not> ends_with rp ''.git''"
  proof
    assume "ends_with rp ''.git''"
    then have "set ''.git'' \<subseteq> set rp" unfolding ends_with_def by (metis set_drop_subset)
    then show False using assms(5) by simp
  qed
  moreover have "ends_with (rp @ ''.git'') ''.git''" by (simp add: ends_with_def)
  ultimately show ?thesis using assms by (auto simp: owner_repo_def repo_name_def Let_def)
qed

lemma trim_word: "u \<noteq> [] \<Longrightarrow> list_all (\<lambda>c. \<not> is_space c) u \<Longrightarrow> trim (u @ [newline]) = u"
proof -
  assume u: "u \<noteq> []" "list_all (\<lambda>c. \<not> is_space c) u"
  have "is_space newline" by (simp add: is_space_def newline_def)
  moreover have "\<not> is_space (hd u)" "\<not> is_space (last u)" using u by (simp_all add: list_all_iff)
  then have "dropWhile is_space (rev u) = rev u" "dropWhile is_space (u @ r) = u @ r" for r
    using u(1) by (simp_all add: dropWhile_eq_self_iff hd_rev)
  ultimately show ?thesis by (simp add: trim_def)
qed

text \<open>The owner and the name of the repository are read back from the two forms in which git writes the address of a
  GitHub repository, with and without the suffix, when the name holds no dot.\<close>

theorem remote_roundtrip:
  assumes "ow \<noteq> []" "CHR ''/'' \<notin> set ow" "rp \<noteq> []" "CHR ''/'' \<notin> set rp" "CHR ''.'' \<notin> set rp" "suf = [] \<or> suf = ''.git''"
    and "list_all (\<lambda>c. \<not> is_space c \<and> c \<noteq> CHR ''@'') (ow @ rp)" "pre = ssh_prefix \<or> pre = https_prefix"
    and "u = pre @ ow @ CHR ''/'' # rp @ suf"
  shows "detectRepositoryFromRemote (Some (u @ [newline])) = Some \<lparr>rm_owner = ow, rm_repo = rp, remoteUrl = u\<rparr>"
proof -
  have w: "list_all (\<lambda>c. \<not> is_space c) ssh_prefix" "list_all (\<lambda>c. \<not> is_space c) https_prefix"
    "list_all (\<lambda>c. \<not> is_space c) ''/.git''" by code_simp+
  have "list_all (\<lambda>c. \<not> is_space c) ow" "list_all (\<lambda>c. \<not> is_space c) rp" using assms(7) by (simp_all add: list_all_iff)
  then have "list_all (\<lambda>c. \<not> is_space c) u" using w assms(6,8) unfolding assms(9) by auto
  then have t: "trim (u @ [newline]) = u" using trim_word [of u] assms(9) by simp
  have o: "owner_repo (ow @ CHR ''/'' # rp @ suf) = Some (ow, rp)" by (rule owner_repo_parts [OF assms(1-6)])
  then have m: "match_remote pre u = Some (ow, rp)"
    using match_at [OF o, of pre] assms(8,9) by (auto simp: ssh_prefix_def https_prefix_def)
  have u: "u \<noteq> []" using assms(9) by simp
  from assms(8) show ?thesis
  proof
    assume "pre = ssh_prefix"
    with m t u show ?thesis by (simp add: detectRepositoryFromRemote_def Let_def)
  next
    assume p: "pre = https_prefix"
    have "CHR ''@'' \<in> set ssh_prefix" "CHR ''@'' \<notin> set https_prefix" "CHR ''@'' \<notin> set ''/.git''" by code_simp+
    moreover have "CHR ''@'' \<notin> set ow" "CHR ''@'' \<notin> set rp" using assms(7) by (auto simp: list_all_iff)
    ultimately have "match_remote ssh_prefix u = None" using assms(6) unfolding assms(9) p by (intro no_match) auto
    with m t u p show ?thesis by (simp add: detectRepositoryFromRemote_def Let_def)
  qed
qed

lemma remote_roundtrip_witness:
  "detectRepositoryFromRemote (Some (''git@github.com:SuarezPM/Apohara.git'' @ [newline])) =
     Some \<lparr>rm_owner = ''SuarezPM'', rm_repo = ''Apohara'', remoteUrl = ''git@github.com:SuarezPM/Apohara.git''\<rparr>"
  using remote_roundtrip [of "''SuarezPM''" "''Apohara''" "''.git''" ssh_prefix "''git@github.com:SuarezPM/Apohara.git''"]
  by (simp add: ssh_prefix_def is_space_def)

text \<open>A repository whose name holds a dot is not recognised.\<close>

lemma dotted_name_missed: "detectRepositoryFromRemote (Some ''git@github.com:a/b.c.git'') = None"
  by code_simp

section \<open>The base branch\<close>

text \<open>No pull request names its base branch. The API calls the field \<open>default_branch\<close>; the client reads
  \<open>defaultBranch\<close> from its reply. When the reply has no such key, the default branch handed to the caller is
  \<open>undefined\<close>, and the body of a request with that base, once it is written as text, holds title, body and head alone.\<close>

theorem pr_without_base:
  assumes "detectRepositoryFromRemote out = Some r"
    and "getRepository W (rm_owner r) (rm_repo r) g = (Inr (JObj kvs), g1)" "dget kvs ''defaultBranch'' = None"
  shows "\<exists>i. getRepositoryFromRemote W out g = (Some (r, Some i), g1) \<and> ri_defaultBranch i = JUndef \<and>
    (\<forall>p. pr_base p = ri_defaultBranch i \<longrightarrow>
       json_parse (stringify (pr_request_body p)) =
       Some (JObj [(''title'', JStr (pr_title p)), (''body'', JStr (case pr_body p of None \<Rightarrow> [] | Some b \<Rightarrow> b)), (''head'', JStr (pr_head p))]))"
proof -
  have "json_parse (stringify (pr_request_body p)) =
      Some (JObj [(''title'', JStr (pr_title p)), (''body'', JStr (case pr_body p of None \<Rightarrow> [] | Some b \<Rightarrow> b)), (''head'', JStr (pr_head p))])"
    if "pr_base p = JUndef" for p
    using json_roundtrip [of "pr_request_body p"] that by (simp add: pr_request_body_def)
  then show ?thesis
    using assms by (simp add: getRepositoryFromRemote_def repo_info_of_def)
qed

definition demo_github_world :: github_world where
  "demo_github_world = \<lparr>gh_net = (\<lambda>r. Inr \<lparr>gr_reply = \<lparr>reply_status = 200, statusText = ''OK'', reply_text = [],
      reply_json = Inr (JObj [(''id'', JNum ''1''), (''default_branch'', JStr ''main'')])\<rparr>, gr_header = (\<lambda>h. None), gr_text_fails = False\<rparr>),
    gh_iso = (\<lambda>s. Inr s)\<rparr>"

lemma pr_without_base_witness:
  "\<exists>r i g1. getRepositoryFromRemote demo_github_world (Some ''git@github.com:a/b.git'') (new_github None (Some ''ghp_123456'') []) = (Some (r, Some i), g1) \<and>
     ri_defaultBranch i = JUndef"
proof -
  let ?g = "new_github None (Some ''ghp_123456'') []"
  let ?r = "\<lparr>rm_owner = ''a'', rm_repo = ''b'', remoteUrl = ''git@github.com:a/b.git''\<rparr>"
  let ?kvs = "[(''id'', JNum ''1''), (''default_branch'', JStr ''main'')]"
  have d: "detectRepositoryFromRemote (Some ''git@github.com:a/b.git'') = Some ?r" by code_simp
  have "gh_validateToken ?g = None" by code_simp
  then obtain g1 where g: "getRepository demo_github_world (rm_owner ?r) (rm_repo ?r) ?g = (Inr (JObj ?kvs), g1)"
    by (simp add: getRepository_def apiRequest_def demo_github_world_def read_reply_def reply_ok_def Let_def)
  have "dget ?kvs ''defaultBranch'' = None" by code_simp
  from pr_without_base [OF d g this] show ?thesis by blast
qed

text \<open>When the log fails after the pull request is made, the call reports a failure for a pull request that exists.\<close>

lemma created_but_failed:
  assumes "apiRequest W (repo_endpoint (pr_owner p) (pr_repo p) @ ''/pulls'') ''POST'' (pr_request_body p) g = (Inr (JObj kvs), g1)"
    and "gh_answers g1 = Some e # as"
  shows "\<exists>e' g2. createPullRequest W p g = (Inl e', g2)"
proof -
  obtain g2 where "pr_created p (JObj kvs) g1 = (Inl e, g2)"
    using assms(2) by (simp add: pr_created_def gh_log_def and_then_def)
  then show ?thesis using assms(1)
    by (simp add: createPullRequest_def and_then_def log_throw_def Let_def split: prod.split sum.split)
qed

end
