(* ===== verification/Auto.thy ===== *)
theory Auto
  imports Subagent Consolidator Sandbox Github
begin

text \<open>
  \<open>src/commands/auto.ts\<close>: the command that decomposes a prompt, executes the tasks, consolidates the worktrees, lints,
  opens a pull request and writes the summary, with the loop of \<open>--improve-self\<close>; and the exit code of
  \<open>src/lib/spawn.ts\<close>. The sandbox and the GitHub client are the models of their components; the decomposition, the
  agents, the mesh, the consolidator, the processes and the summary are the outcomes that the record \<open>auto_world\<close> holds.
  A task keeps the two fields \<open>complexity\<close> and \<open>filesModified\<close> that the command reads from it and that the
  decomposer does not declare. Console output is left out.
\<close>

section \<open>State\<close>

record auto_task = DecomposedTask +
  at_complexity :: "string option"
  at_filesModified :: "int option"

text \<open>A process: it cannot be started, or it ends with a code, \<open>None\<close> when a signal ended it.\<close>

type_synonym process_end = "string + int option"

record git_answers =
  git_add :: process_end
  git_diff :: process_end
  git_commit :: process_end

record lint_run =
  lint_end :: process_end
  lint_stdout :: string
  lint_stderr :: string

record auto_world =
  aw_load :: "string + nat"
  aw_decompose :: "string + auto_task list"
  aw_results :: "string + SubagentResult list"
  aw_env :: "nat \<Rightarrow> sandbox_env"
  aw_mesh :: "nat \<Rightarrow> string + bool \<times> json"
  aw_git :: "nat \<Rightarrow> git_answers"
  aw_consolidate :: "string + ConsolidationResult"
  aw_lint :: lint_run
  aw_remote :: "string option"
  aw_github :: github_world
  aw_summary :: "string + string"

record auto_event =
  au_type :: string
  au_payload :: json
  au_severity :: EventSeverity
  au_taskId :: "string option"

record auto_state =
  au_events :: "auto_event list"
  au_answers :: "string option list"
  au_isolator :: isolator
  au_github :: github
  au_commits :: "(string \<times> string) list"
  au_meshed :: "string list"

definition au_log :: "string \<Rightarrow> (string \<times> json) list \<Rightarrow> EventSeverity \<Rightarrow> string option \<Rightarrow> auto_state \<Rightarrow> (string + unit) \<times> auto_state" where
  "au_log ty payload sev task s =
    (let ev = \<lparr>au_type = ty, au_payload = JObj payload, au_severity = sev, au_taskId = task\<rparr> in
     case au_answers s of
       Some e # as \<Rightarrow> (Inl e, s\<lparr>au_answers := as\<rparr>)
     | None # as \<Rightarrow> (Inr (), s\<lparr>au_answers := as, au_events := au_events s @ [ev]\<rparr>)
     | [] \<Rightarrow> (Inr (), s\<lparr>au_events := au_events s @ [ev]\<rparr>))"

text \<open>\<open>code ?? 0\<close> of \<open>spawn\<close>: a process that a signal ended counts as a success.\<close>

definition spawn_exited :: "process_end \<Rightarrow> string + int" where
  "spawn_exited p = (case p of Inl e \<Rightarrow> Inl e | Inr None \<Rightarrow> Inr 0 | Inr (Some c) \<Rightarrow> Inr c)"

section \<open>Improve-self\<close>

definition task_complexity :: "auto_task \<Rightarrow> string" where
  "task_complexity t = (case at_complexity t of Some c \<Rightarrow> c | None \<Rightarrow> ''medium'')"

definition task_filesModified :: "auto_task \<Rightarrow> int" where
  "task_filesModified t = (case at_filesModified t of Some n \<Rightarrow> n | None \<Rightarrow> 0)"

definition qualifiesForMesh :: "auto_task \<Rightarrow> bool" where
  "qualifiesForMesh t \<longleftrightarrow> (task_complexity t = ''high'' \<or> task_complexity t = ''critical'') \<and> 3 \<le> task_filesModified t"

definition buildCommitMessage :: "auto_task \<Rightarrow> bool \<Rightarrow> string" where
  "buildCommitMessage t meshApplied = ''feat: '' @ dt_description t @ [newline, newline] @
     join [newline] ([''sandbox: tests passed''] @ (if meshApplied then [''mesh: verified''] else []) @
       [''complexity: '' @ task_complexity t, ''files-modified: '' @ show_int (task_filesModified t)]) @
     [newline, newline] @ ''GSD-Task: improve-self/'' @ dt_id t"

text \<open>The exit code of \<open>git add\<close> is not looked at.\<close>

definition gitCommitTask :: "git_answers \<Rightarrow> string + bool" where
  "gitCommitTask a = (case spawn_exited (git_add a) of Inl e \<Rightarrow> Inl e
     | Inr _ \<Rightarrow> (case spawn_exited (git_diff a) of Inl e \<Rightarrow> Inl e
        | Inr d \<Rightarrow> if d = 0 then Inr False
                 else (case spawn_exited (git_commit a) of Inl e \<Rightarrow> Inl e | Inr c \<Rightarrow> Inr (c = 0))))"

definition test_options :: "auto_task \<Rightarrow> SandboxExecOptions" where
  "test_options t = \<lparr>workdir = ''.'', command = ''bun test'', opt_permission = Some Workspace_write, opt_timeout = Some 60000,
     opt_taskId = Some (dt_id t)\<rparr>"

definition sandbox_test :: "sandbox_env \<Rightarrow> auto_task \<Rightarrow> auto_state \<Rightarrow> (string + SandboxExecResult) \<times> auto_state" where
  "sandbox_test w t s = (case sandbox_exec w (test_options t) (au_isolator s) of (r, i) \<Rightarrow> (r, s\<lparr>au_isolator := i\<rparr>))"

definition verify_step :: "auto_world \<Rightarrow> nat \<Rightarrow> auto_task \<Rightarrow> auto_state \<Rightarrow> (string + bool \<times> json) \<times> auto_state" where
  "verify_step W i t s = (if qualifiesForMesh t then (aw_mesh W i, s\<lparr>au_meshed := au_meshed s @ [dt_id t]\<rparr>)
     else (Inr (False, JNum ''0''), s))"

definition commit_step :: "auto_world \<Rightarrow> nat \<Rightarrow> auto_task \<Rightarrow> bool \<Rightarrow> auto_state \<Rightarrow> (string + bool) \<times> auto_state" where
  "commit_step W i t meshApplied s = (case gitCommitTask (aw_git W i) of Inl e \<Rightarrow> (Inl e, s)
     | Inr c \<Rightarrow> (Inr c, if c then s\<lparr>au_commits := au_commits s @ [(dt_id t, buildCommitMessage t meshApplied)]\<rparr> else s))"

definition jopt :: "string option \<Rightarrow> json" where
  "jopt x = (case x of None \<Rightarrow> JUndef | Some t \<Rightarrow> JStr t)"

definition tests_passed :: "SandboxExecResult \<Rightarrow> bool" where
  "tests_passed r \<longleftrightarrow> exitCode r = JNum ''0''"

definition commit_tested :: "auto_world \<Rightarrow> nat \<Rightarrow> auto_task \<Rightarrow> SandboxExecResult \<Rightarrow> auto_state \<Rightarrow> (string + unit) \<times> auto_state" where
  "commit_tested W i t r s =
     and_then (verify_step W i t s) (\<lambda>m s1.
     and_then (commit_step W i t (fst m) s1) (\<lambda>c s2.
       au_log ''improve_self_task_completed'' [(''taskId'', JStr (dt_id t)), (''sandboxExitCode'', exitCode r),
         (''meshApplied'', JBool (fst m)), (''meshCostDelta'', snd m), (''committed'', JBool c)] Info (Some (dt_id t)) s2))"

definition improve_task :: "auto_world \<Rightarrow> nat \<Rightarrow> auto_task \<Rightarrow> auto_state \<Rightarrow> (string + unit) \<times> auto_state" where
  "improve_task W i t s =
     and_then (sandbox_test (aw_env W i) t s) (\<lambda>r s1.
     and_then (au_log ''sandbox_test_run'' [(''taskId'', JStr (dt_id t)), (''exitCode'', exitCode r),
         (''durationMs'', durationMs r), (''error'', jopt (exec_error r))]
         (if tests_passed r then Info else Warning) (Some (dt_id t)) s1) (\<lambda>u s2.
       if \<not> tests_passed r then
         au_log ''improve_self_task_completed'' [(''taskId'', JStr (dt_id t)), (''sandboxExitCode'', exitCode r),
           (''meshApplied'', JBool False), (''committed'', JBool False), (''skipReason'', JStr ''sandbox_tests_failed'')]
           Warning (Some (dt_id t)) s2
       else commit_tested W i t r s2))"

fun runImproveSelf :: "auto_world \<Rightarrow> nat \<Rightarrow> auto_task list \<Rightarrow> auto_state \<Rightarrow> (string + unit) \<times> auto_state" where
  "runImproveSelf W i [] s = (Inr (), s)"
| "runImproveSelf W i (t # ts) s = and_then (improve_task W i t s) (\<lambda>u s1. runImproveSelf W (Suc i) ts s1)"

section \<open>Lint and pull request\<close>

text \<open>The first \<open>Fixed (\d+) issues?\<close> of a text.\<close>

fun fixed_count :: "string \<Rightarrow> nat option" where
  "fixed_count [] = None"
| "fixed_count (c # s) =
    (let r = drop 6 (c # s); ds = takeWhile is_digit r in
     if starts_with (c # s) ''Fixed '' \<and> ds \<noteq> [] \<and> starts_with (drop (length ds) r) '' issue'' then Some (digits_value ds)
     else fixed_count s)"

record lint_result =
  lr_exitCode :: int
  lr_fixed :: nat
  lr_output :: string

definition runBiomeLint :: "lint_run \<Rightarrow> string + lint_result" where
  "runBiomeLint l = (case spawn_exited (lint_end l) of Inl e \<Rightarrow> Inl e
     | Inr c \<Rightarrow> Inr \<lparr>lr_exitCode = c,
         lr_fixed = (case fixed_count (lint_stdout l) of Some n \<Rightarrow> n
           | None \<Rightarrow> (case fixed_count (lint_stderr l) of Some n \<Rightarrow> n | None \<Rightarrow> 0)),
         lr_output = lint_stdout l @ lint_stderr l\<rparr>)"

definition pr_skipped :: "string \<Rightarrow> EventSeverity \<Rightarrow> auto_state \<Rightarrow> (string + (json \<times> json) option) \<times> auto_state" where
  "pr_skipped reason sev s = and_then (au_log ''github_pr_skipped'' [(''reason'', JStr reason)] sev None s) (\<lambda>u s1. (Inr None, s1))"

definition auto_pull_request :: "remote \<Rightarrow> repo_info \<Rightarrow> string \<Rightarrow> pull_request" where
  "auto_pull_request r i branch = \<lparr>pr_owner = rm_owner r, pr_repo = rm_repo r, pr_title = ''Auto: '' @ branch,
     pr_body = Some (''Changes consolidated from Clarity auto execution.'' @ [newline, newline] @ ''Branch: '' @ branch),
     pr_head = branch, pr_base = ri_defaultBranch i\<rparr>"

definition createGitHubPullRequest :: "auto_world \<Rightarrow> string \<Rightarrow> bool \<Rightarrow> auto_state \<Rightarrow> (string + (json \<times> json) option) \<times> auto_state" where
  "createGitHubPullRequest W branch enablePr s =
    (if \<not> enablePr then pr_skipped ''user opted out via --no-pr flag'' Info s
     else case getRepositoryFromRemote (aw_github W) (aw_remote W) (au_github s) of
       (Some (r, Some i), g) \<Rightarrow>
         (case gh_validateToken g of
            Some e \<Rightarrow> pr_skipped e Warning (s\<lparr>au_github := g\<rparr>)
          | None \<Rightarrow> (case createPullRequest (aw_github W) (auto_pull_request r i branch) g of
              (Inr pr, g1) \<Rightarrow> (Inr (Some (cp_number pr, cp_htmlUrl pr)), s\<lparr>au_github := g1\<rparr>)
            | (Inl e, g1) \<Rightarrow> and_then (au_log ''github_pr_error'' [(''error'', JStr e)] Error None (s\<lparr>au_github := g1\<rparr>))
                (\<lambda>u s1. (Inr None, s1))))
     | (_, g) \<Rightarrow> pr_skipped ''Could not detect repository from git remote'' Warning (s\<lparr>au_github := g\<rparr>))"

section \<open>The command\<close>

record auto_options =
  ao_worktrees :: "string option"
  ao_pr :: "bool option"
  ao_improveSelf :: "bool option"

text \<open>\<open>parseInt(s, 10)\<close>, \<open>None\<close> for \<open>NaN\<close>.\<close>

definition parse_int :: "string \<Rightarrow> int option" where
  "parse_int s = (let t = dropWhile is_space s;
       n = (\<lambda>u. let ds = takeWhile is_digit u in if ds = [] then None else Some (int (digits_value ds))) in
     case t of [] \<Rightarrow> None
     | c # u \<Rightarrow> if c = CHR ''-'' then map_option uminus (n u) else if c = CHR ''+'' then n u else n t)"

definition pool_size :: "auto_options \<Rightarrow> int option" where
  "pool_size opts = parse_int (case ao_worktrees opts of Some (c # cs) \<Rightarrow> c # cs | _ \<Rightarrow> ''3'')"

fun sub_status :: "SubagentStatus \<Rightarrow> string" where
  "sub_status SPending = ''pending''"
| "sub_status SRunning = ''running''"
| "sub_status SCompleted = ''completed''"
| "sub_status SFailed = ''failed''"
| "sub_status STimeout = ''timeout''"

definition successCount :: "SubagentResult list \<Rightarrow> nat" where
  "successCount rs = length (filter (\<lambda>r. sr_status r = SCompleted) rs)"

definition errorCount :: "SubagentResult list \<Rightarrow> nat" where
  "errorCount rs = length (filter (\<lambda>r. sr_status r = SFailed \<or> sr_status r = STimeout) rs)"

definition jcount :: "nat \<Rightarrow> json" where "jcount n = JNum (show_nat n)"

definition completed_payload :: "SubagentResult list \<Rightarrow> (string \<times> json) list" where
  "completed_payload rs = [(''successCount'', jcount (successCount rs)), (''errorCount'', jcount (errorCount rs)),
     (''totalTasks'', jcount (length rs)),
     (''results'', JArr (map (\<lambda>r. JObj [(''taskId'', JStr (sr_taskId r)), (''status'', JStr (sub_status (sr_status r))),
        (''provider'', JStr (provider_name (sr_provider r)))]) rs))]"

definition consolidated_payload :: "ConsolidationResult \<Rightarrow> (string \<times> json) list" where
  "consolidated_payload c = [(''branch'', JStr (cr_branch c)), (''exitCode'', jcount (cr_exitCode c)),
     (''successfulWorktrees'', JArr (map JStr (successfulWorktrees c))), (''failedWorktrees'', JArr (map JStr (failedWorktrees c)))]"

datatype auto_end = Finished | Exit nat | Rejected string

text \<open>What \<open>await\<close> makes of an outcome: its error, or its value.\<close>

definition awaited :: "string + 'a \<Rightarrow> auto_state \<Rightarrow> (string + 'a) \<times> auto_state" where
  "awaited x s = (x, s)"

definition report :: "auto_world \<Rightarrow> auto_options \<Rightarrow> auto_state \<Rightarrow> (string + auto_end) \<times> auto_state" where
  "report W opts s =
     and_then (awaited (aw_consolidate W) s) (\<lambda>c s1.
     and_then (au_log ''consolidation_completed'' (consolidated_payload c) (if cr_exitCode c = 0 then Info else Warning) None s1) (\<lambda>u s2.
     and_then (awaited (runBiomeLint (aw_lint W)) s2) (\<lambda>l s3.
     and_then (au_log ''lint_applied'' [(''exitCode'', JNum (show_int (lr_exitCode l))), (''fixed'', jcount (lr_fixed l)), (''output'', JStr (lr_output l))]
        (if lr_exitCode l = 0 then Info else Warning) None s3) (\<lambda>u s4.
     and_then (createGitHubPullRequest W (cr_branch c) (case ao_pr opts of None \<Rightarrow> True | Some b \<Rightarrow> b) s4) (\<lambda>pr s5.
     and_then (case pr of None \<Rightarrow> (Inr (), s5)
        | Some (n, link) \<Rightarrow> au_log ''github_pr_created'' [(''prNumber'', n), (''prUrl'', link), (''branch'', JStr (cr_branch c))] Info None s5) (\<lambda>u s6.
     and_then (awaited (aw_summary W) s6) (\<lambda>path s7.
     and_then (au_log ''summary_generated'' [(''summaryPath'', JStr path)] Info None s7) (\<lambda>u s8. (Inr Finished, s8)))))))))"

definition run_tasks :: "auto_world \<Rightarrow> auto_options \<Rightarrow> auto_task list \<Rightarrow> auto_state \<Rightarrow> (string + auto_end) \<times> auto_state" where
  "run_tasks W opts ts s =
     and_then (au_log ''decomposition_completed'' [(''taskCount'', jcount (length ts)), (''tasks'', JArr (map (\<lambda>t. JStr (dt_id t)) ts))] Info None s) (\<lambda>u s1.
     and_then (awaited (aw_results W) s1) (\<lambda>rs s2.
     and_then (if ao_improveSelf opts = Some True then runImproveSelf W 0 ts s2 else (Inr (), s2)) (\<lambda>u s3.
     and_then (au_log ''auto_command_completed'' (completed_payload rs) (if 0 < errorCount rs then Warning else Info) None s3) (\<lambda>u s4.
       report W opts s4))))"

definition auto_body :: "auto_world \<Rightarrow> auto_options \<Rightarrow> string \<Rightarrow> auto_state \<Rightarrow> (string + auto_end) \<times> auto_state" where
  "auto_body W opts prompt s =
     and_then (awaited (aw_load W) s) (\<lambda>n s1.
     and_then (au_log ''auto_command_started'' [(''prompt'', JStr prompt),
         (''worktreePoolSize'', (case pool_size opts of None \<Rightarrow> JNull | Some k \<Rightarrow> JNum (show_int k)))] Info None s1) (\<lambda>u s2.
       case aw_decompose W of
         Inl e \<Rightarrow> and_then (au_log ''auto_command_failed'' [(''prompt'', JStr prompt), (''error'', JStr e)] Error None s2) (\<lambda>u s3. (Inr (Exit 1), s3))
       | Inr ts \<Rightarrow> run_tasks W opts ts s2))"

definition auto_command :: "auto_world \<Rightarrow> auto_options \<Rightarrow> string \<Rightarrow> auto_state \<Rightarrow> auto_end \<times> auto_state" where
  "auto_command W opts prompt s = (case auto_body W opts prompt s of
     (Inr x, s1) \<Rightarrow> (x, s1)
   | (Inl e, s1) \<Rightarrow> (case au_log ''auto_command_failed'' [(''prompt'', JStr prompt), (''error'', JStr e)] Error None s1 of
       (Inl e', s2) \<Rightarrow> (Rejected e', s2) | (Inr u, s2) \<Rightarrow> (Exit 1, s2)))"

section \<open>Commits follow tests\<close>

definition passed_event :: "string \<Rightarrow> auto_event \<Rightarrow> bool" where
  "passed_event i e \<longleftrightarrow> au_type e = ''sandbox_test_run'' \<and> au_taskId e = Some i \<and> au_severity e = Info \<and>
     opt_get (au_payload e) ''exitCode'' = JNum ''0''"

definition passed :: "string \<Rightarrow> auto_state \<Rightarrow> bool" where
  "passed i s \<longleftrightarrow> (\<exists>e \<in> set (au_events s). passed_event i e)"

text \<open>From one state to a later one, events are only added, and commits only for tasks with a logged test that passed.\<close>

definition grows :: "auto_state \<Rightarrow> auto_state \<Rightarrow> bool" where
  "grows s t \<longleftrightarrow> set (au_events s) \<subseteq> set (au_events t) \<and>
     (\<forall>c \<in> set (au_commits t) - set (au_commits s). passed (fst c) t)"

lemma grows_refl [simp]: "grows s s"
  by (simp add: grows_def)

lemma passed_mono: "passed i s \<Longrightarrow> set (au_events s) \<subseteq> set (au_events t) \<Longrightarrow> passed i t"
  by (auto simp: passed_def)

lemma grows_trans: "grows s t \<Longrightarrow> grows t u \<Longrightarrow> grows s u"
  unfolding grows_def using passed_mono by (meson DiffD1 DiffD2 DiffI subset_trans)

lemma and_then_grows:
  assumes "grows s (snd m)" "\<And>x t. m = (Inr x, t) \<Longrightarrow> grows t (snd (f x t))"
  shows "grows s (snd (and_then m f))"
proof -
  obtain y t where m: "m = (y, t)" by fastforce
  then show ?thesis using assms by (cases y) (auto simp: and_then_def intro: grows_trans)
qed

lemma same_grows: "au_events t = au_events s \<Longrightarrow> au_commits t = au_commits s \<Longrightarrow> grows s t"
  by (simp add: grows_def)

lemma au_log_cases: "au_log ty p sev task s = (x, t) \<Longrightarrow> au_commits t = au_commits s \<and>
    (au_events t = au_events s \<and> x \<noteq> Inr () \<or>
     au_events t = au_events s @ [\<lparr>au_type = ty, au_payload = JObj p, au_severity = sev, au_taskId = task\<rparr>])"
  by (auto simp: au_log_def Let_def split: list.splits option.splits)

lemma au_log_grows: "grows s (snd (au_log ty p sev task s))"
proof -
  obtain x t where l: "au_log ty p sev task s = (x, t)" by fastforce
  from au_log_cases [OF l] show ?thesis by (auto simp: l grows_def)
qed

lemma commit_tested_grows:
  assumes "passed (dt_id t) s"
  shows "grows s (snd (commit_tested W i t r s))"
  unfolding commit_tested_def
proof (rule and_then_grows)
  show "grows s (snd (verify_step W i t s))" by (simp add: verify_step_def grows_def)
  fix m s1 assume m: "verify_step W i t s = (Inr m, s1)"
  then have p: "passed (dt_id t) s1" using assms by (auto simp: verify_step_def passed_def split: if_splits)
  show "grows s1 (snd (and_then (commit_step W i t (fst m) s1) (\<lambda>c s2. au_log ''improve_self_task_completed''
      [(''taskId'', JStr (dt_id t)), (''sandboxExitCode'', exitCode r), (''meshApplied'', JBool (fst m)),
       (''meshCostDelta'', snd m), (''committed'', JBool c)] Info (Some (dt_id t)) s2)))"
  proof (rule and_then_grows)
    show "grows s1 (snd (commit_step W i t (fst m) s1))"
      using p by (cases "gitCommitTask (aw_git W i)") (auto simp: commit_step_def grows_def passed_def)
  qed (rule au_log_grows)
qed

lemma improve_task_grows: "grows s (snd (improve_task W i t s))"
  unfolding improve_task_def
proof (intro and_then_grows)
  show "grows s (snd (sandbox_test (aw_env W i) t s))"
    by (auto simp: sandbox_test_def intro: same_grows split: prod.split)
next
  fix r s1 u s2
  assume l: "au_log ''sandbox_test_run'' [(''taskId'', JStr (dt_id t)), (''exitCode'', exitCode r),
         (''durationMs'', durationMs r), (''error'', jopt (exec_error r))]
         (if tests_passed r then Info else Warning) (Some (dt_id t)) s1 = (Inr u, s2)"
  have "passed (dt_id t) s2" if "tests_passed r"
    using au_log_cases [OF l] that by (auto simp: passed_def passed_event_def tests_passed_def dget_Cons)
  then show "grows s2 (snd (if \<not> tests_passed r then
         au_log ''improve_self_task_completed'' [(''taskId'', JStr (dt_id t)), (''sandboxExitCode'', exitCode r),
           (''meshApplied'', JBool False), (''committed'', JBool False), (''skipReason'', JStr ''sandbox_tests_failed'')]
           Warning (Some (dt_id t)) s2
       else commit_tested W i t r s2))"
    by (simp add: au_log_grows commit_tested_grows)
qed (rule au_log_grows)

lemma runImproveSelf_grows: "grows s (snd (runImproveSelf W i ts s))"
  by (induction ts arbitrary: i s) (auto intro: and_then_grows improve_task_grows)

lemma pr_skipped_grows: "grows s (snd (pr_skipped reason sev s))"
  unfolding pr_skipped_def by (rule and_then_grows [OF au_log_grows]) simp

lemma github_grows: "grows s (s\<lparr>au_github := g\<rparr>)"
  by (simp add: grows_def)

lemma createGitHubPullRequest_grows: "grows s (snd (createGitHubPullRequest W branch b s))"
proof -
  have "grows s (snd (and_then (au_log ty p sev task (s\<lparr>au_github := g\<rparr>)) (\<lambda>u s1. (Inr None, s1))))" for ty p sev task g
    by (intro and_then_grows) (auto intro: grows_trans [OF github_grows au_log_grows])
  then show ?thesis
    by (auto simp: createGitHubPullRequest_def github_grows intro: pr_skipped_grows grows_trans [OF github_grows pr_skipped_grows]
        split: prod.split option.split sum.split)
qed

lemma report_grows: "grows s (snd (report W opts s))"
  unfolding report_def
  by (intro and_then_grows au_log_grows createGitHubPullRequest_grows) (auto simp: awaited_def au_log_grows split: option.split)

lemma run_tasks_grows: "grows s (snd (run_tasks W opts ts s))"
  unfolding run_tasks_def
  by (intro and_then_grows au_log_grows report_grows) (auto simp: awaited_def runImproveSelf_grows)

lemma auto_body_grows: "grows s (snd (auto_body W opts p s))"
  unfolding auto_body_def
  by (intro and_then_grows au_log_grows) (auto simp: awaited_def split: sum.split intro: run_tasks_grows and_then_grows au_log_grows)

lemma auto_command_grows: "grows s (snd (auto_command W opts p s))"
proof -
  obtain x t where b: "auto_body W opts p s = (x, t)" by fastforce
  have g: "grows s t" using auto_body_grows [of s W opts p] by (simp add: b)
  show ?thesis
  proof (cases x)
    case (Inl e)
    obtain y u where l: "au_log ''auto_command_failed'' [(''prompt'', JStr p), (''error'', JStr e)] Error None t = (y, u)" by fastforce
    have "grows t u" using au_log_grows [of t] l by (metis snd_conv)
    with g show ?thesis by (cases y) (auto simp: auto_command_def b Inl l intro: grows_trans)
  qed (simp add: auto_command_def b g)
qed

text \<open>C14.
  A commit follows a passing test. Whatever the sandbox, the mesh, git and the log answer, when the command ends every
  commit that it made is for a task for which the ledger holds a sandbox test run with exit code 0.\<close>

theorem auto_commits_tested:
  "auto_command W opts prompt (s\<lparr>au_commits := []\<rparr>) = (x, t) \<Longrightarrow> c \<in> set (au_commits t) \<Longrightarrow> passed (fst c) t"
  using auto_command_grows [of "s\<lparr>au_commits := []\<rparr>" W opts prompt] by (simp add: grows_def)

definition demo_auto_task :: auto_task where
  "demo_auto_task = \<lparr>dt_id = ''t'', dt_description = ''d'', estimatedComplexity = Low, dependencies = [], dt_role = Execution, files = [],
     indexerContext = None, at_complexity = None, at_filesModified = None\<rparr>"

definition demo_improve_world :: auto_world where
  "demo_improve_world = \<lparr>aw_load = Inr 0, aw_decompose = Inr [demo_auto_task], aw_results = Inr [],
     aw_env = (\<lambda>i. \<lparr>platform = ''darwin'', force_nonlinux = None, allow_unsandboxed = Some ''1'', file_exists = (\<lambda>p. False),
       run_command = (\<lambda>a c t. Inr (0, [], [])), elapsed = 0\<rparr>), aw_mesh = (\<lambda>i. Inl ''x''),
     aw_git = (\<lambda>i. \<lparr>git_add = Inr (Some 0), git_diff = Inr (Some 1), git_commit = Inr (Some 0)\<rparr>), aw_consolidate = Inl ''e'',
     aw_lint = \<lparr>lint_end = Inl [], lint_stdout = [], lint_stderr = []\<rparr>, aw_remote = None, aw_github = demo_github_world,
     aw_summary = Inl []\<rparr>"

definition demo_auto_state :: auto_state where
  "demo_auto_state = \<lparr>au_events = [], au_answers = [], au_isolator = new_isolator None, au_github = new_github None None [],
     au_commits = [], au_meshed = []\<rparr>"

lemma auto_commits_tested_witness:
  "\<exists>x t c. auto_command demo_improve_world \<lparr>ao_worktrees = None, ao_pr = None, ao_improveSelf = Some True\<rparr> ''p'' demo_auto_state = (x, t) \<and>
     c \<in> set (au_commits t) \<and> fst c = ''t'' \<and> passed ''t'' t"
proof -
  obtain x t where r: "auto_command demo_improve_world \<lparr>ao_worktrees = None, ao_pr = None, ao_improveSelf = Some True\<rparr> ''p'' demo_auto_state = (x, t)"
    by fastforce
  have z: "jnum 0 = JNum ''0''" by code_simp
  obtain r i where e: "sandbox_exec (aw_env demo_improve_world 0) (test_options demo_auto_task) (new_isolator None) = (Inr r, i)" "tests_passed r"
    by (simp add: demo_improve_world_def sandbox_exec_def not_linux_def execBypassNonLinux_def start_process_def sb_log_def
      logExecution_def new_isolator_def Let_def z tests_passed_def)
  have w: "aw_load demo_improve_world = Inr 0" "aw_decompose demo_improve_world = Inr [demo_auto_task]" "aw_results demo_improve_world = Inr []"
    "aw_consolidate demo_improve_world = Inl ''e''" "gitCommitTask (aw_git demo_improve_world 0) = Inr True" "dt_id demo_auto_task = ''t''"
    by (simp_all add: demo_improve_world_def gitCommitTask_def spawn_exited_def demo_auto_task_def)
  have q: "\<not> qualifiesForMesh demo_auto_task" by (simp add: qualifiesForMesh_def demo_auto_task_def task_complexity_def)
  have "map fst (au_commits (snd (auto_command demo_improve_world \<lparr>ao_worktrees = None, ao_pr = None, ao_improveSelf = Some True\<rparr> ''p'' demo_auto_state))) = [''t'']"
    by (simp add: auto_command_def auto_body_def run_tasks_def report_def awaited_def and_then_def au_log_def Let_def w demo_auto_state_def
      improve_task_def sandbox_test_def e commit_tested_def verify_step_def q commit_step_def)
  then obtain c where "c \<in> set (au_commits t)" "fst c = ''t''" by (auto simp: r)
  moreover have "demo_auto_state\<lparr>au_commits := []\<rparr> = demo_auto_state" by (simp add: demo_auto_state_def)
  ultimately show ?thesis using r auto_commits_tested [of demo_improve_world _ "''p''" demo_auto_state x t c] by fastforce
qed

section \<open>The exit code\<close>

lemma au_log_ok: "au_answers s = [] \<Longrightarrow> au_log ty p sev task s =
    (Inr (), s\<lparr>au_events := au_events s @ [\<lparr>au_type = ty, au_payload = JObj p, au_severity = sev, au_taskId = task\<rparr>]\<rparr>)"
  by (simp add: au_log_def)

text \<open>The exit code of the command says nothing about the tasks. When no call throws, without \<open>--improve-self\<close> and
  without a pull request, the command finishes normally, with exit code 0, whatever became of the tasks
  and whatever exit code the consolidation has; it logs the same seven events, and only the severities of three of them tell a failure.\<close>

theorem auto_exit_blind:
  assumes "au_answers s = []" "aw_load W = Inr k" "aw_decompose W = Inr ts" "aw_results W = Inr rs" "aw_consolidate W = Inr c"
    and "runBiomeLint (aw_lint W) = Inr l" "aw_summary W = Inr path" "ao_pr opts = Some False" "ao_improveSelf opts \<noteq> Some True"
  shows "\<exists>t. auto_command W opts prompt s = (Finished, t) \<and>
    map (\<lambda>e. (au_type e, au_severity e)) (au_events t) = map (\<lambda>e. (au_type e, au_severity e)) (au_events s) @
      [(''auto_command_started'', Info), (''decomposition_completed'', Info),
       (''auto_command_completed'', if 0 < errorCount rs then Warning else Info),
       (''consolidation_completed'', if cr_exitCode c = 0 then Info else Warning),
       (''lint_applied'', if lr_exitCode l = 0 then Info else Warning), (''github_pr_skipped'', Info), (''summary_generated'', Info)]"
  using assms by (simp add: auto_command_def auto_body_def run_tasks_def report_def awaited_def and_then_def
    createGitHubPullRequest_def pr_skipped_def au_log_ok)

definition demo_auto_world :: auto_world where
  "demo_auto_world = \<lparr>aw_load = Inr 0, aw_decompose = Inr [],
     aw_results = Inr [\<lparr>sr_taskId = ''a'', sr_role = Execution, sr_status = SFailed, sr_provider = Groq, sr_retries = 3,
       sr_output = None, sr_error = Some ''x''\<rparr>], aw_env = (\<lambda>i. \<lparr>platform = ''linux'', force_nonlinux = None, allow_unsandboxed = None,
       file_exists = (\<lambda>p. False), run_command = (\<lambda>a c t. Inl ''ENOENT''), elapsed = 0\<rparr>), aw_mesh = (\<lambda>i. Inl ''x''),
     aw_git = (\<lambda>i. \<lparr>git_add = Inr (Some 0), git_diff = Inr (Some 1), git_commit = Inr None\<rparr>),
     aw_consolidate = Inr \<lparr>cr_branch = ''b'', successfulWorktrees = [], failedWorktrees = [''lane-0''], cr_exitCode = 1, summaryPath = None\<rparr>,
     aw_lint = \<lparr>lint_end = Inr (Some 0), lint_stdout = ''Fixed 2 issues'', lint_stderr = []\<rparr>, aw_remote = None,
     aw_github = demo_github_world, aw_summary = Inr ''s.md''\<rparr>"

lemma auto_exit_blind_witness:
  "\<exists>t. auto_command demo_auto_world \<lparr>ao_worktrees = None, ao_pr = Some False, ao_improveSelf = None\<rparr> ''p'' demo_auto_state = (Finished, t) \<and>
     (''auto_command_completed'', Warning) \<in> set (map (\<lambda>e. (au_type e, au_severity e)) (au_events t))"
proof -
  obtain l where l: "runBiomeLint (aw_lint demo_auto_world) = Inr l"
    by (simp add: demo_auto_world_def runBiomeLint_def spawn_exited_def)
  obtain rs c where w: "aw_load demo_auto_world = Inr 0" "aw_decompose demo_auto_world = Inr []" "aw_results demo_auto_world = Inr rs"
    "aw_consolidate demo_auto_world = Inr c" "aw_summary demo_auto_world = Inr ''s.md''" "0 < errorCount rs"
    by (simp add: demo_auto_world_def errorCount_def)
  have "au_answers demo_auto_state = []" by (simp add: demo_auto_state_def)
  from auto_exit_blind [OF this w(1-4) l w(5), of "\<lparr>ao_worktrees = None, ao_pr = Some False, ao_improveSelf = None\<rparr>" "''p''"] w(6)
  show ?thesis by fastforce
qed

text \<open>A decomposition that fails ends the process at once with code 1.\<close>

lemma auto_decompose_fails:
  assumes "au_answers s = []" "aw_load W = Inr k" "aw_decompose W = Inl e"
  shows "fst (auto_command W opts prompt s) = Exit 1"
  using assms by (simp add: auto_command_def auto_body_def awaited_def and_then_def au_log_ok)

text \<open>A commit whose process a signal ends counts as made.\<close>

lemma killed_commit_counts: "gitCommitTask \<lparr>git_add = Inr (Some 0), git_diff = Inr (Some 1), git_commit = Inr None\<rparr> = Inr True"
  by (simp add: gitCommitTask_def spawn_exited_def)

section \<open>The mesh\<close>

lemma and_then_meshed:
  assumes "au_meshed (snd m) = M" "\<And>x t. m = (Inr x, t) \<Longrightarrow> au_meshed t = M \<Longrightarrow> au_meshed (snd (f x t)) = M"
  shows "au_meshed (snd (and_then m f)) = M"
proof -
  obtain y t where m: "m = (y, t)" by fastforce
  then show ?thesis using assms by (cases y) (auto simp: and_then_def)
qed

lemma au_log_meshed [simp]: "au_meshed (snd (au_log ty p sev task s)) = au_meshed s"
  by (simp add: au_log_def Let_def split: list.split option.split)

text \<open>
  The tasks of the decomposer have neither of the two fields that the command looks at, and then the mesh is never asked.\<close>

lemma mesh_never_asked:
  assumes "list_all (\<lambda>t. at_complexity t = None \<and> at_filesModified t = None) ts"
  shows "au_meshed (snd (runImproveSelf W i ts s)) = au_meshed s"
  using assms
proof (induction ts arbitrary: i s)
  case (Cons t ts)
  then have q: "\<not> qualifiesForMesh t" by (simp add: qualifiesForMesh_def task_complexity_def)
  have c: "au_meshed (snd (commit_tested W i t r u)) = au_meshed u" for r u
    unfolding commit_tested_def by (intro and_then_meshed) (auto simp: verify_step_def q commit_step_def split: sum.split)
  have "au_meshed (snd (improve_task W i t s)) = au_meshed s"
    unfolding improve_task_def by (intro and_then_meshed) (auto simp: c sandbox_test_def split: prod.split)
  then show ?case unfolding runImproveSelf.simps using Cons by (intro and_then_meshed) auto
qed simp

end
