(* ===== verification/Git_Remote.thy ===== *)
theory Git_Remote
  imports Github
begin

text \<open>
  \<open>src/lib/git.ts\<close>: the addresses of git remotes and the names in them. The output of \<open>git\<close> for a remote is a
  parameter, \<open>None\<close> when the command fails.
\<close>

definition git_prefix :: string where "git_prefix = ''git://github.com/''"

definition remote_of :: "string \<Rightarrow> string \<times> string \<Rightarrow> remote" where
  "remote_of u p = \<lparr>rm_owner = fst p, rm_repo = snd p, remoteUrl = u\<rparr>"

definition parseGitRemoteUrl :: "string \<Rightarrow> remote option" where
  "parseGitRemoteUrl s = (let u = trim s in
     if s = [] \<or> u = [] then None
     else case match_remote ssh_prefix u of
       Some p \<Rightarrow> Some (remote_of u p)
     | None \<Rightarrow> (case match_remote https_prefix u of
         Some p \<Rightarrow> Some (remote_of u p)
       | None \<Rightarrow> map_option (remote_of u) (match_remote git_prefix u)))"

datatype GitRemoteFormat = Ssh | Https | Git

definition detectRemoteFormat :: "string \<Rightarrow> GitRemoteFormat option" where
  "detectRemoteFormat u =
    (if u = [] then None
     else if contains u ''git@github.com'' then Some Ssh
     else if starts_with u ''https://github.com'' then Some Https
     else if starts_with u ''git://github.com'' then Some Git
     else None)"

definition getGitRemoteUrl :: "(string \<Rightarrow> string option) \<Rightarrow> string \<Rightarrow> string option" where
  "getGitRemoteUrl git name = (case git name of None \<Rightarrow> None
     | Some out \<Rightarrow> if trim out = [] then None else Some (trim out))"

definition git_detectRepositoryFromRemote :: "(string \<Rightarrow> string option) \<Rightarrow> string \<Rightarrow> remote option" where
  "git_detectRepositoryFromRemote git name = Option.bind (getGitRemoteUrl git name) parseGitRemoteUrl"

definition isValidRepoName :: "string \<Rightarrow> bool" where
  "isValidRepoName n \<longleftrightarrow> n \<noteq> [] \<and> length n \<le> 100 \<and>
     list_all (\<lambda>c. c \<notin> set (backslash # ''~^:?*['')) n \<and> \<not> ends_with n ''.git'' \<and> \<not> ends_with n ''.hook''"

definition is_word_char :: "char \<Rightarrow> bool" where
  "is_word_char c = (let n = (of_char c :: nat) in (48 \<le> n \<and> n \<le> 57) \<or> (65 \<le> n \<and> n \<le> 90) \<or> (97 \<le> n \<and> n \<le> 122))"

definition isValidOwnerName :: "string \<Rightarrow> bool" where
  "isValidOwnerName n \<longleftrightarrow> n \<noteq> [] \<and> length n \<le> 39 \<and> is_word_char (hd n) \<and>
     list_all (\<lambda>c. is_word_char c \<or> c = CHR ''_'' \<or> c = CHR ''-'') n"

section \<open>The two parsers\<close>

lemma trim_trim [simp]: "trim (trim s) = trim s"
proof -
  have d: "dropWhile P (rev (dropWhile P (rev (dropWhile P xs)))) = rev (dropWhile P (rev (dropWhile P xs)))" for P :: "char \<Rightarrow> bool" and xs
  proof -
    let ?y = "dropWhile P xs"
    have "rev (dropWhile P (rev ?y)) = [] \<or> hd (rev (dropWhile P (rev ?y))) = hd ?y"
    proof (cases "dropWhile P (rev ?y)" rule: rev_cases)
      case (snoc zs z)
      have "rev ?y = takeWhile P (rev ?y) @ zs @ [z]" using takeWhile_dropWhile_id [of P "rev ?y"] snoc by simp
      then have "rev (rev ?y) = rev (takeWhile P (rev ?y) @ zs @ [z])" by (rule arg_cong)
      then have "hd ?y = hd (z # rev zs @ rev (takeWhile P (rev ?y)))" by simp
      then show ?thesis using snoc by simp
    qed simp
    moreover have "?y \<noteq> [] \<Longrightarrow> \<not> P (hd ?y)" by (rule hd_dropWhile)
    moreover have "?y = [] \<Longrightarrow> rev (dropWhile P (rev ?y)) = []" by (simp only: rev.simps dropWhile.simps)
    ultimately show ?thesis unfolding dropWhile_eq_self_iff by metis
  qed
  have i: "dropWhile P (dropWhile P xs) = dropWhile P xs" for P :: "char \<Rightarrow> bool" and xs by (rule dropWhile_idem)
  show ?thesis unfolding trim_def d by (simp add: dropWhile_idem)
qed

text \<open>The two readers of the remote agree: the library function finds the repository that the GitHub client finds,
  and differs from it only on addresses of the \<open>git\<close> scheme, which the client does not know.\<close>

theorem remote_readers_agree:
  "detectRepositoryFromRemote (git name) =
     (case git_detectRepositoryFromRemote git name of None \<Rightarrow> None
      | Some r \<Rightarrow> if match_remote ssh_prefix (remoteUrl r) = None \<and> match_remote https_prefix (remoteUrl r) = None then None else Some r)"
  by (auto simp: detectRepositoryFromRemote_def git_detectRepositoryFromRemote_def getGitRemoteUrl_def parseGitRemoteUrl_def
      remote_of_def Let_def split: option.splits)

text \<open>A valid name of a repository with a dot is not read back from its address.\<close>

lemma valid_name_not_parsed:
  "isValidRepoName ''my.repo'' \<and> isValidOwnerName ''me'' \<and> parseGitRemoteUrl ''git@github.com:me/my.repo.git'' = None"
  by code_simp

end
