(* ===== verification/Mcp_Client.thy ===== *)
theory Mcp_Client
  imports Js_Value Provider_Calls
begin

text \<open>
  \<open>src/lib/mcp-client.ts\<close>: the client of a tool server that runs as a child process, and the registry of such
  clients. A client is driven by what happens to it: calls, data on the two output streams of the process, the
  end of the process, the timer of a request. An error of the process rejects the promise of \<open>connect\<close>. The registry is written over the two requests that it awaits, as outcomes.
\<close>

section \<open>The client\<close>

datatype mcp_end = Resolved json | Refused string

record mcp =
  mcp_process :: bool
  mcp_requestId :: nat
  mcp_pending :: "nat list"
  mcp_tools :: "(string, json) dict"
  mcp_initialized :: bool
  mcp_written :: "string list"
  mcp_settled :: "(nat \<times> mcp_end) list"
  mcp_connecting :: "nat option"
  mcp_connect :: "mcp_end option"
  mcp_debug :: "string list"

definition new_mcp :: mcp where
  "new_mcp = \<lparr>mcp_process = False, mcp_requestId = 0, mcp_pending = [], mcp_tools = [], mcp_initialized = False, mcp_written = [],
     mcp_settled = [], mcp_connecting = None, mcp_connect = None, mcp_debug = []\<rparr>"

definition mcp_message :: "nat \<Rightarrow> string \<Rightarrow> json \<Rightarrow> string" where
  "mcp_message i meth params = stringify (JObj [(''jsonrpc'', JStr ''2.0''), (''id'', JStr (show_nat i)), (''method'', JStr meth),
     (''params'', params)]) @ [newline]"

text \<open>A request is numbered by the counter; one that is refused at once has the number 0, which the counter never gives.\<close>

definition mcp_sendRequest :: "string \<Rightarrow> json \<Rightarrow> mcp \<Rightarrow> nat \<times> mcp" where
  "mcp_sendRequest meth params c =
    (if \<not> mcp_process c then (0, c\<lparr>mcp_settled := mcp_settled c @ [(0, Refused ''MCP process not connected'')]\<rparr>)
     else let i = mcp_requestId c + 1 in
       (i, c\<lparr>mcp_requestId := i, mcp_pending := mcp_pending c @ [i], mcp_written := mcp_written c @ [mcp_message i meth params]\<rparr>))"

definition init_params :: json where
  "init_params = JObj [(''protocolVersion'', JStr ''2024-11-05''), (''capabilities'', JObj []),
     (''clientInfo'', JObj [(''name'', JStr ''apohara''), (''version'', JStr ''1.0.0'')])]"

text \<open>A promise settles once.\<close>

definition settle_connect :: "mcp_end \<Rightarrow> mcp \<Rightarrow> mcp" where
  "settle_connect r c = (if mcp_connect c = None then c\<lparr>mcp_connect := Some r\<rparr> else c)"

definition mcp_connect_call :: "mcp \<Rightarrow> mcp" where
  "mcp_connect_call c =
    (let (i, c1) = mcp_sendRequest ''initialize'' init_params (c\<lparr>mcp_process := True, mcp_connect := None\<rparr>)
     in c1\<lparr>mcp_connecting := Some i\<rparr>)"

text \<open>The answer to \<open>initialize\<close> resolves \<open>connect\<close>, its rejection rejects it.\<close>

definition initialize_settled :: "nat \<Rightarrow> mcp_end \<Rightarrow> mcp \<Rightarrow> mcp" where
  "initialize_settled i r c = (if mcp_connecting c \<noteq> Some i then c
     else case r of Resolved v \<Rightarrow> settle_connect (Resolved JUndef) (c\<lparr>mcp_initialized := True\<rparr>)
        | Refused e \<Rightarrow> settle_connect (Refused e) c)"

definition mcp_timeout :: "nat \<Rightarrow> mcp \<Rightarrow> mcp" where
  "mcp_timeout i c = (if i \<notin> set (mcp_pending c) then c
     else let r = Refused (''MCP request '' @ show_nat i @ '' timed out'') in
       initialize_settled i r (c\<lparr>mcp_pending := removeAll i (mcp_pending c), mcp_settled := mcp_settled c @ [(i, r)]\<rparr>))"

definition mcp_disconnect :: "mcp \<Rightarrow> mcp" where
  "mcp_disconnect c = c\<lparr>mcp_process := False, mcp_tools := [], mcp_initialized := False\<rparr>"

definition isConnected :: "mcp \<Rightarrow> bool" where
  "isConnected c \<longleftrightarrow> mcp_initialized c \<and> mcp_process c"

definition getTool :: "string \<Rightarrow> mcp \<Rightarrow> json option" where
  "getTool name c = dget (mcp_tools c) name"

text \<open>\<open>M_stdout\<close> is data on the standard output of the process: no listener is attached to that stream.\<close>

datatype mcp_event = M_connect | M_request string json | M_stdout string | M_stderr string | M_error string
  | M_close int | M_timer nat | M_disconnect

fun mcp_step :: "mcp_event \<Rightarrow> mcp \<Rightarrow> mcp" where
  "mcp_step M_connect c = mcp_connect_call c"
| "mcp_step (M_request meth params) c = snd (mcp_sendRequest meth params c)"
| "mcp_step (M_stdout s) c = c"
| "mcp_step (M_stderr s) c = c\<lparr>mcp_debug := mcp_debug c @ [s]\<rparr>"
| "mcp_step (M_error e) c = settle_connect (Refused e) c"
| "mcp_step (M_close code) c = c"
| "mcp_step (M_timer i) c = mcp_timeout i c"
| "mcp_step M_disconnect c = mcp_disconnect c"

definition mcp_run :: "mcp_event list \<Rightarrow> mcp \<Rightarrow> mcp" where
  "mcp_run es c = foldl (\<lambda>c e. mcp_step e c) c es"

section \<open>The registry\<close>

text \<open>The tools that a client keeps from the answer to \<open>tools/list\<close>: later ones replace earlier ones of the same name.\<close>

definition tool_name :: "json \<Rightarrow> string" where
  "tool_name v = js_string (opt_get v ''name'')"

definition keep_tools :: "json list \<Rightarrow> (string, json) dict" where
  "keep_tools vs = foldl (\<lambda>m v. dset (tool_name v) v m) [] vs"

definition listTools :: "(string + json) \<Rightarrow> mcp \<Rightarrow> (string + json list) \<times> mcp" where
  "listTools response c = (case response of Inl e \<Rightarrow> (Inl e, c)
     | Inr v \<Rightarrow> (case js_get v ''tools'' of Inl e \<Rightarrow> (Inl e, c)
        | Inr (JArr vs) \<Rightarrow> (Inr vs, c\<lparr>mcp_tools := keep_tools vs\<rparr>)
        | Inr w \<Rightarrow> if truthy w then (Inl type_error, c\<lparr>mcp_tools := []\<rparr>) else (Inr [], c\<lparr>mcp_tools := []\<rparr>)))"

record mcp_registry =
  reg_clients :: "(string, mcp) dict"
  toolCache :: "(string, json list) dict"

text \<open>\<open>conn\<close> is what \<open>connect\<close> ends with, with the client then; \<open>answer\<close> the answer to \<open>tools/list\<close>.\<close>

definition mcp_register :: "string \<Rightarrow> (string + unit) \<times> mcp \<Rightarrow> (string + json) \<Rightarrow> mcp_registry \<Rightarrow> (string + unit) \<times> mcp_registry" where
  "mcp_register name conn answer r = (case conn of (Inl e, c) \<Rightarrow> (Inl e, r)
     | (Inr u, c) \<Rightarrow> (case listTools answer c of (Inl e, c1) \<Rightarrow> (Inl e, r)
        | (Inr ts, c1) \<Rightarrow> (Inr (), r\<lparr>reg_clients := dset name c1 (reg_clients r), toolCache := dset name ts (toolCache r)\<rparr>)))"

definition registry_callTool :: "string \<Rightarrow> (mcp \<Rightarrow> string + json) \<Rightarrow> mcp_registry \<Rightarrow> string + json" where
  "registry_callTool serverName call r = (case dget (reg_clients r) serverName of
     None \<Rightarrow> Inl (''MCP server '' @ serverName @ '' not registered'') | Some c \<Rightarrow> call c)"

fun findTool_in :: "string \<Rightarrow> (string, json list) dict \<Rightarrow> (string \<times> json) option" where
  "findTool_in n [] = None"
| "findTool_in n ((server, ts) # m) =
    (case List.find (\<lambda>t. opt_get t ''name'' = JStr n) ts of Some t \<Rightarrow> Some (server, t) | None \<Rightarrow> findTool_in n m)"

definition findTool :: "string \<Rightarrow> mcp_registry \<Rightarrow> (string \<times> json) option" where
  "findTool n r = findTool_in n (toolCache r)"

definition getServers :: "mcp_registry \<Rightarrow> string list" where
  "getServers r = dkeys (reg_clients r)"

definition disconnectAll :: "mcp_registry \<Rightarrow> mcp_registry" where
  "disconnectAll r = r\<lparr>reg_clients := [], toolCache := []\<rparr>"

section \<open>No answer arrives\<close>

definition only_refused :: "mcp \<Rightarrow> bool" where
  "only_refused c \<longleftrightarrow> (\<forall>(i, r) \<in> set (mcp_settled c). \<exists>e. r = Refused e) \<and> \<not> mcp_initialized c \<and>
     (\<forall>r. mcp_connect c = Some r \<longrightarrow> (\<exists>e. r = Refused e))"

lemma sendRequest_keeps: "mcp_sendRequest m p c = (i, c1) \<Longrightarrow> only_refused c \<Longrightarrow> only_refused c1"
  by (auto simp: mcp_sendRequest_def only_refused_def Let_def split: if_splits)

lemma connect_keeps: "only_refused c \<Longrightarrow> only_refused (mcp_connect_call c)"
proof -
  assume c: "only_refused c"
  obtain i c1 where s: "mcp_sendRequest ''initialize'' init_params (c\<lparr>mcp_process := True, mcp_connect := None\<rparr>) = (i, c1)" by fastforce
  have "only_refused (c\<lparr>mcp_process := True, mcp_connect := None\<rparr>)" using c by (simp add: only_refused_def)
  from sendRequest_keeps [OF s this] show ?thesis by (simp add: mcp_connect_call_def s only_refused_def)
qed

lemma step_keeps: "only_refused c \<Longrightarrow> only_refused (mcp_step e c)"
proof (cases e)
  case (M_request m p)
  assume "only_refused c"
  then show ?thesis using M_request sendRequest_keeps [OF surjective_pairing] by simp
next
  case M_connect
  assume "only_refused c"
  then show ?thesis using M_connect connect_keeps by simp
qed (auto simp: mcp_disconnect_def mcp_timeout_def initialize_settled_def settle_connect_def only_refused_def Let_def)

interpretation mcp_runs: invariant_machine "\<lambda>c. c = new_mcp" "\<lambda>c d. \<exists>e. d = mcp_step e c" only_refused
proof
  show "c = new_mcp \<Longrightarrow> only_refused c" for c by (simp add: new_mcp_def only_refused_def)
  show "\<exists>e. d = mcp_step e c \<Longrightarrow> only_refused c \<Longrightarrow> only_refused d" for c d by (auto intro: step_keeps)
qed

lemma run_steps: "rtranclp (\<lambda>c d. \<exists>e. d = mcp_step e c) c (mcp_run es c)"
  by (induction es rule: rev_induct) (auto simp: mcp_run_def intro: rtranclp.rtrancl_into_rtrancl)

text \<open>C15.
  No tool server can be used. Whatever the server writes and in whatever order things happen, no request of a
  client is ever answered: each that settles is refused, \<open>connect\<close> never resolves, and the client never counts as connected.\<close>

theorem mcp_never_answers:
  "list_all (\<lambda>(i, r). \<exists>e. r = Refused e) (mcp_settled (mcp_run es new_mcp)) \<and>
   (\<forall>v. mcp_connect (mcp_run es new_mcp) \<noteq> Some (Resolved v)) \<and> \<not> isConnected (mcp_run es new_mcp)"
  using mcp_runs.inv_reachable [OF refl run_steps, of es] by (force simp: only_refused_def isConnected_def list_all_iff)

text \<open>The rejections come from the timers: a request that is pending when its timer runs out is refused.\<close>

lemma mcp_timer_refuses: "i \<in> set (mcp_pending c) \<Longrightarrow> (i, Refused (''MCP request '' @ show_nat i @ '' timed out'')) \<in> set (mcp_settled (mcp_timeout i c))"
  by (auto simp: mcp_timeout_def initialize_settled_def settle_connect_def Let_def)

section \<open>The registry\<close>

lemma findTool_in_Some: "findTool_in n m = Some (s, t) \<Longrightarrow> \<exists>ts. (s, ts) \<in> set m \<and> t \<in> set ts \<and> opt_get t ''name'' = JStr n"
  by (induction m rule: findTool_in.induct) (auto split: option.splits dest!: find_SomeD)

lemma findTool_in_None: "findTool_in n m = None \<longleftrightarrow> (\<forall>(s, ts) \<in> set m. \<forall>t \<in> set ts. opt_get t ''name'' \<noteq> JStr n)"
  by (induction m rule: findTool_in.induct) (force simp: find_None_iff split: option.splits dest!: find_SomeD)+

text \<open>A name is looked up in the tools of the registered servers, in the order of registration.\<close>

lemma findTool_spec:
  "(findTool n r = Some (s, t) \<longrightarrow> (\<exists>ts. (s, ts) \<in> set (toolCache r) \<and> t \<in> set ts \<and> opt_get t ''name'' = JStr n)) \<and>
   (findTool n r = None \<longleftrightarrow> (\<forall>(s, ts) \<in> set (toolCache r). \<forall>t \<in> set ts. opt_get t ''name'' \<noteq> JStr n))"
  using findTool_in_Some findTool_in_None by (auto simp: findTool_def)

end
