(* ===== verification/Gemini_Oauth.thy ===== *)
theory Gemini_Oauth
  imports Credentials
begin

text \<open>
  \<open>src/lib/oauth/gemini.ts\<close>: credentials of the Gemini command line tool, the stored token, and the login with a
  callback server. Files are \<open>token_file\<close>s, as in the token store; the clock, the percent encoding (\<open>form\<close>),
  the network, the free ports and the requests that reach the callback server are parameters. A field of a type other than its declared one is outside the model.
\<close>

section \<open>Stored credentials\<close>

definition authorizationEndpoint :: string where "authorizationEndpoint = ''https://accounts.google.com/o/oauth2/v2/auth''"
definition tokenEndpoint :: string where "tokenEndpoint = ''https://oauth2.googleapis.com/token''"
definition gemini_scope :: string where "gemini_scope = ''https://www.googleapis.com/auth/generative-language-tuner''"
definition redirect_base :: string where "redirect_base = ''http://localhost:28564/callback''"

text \<open>The token whose fields are those of \<open>v\<close>, with the given time of expiry.\<close>

definition token_fields :: "json \<Rightarrow> json \<Rightarrow> OAuthToken option" where
  "token_fields v expiry =
    (case (as_string (opt_get v ''access_token''), as_opt_string (opt_get v ''refresh_token''),
       as_string (or_else (opt_get v ''token_type'') (JStr ''Bearer'')), as_int expiry, as_opt_string (opt_get v ''scope'')) of
     (Some a, Some r, Some ty, Some e, Some sc) \<Rightarrow>
       Some \<lparr>access_token = a, refresh_token = r, token_type = ty, expires_at = Some e, scope = sc\<rparr>
   | _ \<Rightarrow> None)"

definition typed :: "'a option \<Rightarrow> 'a option outcome_of" where
  "typed x = (case x of None \<Rightarrow> Outside | Some t \<Rightarrow> Returns (Some t))"

text \<open>The three patterns; \<open>Returns None\<close> when none fits.\<close>

definition cli_pattern :: "int \<Rightarrow> json \<Rightarrow> OAuthToken option outcome_of" where
  "cli_pattern now v = (let t = opt_get v ''token'' in
     if truthy (opt_get v ''access_token'') \<and> truthy (opt_get v ''expiry'') then typed (token_fields v (opt_get v ''expiry''))
     else if truthy t \<and> truthy (opt_get t ''access_token'') then
       typed (token_fields t (or_else (opt_get t ''expiry'') (JNum (show_int (calculateExpiresAt 3600 now)))))
     else if truthy (opt_get v ''access_token'') \<and> truthy (opt_get v ''expires_at'') then typed (token_fields v (opt_get v ''expires_at''))
     else Returns None)"

text \<open>\<open>toISOString\<close> throws on a time beyond the range of dates; the error is caught.\<close>

definition date_ok :: "OAuthToken \<Rightarrow> bool" where
  "date_ok t = (case expires_at t of None \<Rightarrow> False | Some e \<Rightarrow> \<bar>e\<bar> \<le> 8640000000000000)"

definition loadGeminiCliCredentials :: "int \<Rightarrow> token_file \<Rightarrow> OAuthToken option outcome_of" where
  "loadGeminiCliCredentials now f = (case f of No_file \<Rightarrow> Returns None | Bad_file \<Rightarrow> Returns None
     | Json_file v \<Rightarrow>
       if v = JNull then Returns None
       else (case cli_pattern now v of
           Returns (Some t) \<Rightarrow> Returns (if date_ok t \<and> \<not> isTokenExpired t 60 now then Some t else None)
         | r \<Rightarrow> r))"

definition getApoharaTokenPath :: "string option \<Rightarrow> string \<Rightarrow> string" where
  "getApoharaTokenPath xdg home = (case xdg of Some (c # cs) \<Rightarrow> (c # cs) @ ''/apohara/oauth-gemini.json''
     | _ \<Rightarrow> home @ ''/.apohara/oauth-gemini.json'')"

definition loadApoharaToken :: "token_file \<Rightarrow> OAuthToken option outcome_of" where
  "loadApoharaToken f = (case f of No_file \<Rightarrow> Returns None | Bad_file \<Rightarrow> Returns None
     | Json_file v \<Rightarrow>
       if v = JNull \<or> \<not> truthy (opt_get v ''access_token'') \<or> \<not> truthy (opt_get v ''expires_at'') then Returns None
       else typed (token_of v))"

text \<open>What the creation of the directory, the write and the change of mode reject with. A failed change of mode leaves the file.\<close>

record save_answers =
  sv_mkdir :: "string option"
  sv_write :: "string option"
  sv_chmod :: "string option"

definition saveApoharaToken :: "save_answers \<Rightarrow> OAuthToken \<Rightarrow> token_file \<Rightarrow> (string + unit) \<times> token_file" where
  "saveApoharaToken a t f = (case (sv_mkdir a, sv_write a) of
     (Some e, _) \<Rightarrow> (Inl e, f) | (None, Some e) \<Rightarrow> (Inl e, f)
   | (None, None) \<Rightarrow> (case sv_chmod a of None \<Rightarrow> Inr () | Some e \<Rightarrow> Inl e, Json_file (reparsed (token_json t))))"

definition clearApoharaToken :: "bool \<Rightarrow> token_file \<Rightarrow> token_file" where
  "clearApoharaToken unlinked f = (if unlinked then No_file else f)"

text \<open>One load after the other: the second file is read when the first gives nothing.\<close>

definition or_load :: "'a option outcome_of \<Rightarrow> 'a option outcome_of \<Rightarrow> 'a option outcome_of" where
  "or_load x y = (case x of Returns None \<Rightarrow> y | r \<Rightarrow> r)"

definition unexpired :: "int \<Rightarrow> OAuthToken option outcome_of \<Rightarrow> OAuthToken option outcome_of" where
  "unexpired now r = (case r of Returns (Some t) \<Rightarrow> Returns (if isTokenExpired t 60 now then None else Some t) | r \<Rightarrow> r)"

definition map_outcome :: "('a \<Rightarrow> 'b) \<Rightarrow> 'a outcome_of \<Rightarrow> 'b outcome_of" where
  "map_outcome f r = (case r of Throws e \<Rightarrow> Throws e | Returns x \<Rightarrow> Returns (f x) | Outside \<Rightarrow> Outside)"

definition hasValidGeminiCredentials_of :: "int \<Rightarrow> token_file \<Rightarrow> token_file \<Rightarrow> bool outcome_of" where
  "hasValidGeminiCredentials_of now cli own =
     (case unexpired now (loadGeminiCliCredentials now cli) of
        Returns (Some t) \<Rightarrow> Returns True
      | Returns None \<Rightarrow> (case unexpired now (loadApoharaToken own) of
            Returns (Some t) \<Rightarrow> Returns True | Returns None \<Rightarrow> Returns False | Throws e \<Rightarrow> Throws e | Outside \<Rightarrow> Outside)
      | Throws e \<Rightarrow> Throws e | Outside \<Rightarrow> Outside)"

definition getGeminiAccessToken_of :: "int \<Rightarrow> token_file \<Rightarrow> token_file \<Rightarrow> string option outcome_of" where
  "getGeminiAccessToken_of now cli own = map_outcome (map_option access_token)
     (or_load (unexpired now (loadGeminiCliCredentials now cli)) (unexpired now (loadApoharaToken own)))"

definition token_info :: "(int \<Rightarrow> string) \<Rightarrow> int \<Rightarrow> string \<Rightarrow> OAuthToken \<Rightarrow> json outcome_of" where
  "token_info date_text now source t = (case expires_at t of None \<Rightarrow> Throws ''RangeError''
     | Some e \<Rightarrow> if \<not> date_ok t then Throws ''RangeError''
       else Returns (JObj [(''provider'', JStr ''gemini''), (''source'', JStr source), (''present'', JBool True),
         (''token_type'', JStr (token_type t)), (''expires_at'', JStr (date_text e)), (''is_expired'', JBool (isTokenExpired t 60 now)),
         (''has_refresh_token'', JBool (has_refresh_token t))]))"

definition getGeminiTokenInfo_of :: "(int \<Rightarrow> string) \<Rightarrow> int \<Rightarrow> token_file \<Rightarrow> token_file \<Rightarrow> json outcome_of" where
  "getGeminiTokenInfo_of date_text now cli own = (case loadGeminiCliCredentials now cli of
     Throws e \<Rightarrow> Throws e | Outside \<Rightarrow> Outside
   | Returns (Some t) \<Rightarrow> token_info date_text now ''gemini-cli'' t
   | Returns None \<Rightarrow> (case loadApoharaToken own of
       Throws e \<Rightarrow> Throws e | Outside \<Rightarrow> Outside
     | Returns (Some t) \<Rightarrow> token_info date_text now ''apohara'' t
     | Returns None \<Rightarrow> Returns (JObj [(''provider'', JStr ''gemini''), (''present'', JBool False), (''source'', JNull)])))"

section \<open>The callback server\<close>

text \<open>
  The server and the promise of the code: \<open>None\<close> while it is pending, \<open>Some None\<close> when it is resolved with \<open>null\<close>.
  A request is its path with the query parameters \<open>code\<close> and \<open>error\<close>. The timer rejects a promise that has
  been resolved already, which does nothing.\<close>

record callback =
  cb_open :: bool
  cb_code :: "string option option"
  cb_replies :: "(nat \<times> string) list"

definition new_callback :: callback where
  "new_callback = \<lparr>cb_open = True, cb_code = None, cb_replies = []\<rparr>"

datatype cb_event = Cb_request string "string option" "string option" | Cb_timer | Cb_close

definition given :: "string option \<Rightarrow> bool" where
  "given x \<longleftrightarrow> x \<noteq> None \<and> x \<noteq> Some []"

definition resolveCode :: "string option \<Rightarrow> callback \<Rightarrow> callback" where
  "resolveCode v c = (if cb_code c = None then c\<lparr>cb_code := Some v\<rparr> else c)"

definition cb_reply :: "nat \<Rightarrow> string \<Rightarrow> callback \<Rightarrow> callback" where
  "cb_reply s t c = c\<lparr>cb_replies := cb_replies c @ [(s, t)]\<rparr>"

definition cb_stop :: "callback \<Rightarrow> callback" where
  "cb_stop c = c\<lparr>cb_open := False\<rparr>"

definition cb_handle :: "string \<Rightarrow> string option \<Rightarrow> string option \<Rightarrow> callback \<Rightarrow> callback" where
  "cb_handle path code err c =
    (if path = ''/callback'' \<or> path = [] then
       (if given err then cb_stop (resolveCode None (cb_reply 400
          (''<html><body><h1>Authentication Failed</h1><p>Error: '' @ the err @ ''</p></body></html>'') c))
        else if given code then cb_stop (resolveCode code (cb_reply 200
          ''<html><body><h1>Authentication Successful!</h1><p>You may close this window.</p></body></html>'' c))
        else cb_stop (cb_reply 400 ''<html><body><h1>Error</h1><p>No authorization code received.</p></body></html>'' c))
     else cb_reply 404 ''Not found'' c)"

fun cb_step :: "cb_event \<Rightarrow> callback \<Rightarrow> callback" where
  "cb_step (Cb_request path code err) c = (if cb_open c then cb_handle path code err c else c)"
| "cb_step Cb_timer c = cb_stop c"
| "cb_step Cb_close c = cb_stop c"

definition cb_run :: "cb_event list \<Rightarrow> callback \<Rightarrow> callback" where
  "cb_run es c = foldl (\<lambda>c e. cb_step e c) c es"

section \<open>The login\<close>

definition findAvailablePort :: "(nat \<Rightarrow> bool) \<Rightarrow> nat \<Rightarrow> nat \<Rightarrow> string + nat" where
  "findAvailablePort free first_port last_port = (case List.find free [first_port..<Suc last_port] of
     Some p \<Rightarrow> Inr p | None \<Rightarrow> Inl ''No available port found in range'')"

definition redirectUri :: "nat \<Rightarrow> string" where
  "redirectUri p = redirect_base @ '':'' @ show_nat p @ ''/callback''"

definition form_fields :: "(string \<Rightarrow> string) \<Rightarrow> (string \<times> string) list \<Rightarrow> string" where
  "form_fields form kvs = join ''&'' (map (\<lambda>kv. fst kv @ ''='' @ form (snd kv)) kvs)"

definition authUrl :: "(string \<Rightarrow> string) \<Rightarrow> string \<Rightarrow> nat \<Rightarrow> string \<Rightarrow> string" where
  "authUrl form clientId p challenge = authorizationEndpoint @ ''?'' @ form_fields form
     [(''client_id'', clientId), (''redirect_uri'', redirectUri p), (''response_type'', ''code''), (''scope'', gemini_scope),
      (''code_challenge'', challenge), (''code_challenge_method'', ''S256''), (''access_type'', ''offline''), (''prompt'', ''consent'')]"

definition openBrowser_command :: "string \<Rightarrow> string \<Rightarrow> string" where
  "openBrowser_command os_name u = (if os_name = ''darwin'' then ''open '' else if os_name = ''win32'' then ''start '' @ [dquote, dquote] @ '' '' else ''xdg-open '')
     @ [dquote] @ u @ [dquote]"

definition secret_field :: "string option \<Rightarrow> (string \<times> string) list" where
  "secret_field s = (case s of Some (c # cs) \<Rightarrow> [(''client_secret'', c # cs)] | _ \<Rightarrow> [])"

definition token_request :: "(string \<Rightarrow> string) \<Rightarrow> (string \<times> string) list \<Rightarrow> http_request" where
  "token_request form kvs = \<lparr>url = tokenEndpoint, headers = [(''Content-Type'', ''application/x-www-form-urlencoded'')],
     request_body = JStr (form_fields form kvs), timeout_ms = 0\<rparr>"

definition exchanged_token :: "int \<Rightarrow> json \<Rightarrow> OAuthToken outcome_of" where
  "exchanged_token now data =
    (if data = JNull then Throws type_error
     else case (as_string (opt_get data ''access_token''), as_opt_string (opt_get data ''refresh_token''),
          as_string (opt_get data ''token_type''), as_opt_string (opt_get data ''scope'')) of
       (Some a, Some r, Some ty, Some sc) \<Rightarrow> (let ei = opt_get data ''expires_in'' in
         if ei = JUndef then Returns \<lparr>access_token = a, refresh_token = r, token_type = ty, expires_at = None, scope = sc\<rparr>
         else case as_int ei of None \<Rightarrow> Outside
           | Some n \<Rightarrow> Returns \<lparr>access_token = a, refresh_token = r, token_type = ty, expires_at = Some (calculateExpiresAt n now), scope = sc\<rparr>)
     | _ \<Rightarrow> Outside)"

definition token_answer :: "string \<Rightarrow> (json \<Rightarrow> OAuthToken outcome_of) \<Rightarrow> string + http_reply \<Rightarrow> OAuthToken outcome_of" where
  "token_answer what read answer = (case answer of Inl e \<Rightarrow> Throws e
     | Inr rep \<Rightarrow>
       if \<not> reply_ok rep then Throws (what @ '' failed: '' @ show_nat (reply_status rep) @ '' '' @ reply_text rep)
       else (case reply_json rep of Inl e \<Rightarrow> Throws e | Inr data \<Rightarrow> read data))"

definition refreshGeminiToken :: "(http_request \<Rightarrow> string + http_reply) \<Rightarrow> (string \<Rightarrow> string) \<Rightarrow> int \<Rightarrow> string \<Rightarrow> string \<Rightarrow> string option \<Rightarrow>
    OAuthToken outcome_of" where
  "refreshGeminiToken endpoint form now refreshTok clientId clientSecret = token_answer ''Token refresh'' (refreshed_token now refreshTok)
     (endpoint (token_request form ([(''grant_type'', ''refresh_token''), (''refresh_token'', refreshTok), (''client_id'', clientId)] @ secret_field clientSecret)))"

text \<open>How a login ends: it may wait for ever for the code.\<close>

datatype login_end = Logged_in OAuthToken | Login_fails string | Login_waits | Login_outside

record login_world =
  lw_free :: "nat \<Rightarrow> bool"
  lw_verifier :: string
  lw_challenge :: "string \<Rightarrow> string"
  lw_browser :: "string \<Rightarrow> string + unit"
  lw_events :: "nat \<Rightarrow> string \<Rightarrow> cb_event list"
  lw_net :: "http_request \<Rightarrow> string + http_reply"
  lw_form :: "string \<Rightarrow> string"
  lw_now :: int

definition exchange_code :: "login_world \<Rightarrow> string \<Rightarrow> string option \<Rightarrow> nat \<Rightarrow> string \<Rightarrow> login_end" where
  "exchange_code W clientId clientSecret p code =
    (case token_answer ''Token exchange'' (exchanged_token (lw_now W)) (lw_net W (token_request (lw_form W)
        ([(''grant_type'', ''authorization_code''), (''code'', code), (''redirect_uri'', redirectUri p), (''client_id'', clientId),
          (''code_verifier'', lw_verifier W)] @ secret_field clientSecret))) of
       Returns t \<Rightarrow> Logged_in t | Throws e \<Rightarrow> Login_fails e | Outside \<Rightarrow> Login_outside)"

definition loginWithGoogleOAuth :: "login_world \<Rightarrow> string \<Rightarrow> string option \<Rightarrow> login_end" where
  "loginWithGoogleOAuth W clientId clientSecret =
    (case findAvailablePort (lw_free W) 28564 28599 of Inl e \<Rightarrow> Login_fails e
     | Inr p \<Rightarrow>
       let u = authUrl (lw_form W) clientId p (lw_challenge W (lw_verifier W)) in
       (case lw_browser W u of Inl e \<Rightarrow> Login_fails e
        | Inr _ \<Rightarrow> (case cb_code (cb_run (lw_events W p u) new_callback) of
            None \<Rightarrow> Login_waits
          | Some None \<Rightarrow> Login_fails ''No authorization code received''
          | Some (Some code) \<Rightarrow> exchange_code W clientId clientSecret p code)))"

section \<open>Credentials\<close>

lemma gemini_agree: "hasValidGeminiCredentials_of now cli own = map_outcome (\<lambda>t. t \<noteq> None) (getGeminiAccessToken_of now cli own)"
  by (auto simp: hasValidGeminiCredentials_of_def getGeminiAccessToken_of_def map_outcome_def or_load_def
      split: outcome_of.splits option.splits)

text \<open>The check and the token agree: valid credentials are reported exactly when an access token is returned, and a returned
  token is that of the command line tool's file when that one is unexpired, else the stored one.\<close>

theorem gemini_valid_iff_token:
  "hasValidGeminiCredentials_of now cli own = map_outcome (\<lambda>t. t \<noteq> None) (getGeminiAccessToken_of now cli own) \<and>
   (getGeminiAccessToken_of now cli own = Returns (Some a) \<longrightarrow>
     (\<exists>t. a = access_token t \<and> \<not> isTokenExpired t 60 now \<and>
        (loadGeminiCliCredentials now cli = Returns (Some t) \<or>
         loadGeminiCliCredentials now cli = Returns None \<and> loadApoharaToken own = Returns (Some t))))"
proof -
  have e: "loadGeminiCliCredentials now cli = Returns (Some t) \<Longrightarrow> \<not> isTokenExpired t 60 now" for t
    by (auto simp: loadGeminiCliCredentials_def split: token_file.splits outcome_of.splits option.splits if_splits)
  then show ?thesis
    by (auto simp: gemini_agree getGeminiAccessToken_of_def map_outcome_def or_load_def unexpired_def
      split: outcome_of.splits option.splits if_splits)
qed

text \<open>The token of a failed change of mode is on disk although the call rejects.\<close>

lemma saved_despite_error:
  assumes "sv_mkdir a = None" "sv_write a = None" "sv_chmod a = Some e"
  shows "saveApoharaToken a t f = (Inl e, Json_file (reparsed (token_json t)))"
  using assms by (simp add: saveApoharaToken_def)

section \<open>The login never ends\<close>

text \<open>The path of a URL \<open>http://host/path\<close>.\<close>

definition url_path :: "string \<Rightarrow> string" where
  "url_path u = dropWhile (\<lambda>c. c \<noteq> CHR ''/'') (drop 7 u)"

lemma redirect_path: "url_path (redirectUri p) = ''/callback:'' @ show_nat p @ ''/callback''"
  by (simp add: url_path_def redirectUri_def redirect_base_def)

lemma wrong_path_ignored:
  assumes "\<forall>path code err. Cb_request path code err \<in> set es \<longrightarrow> path \<noteq> ''/callback'' \<and> path \<noteq> []"
  shows "cb_code (cb_run es c) = cb_code c"
  using assms
proof (induction es rule: rev_induct)
  case (snoc e es)
  have "\<forall>path code err. Cb_request path code err \<in> set es \<longrightarrow> path \<noteq> ''/callback'' \<and> path \<noteq> []"
    using snoc.prems by (metis Un_iff set_append)
  with snoc.IH have "cb_code (cb_run es c) = cb_code c" by blast
  moreover have "cb_code (cb_step e d) = cb_code d" for d
    using snoc.prems by (cases e) (auto simp: cb_handle_def cb_reply_def cb_stop_def)
  ultimately show ?case by (simp add: cb_run_def)
qed (simp add: cb_run_def)

text \<open>C35.
  The login with Google cannot succeed. The redirect URI is put together from a base that already ends in
  the path of the callback, so the browser comes back on another path; when every request that reaches
  the callback server is on the path of that URI, no login ever ends in a token, and once the browser is open it waits for ever.\<close>

theorem login_never_returns:
  assumes "\<forall>p u path code err. Cb_request path code err \<in> set (lw_events W p u) \<longrightarrow> path = url_path (redirectUri p)"
  shows "(\<nexists>t. loginWithGoogleOAuth W clientId clientSecret = Logged_in t) \<and>
    (findAvailablePort (lw_free W) 28564 28599 = Inr p \<longrightarrow> (\<forall>u. lw_browser W u = Inr ()) \<longrightarrow>
       loginWithGoogleOAuth W clientId clientSecret = Login_waits)"
proof -
  have p: "url_path (redirectUri p) \<noteq> ''/callback''" "url_path (redirectUri p) \<noteq> []" for p
    by (simp_all add: redirect_path)
  have "cb_code (cb_run (lw_events W p u) new_callback) = None" for p u
  proof -
    have "cb_code (cb_run (lw_events W p u) new_callback) = cb_code new_callback"
      using assms p by (intro wrong_path_ignored) metis
    then show ?thesis by (simp add: new_callback_def)
  qed
  then show ?thesis
    by (auto simp: loginWithGoogleOAuth_def Let_def split: sum.splits)
qed

lemma login_never_returns_witness:
  "loginWithGoogleOAuth \<lparr>lw_free = (\<lambda>p. p = 28564), lw_verifier = ''v'', lw_challenge = id, lw_browser = (\<lambda>u. Inr ()),
     lw_events = (\<lambda>p u. [Cb_request (url_path (redirectUri p)) (Some ''code'') None, Cb_timer]), lw_net = (\<lambda>r. Inl ''x''), lw_form = id, lw_now = 0\<rparr>
     ''client'' None = Login_waits"
proof -
  let ?W = "\<lparr>lw_free = (\<lambda>p. p = 28564), lw_verifier = ''v'', lw_challenge = id, lw_browser = (\<lambda>u. Inr ()),
     lw_events = (\<lambda>p u. [Cb_request (url_path (redirectUri p)) (Some ''code'') None, Cb_timer]), lw_net = (\<lambda>r. Inl ''x''), lw_form = id, lw_now = 0\<rparr>"
  have "findAvailablePort (lw_free ?W) 28564 28599 = Inr 28564" by (simp add: findAvailablePort_def upt_rec)
  then show ?thesis using login_never_returns [of ?W "''client''" None 28564] by simp
qed

text \<open>A request on the right path without a code stops the server and leaves the login waiting: its timer rejects a promise that is settled already.\<close>

lemma codeless_request_hangs:
  "cb_code (cb_run (Cb_request ''/callback'' None None # es) new_callback) = None"
proof -
  have "\<not> cb_open c \<Longrightarrow> cb_code (cb_run es c) = cb_code c" for c
  proof (induction es arbitrary: c)
    case (Cons e es)
    have "\<not> cb_open (cb_step e c)" "cb_code (cb_step e c) = cb_code c"
      using Cons.prems by (cases e; simp add: cb_stop_def)+
    then show ?case using Cons.IH by (simp add: cb_run_def)
  qed (simp add: cb_run_def)
  then show ?thesis by (simp add: cb_run_def cb_handle_def given_def cb_stop_def cb_reply_def new_callback_def)
qed

text \<open>The module as the credentials see it, for files whose fields have their declared types.\<close>

definition caught :: "'a outcome_of \<Rightarrow> 'a \<Rightarrow> string + 'a" where
  "caught r d = (case r of Returns x \<Rightarrow> Inr x | Throws e \<Rightarrow> Inl e | Outside \<Rightarrow> Inr d)"

definition gemini_of :: "(int \<Rightarrow> string) \<Rightarrow> int \<Rightarrow> token_file \<Rightarrow> token_file \<Rightarrow> gemini_module" where
  "gemini_of date_text now cli own = \<lparr>getGeminiAccessToken = caught (getGeminiAccessToken_of now cli own) None,
     hasValidGeminiCredentials = caught (hasValidGeminiCredentials_of now cli own) False,
     getGeminiTokenInfo = caught (getGeminiTokenInfo_of date_text now cli own) JUndef\<rparr>"

text \<open>For the Gemini provider the two questions of the credentials agree: there is a token exactly when one is resolved.\<close>

lemma gemini_has_iff_resolves:
  "fst (hasOAuthToken fs (gemini_of d now cli own) now ''gemini-ai'' st) \<longleftrightarrow>
   (\<exists>t. resolveOAuthToken fs (gemini_of d now cli own) h now ''gemini-ai'' st = Some (Some t, st))"
  using gemini_agree [of now cli own]
  by (auto simp: hasOAuthToken_def resolveOAuthToken_def OAUTH_PROVIDERS_def gemini_of_def caught_def map_outcome_def
      split: outcome_of.splits)

end
