(* ===== verification/File_Tail.thy ===== *)
theory File_Tail
  imports Ledger
begin

text \<open>
  What the two readers of a growing ledger share, the desktop server and the watcher of the terminal
  dashboard: the complete lines of a file and how they grow.
\<close>

section \<open>Complete lines\<close>

text \<open>The text before the last line break.\<close>

definition before_last_nl :: "string \<Rightarrow> string option" where
  "before_last_nl s = (let r = dropWhile (\<lambda>c. c \<noteq> newline) (rev s) in if r = [] then None else Some (rev (tl r)))"

text \<open>The lines of a file that are complete, blank ones left out, and how many bytes they take.\<close>

definition whole_lines :: "string \<Rightarrow> string list" where
  "whole_lines c = filter (\<lambda>l. trim l \<noteq> []) (butlast (split_lines c))"

definition whole_length :: "string \<Rightarrow> nat" where
  "whole_length c = (case before_last_nl c of None \<Rightarrow> 0 | Some t \<Rightarrow> length t + 1)"

lemma split_no_break: "newline \<notin> set u \<Longrightarrow> split_lines u = [u]"
  by (induction u) auto

lemma last_break_unique: "newline \<notin> set u \<Longrightarrow> before_last_nl (t @ newline # u) = Some t"
  by (simp add: before_last_nl_def dropWhile_append3 dropWhile_eq_Nil_conv [THEN iffD2] dropWhile_append)

lemma no_break: "newline \<notin> set u \<Longrightarrow> before_last_nl u = None"
  by (auto simp: before_last_nl_def Let_def dropWhile_eq_Nil_conv)

lemma file_parts: "newline \<notin> set c \<or> (\<exists>t u. c = t @ newline # u \<and> newline \<notin> set u)"
  using split_list_last [of newline c] by blast

lemma split_two: "split_lines (t @ newline # d) = split_lines t @ split_lines d"
  by (rule split_lines_break)

lemma butlast_break: "butlast (split_lines (t @ newline # d)) = split_lines t @ butlast (split_lines d)"
  by (simp add: split_two butlast_append split_lines_ne)

lemma whole_break:
  "whole_lines (t @ newline # d) = filter (\<lambda>l. trim l \<noteq> []) (split_lines t) @ whole_lines d"
  "whole_length (t @ newline # d) = length t + 1 + whole_length d"
proof -
  show "whole_lines (t @ newline # d) = filter (\<lambda>l. trim l \<noteq> []) (split_lines t) @ whole_lines d"
    by (simp add: whole_lines_def butlast_break)
  show "whole_length (t @ newline # d) = length t + 1 + whole_length d"
  proof (cases "newline \<in> set d")
    case True
    then obtain t' u where d: "d = t' @ newline # u" "newline \<notin> set u" using file_parts [of d] by blast
    then have "before_last_nl ((t @ newline # t') @ newline # u) = Some (t @ newline # t')" "before_last_nl d = Some t'"
      using last_break_unique by blast+
    then show ?thesis by (simp add: whole_length_def d(1))
  next
    case False
    then show ?thesis using last_break_unique [OF False, of t] no_break [OF False] by (simp add: whole_length_def)
  qed
qed

lemma whole_none: "newline \<notin> set u \<Longrightarrow> whole_lines u = [] \<and> whole_length u = 0"
  by (simp add: whole_lines_def whole_length_def split_no_break no_break)

text \<open>The lines that \<open>readline\<close> gives: the last one also when no line break ends it. (The files hold no carriage returns.)\<close>

definition readline_lines :: "string \<Rightarrow> string list" where
  "readline_lines s = (let ls = split_lines s in if last ls = [] then butlast ls else ls)"

lemma readline_whole: "readline_lines (t @ [newline]) = split_lines t"
  by (simp add: readline_lines_def split_two butlast_append)

lemma readline_append:
  assumes "c = [] \<or> last c = newline"
  shows "readline_lines (c @ d) = readline_lines c @ readline_lines d"
proof (cases c rule: rev_cases)
  case Nil
  then show ?thesis by (simp add: readline_lines_def)
next
  case (snoc t x)
  then have c: "c = t @ [newline]" using assms by simp
  have "last (split_lines t @ split_lines d) = last (split_lines d)" using split_lines_ne [of d] by simp
  then show ?thesis unfolding c readline_whole
    using split_two [of t d] split_lines_ne [of d] by (auto simp: readline_lines_def Let_def butlast_append)
qed

lemma readline_piece: "newline \<notin> set t \<Longrightarrow> t \<noteq> [] \<Longrightarrow> readline_lines t = [t]" "newline \<notin> set t \<Longrightarrow> readline_lines (t @ [newline]) = [t]"
  by (simp_all add: readline_whole) (simp_all add: readline_lines_def split_no_break)

end
