(* ===== verification/Desktop_Server.thy ===== *)
theory Desktop_Server
  imports "HOL-Library.Sublist" Js_Value File_Tail
begin

text \<open>
  \<open>packages/desktop/src/server.ts\<close>: the routes of the desktop backend. A request is its headers and what
  \<open>req.json()\<close> gives; the router's \<open>completion\<close>, the clock and the file system are parameters. An event stream is
  a state with the callbacks of the file watcher that are running; files hold one byte per character.
\<close>

section \<open>Preferences\<close>

record desktop =
  routingMode :: string
  providerRoster :: "string list"

record web_request =
  rq_header :: "string \<Rightarrow> string option"
  rq_json :: "string + json"

datatype web_answer = Plain string nat | Json_answer json nat

text \<open>\<open>[...new Set(xs)]\<close>\<close>

definition js_set :: "string list \<Rightarrow> string list" where
  "js_set xs = rev (remdups (rev xs))"

definition gpu_order :: "string list" where
  "gpu_order = [''carnice-9b-local'', ''claude-code-cli'', ''opencode-go'', ''openai'']"

definition cloud_order :: "string list" where
  "cloud_order = [''claude-code-cli'', ''codex-cli'', ''gemini-cli'', ''opencode-go'', ''openai'', ''anthropic-api'']"

definition pickEnhanceProvider :: "string option \<Rightarrow> string option \<Rightarrow> string list \<Rightarrow> desktop \<Rightarrow> string" where
  "pickEnhanceProvider explicit modeOverride roster d =
    (case explicit of Some (c # cs) \<Rightarrow> c # cs
     | _ \<Rightarrow>
       let mode = (case modeOverride of None \<Rightarrow> routingMode d | Some m \<Rightarrow> m) in
       (case List.find (\<lambda>p. roster = [] \<or> p \<in> set roster) (if mode = ''gpu'' then gpu_order else cloud_order) of
          Some p \<Rightarrow> p
        | None \<Rightarrow> (case roster of [] \<Rightarrow> ''opencode-go'' | p # ps \<Rightarrow> p)))"

definition is_mode :: "json \<Rightarrow> bool" where
  "is_mode v \<longleftrightarrow> v = JStr ''gpu'' \<or> v = JStr ''cloud''"

definition str_of :: "json \<Rightarrow> string" where
  "str_of v = (case v of JStr s \<Rightarrow> s | _ \<Rightarrow> [])"

definition readMode :: "web_request \<Rightarrow> json \<Rightarrow> desktop \<Rightarrow> string" where
  "readMode req body d =
    (case rq_header req ''x-apohara-mode'' of
       Some h \<Rightarrow> if is_mode (JStr h) then h else if is_mode (opt_get body ''mode'') then str_of (opt_get body ''mode'') else routingMode d
     | None \<Rightarrow> if is_mode (opt_get body ''mode'') then str_of (opt_get body ''mode'') else routingMode d)"

text \<open>\<open>s.split(",")\<close>\<close>

fun split_commas :: "string \<Rightarrow> string list" where
  "split_commas [] = [[]]"
| "split_commas (c # cs) = (if c = CHR '','' then [] # split_commas cs
     else (case split_commas cs of [] \<Rightarrow> [[c]] | l # ls \<Rightarrow> (c # l) # ls))"

definition only_strings :: "json list \<Rightarrow> string list" where
  "only_strings vs = List.map_filter (\<lambda>v. case v of JStr s \<Rightarrow> Some s | _ \<Rightarrow> None) vs"

definition readRoster :: "web_request \<Rightarrow> json \<Rightarrow> desktop \<Rightarrow> string list" where
  "readRoster req body d =
    (let from_body = (case opt_get body ''roster'' of JArr vs \<Rightarrow> js_set (only_strings vs) | _ \<Rightarrow> providerRoster d) in
     case rq_header req ''x-apohara-roster'' of
       None \<Rightarrow> from_body
     | Some h \<Rightarrow> if trim h \<noteq> [] then js_set (filter (\<lambda>s. s \<noteq> []) (map trim (split_commas h))) else from_body)"

section \<open>The routes\<close>

definition text_array :: "string list \<Rightarrow> json" where
  "text_array xs = JArr (map JStr xs)"

text \<open>\<open>(body.prompt ?? "").trim()\<close>; a value that is no string has no \<open>trim\<close>.\<close>

definition prompt_of :: "json \<Rightarrow> string + string" where
  "prompt_of body = (case js_get body ''prompt'' of Inl e \<Rightarrow> Inl e
     | Inr JUndef \<Rightarrow> Inr [] | Inr JNull \<Rightarrow> Inr [] | Inr (JStr s) \<Rightarrow> Inr (trim s) | Inr _ \<Rightarrow> Inl type_error)"

text \<open>What the handlers of \<open>enhance\<close> and \<open>run\<close> read inside their \<open>try\<close>: prompt, mode, roster.\<close>

definition read_request :: "web_request \<Rightarrow> desktop \<Rightarrow> string + string \<times> string \<times> string list" where
  "read_request req d = (case rq_json req of Inl e \<Rightarrow> Inl e
     | Inr body \<Rightarrow> (case prompt_of body of Inl e \<Rightarrow> Inl e
         | Inr prompt \<Rightarrow> Inr (prompt, readMode req body d, readRoster req body d)))"

definition enhance_prompt :: string where
  "enhance_prompt = ''You are a prompt-rewriting assistant for an autonomous coding agent. '' @
     ''Rewrite the user's request to be unambiguous, specific, and testable. '' @
     ''Keep it under 200 words. Output ONLY the rewritten prompt, no preamble.''"

text \<open>\<open>ask\<close> is \<open>completion\<close>: from the provider and the messages to content, provider, model and usage.\<close>

definition enhance ::
  "(string \<Rightarrow> (string \<times> string) list \<Rightarrow> string + json \<times> json \<times> json \<times> json) \<Rightarrow> string option \<Rightarrow> web_request \<Rightarrow> desktop \<Rightarrow> web_answer" where
  "enhance ask explicit req d =
    (case read_request req d of Inl e \<Rightarrow> Plain ''invalid JSON body'' 400
     | Inr (prompt, mode, roster) \<Rightarrow>
       if prompt = [] then Plain ''prompt is required'' 400
       else (case ask (pickEnhanceProvider explicit (Some mode) roster d) [(''system'', enhance_prompt), (''user'', prompt)] of
           Inr (written, provider, model, usage) \<Rightarrow> Json_answer (JObj [(''enhanced'', written), (''provider'', provider), (''model'', model),
             (''usage'', usage), (''mode'', JStr mode), (''roster'', text_array roster)]) 200
         | Inl e \<Rightarrow> Json_answer (JObj [(''enhanced'', JStr prompt), (''error'', JStr e), (''fallback'', JBool True)]) 502))"

text \<open>The routes of the two preferences; a body \<open>null\<close> makes the property access throw outside every \<open>try\<close>.\<close>

definition post_mode :: "web_request \<Rightarrow> desktop \<Rightarrow> (string + web_answer) \<times> desktop" where
  "post_mode req d = (case rq_json req of Inl e \<Rightarrow> (Inr (Plain ''invalid JSON body'' 400), d)
     | Inr body \<Rightarrow> (case js_get body ''mode'' of Inl e \<Rightarrow> (Inl e, d)
         | Inr v \<Rightarrow> if \<not> is_mode v then (Inr (Plain (''mode must be 'gpu' or 'cloud'' @ [CHR 0x27]) 400), d)
             else (Inr (Json_answer (JObj [(''mode'', v)]) 200), d\<lparr>routingMode := str_of v\<rparr>)))"

definition get_mode :: "desktop \<Rightarrow> web_answer" where
  "get_mode d = Json_answer (JObj [(''mode'', JStr (routingMode d))]) 200"

definition post_roster :: "web_request \<Rightarrow> desktop \<Rightarrow> (string + web_answer) \<times> desktop" where
  "post_roster req d = (case rq_json req of Inl e \<Rightarrow> (Inr (Plain ''invalid JSON body'' 400), d)
     | Inr body \<Rightarrow> (case js_get body ''providers'' of Inl e \<Rightarrow> (Inl e, d)
         | Inr (JArr vs) \<Rightarrow> let r = js_set (only_strings vs) in
             (Inr (Json_answer (JObj [(''providers'', text_array r)]) 200), d\<lparr>providerRoster := r\<rparr>)
         | Inr _ \<Rightarrow> (Inr (Plain ''providers must be an array of strings'' 400), d)))"

definition get_roster :: "desktop \<Rightarrow> web_answer" where
  "get_roster d = Json_answer (JObj [(''providers'', text_array (providerRoster d))]) 200"

definition get_health :: "nat \<Rightarrow> string \<Rightarrow> desktop \<Rightarrow> web_answer" where
  "get_health port eventsDir d = Json_answer (JObj [(''ok'', JBool True), (''port'', JNum (show_nat port)),
     (''mode'', JStr (routingMode d)), (''eventsDir'', JStr eventsDir)]) 200"

text \<open>The identifiers and times that a call of \<open>run\<close> meets, and the errors of \<open>mkdir\<close> and \<open>writeFile\<close>.\<close>

record run_world =
  rw_session :: string
  rw_uuid :: string
  rw_time :: string
  rw_mkdir :: "string option"
  rw_write :: "string option"

definition session_event :: "run_world \<Rightarrow> string \<Rightarrow> string \<Rightarrow> string list \<Rightarrow> json" where
  "session_event W prompt mode roster = JObj [(''id'', JStr (rw_uuid W)), (''timestamp'', JStr (rw_time W)),
     (''type'', JStr ''session_started''), (''severity'', JStr ''info''),
     (''payload'', JObj [(''prompt'', JStr prompt), (''source'', JStr ''desktop''), (''mode'', JStr mode), (''roster'', text_array roster)])]"

definition session_path :: "string \<Rightarrow> string \<Rightarrow> string" where
  "session_path eventsDir sid = eventsDir @ ''/run-'' @ sid @ ''.jsonl''"

text \<open>The result with the file that was written.\<close>

definition post_run :: "run_world \<Rightarrow> string \<Rightarrow> web_request \<Rightarrow> desktop \<Rightarrow> (string + web_answer) \<times> (string \<times> string) option" where
  "post_run W eventsDir req d =
    (case read_request req d of Inl e \<Rightarrow> (Inr (Plain ''invalid JSON body'' 400), None)
     | Inr (prompt, mode, roster) \<Rightarrow>
       let ledgerPath = session_path eventsDir (rw_session W) in
       (case rw_mkdir W of Some e \<Rightarrow> (Inl e, None)
        | None \<Rightarrow> (case rw_write W of Some e \<Rightarrow> (Inl e, None)
          | None \<Rightarrow> (Inr (Json_answer (JObj [(''sessionId'', JStr (rw_session W)), (''ledger'', JStr ledgerPath), (''mode'', JStr mode),
                (''roster'', text_array roster)]) 200),
              Some (ledgerPath, stringify (session_event W prompt mode roster) @ [newline])))))"

section \<open>The event stream\<close>

text \<open>What a buffer of \<open>n\<close> bytes holds after a read at \<open>k\<close>.\<close>

definition read_buffer :: "string \<Rightarrow> nat \<Rightarrow> nat \<Rightarrow> string" where
  "read_buffer f k n = (let b = take n (drop k f) in b @ replicate (n - length b) (CHR 0x00))"

text \<open>The size that \<open>stat\<close> gives, \<open>None\<close> when it fails; the file when it is opened, \<open>None\<close> when that fails.\<close>

definition readDelta :: "nat option \<Rightarrow> text_file \<Rightarrow> nat \<Rightarrow> string + string list \<times> nat" where
  "readDelta st f offset = (case st of None \<Rightarrow> Inr ([], offset)
     | Some n \<Rightarrow>
       if n \<le> offset then Inr ([], offset)
       else (case f of None \<Rightarrow> Inl ''ENOENT''
         | Some c \<Rightarrow> (case before_last_nl (read_buffer c offset (n - offset)) of
             None \<Rightarrow> Inr ([], offset)
           | Some whole \<Rightarrow> Inr (filter (\<lambda>l. trim l \<noteq> []) (split_lines whole), offset + (length whole + 1)))))"

record sse =
  ss_offset :: nat
  ss_closed :: bool
  ss_broken :: bool
  ss_watching :: bool
  ss_reads :: "(nat, nat) dict"
  ss_sent :: "string list"

definition data_frame :: "string \<Rightarrow> string" where
  "data_frame l = ''data: '' @ l @ [newline, newline]"

definition heartbeat_frame :: "string \<Rightarrow> string" where
  "heartbeat_frame t = '': heartbeat '' @ t @ [newline, newline]"

text \<open>\<open>enqueue\<close> throws once the stream is broken; the first failure closes the session.\<close>

definition sse_send :: "string \<Rightarrow> sse \<Rightarrow> sse" where
  "sse_send x s = (if ss_closed s then s else if ss_broken s then s\<lparr>ss_closed := True\<rparr> else s\<lparr>ss_sent := ss_sent s @ [x]\<rparr>)"

definition sse_lines :: "string list \<Rightarrow> sse \<Rightarrow> sse" where
  "sse_lines ls s = foldl (\<lambda>s l. sse_send (data_frame l) s) s ls"

definition sse_start :: "nat option \<Rightarrow> text_file \<Rightarrow> string + sse" where
  "sse_start st f = (case readDelta st f 0 of Inl e \<Rightarrow> Inl e
     | Inr (ls, k) \<Rightarrow> Inr ((sse_lines ls \<lparr>ss_offset = 0, ss_closed = False, ss_broken = False, ss_watching = True, ss_reads = [], ss_sent = []\<rparr>)
         \<lparr>ss_offset := k\<rparr>))"

text \<open>
  A call of the watcher takes the offset of the moment; its \<open>stat\<close> and its read come later, when other calls may
  have been made. When its read fails it sets the offset to what it is at that time.\<close>

datatype sse_event = Sse_watch nat | Sse_read nat "nat option" text_file | Sse_heartbeat string | Sse_breaks | Sse_abort

fun sse_step :: "sse_event \<Rightarrow> sse \<Rightarrow> sse" where
  "sse_step (Sse_watch i) s = (if ss_watching s then s\<lparr>ss_reads := dset i (ss_offset s) (ss_reads s)\<rparr> else s)"
| "sse_step (Sse_read i st f) s = (case dget (ss_reads s) i of None \<Rightarrow> s
     | Some k \<Rightarrow>
       let s1 = s\<lparr>ss_reads := ddelete i (ss_reads s)\<rparr> in
       (case readDelta st f k of Inl e \<Rightarrow> s1 | Inr (ls, k') \<Rightarrow> (sse_lines ls s1)\<lparr>ss_offset := k'\<rparr>))"
| "sse_step (Sse_heartbeat t) s = sse_send (heartbeat_frame t) s"
| "sse_step Sse_breaks s = s\<lparr>ss_broken := True\<rparr>"
| "sse_step Sse_abort s = s\<lparr>ss_closed := True, ss_watching := False\<rparr>"

definition sse_run :: "sse_event list \<Rightarrow> sse \<Rightarrow> sse" where
  "sse_run es s = foldl (\<lambda>s e. sse_step e s) s es"

section \<open>Reading on from where the lines ended\<close>

lemma read_all: "read_buffer (p @ d) (length p) (length d) = d"
  by (simp add: read_buffer_def)

lemma readDelta_tail:
  "readDelta (Some (length (p @ d))) (Some (p @ d)) (length p) = Inr (whole_lines d, length p + whole_length d)"
proof (cases "newline \<in> set d")
  case True
  then obtain t u where d: "d = t @ newline # u" "newline \<notin> set u" using file_parts [of d] by blast
  have "before_last_nl d = Some t" using last_break_unique [OF d(2)] d(1) by simp
  moreover have "whole_lines d = filter (\<lambda>l. trim l \<noteq> []) (split_lines t)" "whole_length d = length t + 1"
    using d whole_none [OF d(2)] by (simp_all add: whole_break)
  moreover have "d \<noteq> []" using d by simp
  ultimately show ?thesis using read_all [of p d] by (simp add: readDelta_def)
next
  case False
  then show ?thesis using whole_none [OF False] no_break [OF False] read_all [of p d] by (simp add: readDelta_def)
qed

text \<open>Read again from where the complete lines of an earlier content end.\<close>

lemma readDelta_grown:
  assumes "prefix c c'"
  shows "\<exists>ls. readDelta (Some (length c')) (Some c') (whole_length c) = Inr (ls, whole_length c') \<and> whole_lines c' = whole_lines c @ ls"
proof (cases "newline \<in> set c")
  case True
  then obtain t u where c: "c = t @ newline # u" "newline \<notin> set u" using file_parts [of c] by blast
  from assms c obtain x where c': "c' = (t @ [newline]) @ (u @ x)" by (auto simp: prefix_def)
  have k: "whole_length c = length (t @ [newline])" using c whole_none [OF c(2)] by (simp add: whole_break)
  have "whole_lines c' = whole_lines c @ whole_lines (u @ x)" "whole_length c' = length (t @ [newline]) + whole_length (u @ x)"
    using c c' whole_none [OF c(2)] by (simp_all add: whole_break)
  then show ?thesis using readDelta_tail [of "t @ [newline]" "u @ x"] k c' by simp
next
  case False
  then show ?thesis using readDelta_tail [of "[]" c'] whole_none [OF False] by simp
qed

section \<open>What a client sees\<close>

lemma sse_lines_open:
  "\<not> ss_closed s \<Longrightarrow> \<not> ss_broken s \<Longrightarrow> sse_lines ls s = s\<lparr>ss_sent := ss_sent s @ map data_frame ls\<rparr>"
  by (induction ls rule: rev_induct) (simp_all add: sse_lines_def sse_send_def)

text \<open>A session that has sent the complete lines of the content \<open>c\<close>, each once.\<close>

definition is_data :: "string \<Rightarrow> bool" where
  "is_data f \<longleftrightarrow> starts_with f ''data: ''"

definition caught_up :: "string \<Rightarrow> sse \<Rightarrow> bool" where
  "caught_up c s \<longleftrightarrow> \<not> ss_closed s \<and> \<not> ss_broken s \<and> ss_watching s \<and> ss_reads s = [] \<and> ss_offset s = whole_length c \<and>
     filter is_data (ss_sent s) = map data_frame (whole_lines c)"

text \<open>The file is changed and the call of the watcher that reports it has ended, or the heart beats.\<close>

datatype serial_event = Grown nat string | Beat string

fun serial :: "serial_event \<Rightarrow> sse_event list" where
  "serial (Grown i c) = [Sse_watch i, Sse_read i (Some (length c)) (Some c)]"
| "serial (Beat t) = [Sse_heartbeat t]"

fun contents :: "serial_event list \<Rightarrow> string list" where
  "contents [] = []"
| "contents (Grown i c # es) = c # contents es"
| "contents (Beat t # es) = contents es"

lemma frames_data [simp]: "filter is_data (map data_frame ls) = map data_frame ls" "\<not> is_data (heartbeat_frame t)"
proof -
  show "filter is_data (map data_frame ls) = map data_frame ls"
    by (rule filter_True) (auto simp: is_data_def data_frame_def starts_with_def)
  show "\<not> is_data (heartbeat_frame t)" by (simp add: is_data_def heartbeat_frame_def starts_with_def)
qed

lemma start_caught_up: "sse_start (Some (length c)) (Some c) = Inr s \<Longrightarrow> caught_up c s"
  using readDelta_tail [of "[]" c] by (auto simp: sse_start_def sse_lines_open caught_up_def)

lemma grown_caught_up:
  assumes "caught_up c s" "prefix c c'"
  shows "caught_up c' (sse_run (serial (Grown i c')) s)"
  using readDelta_grown [OF assms(2)] assms(1) by (auto simp: sse_run_def caught_up_def sse_lines_open dict_simps Let_def)

lemma beat_caught_up: "caught_up c s \<Longrightarrow> caught_up c (sse_run (serial (Beat t)) s)"
  by (auto simp: sse_run_def caught_up_def sse_send_def)

lemma serial_caught_up:
  "caught_up c s \<Longrightarrow> successively prefix (c # contents es) \<Longrightarrow> caught_up (last (c # contents es)) (sse_run (concat (map serial es)) s)"
proof (induction es arbitrary: c s)
  case (Cons e es)
  have run: "sse_run (concat (map serial (e # es))) s = sse_run (concat (map serial es)) (sse_run (serial e) s)"
    by (simp add: sse_run_def)
  show ?case
  proof (cases e)
    case (Grown i c')
    then have p: "prefix c c'" "successively prefix (c' # contents es)" "last (c # contents (e # es)) = last (c' # contents es)"
      using Cons.prems(2) by simp_all
    show ?thesis unfolding run p(3) unfolding Grown by (rule Cons.IH [OF grown_caught_up [OF Cons.prems(1) p(1)] p(2)])
  next
    case (Beat t)
    then have p: "successively prefix (c # contents es)" "contents (e # es) = contents es" using Cons.prems(2) by simp_all
    show ?thesis unfolding run p(2) unfolding Beat by (rule Cons.IH [OF beat_caught_up [OF Cons.prems(1)] p(1)])
  qed
qed (simp add: sse_run_def)

text \<open>C11.
  The event stream refines the file. Whatever lines are appended in whatever pieces, as long as each call of the watcher ends
  before the next begins, the data that a client has received are the complete lines of the file as it is last read, each once and in order,
  with the heartbeats in between.\<close>

theorem sse_tails_file:
  assumes "sse_start (Some (length c)) (Some c) = Inr s" "successively prefix (c # contents es)"
  shows "filter is_data (ss_sent (sse_run (concat (map serial es)) s)) = map data_frame (whole_lines (last (c # contents es)))"
  using serial_caught_up [OF start_caught_up [OF assms(1)] assms(2)] by (simp add: caught_up_def)

lemma sse_tails_file_witness:
  "\<exists>s. sse_start (Some 3) (Some [CHR ''a'', newline, CHR ''b'']) = Inr s \<and>
     filter is_data (ss_sent (sse_run (concat (map serial [Beat ''1'', Grown 1 [CHR ''a'', newline, CHR ''b'', CHR ''c'', newline]])) s)) =
     [data_frame ''a'', data_frame ''bc'']"
proof -
  obtain s where s: "sse_start (Some (length [CHR ''a'', newline, CHR ''b''])) (Some [CHR ''a'', newline, CHR ''b'']) = Inr s"
    using readDelta_tail [of "[]" "[CHR ''a'', newline, CHR ''b'']"] by (simp add: sse_start_def)
  have "whole_lines [CHR ''a'', newline, CHR ''b'', CHR ''c'', newline] = [''a'', ''bc'']" by code_simp
  then show ?thesis
    using s sse_tails_file [OF s, of "[Beat ''1'', Grown 1 [CHR ''a'', newline, CHR ''b'', CHR ''c'', newline]]"] by (simp add: numeral_eq_Suc)
qed

text \<open>Two calls of the watcher that overlap send the same lines twice: both take the offset before either has
  moved it. After a change the client has the old lines once and every new line twice.\<close>

theorem sse_overlap_duplicates:
  assumes "sse_start (Some (length c)) (Some c) = Inr s" "prefix c c'" "i \<noteq> j"
  shows "\<exists>new. whole_lines c' = whole_lines c @ new \<and>
    filter is_data (ss_sent (sse_run [Sse_watch i, Sse_watch j, Sse_read i (Some (length c')) (Some c'), Sse_read j (Some (length c')) (Some c')] s)) =
    map data_frame (whole_lines c @ new @ new)"
  using readDelta_grown [OF assms(2)] start_caught_up [OF assms(1)] assms(3)
  by (auto simp: sse_run_def caught_up_def sse_lines_open Let_def dict_simps)

lemma sse_overlap_duplicates_witness:
  "\<exists>s. sse_start (Some 0) (Some []) = Inr s \<and>
     filter is_data (ss_sent (sse_run [Sse_watch 1, Sse_watch 2, Sse_read 1 (Some 2) (Some [CHR ''a'', newline]), Sse_read 2 (Some 2) (Some [CHR ''a'', newline])] s)) =
     [data_frame ''a'', data_frame ''a'']"
proof -
  obtain s where s: "sse_start (Some (length ([] :: string))) (Some []) = Inr s"
    using readDelta_tail [of "[]" "[]"] by (simp add: sse_start_def)
  have "whole_lines [CHR ''a'', newline] = [''a'']" "whole_lines [] = []" by code_simp+
  then show ?thesis using s sse_overlap_duplicates [OF s, of "[CHR ''a'', newline]" 1 2] by (simp add: numeral_eq_Suc)
qed

section \<open>The roster\<close>

text \<open>A roster that is not empty is respected, unless the environment names a provider.\<close>

lemma enhance_in_roster:
  assumes "explicit = None \<or> explicit = Some []" "roster \<noteq> []"
  shows "pickEnhanceProvider explicit m roster d \<in> set roster"
proof -
  have f: "List.find (\<lambda>p. roster = [] \<or> p \<in> set roster) xs = Some p \<Longrightarrow> p \<in> set roster" for xs p
    using assms(2) by (auto simp: find_Some_iff)
  obtain q qs where r: "roster = q # qs" using assms(2) by (cases roster) auto
  have "(case List.find (\<lambda>p. roster = [] \<or> p \<in> set roster) xs of Some p \<Rightarrow> p
      | None \<Rightarrow> (case roster of [] \<Rightarrow> ''opencode-go'' | p # ps \<Rightarrow> p)) \<in> set roster" for xs
    using f by (cases "List.find (\<lambda>p. roster = [] \<or> p \<in> set roster) xs") (simp_all add: r)
  then show ?thesis using assms(1) by (auto simp: pickEnhanceProvider_def Let_def)
qed

section \<open>A session's ledger\<close>

lemma wf_session: "wf_json (session_event W p m r)"
  by (simp add: session_event_def text_array_def list_all_iff)

text \<open>
  The file of a new session: its stream begins with the one event, and the verifier takes it for a ledger from before
  the hash chain, since the event has no hash.\<close>

theorem desktop_session:
  assumes "post_run W dir req d = (a, Some (path, written))"
  shows "\<exists>p m r s. written = stringify (session_event W p m r) @ [newline] \<and> ledger_verify H (Some written) = Inr (VOk True 1) \<and>
    sse_start (Some (length written)) (Some written) = Inr s \<and> ss_sent s = [data_frame (stringify (session_event W p m r))]"
proof -
  obtain p m r where t: "written = stringify (session_event W p m r) @ newline # []"
    using assms by (auto simp: post_run_def Let_def split: sum.splits option.splits)
  let ?e = "stringify (session_event W p m r)"
  have n: "newline \<notin> set ?e" by (rule stringify_no_newline [OF wf_session])
  obtain cs where c: "?e = CHR ''{'' # cs" by (simp add: session_event_def)
  have "\<not> is_space (CHR ''{'')" by code_simp
  then have ne: "trim ?e \<noteq> []" unfolding c by (auto simp: trim_def dropWhile_eq_Nil_conv)
  have "lines written = [?e]" using lines_snoc [of "[]" ?e] n c t by (simp add: lines_def)
  moreover have "prop_of (reparsed (session_event W p m r)) k = None" if "k \<in> {''hash'', ''prev_hash''}" for k
    using that by (auto simp: session_event_def)
  moreover have "reparsed (session_event W p m r) \<noteq> JNull" "session_event W p m r \<noteq> JUndef" by (simp_all add: session_event_def)
  ultimately have v: "ledger_verify H (Some written) = Inr (VOk True 1)"
    using json_roundtrip [OF wf_session] by (simp add: ledger_verify_def)
  have "whole_lines written = [?e]" unfolding t whole_break using n ne by (simp add: split_no_break whole_lines_def)
  then obtain s where "sse_start (Some (length written)) (Some written) = Inr s" "ss_sent s = [data_frame ?e]"
    using readDelta_tail [of "[]" written] by (simp add: sse_start_def sse_lines_open)
  with v t show ?thesis by blast
qed

end
