(* ===== verification/Desktop_Views.thy ===== *)
theory Desktop_Views
  imports Desktop_Server Core_Types
begin

text \<open>
  What the desktop client does with the event stream: \<open>useLedgerStream.ts\<close>, the meter of \<open>CostMeter.tsx\<close>, the graph of
  \<open>SwarmCanvas.tsx\<close>, the files of \<open>CodeDiffPane.tsx\<close>, and the choice of providers of \<open>RosterPicker.tsx\<close> and \<open>App.tsx\<close>.
  An event is an object, an id or a name a non-empty text; a field of a type other than its declared one is outside
  the model. Amounts are binary64 numbers. The rendering is left out.
\<close>

section \<open>The stream\<close>

definition frame_data :: "string \<Rightarrow> string option" where
  "frame_data f = (if starts_with f ''data: '' \<and> ends_with f [newline, newline] then Some (take (length f - 8) (drop 6 f)) else None)"

definition on_message :: "string \<Rightarrow> json list \<Rightarrow> json list" where
  "on_message d es = (case json_parse d of None \<Rightarrow> es | Some e \<Rightarrow> es @ [e])"

text \<open>The frames of one connection; the events of the connections before stay.\<close>

definition ledger_stream :: "string list \<Rightarrow> json list \<Rightarrow> json list" where
  "ledger_stream frames es = fold on_message (List.map_filter frame_data frames) es"

section \<open>Fields\<close>

definition se_is :: "json \<Rightarrow> string \<Rightarrow> bool" where
  "se_is e t \<longleftrightarrow> opt_get e ''type'' = JStr t"

definition nonempty_text :: "json \<Rightarrow> string option" where
  "nonempty_text v = (case v of JStr (c # cs) \<Rightarrow> Some (c # cs) | _ \<Rightarrow> None)"

definition se_payload :: "json \<Rightarrow> string \<Rightarrow> json" where
  "se_payload e k = opt_get (opt_get e ''payload'') k"

definition se_meta :: "json \<Rightarrow> string \<Rightarrow> json" where
  "se_meta e k = opt_get (opt_get e ''metadata'') k"

definition number_or :: "json \<Rightarrow> rat \<Rightarrow> rat" where
  "number_or v d = (case v of JNum t \<Rightarrow> number_value t | _ \<Rightarrow> d)"

section \<open>The meter\<close>

record meter =
  me_tokens :: rat
  me_cost :: rat
  me_saved :: rat

definition meter_step :: "meter \<Rightarrow> json \<Rightarrow> meter" where
  "meter_step m e = \<lparr>
     me_tokens = (case opt_get (se_meta e ''tokens'') ''total'' of JNum t \<Rightarrow> fadd (me_tokens m) (number_value t) | _ \<Rightarrow> me_tokens m),
     me_cost = (case se_meta e ''costUsd'' of JNum t \<Rightarrow> fadd (me_cost m) (number_value t) | _ \<Rightarrow> me_cost m),
     me_saved = (if se_is e ''contextforge_savings'' then
         fadd (me_saved m) (max 0 (fsub (number_or (se_payload e ''costUsdBaselineEstimate'') 0) (number_or (se_payload e ''costUsdLocal'') 0)))
       else me_saved m)\<rparr>"

definition cost_meter :: "json list \<Rightarrow> meter" where
  "cost_meter es = foldl meter_step \<lparr>me_tokens = 0, me_cost = 0, me_saved = 0\<rparr> es"

section \<open>The graph: tasks\<close>

datatype node_state = Node_scheduled | Node_completed | Node_failed

record graph_task =
  gt_title :: "string option"
  gt_deps :: "string list"

record graph_data =
  gd_tasks :: "(string, graph_task) dict"
  gd_state :: "(string, node_state) dict"
  gd_providers :: "(string, string) dict"
  gd_verdicts :: "(string \<times> string \<times> string) list"

definition array_of :: "json \<Rightarrow> json list" where
  "array_of v = (case v of JArr vs \<Rightarrow> vs | _ \<Rightarrow> [])"

definition add_planned :: "graph_data \<Rightarrow> json \<Rightarrow> graph_data" where
  "add_planned g raw = (case nonempty_text (opt_get raw ''id'') of None \<Rightarrow> g
     | Some i \<Rightarrow> if dhas (gd_tasks g) i then g
         else g\<lparr>gd_tasks := dset i \<lparr>gt_title = nonempty_text (opt_get raw ''title''),
                  gt_deps = List.map_filter nonempty_text (array_of (opt_get raw ''dependsOn''))\<rparr> (gd_tasks g),
                gd_state := dset i Node_scheduled (gd_state g)\<rparr>)"

definition planned_tasks :: "json \<Rightarrow> json list" where
  "planned_tasks e = (if se_is e ''decomposer_complete'' then array_of (se_payload e ''tasks'') else [])"

text \<open>The events of one task.\<close>

definition task_event :: "json \<Rightarrow> string \<Rightarrow> graph_data \<Rightarrow> graph_data" where
  "task_event e i g =
    (if se_is e ''task_scheduled'' then
       (let title = (case se_payload e ''title'' of JStr t \<Rightarrow> (if t = [] then None else Some t) | _ \<Rightarrow> Some i);
            g1 = (if dhas (gd_tasks g) i then g else g\<lparr>gd_tasks := dset i \<lparr>gt_title = title, gt_deps = []\<rparr> (gd_tasks g)\<rparr>)
        in g1\<lparr>gd_state := dset i Node_scheduled (gd_state g1),
              gd_providers := (case nonempty_text (se_meta e ''provider'') of None \<Rightarrow> gd_providers g1 | Some p \<Rightarrow> dset i p (gd_providers g1))\<rparr>)
     else if se_is e ''task_completed'' then g\<lparr>gd_state := dset i Node_completed (gd_state g)\<rparr>
     else if se_is e ''task_failed'' then g\<lparr>gd_state := dset i Node_failed (gd_state g)\<rparr>
     else if se_is e ''mesh_verdict'' then
       g\<lparr>gd_verdicts := gd_verdicts g @ [(js_string (opt_get e ''id''), i,
           let v = se_payload e ''verdict'' in if v = JUndef \<or> v = JNull then ''verified'' else js_string v)]\<rparr>
     else g)"

definition graph_step :: "graph_data \<Rightarrow> json \<Rightarrow> graph_data" where
  "graph_step g e = (let g1 = foldl add_planned g (planned_tasks e) in
     case nonempty_text (opt_get e ''taskId'') of None \<Rightarrow> g1 | Some i \<Rightarrow> task_event e i g1)"

definition graph_of :: "json list \<Rightarrow> graph_data" where
  "graph_of es = foldl graph_step \<lparr>gd_tasks = [], gd_state = [], gd_providers = [], gd_verdicts = []\<rparr> es"

section \<open>The graph: depths\<close>

text \<open>
  \<open>computeDepth\<close>, with the map of the depths found and the set of the tasks that were entered. The first
  argument bounds the nesting; \<open>None\<close> is running out of it.\<close>

type_synonym depths = "(string, nat) dict \<times> string list"

fun computeDepth :: "nat \<Rightarrow> (string \<Rightarrow> string list) \<Rightarrow> string \<Rightarrow> depths \<Rightarrow> (nat \<times> depths) option"
  and parent_depths :: "nat \<Rightarrow> (string \<Rightarrow> string list) \<Rightarrow> string list \<Rightarrow> depths \<Rightarrow> (nat list \<times> depths) option" where
  "computeDepth 0 ps i s = None"
| "computeDepth (Suc n) ps i s =
    (case dget (fst s) i of Some d \<Rightarrow> Some (d, s)
     | None \<Rightarrow>
       if i \<in> set (snd s) then Some (0, s)
       else (case parent_depths n ps (ps i) (fst s, i # snd s) of None \<Rightarrow> None
         | Some (ds, s1) \<Rightarrow> (let d = (if ds = [] then 0 else 1 + Max (set ds)) in Some (d, dset i d (fst s1), snd s1))))"
| "parent_depths n ps [] s = Some ([], s)"
| "parent_depths n ps (i # is) s = (case computeDepth n ps i s of None \<Rightarrow> None
     | Some (d, s1) \<Rightarrow> (case parent_depths n ps is s1 of None \<Rightarrow> None | Some (ds, s2) \<Rightarrow> Some (d # ds, s2)))"

fun all_depths :: "nat \<Rightarrow> (string \<Rightarrow> string list) \<Rightarrow> string list \<Rightarrow> (string, nat) dict \<Rightarrow> (string, nat) dict option" where
  "all_depths n ps [] dm = Some dm"
| "all_depths n ps (i # is) dm = (case computeDepth n ps i (dm, []) of None \<Rightarrow> None | Some (d, s) \<Rightarrow> all_depths n ps is (fst s))"

definition parents :: "(string, graph_task) dict \<Rightarrow> string \<Rightarrow> string list" where
  "parents ts i = (case dget ts i of None \<Rightarrow> [] | Some t \<Rightarrow> filter (dhas ts) (gt_deps t))"

definition task_depths :: "(string, graph_task) dict \<Rightarrow> (string, nat) dict option" where
  "task_depths ts = all_depths (length ts + 1) (parents ts) (dkeys ts) []"

section \<open>The graph: nodes and edges\<close>

record graph_node =
  gn_id :: string
  gn_label :: string
  gn_state :: node_state
  gn_provider :: "string option"
  gn_x :: nat
  gn_y :: nat

record graph_edge =
  ge_id :: string
  ge_source :: string
  ge_target :: string
  ge_animated :: bool

definition node_state_of :: "graph_data \<Rightarrow> string \<Rightarrow> node_state" where
  "node_state_of g i = (case dget (gd_state g) i of None \<Rightarrow> Node_scheduled | Some s \<Rightarrow> s)"

definition depth_of :: "(string, nat) dict \<Rightarrow> string \<Rightarrow> nat" where
  "depth_of dm i = (case dget dm i of None \<Rightarrow> 0 | Some d \<Rightarrow> d)"

definition place_node :: "graph_data \<Rightarrow> (string, nat) dict \<Rightarrow> graph_node list \<times> (nat, nat) dict \<Rightarrow> string \<times> graph_task \<Rightarrow>
    graph_node list \<times> (nat, nat) dict" where
  "place_node g dm s it = (let d = depth_of dm (fst it); row = (case dget (snd s) d of None \<Rightarrow> 0 | Some r \<Rightarrow> r) in
     (fst s @ [\<lparr>gn_id = fst it, gn_label = (case gt_title (snd it) of None \<Rightarrow> fst it | Some t \<Rightarrow> t), gn_state = node_state_of g (fst it),
        gn_provider = dget (gd_providers g) (fst it), gn_x = d * 220, gn_y = row * 80\<rparr>], dset d (row + 1) (snd s)))"

definition task_nodes :: "graph_data \<Rightarrow> (string, nat) dict \<Rightarrow> graph_node list" where
  "task_nodes g dm = fst (foldl (place_node g dm) ([], []) (gd_tasks g))"

definition dependency_edges :: "graph_data \<Rightarrow> graph_edge list" where
  "dependency_edges g = concat (map (\<lambda>it. map (\<lambda>p. \<lparr>ge_id = p @ ''->'' @ fst it, ge_source = p, ge_target = fst it,
      ge_animated = (dget (gd_state g) (fst it) = Some Node_scheduled)\<rparr>) (filter (dhas (gd_tasks g)) (gt_deps (snd it)))) (gd_tasks g))"

definition add_verdict :: "graph_node list \<times> graph_edge list \<Rightarrow> string \<times> string \<times> string \<Rightarrow> graph_node list \<times> graph_edge list" where
  "add_verdict s m = (case m of (i, target, verdict) \<Rightarrow>
     (case List.find (\<lambda>n. gn_id n = target) (fst s) of None \<Rightarrow> s
      | Some t \<Rightarrow> (fst s @ [\<lparr>gn_id = ''mesh-'' @ i, gn_label = [CHR 0xE2, CHR 0x9A, CHR 0x96] @ '' '' @ verdict, gn_state = Node_completed,
            gn_provider = None, gn_x = gn_x t + 40, gn_y = gn_y t + 60\<rparr>],
          snd s @ [\<lparr>ge_id = target @ ''->mesh-'' @ i, ge_source = target, ge_target = ''mesh-'' @ i, ge_animated = False\<rparr>])))"

definition buildGraph :: "json list \<Rightarrow> (graph_node list \<times> graph_edge list) option" where
  "buildGraph es = (let g = graph_of es in
     map_option (\<lambda>dm. foldl add_verdict (task_nodes g dm, dependency_edges g) (gd_verdicts g)) (task_depths (gd_tasks g)))"

section \<open>The files\<close>

record file_snapshot =
  fs_new :: bool
  fs_before :: string
  fs_after :: string

definition not_in_ledger :: string where
  "not_in_ledger = ''(content not in ledger)''"

definition text_else :: "json \<Rightarrow> string \<Rightarrow> string" where
  "text_else v d = (case v of JStr s \<Rightarrow> s | _ \<Rightarrow> d)"

definition file_step :: "(string, file_snapshot) dict \<Rightarrow> json \<Rightarrow> (string, file_snapshot) dict" where
  "file_step m e = (case nonempty_text (se_payload e ''path'') of None \<Rightarrow> m
     | Some p \<Rightarrow>
       if se_is e ''file_created'' then
         dset p \<lparr>fs_new = True, fs_before = [], fs_after = text_else (se_payload e ''content'') not_in_ledger\<rparr> m
       else if se_is e ''file_modified'' then
         dset p \<lparr>fs_new = (case dget m p of None \<Rightarrow> False | Some f \<Rightarrow> fs_new f),
           fs_before = text_else (se_payload e ''before'') (case dget m p of None \<Rightarrow> not_in_ledger | Some f \<Rightarrow> fs_after f),
           fs_after = text_else (se_payload e ''after'') not_in_ledger\<rparr> m
       else m)"

definition collectFiles :: "json list \<Rightarrow> (string, file_snapshot) dict" where
  "collectFiles es = foldl file_step [] es"

definition extension :: "string \<Rightarrow> string" where
  "extension p = to_lower (rev (takeWhile (\<lambda>c. c \<noteq> CHR ''.'') (rev p)))"

definition language_table :: "(string \<times> string) list" where
  "language_table = [(''ts'', ''typescript''), (''tsx'', ''typescript''), (''js'', ''javascript''), (''jsx'', ''javascript''), (''rs'', ''rust''),
     (''py'', ''python''), (''json'', ''json''), (''md'', ''markdown''), (''css'', ''css''), (''html'', ''html''), (''go'', ''go''),
     (''yml'', ''yaml''), (''yaml'', ''yaml''), (''toml'', ''ini''), (''sh'', ''shell''), (''bash'', ''shell'')]"

definition inferLanguage :: "string \<Rightarrow> string" where
  "inferLanguage p = (case map_of language_table (extension p) of None \<Rightarrow> ''plaintext'' | Some l \<Rightarrow> l)"

section \<open>The roster\<close>

definition GROUPS :: "(string \<times> string list) list" where
  "GROUPS = [(''CLI drivers'', [''claude-code-cli'', ''codex-cli'', ''gemini-cli'', ''opencode-go'']),
     (''Cloud APIs'', [''anthropic-api'', ''openai'', ''gemini-api'', ''deepseek-v4'', ''deepseek'', ''groq'', ''moonshot-k2.6'', ''moonshot-k2.5'',
        ''qwen3.6-plus'', ''qwen3.5-plus'', ''minimax-m2.7'', ''minimax-m2.5'', ''xiaomi-mimo'', ''glm-zai'', ''glm-fireworks'', ''glm-deepinfra'',
        ''mistral'', ''kiro-ai'', ''tavily'', ''gemini'']),
     (''Local'', [''carnice-9b-local''])]"

definition ALL_PROVIDERS :: "string list" where
  "ALL_PROVIDERS = concat (map snd GROUPS)"

definition set_with :: "string \<Rightarrow> string list \<Rightarrow> string list" where
  "set_with x s = (if x \<in> set s then s else s @ [x])"

definition set_without :: "string \<Rightarrow> string list \<Rightarrow> string list" where
  "set_without x s = filter (\<lambda>y. y \<noteq> x) s"

definition roster_label :: "string list \<Rightarrow> string" where
  "roster_label enabled = (let n = length enabled in
     if n = length ALL_PROVIDERS then ''All AIs'' else if n = 0 then ''No AIs selected'' else show_nat n @ '' AIs'')"

definition toggle :: "string \<Rightarrow> string list \<Rightarrow> string list" where
  "toggle i enabled = (if i \<in> set enabled then set_without i enabled else set_with i enabled)"

definition setGroupAll :: "string list \<Rightarrow> bool \<Rightarrow> string list \<Rightarrow> string list" where
  "setGroupAll providers_of on enabled = foldl (\<lambda>s p. if on then set_with p s else set_without p s) enabled providers_of"

text \<open>What the client stores, and reads back; a text that does not parse, or is no array, gives all providers.\<close>

definition stored_roster :: "string list \<Rightarrow> string" where
  "stored_roster roster = stringify (JArr (map JStr (sort roster)))"

definition loadRoster :: "string option \<Rightarrow> string list" where
  "loadRoster raw = (case raw of None \<Rightarrow> ALL_PROVIDERS | Some [] \<Rightarrow> ALL_PROVIDERS
     | Some t \<Rightarrow> (case json_parse t of
         Some (JArr vs) \<Rightarrow> js_set (filter (\<lambda>p. p \<in> set ALL_PROVIDERS) (only_strings vs))
       | _ \<Rightarrow> ALL_PROVIDERS))"

definition roster_body :: "string list \<Rightarrow> json" where
  "roster_body roster = JObj [(''providers'', JArr (map JStr (sort roster)))]"

section \<open>A connection that is made again\<close>

lemma frame_data_frame [simp]: "frame_data (data_frame l) = Some l"
  by (simp add: frame_data_def data_frame_def starts_with_def ends_with_def)

lemma frames_data_frames: "List.map_filter frame_data (map data_frame ls) = ls"
  by (induction ls) (simp_all add: map_filter_simps)

lemma stream_lines: "fold on_message ls es = es @ List.map_filter json_parse ls"
  by (induction ls arbitrary: es) (auto simp: on_message_def map_filter_simps split: option.split)

text \<open>
  A reconnection doubles the events. The server sends a new connection the ledger from its start, and the client keeps
  what it has: after the browser has connected again, a client that held the events of the complete lines of the file
  holds every one of them twice.\<close>

theorem reconnect_doubles:
  assumes "sse_start (Some (length c)) (Some c) = Inr s"
  defines "held \<equiv> ledger_stream (ss_sent s) []"
  shows "held = List.map_filter json_parse (whole_lines c) \<and> ledger_stream (ss_sent s) held = held @ held"
proof -
  have "readDelta (Some (length c)) (Some c) 0 = Inr (whole_lines c, whole_length c)"
    using readDelta_tail [of "[]" c] by simp
  then have "ss_sent s = map data_frame (whole_lines c)"
    using assms(1) by (auto simp: sse_start_def sse_lines_open)
  then show ?thesis by (simp add: held_def ledger_stream_def frames_data_frames stream_lines)
qed

lemma reconnect_doubles_witness:
  "\<exists>s. sse_start (Some (length (''true'' @ [newline]))) (Some (''true'' @ [newline])) = Inr s \<and>
     ledger_stream (ss_sent s) (ledger_stream (ss_sent s) []) = [JBool True, JBool True]"
proof -
  let ?c = "''true'' @ [newline]"
  have "\<exists>s. sse_start (Some (length ?c)) (Some ?c) = Inr s" by (simp add: sse_start_def readDelta_def split: option.split)
  then obtain s where s: "sse_start (Some (length ?c)) (Some ?c) = Inr s" by blast
  moreover have "List.map_filter json_parse (whole_lines ?c) = [JBool True]" by code_simp
  then have "ledger_stream (ss_sent s) (ledger_stream (ss_sent s) []) = [JBool True, JBool True]"
    using reconnect_doubles [OF s] by auto
  ultimately show ?thesis by blast
qed

section \<open>Depths are found\<close>

lemma parents_total:
  assumes "\<And>i s. i \<in> T \<Longrightarrow> card (T - set (snd s)) < n \<Longrightarrow> \<exists>d s'. computeDepth n ps i s = Some (d, s') \<and> set (snd s) \<subseteq> set (snd s')"
    and "finite T" "set is \<subseteq> T" "card (T - set (snd s)) < n"
  shows "\<exists>ds s'. parent_depths n ps is s = Some (ds, s') \<and> set (snd s) \<subseteq> set (snd s')"
  using assms(3,4)
proof (induction "is" arbitrary: s)
  case (Cons i "is")
  obtain d s1 where c: "computeDepth n ps i s = Some (d, s1)" "set (snd s) \<subseteq> set (snd s1)"
    using assms(1) [of i s] Cons.prems by auto
  have "card (T - set (snd s1)) \<le> card (T - set (snd s))" using c(2) assms(2) by (intro card_mono) auto
  then obtain ds s2 where "parent_depths n ps is s1 = Some (ds, s2)" "set (snd s1) \<subseteq> set (snd s2)"
    using Cons.IH [of s1] Cons.prems by auto
  then show ?case using c by auto
qed simp

lemma depth_total:
  assumes "finite T" "\<And>i. i \<in> T \<Longrightarrow> set (ps i) \<subseteq> T"
  shows "i \<in> T \<Longrightarrow> card (T - set (snd s)) < n \<Longrightarrow> \<exists>d s'. computeDepth n ps i s = Some (d, s') \<and> set (snd s) \<subseteq> set (snd s')"
proof (induction n arbitrary: i s)
  case (Suc n)
  show ?case
  proof (cases "dget (fst s) i = None \<and> i \<notin> set (snd s)")
    case True
    have "T - set (i # snd s) \<subset> T - set (snd s)" using True Suc.prems(1) by auto
    then have "card (T - set (i # snd s)) < card (T - set (snd s))" using assms(1) by (intro psubset_card_mono) auto
    then have "card (T - set (snd (fst s, i # snd s))) < n" using Suc.prems(2) by simp
    from parents_total [OF Suc.IH assms(1) assms(2) [OF Suc.prems(1)] this]
    show ?thesis using True by (force simp: Let_def)
  next
    case False
    then show ?thesis by (cases s; cases "dget (fst s) i") auto
  qed
qed simp

text \<open>The equation of the depths, and what one call adds to the map.\<close>

definition depth_value :: "(string \<Rightarrow> string list) \<Rightarrow> (string, nat) dict \<Rightarrow> string \<Rightarrow> nat" where
  "depth_value ps dm i = (if ps i = [] then 0 else 1 + Max (depth_of dm ` set (ps i)))"

definition good_depths :: "(string \<Rightarrow> string list) \<Rightarrow> (string, nat) dict \<Rightarrow> bool" where
  "good_depths ps dm \<longleftrightarrow> (\<forall>i d. dget dm i = Some d \<longrightarrow> (\<forall>p\<in>set (ps i). dget dm p \<noteq> None) \<and> d = depth_value ps dm i)"

definition depths_grow :: "depths \<Rightarrow> depths \<Rightarrow> bool" where
  "depths_grow s s' \<longleftrightarrow> (\<forall>i d. dget (fst s) i = Some d \<longrightarrow> dget (fst s') i = Some d) \<and>
     (\<forall>x\<in>set (snd s'). dget (fst s') x = None \<longrightarrow> x \<in> set (snd s))"

lemma depths_grow_trans: "depths_grow s t \<Longrightarrow> depths_grow t u \<Longrightarrow> depths_grow s u"
  unfolding depths_grow_def by (metis option.exhaust)

lemma depths_grow_refl: "depths_grow s s"
  by (simp add: depths_grow_def)

definition open_above :: "(string \<Rightarrow> nat) \<Rightarrow> string \<Rightarrow> depths \<Rightarrow> bool" where
  "open_above r i s \<longleftrightarrow> (\<forall>x\<in>set (snd s). dget (fst s) x = None \<longrightarrow> r i < r x)"

lemma open_above_depths_grow: "open_above r i s \<Longrightarrow> depths_grow s t \<Longrightarrow> open_above r i t"
  unfolding open_above_def depths_grow_def by (metis option.exhaust)

lemma parents_correct:
  assumes "\<And>i s d s'. computeDepth n ps i s = Some (d, s') \<Longrightarrow> good_depths ps (fst s) \<Longrightarrow> open_above r i s \<Longrightarrow>
      good_depths ps (fst s') \<and> depths_grow s s' \<and> dget (fst s') i = Some d"
    and "parent_depths n ps is s = Some (ds, s')" "good_depths ps (fst s)" "\<forall>i\<in>set is. open_above r i s"
  shows "good_depths ps (fst s') \<and> depths_grow s s' \<and> (\<forall>i\<in>set is. dget (fst s') i \<noteq> None) \<and> ds = map (depth_of (fst s')) is"
  using assms(2-4)
proof (induction "is" arbitrary: s ds)
  case (Cons i "is")
  obtain d s1 es where c: "computeDepth n ps i s = Some (d, s1)" "parent_depths n ps is s1 = Some (es, s')" "ds = d # es"
    using Cons.prems(1) by (auto split: option.splits)
  have one: "good_depths ps (fst s1)" "depths_grow s s1" "dget (fst s1) i = Some d"
    using assms(1) [OF c(1) Cons.prems(2)] Cons.prems(3) by auto
  have "\<forall>j\<in>set is. open_above r j s1" using Cons.prems(3) open_above_depths_grow [OF _ one(2)] by simp
  from Cons.IH [OF c(2) one(1) this]
  have two: "good_depths ps (fst s')" "depths_grow s1 s'" "\<forall>j\<in>set is. dget (fst s') j \<noteq> None" "es = map (depth_of (fst s')) is" by auto
  have "dget (fst s') i = Some d" using one(3) two(2) by (simp add: depths_grow_def)
  then show ?case using two depths_grow_trans [OF one(2) two(2)] c(3) by (simp add: depth_of_def)
qed (simp add: depths_grow_refl)

lemma depth_correct:
  fixes r :: "string \<Rightarrow> nat"
  assumes "\<And>i p. p \<in> set (ps i) \<Longrightarrow> r p < r i"
  shows "computeDepth n ps i s = Some (d, s') \<Longrightarrow> good_depths ps (fst s) \<Longrightarrow> open_above r i s \<Longrightarrow>
    good_depths ps (fst s') \<and> depths_grow s s' \<and> dget (fst s') i = Some d"
proof (induction n arbitrary: i s d s')
  case (Suc n)
  show ?case
  proof (cases "dget (fst s) i")
    case (Some e)
    then show ?thesis using Suc.prems by (simp add: depths_grow_refl)
  next
    case None
    then have i: "i \<notin> set (snd s)" using Suc.prems(3) by (auto simp: open_above_def)
    then obtain ds s1 where p: "parent_depths n ps (ps i) (fst s, i # snd s) = Some (ds, s1)"
      and d: "d = (if ds = [] then 0 else 1 + Max (set ds))" and s': "s' = (dset i d (fst s1), snd s1)"
      using Suc.prems(1) None by (auto simp: Let_def split: option.splits)
    have "\<forall>q\<in>set (ps i). open_above r q (fst s, i # snd s)"
      using Suc.prems(3) assms by (fastforce simp: open_above_def)
    moreover have "good_depths ps (fst (fst s, i # snd s))" using Suc.prems(2) by simp
    ultimately have all: "good_depths ps (fst s1) \<and> depths_grow (fst s, i # snd s) s1 \<and> (\<forall>q\<in>set (ps i). dget (fst s1) q \<noteq> None) \<and>
        ds = map (depth_of (fst s1)) (ps i)" by (intro parents_correct [OF Suc.IH p])
    then have one: "good_depths ps (fst s1)" "depths_grow (fst s, i # snd s) s1" "\<forall>q\<in>set (ps i). dget (fst s1) q \<noteq> None"
      "ds = map (depth_of (fst s1)) (ps i)" by blast+
    have d': "d = depth_value ps (fst s1) i" using d one(4) by (simp add: depth_value_def)
    have keep: "dget (fst s') j = Some e" if "dget (fst s1) j = Some e" for j e
    proof (cases "j = i")
      case True
      then have "e = d" using one(1) that d' by (auto simp: good_depths_def)
      then show ?thesis using True by (simp add: s')
    qed (use that in \<open>simp add: s'\<close>)
    have same: "depth_value ps (fst s') j = depth_value ps (fst s1) j" if "\<forall>q\<in>set (ps j). dget (fst s1) q \<noteq> None" for j
    proof -
      have "depth_of (fst s') q = depth_of (fst s1) q" if "q \<in> set (ps j)" for q
        using that keep \<open>\<forall>q\<in>set (ps j). dget (fst s1) q \<noteq> None\<close> by (fastforce simp: depth_of_def)
      then show ?thesis by (simp add: depth_value_def)
    qed
    have "good_depths ps (fst s')"
      unfolding good_depths_def
    proof (intro allI impI)
      fix j e
      assume "dget (fst s') j = Some e"
      then have "j = i \<and> e = d \<or> dget (fst s1) j = Some e" by (auto simp: s' dict.get_put split: if_splits)
      then have "(\<forall>q\<in>set (ps j). dget (fst s1) q \<noteq> None) \<and> e = depth_value ps (fst s1) j"
        using one(1,3) d' by (auto simp: good_depths_def)
      then show "(\<forall>q\<in>set (ps j). dget (fst s') q \<noteq> None) \<and> e = depth_value ps (fst s') j"
        using keep same by fastforce
    qed
    moreover have "depths_grow s s'"
      using one(2) keep by (fastforce simp: depths_grow_def s' dict.get_put split: if_splits)
    ultimately show ?thesis by (simp add: s')
  qed
qed simp

lemma all_depths_correct:
  fixes r :: "string \<Rightarrow> nat"
  assumes "\<And>i p. p \<in> set (ps i) \<Longrightarrow> r p < r i" "all_depths n ps is dm = Some dm'" "good_depths ps dm"
  shows "good_depths ps dm' \<and> (\<forall>i\<in>set is \<union> dom (dget dm). dget dm' i \<noteq> None)"
  using assms(2,3)
proof (induction "is" arbitrary: dm)
  case (Cons i "is")
  obtain d s where c: "computeDepth n ps i (dm, []) = Some (d, s)" "all_depths n ps is (fst s) = Some dm'"
    using Cons.prems(1) by (auto split: option.splits)
  have "open_above r i (dm, [])" by (simp add: open_above_def)
  from depth_correct [OF assms(1) c(1) _ this] Cons.prems(2)
  have o1: "good_depths ps (fst s)" "depths_grow (dm, []) s" "dget (fst s) i = Some d" by auto
  then have "i \<in> dom (dget (fst s))" "dom (dget dm) \<subseteq> dom (dget (fst s))" by (auto simp: depths_grow_def)
  then show ?case using Cons.IH [OF c(2) o1(1)] by auto
qed auto

lemma all_depths_total:
  assumes "finite T" "\<And>i. i \<in> T \<Longrightarrow> set (ps i) \<subseteq> T" "card T < n" "set is \<subseteq> T"
  shows "all_depths n ps is dm \<noteq> None"
  using assms(4)
proof (induction "is" arbitrary: dm)
  case (Cons i "is")
  then obtain d s where "computeDepth n ps i (dm, []) = Some (d, s)"
    using depth_total [where ps = ps and T = T and i = i and s = "(dm, [])" and n = n, OF assms(1,2)] assms(3) by auto
  then show ?case using Cons by simp
qed simp

section \<open>The layout\<close>

lemma acyclic_rank:
  fixes R :: "('a \<times> 'a) set"
  assumes "finite R" "acyclic R"
  obtains r :: "'a \<Rightarrow> nat" where "\<And>p i. (p, i) \<in> R \<Longrightarrow> r p < r i"
proof
  fix p i
  assume e: "(p, i) \<in> R"
  have f: "finite {j. (j, x) \<in> R\<^sup>+}" for x
  proof (rule finite_subset)
    show "{j. (j, x) \<in> R\<^sup>+} \<subseteq> fst ` R" by (auto dest!: tranclD simp: image_iff) force
    show "finite (fst ` R)" using assms(1) by simp
  qed
  have "p \<notin> {j. (j, p) \<in> R\<^sup>+}" using assms(2) by (simp add: acyclic_def)
  moreover have "{j. (j, p) \<in> R\<^sup>+} \<subseteq> {j. (j, i) \<in> R\<^sup>+}" "p \<in> {j. (j, i) \<in> R\<^sup>+}"
    using e by (auto intro: trancl_into_trancl)
  ultimately have "{j. (j, p) \<in> R\<^sup>+} \<subset> {j. (j, i) \<in> R\<^sup>+}" by blast
  then show "card {j. (j, p) \<in> R\<^sup>+} < card {j. (j, i) \<in> R\<^sup>+}" using f by (rule psubset_card_mono [rotated])
qed

lemma parents_tasks: "set (parents ts i) \<subseteq> set (dkeys ts)"
  by (auto simp: parents_def dhas_def dict.has_iff split: option.splits)

lemma parents_inner: "p \<in> set (parents ts i) \<Longrightarrow> i \<in> set (dkeys ts)"
  by (cases "dget ts i") (auto simp: parents_def dict.has_iff)

text \<open>The depths are always found: the nesting never exceeds the number of tasks.\<close>

lemma task_depths_total: "task_depths ts \<noteq> None"
  unfolding task_depths_def
proof (rule all_depths_total [where T = "set (dkeys ts)"])
  have "card (set (dkeys ts)) \<le> length ts" using card_length [of "dkeys ts"] by simp
  then show "card (set (dkeys ts)) < length ts + 1" by simp
qed (use parents_tasks in auto)

lemma task_depths_increase:
  assumes "acyclic {(p, i). p \<in> set (parents ts i)}" "task_depths ts = Some dm" "p \<in> set (parents ts i)"
  shows "depth_of dm p < depth_of dm i"
proof -
  have "{(p, i). p \<in> set (parents ts i)} \<subseteq> set (dkeys ts) \<times> set (dkeys ts)" using parents_tasks parents_inner by fastforce
  then have "finite {(p, i). p \<in> set (parents ts i)}" by (rule finite_subset) simp
  then obtain r :: "string \<Rightarrow> nat" where "\<And>p i. (p, i) \<in> {(p, i). p \<in> set (parents ts i)} \<Longrightarrow> r p < r i"
    using acyclic_rank assms(1) by blast
  then have r: "\<And>i p. p \<in> set (parents ts i) \<Longrightarrow> r p < r i" by blast
  have "good_depths (parents ts) dm \<and> (\<forall>i\<in>set (dkeys ts) \<union> dom (dget ([] :: (string, nat) dict)). dget dm i \<noteq> None)"
  proof (rule all_depths_correct [where ps = "parents ts" and r = r])
    show "r p < r i" if "p \<in> set (parents ts i)" for i p using that by (rule r)
    show "all_depths (length ts + 1) (parents ts) (dkeys ts) [] = Some dm" by (rule assms(2) [unfolded task_depths_def])
  qed (simp add: good_depths_def)
  moreover have "i \<in> set (dkeys ts)" using parents_inner assms(3) by blast
  ultimately obtain d where "dget dm i = Some d" "d = depth_value (parents ts) dm i"
    unfolding good_depths_def by (meson UnI1 option.exhaust)
  moreover have "depth_of dm p \<le> Max (depth_of dm ` set (parents ts i))" using assms(3) by (intro Max_ge) auto
  moreover have "parents ts i \<noteq> []" using assms(3) by auto
  ultimately show ?thesis by (simp add: depth_of_def depth_value_def)
qed

text \<open>The nodes of the tasks: one for each, in the column of its depth, and no two at the same place.\<close>

lemma placed:
  "let s = foldl (place_node g dm) ([], []) its in
     map gn_id (fst s) = map fst its \<and> (\<forall>n\<in>set (fst s). gn_x n = depth_of dm (gn_id n) * 220 \<and>
       (\<exists>k. gn_y n = k * 80 \<and> k < (case dget (snd s) (depth_of dm (gn_id n)) of None \<Rightarrow> 0 | Some r \<Rightarrow> r))) \<and>
     distinct (map (\<lambda>n. (gn_x n, gn_y n)) (fst s))"
proof (induction its rule: rev_induct)
  case (snoc it its)
  obtain ns m where s: "foldl (place_node g dm) ([], []) its = (ns, m)" by fastforce
  let ?c = "\<lambda>d. case dget m d of None \<Rightarrow> 0 | Some r \<Rightarrow> r"
  have IH: "map gn_id ns = map fst its" "distinct (map (\<lambda>n. (gn_x n, gn_y n)) ns)"
    "\<And>n. n \<in> set ns \<Longrightarrow> gn_x n = depth_of dm (gn_id n) * 220 \<and> (\<exists>k. gn_y n = k * 80 \<and> k < ?c (depth_of dm (gn_id n)))"
    using snoc by (simp_all add: s)
  let ?d = "depth_of dm (fst it)"
  have "(?d * 220, ?c ?d * 80) \<notin> (\<lambda>n. (gn_x n, gn_y n)) ` set ns"
  proof
    assume "(?d * 220, ?c ?d * 80) \<in> (\<lambda>n. (gn_x n, gn_y n)) ` set ns"
    then obtain n where n: "n \<in> set ns" "gn_x n = ?d * 220" "gn_y n = ?c ?d * 80" by auto
    with IH(3) [OF n(1)] show False by auto
  qed
  then have new: "distinct (map (\<lambda>n. (gn_x n, gn_y n)) ns @ [(?d * 220, ?c ?d * 80)])" using IH(2) by simp
  have old: "\<exists>k. gn_y n = k * 80 \<and> k < (case dget (dset ?d (?c ?d + 1) m) (depth_of dm (gn_id n)) of None \<Rightarrow> 0 | Some r \<Rightarrow> r)"
    if n: "n \<in> set ns" for n
  proof -
    obtain k where k: "gn_y n = k * 80" "k < ?c (depth_of dm (gn_id n))" using IH(3) [OF n] by blast
    moreover have "?c x \<le> (case dget (dset ?d (?c ?d + 1) m) x of None \<Rightarrow> 0 | Some r \<Rightarrow> r)" for x
      by (cases "x = ?d") simp_all
    ultimately show ?thesis by (meson less_le_trans)
  qed
  let ?n = "\<lparr>gn_id = fst it, gn_label = (case gt_title (snd it) of None \<Rightarrow> fst it | Some t \<Rightarrow> t), gn_state = node_state_of g (fst it),
        gn_provider = dget (gd_providers g) (fst it), gn_x = ?d * 220, gn_y = ?c ?d * 80\<rparr>"
  have step: "foldl (place_node g dm) ([], []) (its @ [it]) = (ns @ [?n], dset ?d (?c ?d + 1) m)"
    by (simp add: s place_node_def Let_def)
  have "\<exists>k. gn_y ?n = k * 80 \<and> k < (case dget (dset ?d (?c ?d + 1) m) (depth_of dm (gn_id ?n)) of None \<Rightarrow> 0 | Some r \<Rightarrow> r)"
    by (intro exI [of _ "?c ?d"]) simp
  then have "\<forall>n\<in>set (ns @ [?n]). gn_x n = depth_of dm (gn_id n) * 220 \<and>
      (\<exists>k. gn_y n = k * 80 \<and> k < (case dget (dset ?d (?c ?d + 1) m) (depth_of dm (gn_id n)) of None \<Rightarrow> 0 | Some r \<Rightarrow> r))"
    using IH(3) old by simp
  moreover have "map gn_id (ns @ [?n]) = map fst (its @ [it])" "distinct (map (\<lambda>n. (gn_x n, gn_y n)) (ns @ [?n]))"
    using IH(1) new by simp_all
  ultimately show ?case unfolding step Let_def fst_conv snd_conv by blast
qed simp

lemma verdicts_keep: "set (fst s) \<subseteq> set (fst (foldl add_verdict s ms)) \<and> set (snd s) \<subseteq> set (snd (foldl add_verdict s ms))"
proof (induction ms arbitrary: s)
  case (Cons m ms)
  have "set (fst s) \<subseteq> set (fst (add_verdict s m))" "set (snd s) \<subseteq> set (snd (add_verdict s m))"
    by (auto simp: add_verdict_def split: prod.split option.split)
  then show ?case using Cons.IH [of "add_verdict s m"] by auto
qed simp

lemma edge_parent:
  assumes "e \<in> set (dependency_edges g)" "distinct (dkeys (gd_tasks g))"
  shows "ge_source e \<in> set (parents (gd_tasks g) (ge_target e))"
  using assms by (auto simp: dependency_edges_def parents_def dget_def dkeys_def)

lemma graph_distinct: "distinct (dkeys (gd_tasks (graph_of es)))"
proof -
  have a: "distinct (dkeys (gd_tasks g)) \<Longrightarrow> distinct (dkeys (gd_tasks (foldl add_planned g vs)))" for g vs
    by (induction vs arbitrary: g) (auto simp: add_planned_def dict.distinct_put split: option.split)
  have t: "distinct (dkeys (gd_tasks g)) \<Longrightarrow> distinct (dkeys (gd_tasks (task_event e i g)))" for e i g
    by (auto simp: task_event_def Let_def dict.distinct_put)
  show ?thesis
    unfolding graph_of_def
  proof (induction es rule: rev_induct)
    case (snoc e es)
    then show ?case using a t by (auto simp: graph_step_def Let_def split: option.split)
  qed (simp add: dkeys_def)
qed

text \<open>C17.
  The layout of the graph. It is always found, every task has a node, and no two nodes of tasks are at the same place;
  when the dependencies have no cycle, every edge between tasks runs from a column to one further right.\<close>

theorem swarm_layout:
  "\<exists>ns nodes edges. buildGraph es = Some (nodes, edges) \<and> set ns \<subseteq> set nodes \<and> map gn_id ns = dkeys (gd_tasks (graph_of es)) \<and>
    distinct (map (\<lambda>n. (gn_x n, gn_y n)) ns) \<and> set (dependency_edges (graph_of es)) \<subseteq> set edges \<and>
    (acyclic {(p, i). p \<in> set (parents (gd_tasks (graph_of es)) i)} \<longrightarrow>
     (\<forall>e\<in>set (dependency_edges (graph_of es)). \<forall>a\<in>set ns. \<forall>b\<in>set ns. gn_id a = ge_source e \<and> gn_id b = ge_target e \<longrightarrow> gn_x a < gn_x b))"
proof -
  let ?g = "graph_of es"
  obtain dm where dm: "task_depths (gd_tasks ?g) = Some dm" using task_depths_total by blast
  let ?ns = "task_nodes ?g dm"
  obtain nodes edges where b: "foldl add_verdict (?ns, dependency_edges ?g) (gd_verdicts ?g) = (nodes, edges)" by fastforce
  have p: "map gn_id ?ns = map fst (gd_tasks ?g)" "distinct (map (\<lambda>n. (gn_x n, gn_y n)) ?ns)"
    "\<And>n. n \<in> set ?ns \<Longrightarrow> gn_x n = depth_of dm (gn_id n) * 220"
    using placed [of ?g dm "gd_tasks ?g"] by (auto simp: task_nodes_def Let_def)
  have "gn_x a < gn_x b" if ac: "acyclic {(p, i). p \<in> set (parents (gd_tasks ?g) i)}" and that: "e \<in> set (dependency_edges ?g)" "a \<in> set ?ns" "b \<in> set ?ns" "gn_id a = ge_source e" "gn_id b = ge_target e" for e a b
    using task_depths_increase [OF ac dm edge_parent [OF that(1) graph_distinct]] p(3) [OF that(2)] p(3) [OF that(3)] that(4,5) by simp
  then show ?thesis
    using b verdicts_keep [of "(?ns, dependency_edges ?g)" "gd_verdicts ?g"] p(1,2) dm
    by (intro exI [of _ ?ns] exI [of _ nodes] exI [of _ edges]) (simp add: buildGraph_def dkeys_def)
qed

definition demo_plan :: "json list" where
  "demo_plan = [JObj [(''type'', JStr ''decomposer_complete''), (''payload'', JObj [(''tasks'', JArr
     [JObj [(''id'', JStr ''a'')], JObj [(''id'', JStr ''b''), (''dependsOn'', JArr [JStr ''a''])]])])]]"

lemma swarm_layout_witness:
  "\<exists>ns nodes edges. buildGraph demo_plan = Some (nodes, edges) \<and> set ns \<subseteq> set nodes \<and> map gn_id ns = [''a'', ''b''] \<and>
     (\<forall>e\<in>set (dependency_edges (graph_of demo_plan)). \<forall>a\<in>set ns. \<forall>b\<in>set ns.
        gn_id a = ge_source e \<and> gn_id b = ge_target e \<longrightarrow> gn_x a < gn_x b)"
proof -
  have t: "gd_tasks (graph_of demo_plan) = [(''a'', \<lparr>gt_title = None, gt_deps = []\<rparr>), (''b'', \<lparr>gt_title = None, gt_deps = [''a'']\<rparr>)]"
    by code_simp
  have "{(p, i). p \<in> set (parents (gd_tasks (graph_of demo_plan)) i)} = {(''a'', ''b'')}"
    by (auto simp: t parents_def dget_Cons dhas_def split: if_splits)
  then have ac: "acyclic {(p, i). p \<in> set (parents (gd_tasks (graph_of demo_plan)) i)}" by (simp add: acyclic_insert) (simp add: acyclic_def)
  have k: "dkeys (gd_tasks (graph_of demo_plan)) = [''a'', ''b'']" by (simp add: t dkeys_def)
  obtain ns nodes edges where g: "buildGraph demo_plan = Some (nodes, edges)" "set ns \<subseteq> set nodes"
    "map gn_id ns = dkeys (gd_tasks (graph_of demo_plan))"
    "\<forall>e\<in>set (dependency_edges (graph_of demo_plan)). \<forall>a\<in>set ns. \<forall>b\<in>set ns.
        gn_id a = ge_source e \<and> gn_id b = ge_target e \<longrightarrow> gn_x a < gn_x b"
    using swarm_layout [of demo_plan] mp [OF _ ac] by blast
  show ?thesis
    by (rule exI [of _ ns], rule exI [of _ nodes], rule exI [of _ edges]) (use g k in simp)
qed

text \<open>Two verdicts on one task are drawn at the same place.\<close>

lemma verdicts_overlap:
  assumes "List.find (\<lambda>n. gn_id n = t) ns = Some n"
  shows "\<exists>a b. fst (foldl add_verdict (ns, es) [(i, t, v), (j, t, w)]) = ns @ [a, b] \<and> gn_x a = gn_x b \<and> gn_y a = gn_y b"
proof -
  have "List.find P (xs @ ys) = Some n" if "List.find P xs = Some n" for P :: "graph_node \<Rightarrow> bool" and xs ys
    using that by (induction xs) (auto split: if_splits)
  then show ?thesis using assms by (simp add: add_verdict_def)
qed

section \<open>The providers\<close>

text \<open>The providers of the picker are those of the program, each once.\<close>

lemma all_providers: "distinct ALL_PROVIDERS" "set ALL_PROVIDERS = range provider_name"
proof -
  show "distinct ALL_PROVIDERS" by code_simp
  have "provider_name p \<in> set ALL_PROVIDERS" for p
    by (cases p) (simp_all add: ALL_PROVIDERS_def GROUPS_def)
  moreover have "\<exists>q. p = provider_name q" if "p \<in> set ALL_PROVIDERS" for p
  proof -
    have "list_all (\<lambda>x. x \<in> set (map provider_name provider_list)) ALL_PROVIDERS" by code_simp
    then show ?thesis using that by (auto simp: list_all_iff)
  qed
  ultimately show "set ALL_PROVIDERS = range provider_name" by blast
qed

lemma js_set_distinct: "distinct xs \<Longrightarrow> js_set xs = xs"
  by (simp add: js_set_def distinct_remdups_id)

lemma only_strings_texts: "only_strings (map JStr xs) = xs"
  by (induction xs) (simp_all add: only_strings_def map_filter_simps)

lemma stored_nonempty: "stored_roster r = CHR ''['' # tl (stored_roster r)"
  by (simp add: stored_roster_def)

lemma load_stored:
  assumes "distinct r" "set r \<subseteq> set ALL_PROVIDERS"
  shows "loadRoster (Some (stored_roster r)) = sort r"
proof -
  have "wf_json (JArr (map JStr (sort r)))" by (simp add: list_all_iff)
  then have "json_parse (stored_roster r) = Some (reparsed (JArr (map JStr (sort r))))"
    unfolding stored_roster_def by (rule json_roundtrip) simp
  then have "json_parse (stored_roster r) = Some (JArr (map JStr (sort r)))" by (simp add: comp_def)
  moreover have "filter (\<lambda>p. p \<in> set ALL_PROVIDERS) (sort r) = sort r" using assms(2) by (intro filter_True) auto
  moreover have "loadRoster (Some (stored_roster r)) = (case json_parse (stored_roster r) of
         Some (JArr vs) \<Rightarrow> js_set (filter (\<lambda>p. p \<in> set ALL_PROVIDERS) (only_strings vs)) | _ \<Rightarrow> ALL_PROVIDERS)"
    using stored_nonempty [of r] by (cases "stored_roster r") (simp_all add: loadRoster_def)
  ultimately show ?thesis using assms(1) by (simp add: only_strings_texts js_set_distinct)
qed

lemma toggle_kept:
  assumes "distinct r" "set r \<subseteq> set ALL_PROVIDERS" "i \<in> set ALL_PROVIDERS"
  shows "distinct (toggle i r) \<and> set (toggle i r) \<subseteq> set ALL_PROVIDERS"
  using assms by (auto simp: toggle_def set_with_def set_without_def)

text \<open>
  The choice of providers reaches the server and survives a reload. From the roster on the screen, a set of
  providers of the program, the client stores the same set that it sends, so that after the request has been handled
  the server's roster and the roster after a reload are the same list, with exactly the providers chosen; and the label
  says that all are on exactly when no provider is missing.\<close>

theorem roster_synced:
  assumes "distinct r" "set r \<subseteq> range provider_name" "rq_json req = Inr (roster_body r)"
  shows "providerRoster (snd (post_roster req d)) = loadRoster (Some (stored_roster r)) \<and>
    set (providerRoster (snd (post_roster req d))) = set r \<and> (roster_label r = ''All AIs'' \<longleftrightarrow> set r = range provider_name)"
proof -
  have s: "set r \<subseteq> set ALL_PROVIDERS" using assms(2) all_providers(2) by simp
  have "providerRoster (snd (post_roster req d)) = sort r"
    using assms(1,3) by (simp add: post_roster_def roster_body_def Let_def dget_Cons only_strings_texts js_set_distinct)
  moreover have "loadRoster (Some (stored_roster r)) = sort r" by (rule load_stored [OF assms(1) s])
  moreover have "roster_label r = ''All AIs'' \<longleftrightarrow> length r = length ALL_PROVIDERS"
  proof -
    have "show_nat n \<noteq> CHR ''A'' # x" for n x
      using show_nat_digits [of n] by (auto simp: is_digit_def)
    then show ?thesis by (auto simp: roster_label_def Let_def)
  qed
  moreover have "length r = length ALL_PROVIDERS \<longleftrightarrow> set r = set ALL_PROVIDERS"
    using assms(1) all_providers(1) s by (metis card_subset_eq distinct_card finite_set)
  ultimately show ?thesis using all_providers(2) by simp
qed

definition demo_roster_request :: web_request where
  "demo_roster_request = \<lparr>rq_header = (\<lambda>h. None), rq_json = Inr (roster_body [''openai'', ''groq''])\<rparr>"

lemma roster_synced_witness:
  "set (providerRoster (snd (post_roster demo_roster_request d))) = {''openai'', ''groq''}"
proof -
  have s: "set [''openai'', ''groq''] \<subseteq> range provider_name"
    by (auto intro: range_eqI [of _ _ Openai] range_eqI [of _ _ Groq])
  have d: "distinct [''openai'', ''groq'']" by simp
  have "rq_json demo_roster_request = Inr (roster_body [''openai'', ''groq''])" by (simp add: demo_roster_request_def)
  from roster_synced [OF d s this, of d]
  have "set (providerRoster (snd (post_roster demo_roster_request d))) = set [''openai'', ''groq'']" by blast
  then show ?thesis by simp
qed

text \<open>A file that is modified after an event without its new content is shown with the placeholder as its old content.\<close>

lemma modified_twice:
  "map_option fs_before (dget (collectFiles [e, f]) p) = Some not_in_ledger"
  if "nonempty_text (se_payload e ''path'') = Some p" "nonempty_text (se_payload f ''path'') = Some p"
    "se_is e ''file_modified''" "se_is f ''file_modified''" "se_payload e ''after'' = JUndef" "se_payload f ''before'' = JUndef"
  using that by (auto simp: collectFiles_def file_step_def text_else_def se_is_def dict.get_put)

end
