(* ===== verification/Ledger_Watcher.thy ===== *)
theory Ledger_Watcher
  imports "HOL-Library.Sublist" Js_Value File_Tail
begin

text \<open>
  \<open>packages/tui/lib\<close>: the parser of events (\<open>event-parser.ts\<close>), the watcher that tails the ledgers of a directory
  (\<open>ledger-watcher.ts\<close>) and the runs that it collects (\<open>run-manager.ts\<close>). The watcher is a state with the
  segments of its methods between two awaits as steps; what \<open>stat\<close>, the directory and the streams answer is in
  the events. Files hold one byte per character; times are numbers.
\<close>

section \<open>The parser\<close>

definition KNOWN_EVENT_TYPES :: "string list" where
  "KNOWN_EVENT_TYPES = [''auto_command_started'', ''auto_command_failed'', ''decomposition_completed'', ''auto_command_completed'',
     ''role_assignment'', ''provider_selected'', ''provider_fallback'', ''fallback_succeeded'', ''task_exhausted'', ''task_scheduled'',
     ''task_completed'', ''task_failed'', ''worktree_created'', ''worktree_creation_failed'', ''worktree_destroyed'',
     ''consolidation_started'', ''branch_created'', ''branch_creation_failed'', ''merge_conflict'', ''worktree_merged'',
     ''consolidation_completed'', ''lint_applied'', ''github_pr_created'', ''github_pr_skipped'', ''github_pr_error'',
     ''summary_generated'', ''fallback_cooldown'', ''cooldown_expired'']"

fun is_text :: "json \<Rightarrow> bool" where
  "is_text (JStr s) = True"
| "is_text v = False"

fun is_plain_object :: "json \<Rightarrow> bool" where
  "is_plain_object (JObj kvs) = True"
| "is_plain_object v = False"

definition isValidEventLog :: "json \<Rightarrow> bool" where
  "isValidEventLog v \<longleftrightarrow> is_text (opt_get v ''id'') \<and> is_text (opt_get v ''timestamp'') \<and> is_text (opt_get v ''type'') \<and>
     opt_get v ''severity'' \<in> {JStr ''info'', JStr ''warning'', JStr ''error''} \<and> is_plain_object (opt_get v ''payload'') \<and>
     (opt_get v ''taskId'' = JUndef \<or> is_text (opt_get v ''taskId'')) \<and>
     (opt_get v ''metadata'' = JUndef \<or> is_plain_object (opt_get v ''metadata''))"

record EventParser =
  malformedLines :: nat
  unknownEventTypes :: nat

record ParseResult =
  pr_event :: "json option"
  pr_malformed :: bool
  pr_unknownType :: bool

definition malformed :: "EventParser \<Rightarrow> ParseResult \<times> EventParser" where
  "malformed p = (\<lparr>pr_event = None, pr_malformed = True, pr_unknownType = False\<rparr>, p\<lparr>malformedLines := malformedLines p + 1\<rparr>)"

definition parseLine :: "string \<Rightarrow> EventParser \<Rightarrow> ParseResult \<times> EventParser" where
  "parseLine l p =
    (if trim l = [] then malformed p
     else case json_parse l of None \<Rightarrow> malformed p
       | Some v \<Rightarrow>
         if \<not> isValidEventLog v then malformed p
         else if opt_get v ''type'' \<notin> JStr ` set KNOWN_EVENT_TYPES then
           (\<lparr>pr_event = Some v, pr_malformed = False, pr_unknownType = True\<rparr>, p\<lparr>unknownEventTypes := unknownEventTypes p + 1\<rparr>)
         else (\<lparr>pr_event = Some v, pr_malformed = False, pr_unknownType = False\<rparr>, p))"

fun parse_events :: "string list \<Rightarrow> EventParser \<Rightarrow> json list \<times> EventParser" where
  "parse_events [] p = ([], p)"
| "parse_events (l # ls) p = (let (r, p1) = parseLine l p; (es, p2) = parse_events ls p1 in
     (case pr_event r of None \<Rightarrow> es | Some e \<Rightarrow> e # es, p2))"

section \<open>The watcher\<close>

text \<open>A read that waits for its \<open>stat\<close> is \<open>None\<close>; one that streams has its start with the size and the time that \<open>stat\<close> gave.\<close>

record watcher =
  lw_dir :: string
  lw_files :: "(string, nat \<times> int) dict"
  lw_pending :: "(string, (nat \<times> nat \<times> int) option) dict"
  lw_parser :: EventParser
  lw_watching :: bool
  lw_polling :: bool
  lw_closed :: bool
  lw_events :: "(string \<times> json list) list"
  lw_errors :: "string list"
  lw_added :: "string list"

definition new_watcher :: "string \<Rightarrow> watcher" where
  "new_watcher d = \<lparr>lw_dir = d, lw_files = [], lw_pending = [], lw_parser = \<lparr>malformedLines = 0, unknownEventTypes = 0\<rparr>, lw_watching = False,
     lw_polling = False, lw_closed = False, lw_events = [], lw_errors = [], lw_added = []\<rparr>"

definition emitError :: "string \<Rightarrow> watcher \<Rightarrow> watcher" where
  "emitError e s = s\<lparr>lw_errors := lw_errors s @ [e]\<rparr>"

definition switchToPolling :: "watcher \<Rightarrow> watcher" where
  "switchToPolling s = (if lw_polling s \<or> lw_closed s then s else s\<lparr>lw_polling := True, lw_watching := False\<rparr>)"

text \<open>\<open>read\<close>: a file that is being read is not read a second time.\<close>

definition lw_read :: "string \<Rightarrow> watcher \<Rightarrow> watcher" where
  "lw_read p s = (if dhas (lw_pending s) p then s else s\<lparr>lw_pending := dset p None (lw_pending s)\<rparr>)"

definition lw_done :: "string \<Rightarrow> watcher \<Rightarrow> watcher" where
  "lw_done p s = s\<lparr>lw_pending := ddelete p (lw_pending s)\<rparr>"

definition lw_stat :: "string \<Rightarrow> string + nat \<times> int \<Rightarrow> watcher \<Rightarrow> watcher" where
  "lw_stat p r s = (case dget (lw_pending s) p of
     Some None \<Rightarrow>
       (case r of Inl e \<Rightarrow> emitError e (lw_done p s)
        | Inr (n, m) \<Rightarrow>
          let start = (case dget (lw_files s) p of None \<Rightarrow> 0 | Some (k, _) \<Rightarrow> k) in
          if n < start then s\<lparr>lw_files := dset p (0, m) (lw_files s)\<rparr>
          else if n = start then lw_done p (s\<lparr>lw_files := dset p (n, m) (lw_files s)\<rparr>)
          else s\<lparr>lw_pending := dset p (Some (start, n, m)) (lw_pending s)\<rparr>)
   | _ \<Rightarrow> s)"

definition lw_stream :: "string \<Rightarrow> string + string \<Rightarrow> watcher \<Rightarrow> watcher" where
  "lw_stream p r s = (case dget (lw_pending s) p of
     Some (Some (start, n, m)) \<Rightarrow>
       (case r of Inl e \<Rightarrow> emitError e (lw_done p s)
        | Inr c \<Rightarrow>
          let (es, pa) = parse_events (readline_lines (drop start c)) (lw_parser s) in
          (lw_done p s)\<lparr>lw_parser := pa, lw_events := (if es = [] then lw_events s else lw_events s @ [(p, es)]),
             lw_files := dset p (n, m) (lw_files s)\<rparr>)
   | _ \<Rightarrow> s)"

definition lw_path :: "watcher \<Rightarrow> string \<Rightarrow> string" where
  "lw_path s name = lw_dir s @ ''/'' @ name"

text \<open>One entry of a scan; the read that it starts runs in its own steps.\<close>

definition scan_entry :: "string \<Rightarrow> string + nat \<times> int \<Rightarrow> watcher \<Rightarrow> watcher" where
  "scan_entry name r s = (let p = lw_path s name in
     case r of Inl e \<Rightarrow> emitError e s
     | Inr (n, m) \<Rightarrow> (case dget (lw_files s) p of
         None \<Rightarrow> lw_read p (s\<lparr>lw_added := lw_added s @ [p]\<rparr>)
       | Some (k, m0) \<Rightarrow> if m0 < m \<or> k < n then lw_read p s else s))"

definition file_name :: "string \<Rightarrow> string" where
  "file_name p = rev (takeWhile (\<lambda>c. c \<noteq> CHR ''/'' \<and> c \<noteq> backslash) (rev p))"

definition scan_removed :: "string list \<Rightarrow> watcher \<Rightarrow> watcher" where
  "scan_removed entries s = foldl (\<lambda>s p. if file_name p \<in> set entries then s
       else (emitError (''File removed: '' @ p) s)\<lparr>lw_files := ddelete p (lw_files s)\<rparr>) s (dkeys (lw_files s))"

text \<open>
  \<open>Lw_start\<close> is the end of \<open>start\<close>, when \<open>watch\<close> throws or not; \<open>Lw_change\<close> a call of the watcher's callback.\<close>

datatype lw_event = Lw_start "string option" | Lw_change "string option" | Lw_fails string | Lw_stat string "string + nat \<times> int"
  | Lw_stream string "string + string" | Lw_no_dir string | Lw_entry string "string + nat \<times> int" | Lw_removed "string list" | Lw_close

fun lw_step :: "lw_event \<Rightarrow> watcher \<Rightarrow> watcher" where
  "lw_step (Lw_start None) s = s\<lparr>lw_watching := True\<rparr>"
| "lw_step (Lw_start (Some e)) s = switchToPolling (emitError e s)"
| "lw_step (Lw_change name) s = (case name of
     Some (c # cs) \<Rightarrow> if \<not> lw_closed s \<and> ends_with (c # cs) ''.jsonl'' then lw_read (lw_path s (c # cs)) s else s
   | _ \<Rightarrow> s)"
| "lw_step (Lw_fails e) s = (if lw_closed s then s else switchToPolling (emitError e s))"
| "lw_step (Lw_stat p r) s = lw_stat p r s"
| "lw_step (Lw_stream p r) s = lw_stream p r s"
| "lw_step (Lw_no_dir e) s = emitError e s"
| "lw_step (Lw_entry name r) s = (if ends_with name ''.jsonl'' then scan_entry name r s else s)"
| "lw_step (Lw_removed entries) s = scan_removed entries s"
| "lw_step Lw_close s = s\<lparr>lw_closed := True, lw_watching := False, lw_polling := False\<rparr>"

definition lw_run :: "lw_event list \<Rightarrow> watcher \<Rightarrow> watcher" where
  "lw_run es s = foldl (\<lambda>s e. lw_step e s) s es"

section \<open>The runs\<close>

record tui_run =
  ru_id :: string
  ru_startedAt :: string
  ru_endedAt :: "string option"
  ru_events :: "json list"

definition runIdFromPath :: "string \<Rightarrow> string" where
  "runIdFromPath p = (let b = file_name p in if ends_with b ''.jsonl'' then take (length b - 6) b else b)"

definition event_time_of :: "json \<Rightarrow> string" where
  "event_time_of e = (case opt_get e ''timestamp'' of JStr t \<Rightarrow> t | _ \<Rightarrow> [])"

definition handleFileAdded :: "string \<Rightarrow> string \<Rightarrow> (string, tui_run) dict \<Rightarrow> (string, tui_run) dict" where
  "handleFileAdded now p runs = (let i = runIdFromPath p in
     if dhas runs i then runs else dset i \<lparr>ru_id = i, ru_startedAt = now, ru_endedAt = None, ru_events = []\<rparr> runs)"

definition terminalTypes :: "string list" where
  "terminalTypes = [''auto_command_completed'', ''auto_command_failed'', ''task_exhausted'']"

definition end_event :: "string option \<Rightarrow> json \<Rightarrow> string option" where
  "end_event x e = (if opt_get e ''type'' \<in> JStr ` set terminalTypes then Some (event_time_of e) else x)"

definition handleEvents :: "string \<Rightarrow> string \<Rightarrow> json list \<Rightarrow> (string, tui_run) dict \<Rightarrow> (string, tui_run) dict" where
  "handleEvents now p es runs =
    (let i = runIdFromPath p;
         run = (case dget runs i of Some r \<Rightarrow> r
           | None \<Rightarrow> \<lparr>ru_id = i, ru_startedAt = (if es = [] then now else event_time_of (hd es)), ru_endedAt = None, ru_events = []\<rparr>);
         started = (if es \<noteq> [] \<and> ru_events run = [] then event_time_of (hd es) else ru_startedAt run);
         ended = foldl end_event (ru_endedAt run) es;
         ended = (if (ended = None \<or> ended = Some []) \<and> es \<noteq> [] then Some (event_time_of (last es)) else ended)
     in dset i (run\<lparr>ru_startedAt := started, ru_events := ru_events run @ es, ru_endedAt := ended\<rparr>) runs)"

definition getRuns :: "(string \<Rightarrow> int) \<Rightarrow> (string, tui_run) dict \<Rightarrow> tui_run list" where
  "getRuns time runs = sort_key (\<lambda>r. time (ru_startedAt r)) (map snd runs)"

definition getRunById :: "string \<Rightarrow> (string, tui_run) dict \<Rightarrow> tui_run option" where
  "getRunById i runs = dget runs i"

text \<open>Whether the observer of the counters is called, and the counters it saw last.\<close>

definition emitCountersIfChanged :: "EventParser \<Rightarrow> EventParser \<Rightarrow> bool \<times> EventParser" where
  "emitCountersIfChanged seen now =
     (if malformedLines now \<noteq> malformedLines seen \<or> unknownEventTypes now \<noteq> unknownEventTypes seen then (True, now) else (False, seen))"

section \<open>What the parser accepts\<close>

definition accepts :: "string \<Rightarrow> json option" where
  "accepts l = (if trim l = [] then None else case json_parse l of None \<Rightarrow> None | Some v \<Rightarrow> if isValidEventLog v then Some v else None)"

lemma parseLine_event: "pr_event (fst (parseLine l p)) = accepts l"
  "malformedLines (snd (parseLine l p)) = malformedLines p + (if accepts l = None then 1 else 0)"
  by (simp_all add: parseLine_def accepts_def malformed_def split: option.splits)

lemma parse_events_spec:
  "fst (parse_events ls p) = List.map_filter accepts ls \<and>
   malformedLines (snd (parse_events ls p)) = malformedLines p + length (filter (\<lambda>l. accepts l = None) ls)"
proof (induction ls arbitrary: p)
  case (Cons l ls)
  obtain r q where r: "parseLine l p = (r, q)" by fastforce
  obtain es q2 where e: "parse_events ls q = (es, q2)" by fastforce
  show ?case using Cons.IH [of q] parseLine_event [of l p] r e
    by (auto simp: map_filter_simps split: option.splits)
qed (simp add: map_filter_simps)

section \<open>One read after the other\<close>

definition delivered :: "string \<Rightarrow> watcher \<Rightarrow> json list" where
  "delivered p s = concat (map snd (filter (\<lambda>e. fst e = p) (lw_events s)))"

text \<open>The watcher reports a change, and the read that follows finds the content \<open>c\<close>.\<close>

fun lw_cycle :: "string \<Rightarrow> string \<Rightarrow> int \<times> string \<Rightarrow> lw_event list" where
  "lw_cycle d name (m, c) = [Lw_change (Some name), Lw_stat (d @ ''/'' @ name) (Inr (length c, m)), Lw_stream (d @ ''/'' @ name) (Inr c)]"

definition read_to :: "string \<Rightarrow> string \<Rightarrow> nat \<Rightarrow> watcher \<Rightarrow> bool" where
  "read_to d p k s \<longleftrightarrow> lw_dir s = d \<and> \<not> lw_closed s \<and> dget (lw_pending s) p = None \<and>
     (case dget (lw_files s) p of None \<Rightarrow> k = 0 | Some (n, m) \<Rightarrow> n = k)"

lemma jsonl_name: "ends_with name ''.jsonl'' \<Longrightarrow> \<exists>c cs. name = c # cs"
  by (cases name) (simp_all add: ends_with_def)

lemma cycle_step:
  fixes m :: int
  assumes "read_to d (d @ ''/'' @ name) (length c) s" "prefix c c'" "ends_with name ''.jsonl''"
  defines "t \<equiv> lw_run (lw_cycle d name (m, c')) s"
  shows "read_to d (d @ ''/'' @ name) (length c') t"
    and "delivered (d @ ''/'' @ name) t = delivered (d @ ''/'' @ name) s @ List.map_filter accepts (readline_lines (drop (length c) c'))"
    and "malformedLines (lw_parser t) = malformedLines (lw_parser s) + length (filter (\<lambda>l. accepts l = None) (readline_lines (drop (length c) c')))"
proof -
  let ?p = "d @ ''/'' @ name"
  obtain x xs where n: "name = x # xs" using jsonl_name [OF assms(3)] by blast
  let ?s1 = "s\<lparr>lw_pending := dset ?p None (lw_pending s)\<rparr>"
  have s1: "lw_step (Lw_change (Some name)) s = ?s1"
    using assms(1,3) by (simp add: n read_to_def lw_read_def lw_path_def dhas_def)
  have t: "t = lw_stream ?p (Inr c') (lw_stat ?p (Inr (length c', m)) ?s1)"
    unfolding t_def by (simp only: lw_run_def lw_cycle.simps foldl.simps s1 lw_step.simps(5,6))
  have k: "(case dget (lw_files s) ?p of None \<Rightarrow> 0 | Some (k, _) \<Rightarrow> k) = length c"
    using assms(1) by (auto simp: read_to_def split: option.splits)
  have le: "length c \<le> length c'" using assms(2) by (simp add: prefix_length_le)
  have "read_to d ?p (length c') t \<and>
     delivered ?p t = delivered ?p s @ List.map_filter accepts (readline_lines (drop (length c) c')) \<and>
     malformedLines (lw_parser t) = malformedLines (lw_parser s) + length (filter (\<lambda>l. accepts l = None) (readline_lines (drop (length c) c')))"
  proof (cases "length c' = length c")
    case True
    then have "t = lw_done ?p (?s1\<lparr>lw_files := dset ?p (length c', m) (lw_files s)\<rparr>)"
      using k unfolding t by (simp add: lw_stat_def lw_stream_def lw_done_def dict.get_remove)
    moreover have "readline_lines (drop (length c) c') = []" using True by (simp add: readline_lines_def)
    ultimately show ?thesis using assms(1)
      by (simp add: read_to_def lw_done_def delivered_def dict.get_remove map_filter_simps)
  next
    case False
    obtain es pa where e: "parse_events (readline_lines (drop (length c) c')) (lw_parser s) = (es, pa)" by fastforce
    have "lw_stat ?p (Inr (length c', m)) ?s1 = s\<lparr>lw_pending := dset ?p (Some (length c, length c', m)) (dset ?p None (lw_pending s))\<rparr>"
      using k False le by (simp add: lw_stat_def)
    then have "t = (lw_done ?p (s\<lparr>lw_pending := dset ?p (Some (length c, length c', m)) (dset ?p None (lw_pending s))\<rparr>))
        \<lparr>lw_parser := pa, lw_events := (if es = [] then lw_events s else lw_events s @ [(?p, es)]), lw_files := dset ?p (length c', m) (lw_files s)\<rparr>"
      using e unfolding t by (simp add: lw_stream_def lw_done_def)
    then show ?thesis using assms(1) e parse_events_spec [of "readline_lines (drop (length c) c')" "lw_parser s"]
      by (simp add: read_to_def lw_done_def delivered_def dict.get_remove)
  qed
  then show "read_to d ?p (length c') t"
    "delivered ?p t = delivered ?p s @ List.map_filter accepts (readline_lines (drop (length c) c'))"
    "malformedLines (lw_parser t) = malformedLines (lw_parser s) + length (filter (\<lambda>l. accepts l = None) (readline_lines (drop (length c) c')))"
    by blast+
qed

declare lw_cycle.simps [simp del]

lemma lw_run_append: "lw_run (xs @ ys) s = lw_run ys (lw_run xs s)"
  by (simp add: lw_run_def)

lemma lw_run_Nil [simp]: "lw_run [] s = s"
  by (simp add: lw_run_def)

definition ended_line :: "string \<Rightarrow> bool" where
  "ended_line c \<longleftrightarrow> c = [] \<or> last c = newline"

lemma cycles:
  assumes "ends_with name ''.jsonl''"
  shows "read_to d (d @ ''/'' @ name) (length c) s \<Longrightarrow> list_all ended_line (c # map snd mcs) \<Longrightarrow> successively prefix (c # map snd mcs) \<Longrightarrow>
    delivered (d @ ''/'' @ name) s = List.map_filter accepts (readline_lines c) \<Longrightarrow>
    read_to d (d @ ''/'' @ name) (length (last (c # map snd mcs))) (lw_run (concat (map (lw_cycle d name) mcs)) s) \<and>
    delivered (d @ ''/'' @ name) (lw_run (concat (map (lw_cycle d name) mcs)) s) =
      List.map_filter accepts (readline_lines (last (c # map snd mcs)))"
proof (induction mcs arbitrary: c s)
  case (Cons mc mcs)
  obtain m c' where mc: "mc = (m, c')" by fastforce
  have p: "prefix c c'" "list_all ended_line (c' # map snd mcs)" "successively prefix (c' # map snd mcs)"
    using Cons.prems(2,3) by (simp_all add: mc)
  obtain x where x: "c' = c @ x" using p(1) by (auto simp: prefix_def)
  have "readline_lines c' = readline_lines c @ readline_lines (drop (length c) c')"
    using readline_append [of c x] Cons.prems(2) by (simp add: x ended_line_def)
  then have d: "delivered (d @ ''/'' @ name) (lw_run (lw_cycle d name (m, c')) s) = List.map_filter accepts (readline_lines c')"
    using cycle_step(2) [OF Cons.prems(1) p(1) assms, of m] Cons.prems(4) by (simp add: map_filter_def)
  have e: "concat (map (lw_cycle d name) (mc # mcs)) = lw_cycle d name (m, c') @ concat (map (lw_cycle d name) mcs)"
    "last (c # map snd (mc # mcs)) = last (c' # map snd mcs)" by (simp_all add: mc)
  show ?case unfolding e lw_run_append by (rule Cons.IH [OF cycle_step(1) [OF Cons.prems(1) p(1) assms] p(2,3) d])
qed simp

lemma new_read_to: "read_to d p 0 (new_watcher d)" "delivered p (new_watcher d) = []" "malformedLines (lw_parser (new_watcher d)) = 0"
  by (simp_all add: read_to_def new_watcher_def delivered_def)

text \<open>The watcher delivers a ledger. When each read that a change starts ends before the next and finds the file at the end of a line, the
  events that the dashboard has received are the valid events of the file's lines, each once and in order.\<close>

theorem watcher_delivers:
  assumes "ends_with name ''.jsonl''" "list_all ended_line (map snd mcs)" "successively prefix (map snd mcs)"
  shows "delivered (d @ ''/'' @ name) (lw_run (concat (map (lw_cycle d name) mcs)) (new_watcher d)) =
    List.map_filter accepts (readline_lines (last ([] # map snd mcs)))"
proof -
  have "successively prefix ([] # map snd mcs)" using assms(3) by (cases mcs) simp_all
  moreover have "List.map_filter accepts (readline_lines []) = []" by (simp add: readline_lines_def map_filter_simps)
  ultimately show ?thesis
    using cycles [OF assms(1), of d "[]" "new_watcher d" mcs] new_read_to(1,2) assms(2) by (simp add: ended_line_def)
qed

text \<open>A line that is read in two pieces is lost. The watcher goes on from the size that it has read to, wherever in a line that is: when a
  read comes between the two halves of a line, and neither half is a JSON text, both count as malformed and the event is never delivered,
  also though the whole line is a valid event.\<close>

theorem split_line_lost:
  assumes "ends_with name ''.jsonl''" "ended_line c" "newline \<notin> set (t1 @ t2)" "t1 \<noteq> []" "t2 \<noteq> []" "json_parse t1 = None" "json_parse t2 = None"
  shows "let s = lw_run (concat (map (lw_cycle d name) [(m1, c), (m2, c @ t1), (m3, c @ t1 @ t2 @ [newline])])) (new_watcher d) in
    delivered (d @ ''/'' @ name) s = List.map_filter accepts (readline_lines c) \<and> 2 \<le> malformedLines (lw_parser s)"
proof -
  let ?p = "d @ ''/'' @ name"
  let ?s1 = "lw_run (lw_cycle d name (m1, c)) (new_watcher d)"
  let ?s2 = "lw_run (lw_cycle d name (m2, c @ t1)) ?s1"
  let ?s = "lw_run (concat (map (lw_cycle d name) [(m1, c), (m2, c @ t1), (m3, c @ t1 @ t2 @ [newline])])) (new_watcher d)"
  have s: "?s = lw_run (lw_cycle d name (m3, c @ t1 @ t2 @ [newline])) ?s2" by (simp add: lw_run_append [symmetric])
  have a: "accepts t1 = None" "accepts t2 = None" using assms(6,7) by (simp_all add: accepts_def)
  have l: "readline_lines t1 = [t1]" "readline_lines (t2 @ [newline]) = [t2]" using assms(3,4) by (simp_all add: readline_piece)
  have "read_to d ?p (length []) (new_watcher d)" using new_read_to by simp
  note 1 = cycle_step [OF this Nil_prefix assms(1), where m = m1 and c' = c]
  have "prefix c (c @ t1)" by simp
  note 2 = cycle_step [OF 1(1) this assms(1), where m = m2]
  have "prefix (c @ t1) (c @ t1 @ t2 @ [newline])" by (simp add: prefix_def)
  note 3 = cycle_step [OF 2(1) this assms(1), where m = m3]
  show ?thesis unfolding Let_def s using 1(2,3) 2(2,3) 3(2,3) a l new_read_to(2) [of ?p d] by (simp add: map_filter_def)
qed

lemma watcher_delivers_witness:
  "\<exists>c. delivered ''d/a.jsonl'' (lw_run (concat (map (lw_cycle ''d'' ''a.jsonl'') [(1, c), (2, c @ c)])) (new_watcher ''d'')) =
     List.map_filter accepts (readline_lines (c @ c)) \<and> length (List.map_filter accepts (readline_lines (c @ c))) = 2"
proof -
  define v where "v = JObj [(''id'', JStr ''i''), (''timestamp'', JStr ''t''), (''type'', JStr ''x''), (''severity'', JStr ''info''), (''payload'', JObj [])]"
  let ?l = "stringify v"
  have w: "wf_json v" "v \<noteq> JUndef" "reparsed v = v" "isValidEventLog v" by (simp_all add: v_def isValidEventLog_def dget_Cons)
  have p: "json_parse ?l = Some v" using json_roundtrip [OF w(1,2)] w(3) by simp
  have "\<not> is_space (CHR ''{'')" by code_simp
  then have "trim ?l \<noteq> []" by (auto simp: v_def trim_def dropWhile_eq_Nil_conv)
  then have a: "accepts ?l = Some v" using p w(4) by (simp add: accepts_def)
  have n: "newline \<notin> set ?l" by (rule stringify_no_newline [OF w(1)])
  let ?c = "?l @ [newline]"
  have e: "ended_line ?c" "ended_line (?c @ ?c)" by (simp_all add: ended_line_def)
  have r: "readline_lines (?c @ ?c) = [?l, ?l]"
    using readline_append [of ?c ?c] readline_piece(2) [OF n] by simp
  then have "length (List.map_filter accepts (readline_lines (?c @ ?c))) = 2" using a by (simp add: map_filter_def)
  moreover have "ends_with ''a.jsonl'' ''.jsonl''" by code_simp
  ultimately show ?thesis
    using watcher_delivers [of "''a.jsonl''" "[(1, ?c), (2, ?c @ ?c)]" "''d''"] e by (intro exI [of _ ?c]) simp
qed

lemma split_line_lost_witness:
  "2 \<le> malformedLines (lw_parser (lw_run (concat (map (lw_cycle ''d'' ''a.jsonl'')
     [(1, []), (2, [] @ ''[1''), (3, [] @ ''[1'' @ '',2]'' @ [newline])])) (new_watcher ''d'')))"
proof -
  have "ends_with ''a.jsonl'' ''.jsonl''" "json_parse ''[1'' = None" "json_parse '',2]'' = None" "newline \<notin> set (''[1'' @ '',2]'')" by code_simp+
  then show ?thesis
    using split_line_lost [of "''a.jsonl''" "[]" "''[1''" "'',2]''" "''d''" 1 2 3] unfolding ended_line_def Let_def by simp
qed

section \<open>Ledgers are readable\<close>

text \<open>A call whose payload and metadata have the types of the interface, and a file of lines that the parser takes.\<close>

fun typed_op :: "ledger_op \<Rightarrow> bool" where
  "typed_op (OpLog io typ payload severity taskId metadata) \<longleftrightarrow>
     is_plain_object payload \<and> (metadata = JUndef \<or> is_plain_object metadata)"
| "typed_op (OpRestart rid) \<longleftrightarrow> True"

definition typed_file :: "text_file \<Rightarrow> bool" where
  "typed_file f \<longleftrightarrow> ended_line (content f) \<and> list_all (\<lambda>l. accepts l \<noteq> None) (lines (content f))"

lemma is_plain_object_iff: "is_plain_object v \<longleftrightarrow> (\<exists>kvs. v = JObj kvs)"
  by (cases v) simp_all

lemma severity_text: "severity_name s \<in> {''info'', ''warning'', ''error''}"
  by (cases s) simp_all

lemma sealed_accepted:
  assumes "sealable ev" "isValidEventLog (reparsed (seal ev q h))"
  shows "accepts (stringify (seal ev q h)) \<noteq> None"
proof -
  obtain cs where "stringify (seal ev q h) = CHR ''{'' # cs" using assms(1) by (auto simp: sealable_def)
  moreover have "\<not> is_space (CHR ''{'')" by code_simp
  ultimately have "trim (stringify (seal ev q h)) \<noteq> []" by (auto simp: trim_def dropWhile_eq_Nil_conv)
  then show ?thesis using seal_parse(1) [OF assms(1)] assms(2) by (simp add: accepts_def)
qed

lemma valid_event:
  assumes "is_plain_object payload" "metadata = JUndef \<or> is_plain_object metadata"
  shows "isValidEventLog (reparsed (seal (event_json i t ty sev tid payload metadata) q h))"
  using assms severity_text [of sev]
  by (cases tid) (auto simp: is_plain_object_iff event_json_def isValidEventLog_def opt_str_def dget_Cons)

lemma valid_genesis: "isValidEventLog (reparsed (seal (genesis_json i t rid) q h))"
  by (simp add: genesis_json_def isValidEventLog_def dget_Cons LEDGER_VERSION_def)

lemma typed_append:
  assumes "typed_file f" "brk \<in> {None, Some 0}" "sealable ev" "isValidEventLog (reparsed (seal ev q h))"
    and "append_file brk (stringify (seal ev q h) @ [newline]) f = (b, f')"
  shows "typed_file f'"
proof (cases "f' = f")
  case False
  then have c: "content f' = content f @ stringify (seal ev q h) @ [newline]"
    using assms(2,5) by (auto simp: append_file_def content_def)
  have "lines (content f') = lines (content f) @ [stringify (seal ev q h)]"
    unfolding c using assms(1) seal_text [OF assms(3)] by (intro lines_snoc) (auto simp: typed_file_def ended_line_def)
  then show ?thesis using assms(1) sealed_accepted [OF assms(3,4)] c by (simp add: typed_file_def ended_line_def)
qed (use assms(1) in simp)

lemma typed_init:
  assumes "typed_file f" "genesis_cut io \<in> {None, Some 0}" "ledger_init H io led f = (r, led1, f1)"
  shows "typed_file f1"
proof (cases "f1 = f")
  case False
  then obtain b where "append_file (genesis_cut io) (stringify (seal (genesis_json (genesis_id io) (genesis_time io) (runId led)) GENESIS_PREV_HASH
      (hashEvent H GENESIS_PREV_HASH (genesis_json (genesis_id io) (genesis_time io) (runId led)))) @ [newline]) f = (b, f1)"
    using assms(3) by (auto simp: ledger_init_def writeGenesis_def Let_def split: InitPromise.splits if_splits prod.splits)
  from typed_append [OF assms(1,2) sealable_genesis valid_genesis this] show ?thesis .
qed (use assms(1) in simp)

lemma typed_log:
  assumes "typed_file f" "clean_op (OpLog io typ payload severity taskId metadata)" "typed_op (OpLog io typ payload severity taskId metadata)"
    and "ledger_log H io typ payload severity taskId metadata led f = (r, led', f')"
  shows "typed_file f'"
proof -
  let ?ev = "event_json (event_id io) (event_time io) typ severity taskId payload metadata"
  obtain ready led1 f1 where i: "ledger_init H io led f = (ready, led1, f1)" by (metis prod_cases3)
  have f1: "typed_file f1" using typed_init [OF assms(1) _ i] assms(2) by simp
  have e: "sealable ?ev" "isValidEventLog (reparsed (seal ?ev q h))" for q h
    using assms(2,3) by (simp_all add: valid_event)
  have "f' = f \<or> f' = f1 \<or> (\<exists>b q h. append_file (event_cut io) (stringify (seal ?ev q h) @ [newline]) f1 = (b, f'))"
    using assms(4) i by (auto simp: ledger_log_def Let_def split: if_splits prod.splits)
  then show ?thesis using assms(1) f1 typed_append [OF f1 _ e] assms(2) by fastforce
qed

interpretation typed_ledger: invariant_machine "\<lambda>s. \<exists>rid. s = (new_ledger rid, None, 0)"
    "\<lambda>s t. \<exists>op. clean_op op \<and> typed_op op \<and> t = ledger_step H op s" "\<lambda>s. typed_file (fst (snd s))" for H
proof
  show "\<exists>rid. s = (new_ledger rid, None, 0) \<Longrightarrow> typed_file (fst (snd s))" for s :: ledger_state
    by (auto simp: typed_file_def ended_line_def content_def)
  show "\<exists>op. clean_op op \<and> typed_op op \<and> t = ledger_step H op s \<Longrightarrow> typed_file (fst (snd s)) \<Longrightarrow> typed_file (fst (snd t))" for s t
  proof -
    assume "\<exists>op. clean_op op \<and> typed_op op \<and> t = ledger_step H op s" and f: "typed_file (fst (snd s))"
    then obtain op where op: "clean_op op" "typed_op op" "t = ledger_step H op s" by blast
    obtain led g n where s: "s = (led, g, n)" by (metis prod_cases3)
    show "typed_file (fst (snd t))"
    proof (cases op)
      case (OpLog io ty payload severity taskId metadata)
      obtain r led' g' where l: "ledger_log H io ty payload severity taskId metadata led g = (r, led', g')" by (metis prod_cases3)
      have "typed_file g" using f s by simp
      from typed_log [OF this op(1,2) [unfolded OpLog] l] show ?thesis by (simp add: op(3) OpLog s l)
    next
      case (OpRestart rid)
      then show ?thesis using f by (simp add: op(3) s)
    qed
  qed
qed

lemma typed_run: "list_all clean_op ops \<Longrightarrow> list_all typed_op ops \<Longrightarrow>
    rtranclp (\<lambda>s t. \<exists>op. clean_op op \<and> typed_op op \<and> t = ledger_step H op s) s (ledger_run H ops s)"
proof (induction ops rule: rev_induct)
  case (snoc op ops)
  then show ?case by (auto simp: ledger_run_def intro: rtranclp.rtrancl_into_rtrancl)
qed (simp add: ledger_run_def)

text \<open>C10.
  A ledger is well typed for the dashboard. After any history of clean calls with payloads and metadata of their types,
  failures and restarts, the parser of the dashboard takes every line of the file for an event: one for the genesis and one for each
  fulfilled call, and none counts as malformed.\<close>

theorem ledger_lines_typed:
  assumes "\<forall>x. H x \<noteq> []" "list_all clean_op ops" "list_all typed_op ops"
    and "ledger_run H ops (new_ledger rid, None, 0) = (led, Some s, n)" "s \<noteq> []"
  shows "length (fst (parse_events (lines s) pa)) = n + 1 \<and>
    malformedLines (snd (parse_events (lines s) pa)) = malformedLines pa \<and> list_all isValidEventLog (fst (parse_events (lines s) pa))"
proof -
  have "ledger_inv H (led, Some s, n)"
    using ledger.inv_reachable [OF _ ledger_run_steps [OF assms(1,2)]] assms(4) by metis
  then have n: "length (lines s) = n + 1" using assms(5) by (auto simp: content_def)
  have "typed_file (fst (snd (ledger_run H ops (new_ledger rid, None, 0))))"
    by (rule typed_ledger.inv_reachable [OF _ typed_run [OF assms(2,3)]]) blast
  then have t: "list_all (\<lambda>l. accepts l \<noteq> None) (lines s)" by (simp add: assms(4) typed_file_def content_def)
  then have "filter (\<lambda>l. accepts l = None) (lines s) = []" "filter (\<lambda>l. accepts l \<noteq> None) (lines s) = lines s"
    by (auto simp: list_all_iff filter_empty_conv)
  moreover have v: "list_all isValidEventLog (List.map_filter accepts ls)" for ls
    by (induction ls) (auto simp: map_filter_simps accepts_def split: option.splits)
  have "list_all isValidEventLog (fst (parse_events (lines s) pa))" using v parse_events_spec by simp
  ultimately show ?thesis using parse_events_spec [of "lines s" pa] n by (simp add: map_filter_def)
qed

lemma ledger_lines_typed_witness:
  "\<exists>led s. ledger_run demo_digest demo_ops (new_ledger ''r1'', None, 0) = (led, Some s, 2) \<and>
     malformedLines (snd (parse_events (lines s) \<lparr>malformedLines = 0, unknownEventTypes = 0\<rparr>)) = 0"
proof -
  have c: "list_all clean_op demo_ops" "list_all typed_op demo_ops" by (simp_all add: demo_ops_def demo_io_def)
  have h: "\<forall>x. demo_digest x \<noteq> []" using length_demo_digest by (metis list.size(3) zero_neq_numeral)
  have "(case ledger_run demo_digest demo_ops (new_ledger ''r1'', None, 0) of
      (led, Some s, n) \<Rightarrow> s \<noteq> [] \<and> n = 2 | _ \<Rightarrow> False)"
    by code_simp
  then obtain led s where l: "ledger_run demo_digest demo_ops (new_ledger ''r1'', None, 0) = (led, Some s, 2)" "s \<noteq> []"
    by (auto split: prod.splits option.splits)
  from ledger_lines_typed [OF h c l, of "\<lparr>malformedLines = 0, unknownEventTypes = 0\<rparr>"] l(1) show ?thesis by simp
qed

section \<open>The end of a run\<close>

lemma end_event_none: "list_all (\<lambda>e. opt_get e ''type'' \<notin> JStr ` set terminalTypes) es \<Longrightarrow> foldl end_event x es = x"
  by (induction es) (auto simp: end_event_def)

text \<open>
  The end of a run that has no terminal event should follow its last event; it stays at the last event of the first
  batch.\<close>

lemma end_stays:
  assumes "es \<noteq> []" "es' \<noteq> []" "event_time_of (last es) \<noteq> []"
    and "list_all (\<lambda>e. opt_get e ''type'' \<notin> JStr ` set terminalTypes) (es @ es')"
  shows "map_option ru_endedAt (dget (handleEvents now p es' (handleEvents now p es [])) (runIdFromPath p)) = Some (Some (event_time_of (last es)))"
  using assms end_event_none [of es] end_event_none [of es'] by (simp add: handleEvents_def Let_def)

end
