(* ===== verification/Dashboard_Views.thy ===== *)
theory Dashboard_Views
  imports Ledger_Watcher Core_Types
begin

text \<open>
  What the terminal dashboard shows: the state of \<open>packages/tui/hooks/useDashboard.tsx\<close>, the views that the hooks and
  components compute from the events of a run, and the keys of \<open>DashboardApp.tsx\<close>. An event is a JSON value that the
  parser has accepted, so that its payload and its metadata, when there is one, are objects; a field of a type other than
  its declared one is outside the model. Amounts are binary64 numbers, times of dates are parameters; the
  rendering of the components is left out.
\<close>

section \<open>Fields of an event\<close>

definition ev_is :: "json \<Rightarrow> string \<Rightarrow> bool" where
  "ev_is e t \<longleftrightarrow> opt_get e ''type'' = JStr t"

definition ne_text :: "json \<Rightarrow> string option" where
  "ne_text v = (case v of JStr (c # cs) \<Rightarrow> Some (c # cs) | _ \<Rightarrow> None)"

definition ev_task :: "json \<Rightarrow> string option" where
  "ev_task e = ne_text (opt_get e ''taskId'')"

definition ev_meta :: "json \<Rightarrow> string \<Rightarrow> json" where
  "ev_meta e k = opt_get (opt_get e ''metadata'') k"

definition ev_payload :: "json \<Rightarrow> string \<Rightarrow> json" where
  "ev_payload e k = opt_get (opt_get e ''payload'') k"

definition ev_provider :: "json \<Rightarrow> string option" where
  "ev_provider e = ne_text (ev_meta e ''provider'')"

definition amount :: "json \<Rightarrow> rat" where
  "amount v = (case v of JNum t \<Rightarrow> number_value t | _ \<Rightarrow> 0)"

section \<open>The state of the dashboard\<close>

record dashboard_state =
  ds_runs :: "tui_run list"
  ds_active :: nat

datatype dashboard_action = Set_runs "tui_run list" | Set_active_run nat | Add_run tui_run | Append_events string "json list"

definition append_to_run :: "string \<Rightarrow> json list \<Rightarrow> tui_run \<Rightarrow> tui_run" where
  "append_to_run i es r = (if ru_id r = i then r\<lparr>ru_events := ru_events r @ es\<rparr> else r)"

text \<open>\<open>APPEND_EVENT\<close> is \<open>APPEND_EVENTS\<close> with one event.\<close>

fun dashboardReducer :: "dashboard_action \<Rightarrow> dashboard_state \<Rightarrow> dashboard_state" where
  "dashboardReducer (Set_runs rs) s = s\<lparr>ds_runs := rs, ds_active := 0\<rparr>"
| "dashboardReducer (Set_active_run n) s = s\<lparr>ds_active := n\<rparr>"
| "dashboardReducer (Add_run r) s = s\<lparr>ds_runs := ds_runs s @ [r]\<rparr>"
| "dashboardReducer (Append_events i es) s = s\<lparr>ds_runs := map (append_to_run i es) (ds_runs s)\<rparr>"

definition useActiveRun :: "dashboard_state \<Rightarrow> tui_run option" where
  "useActiveRun s = (if ds_active s < length (ds_runs s) then Some (ds_runs s ! ds_active s) else None)"

definition active_events :: "dashboard_state \<Rightarrow> json list" where
  "active_events s = (case useActiveRun s of None \<Rightarrow> [] | Some r \<Rightarrow> ru_events r)"

section \<open>The application\<close>

record tui_app =
  ta_dash :: dashboard_state
  ta_costs :: bool
  ta_debug :: bool
  ta_counters :: EventParser
  ta_loading :: bool
  ta_error :: "string option"
  ta_exited :: bool

definition new_app :: tui_app where
  "new_app = \<lparr>ta_dash = \<lparr>ds_runs = [], ds_active = 0\<rparr>, ta_costs = False, ta_debug = False,
     ta_counters = \<lparr>malformedLines = 0, unknownEventTypes = 0\<rparr>, ta_loading = True, ta_error = None, ta_exited = False\<rparr>"

datatype app_event = Runs_changed "tui_run list" | Counters_changed EventParser | App_error string
  | Key_text string | Key_next | Key_previous

definition next_index :: "dashboard_state \<Rightarrow> nat" where
  "next_index s = (ds_active s + 1) mod max (length (ds_runs s)) 1"

definition previous_index :: "dashboard_state \<Rightarrow> nat" where
  "previous_index s = (if ds_active s = 0 then max (length (ds_runs s) - 1) 0 else ds_active s - 1)"

fun app_step :: "app_event \<Rightarrow> tui_app \<Rightarrow> tui_app" where
  "app_step (Runs_changed rs) a = a\<lparr>ta_dash := dashboardReducer (Set_runs (rev rs)) (ta_dash a), ta_loading := False\<rparr>"
| "app_step (Counters_changed c) a = a\<lparr>ta_counters := c\<rparr>"
| "app_step (App_error e) a = a\<lparr>ta_loading := False, ta_error := Some e\<rparr>"
| "app_step (Key_text t) a = (if t = ''q'' then a\<lparr>ta_exited := True\<rparr> else if t = ''c'' then a\<lparr>ta_costs := \<not> ta_costs a\<rparr>
     else if t = ''d'' then a\<lparr>ta_debug := \<not> ta_debug a\<rparr> else a)"
| "app_step Key_next a = a\<lparr>ta_dash := dashboardReducer (Set_active_run (next_index (ta_dash a))) (ta_dash a)\<rparr>"
| "app_step Key_previous a = a\<lparr>ta_dash := dashboardReducer (Set_active_run (previous_index (ta_dash a))) (ta_dash a)\<rparr>"

definition app_run :: "app_event list \<Rightarrow> tui_app \<Rightarrow> tui_app" where
  "app_run es a = foldl (\<lambda>a e. app_step e a) a es"

definition completed_count :: "json list \<Rightarrow> nat" where
  "completed_count es = length (filter (\<lambda>e. ev_is e ''task_completed'') es)"

definition scheduled_count :: "json list \<Rightarrow> nat" where
  "scheduled_count es = length (filter (\<lambda>e. ev_is e ''task_scheduled'') es)"

definition showCorruptionWarning :: "tui_app \<Rightarrow> bool" where
  "showCorruptionWarning a = (let n = length (active_events (ta_dash a)) in
     0 < n \<and> flt (1 / 10) < fdiv (of_nat (malformedLines (ta_counters a))) (of_nat n))"

section \<open>The list of tasks\<close>

record TaskItem =
  tk_id :: string
  tk_description :: string
  tk_status :: TaskStatus
  tk_role :: "string option"

definition TASK_EVENT_TYPES :: "string list" where
  "TASK_EVENT_TYPES = [''task_scheduled'', ''task_completed'', ''task_failed'']"

definition getStatusFromEventType :: "string \<Rightarrow> TaskStatus" where
  "getStatusFromEventType t = (if t = ''task_scheduled'' then Pending else if t = ''task_completed'' then Completed
     else if t = ''task_failed'' then Failed else Pending)"

definition ev_type :: "json \<Rightarrow> string" where
  "ev_type e = (case opt_get e ''type'' of JStr t \<Rightarrow> t | _ \<Rightarrow> [])"

definition item_of :: "json \<Rightarrow> string \<Rightarrow> TaskItem" where
  "item_of e i = \<lparr>tk_id = i,
     tk_description = (case ne_text (ev_payload e ''description'') of Some d \<Rightarrow> d
       | None \<Rightarrow> (case ne_text (ev_payload e ''name'') of Some d \<Rightarrow> d | None \<Rightarrow> ev_type e)),
     tk_status = getStatusFromEventType (ev_type e), tk_role = ne_text (ev_meta e ''role'')\<rparr>"

definition task_step :: "(string, TaskItem) dict \<Rightarrow> json \<Rightarrow> (string, TaskItem) dict" where
  "task_step m e = (if ev_type e \<notin> set TASK_EVENT_TYPES then m
     else case ev_task e of None \<Rightarrow> m | Some i \<Rightarrow> dset i (item_of e i) m)"

definition extractTasks :: "json list \<Rightarrow> TaskItem list" where
  "extractTasks es = map snd (foldl task_step [] es)"

definition task_count :: "TaskStatus \<Rightarrow> TaskItem list \<Rightarrow> nat" where
  "task_count st ts = length (filter (\<lambda>t. tk_status t = st) ts)"

definition findTaskProvider :: "json list \<Rightarrow> string \<Rightarrow> string option" where
  "findTaskProvider es i = Option.bind (List.find (\<lambda>e. opt_get e ''taskId'' = JStr i \<and> ev_provider e \<noteq> None) es) ev_provider"

definition findTaskDuration :: "(string \<Rightarrow> int) \<Rightarrow> json list \<Rightarrow> string \<Rightarrow> int option" where
  "findTaskDuration date es i =
    (case (List.find (\<lambda>e. opt_get e ''taskId'' = JStr i \<and> (ev_is e ''task_started'' \<or> ev_is e ''task_scheduled'')) es,
       List.find (\<lambda>e. opt_get e ''taskId'' = JStr i \<and> (ev_is e ''task_completed'' \<or> ev_is e ''task_failed'')) es) of
      (Some a, Some b) \<Rightarrow> Some (date (event_time_of b) - date (event_time_of a))
    | _ \<Rightarrow> None)"

definition formatDuration_ms :: "int \<Rightarrow> string" where
  "formatDuration_ms ms = (if ms < 1000 then show_int ms @ ''ms'' else if ms < 60000 then show_int (ms div 1000) @ ''s''
     else show_int (ms div 60000) @ ''m '' @ show_int (ms mod 60000 div 1000) @ ''s'')"

section \<open>Costs\<close>

record CostRow =
  co_cost :: rat
  co_prompt :: rat
  co_completion :: rat
  co_total :: rat

definition add_provider_cost :: "json \<Rightarrow> CostRow \<Rightarrow> CostRow" where
  "add_provider_cost e r = (let tok = \<lambda>k. amount (opt_get (ev_meta e ''tokens'') k) in
     \<lparr>co_cost = fadd (co_cost r) (amount (ev_meta e ''costUsd'')), co_prompt = fadd (co_prompt r) (tok ''prompt''),
      co_completion = fadd (co_completion r) (tok ''completion''), co_total = fadd (co_total r) (tok ''total'')\<rparr>)"

definition first_cost :: "json \<Rightarrow> CostRow" where
  "first_cost e = (let tok = \<lambda>k. amount (opt_get (ev_meta e ''tokens'') k) in
     \<lparr>co_cost = amount (ev_meta e ''costUsd''), co_prompt = tok ''prompt'', co_completion = tok ''completion'', co_total = tok ''total''\<rparr>)"

fun is_number :: "json \<Rightarrow> bool" where
  "is_number (JNum t) = True"
| "is_number v = False"

definition cost_step :: "(string, CostRow) dict \<Rightarrow> json \<Rightarrow> (string, CostRow) dict" where
  "cost_step m e = (case ev_provider e of None \<Rightarrow> m
     | Some p \<Rightarrow> if \<not> is_number (ev_meta e ''costUsd'') then m
         else (case dget m p of Some r \<Rightarrow> dset p (add_provider_cost e r) m | None \<Rightarrow> dset p (first_cost e) m))"

record CostTable =
  ct_rows :: "(string, CostRow) dict"
  ct_totalCost :: rat
  ct_totalTokens :: rat

definition extractCosts :: "json list \<Rightarrow> CostTable" where
  "extractCosts es = (let rows = foldl cost_step [] es in
     \<lparr>ct_rows = rows, ct_totalCost = foldl (\<lambda>s r. fadd s (co_cost (snd r))) 0 rows,
      ct_totalTokens = foldl (\<lambda>s r. fadd s (co_total (snd r))) 0 rows\<rparr>)"

definition countTasksByProvider :: "json list \<Rightarrow> string \<Rightarrow> nat" where
  "countTasksByProvider es p =
     length (filter (\<lambda>e. ev_meta e ''provider'' = JStr p \<and> (ev_is e ''task_scheduled'' \<or> ev_is e ''task_started'')) es)"

section \<open>Agents\<close>

record AgentCostRow =
  ac_task :: string
  ac_status :: TaskStatus
  ac_provider :: "string option"
  ac_cost :: rat
  ac_tokens :: rat

definition new_agent_row :: "string \<Rightarrow> AgentCostRow" where
  "new_agent_row i = \<lparr>ac_task = i, ac_status = Pending, ac_provider = None, ac_cost = 0, ac_tokens = 0\<rparr>"

definition agent_status_after :: "json \<Rightarrow> TaskStatus \<Rightarrow> TaskStatus" where
  "agent_status_after e st = (if ev_is e ''task_scheduled'' then st else if ev_is e ''task_completed'' then Completed
     else if ev_is e ''task_failed'' then Failed else if st = Pending then In_progress else st)"

definition agent_row_after :: "json \<Rightarrow> AgentCostRow \<Rightarrow> AgentCostRow" where
  "agent_row_after e r = r\<lparr>
     ac_cost := (if ev_meta e ''costUsd'' = JUndef then ac_cost r else fadd (ac_cost r) (amount (ev_meta e ''costUsd''))),
     ac_tokens := (let t = opt_get (ev_meta e ''tokens'') ''total'' in if t = JUndef then ac_tokens r else fadd (ac_tokens r) (amount t)),
     ac_provider := (case ev_provider e of None \<Rightarrow> ac_provider r | Some p \<Rightarrow> Some p),
     ac_status := agent_status_after e (ac_status r)\<rparr>"

definition agent_cost_step :: "(string, AgentCostRow) dict \<Rightarrow> json \<Rightarrow> (string, AgentCostRow) dict" where
  "agent_cost_step m e = (case ev_task e of None \<Rightarrow> m
     | Some i \<Rightarrow> dset i (agent_row_after e (case dget m i of Some r \<Rightarrow> r | None \<Rightarrow> new_agent_row i)) m)"

definition extractAgentCosts :: "json list \<Rightarrow> AgentCostRow list" where
  "extractAgentCosts es = sort_key (\<lambda>r. - ac_cost r) (map snd (foldl agent_cost_step [] es))"

record AgentInfo =
  ai_provider :: string
  ai_model :: json
  ai_role :: json
  ai_lastSeen :: string

record AgentsView =
  av_agents :: "(string, AgentInfo) dict"
  av_fallbacks :: nat
  av_latest :: "(string \<times> string \<times> json) option"

definition agents_step :: "AgentsView \<Rightarrow> json \<Rightarrow> AgentsView" where
  "agents_step v e =
    (let v1 = (case ev_provider e of None \<Rightarrow> v
        | Some p \<Rightarrow> v\<lparr>av_agents := dset p \<lparr>ai_provider = p, ai_model = ev_meta e ''modelName'', ai_role = ev_meta e ''role'',
             ai_lastSeen = event_time_of e\<rparr> (av_agents v)\<rparr>)
     in if ev_is e ''provider_fallback'' then
          v1\<lparr>av_fallbacks := av_fallbacks v1 + 1,
             av_latest := (case (ne_text (ev_meta e ''fromProvider''), ne_text (ev_meta e ''toProvider'')) of
               (Some a, Some b) \<Rightarrow> Some (a, b, ev_meta e ''errorReason'') | _ \<Rightarrow> av_latest v1)\<rparr>
        else v1)"

definition extractAgents :: "json list \<Rightarrow> AgentsView" where
  "extractAgents es = foldl agents_step \<lparr>av_agents = [], av_fallbacks = 0, av_latest = None\<rparr> es"

text \<open>The current task of an agent and the time since its last event, for a time \<open>now\<close>.\<close>

definition agent_task_step :: "(string \<Rightarrow> int) \<Rightarrow> int \<Rightarrow> (string, string option \<times> int option) dict \<Rightarrow> json \<Rightarrow>
    (string, string option \<times> int option) dict" where
  "agent_task_step date now m e = (case ev_provider e of None \<Rightarrow> m
     | Some p \<Rightarrow> dset p
         (case ev_task e of None \<Rightarrow> None
          | Some i \<Rightarrow> Some (case ne_text (ev_payload e ''description'') of Some d \<Rightarrow> d | None \<Rightarrow> i),
          if event_time_of e = [] then None else Some (now - date (event_time_of e))) m)"

definition agent_tasks :: "(string \<Rightarrow> int) \<Rightarrow> int \<Rightarrow> json list \<Rightarrow> (string, string option \<times> int option) dict" where
  "agent_tasks date now es = foldl (agent_task_step date now) [] es"

section \<open>Blocks of files\<close>

definition FILE_EVENT_TYPES :: "string list" where
  "FILE_EVENT_TYPES = [''file_modified'', ''file_created'', ''file_deleted'']"

record task_meta =
  tm_description :: string
  tm_status :: TaskStatus
  tm_provider :: "string option"

definition text_of :: "json \<Rightarrow> string option" where
  "text_of v = (case v of JStr s \<Rightarrow> Some s | _ \<Rightarrow> None)"

definition set_status :: "string \<Rightarrow> TaskStatus \<Rightarrow> (string, task_meta) dict \<Rightarrow> (string, task_meta) dict" where
  "set_status i st m = (case dget m i of None \<Rightarrow> m | Some x \<Rightarrow> dset i (x\<lparr>tm_status := st\<rparr>) m)"

definition meta_step :: "string \<Rightarrow> json \<Rightarrow> (string, task_meta) dict \<Rightarrow> (string, task_meta) dict" where
  "meta_step i e m =
    (if ev_is e ''task_scheduled'' then
       dset i \<lparr>tm_description = (case text_of (ev_payload e ''description'') of Some d \<Rightarrow> d
          | None \<Rightarrow> (case text_of (ev_payload e ''name'') of Some d \<Rightarrow> d | None \<Rightarrow> i)),
         tm_status = Pending, tm_provider = text_of (ev_meta e ''provider'')\<rparr> m
     else if ev_is e ''task_started'' then
       (case dget m i of Some x \<Rightarrow> dset i (x\<lparr>tm_status := In_progress\<rparr>) m
        | None \<Rightarrow> dset i \<lparr>tm_description = i, tm_status = In_progress, tm_provider = None\<rparr> m)
     else if ev_is e ''task_completed'' then set_status i Completed m
     else if ev_is e ''task_failed'' then set_status i Failed m
     else m)"

definition file_of :: "json \<Rightarrow> string option" where
  "file_of e = (case ne_text (ev_payload e ''filePath'') of Some p \<Rightarrow> Some p | None \<Rightarrow> ne_text (ev_payload e ''path''))"

definition files_step :: "string \<Rightarrow> json \<Rightarrow> (string, string list) dict \<Rightarrow> (string, string list) dict" where
  "files_step i e m = (if ev_type e \<notin> set FILE_EVENT_TYPES then m
     else case file_of e of None \<Rightarrow> m
       | Some p \<Rightarrow> (let ps = (case dget m i of None \<Rightarrow> [] | Some ps \<Rightarrow> ps) in dset i (if p \<in> set ps then ps else ps @ [p]) m))"

definition blocks_step :: "(string, task_meta) dict \<times> (string, string list) dict \<Rightarrow> json \<Rightarrow>
    (string, task_meta) dict \<times> (string, string list) dict" where
  "blocks_step s e = (case ev_task e of None \<Rightarrow> s | Some i \<Rightarrow> (meta_step i e (fst s), files_step i e (snd s)))"

record AgentBlock =
  ab_task :: string
  ab_description :: string
  ab_status :: TaskStatus
  ab_files :: "string list"
  ab_provider :: "string option"

definition block_of :: "(string, task_meta) dict \<Rightarrow> (string, string list) dict \<Rightarrow> string \<Rightarrow> AgentBlock" where
  "block_of metas files i = (let m = dget metas i in
     \<lparr>ab_task = i, ab_description = (case m of None \<Rightarrow> i | Some x \<Rightarrow> tm_description x),
      ab_status = (case m of None \<Rightarrow> Pending | Some x \<Rightarrow> tm_status x),
      ab_files = (case dget files i of None \<Rightarrow> [] | Some ps \<Rightarrow> sort ps),
      ab_provider = (case m of None \<Rightarrow> None | Some x \<Rightarrow> tm_provider x)\<rparr>)"

definition extractAgentBlocks :: "json list \<Rightarrow> AgentBlock list" where
  "extractAgentBlocks es = (let s = foldl blocks_step ([], []) es;
     ids = dkeys (snd s) @ filter (\<lambda>i. \<not> dhas (snd s) i) (dkeys (fst s))
     in map (block_of (fst s) (snd s)) ids)"

section \<open>Widths, bars and clocks\<close>

datatype ResponsiveMode = Normal_mode | Compact_mode | Minimal_mode

definition getModeFromColumns :: "int \<Rightarrow> ResponsiveMode" where
  "getModeFromColumns n = (if 100 \<le> n then Normal_mode else if 60 \<le> n then Compact_mode else Minimal_mode)"

definition bar_percentage :: "nat \<Rightarrow> nat \<Rightarrow> int" where
  "bar_percentage done_n total_n = (if 0 < total_n then min 100 (js_round (fmul (fdiv (of_nat done_n) (of_nat total_n)) 100)) else 0)"

definition bar_filled :: "int \<Rightarrow> nat \<Rightarrow> int" where
  "bar_filled percentage width = js_round (fmul (fdiv (of_int percentage) 100) (of_nat width))"

definition bar_text :: "nat \<Rightarrow> nat \<Rightarrow> nat \<Rightarrow> string" where
  "bar_text done_n total_n width = (let f = bar_filled (bar_percentage done_n total_n) width in
     concat (replicate (nat f) [CHR 0xE2, CHR 0x96, CHR 0x88]) @ concat (replicate (nat (max 0 (int width - f))) [CHR 0xE2, CHR 0x96, CHR 0x91]))"

definition pad2 :: "string \<Rightarrow> string" where
  "pad2 s = replicate (2 - length s) (CHR ''0'') @ s"

definition formatElapsed_clock :: "nat \<Rightarrow> string" where
  "formatElapsed_clock n = join '':'' [pad2 (show_nat (n div 3600)), pad2 (show_nat (n mod 3600 div 60)), pad2 (show_nat (n mod 60))]"

definition getElapsedSeconds :: "int \<Rightarrow> int \<Rightarrow> int" where
  "getElapsedSeconds start now = max 0 \<lfloor>fdiv (of_int (now - start)) 1000\<rfloor>"

section \<open>The list of tasks is the latest state\<close>

definition task_event_of :: "string \<Rightarrow> json \<Rightarrow> bool" where
  "task_event_of i e \<longleftrightarrow> ev_type e \<in> set TASK_EVENT_TYPES \<and> ev_task e = Some i"

lemma task_map:
  "dget (foldl task_step [] es) i = (case List.find (task_event_of i) (rev es) of None \<Rightarrow> None | Some e \<Rightarrow> Some (item_of e i))"
  by (induction es rule: rev_induct) (auto simp: task_step_def task_event_of_def dict.get_put split: option.splits)

lemma task_keys: "distinct (dkeys (foldl task_step [] es)) \<and> (\<forall>(k, t)\<in>set (foldl task_step [] es). tk_id t = k)"
proof (induction es rule: rev_induct)
  case (snoc e es)
  have s: "set (dset k v m) \<subseteq> insert (k, v) (set m)" for k and v :: TaskItem and m
    by (induction m) (auto simp: dset_def)
  let ?m = "foldl task_step [] es"
  have "task_step ?m e = ?m \<or> (\<exists>i. task_step ?m e = dset i (item_of e i) ?m)"
    by (auto simp: task_step_def split: option.split)
  then show ?case
  proof
    assume "\<exists>i. task_step ?m e = dset i (item_of e i) ?m"
    then obtain i where i: "task_step ?m e = dset i (item_of e i) ?m" by blast
    have "distinct (dkeys (dset i (item_of e i) ?m))" using snoc by (blast intro: dict.distinct_put)
    moreover have "tk_id t = k" if "(k, t) \<in> set (dset i (item_of e i) ?m)" for k t
      using s [of i "item_of e i" ?m] that snoc by (auto simp: item_of_def)
    ultimately show ?thesis using i by auto
  qed (use snoc in simp)
qed (simp add: dkeys_def)

lemma task_in_map:
  assumes "distinct (dkeys m)" "\<forall>(k, t)\<in>set m. tk_id t = k"
  shows "t \<in> set (map snd m) \<longleftrightarrow> dget m (tk_id t) = Some t" "map tk_id (map snd m) = dkeys m"
  using assms by (auto simp: dget_def dkeys_def map_of_eq_Some_iff dest: map_of_SomeD intro!: image_eqI [where x = "(tk_id t, t)"])

text \<open>C33.
  The list of tasks shows the latest state. Its tasks have distinct ids; a task is in the list exactly as the last of
  its events among the scheduled, completed and failed ones describes it; and no task is ever shown as in progress.\<close>

theorem tasks_latest:
  "distinct (map tk_id (extractTasks es)) \<and>
   (t \<in> set (extractTasks es) \<longleftrightarrow> (\<exists>e. List.find (task_event_of (tk_id t)) (rev es) = Some e \<and> t = item_of e (tk_id t))) \<and>
   task_count In_progress (extractTasks es) = 0"
proof -
  let ?m = "foldl task_step [] es"
  note k = task_keys [of es]
  have i: "u \<in> set (extractTasks es) \<longleftrightarrow> (\<exists>e. List.find (task_event_of (tk_id u)) (rev es) = Some e \<and> u = item_of e (tk_id u))" for u
    using task_in_map(1) [of ?m u] k task_map [of es "tk_id u"] by (auto simp: extractTasks_def split: option.splits)
  have "tk_status (item_of e j) \<noteq> In_progress" for e j by (simp add: item_of_def getStatusFromEventType_def)
  then have "tk_status u \<noteq> In_progress" if "u \<in> set (extractTasks es)" for u using that i by metis
  then show ?thesis using i task_in_map(2) [of ?m] k by (auto simp: extractTasks_def task_count_def filter_empty_conv)
qed

section \<open>When the views agree\<close>

text \<open>A task ends only after it was scheduled, and there is no event that it was started.\<close>

definition scheduled_first :: "json list \<Rightarrow> bool" where
  "scheduled_first es \<longleftrightarrow> (\<forall>xs e ys. es = xs @ e # ys \<longrightarrow> \<not> ev_is e ''task_started'' \<and>
     (\<forall>i. ev_task e = Some i \<and> (ev_is e ''task_completed'' \<or> ev_is e ''task_failed'') \<longrightarrow>
        (\<exists>s\<in>set xs. ev_is s ''task_scheduled'' \<and> ev_task s = Some i)))"

lemma scheduled_first_snoc:
  assumes "scheduled_first (es @ [e])"
  shows "scheduled_first es" "\<not> ev_is e ''task_started''"
    "ev_task e = Some i \<Longrightarrow> ev_is e ''task_completed'' \<or> ev_is e ''task_failed'' \<Longrightarrow> \<exists>s\<in>set es. ev_is s ''task_scheduled'' \<and> ev_task s = Some i"
proof -
  have a: "\<not> ev_is f ''task_started'' \<and> (\<forall>i. ev_task f = Some i \<and> (ev_is f ''task_completed'' \<or> ev_is f ''task_failed'') \<longrightarrow>
      (\<exists>s\<in>set xs. ev_is s ''task_scheduled'' \<and> ev_task s = Some i))" if "es @ [e] = xs @ f # ys" for xs f ys
    using assms that unfolding scheduled_first_def by blast
  show "scheduled_first es" unfolding scheduled_first_def using a [of _ _ "_ @ [e]"] by simp
  show "\<not> ev_is e ''task_started''"
    "ev_task e = Some i \<Longrightarrow> ev_is e ''task_completed'' \<or> ev_is e ''task_failed'' \<Longrightarrow> \<exists>s\<in>set es. ev_is s ''task_scheduled'' \<and> ev_task s = Some i"
    using a [of es e "[]"] by auto
qed

lemma ev_type_is: "t \<noteq> [] \<Longrightarrow> ev_type e = t \<longleftrightarrow> ev_is e t"
  by (auto simp: ev_type_def ev_is_def split: json.splits)

lemma statuses_track:
  "scheduled_first es \<Longrightarrow> map_option tm_status (dget (fst (foldl blocks_step ([], []) es)) i) = map_option tk_status (dget (foldl task_step [] es) i)"
proof (induction es rule: rev_induct)
  case (snoc e es)
  note IH = snoc.IH [OF scheduled_first_snoc(1) [OF snoc.prems]]
  let ?m = "fst (foldl blocks_step ([], []) es)"
  let ?t = "foldl task_step [] es"
  have t: "\<not> ev_is e ''task_started''" by (rule scheduled_first_snoc(2) [OF snoc.prems])
  have m: "fst (foldl blocks_step ([], []) (es @ [e])) = (case ev_task e of None \<Rightarrow> ?m | Some j \<Rightarrow> meta_step j e ?m)"
    by (simp add: blocks_step_def split: option.split)
  have u: "foldl task_step [] (es @ [e]) = task_step ?t e" by simp
  show ?case
  proof (cases "ev_task e = Some i")
    case False
    then have "dget (case ev_task e of None \<Rightarrow> ?m | Some j \<Rightarrow> meta_step j e ?m) i = dget ?m i" "dget (task_step ?t e) i = dget ?t i"
      by (auto simp: meta_step_def set_status_def task_step_def dict.get_put split: option.splits)
    then show ?thesis unfolding m u using IH by simp
  next
    case True
    show ?thesis
    proof (cases "ev_is e ''task_completed'' \<or> ev_is e ''task_failed''")
      case fin: True
      then obtain s where s: "s \<in> set es" "ev_is s ''task_scheduled''" "ev_task s = Some i"
        using scheduled_first_snoc(3) [OF snoc.prems True] by blast
      have "task_event_of i s" using s(2,3) by (simp add: task_event_of_def TASK_EVENT_TYPES_def ev_type_def ev_is_def)
      then have "List.find (task_event_of i) (rev es) \<noteq> None" using s(1) by (auto simp: find_None_iff)
      then have "dget ?t i \<noteq> None" by (auto simp: task_map)
      then obtain x where "dget ?m i = Some x" using IH by (cases "dget ?m i") auto
      then show ?thesis unfolding m u using True fin
        by (auto simp: meta_step_def set_status_def task_step_def TASK_EVENT_TYPES_def ev_is_def ev_type_def item_of_def
            getStatusFromEventType_def split: json.splits)
    next
      case no: False
      show ?thesis
      proof (cases "ev_is e ''task_scheduled''")
        case sch: True
        then show ?thesis unfolding m u using True
          by (auto simp: meta_step_def task_step_def TASK_EVENT_TYPES_def ev_is_def ev_type_def item_of_def getStatusFromEventType_def)
      next
        case False
        then have "ev_type e \<notin> set TASK_EVENT_TYPES" using no ev_type_is [of _ e] by (auto simp: TASK_EVENT_TYPES_def)
        then have "task_step ?t e = ?t" by (simp add: task_step_def)
        moreover have "meta_step i e ?m = ?m" using no t False by (simp add: meta_step_def)
        ultimately show ?thesis unfolding m u using True IH by simp
      qed
    qed
  qed
qed simp

text \<open>
  The list of tasks and the blocks agree when tasks are scheduled before they end and no event says that one was
  started: every task of the list has a block with its id and its status.\<close>

theorem views_agree:
  assumes "scheduled_first es" "t \<in> set (extractTasks es)"
  shows "\<exists>b\<in>set (extractAgentBlocks es). ab_task b = tk_id t \<and> ab_status b = tk_status t"
proof -
  have d: "dget (foldl task_step [] es) (tk_id t) = Some t"
    using assms(2) task_in_map(1) task_keys [of es] unfolding extractTasks_def by blast
  let ?s = "foldl blocks_step ([], []) es"
  obtain x where x: "dget (fst ?s) (tk_id t) = Some x" "tm_status x = tk_status t"
    using statuses_track [OF assms(1), of "tk_id t"] d by (cases "dget (fst ?s) (tk_id t)") auto
  then have "tk_id t \<in> set (dkeys (fst ?s))" by (simp add: dict.has_iff)
  then have "tk_id t \<in> set (dkeys (snd ?s) @ filter (\<lambda>i. \<not> dhas (snd ?s) i) (dkeys (fst ?s)))"
    by (auto simp: dhas_def dict.has_iff)
  then have "block_of (fst ?s) (snd ?s) (tk_id t) \<in> set (extractAgentBlocks es)"
    unfolding extractAgentBlocks_def Let_def set_map by (rule imageI)
  moreover have "ab_task (block_of (fst ?s) (snd ?s) (tk_id t)) = tk_id t" "ab_status (block_of (fst ?s) (snd ?s) (tk_id t)) = tk_status t"
    using x by (simp_all add: block_of_def)
  ultimately show ?thesis by blast
qed

definition dash_event :: "string \<Rightarrow> string \<Rightarrow> json" where
  "dash_event t i = JObj [(''type'', JStr t), (''taskId'', JStr i), (''payload'', JObj [])]"

lemma views_agree_witness:
  "\<exists>b\<in>set (extractAgentBlocks [dash_event ''task_scheduled'' ''t'', dash_event ''task_failed'' ''t'']). ab_task b = ''t'' \<and> ab_status b = Failed"
proof -
  let ?es = "[dash_event ''task_scheduled'' ''t'', dash_event ''task_failed'' ''t'']"
  let ?t = "\<lparr>tk_id = ''t'', tk_description = ''task_failed'', tk_status = Failed, tk_role = None\<rparr>"
  have "scheduled_first ?es"
    unfolding scheduled_first_def
    by (auto simp: Cons_eq_append_conv dash_event_def ev_is_def ev_task_def ne_text_def opt_get_def dget_Cons)
  moreover have "extractTasks ?es = [?t]" by code_simp
  then have "?t \<in> set (extractTasks ?es)" by simp
  ultimately show ?thesis using views_agree [of ?es ?t] by simp
qed

text \<open>Without these conditions the views disagree: a task that only ends, one that starts, one that is scheduled again.\<close>

lemma views_disagree:
  "map tk_status (extractTasks [dash_event ''task_completed'' ''t'']) = [Completed]"
  "map ab_status (extractAgentBlocks [dash_event ''task_completed'' ''t'', dash_event ''file_created'' ''t'']) = []"
  "extractTasks [dash_event ''task_started'' ''t''] = []"
  "map ab_status (extractAgentBlocks [dash_event ''task_started'' ''t'']) = [In_progress]"
  "map tk_status (extractTasks [dash_event ''task_completed'' ''t'', dash_event ''task_scheduled'' ''t'']) = [Pending]"
  "map ac_status (extractAgentCosts [dash_event ''task_completed'' ''t'', dash_event ''task_scheduled'' ''t'']) = [Completed]"
  by code_simp+

section \<open>The selected run\<close>

definition selection_ok :: "dashboard_state \<Rightarrow> bool" where
  "selection_ok s \<longleftrightarrow> ds_active s < max (length (ds_runs s)) 1"

lemma app_step_selection: "selection_ok (ta_dash a) \<Longrightarrow> selection_ok (ta_dash (app_step e a))"
  by (cases e) (auto simp: selection_ok_def next_index_def previous_index_def)

text \<open>
  The selection is always a run. After any sequence of changes of the runs and of keys, there is an active run whenever
  there are runs; but each change of the runs, which every new event causes, selects the newest run again, whatever was
  selected.\<close>

theorem selection_valid:
  "(ds_runs (ta_dash (app_run es new_app)) = [] \<or> useActiveRun (ta_dash (app_run es new_app)) \<noteq> None) \<and>
   (rs \<noteq> [] \<longrightarrow> useActiveRun (ta_dash (app_run (es @ [Runs_changed rs]) new_app)) = Some (last rs))"
proof -
  have "selection_ok (ta_dash (app_run es new_app))"
  proof (induction es rule: rev_induct)
    case (snoc e es)
    then show ?case by (simp add: app_run_def app_step_selection)
  qed (simp add: app_run_def new_app_def selection_ok_def)
  then show ?thesis
    by (cases "ds_runs (ta_dash (app_run es new_app))")
      (auto simp: selection_ok_def useActiveRun_def app_run_def rev_nth last_conv_nth split: if_splits)
qed

lemma selection_valid_witness:
  "useActiveRun (ta_dash (app_run [Runs_changed [r1, r2], Key_next, Runs_changed [r1, r2]] new_app)) = Some r2"
  using selection_valid [of "[Runs_changed [r1, r2], Key_next]" "[r1, r2]"] by simp

section \<open>The bar\<close>

lemma round_bounds: "0 \<le> x \<Longrightarrow> x \<le> of_nat n \<Longrightarrow> 0 \<le> js_round x \<and> js_round x \<le> int n"
proof -
  assume x: "0 \<le> x" "x \<le> of_nat n"
  have "x + 1 / 2 < of_int (int n + 1)" using x(2) by simp
  then have "\<lfloor>x + 1 / 2\<rfloor> < int n + 1" by (simp only: floor_less_iff)
  moreover have "0 \<le> \<lfloor>x + 1 / 2\<rfloor>" using x(1) by simp
  ultimately show ?thesis by (simp add: js_round_def)
qed

text \<open>The bar has its width: the percentage is between 0 and 100, and the filled part between 0 and the width.\<close>

theorem bar_fits:
  assumes "width < 2 ^ 53"
  shows "0 \<le> bar_percentage d n \<and> bar_percentage d n \<le> 100 \<and>
    0 \<le> bar_filled (bar_percentage d n) width \<and> bar_filled (bar_percentage d n) width \<le> int width \<and>
    length (bar_text d n width) = 3 * width"
proof -
  have q: "0 \<le> fmul (fdiv (of_nat d) (of_nat n)) 100" by (simp add: fmul_def fdiv_def)
  have p: "0 \<le> bar_percentage d n" "bar_percentage d n \<le> 100"
    using q by (auto simp: bar_percentage_def js_round_def)
  have one: "flt 1 = 1" using flt_of_nat_small [of 1] by simp
  have "0 \<le> fdiv (of_int (bar_percentage d n)) 100" "fdiv (of_int (bar_percentage d n)) 100 \<le> 1"
    using p flt_mono [of "of_int (bar_percentage d n) / 100" 1] one by (auto simp: fdiv_def)
  then have "0 \<le> fmul (fdiv (of_int (bar_percentage d n)) 100) (of_nat width)"
    "fmul (fdiv (of_int (bar_percentage d n)) 100) (of_nat width) \<le> of_nat width"
    using flt_mono [of "fdiv (of_int (bar_percentage d n)) 100 * of_nat width" "of_nat width"] flt_of_nat_small [OF assms]
    by (simp_all add: fmul_def mult_left_le_one_le)
  then have f: "0 \<le> bar_filled (bar_percentage d n) width" "bar_filled (bar_percentage d n) width \<le> int width"
    using round_bounds by (auto simp: bar_filled_def)
  have "length (concat (replicate k [a, b, c])) = 3 * k" for k and a b c :: char by (induction k) auto
  then have "length (bar_text d n width) = 3 * width" using f by (simp add: bar_text_def Let_def)
  with p f show ?thesis by blast
qed

lemma bar_fits_witness: "length (bar_text 2 4 30) = 90"
  using bar_fits [of 30 2 4] by simp

end
