(* ===== verification/Replay.thy ===== *)
theory Replay
  imports Summary Desktop_Server
begin

text \<open>
  \<open>src/commands/replay.ts\<close>: the plan of requests that a ledger holds, and the command that sends them again. The file is its text;
  what \<open>completion\<close> answers to the requests is a list of outcomes.
\<close>

section \<open>The plan\<close>

record replay_request =
  rr_provider_of :: json
  rr_model :: json
  rr_messages :: json

record ReplayPlan =
  rp_runId :: json
  rp_filePath :: string
  rp_totalEvents :: nat
  rp_llmRequests :: "replay_request list"
  rp_ledgerVersion :: json

definition resolveRunPath :: "string \<Rightarrow> string \<Rightarrow> string" where
  "resolveRunPath cwd rid = (if CHR ''/'' \<in> set rid \<or> ends_with rid ''.jsonl'' then rid else cwd @ ''/.events/run-'' @ rid @ ''.jsonl'')"

text \<open>\<open>v ?? w\<close>\<close>

definition nullish :: "json \<Rightarrow> json \<Rightarrow> json" where
  "nullish v w = (if v = JUndef \<or> v = JNull then w else v)"

definition plan_genesis :: "json \<Rightarrow> ReplayPlan \<Rightarrow> string + ReplayPlan" where
  "plan_genesis payload p = (case js_get payload ''runId'' of Inl e \<Rightarrow> Inl e
     | Inr r \<Rightarrow> Inr (p\<lparr>rp_runId := nullish r (rp_runId p), rp_ledgerVersion := nullish (opt_get payload ''ledgerVersion'') JNull\<rparr>))"

definition plan_request :: "json \<Rightarrow> ReplayPlan \<Rightarrow> string + ReplayPlan" where
  "plan_request payload p = (case js_get payload ''provider'' of Inl e \<Rightarrow> Inl e
     | Inr v \<Rightarrow> Inr (p\<lparr>rp_llmRequests := rp_llmRequests p @
         [\<lparr>rr_provider_of = v, rr_model = opt_get payload ''model'', rr_messages = opt_get payload ''messages''\<rparr>]\<rparr>))"

definition plan_event :: "json \<Rightarrow> ReplayPlan \<Rightarrow> string + ReplayPlan" where
  "plan_event v p = (case js_get v ''type'' of Inl e \<Rightarrow> Inl e
     | Inr t \<Rightarrow> if t = JStr ''genesis'' then plan_genesis (opt_get v ''payload'') p
         else if t = JStr ''llm_request'' then plan_request (opt_get v ''payload'') p else Inr p)"

fun plan_lines :: "string list \<Rightarrow> ReplayPlan \<Rightarrow> string + ReplayPlan" where
  "plan_lines [] p = Inr p"
| "plan_lines (l # ls) p = (case json_parse l of None \<Rightarrow> Inl ''SyntaxError''
     | Some v \<Rightarrow> (case plan_event v p of Inl e \<Rightarrow> Inl e | Inr q \<Rightarrow> plan_lines ls q))"

definition empty_plan :: "string \<Rightarrow> nat \<Rightarrow> ReplayPlan" where
  "empty_plan path n = \<lparr>rp_runId = JStr [], rp_filePath = path, rp_totalEvents = n, rp_llmRequests = [], rp_ledgerVersion = JNull\<rparr>"

definition buildPlan :: "string \<Rightarrow> text_file \<Rightarrow> string + ReplayPlan" where
  "buildPlan path f = (case f of None \<Rightarrow> Inl ''ENOENT'' | Some s \<Rightarrow> plan_lines (lines s) (empty_plan path (length (lines s))))"

text \<open>The value whose text \<open>planToDeterministicJSON\<close> writes; messages that are no array have no \<open>map\<close>, and \<open>null\<close> has no fields.\<close>

definition plan_message :: "json \<Rightarrow> string + json" where
  "plan_message m = (case js_get m ''content'' of Inl e \<Rightarrow> Inl e
     | Inr c \<Rightarrow> Inr (JObj [(''content'', c), (''role'', opt_get m ''role'')]))"

fun all_or_error :: "(string + 'a) list \<Rightarrow> string + 'a list" where
  "all_or_error [] = Inr []"
| "all_or_error (Inl e # xs) = Inl e"
| "all_or_error (Inr x # xs) = (case all_or_error xs of Inl e \<Rightarrow> Inl e | Inr ys \<Rightarrow> Inr (x # ys))"

definition request_json :: "replay_request \<Rightarrow> string + json" where
  "request_json r = (case rr_messages r of
     JArr ms \<Rightarrow> (case all_or_error (map plan_message ms) of Inl e \<Rightarrow> Inl e
       | Inr vs \<Rightarrow> Inr (JObj [(''messages'', JArr vs), (''model'', rr_model r), (''provider'', rr_provider_of r)]))
   | _ \<Rightarrow> Inl type_error)"

definition planToDeterministicJSON :: "ReplayPlan \<Rightarrow> string + json" where
  "planToDeterministicJSON p = (case all_or_error (map request_json (rp_llmRequests p)) of Inl e \<Rightarrow> Inl e
     | Inr rs \<Rightarrow> Inr (JObj [(''filePath'', JStr (rp_filePath p)), (''ledgerVersion'', rp_ledgerVersion p), (''llmRequests'', JArr rs),
         (''runId'', rp_runId p), (''totalEvents'', JNum (show_nat (rp_totalEvents p)))]))"

section \<open>The command\<close>

datatype replay_end = Replay_exit nat | Replay_plan json | Replay_rejects string | Replay_ends

text \<open>Whether the ledger may be replayed: \<open>None\<close>, or how the command ends.\<close>

definition replay_check :: "(string \<Rightarrow> string) \<Rightarrow> bool \<Rightarrow> text_file \<Rightarrow> replay_end option" where
  "replay_check H skipVerify f =
    (if skipVerify then None
     else case ledger_verify H f of
       Inl e \<Rightarrow> Some (Replay_rejects e)
     | Inr (VFail i r) \<Rightarrow> Some (Replay_exit 1)
     | Inr (VOk legacy n) \<Rightarrow> if legacy then Some (Replay_exit 1) else None)"

definition succeeded :: "(replay_request \<Rightarrow> nat \<Rightarrow> string + unit) \<Rightarrow> replay_request list \<Rightarrow> nat" where
  "succeeded ask rs = length (filter (\<lambda>i. case ask (rs ! i) i of Inl e \<Rightarrow> False | Inr u \<Rightarrow> True) [0..<length rs])"

text \<open>The end of the command with the requests that it sent.\<close>

definition replay ::
  "(string \<Rightarrow> string) \<Rightarrow> (replay_request \<Rightarrow> nat \<Rightarrow> string + unit) \<Rightarrow> string \<Rightarrow> bool \<Rightarrow> bool \<Rightarrow> text_file \<Rightarrow> replay_end \<times> replay_request list" where
  "replay H ask path dryRun skipVerify f =
    (case replay_check H skipVerify f of Some x \<Rightarrow> (x, [])
     | None \<Rightarrow> (case buildPlan path f of Inl e \<Rightarrow> (Replay_rejects e, [])
       | Inr p \<Rightarrow>
         if dryRun then (case planToDeterministicJSON p of Inl e \<Rightarrow> (Replay_rejects e, []) | Inr v \<Rightarrow> (Replay_plan v, []))
         else if rp_llmRequests p = [] then (Replay_exit 1, [])
         else (if succeeded ask (rp_llmRequests p) < length (rp_llmRequests p) then Replay_exit 2 else Replay_ends, rp_llmRequests p)))"

section \<open>What is replayed\<close>

text \<open>C22.
  Only an intact ledger is replayed. Unless verification is skipped, the command sends a request only when the file is a
  hash chain that verifies, and then it sends every request that the plan holds, in order.\<close>

theorem replay_verified:
  assumes "snd (replay H ask path dryRun skipVerify f) \<noteq> []" "\<not> skipVerify"
  shows "(\<exists>s n. f = Some s \<and> ledger_verify H f = Inr (VOk False n) \<and> chain_end H GENESIS_PREV_HASH (lines s) \<noteq> None) \<and>
    (\<exists>p. buildPlan path f = Inr p \<and> snd (replay H ask path dryRun skipVerify f) = rp_llmRequests p)"
proof -
  have c: "replay_check H skipVerify f = None"
    using assms(1) by (cases "replay_check H skipVerify f") (simp_all add: replay_def)
  then obtain n where v: "ledger_verify H f = Inr (VOk False n)"
    using assms(2) by (auto simp: replay_check_def split: sum.splits VerifyResult.splits if_splits)
  obtain p where p: "buildPlan path f = Inr p" using assms(1) c by (cases "buildPlan path f") (simp_all add: replay_def)
  have "snd (replay H ask path dryRun skipVerify f) = rp_llmRequests p"
    using assms(1) c p by (auto simp: replay_def split: if_splits sum.splits)
  moreover obtain s where "f = Some s" using p by (cases f) (simp_all add: buildPlan_def)
  ultimately show ?thesis using v p verify_ok_iff [of H s n] by auto
qed

text \<open>A session of the desktop is not replayed: its ledger has no hashes.\<close>

lemma session_not_replayed:
  assumes "post_run W dir req d = (a, Some (path, written))"
  shows "replay H ask path dryRun False (Some written) = (Replay_exit 1, [])"
proof -
  have "ledger_verify H (Some written) = Inr (VOk True 1)" using desktop_session [OF assms, of H] by blast
  then show ?thesis by (simp add: replay_def replay_check_def)
qed

section \<open>The plan of a ledger\<close>

lemma plan_lines_append: "plan_lines (xs @ ys) p = (case plan_lines xs p of Inl e \<Rightarrow> Inl e | Inr q \<Rightarrow> plan_lines ys q)"
  by (induction xs arbitrary: p) (auto split: option.splits sum.splits)

lemma plan_total: "plan_lines ls (p\<lparr>rp_totalEvents := n\<rparr>) = map_sum id (\<lambda>q. q\<lparr>rp_totalEvents := n\<rparr>) (plan_lines ls p)"
proof (induction ls arbitrary: p)
  case (Cons l ls)
  have "plan_event v (p\<lparr>rp_totalEvents := n\<rparr>) = map_sum id (\<lambda>q. q\<lparr>rp_totalEvents := n\<rparr>) (plan_event v p)" for v
    by (simp add: plan_event_def plan_genesis_def plan_request_def split: sum.splits)
  then show ?case using Cons.IH by (auto split: option.splits sum.splits)
qed simp

definition requests_of :: "string + ReplayPlan \<Rightarrow> replay_request list option" where
  "requests_of r = (case r of Inl e \<Rightarrow> None | Inr p \<Rightarrow> Some (rp_llmRequests p))"

lemma requests_total: "requests_of (plan_lines ls (empty_plan path n)) = requests_of (plan_lines ls (empty_plan path 0))"
proof -
  have e: "empty_plan path n = (empty_plan path 0)\<lparr>rp_totalEvents := n\<rparr>" by (simp add: empty_plan_def)
  show ?thesis unfolding e plan_total by (cases "plan_lines ls (empty_plan path 0)") (simp_all add: requests_of_def)
qed

lemma plan_sealed:
  assumes "is_request \<longleftrightarrow> typ = ''llm_request''" "typ \<noteq> ''genesis''" "payload = JObj kvs"
  shows "plan_event (reparsed (seal (event_json i t typ sev tid payload metadata) q h)) p =
    Inr (if is_request then p\<lparr>rp_llmRequests := rp_llmRequests p @ [\<lparr>rr_provider_of = opt_get (reparsed payload) ''provider'',
      rr_model = opt_get (reparsed payload) ''model'', rr_messages = opt_get (reparsed payload) ''messages''\<rparr>]\<rparr> else p)"
  using assms by (cases tid) (simp_all add: plan_event_def plan_request_def event_json_def opt_str_def dget_Cons)

text \<open>C21.
  The replay of what was logged. After any history of clean calls, failures and restarts that wrote the file, one
  more successful \<open>log\<close> of a request adds exactly that request to the plan: its provider, model and messages as JSON reads them back; a call of another type
  adds none.\<close>

theorem plan_of_ledger:
  assumes "\<forall>x. H x \<noteq> []" "list_all clean_op ops" "ledger_run H ops (new_ledger rid, None, 0) = (led, f, n)"
    and "content f \<noteq> []" "clean_op (OpLog io typ (JObj kvs) severity taskId metadata)" "typ \<noteq> ''genesis''"
    and "ledger_log H io typ (JObj kvs) severity taskId metadata led f = (True, led', f')"
    and "requests_of (buildPlan path f) = Some rs"
  shows "requests_of (buildPlan path f') = Some (if typ = ''llm_request'' then rs @ [\<lparr>rr_provider_of = opt_get (reparsed (JObj kvs)) ''provider'',
      rr_model = opt_get (reparsed (JObj kvs)) ''model'', rr_messages = opt_get (reparsed (JObj kvs)) ''messages''\<rparr>] else rs)"
proof -
  let ?ev = "event_json (event_id io) (event_time io) typ severity taskId (JObj kvs) metadata"
  have "ledger_inv H (led, f, n)"
    using ledger.inv_reachable [OF _ ledger_run_steps [OF assms(1,2)]] assms(3) by metis
  from log_file_events [OF assms(1) this assms(5,7,4)] obtain q where
    l: "lines (content f') = lines (content f) @ [stringify (seal ?ev q (lastHash led'))]" by blast
  have s: "sealable ?ev" using assms(5) by simp
  obtain s s' where f: "f = Some s" "f' = Some s'"
    using assms(4) l by (cases f; cases f') (simp_all add: content_def)
  have r: "requests_of (plan_lines (lines s) (empty_plan path 0)) = Some rs"
    using assms(8) requests_total [of "lines s" path "length (lines s)"] f(1) by (simp add: buildPlan_def)
  then obtain p where p: "plan_lines (lines s) (empty_plan path 0) = Inr p" "rp_llmRequests p = rs"
    by (auto simp: requests_of_def split: sum.splits)
  have "plan_lines (lines s') (empty_plan path 0) = plan_lines [stringify (seal ?ev q (lastHash led'))] p"
    using l f p(1) by (simp add: content_def plan_lines_append)
  then have "plan_lines (lines s') (empty_plan path 0) = plan_event (reparsed (seal ?ev q (lastHash led'))) p"
    using seal_parse(1) [OF s] by (simp split: sum.splits)
  then show ?thesis
    using plan_sealed [OF refl assms(6) refl] p(2) requests_total [of "lines s'" path "length (lines s')"] f(2)
    by (simp add: buildPlan_def requests_of_def)
qed

definition demo_request :: json where
  "demo_request = JObj [(''provider'', JStr ''groq''), (''model'', JNull), (''messages'', JArr [])]"

definition demo_replay_ops :: "ledger_op list" where
  "demo_replay_ops = [OpLog demo_io ''llm_request'' demo_request Info None JUndef]"

lemma replay_verified_witness:
  "\<exists>led s. ledger_run (\<lambda>x. ''h'') demo_replay_ops (new_ledger ''r1'', None, 0) = (led, Some s, 1) \<and>
     length (snd (replay (\<lambda>x. ''h'') (\<lambda>r i. Inr ()) ''p'' False False (Some s))) = 1 \<and> ledger_verify (\<lambda>x. ''h'') (Some s) = Inr (VOk False 2)"
proof -
  have "(case ledger_run (\<lambda>x. ''h'') demo_replay_ops (new_ledger ''r1'', None, 0) of
      (led, Some s, n) \<Rightarrow> n = 1 \<and> length (snd (replay (\<lambda>x. ''h'') (\<lambda>r i. Inr ()) ''p'' False False (Some s))) = 1 \<and>
         ledger_verify (\<lambda>x. ''h'') (Some s) = Inr (VOk False 2) | _ \<Rightarrow> False)"
    by code_simp
  then obtain led s where s: "ledger_run (\<lambda>x. ''h'') demo_replay_ops (new_ledger ''r1'', None, 0) = (led, Some s, 1)"
      "length (snd (replay (\<lambda>x. ''h'') (\<lambda>r i. Inr ()) ''p'' False False (Some s))) = 1" "ledger_verify (\<lambda>x. ''h'') (Some s) = Inr (VOk False 2)"
    by (auto split: prod.splits option.splits)
  from s(2) have "snd (replay (\<lambda>x. ''h'') (\<lambda>r i. Inr ()) ''p'' False False (Some s)) \<noteq> []" by (metis list.size(3) zero_neq_one)
  from replay_verified [OF this] have "\<exists>n. ledger_verify (\<lambda>x. ''h'') (Some s) = Inr (VOk False n)" by blast
  with s show ?thesis by blast
qed

lemma plan_of_ledger_witness:
  "\<exists>led s led' f'. ledger_run demo_digest demo_replay_ops (new_ledger ''r1'', None, 0) = (led, Some s, 1) \<and>
     ledger_log demo_digest demo_io ''llm_request'' demo_request Info None JUndef led (Some s) = (True, led', f') \<and>
     map_option length (requests_of (buildPlan ''p'' f')) = Some 2"
proof -
  have "(case ledger_run demo_digest demo_replay_ops (new_ledger ''r1'', None, 0) of
      (led, Some s, n) \<Rightarrow> n = 1 \<and> s \<noteq> [] \<and> map_option length (requests_of (buildPlan ''p'' (Some s))) = Some 1 \<and>
         fst (ledger_log demo_digest demo_io ''llm_request'' demo_request Info None JUndef led (Some s)) | _ \<Rightarrow> False)"
    by code_simp
  then obtain led s where s: "ledger_run demo_digest demo_replay_ops (new_ledger ''r1'', None, 0) = (led, Some s, 1)" "s \<noteq> []"
      "map_option length (requests_of (buildPlan ''p'' (Some s))) = Some 1"
      "fst (ledger_log demo_digest demo_io ''llm_request'' demo_request Info None JUndef led (Some s))"
    by (auto split: prod.splits option.splits)
  then obtain rs led' f' where r: "requests_of (buildPlan ''p'' (Some s)) = Some rs" "length rs = 1"
      "ledger_log demo_digest demo_io ''llm_request'' demo_request Info None JUndef led (Some s) = (True, led', f')"
    by (cases "ledger_log demo_digest demo_io ''llm_request'' demo_request Info None JUndef led (Some s)") auto
  have h: "\<forall>x. demo_digest x \<noteq> []" using length_demo_digest by (metis list.size(3) zero_neq_numeral)
  have w: "wf_json demo_request" by (simp add: demo_request_def)
  have c: "list_all clean_op demo_replay_ops" "clean_op (OpLog demo_io ''llm_request'' demo_request Info None JUndef)"
    using w by (simp_all add: demo_replay_ops_def demo_io_def)
  have "content (Some s) \<noteq> []" using s(2) by (simp add: content_def)
  from plan_of_ledger [OF h c(1) s(1) this c(2) [unfolded demo_request_def] _ r(3) [unfolded demo_request_def] r(1)] r(2)
  have "map_option length (requests_of (buildPlan ''p'' f')) = Some 2" by simp
  with s(1) r(3) show ?thesis by blast
qed

end
