(* ===== verification/Run_State.thy ===== *)
theory Run_State
  imports Capability_Stats Capability_Manifest Js_Value Ledger
begin

text \<open>
  \<open>src/commands/state.ts\<close> and \<open>src/commands/stats.ts\<close>: what the latest ledger and the store of statistics say about a
  run. A directory is its entries with the times that \<open>stat\<close> gives, a ledger its text; the probes of the sandbox
  and of the context service, and the texts of scores, are parameters. A field of a type other than its declared one
  is outside the model.
\<close>

section \<open>The latest ledger\<close>

definition run_file :: "string \<Rightarrow> bool" where
  "run_file n \<longleftrightarrow> starts_with n ''run-'' \<and> ends_with n ''.jsonl''"

definition run_id :: "string \<Rightarrow> string" where
  "run_id n = (let m = (if starts_with n ''run-'' then drop 4 n else n) in if ends_with m ''.jsonl'' then take (length m - 6) m else m)"

definition newer :: "(string \<times> int) option \<Rightarrow> string \<times> int option \<Rightarrow> (string \<times> int) option" where
  "newer best e = (case snd e of None \<Rightarrow> best
     | Some t \<Rightarrow> (case best of None \<Rightarrow> Some (fst e, t) | Some (n, t0) \<Rightarrow> if t0 < t then Some (fst e, t) else best))"

text \<open>The entries in the order of the directory, \<open>None\<close> when it cannot be read; a time is \<open>None\<close> when \<open>stat\<close> fails.\<close>

definition findLatestRunFile :: "string \<Rightarrow> (string \<times> int option) list option \<Rightarrow> (string \<times> string) option" where
  "findLatestRunFile dir entries = (case entries of None \<Rightarrow> None
     | Some es \<Rightarrow> map_option (\<lambda>(n, t). (dir @ ''/'' @ n, run_id n)) (foldl newer None (filter (\<lambda>e. run_file (fst e)) es)))"

definition state_events :: "string \<Rightarrow> json list" where
  "state_events s = List.map_filter json_parse (filter (\<lambda>l. l \<noteq> []) (split_lines s))"

section \<open>The states of the tasks\<close>

record TaskState =
  ts_id :: string
  ts_status :: TaskStatus
  ts_startedAt :: "string option"
  ts_completedAt :: "string option"

definition event_task :: "json \<Rightarrow> string option" where
  "event_task e = (case opt_get e ''taskId'' of JStr (c # cs) \<Rightarrow> Some (c # cs) | _ \<Rightarrow> None)"

definition event_stamp :: "json \<Rightarrow> string option" where
  "event_stamp e = (case opt_get e ''timestamp'' of JStr t \<Rightarrow> Some t | _ \<Rightarrow> None)"

text \<open>The state that an event puts a task in, if it does.\<close>

definition moves_to :: "json \<Rightarrow> TaskStatus option" where
  "moves_to e = (let t = opt_get e ''type'' in
     if t = JStr ''task_started'' \<or> t = JStr ''task_dispatched'' then Some In_progress
     else if t = JStr ''task_completed'' then Some Completed
     else if t = JStr ''task_failed'' then Some Failed else None)"

definition task_moved :: "json \<Rightarrow> TaskState \<Rightarrow> TaskState" where
  "task_moved e st = (case moves_to e of None \<Rightarrow> st
     | Some In_progress \<Rightarrow> st\<lparr>ts_status := In_progress,
         ts_startedAt := (if ts_startedAt st = None \<or> ts_startedAt st = Some [] then event_stamp e else ts_startedAt st)\<rparr>
     | Some x \<Rightarrow> st\<lparr>ts_status := x, ts_completedAt := event_stamp e\<rparr>)"

definition new_task_state :: "string \<Rightarrow> TaskState" where
  "new_task_state i = \<lparr>ts_id = i, ts_status = Pending, ts_startedAt = None, ts_completedAt = None\<rparr>"

definition derive_step :: "(string, TaskState) dict \<Rightarrow> json \<Rightarrow> (string, TaskState) dict" where
  "derive_step m e = (case event_task e of None \<Rightarrow> m
     | Some i \<Rightarrow> dset i (task_moved e (case dget m i of Some st \<Rightarrow> st | None \<Rightarrow> new_task_state i)) m)"

text \<open>The read of the task of an event \<open>null\<close> throws.\<close>

definition deriveTaskStates :: "json list \<Rightarrow> string + TaskState list \<times> string option" where
  "deriveTaskStates es =
    (if JNull \<in> set es then Inl type_error
     else let ts = map snd (foldl derive_step [] es) in
       Inr (ts, map_option ts_id (List.find (\<lambda>t. ts_status t = In_progress) ts)))"

section \<open>The snapshot\<close>

definition add_trials :: "(ProviderId, nat) dict \<Rightarrow> CapabilityCounts \<Rightarrow> (ProviderId, nat) dict" where
  "add_trials m c = dset (cc_provider c) ((case dget m (cc_provider c) of None \<Rightarrow> 0 | Some n \<Rightarrow> n) + successes c + failures c) m"

definition loadProviders :: "CapabilityStats \<Rightarrow> (ProviderId \<times> nat) list" where
  "loadProviders s = sort_key (\<lambda>e. provider_name (fst e)) (foldl add_trials [] (fst (stats_all s)))"

record StateSnapshot =
  sn_runId :: "string option"
  sn_currentTaskId :: "string option"
  sn_taskStates :: "TaskState list"
  sn_providers :: "(ProviderId \<times> nat) list"
  sn_ledgerPath :: "string option"
  sn_sandboxAvailable :: bool
  sn_contextforgeAvailable :: bool

text \<open>\<open>probeContextforge\<close>: the status of the reply is good; an error is no.\<close>

definition probeContextforge :: "string + bool \<Rightarrow> bool" where
  "probeContextforge r = (case r of Inl e \<Rightarrow> False | Inr ok \<Rightarrow> ok)"

definition collectState ::
  "string \<Rightarrow> (string \<times> int option) list option \<Rightarrow> (string \<Rightarrow> string option) \<Rightarrow> CapabilityStats \<Rightarrow> bool \<Rightarrow> string + bool \<Rightarrow> string + StateSnapshot" where
  "collectState dir entries read stats sandbox probe =
    (let latest = findLatestRunFile dir entries;
         events = (case latest of None \<Rightarrow> [] | Some (p, i) \<Rightarrow> (case read p of None \<Rightarrow> [] | Some s \<Rightarrow> state_events s))
     in case deriveTaskStates events of Inl e \<Rightarrow> Inl e
        | Inr (ts, cur) \<Rightarrow> Inr \<lparr>sn_runId = map_option snd latest, sn_currentTaskId = cur, sn_taskStates = ts, sn_providers = loadProviders stats,
            sn_ledgerPath = map_option fst latest, sn_sandboxAvailable = sandbox, sn_contextforgeAvailable = probeContextforge probe\<rparr>)"

definition padRight :: "string \<Rightarrow> nat \<Rightarrow> string" where
  "padRight s n = s @ replicate (n - length s) (CHR '' '')"

definition padLeft :: "string \<Rightarrow> nat \<Rightarrow> string" where
  "padLeft s n = replicate (n - length s) (CHR '' '') @ s"

fun state_name :: "TaskStatus \<Rightarrow> string" where
  "state_name Pending = ''pending''"
| "state_name In_progress = ''in_progress''"
| "state_name Completed = ''completed''"
| "state_name Failed = ''failed''"

definition or_none :: "string option \<Rightarrow> string" where
  "or_none x = (case x of None \<Rightarrow> ''<none>'' | Some s \<Rightarrow> s)"

definition show_bool :: "bool \<Rightarrow> string" where
  "show_bool b = (if b then ''true'' else ''false'')"

definition printHuman :: "StateSnapshot \<Rightarrow> string list" where
  "printHuman n =
    [''# apohara state'', ''runId:                '' @ or_none (sn_runId n), ''currentTaskId:        '' @ or_none (sn_currentTaskId n),
     ''ledgerPath:           '' @ or_none (sn_ledgerPath n), ''sandboxAvailable:     '' @ show_bool (sn_sandboxAvailable n),
     ''contextforgeAvailable:'' @ show_bool (sn_contextforgeAvailable n), ''schemaVersion:        v0-alpha'', newline # ''## tasks''] @
    (if sn_taskStates n = [] then [''  (none)'']
     else (padRight ''id'' 28 @ padRight ''status'' 14 @ padRight ''started'' 25) # replicate 67 (CHR ''-'') #
       map (\<lambda>t. padRight (ts_id t) 28 @ padRight (state_name (ts_status t)) 14 @
         padRight (case ts_startedAt t of None \<Rightarrow> ''-'' | Some s \<Rightarrow> s) 25) (sn_taskStates n)) @
    [newline # ''## providers''] @
    (if sn_providers n = [] then [''  (no observations recorded yet)'']
     else (padRight ''provider'' 22 @ padLeft ''trials'' 8 @ ''  '' @ padRight ''lastErrorClass'' 18) # replicate 50 (CHR ''-'') #
       map (\<lambda>p. padRight (provider_name (fst p)) 22 @ padLeft (show_nat (snd p)) 8 @ ''  '' @ padRight ''-'' 18) (sn_providers n))"

section \<open>Rankings\<close>

text \<open>The class and the provider of an event of \<open>stats.ts\<close>; reading the metadata of \<open>null\<close> throws.\<close>

definition text_field :: "json \<Rightarrow> string \<Rightarrow> string option" where
  "text_field v k = (case opt_get v k of JStr (c # cs) \<Rightarrow> Some (c # cs) | _ \<Rightarrow> None)"

definition error_step :: "(string, string) dict \<Rightarrow> json \<Rightarrow> (string, string) dict" where
  "error_step m e = (case (text_field (opt_get e ''metadata'') ''errorClass'', text_field (opt_get e ''metadata'') ''provider'') of
     (Some c, Some p) \<Rightarrow> dset p c m | _ \<Rightarrow> m)"

definition lastErrorClassByProvider :: "string \<Rightarrow> (string \<times> int option) list option \<Rightarrow> (string \<Rightarrow> string option) \<Rightarrow> string + (string, string) dict" where
  "lastErrorClassByProvider dir entries read = (case findLatestRunFile dir entries of None \<Rightarrow> Inr []
     | Some (p, i) \<Rightarrow> (case read p of None \<Rightarrow> Inr []
         | Some s \<Rightarrow> (let es = state_events s in if JNull \<in> set es then Inl type_error else Inr (foldl error_step [] es))))"

record stat_row =
  sr_provider_of :: ProviderId
  sr_score :: double
  sr_rate :: double
  sr_n :: nat
  sr_lastErrorClass :: "string option"

definition all_providers :: "CapabilityStats \<Rightarrow> ProviderId list" where
  "all_providers s = rev (remdups (rev (map cap_provider CAPABILITY_MANIFEST @ map cc_provider (fst (stats_all s)))))"

definition stat_row_of :: "(string, string) dict \<Rightarrow> TaskType \<Rightarrow> CapabilityStats \<Rightarrow> ranked \<Rightarrow> stat_row" where
  "stat_row_of errs t s r = (let (su, fa) = counts_of (fst (stats_get (rk_provider r) t s)) in
     \<lparr>sr_provider_of = rk_provider r, sr_score = rk_score r, sr_rate = rk_rate r, sr_n = su + fa,
      sr_lastErrorClass = dget errs (provider_name (rk_provider r))\<rparr>)"

definition role_rows :: "nat \<Rightarrow> js_math \<Rightarrow> rat option \<Rightarrow> rat option \<Rightarrow> rng \<Rightarrow> nat \<Rightarrow> (string, string) dict \<Rightarrow> TaskType \<Rightarrow> CapabilityStats \<Rightarrow>
    stat_row list sampled" where
  "role_rows fuel M ea eb rng i errs t s = (case fst (stats_rank fuel M ea eb rng i (all_providers s) t s) of
     Sampled rs k \<Rightarrow> Sampled (map (stat_row_of errs t s) rs) k | SampleError \<Rightarrow> SampleError | OutOfFuel \<Rightarrow> OutOfFuel | Unordered \<Rightarrow> Unordered)"

definition TASK_TYPES :: "TaskType list" where
  "TASK_TYPES = [TResearch, TPlanning, TCodegen, TDebugging, TVerification]"

fun all_rows :: "nat \<Rightarrow> js_math \<Rightarrow> rat option \<Rightarrow> rat option \<Rightarrow> rng \<Rightarrow> nat \<Rightarrow> (string, string) dict \<Rightarrow> CapabilityStats \<Rightarrow> TaskType list \<Rightarrow>
    (TaskType \<times> stat_row list) list sampled" where
  "all_rows fuel M ea eb rng i errs s [] = Sampled [] i"
| "all_rows fuel M ea eb rng i errs s (t # ts) = (case role_rows fuel M ea eb rng i errs t s of
     Sampled rows j \<Rightarrow> (case all_rows fuel M ea eb rng j errs s ts of
         Sampled rest k \<Rightarrow> Sampled ((t, rows) # rest) k | SampleError \<Rightarrow> SampleError | OutOfFuel \<Rightarrow> OutOfFuel | Unordered \<Rightarrow> Unordered)
   | SampleError \<Rightarrow> SampleError | OutOfFuel \<Rightarrow> OutOfFuel | Unordered \<Rightarrow> Unordered)"

text \<open>The table of a role; \<open>fixed n x\<close> is \<open>x.toFixed(n)\<close>.\<close>

definition table_row :: "(nat \<Rightarrow> double \<Rightarrow> string) \<Rightarrow> nat \<Rightarrow> stat_row \<Rightarrow> string" where
  "table_row fixed rank r = padRight (show_nat rank) 5 @ padRight (provider_name (sr_provider_of r)) 22 @ padLeft (fixed 3 (sr_score r)) 8 @
     padLeft (fixed 1 (dmul (sr_rate r) (Dbl 100)) @ ''%'') 12 @ padLeft (show_nat (sr_n r)) 8 @
     padLeft (case sr_lastErrorClass r of None \<Rightarrow> ''-'' | Some c \<Rightarrow> c) 16"

definition role_table :: "(nat \<Rightarrow> double \<Rightarrow> string) \<Rightarrow> TaskType \<times> stat_row list \<Rightarrow> string list" where
  "role_table fixed tr = (newline # ''# '' @ task_type_name (fst tr)) #
     (padRight ''rank'' 5 @ padRight ''provider'' 22 @ padLeft ''score'' 8 @ padLeft ''succ_rate'' 12 @ padLeft ''trials'' 8 @ padLeft ''last_err'' 16) #
     replicate 71 (CHR ''-'') # map (\<lambda>(k, r). table_row fixed (Suc k) r) (enumerate 0 (snd tr))"

text \<open>The value that \<open>--json\<close> prints, or the lines of the tables.\<close>

datatype stats_output = Stats_json "(TaskType \<times> stat_row list) list" | Stats_text "string list"

definition runStats ::
  "(nat \<Rightarrow> double \<Rightarrow> string) \<Rightarrow> nat \<Rightarrow> js_math \<Rightarrow> rat option \<Rightarrow> rat option \<Rightarrow> rng \<Rightarrow> TaskType option \<Rightarrow> bool \<Rightarrow> string + (string, string) dict \<Rightarrow>
   CapabilityStats \<Rightarrow> string + stats_output sampled" where
  "runStats fixed fuel M ea eb rng role js errs s = (case errs of Inl e \<Rightarrow> Inl e
     | Inr m \<Rightarrow> Inr (case all_rows fuel M ea eb rng 0 m s (case role of None \<Rightarrow> TASK_TYPES | Some t \<Rightarrow> [t]) of
         Sampled rows k \<Rightarrow> Sampled (if js then Stats_json rows
           else Stats_text (concat (map (role_table fixed) rows) @
             (if fst (stats_all s) = [] then
               [newline # ''No observations recorded yet '' @ [CHR 0xE2, CHR 0x80, CHR 0x94] @ '' every score is sampled from the prior.'',
                ''Counts populate once the router starts emitting `provider_outcome` events (M013.3, in flight).''] else []))) k
       | SampleError \<Rightarrow> SampleError | OutOfFuel \<Rightarrow> OutOfFuel | Unordered \<Rightarrow> Unordered))"

section \<open>The state of a task is where its last event put it\<close>

definition events_of :: "string \<Rightarrow> json list \<Rightarrow> json list" where
  "events_of i es = filter (\<lambda>e. event_task e = Some i) es"

definition task_after :: "string \<Rightarrow> json list \<Rightarrow> TaskState" where
  "task_after i es = foldl (\<lambda>st e. task_moved e st) (new_task_state i) (events_of i es)"

lemma task_moved_simps:
  "ts_id (task_moved e st) = ts_id st" "ts_status (task_moved e st) = (case moves_to e of None \<Rightarrow> ts_status st | Some x \<Rightarrow> x)"
  by (simp_all add: task_moved_def split: option.splits TaskStatus.splits)

lemma task_after_id: "ts_id (task_after i es) = i"
proof -
  have "ts_id (foldl (\<lambda>st e. task_moved e st) st es) = ts_id st" for st es
    by (induction es arbitrary: st) (simp_all add: task_moved_simps)
  then show ?thesis by (simp add: task_after_def new_task_state_def)
qed

lemma task_after_status: "ts_status (task_after i es) = last (Pending # List.map_filter moves_to (events_of i es))"
proof -
  have "ts_status (foldl (\<lambda>st e. task_moved e st) st es) = last (ts_status st # List.map_filter moves_to es)" for st es
    by (induction es arbitrary: st) (simp_all add: task_moved_simps map_filter_simps split: option.splits)
  then show ?thesis by (simp add: task_after_def new_task_state_def)
qed

lemma derived_dict:
  "distinct (dkeys (foldl derive_step [] es)) \<and>
   dget (foldl derive_step [] es) i = (if events_of i es = [] then None else Some (task_after i es))"
proof (induction es arbitrary: i rule: rev_induct)
  case Nil
  then show ?case by (simp add: dkeys_def events_of_def)
next
  case (snoc e es)
  have k: "distinct (dkeys (foldl derive_step [] es))" using snoc.IH by blast
  show ?case
  proof (cases "event_task e")
    case None
    then show ?thesis using snoc.IH by (simp add: derive_step_def events_of_def task_after_def)
  next
    case (Some j)
    have a: "task_after j (es @ [e]) = task_moved e (task_after j es)" "events_of j (es @ [e]) \<noteq> []"
      using Some by (simp_all add: task_after_def events_of_def)
    have n: "events_of j es = [] \<Longrightarrow> task_after j es = new_task_state j" by (simp add: task_after_def)
    have b: "j' \<noteq> j \<Longrightarrow> events_of j' (es @ [e]) = events_of j' es" for j' using Some by (simp add: events_of_def)
    show ?thesis using snoc.IH [of i] snoc.IH [of j] k Some a n b [of i] dict.distinct_put
      by (auto simp: derive_step_def dict.get_put task_after_def)
  qed
qed

lemma dict_values: "distinct (dkeys m) \<Longrightarrow> t \<in> set (map snd m) \<longleftrightarrow> (\<exists>k. dget m k = Some t)"
  by (force simp: dget_def dkeys_def)

text \<open>C32.
  The states that \<open>state\<close> reports. Each task of an event is listed once; its state is the one that the last of its own
  events that moves it put it in, and pending when none does; the current task is one in progress, and there is none only when no task is.\<close>

theorem derived_states:
  assumes "deriveTaskStates es = Inr (ts, cur)"
  shows "distinct (map ts_id ts) \<and> set (map ts_id ts) = {i. \<exists>e \<in> set es. event_task e = Some i} \<and>
    list_all (\<lambda>t. ts_status t = last (Pending # List.map_filter moves_to (events_of (ts_id t) es))) ts \<and>
    (case cur of None \<Rightarrow> list_all (\<lambda>t. ts_status t \<noteq> In_progress) ts | Some i \<Rightarrow> \<exists>t \<in> set ts. ts_id t = i \<and> ts_status t = In_progress)"
proof -
  let ?m = "foldl derive_step [] es"
  have ts: "ts = map snd ?m" and cur: "cur = map_option ts_id (List.find (\<lambda>t. ts_status t = In_progress) ts)"
    using assms by (auto simp: deriveTaskStates_def Let_def split: if_splits)
  have g: "dget ?m i = (if events_of i es = [] then None else Some (task_after i es))" for i using derived_dict by blast
  have d: "distinct (dkeys ?m)" using derived_dict by blast
  have "ts_id (snd e) = fst e" if "e \<in> set ?m" for e
  proof -
    have "dget ?m (fst e) = Some (snd e)" using that d by (simp add: dget_def dkeys_def)
    then have "snd e = task_after (fst e) es" using g [of "fst e"] by (simp split: if_splits)
    then show ?thesis using task_after_id by simp
  qed
  then have ids: "map ts_id ts = dkeys ?m" by (simp add: ts dkeys_def)
  have 1: "distinct (map ts_id ts)" using d ids by simp
  have 2: "set (map ts_id ts) = {i. \<exists>e \<in> set es. event_task e = Some i}"
    unfolding ids using g by (auto simp: dict.has_iff events_of_def filter_empty_conv split: if_splits)
  have 3: "list_all (\<lambda>t. ts_status t = last (Pending # List.map_filter moves_to (events_of (ts_id t) es))) ts"
    unfolding list_all_iff
  proof
    fix t assume "t \<in> set ts"
    then obtain k where "dget ?m k = Some t" using dict_values [OF d] ts by blast
    then have t: "t = task_after k es" using g [of k] by (auto split: if_splits)
    show "ts_status t = last (Pending # List.map_filter moves_to (events_of (ts_id t) es))"
      unfolding t task_after_id by (rule task_after_status)
  qed
  have 4: "case cur of None \<Rightarrow> list_all (\<lambda>t. ts_status t \<noteq> In_progress) ts | Some i \<Rightarrow> \<exists>t \<in> set ts. ts_id t = i \<and> ts_status t = In_progress"
    unfolding cur by (auto simp: find_None_iff find_Some_iff list_all_iff split: option.splits)
  from 1 2 3 4 show ?thesis by blast
qed

lemma derived_states_witness:
  "deriveTaskStates [JObj [(''taskId'', JStr ''a''), (''type'', JStr ''task_started'')], JObj [(''taskId'', JStr ''b''), (''type'', JStr ''x'')],
      JObj [(''taskId'', JStr ''a''), (''type'', JStr ''task_failed'')]] =
     Inr ([\<lparr>ts_id = ''a'', ts_status = Failed, ts_startedAt = None, ts_completedAt = None\<rparr>, new_task_state ''b''], None) \<and>
   distinct (map ts_id [\<lparr>ts_id = ''a'', ts_status = Failed, ts_startedAt = None, ts_completedAt = None\<rparr>, new_task_state ''b''])"
proof -
  have r: "deriveTaskStates [JObj [(''taskId'', JStr ''a''), (''type'', JStr ''task_started'')], JObj [(''taskId'', JStr ''b''), (''type'', JStr ''x'')],
      JObj [(''taskId'', JStr ''a''), (''type'', JStr ''task_failed'')]] =
     Inr ([\<lparr>ts_id = ''a'', ts_status = Failed, ts_startedAt = None, ts_completedAt = None\<rparr>, new_task_state ''b''], None)"
    by (simp add: deriveTaskStates_def derive_step_def event_task_def task_moved_def moves_to_def event_stamp_def new_task_state_def dict_simps)
  with derived_states [OF r] show ?thesis by blast
qed

section \<open>The command can fail\<close>

text \<open>A line \<open>null\<close> in the latest ledger makes the command fail, which its header says exits with 0 always.\<close>

lemma null_line_fails:
  assumes "findLatestRunFile dir entries = Some (p, i)" "read p = Some s" "JNull \<in> set (state_events s)"
  shows "collectState dir entries read stats sandbox probe = Inl type_error" "lastErrorClassByProvider dir entries read = Inl type_error"
  using assms by (simp_all add: collectState_def deriveTaskStates_def lastErrorClassByProvider_def Let_def)

section \<open>Trials\<close>

definition trials_of :: "ProviderId \<Rightarrow> CapabilityCounts list \<Rightarrow> nat" where
  "trials_of p cs = sum_list (map (\<lambda>c. if cc_provider c = p then successes c + failures c else 0) cs)"

lemma trials_dict:
  "distinct (dkeys (foldl add_trials [] cs)) \<and>
   dget (foldl add_trials [] cs) p = (if p \<in> cc_provider ` set cs then Some (trials_of p cs) else None)"
proof (induction cs arbitrary: p rule: rev_induct)
  case Nil
  then show ?case by (simp add: dkeys_def)
next
  case (snoc c cs)
  have z: "p \<notin> cc_provider ` set cs \<Longrightarrow> trials_of p cs = 0" for p
    by (auto simp: trials_of_def image_iff)
  have t: "trials_of p (cs @ [c]) = trials_of p cs + (if cc_provider c = p then successes c + failures c else 0)" for p
    by (simp add: trials_of_def)
  show ?case using snoc.IH [of p] snoc.IH [of "cc_provider c"] dict.distinct_put z
    by (auto simp: add_trials_def dict.get_put t)
qed

text \<open>Every provider of the store is listed once, by name, with the sum of the trials of its entries.\<close>

lemma loadProviders_totals:
  "(p, n) \<in> set (loadProviders s) \<longleftrightarrow> p \<in> cc_provider ` set (fst (stats_all s)) \<and> n = trials_of p (fst (stats_all s))"
proof -
  let ?m = "foldl add_trials [] (fst (stats_all s))"
  have "distinct (dkeys ?m)" using trials_dict by blast
  then have "(p, n) \<in> set ?m \<longleftrightarrow> dget ?m p = Some n" by (simp add: dget_def dkeys_def)
  then show ?thesis using trials_dict [of "fst (stats_all s)" p] by (auto simp: loadProviders_def)
qed

end
