(* ===== verification/Config_Command.thy ===== *)
theory Config_Command
  imports Gemini_Oauth Summary
begin

text \<open>
  \<open>src/lib/paths.ts\<close> and \<open>src/commands/config.ts\<close>: where configuration, state and cache are, and the command that
  stores API keys, with its wizard. The environment, the resolution of a path, the test for a writable directory, the
  answers of the user and the success of the writes are parameters; the files are \<open>token_file\<close>s by path, and a write
  that fails leaves the file as it was. The log lines of \<open>paths.ts\<close> are left out.
\<close>

section \<open>Paths\<close>

record path_world =
  pw_env :: environment
  pw_home :: string
  pw_resolve :: "string \<Rightarrow> string"
  pw_writable :: "string \<Rightarrow> bool"

definition xdg_dir :: "path_world \<Rightarrow> string \<Rightarrow> string \<Rightarrow> string" where
  "xdg_dir P variable fallback_dir = (case non_empty (pw_env P variable) of
     Some xdg \<Rightarrow> if pw_writable P (pw_resolve P xdg) then join_path (pw_resolve P xdg) ''apohara'' else join_path (pw_home P) fallback_dir
   | None \<Rightarrow> join_path (pw_home P) fallback_dir)"

definition getConfigDir :: "path_world \<Rightarrow> string" where
  "getConfigDir P = xdg_dir P ''XDG_CONFIG_HOME'' ''.apohara''"

definition getStateDir :: "path_world \<Rightarrow> string" where
  "getStateDir P = xdg_dir P ''XDG_STATE_HOME'' ''.apohara''"

definition getCacheDir :: "path_world \<Rightarrow> string" where
  "getCacheDir P = xdg_dir P ''XDG_CACHE_HOME'' ''.apohara/cache''"

text \<open>\<open>mkdirSync\<close> throws or not.\<close>

definition ensureDir :: "string option \<Rightarrow> bool" where
  "ensureDir mkdir_error \<longleftrightarrow> mkdir_error = None"

definition credentials_path :: "path_world \<Rightarrow> string" where
  "credentials_path P = join_path (getConfigDir P) ''credentials.json''"

definition getConfigPath :: "path_world \<Rightarrow> string" where
  "getConfigPath P = join_path (getConfigDir P) ''config.json''"

definition showPaths :: "path_world \<Rightarrow> string list" where
  "showPaths P = [''Apohara Paths:'', ''  Config: '' @ getConfigDir P, ''  State:  '' @ getStateDir P, ''  Cache:  '' @ getCacheDir P,
     ''  Credentials: '' @ credentials_path P, ''  Config file: '' @ getConfigPath P]"

section \<open>Keys\<close>

definition CREDENTIALS_TEMPLATE :: "(string, json) dict" where
  "CREDENTIALS_TEMPLATE = [(''OPENCODE_API_KEY'', JStr []), (''DEEPSEEK_API_KEY'', JStr []), (''ANTHROPIC_API_KEY'', JStr []),
     (''OPENAI_API_KEY'', JStr []), (''GOOGLE_AI_STUDIO_API_KEY'', JStr [])]"

definition sanitizeKey :: "string \<Rightarrow> string" where
  "sanitizeKey key = (if length key < 4 then ''****'' else ''****'' @ drop (length key - 4) key)"

text \<open>\<open>None\<close> is a valid key, else the error.\<close>

definition validateApiKey :: "string \<Rightarrow> string \<Rightarrow> string option" where
  "validateApiKey keyName value =
    (if value = [] then None
     else if keyName = ''ANTHROPIC_API_KEY'' then
       (if \<not> starts_with value ''sk-ant-api03-'' then Some ''Invalid Anthropic API key format. Keys must start with 'sk-ant-api03-'. Note: OAuth tokens (sk-ant-oat01-*) are not supported.''
        else if length value < 40 then Some ''Invalid Anthropic API key: too short (minimum 40 characters).'' else None)
     else if keyName = ''OPENCODE_API_KEY'' then
       (if \<not> starts_with value ''oc-'' \<and> \<not> starts_with value ''opencode-'' then Some ''Invalid OpenCode API key format. Keys must start with 'oc-' or 'opencode-'.''
        else if length value < 20 then Some ''Invalid OpenCode API key: too short (minimum 20 characters).'' else None)
     else if keyName = ''OPENAI_API_KEY'' then
       (if \<not> starts_with value ''sk-'' \<and> \<not> starts_with value ''sk-proj-'' then Some ''Invalid OpenAI API key format. Keys must start with 'sk-' or 'sk-proj-'.''
        else if length value < 40 then Some ''Invalid OpenAI API key: too short (minimum 40 characters).'' else None)
     else if keyName = ''DEEPSEEK_API_KEY'' then
       (if \<not> starts_with value ''sk-'' \<and> \<not> starts_with value ''deepseek-'' then Some ''Invalid DeepSeek API key format. Keys must start with 'sk-' or 'deepseek-'.''
        else if length value < 20 then Some ''Invalid DeepSeek API key: too short (minimum 20 characters).'' else None)
     else if keyName = ''GOOGLE_AI_STUDIO_API_KEY'' then
       (if \<not> starts_with value ''AIza'' then Some ''Invalid Google AI Studio API key format. Keys must start with 'AIza'.''
        else if length value \<noteq> 39 then Some ''Invalid Google AI Studio API key: must be exactly 39 characters (AIza + 35 chars).'' else None)
     else if length value < 10 then Some (''Invalid API key for '' @ keyName @ '': too short (minimum 10 characters).'') else None)"

section \<open>The credentials file\<close>

text \<open>The own properties of a value that \<open>{...v}\<close> copies.\<close>

definition own_properties :: "json \<Rightarrow> (string, json) dict" where
  "own_properties v = (case v of JObj kvs \<Rightarrow> kvs
     | JArr vs \<Rightarrow> zip (map show_nat [0..<length vs]) vs
     | JStr s \<Rightarrow> zip (map show_nat [0..<length s]) (map (\<lambda>c. JStr [c]) s)
     | _ \<Rightarrow> [])"

definition copy_properties :: "(string, json) dict \<Rightarrow> (string, json) dict \<Rightarrow> (string, json) dict" where
  "copy_properties target source =
     foldl (\<lambda>m k. dset k (case dget source k of Some v \<Rightarrow> v | None \<Rightarrow> JUndef) m) target (dkeys source)"

type_synonym file_map = "string \<Rightarrow> token_file"

definition loadCredentials :: "path_world \<Rightarrow> file_map \<Rightarrow> (string, json) dict" where
  "loadCredentials P fm = (case fm (credentials_path P) of
     Json_file v \<Rightarrow> copy_properties CREDENTIALS_TEMPLATE (own_properties v) | _ \<Rightarrow> CREDENTIALS_TEMPLATE)"

text \<open>A failed change of mode is reported as a failure and leaves the new file.\<close>

definition saveCredentials :: "path_world \<Rightarrow> save_answers \<Rightarrow> (string, json) dict \<Rightarrow> file_map \<Rightarrow> bool \<times> string list \<times> file_map" where
  "saveCredentials P a credentials fm =
    (if \<not> ensureDir (sv_mkdir a) then (False, [failed_mark @ '' Failed to create config directory''], fm)
     else case sv_write a of
       Some e \<Rightarrow> (False, [failed_mark @ '' Failed to save credentials:'' @ e], fm)
     | None \<Rightarrow> (let fm' = fm(credentials_path P := Json_file (reparsed (JObj credentials))) in
         case sv_chmod a of
           Some e \<Rightarrow> (False, [failed_mark @ '' Failed to save credentials:'' @ e], fm')
         | None \<Rightarrow> (True, [done_mark @ '' Saved credentials to '' @ credentials_path P @ '' (600 permissions)''], fm')))"

section \<open>The dialog\<close>

text \<open>The answers that are still to come, and what was printed. \<open>None\<close>: the question waits for an answer that never comes.\<close>

record dialog =
  dl_answers :: "string list"
  dl_out :: "string list"

definition say :: "string \<Rightarrow> dialog \<Rightarrow> dialog" where
  "say t d = d\<lparr>dl_out := dl_out d @ [t]\<rparr>"

definition question :: "string \<Rightarrow> dialog \<Rightarrow> string option \<times> dialog" where
  "question q d = (case dl_answers d of [] \<Rightarrow> (None, say q d) | a # r \<Rightarrow> (Some a, (say q d)\<lparr>dl_answers := r\<rparr>))"

definition prompt_text :: "string \<Rightarrow> string \<Rightarrow> string" where
  "prompt_text label defaultValue = (if defaultValue \<noteq> [] then label @ '' ['' @ sanitizeKey defaultValue @ '']: '' else label @ '': '')"

text \<open>\<open>prompt\<close>, and both branches of \<open>promptSecure\<close>, which ask in the same way.\<close>

definition promptSecure :: "string \<Rightarrow> string \<Rightarrow> dialog \<Rightarrow> string option \<times> dialog" where
  "promptSecure label defaultValue d =
    (case question (prompt_text label defaultValue) d of
       (None, d1) \<Rightarrow> (None, d1)
     | (Some answer, d1) \<Rightarrow> (Some (if trim answer = [] then defaultValue else trim answer), d1))"

definition confirms :: "bool \<Rightarrow> string \<Rightarrow> bool" where
  "confirms defaultYes answer = (let normalized = to_lower (trim answer) in
     if normalized = [] then defaultYes else normalized = ''y'' \<or> normalized = ''yes'')"

definition ask_confirm :: "string \<Rightarrow> bool \<Rightarrow> dialog \<Rightarrow> bool option \<times> dialog" where
  "ask_confirm label defaultYes d =
    (case question (label @ (if defaultYes then '' [Y/n]'' else '' [y/N]'') @ '': '') d of
       (None, d1) \<Rightarrow> (None, d1) | (Some answer, d1) \<Rightarrow> (Some (confirms defaultYes answer), d1))"

section \<open>The wizard\<close>

definition wizard_keys :: "(string \<times> string) list" where
  "wizard_keys = [(''OPENCODE_API_KEY'', ''OpenCode API Key''), (''DEEPSEEK_API_KEY'', ''DeepSeek API Key''),
     (''ANTHROPIC_API_KEY'', ''Anthropic API Key''), (''OPENAI_API_KEY'', ''OpenAI API Key''),
     (''GOOGLE_AI_STUDIO_API_KEY'', ''Google AI Studio API Key'')]"

text \<open>The value of one field: a second try is asked for once, and an invalid key is dropped.\<close>

definition wizard_field :: "string \<Rightarrow> string \<Rightarrow> string \<Rightarrow> dialog \<Rightarrow> string option \<times> dialog" where
  "wizard_field key label existing d =
    (case promptSecure label existing d of
       (None, d1) \<Rightarrow> (None, d1)
     | (Some value, d1) \<Rightarrow> (case validateApiKey key value of
         None \<Rightarrow> (Some value, d1)
       | Some e \<Rightarrow> (case ask_confirm ''Try again?'' False (say (newline # caution_mark @ ''  '' @ e) d1) of
           (None, d2) \<Rightarrow> (None, d2)
         | (Some False, d2) \<Rightarrow> (Some [], d2)
         | (Some True, d2) \<Rightarrow> (case promptSecure label [] d2 of
             (None, d3) \<Rightarrow> (None, d3)
           | (Some again, d3) \<Rightarrow> if validateApiKey key again = None then (Some again, d3)
               else (Some [], say (newline # failed_mark @ '' Invalid key format. Skipping '' @ label @ ''.'') d3)))))"

text \<open>A stored value that is no string is outside the model when it is not falsy.\<close>

definition stored_text :: "json \<Rightarrow> string option" where
  "stored_text v = (case v of JStr s \<Rightarrow> Some s | _ \<Rightarrow> if truthy v then None else Some [])"

definition stored :: "(string, json) dict \<Rightarrow> string \<Rightarrow> string option" where
  "stored c k = stored_text (case dget c k of None \<Rightarrow> JUndef | Some v \<Rightarrow> v)"

datatype 'a wizard_end = Wz_waits | Wz_outside | Wz_value 'a

fun wizard_fields :: "(string, json) dict \<Rightarrow> (string \<times> string) list \<Rightarrow> (string, json) dict \<Rightarrow> dialog \<Rightarrow>
    (string, json) dict wizard_end \<times> dialog" where
  "wizard_fields existing [] credentials d = (Wz_value credentials, d)"
| "wizard_fields existing ((key, label) # fs) credentials d =
    (case stored existing key of None \<Rightarrow> (Wz_outside, d)
     | Some old \<Rightarrow> (case wizard_field key label old d of
         (None, d1) \<Rightarrow> (Wz_waits, d1)
       | (Some value, d1) \<Rightarrow> wizard_fields existing fs (dset key (JStr value) credentials) d1))"

definition summary_line :: "(string, json) dict \<Rightarrow> string \<times> string \<Rightarrow> string" where
  "summary_line credentials f = (let value = (case stored credentials (fst f) of None \<Rightarrow> [] | Some s \<Rightarrow> s) in
     ''  '' @ snd f @ '': '' @ (if value \<noteq> [] then sanitizeKey value else ''(not set)''))"

datatype config_end = Config_done | Config_exits nat | Config_waits | Config_outside

definition runWizard :: "path_world \<Rightarrow> save_answers \<Rightarrow> file_map \<Rightarrow> dialog \<Rightarrow> config_end \<times> dialog \<times> file_map" where
  "runWizard P a fm d =
    (let existing = loadCredentials P fm in
     case wizard_fields existing wizard_keys existing (say ''Press Ctrl+C to cancel at any time'' d) of
       (Wz_waits, d1) \<Rightarrow> (Config_waits, d1, fm)
     | (Wz_outside, d1) \<Rightarrow> (Config_outside, d1, fm)
     | (Wz_value credentials, d1) \<Rightarrow>
       (case ask_confirm (newline # ''Save credentials?'') True
           (d1\<lparr>dl_out := dl_out d1 @ map (summary_line credentials) wizard_keys\<rparr>) of
          (None, d2) \<Rightarrow> (Config_waits, d2, fm)
        | (Some False, d2) \<Rightarrow> (Config_done, say (newline # failed_mark @ '' Configuration not saved.'') d2, fm)
        | (Some True, d2) \<Rightarrow> (case saveCredentials P a credentials fm of (ok, printed, fm') \<Rightarrow>
            (Config_done, say (newline # done_mark @ '' Configuration complete!'') (d2\<lparr>dl_out := dl_out d2 @ printed\<rparr>), fm'))))"

section \<open>The command\<close>

text \<open>\<open>--set key=value\<close>: up to the first \<open>=\<close>, and what is after it.\<close>

definition set_key :: "string \<Rightarrow> string" where
  "set_key option = takeWhile (\<lambda>c. c \<noteq> CHR ''='') option"

definition set_value :: "string \<Rightarrow> string" where
  "set_value option = drop 1 (dropWhile (\<lambda>c. c \<noteq> CHR ''='') option)"

definition config_set :: "path_world \<Rightarrow> save_answers \<Rightarrow> string \<Rightarrow> file_map \<Rightarrow> dialog \<Rightarrow> config_end \<times> dialog \<times> file_map" where
  "config_set P a opt fm d =
    (let key = set_key opt; value = set_value opt in
     if key = [] \<or> \<not> dhas CREDENTIALS_TEMPLATE key then
       (Config_exits 1, say (''Valid keys: '' @ join '', '' (dkeys CREDENTIALS_TEMPLATE)) (say (failed_mark @ '' Unknown key: '' @ key) d), fm)
     else case validateApiKey key value of
       Some e \<Rightarrow> (Config_exits 1, say (failed_mark @ '' '' @ e) d, fm)
     | None \<Rightarrow> (case saveCredentials P a (dset key (JStr value) (loadCredentials P fm)) fm of (ok, printed, fm') \<Rightarrow>
         (Config_done, say (done_mark @ '' Set '' @ key @ ''='' @ sanitizeKey value) (d\<lparr>dl_out := dl_out d @ printed\<rparr>), fm')))"

definition config_command :: "path_world \<Rightarrow> save_answers \<Rightarrow> bool \<Rightarrow> string option \<Rightarrow> string list \<Rightarrow> file_map \<Rightarrow>
    config_end \<times> dialog \<times> file_map" where
  "config_command P a show_paths set_opt inputs fm =
    (let d = \<lparr>dl_answers = inputs, dl_out = []\<rparr> in
     if show_paths then (Config_done, d\<lparr>dl_out := showPaths P\<rparr>, fm)
     else case set_opt of
       Some (c # cs) \<Rightarrow> config_set P a (c # cs) fm d
     | _ \<Rightarrow> runWizard P a fm d)"

section \<open>Properties of the parts\<close>

lemma validate_agrees: "validateApiKey k v = validateApiKeyFormat k v"
  by (simp add: validateApiKey_def validateApiKeyFormat_def Let_def)

lemma copied_keys:
  "dget (foldl (\<lambda>m k. dset k (f k) m) target ks) k = (if k \<in> set ks then Some (f k) else dget target k)"
  by (induction ks rule: rev_induct) (auto simp: dict.get_put)

lemma get_copied: "dget (copy_properties target source) k = (case dget source k of Some v \<Rightarrow> Some v | None \<Rightarrow> dget target k)"
proof -
  have "k \<in> set (dkeys source) \<longleftrightarrow> dget source k \<noteq> None" by (rule dict.has_iff)
  then show ?thesis by (simp add: copy_properties_def copied_keys split: option.split)
qed

lemma distinct_copied:
  assumes "distinct (dkeys target)"
  shows "distinct (dkeys (copy_properties target source))"
proof -
  have "distinct (dkeys (foldl (\<lambda>m k. dset k (f k) m) target ks))" for f and ks :: "string list"
    using assms by (induction ks rule: rev_induct) (auto intro: dict.distinct_put)
  then show ?thesis by (simp add: copy_properties_def)
qed

lemma template_distinct: "distinct (dkeys CREDENTIALS_TEMPLATE)"
  by (simp add: CREDENTIALS_TEMPLATE_def dkeys_def)

lemma loaded_distinct: "distinct (dkeys (loadCredentials P fm))"
  by (auto simp: loadCredentials_def template_distinct intro: distinct_copied split: token_file.split)

text \<open>Reading a property of an object that was written and read back.\<close>

lemma get_reparsed:
  assumes "distinct (dkeys kvs)"
  shows "opt_get (reparsed (JObj kvs)) k = (case dget kvs k of None \<Rightarrow> JUndef | Some v \<Rightarrow> reparsed v)"
proof -
  have "map_of (map (\<lambda>kv. (fst kv, reparsed (snd kv))) (filter (\<lambda>kv. snd kv \<noteq> JUndef) kvs)) k =
      (case map_of kvs k of None \<Rightarrow> None | Some v \<Rightarrow> if v = JUndef then None else Some (reparsed v))"
    using assms by (induction kvs) (auto simp: dkeys_def map_of_eq_None_iff image_iff split: option.splits, (metis map_of_eq_None_iff option.distinct(1) fst_conv image_eqI)?)
  then show ?thesis by (auto simp: opt_get_def dget_def split: option.splits)
qed

text \<open>
  What a file holds is what \<open>JSON.parse\<close> returns: no object repeats a key, and nothing in it is
  \<open>undefined\<close>, so that writing and reading it once more changes nothing.\<close>

definition parsed_file :: "token_file \<Rightarrow> bool" where
  "parsed_file f = (case f of Json_file v \<Rightarrow> wf_json v \<and> reparsed v = v | _ \<Rightarrow> True)"

lemma extract_reparsed:
  assumes "wf_json v"
  shows "extractKey (reparsed v) = extractKey v"
proof (cases v)
  case (JObj kvs)
  then have "distinct (dkeys kvs)" using assms by (simp add: dkeys_def)
  from get_reparsed [OF this, of "''apiKey''"] have
    "(case dget (map (\<lambda>kv. (fst kv, reparsed (snd kv))) (filter (\<lambda>kv. snd kv \<noteq> JUndef) kvs)) ''apiKey'' of None \<Rightarrow> JUndef | Some w \<Rightarrow> w) =
      (case dget kvs ''apiKey'' of None \<Rightarrow> JUndef | Some w \<Rightarrow> reparsed w)" by (simp add: opt_get_def)
  moreover have "extractKey (JObj m) = (case (case dget m ''apiKey'' of None \<Rightarrow> JUndef | Some w \<Rightarrow> w) of JStr (c # cs) \<Rightarrow> Some (c # cs) | _ \<Rightarrow> None)" for m
    by (simp add: extractKey_def split: option.split json.split)
  moreover have "(case reparsed w of JStr (c # cs) \<Rightarrow> Some (c # cs) | _ \<Rightarrow> None) = (case w of JStr (c # cs) \<Rightarrow> Some (c # cs) | _ \<Rightarrow> None)" for w
    by (cases w) simp_all
  ultimately show ?thesis using JObj by (simp split: option.split)
qed (simp_all add: extractKey_def)

text \<open>The names under which a key is looked up: those of the providers, and those that the router asks for.\<close>

definition asked_name :: "string \<Rightarrow> bool" where
  "asked_name n \<longleftrightarrow> (\<exists>p. n = provider_name p) \<or> (\<exists>k. n = key_name k)"

lemma asked_name_not_digits: "asked_name n \<Longrightarrow> n \<noteq> show_nat i"
proof
  assume "asked_name n" "n = show_nat i"
  moreover have "list_all is_digit (show_nat i)" by (rule show_nat_digits)
  moreover have "\<not> list_all is_digit (provider_name p)" for p by (cases p) (simp_all add: is_digit_def)
  moreover have "\<not> list_all is_digit (key_name k)" for k by (cases k) (simp_all add: is_digit_def)
  ultimately show False by (auto simp: asked_name_def)
qed

lemma asked_name_template: "asked_name n \<Longrightarrow> \<not> dhas CREDENTIALS_TEMPLATE n"
proof -
  have "\<not> dhas CREDENTIALS_TEMPLATE (provider_name p)" for p by (cases p) (simp_all add: CREDENTIALS_TEMPLATE_def dhas_def dget_Cons)
  moreover have "\<not> dhas CREDENTIALS_TEMPLATE (key_name k)" for k by (cases k) (simp_all add: CREDENTIALS_TEMPLATE_def dhas_def dget_Cons)
  ultimately show "asked_name n \<Longrightarrow> ?thesis" by (auto simp: asked_name_def)
qed

lemma client_not_digits: "''claude-oauth-client-id'' \<noteq> show_nat i"
  using show_nat_digits [of i] by (auto simp: is_digit_def dest!: sym [of _ "show_nat i"])

lemma get_own_property:
  assumes "\<And>i. k \<noteq> show_nat i"
  shows "(case dget (own_properties v) k of None \<Rightarrow> JUndef | Some w \<Rightarrow> w) = opt_get v k"
proof -
  have z: "map_of (zip (map show_nat ns) vs) k = None" for ns and vs :: "json list"
  proof -
    have "k \<notin> set (map show_nat ns)" using assms by fastforce
    then show ?thesis by (metis map_of_eq_None_iff imageE prod.collapse set_zip_leftD)
  qed
  show ?thesis by (cases v) (simp_all add: own_properties_def opt_get_def dget_def z)
qed

section \<open>A key that nobody reads\<close>

text \<open>An entry of the credentials file, for a name that is no key of the template.\<close>

definition file_entry :: "token_file \<Rightarrow> string \<Rightarrow> json" where
  "file_entry f k = (case f of Json_file v \<Rightarrow> opt_get v k | _ \<Rightarrow> JUndef)"

lemma loaded_entry:
  assumes "\<not> dhas CREDENTIALS_TEMPLATE k" "\<And>i. k \<noteq> show_nat i"
  shows "(case dget (loadCredentials P fm) k of None \<Rightarrow> JUndef | Some w \<Rightarrow> w) = file_entry (fm (credentials_path P)) k"
  using assms get_own_property [OF assms(2)]
  by (auto simp: loadCredentials_def file_entry_def get_copied dhas_def split: token_file.split option.split)
    (metis option.simps(4) option.simps(5))+

text \<open>What a successful write leaves in the file for a name that was not changed.\<close>

lemma saved_entry:
  assumes "saveCredentials P a c fm = (ok, printed, fm')" "distinct (dkeys c)"
    and "(case dget c k of None \<Rightarrow> JUndef | Some w \<Rightarrow> w) = file_entry (fm (credentials_path P)) k"
  shows "file_entry (fm' q) k \<in> {file_entry (fm q) k, reparsed (file_entry (fm q) k)}"
proof (cases "fm' = fm")
  case False
  then have f: "fm' = fm(credentials_path P := Json_file (reparsed (JObj c)))"
    using assms(1) by (auto simp: saveCredentials_def Let_def split: if_splits option.splits)
  have "opt_get (reparsed (JObj c)) k = reparsed (file_entry (fm (credentials_path P)) k)"
    using get_reparsed [OF assms(2), of k] assms(3) by (auto split: option.splits)
  then have "file_entry (Json_file (reparsed (JObj c))) k = reparsed (file_entry (fm (credentials_path P)) k)"
    by (simp add: file_entry_def)
  then show ?thesis using f by simp
qed simp

lemma fields_other:
  assumes "wizard_fields old fs c d = (Wz_value c', d')" "distinct (dkeys c)"
  shows "distinct (dkeys c') \<and> (\<forall>k. k \<notin> fst ` set fs \<longrightarrow> dget c' k = dget c k)"
  using assms
proof (induction fs arbitrary: c d)
  case (Cons f fs)
  obtain key label where f: "f = (key, label)" by force
  with Cons.prems obtain v d1 where w: "wizard_fields old fs (dset key (JStr v) c) d1 = (Wz_value c', d')"
    by (auto split: option.splits prod.splits)
  have "distinct (dkeys (dset key (JStr v) c))" using Cons.prems(2) by (rule dict.distinct_put)
  from Cons.IH [OF w this] show ?case using f by (auto simp: dict.get_put)
qed auto

lemma wizard_keys_template: "fst ` set wizard_keys = set (dkeys CREDENTIALS_TEMPLATE)"
  by (auto simp: wizard_keys_def CREDENTIALS_TEMPLATE_def dkeys_def)

text \<open>Whatever the command does, an entry under another name stays what it was, up to a write and a read.\<close>

lemma other_entries_kept:
  assumes "config_command P a sp opt ins fm = (e, d, fm')" "\<not> dhas CREDENTIALS_TEMPLATE k" "\<And>i. k \<noteq> show_nat i"
  shows "file_entry (fm' q) k \<in> {file_entry (fm q) k, reparsed (file_entry (fm q) k)}"
proof (cases "fm' = fm")
  case False
  have l: "(case dget (loadCredentials P fm) k of None \<Rightarrow> JUndef | Some w \<Rightarrow> w) = file_entry (fm (credentials_path P)) k"
    by (rule loaded_entry [OF assms(2,3)])
  obtain c ok printed where s: "saveCredentials P a c fm = (ok, printed, fm')" "distinct (dkeys c)"
    and k: "dget c k = dget (loadCredentials P fm) k"
  proof (cases "opt = None \<or> opt = Some []")
    case True
    then have "runWizard P a fm \<lparr>dl_answers = ins, dl_out = []\<rparr> = (e, d, fm')"
      using assms(1) False by (auto simp: config_command_def Let_def split: if_splits)
    then obtain c d0 d1 ok printed where w: "wizard_fields (loadCredentials P fm) wizard_keys (loadCredentials P fm) d0 = (Wz_value c, d1)"
      "saveCredentials P a c fm = (ok, printed, fm')"
      using False by (auto simp: runWizard_def Let_def split: prod.splits wizard_end.splits option.splits bool.splits)
    have "k \<notin> fst ` set wizard_keys" using assms(2) by (simp add: wizard_keys_template dhas_def dict.has_iff)
    with fields_other [OF w(1) loaded_distinct] that [OF w(2)] show ?thesis by blast
  next
    case cs: False
    then obtain c cs where "opt = Some (c # cs)" by (cases opt; cases "the opt") auto
    then have set: "config_set P a (c # cs) fm \<lparr>dl_answers = ins, dl_out = []\<rparr> = (e, d, fm')"
      using assms(1) False by (auto simp: config_command_def Let_def split: if_splits)
    then have "dhas CREDENTIALS_TEMPLATE (set_key (c # cs))" using False by (auto simp: config_set_def Let_def split: if_splits)
    then have "k \<noteq> set_key (c # cs)" using assms(2) by auto
    moreover from set obtain v ok printed where "saveCredentials P a (dset (set_key (c # cs)) (JStr v) (loadCredentials P fm)) fm = (ok, printed, fm')"
      using False by (auto simp: config_set_def Let_def split: if_splits option.splits prod.splits)
    moreover have "distinct (dkeys (dset (set_key (c # cs)) (JStr v) (loadCredentials P fm)))" for v
      by (rule dict.distinct_put [OF loaded_distinct])
    ultimately show ?thesis using that by (metis dict.get_put_other)
  qed
  show ?thesis by (rule saved_entry [OF s]) (simp add: k l)
qed simp

lemma wf_entry: "parsed_file f \<Longrightarrow> wf_json (file_entry f k)"
proof (cases f)
  case (Json_file v)
  moreover assume "parsed_file f"
  ultimately have w: "wf_json v" by (simp add: parsed_file_def)
  have "wf_json (opt_get v k)"
  proof (cases v)
    case (JObj kvs)
    then have "wf_json x" if "map_of kvs k = Some x" for x
      using w map_of_SomeD [OF that] by (fastforce simp: list_all_iff)
    then show ?thesis using JObj by (simp add: opt_get_def dget_def split: option.split)
  qed (simp_all add: opt_get_def)
  then show ?thesis by (simp add: file_entry_def Json_file)
qed (simp_all add: file_entry_def)

lemma reparsed_property: "reparsed v = v \<Longrightarrow> reparsed (opt_get v k) = opt_get v k"
proof (cases v)
  case (JObj kvs)
  assume "reparsed v = v"
  then have m: "map (\<lambda>kv. (fst kv, reparsed (snd kv))) (filter (\<lambda>kv. snd kv \<noteq> JUndef) kvs) = kvs" by (simp add: JObj)
  then have "length (filter (\<lambda>kv. snd kv \<noteq> JUndef) kvs) = length kvs" by (metis length_map)
  then have "filter (\<lambda>kv. snd kv \<noteq> JUndef) kvs = kvs" by (metis length_filter_less nat_neq_iff filter_True)
  with m have "map (\<lambda>kv. (fst kv, reparsed (snd kv))) kvs = map id kvs" by simp
  then have "\<forall>kv\<in>set kvs. (fst kv, reparsed (snd kv)) = id kv" by (simp only: map_eq_conv)
  then have "reparsed x = x" if "map_of kvs k = Some x" for x
    using map_of_SomeD [OF that] by (metis id_apply prod.inject fst_conv snd_conv)
  then show ?thesis by (simp add: JObj opt_get_def dget_def split: option.split)
qed (simp_all add: opt_get_def)

lemma reparsed_entry: "parsed_file f \<Longrightarrow> reparsed (file_entry f k) = file_entry f k"
  by (cases f) (simp_all add: parsed_file_def file_entry_def reparsed_property)

text \<open>C25.
  Configuring a key changes no key. Whatever is set or answered to the wizard, under every name that a key is looked up
  by the two resolvers and \<open>getProviderKey\<close> give, in every environment and for every credentials file, missing, unreadable or
  with any value that \<open>JSON.parse\<close> returns (\<open>parsed_file\<close>: no repeated keys, no \<open>undefined\<close>), what they gave before the command, and the client id of the Claude login, whatever value it has, is the same value after it: the
  command stores keys under the names of environment variables, and every reader looks in the file under the name of a
  provider.\<close>

theorem configured_keys_unread:
  assumes "config_command P a sp opt ins fm = (e, d, fm')" "parsed_file (fm q)" "asked_name n"
  shows "getProviderKey env (fm' q) n = getProviderKey env (fm q) n \<and>
    resolveCredential env (fm' q) n = resolveCredential env (fm q) n \<and>
    loadClientId (fm' q) ''claude-ai'' = loadClientId (fm q) ''claude-ai''"
proof -
  have key: "file_key f k = extractKey (file_entry f k)" for f k
    by (cases f) (simp_all add: file_key_def file_entry_def extractKey_def)
  from other_entries_kept [OF assms(1) asked_name_template [OF assms(3)] asked_name_not_digits [OF assms(3)], of q]
  have f: "file_key (fm' q) n = file_key (fm q) n"
    using extract_reparsed [OF wf_entry [OF assms(2)]] by (auto simp: key)
  have "\<not> dhas CREDENTIALS_TEMPLATE ''claude-oauth-client-id''" by (simp add: CREDENTIALS_TEMPLATE_def dhas_def dget_Cons)
  from other_entries_kept [OF assms(1) this client_not_digits, of q]
  have "file_entry (fm' q) ''claude-oauth-client-id'' = file_entry (fm q) ''claude-oauth-client-id''"
    using reparsed_entry [OF assms(2)] by auto
  moreover have "loadClientId g ''claude-ai'' = or_else (file_entry g ''claude-oauth-client-id'') (JStr [])" for g
    by (auto simp: loadClientId_def file_entry_def or_else_def opt_get_def Let_def split: token_file.split sum.split)
  ultimately show ?thesis using f by (simp add: getProviderKey_def resolve_sync resolve_cases Let_def split: option.split)
qed

definition demo_paths :: path_world where
  "demo_paths = \<lparr>pw_env = (\<lambda>v. None), pw_home = ''/h'', pw_resolve = id, pw_writable = (\<lambda>p. True)\<rparr>"

definition demo_saves :: save_answers where
  "demo_saves = \<lparr>sv_mkdir = None, sv_write = None, sv_chmod = None\<rparr>"

lemma demo_set:
  "fst (config_command demo_paths demo_saves False (Some ''DEEPSEEK_API_KEY=sk-0123456789abcdefg'') [] (\<lambda>q. No_file)) = Config_done"
  by code_simp

lemma configured_keys_unread_witness:
  "\<exists>d fm'. config_command demo_paths demo_saves False (Some ''DEEPSEEK_API_KEY=sk-0123456789abcdefg'') [] (\<lambda>q. No_file) = (Config_done, d, fm') \<and>
     getProviderKey (\<lambda>v. None) (fm' ''/h/.apohara/credentials.json'') ''deepseek'' = None"
proof -
  obtain d fm' where r: "config_command demo_paths demo_saves False (Some ''DEEPSEEK_API_KEY=sk-0123456789abcdefg'') [] (\<lambda>q. No_file) = (Config_done, d, fm')"
    using demo_set by (metis prod.collapse)
  have n: "asked_name ''deepseek''" unfolding asked_name_def by (metis provider_name.simps(5))
  have "getProviderKey (\<lambda>v. None) No_file ''deepseek'' = None"
    by (simp add: getProviderKey_def ENV_KEY_MAP_def resolve_sync resolve_cases file_key_def non_empty_def FREE_PROVIDERS_def)
  then show ?thesis
    using configured_keys_unread [OF r, where q = "''/h/.apohara/credentials.json''" and env = "\<lambda>v. None" and n = "''deepseek''"] r n by (simp add: parsed_file_def)
qed

section \<open>What is stored\<close>

lemma stored_reparsed: "stored_text (reparsed v) = stored_text v"
  by (cases v) (simp_all add: stored_text_def)

lemma template_entry: "dhas CREDENTIALS_TEMPLATE k \<Longrightarrow> dget CREDENTIALS_TEMPLATE k = Some (JStr [])"
  by (auto simp: CREDENTIALS_TEMPLATE_def dhas_def dget_Cons split: if_splits)

text \<open>What was written is what is loaded, for every key of the template.\<close>

lemma load_written:
  assumes "distinct (dkeys c)" "dhas CREDENTIALS_TEMPLATE k"
  shows "stored (loadCredentials P (fm(credentials_path P := Json_file (reparsed (JObj c))))) k = stored c k"
proof -
  obtain m where m: "reparsed (JObj c) = JObj m" by simp
  have "(case dget m k of None \<Rightarrow> JUndef | Some v \<Rightarrow> v) = (case dget c k of None \<Rightarrow> JUndef | Some v \<Rightarrow> reparsed v)"
    using get_reparsed [OF assms(1), of k] unfolding m by (simp add: opt_get_def)
  then have "stored_text (case dget m k of None \<Rightarrow> JUndef | Some v \<Rightarrow> v) = stored c k"
    by (auto simp: stored_def stored_reparsed split: option.split)
  moreover have "stored_text JUndef = Some []" "stored_text (JStr []) = Some []" by (simp_all add: stored_text_def)
  ultimately show ?thesis
    using template_entry [OF assms(2)] unfolding m
    by (auto simp: loadCredentials_def stored_def own_properties_def get_copied split: option.splits)
qed

text \<open>C26.
  \<open>--set\<close> and the next load. When the name is one of the template, the value passes the check of its name and the
  writes succeed, the next load gives that value, and every other key of the template the value that it had before; nothing else on
  disk is touched. A name or a value that is refused ends the command with code 1 and changes nothing.\<close>

theorem config_set_stored:
  assumes "sv_mkdir a = None" "sv_write a = None" "set_key opt \<noteq> []"
    and "config_command P a False (Some opt) ins fm = (e, d, fm')"
  shows "if dhas CREDENTIALS_TEMPLATE (set_key opt) \<and> validateApiKey (set_key opt) (set_value opt) = None
    then e = Config_done \<and> stored (loadCredentials P fm') (set_key opt) = Some (set_value opt) \<and>
      (\<forall>k\<in>set (dkeys CREDENTIALS_TEMPLATE) - {set_key opt}. stored (loadCredentials P fm') k = stored (loadCredentials P fm) k) \<and>
      (\<forall>q. q \<noteq> credentials_path P \<longrightarrow> fm' q = fm q)
    else e = Config_exits 1 \<and> fm' = fm"
proof -
  let ?c = "dset (set_key opt) (JStr (set_value opt)) (loadCredentials P fm)"
  obtain x xs where "opt = x # xs" using assms(3) by (cases opt) (auto simp: set_key_def)
  then have set: "config_set P a opt fm \<lparr>dl_answers = ins, dl_out = []\<rparr> = (e, d, fm')"
    using assms(4) by (simp add: config_command_def)
  show ?thesis
  proof (cases "dhas CREDENTIALS_TEMPLATE (set_key opt) \<and> validateApiKey (set_key opt) (set_value opt) = None")
    case True
    then have f: "fm' = fm(credentials_path P := Json_file (reparsed (JObj ?c)))" "e = Config_done"
      using set assms(1-3) by (auto simp: config_set_def saveCredentials_def ensureDir_def Let_def split: option.splits prod.splits)
    have l: "stored (loadCredentials P fm') k = stored ?c k" if "dhas CREDENTIALS_TEMPLATE k" for k
      unfolding f(1) by (rule load_written [OF dict.distinct_put [OF loaded_distinct] that])
    have "stored ?c (set_key opt) = Some (set_value opt)" by (simp add: stored_def stored_text_def)
    moreover have "stored ?c k = stored (loadCredentials P fm) k" if "k \<noteq> set_key opt" for k
      using that by (simp add: stored_def)
    ultimately show ?thesis using True l f by (auto simp: dhas_def dict.has_iff)
  next
    case False
    then show ?thesis using set assms(3) by (auto simp: config_set_def Let_def split: option.splits if_splits)
  qed
qed

lemma config_set_stored_witness:
  "\<exists>d fm'. config_command demo_paths demo_saves False (Some ''DEEPSEEK_API_KEY=sk-0123456789abcdefg'') [] (\<lambda>q. No_file) = (Config_done, d, fm') \<and>
     stored (loadCredentials demo_paths fm') ''DEEPSEEK_API_KEY'' = Some ''sk-0123456789abcdefg''"
proof -
  let ?o = "''DEEPSEEK_API_KEY=sk-0123456789abcdefg''"
  have k: "set_key ?o = ''DEEPSEEK_API_KEY''" "set_value ?o = ''sk-0123456789abcdefg''" by code_simp+
  have "dhas CREDENTIALS_TEMPLATE (set_key ?o) \<and> validateApiKey (set_key ?o) (set_value ?o) = None" by code_simp
  moreover obtain d fm' where r: "config_command demo_paths demo_saves False (Some ?o) [] (\<lambda>q. No_file) = (Config_done, d, fm')"
    using demo_set by (metis prod.collapse)
  ultimately show ?thesis using config_set_stored [OF _ _ _ r] r unfolding k by (auto simp: demo_saves_def)
qed

text \<open>The command reports success, and ends with code 0, when nothing could be written.\<close>

lemma set_reports_success:
  assumes "sv_mkdir a = None" "sv_write a = Some m" "dhas CREDENTIALS_TEMPLATE (set_key opt)" "set_key opt \<noteq> []"
    and "validateApiKey (set_key opt) (set_value opt) = None"
  shows "config_set P a opt fm d = (Config_done, say (done_mark @ '' Set '' @ set_key opt @ ''='' @ sanitizeKey (set_value opt))
    (d\<lparr>dl_out := dl_out d @ [failed_mark @ '' Failed to save credentials:'' @ m]\<rparr>), fm)"
  using assms by (simp add: config_set_def saveCredentials_def ensureDir_def Let_def)

section \<open>The wizard stores valid keys\<close>

lemma valid_empty [simp]: "validateApiKey k [] = None"
  by (simp add: validateApiKey_def)

lemma field_valid: "wizard_field key label old d = (Some v, d') \<Longrightarrow> validateApiKey key v = None"
  by (auto simp: wizard_field_def split: prod.splits option.splits bool.splits if_splits)

lemma fields_valid:
  assumes "wizard_fields old fs c d = (Wz_value c', d')" "k \<in> fst ` set fs"
  shows "\<exists>v. dget c' k = Some (JStr v) \<and> validateApiKey k v = None"
  using assms
proof (induction fs arbitrary: c d)
  case (Cons f fs)
  obtain key label where f: "f = (key, label)" by force
  with Cons.prems(1) obtain o1 v d1 where v: "wizard_field key label o1 d = (Some v, d1)"
    and w: "wizard_fields old fs (dset key (JStr v) c) d1 = (Wz_value c', d')"
    by (auto split: option.splits prod.splits)
  have keep: "k \<notin> fst ` set fs \<longrightarrow> dget c' k = dget (dset key (JStr v) c) k" for k
    using w
  proof (induction fs arbitrary: c d1 key v)
    case (Cons g gs)
    then show ?case by (cases g) (fastforce simp: dict.get_put split: option.splits prod.splits)
  qed simp
  show ?case
  proof (cases "k \<in> fst ` set fs")
    case True
    with Cons.IH [OF w] show ?thesis .
  next
    case False
    then have "k = key" using Cons.prems(2) f by auto
    with keep [of key] False field_valid [OF v] show ?thesis by simp
  qed
qed simp

text \<open>When the wizard changed anything, every key of the template is in the file and is empty or passes the check of its name.\<close>

lemma wizard_valid:
  assumes "runWizard P a fm d = (e, d', fm')" "fm' \<noteq> fm" "k \<in> set (dkeys CREDENTIALS_TEMPLATE)"
  shows "\<exists>v. stored (loadCredentials P fm') k = Some v \<and> validateApiKey k v = None"
proof -
  obtain c d0 d1 ok printed where w: "wizard_fields (loadCredentials P fm) wizard_keys (loadCredentials P fm) d0 = (Wz_value c, d1)"
    "saveCredentials P a c fm = (ok, printed, fm')"
    using assms(1,2) by (auto simp: runWizard_def Let_def split: prod.splits wizard_end.splits option.splits bool.splits)
  then have "fm' = fm(credentials_path P := Json_file (reparsed (JObj c)))"
    using assms(2) by (auto simp: saveCredentials_def Let_def split: if_splits option.splits)
  moreover have "distinct (dkeys c)" using fields_other [OF w(1) loaded_distinct] ..
  moreover obtain v where "dget c k = Some (JStr v)" "validateApiKey k v = None"
    using fields_valid [OF w(1)] assms(3) by (auto simp: wizard_keys_template)
  moreover have "dhas CREDENTIALS_TEMPLATE k" using assms(3) by (simp add: dhas_def dict.has_iff)
  ultimately show ?thesis using load_written by (auto simp: stored_def stored_text_def)
qed

text \<open>
  The command and the readers also disagree on the place of the file: with an \<open>XDG_CONFIG_HOME\<close> that is not
  writable, the command writes under the home directory and the resolvers read under the variable.\<close>

lemma credentials_path_split:
  assumes "non_empty (pw_env P ''XDG_CONFIG_HOME'') = Some x" "\<not> pw_writable P (pw_resolve P x)"
  shows "credentials_path P = pw_home P @ ''/.apohara/credentials.json''"
    "getCredentialsPath (pw_env P) (pw_home P) = x @ ''/apohara/credentials.json''"
  using assms by (simp_all add: credentials_path_def getConfigDir_def xdg_dir_def join_path_def getCredentialsPath_def)

lemma credentials_path_agree:
  assumes "\<And>x. non_empty (pw_env P ''XDG_CONFIG_HOME'') = Some x \<Longrightarrow> pw_writable P x \<and> pw_resolve P x = x"
  shows "credentials_path P = getCredentialsPath (pw_env P) (pw_home P)"
  using assms by (auto simp: credentials_path_def getConfigDir_def xdg_dir_def join_path_def getCredentialsPath_def split: option.split)

end
