(* ===== verification/Ink_Wizard.thy ===== *)
theory Ink_Wizard
  imports Config_Command
begin

text \<open>
  \<open>packages/tui/config-wizard.tsx\<close>: the wizard for API keys in the terminal, as a state machine over the inputs that
  \<open>useInput\<close> delivers. React keeps the state of a component that is rendered at the same place again, and gives a
  component that appears anew its initial state: the field of each step is at the same place, so that its text lives
  from one field to the next. Layout and colours are left out.
\<close>

section \<open>The wizard\<close>

record ink_wizard =
  iw_step :: nat
  iw_credentials :: "(string, string) dict"
  iw_value :: string
  iw_yes :: bool
  iw_completed :: "(string, string) dict list"
  iw_exited :: bool

definition ink_fields :: "(string \<times> string) list" where
  "ink_fields = [(''OPENCODE_API_KEY'', ''OpenCode API Key''), (''DEEPSEEK_API_KEY'', ''DeepSeek API Key''),
     (''ANTHROPIC_API_KEY'', ''Anthropic API Key''), (''OPENAI_API_KEY'', ''OpenAI API Key'')]"

definition ENTER :: string where
  "ENTER = [CHR 0x0D]"

definition CTRL_C :: string where
  "CTRL_C = [CHR 0x03]"

definition BACKSPACE :: string where
  "BACKSPACE = [CHR 0x7F]"

definition YES_KEYS :: "string list" where
  "YES_KEYS = [[CHR 0x1B, CHR 0x5B, CHR 0x41], [CHR 0x1B, CHR 0x5B, CHR 0x44]]"

definition NO_KEYS :: "string list" where
  "NO_KEYS = [[CHR 0x1B, CHR 0x5B, CHR 0x42], [CHR 0x1B, CHR 0x5B, CHR 0x43]]"

text \<open>The initial text of a field that appears: its default.\<close>

definition mounted_value :: "(string, string) dict \<Rightarrow> nat \<Rightarrow> string" where
  "mounted_value credentials step = (case dget credentials (fst (ink_fields ! step)) of None \<Rightarrow> [] | Some v \<Rightarrow> v)"

definition start_wizard :: "(string, string) dict option \<Rightarrow> ink_wizard" where
  "start_wizard existing = (let credentials = (case existing of None \<Rightarrow> [] | Some c \<Rightarrow> c) in
     \<lparr>iw_step = 0, iw_credentials = credentials, iw_value = mounted_value credentials 0, iw_yes = True, iw_completed = [], iw_exited = False\<rparr>)"

definition handleSubmit :: "string \<Rightarrow> string \<Rightarrow> ink_wizard \<Rightarrow> ink_wizard" where
  "handleSubmit key value w = w\<lparr>iw_credentials := dset key value (iw_credentials w), iw_step := iw_step w + 1\<rparr>"

definition prompt_input :: "string \<Rightarrow> ink_wizard \<Rightarrow> ink_wizard" where
  "prompt_input inp w =
    (if inp = ENTER then handleSubmit (fst (ink_fields ! iw_step w)) (iw_value w) w
     else if inp = CTRL_C then w\<lparr>iw_exited := True\<rparr>
     else if inp = BACKSPACE then w\<lparr>iw_value := butlast (iw_value w)\<rparr>
     else w\<lparr>iw_value := iw_value w @ inp\<rparr>)"

text \<open>The confirmation: a refusal goes back to the last field, which appears anew.\<close>

definition onConfirm :: "bool \<Rightarrow> ink_wizard \<Rightarrow> ink_wizard" where
  "onConfirm confirmed w =
    (if confirmed then w\<lparr>iw_completed := iw_completed w @ [iw_credentials w]\<rparr>
     else w\<lparr>iw_step := length ink_fields - 1, iw_value := mounted_value (iw_credentials w) (length ink_fields - 1)\<rparr>)"

definition confirm_input :: "string \<Rightarrow> ink_wizard \<Rightarrow> ink_wizard" where
  "confirm_input inp w =
    (if inp = ENTER then onConfirm (iw_yes w) w
     else if inp \<in> set YES_KEYS then w\<lparr>iw_yes := True\<rparr>
     else if inp \<in> set NO_KEYS then w\<lparr>iw_yes := False\<rparr>
     else if inp = CTRL_C then w\<lparr>iw_exited := True\<rparr>
     else w)"

text \<open>One input; the question that appears behind the last field starts with yes.\<close>

definition wizard_input :: "ink_wizard \<Rightarrow> string \<Rightarrow> ink_wizard" where
  "wizard_input w inp =
    (if iw_exited w then w
     else if iw_step w = length ink_fields then confirm_input inp w
     else (let w' = prompt_input inp w in if iw_step w' = length ink_fields then w'\<lparr>iw_yes := True\<rparr> else w'))"

definition wizard_inputs :: "ink_wizard \<Rightarrow> string list \<Rightarrow> ink_wizard" where
  "wizard_inputs = foldl wizard_input"

definition prompt_view :: "string \<Rightarrow> string option \<Rightarrow> string \<Rightarrow> string list" where
  "prompt_view label defaultValue value =
    [label @ (case defaultValue of Some (c # cs) \<Rightarrow> '' (default: '' @ sanitizeKey (c # cs) @ '')'' | _ \<Rightarrow> []) @ '':'', '' '' @ value @ ''_'']"

definition summary_view :: "(string, string) dict \<Rightarrow> string list" where
  "summary_view credentials =
    map (\<lambda>(k, label). label @ '': '' @ (case dget credentials k of Some (c # cs) \<Rightarrow> sanitizeKey (c # cs) | _ \<Rightarrow> ''(not set)'')) ink_fields @
    [if list_ex (\<lambda>(k, v). v \<noteq> []) credentials then ''Press Enter to save, or Esc to go back''
     else ''No API keys set. Press Enter to skip, or Esc to go back'']"

definition wizard_view :: "ink_wizard \<Rightarrow> string list" where
  "wizard_view w =
    (if iw_step w = length ink_fields then summary_view (iw_credentials w)
     else prompt_view (snd (ink_fields ! iw_step w)) (dget (iw_credentials w) (fst (ink_fields ! iw_step w))) (iw_value w))"

section \<open>The file\<close>

definition ink_loadCredentials :: "path_world \<Rightarrow> file_map \<Rightarrow> json option" where
  "ink_loadCredentials P fm = (case fm (credentials_path P) of Json_file v \<Rightarrow> Some v | _ \<Rightarrow> None)"

definition credentials_json :: "(string, string) dict \<Rightarrow> json" where
  "credentials_json c = JObj (map (\<lambda>(k, v). (k, JStr v)) c)"

definition ink_saveCredentials ::
  "path_world \<Rightarrow> save_answers \<Rightarrow> (string, string) dict \<Rightarrow> file_map \<Rightarrow> bool \<times> string list \<times> file_map" where
  "ink_saveCredentials P a credentials fm =
    (if \<not> ensureDir (sv_mkdir a) then (False, [''[config] Failed to create config directory''], fm)
     else case sv_write a of
       Some e \<Rightarrow> (False, [''[config] Failed to save credentials:'' @ e], fm)
     | None \<Rightarrow> (let fm' = fm(credentials_path P := Json_file (reparsed (credentials_json credentials))) in
         case sv_chmod a of
           Some e \<Rightarrow> (False, [''[config] Failed to save credentials:'' @ e], fm')
         | None \<Rightarrow> (True, [''[config] Saved credentials to '' @ credentials_path P], fm')))"

text \<open>\<open>runConfigWizard\<close> reads the file, prints a line, and asks nothing.\<close>

definition runConfigWizard :: "path_world \<Rightarrow> file_map \<Rightarrow> string list \<times> file_map" where
  "runConfigWizard P fm = (let existing = ink_loadCredentials P fm in ([''Starting config wizard...''], fm))"

section \<open>Properties\<close>

text \<open>The fields that the wizard shows exist, and what it hands over at the end are credentials that were confirmed.\<close>

definition wizard_ok :: "(string, string) dict \<Rightarrow> ink_wizard \<Rightarrow> bool" where
  "wizard_ok c0 w \<longleftrightarrow> iw_step w \<le> length ink_fields \<and>
     (\<forall>c\<in>insert (iw_credentials w) (set (iw_completed w)). \<forall>k. k \<notin> fst ` set ink_fields \<longrightarrow> dget c k = dget c0 k) \<and>
     (iw_step w = length ink_fields \<longrightarrow> fst ` set ink_fields \<subseteq> dom (dget (iw_credentials w))) \<and>
     (\<forall>i<iw_step w. i < length ink_fields \<longrightarrow> fst (ink_fields ! i) \<in> dom (dget (iw_credentials w))) \<and>
     (\<forall>c\<in>set (iw_completed w). fst ` set ink_fields \<subseteq> dom (dget c))"

lemma all_fields: "(\<forall>i<length ink_fields. fst (ink_fields ! i) \<in> D) \<Longrightarrow> fst ` set ink_fields \<subseteq> D"
  by (metis (no_types, lifting) image_subsetI in_set_conv_nth)

lemma submit_ok:
  assumes "wizard_ok c0 w" "iw_step w < length ink_fields"
  shows "wizard_ok c0 (handleSubmit (fst (ink_fields ! iw_step w)) v w)"
proof -
  let ?c = "dset (fst (ink_fields ! iw_step w)) v (iw_credentials w)"
  have d: "fst (ink_fields ! i) \<in> dom (dget ?c)" if "i < iw_step w + 1" for i
    using assms that by (cases "i = iw_step w") (auto simp: wizard_ok_def dict.get_put)
  have a: "iw_step w + 1 = length ink_fields \<Longrightarrow> fst ` set ink_fields \<subseteq> dom (dget ?c)"
    using d by (intro all_fields) auto
  have f: "fst (ink_fields ! iw_step w) \<in> fst ` set ink_fields" using assms(2) by simp
  have k: "dget ?c k = dget c0 k" if "k \<notin> fst ` set ink_fields" for k
    using assms(1) that f by (auto simp: wizard_ok_def dict.get_put)
  show ?thesis
    unfolding wizard_ok_def using assms d a k by (auto simp: wizard_ok_def handleSubmit_def)
qed

lemma input_ok:
  assumes "wizard_ok c0 w"
  shows "wizard_ok c0 (wizard_input w inp)"
proof (cases "iw_exited w")
  case False
  show ?thesis
  proof (cases "iw_step w = length ink_fields")
    case True
    then show ?thesis
      using assms False by (auto simp: wizard_input_def confirm_input_def onConfirm_def wizard_ok_def)
  next
    case c: False
    then have l: "iw_step w < length ink_fields" using assms by (simp add: wizard_ok_def)
    have u: "wizard_ok c0 (w'\<lparr>iw_yes := b\<rparr>) = wizard_ok c0 w'" "wizard_ok c0 (w'\<lparr>iw_value := x\<rparr>) = wizard_ok c0 w'"
      "wizard_ok c0 (w'\<lparr>iw_exited := b\<rparr>) = wizard_ok c0 w'" for w' b x by (simp_all add: wizard_ok_def)
    have "wizard_ok c0 (prompt_input inp w)"
      using submit_ok [OF assms l] assms by (simp add: prompt_input_def u)
    with False c show ?thesis by (simp add: wizard_input_def Let_def u)
  qed
qed (use assms in \<open>simp add: wizard_input_def\<close>)

theorem wizard_hands_over:
  assumes "c \<in> set (iw_completed (wizard_inputs (start_wizard (Some c0)) inputs))"
  shows "fst ` set ink_fields \<subseteq> dom (dget c) \<and> (\<forall>k. k \<notin> fst ` set ink_fields \<longrightarrow> dget c k = dget c0 k)"
proof -
  have s: "wizard_ok c0 (start_wizard (Some c0))" by (simp add: wizard_ok_def start_wizard_def ink_fields_def)
  have "wizard_ok c0 (foldl wizard_input w inputs)" if "wizard_ok c0 w" for w
    using that by (induction inputs arbitrary: w) (simp_all add: input_ok)
  from this [OF s] assms show ?thesis by (simp add: wizard_ok_def wizard_inputs_def)
qed

definition plain_input :: "string \<Rightarrow> bool" where
  "plain_input inp \<longleftrightarrow> inp \<notin> {ENTER, CTRL_C, BACKSPACE}"

lemma typed:
  assumes "list_all plain_input inputs" "iw_step w < length ink_fields" "\<not> iw_exited w"
  shows "wizard_inputs w inputs = w\<lparr>iw_value := iw_value w @ concat inputs\<rparr>"
  using assms
proof (induction inputs arbitrary: w)
  case Nil
  show ?case by (simp add: wizard_inputs_def)
next
  case (Cons inp inputs)
  have "wizard_input w inp = w\<lparr>iw_value := iw_value w @ inp\<rparr>"
    using Cons.prems by (auto simp: wizard_input_def prompt_input_def plain_input_def Let_def)
  with Cons.IH [of "w\<lparr>iw_value := iw_value w @ inp\<rparr>"] Cons.prems show ?case by (simp add: wizard_inputs_def)
qed

text \<open>
  The text of the first field is submitted for all four: who types one key and then confirms every question ends with this
  key under the names of four providers.\<close>

theorem one_key_for_all:
  assumes "list_all plain_input inputs" "key = mounted_value c0 0 @ concat inputs"
  shows "iw_completed (wizard_inputs (start_wizard (Some c0)) (inputs @ replicate 5 ENTER)) =
    [dset ''OPENAI_API_KEY'' key (dset ''ANTHROPIC_API_KEY'' key (dset ''DEEPSEEK_API_KEY'' key (dset ''OPENCODE_API_KEY'' key c0)))]"
proof -
  have r: "replicate 5 ENTER = [ENTER, ENTER, ENTER, ENTER, ENTER]" by (simp add: eval_nat_numeral)
  have "wizard_inputs (start_wizard (Some c0)) inputs = (start_wizard (Some c0))\<lparr>iw_value := key\<rparr>"
    using typed [OF assms(1), of "start_wizard (Some c0)"] by (simp add: assms(2) start_wizard_def ink_fields_def)
  then show ?thesis
    unfolding r by (simp add: wizard_inputs_def wizard_input_def prompt_input_def confirm_input_def handleSubmit_def onConfirm_def ink_fields_def
      start_wizard_def ENTER_def Let_def)
qed

lemma one_key_for_all_witness:
  "iw_completed (wizard_inputs (start_wizard (Some [])) ([''s'', ''k''] @ replicate 5 ENTER)) =
    [dset ''OPENAI_API_KEY'' ''sk'' (dset ''ANTHROPIC_API_KEY'' ''sk'' (dset ''DEEPSEEK_API_KEY'' ''sk'' (dset ''OPENCODE_API_KEY'' ''sk'' [])))]"
  by (rule one_key_for_all) (simp_all add: plain_input_def ENTER_def CTRL_C_def BACKSPACE_def mounted_value_def ink_fields_def dget_Cons)

lemma backspace_undoes:
  assumes "plain_input [c]" "iw_step w < length ink_fields" "\<not> iw_exited w"
  shows "wizard_inputs w [[c], BACKSPACE] = w"
  using assms by (auto simp: wizard_inputs_def wizard_input_def prompt_input_def plain_input_def BACKSPACE_def ENTER_def CTRL_C_def Let_def)

text \<open>What was saved is what is loaded.\<close>

lemma ink_saved_loaded:
  assumes "ink_saveCredentials P a c fm = (True, out, fm')" "distinct (dkeys c)" "dget c k = Some v"
  shows "\<exists>j. ink_loadCredentials P fm' = Some j \<and> opt_get j k = JStr v"
proof -
  have m: "dget (map (\<lambda>(k, v). (k, JStr v)) c) k = map_option JStr (dget c k)" for k
    by (induction c) (auto simp: dget_Cons)
  have "dkeys (map (\<lambda>(k, v). (k, JStr v)) c) = dkeys c" by (induction c) (auto simp: dkeys_def)
  with get_reparsed [of "map (\<lambda>(k, v). (k, JStr v)) c" k] assms m [of k] show ?thesis
    by (auto simp: ink_saveCredentials_def ink_loadCredentials_def credentials_json_def Let_def split: if_splits option.splits)
qed

end
