(* ===== verification/Auth_Command.thy ===== *)
theory Auth_Command
  imports Config_Command
begin

text \<open>
  \<open>src/commands/auth.ts\<close>: the login with Claude, which asks for a code on a callback server and stores the token, the
  choice of a login, and the status of a stored token. The clock, the network, the browser, the free ports, the requests that
  reach the server and the success of the writes are parameters, as for the login with Google; the files are those of
  the command that stores keys. The messages of the login are left out, a field of a type other than its declared
  one is outside the model.
\<close>

section \<open>Files\<close>

definition getOAuthCredentialsPath :: "environment \<Rightarrow> string \<Rightarrow> string \<Rightarrow> string" where
  "getOAuthCredentialsPath env home provider = (case non_empty (env ''XDG_CONFIG_HOME'') of
     Some xdg \<Rightarrow> xdg @ ''/apohara/oauth-'' @ provider @ ''.json'' | None \<Rightarrow> home @ ''/.apohara/oauth-'' @ provider @ ''.json'')"

text \<open>The file of a token store that is made for a provider.\<close>

definition store_path :: "string \<Rightarrow> string \<Rightarrow> string" where
  "store_path home provider = home @ ''/.apohara/oauth-'' @ provider @ ''.json''"

text \<open>The client id in the credentials file; an error of reading or parsing gives none.\<close>

definition client_id :: "string \<Rightarrow> token_file \<Rightarrow> json" where
  "client_id key f = (case f of Json_file v \<Rightarrow> (case js_get v key of Inl e \<Rightarrow> JStr [] | Inr w \<Rightarrow> or_else w (JStr [])) | _ \<Rightarrow> JStr [])"

section \<open>The callback server\<close>

definition claude_handle :: "string \<Rightarrow> string option \<Rightarrow> string option \<Rightarrow> callback \<Rightarrow> callback" where
  "claude_handle path code err c =
    (if path = ''/callback'' then
       (if given err then cb_stop (resolveCode None (cb_reply 400
          (''<html><body><h1>Authentication Failed</h1><p>Error: '' @ the err @ ''</p></body></html>'') c))
        else if given code then cb_stop (resolveCode code (cb_reply 200
          ''<html><body><h1>Authentication Successful!</h1><p>You may close this window.</p></body></html>'' c))
        else cb_stop (cb_reply 400 ''<html><body><h1>Error</h1><p>No authorization code received.</p></body></html>'' c))
     else cb_reply 404 ''Not found'' c)"

fun claude_step :: "cb_event \<Rightarrow> callback \<Rightarrow> callback" where
  "claude_step (Cb_request path code err) c = (if cb_open c then claude_handle path code err c else c)"
| "claude_step Cb_timer c = cb_stop c"
| "claude_step Cb_close c = cb_stop c"

definition claude_run :: "cb_event list \<Rightarrow> callback \<Rightarrow> callback" where
  "claude_run es c = foldl (\<lambda>c e. claude_step e c) c es"

section \<open>The login\<close>

definition claude_redirect :: "nat \<Rightarrow> string" where
  "claude_redirect p = ''http://localhost:'' @ show_nat p @ ''/callback''"

definition claude_auth_url :: "(string \<Rightarrow> string) \<Rightarrow> string \<Rightarrow> nat \<Rightarrow> string \<Rightarrow> string" where
  "claude_auth_url form clientId p challenge = ''https://claude.ai/api/oauth/authorize?'' @ form_fields form
     [(''client_id'', clientId), (''redirect_uri'', claude_redirect p), (''response_type'', ''code''), (''scope'', ''api''),
      (''code_challenge'', challenge), (''code_challenge_method'', ''S256'')]"

definition claude_token_request :: "(string \<Rightarrow> string) \<Rightarrow> string \<Rightarrow> nat \<Rightarrow> string \<Rightarrow> string \<Rightarrow> http_request" where
  "claude_token_request form clientId p code verifier =
     \<lparr>url = CLAUDE_TOKEN_ENDPOINT, headers = [(''Content-Type'', ''application/x-www-form-urlencoded'')],
      request_body = JStr (form_fields form [(''grant_type'', ''authorization_code''), (''code'', code),
        (''redirect_uri'', claude_redirect p), (''client_id'', clientId), (''code_verifier'', verifier)]), timeout_ms = 0\<rparr>"

datatype auth_end = Auth_saved OAuthToken | Auth_exits | Auth_throws string | Auth_waits | Auth_outside

definition store_token_at :: "save_answers \<Rightarrow> string \<Rightarrow> OAuthToken \<Rightarrow> file_map \<Rightarrow> auth_end \<times> file_map" where
  "store_token_at a path t fm = (case saveApoharaToken a t (fm path) of
     (Inl e, f) \<Rightarrow> (Auth_throws e, fm(path := f)) | (Inr u, f) \<Rightarrow> (Auth_saved t, fm(path := f)))"

text \<open>The code against a token: a refused exchange ends the process.\<close>

definition claude_exchange :: "login_world \<Rightarrow> save_answers \<Rightarrow> string \<Rightarrow> string \<Rightarrow> nat \<Rightarrow> string \<Rightarrow> file_map \<Rightarrow> auth_end \<times> file_map" where
  "claude_exchange W a path clientId p code fm =
    (case lw_net W (claude_token_request (lw_form W) clientId p code (lw_verifier W)) of
       Inl e \<Rightarrow> (Auth_throws e, fm)
     | Inr rep \<Rightarrow>
       if \<not> reply_ok rep then (Auth_exits, fm)
       else (case reply_json rep of Inl e \<Rightarrow> (Auth_throws e, fm)
         | Inr data \<Rightarrow> (case exchanged_token (lw_now W) data of
             Throws e \<Rightarrow> (Auth_throws e, fm) | Outside \<Rightarrow> (Auth_outside, fm)
           | Returns t \<Rightarrow> store_token_at a path t fm)))"

definition loginClaude :: "login_world \<Rightarrow> save_answers \<Rightarrow> environment \<Rightarrow> string \<Rightarrow> file_map \<Rightarrow> auth_end \<times> file_map" where
  "loginClaude W a env home fm =
    (let cid = client_id ''claude-oauth-client-id'' (fm (getCredentialsPath env home)) in
     if \<not> truthy cid then (Auth_exits, fm)
     else case as_string cid of None \<Rightarrow> (Auth_outside, fm)
     | Some clientId \<Rightarrow>
       (case findAvailablePort (lw_free W) 28563 28599 of Inl e \<Rightarrow> (Auth_throws e, fm)
        | Inr p \<Rightarrow>
          let u = claude_auth_url (lw_form W) clientId p (lw_challenge W (lw_verifier W)) in
          (case lw_browser W u of Inl e \<Rightarrow> (Auth_throws e, fm)
           | Inr _ \<Rightarrow> (case cb_code (claude_run (lw_events W p u) new_callback) of
               None \<Rightarrow> (Auth_waits, fm)
             | Some None \<Rightarrow> (Auth_exits, fm)
             | Some (Some code) \<Rightarrow> claude_exchange W a (getOAuthCredentialsPath env home ''claude'') clientId p code fm))))"

definition login_gemini :: "login_world \<Rightarrow> save_answers \<Rightarrow> environment \<Rightarrow> string \<Rightarrow> file_map \<Rightarrow> auth_end \<times> file_map" where
  "login_gemini W a env home fm =
    (let cid = client_id ''gemini-oauth-client-id'' (fm (getCredentialsPath env home)) in
     if \<not> truthy cid then (Auth_exits, fm)
     else case as_string cid of None \<Rightarrow> (Auth_outside, fm)
     | Some clientId \<Rightarrow> (case loginWithGoogleOAuth W clientId None of
         Logged_in t \<Rightarrow> store_token_at a (getApoharaTokenPath (env ''XDG_CONFIG_HOME'') home) t fm
       | Login_fails e \<Rightarrow> (Auth_throws e, fm) | Login_waits \<Rightarrow> (Auth_waits, fm) | Login_outside \<Rightarrow> (Auth_outside, fm)))"

definition auth_login :: "login_world \<Rightarrow> save_answers \<Rightarrow> environment \<Rightarrow> string \<Rightarrow> string \<Rightarrow> file_map \<Rightarrow> auth_end \<times> file_map" where
  "auth_login W a env home provider fm =
    (if provider = ''claude'' then loginClaude W a env home fm
     else if provider = ''gemini'' then login_gemini W a env home fm
     else (Auth_exits, fm))"

section \<open>The status\<close>

definition not_authenticated :: "string \<Rightarrow> string list" where
  "not_authenticated provider = [''   Status: '' @ failed_mark @ '' Not authenticated'', ''   Run: apohara auth login '' @ provider]"

definition minutes_left :: "int \<Rightarrow> int \<Rightarrow> int" where
  "minutes_left e now = js_round (flt (flt (of_int (e - now) / 1000) / 60))"

definition status_lines :: "(int \<Rightarrow> string) \<Rightarrow> int \<Rightarrow> json \<Rightarrow> int \<Rightarrow> string list" where
  "status_lines date_text now token e =
    (let isExpired = e < now; expiresIn = minutes_left e now in
     [''   Token type: '' @ js_string (opt_get token ''token_type''), ''   Expires at: '' @ date_text e,
      ''   Status: '' @ (if isExpired then failed_mark @ '' Expired'' else done_mark @ '' Valid'')] @
     (if isExpired then []
      else if expiresIn < 60 then [''   Expires in: '' @ show_int expiresIn @ '' minutes'']
      else [''   Expires in: '' @ show_int (js_round (flt (of_int expiresIn / 60))) @ '' hours'']) @
     [''   Refresh token: '' @ (if truthy (opt_get token ''refresh_token'') then done_mark @ '' Available'' else failed_mark @ '' Not available'')] @
     (if truthy (opt_get token ''scope'') then [''   Scope: '' @ js_string (opt_get token ''scope'')] else []))"

text \<open>\<open>new Date(null)\<close> is the time 0; another value that is no time in the range of dates is outside the model.\<close>

definition showStatus :: "(int \<Rightarrow> string) \<Rightarrow> int \<Rightarrow> environment \<Rightarrow> string \<Rightarrow> string \<Rightarrow> file_map \<Rightarrow> string list outcome_of" where
  "showStatus date_text now env home provider fm =
    (case fm (getOAuthCredentialsPath env home provider) of
       Json_file v \<Rightarrow> (case js_get v ''expires_at'' of
           Inl e \<Rightarrow> Returns (not_authenticated provider)
         | Inr w \<Rightarrow> (case (if w = JNull then Some 0 else as_int w) of
             Some e \<Rightarrow> if \<bar>e\<bar> \<le> 8640000000000000 then Returns (status_lines date_text now v e) else Outside
           | None \<Rightarrow> Outside))
     | _ \<Rightarrow> Returns (not_authenticated provider))"

definition gemini_status :: "string + json \<Rightarrow> string list" where
  "gemini_status info = (case info of
     Inl e \<Rightarrow> [''[Auth] Failed to get Gemini status:'' @ e]
   | Inr v \<Rightarrow> (''   Source: '' @ js_string (or_else (opt_get v ''source'') (JStr ''none''))) #
       (if truthy (opt_get v ''present'') then
          [''   Token type: '' @ js_string (opt_get v ''token_type''), ''   Expires at: '' @ js_string (opt_get v ''expires_at''),
           ''   Status: '' @ (if truthy (opt_get v ''is_expired'') then failed_mark @ '' Expired'' else done_mark @ '' Valid''),
           ''   Refresh token: '' @ (if truthy (opt_get v ''has_refresh_token'') then done_mark @ '' Available'' else failed_mark @ '' Not available'')]
        else not_authenticated ''gemini''))"

definition auth_status :: "(int \<Rightarrow> string) \<Rightarrow> int \<Rightarrow> environment \<Rightarrow> string \<Rightarrow> string + json \<Rightarrow> string option \<Rightarrow> file_map \<Rightarrow>
    string list outcome_of" where
  "auth_status date_text now env home gemini_info provider fm =
    (let target = (case provider of Some (c # cs) \<Rightarrow> c # cs | _ \<Rightarrow> ''claude'') in
     if target = ''gemini'' then Returns (gemini_status gemini_info) else showStatus date_text now env home target fm)"

section \<open>A token that nobody reads\<close>

lemma client_id_agrees: "client_id ''claude-oauth-client-id'' f = loadClientId f ''claude-ai''"
  by (simp add: client_id_def loadClientId_def Let_def)

lemma stored_at:
  assumes "store_token_at a path t fm = (e, fm')"
  shows "q \<noteq> path \<Longrightarrow> fm' q = fm q" "e = Auth_saved t' \<Longrightarrow> fm' path = Json_file (reparsed (token_json t')) \<and> t' = t"
  using assms by (auto simp: store_token_at_def saveApoharaToken_def split: prod.splits sum.splits option.splits)

lemma claude_writes:
  assumes "loginClaude W a env home fm = (e, fm')"
  shows "q \<noteq> getOAuthCredentialsPath env home ''claude'' \<Longrightarrow> fm' q = fm q"
    "e = Auth_saved t \<Longrightarrow> fm' (getOAuthCredentialsPath env home ''claude'') = Json_file (reparsed (token_json t))"
  using assms stored_at
  by (auto simp: loginClaude_def claude_exchange_def Let_def split: if_splits option.splits sum.splits outcome_of.splits)

lemma resolve_ext:
  "fs provider = fs' provider \<Longrightarrow> resolveOAuthToken fs g h now provider st = resolveOAuthToken fs' g h now provider st"
  by (auto simp: resolveOAuthToken_def getTokenStore_def split: option.split)

text \<open>The names of the files differ, whatever the directories are.\<close>

lemma other_file:
  assumes "provider \<in> {''claude-ai'', ''anthropic''}"
  shows "store_path home provider \<noteq> getOAuthCredentialsPath env home' ''claude''"
proof
  assume "store_path home provider = getOAuthCredentialsPath env home' ''claude''"
  then have "take 8 (rev (store_path home provider)) = take 8 (rev (getOAuthCredentialsPath env home' ''claude''))" by simp
  then show False using assms by (auto simp: store_path_def getOAuthCredentialsPath_def split: option.splits)
qed

text \<open>C36.
  A login with Claude is lost. Whatever the login does, for the two providers that use Claude's tokens
  \<open>resolveOAuthToken\<close> gives what it gave before: the token is stored under \<open>oauth-claude.json\<close>, and the stores of these
  providers read \<open>oauth-claude-ai.json\<close> and \<open>oauth-anthropic.json\<close>. What \<open>loadToken\<close> would make of the file itself: a
  token with an access token and an expiry that is a number other than zero (of at most 53 bits) is read back with all its fields;
  a token whose access token is empty, or whose expiry is missing, because the answer had no \<open>expires_in\<close>, or zero, is
  saved all the same, with success, and refused by \<open>loadToken\<close>.\<close>

theorem claude_login_unread:
  assumes "auth_login W a env home ''claude'' fm = (e, fm')" "provider \<in> {''claude-ai'', ''anthropic''}"
  shows "resolveOAuthToken (\<lambda>p. fm' (store_path home p)) g h now provider st = resolveOAuthToken (\<lambda>p. fm (store_path home p)) g h now provider st \<and>
    (\<forall>t. e = Auth_saved t \<longrightarrow>
      (storable t \<longrightarrow> loadToken (fm' (getOAuthCredentialsPath env home ''claude'')) = Returns (Some t)) \<and>
      (access_token t = [] \<or> expires_at t = None \<or> expires_at t = Some 0 \<longrightarrow>
        loadToken (fm' (getOAuthCredentialsPath env home ''claude'')) = Returns None))"
proof -
  have l: "loginClaude W a env home fm = (e, fm')" using assms(1) by (simp add: auth_login_def)
  have "fm' (store_path home provider) = fm (store_path home provider)"
    by (rule claude_writes(1) [OF l other_file [OF assms(2)]])
  then have "resolveOAuthToken (\<lambda>p. fm' (store_path home p)) g h now provider st =
      resolveOAuthToken (\<lambda>p. fm (store_path home p)) g h now provider st" by (rule resolve_ext)
  moreover have "fm' (getOAuthCredentialsPath env home ''claude'') = Json_file (reparsed (token_json t))" if "e = Auth_saved t" for t
    using claude_writes(2) [OF l that] .
  ultimately show ?thesis using load_saved load_refused by metis
qed

definition demo_login :: login_world where
  "demo_login = \<lparr>lw_free = (\<lambda>p. p = 28563), lw_verifier = ''v'', lw_challenge = id, lw_browser = (\<lambda>u. Inr ()),
     lw_events = (\<lambda>p u. [Cb_request ''/callback'' (Some ''code'') None]),
     lw_net = (\<lambda>r. Inr \<lparr>reply_status = 200, statusText = [], reply_text = [],
       reply_json = Inr (JObj [(''access_token'', JStr ''a''), (''token_type'', JStr ''Bearer''), (''expires_in'', JNum (show_int 60))])\<rparr>),
     lw_form = id, lw_now = 0\<rparr>"

definition demo_client :: file_map where
  "demo_client = (\<lambda>q. if q = ''/h/.apohara/credentials.json'' then Json_file (JObj [(''claude-oauth-client-id'', JStr ''c'')]) else No_file)"

lemma demo_logs_in: "fst (auth_login demo_login demo_saves (\<lambda>v. None) ''/h'' ''claude'' demo_client) =
    Auth_saved \<lparr>access_token = ''a'', refresh_token = None, token_type = ''Bearer'', expires_at = Some 60000, scope = None\<rparr>"
proof -
  have i: "as_int (JNum (show_int 60)) = Some 60" by (simp add: as_int_def number_show_int)
  have p: "findAvailablePort (\<lambda>p. p = 28563) 28563 28599 = Inr 28563" by (simp add: findAvailablePort_def upt_rec)
  have c: "client_id ''claude-oauth-client-id'' (demo_client (getCredentialsPath (\<lambda>v. None) ''/h'')) = JStr ''c''"
    by (simp add: getCredentialsPath_def non_empty_def demo_client_def client_id_def or_else_def dget_Cons)
  have r: "cb_code (claude_run [Cb_request ''/callback'' (Some ''code'') None] new_callback) = Some (Some ''code'')"
    by (simp add: claude_run_def new_callback_def claude_handle_def given_def cb_stop_def resolveCode_def cb_reply_def)
  have t: "exchanged_token 0 (JObj [(''access_token'', JStr ''a''), (''token_type'', JStr ''Bearer''), (''expires_in'', JNum (show_int 60))]) =
      Returns \<lparr>access_token = ''a'', refresh_token = None, token_type = ''Bearer'', expires_at = Some 60000, scope = None\<rparr>"
    using i by (simp add: exchanged_token_def opt_get_def dget_Cons as_opt_string_def calculateExpiresAt_def)
  show ?thesis
    by (simp add: auth_login_def loginClaude_def c p r t demo_login_def Let_def claude_exchange_def reply_ok_def store_token_at_def
        saveApoharaToken_def demo_saves_def)
qed

lemma claude_login_unread_witness:
  "\<exists>t fm'. auth_login demo_login demo_saves (\<lambda>v. None) ''/h'' ''claude'' demo_client = (Auth_saved t, fm') \<and>
     loadToken (fm' ''/h/.apohara/oauth-claude.json'') = Returns (Some t) \<and>
     (\<forall>g h. resolveOAuthToken (\<lambda>p. fm' (store_path ''/h'' p)) g h 0 ''claude-ai'' [] =
        resolveOAuthToken (\<lambda>p. demo_client (store_path ''/h'' p)) g h 0 ''claude-ai'' [])"
proof -
  obtain t fm' where r: "auth_login demo_login demo_saves (\<lambda>v. None) ''/h'' ''claude'' demo_client = (Auth_saved t, fm')"
    and t: "t = \<lparr>access_token = ''a'', refresh_token = None, token_type = ''Bearer'', expires_at = Some 60000, scope = None\<rparr>"
    using demo_logs_in by (metis prod.collapse)
  have "storable t" by (simp add: storable_def t)
  moreover have "getOAuthCredentialsPath (\<lambda>v. None) ''/h'' ''claude'' = ''/h/.apohara/oauth-claude.json''"
    by (simp add: getOAuthCredentialsPath_def non_empty_def)
  ultimately show ?thesis using r claude_login_unread [OF r, of "''claude-ai''" _ _ 0 "[]"] by (metis insertI1)
qed

text \<open>The login saves a token that no load returns, and reports success, when the answer has no \<open>expires_in\<close>.\<close>

lemma no_expires_in_saved:
  "exchanged_token now (JObj [(''access_token'', JStr ''a''), (''token_type'', JStr ''Bearer'')]) =
    Returns \<lparr>access_token = ''a'', refresh_token = None, token_type = ''Bearer'', expires_at = None, scope = None\<rparr>"
  by (simp add: exchanged_token_def opt_get_def dget_Cons as_opt_string_def)

text \<open>
  The two commands do not work together: the advice that the login prints is to set \<open>claude-oauth-client-id\<close> with
  \<open>config\<close>, and no call of \<open>config\<close> makes the login start.\<close>

lemma config_enables_no_login:
  assumes "config_command P a sp opt ins fm = (e, d, fm')"
    and "\<not> truthy (client_id ''claude-oauth-client-id'' (fm (getCredentialsPath env home)))"
  shows "loginClaude W b env home fm' = (Auth_exits, fm')"
proof -
  have c: "truthy (client_id ''claude-oauth-client-id'' f) = truthy (file_entry f ''claude-oauth-client-id'')" for f
    by (auto simp: client_id_def file_entry_def or_else_def opt_get_def split: token_file.split sum.split)
  have "\<not> dhas CREDENTIALS_TEMPLATE ''claude-oauth-client-id''" by (simp add: CREDENTIALS_TEMPLATE_def dhas_def dget_Cons)
  from other_entries_kept [OF assms(1) this client_not_digits, of "getCredentialsPath env home"]
  have "\<not> truthy (file_entry (fm' (getCredentialsPath env home)) ''claude-oauth-client-id'')"
    using assms(2) unfolding c by (cases "file_entry (fm (getCredentialsPath env home)) ''claude-oauth-client-id''") auto
  then show ?thesis by (simp add: loginClaude_def c Let_def)
qed

text \<open>A request without a code, or the timer, leaves the login waiting: the promise of the code is never settled.\<close>

lemma claude_closed: "\<not> cb_open c \<Longrightarrow> cb_code (claude_run es c) = cb_code c"
proof (induction es arbitrary: c)
  case (Cons e es)
  have "\<not> cb_open (claude_step e c)" "cb_code (claude_step e c) = cb_code c"
    using Cons.prems by (cases e; simp add: cb_stop_def)+
  then show ?case using Cons.IH by (simp add: claude_run_def)
qed (simp add: claude_run_def)

lemma claude_login_hangs:
  assumes "truthy (client_id ''claude-oauth-client-id'' (fm (getCredentialsPath env home)))"
    and "as_string (client_id ''claude-oauth-client-id'' (fm (getCredentialsPath env home))) = Some c"
    and "findAvailablePort (lw_free W) 28563 28599 = Inr p" "\<And>u. lw_browser W u = Inr ()"
    and "\<And>u. lw_events W p u = e # es" "e = Cb_timer \<or> e = Cb_request ''/callback'' None None"
  shows "loginClaude W a env home fm = (Auth_waits, fm)"
proof -
  have "cb_code (claude_run (e # es) new_callback) = None"
  proof -
    have "\<not> cb_open (claude_step e new_callback)" "cb_code (claude_step e new_callback) = None"
      using assms(6) by (auto simp: claude_handle_def given_def cb_stop_def cb_reply_def new_callback_def)
    then show ?thesis using claude_closed [of "claude_step e new_callback" es] by (simp add: claude_run_def)
  qed
  then show ?thesis using assms by (simp add: loginClaude_def Let_def)
qed

end
