(* ===== verification/Uninstall.thy ===== *)
theory Uninstall
  imports Config_Command
begin

text \<open>
  \<open>src/commands/uninstall.ts\<close>: what the command announces, asks and removes. The disk is the directories that exist,
  the shell files with their texts and whether the npm package is installed. Parameters are the answer of the user and
  what fails: the probes, whose every error counts as \<open>not found\<close> (\<open>uw_hidden\<close>, \<open>uw_npm_hidden\<close>, for the announcement and
  for the removal), the removals, which may have removed a part, the reading of a shell file, and its writing, which may
  leave the file as it was or a prefix of the new text. No shell file is inside a directory that is removed, and the
  messages after the announcement are left out.
\<close>

section \<open>The disk\<close>

record un_disk =
  ud_dirs :: "string \<Rightarrow> bool"
  ud_rc :: "string \<Rightarrow> text_file"
  ud_npm :: bool

record un_world =
  uw_paths :: path_world
  uw_hidden :: "bool \<Rightarrow> string \<Rightarrow> bool"
  uw_npm_hidden :: "bool \<Rightarrow> bool"
  uw_rm_fails :: "string \<Rightarrow> (string \<Rightarrow> bool) option"
  uw_rc_unreadable :: "string \<Rightarrow> bool"
  uw_write_fails :: "string \<Rightarrow> nat option option"
  uw_npm_fails :: "bool option"
  uw_which :: "string option"
  uw_answer :: "string option"

definition inside :: "string \<Rightarrow> string \<Rightarrow> bool" where
  "inside p q \<longleftrightarrow> q = p \<or> starts_with q (p @ ''/'')"

text \<open>\<open>dirExists\<close> and \<open>isNpmInstalled\<close> answer \<open>false\<close> on any error.\<close>

definition dirExists :: "un_world \<Rightarrow> bool \<Rightarrow> string \<Rightarrow> un_disk \<Rightarrow> bool" where
  "dirExists W removing p D \<longleftrightarrow> ud_dirs D p \<and> \<not> uw_hidden W removing p"

definition isNpmInstalled :: "un_world \<Rightarrow> bool \<Rightarrow> un_disk \<Rightarrow> bool" where
  "isNpmInstalled W removing D \<longleftrightarrow> ud_npm D \<and> \<not> uw_npm_hidden W removing"

definition removeDir :: "un_world \<Rightarrow> string \<Rightarrow> un_disk \<Rightarrow> bool \<times> un_disk" where
  "removeDir W p D =
    (if \<not> dirExists W True p D then (True, D)
     else case uw_rm_fails W p of
       Some part \<Rightarrow> (False, D\<lparr>ud_dirs := (\<lambda>q. ud_dirs D q \<and> \<not> (inside p q \<and> part q))\<rparr>)
     | None \<Rightarrow> (True, D\<lparr>ud_dirs := (\<lambda>q. ud_dirs D q \<and> \<not> inside p q)\<rparr>))"

section \<open>The shell files\<close>

definition rcFiles :: "string list" where
  "rcFiles = [''.bashrc'', ''.bash_profile'', ''.profile'', ''.zshrc'', ''.zprofile'']"

text \<open>\<open>includes\<close> takes the first pattern as it is written.\<close>

definition hasApoharaExport :: "string \<Rightarrow> bool" where
  "hasApoharaExport t \<longleftrightarrow> contains t (''export PATH='' @ [dquote] @ ''.*apohara.*'' @ [dquote]) \<or>
     contains t ''apohara/bin'' \<or> contains t ''apohara/bin''"

definition rc_line_kept :: "string \<Rightarrow> bool" where
  "rc_line_kept line \<longleftrightarrow> \<not> contains line ''apohara/bin'' \<and> \<not> (contains line ''apohara'' \<and> contains line ''source'')"

definition clean_rc :: "string \<Rightarrow> string" where
  "clean_rc t = join [newline] (filter rc_line_kept (split_lines t))"

definition clean_file :: "un_world \<Rightarrow> string \<Rightarrow> un_disk \<Rightarrow> un_disk" where
  "clean_file W name D = (let p = join_path (pw_home (uw_paths W)) name in
     case ud_rc D p of None \<Rightarrow> D
     | Some t \<Rightarrow>
       if uw_rc_unreadable W p \<or> \<not> hasApoharaExport t \<or> clean_rc t = join [newline] (split_lines t) then D
       else case uw_write_fails W p of
         None \<Rightarrow> D\<lparr>ud_rc := (ud_rc D)(p := Some (clean_rc t))\<rparr>
       | Some None \<Rightarrow> D
       | Some (Some n) \<Rightarrow> D\<lparr>ud_rc := (ud_rc D)(p := Some (take n (clean_rc t)))\<rparr>)"

text \<open>Errors are caught, and the result is always the same.\<close>

definition removeFromPath :: "un_world \<Rightarrow> un_disk \<Rightarrow> bool \<times> un_disk" where
  "removeFromPath W D = (True, fold (clean_file W) rcFiles D)"

definition removeNpmPackage :: "un_world \<Rightarrow> un_disk \<Rightarrow> bool \<times> un_disk" where
  "removeNpmPackage W D =
    (if \<not> isNpmInstalled W True D then (True, D)
     else case uw_npm_fails W of
       Some removed \<Rightarrow> (False, D\<lparr>ud_npm := \<not> removed\<rparr>)
     | None \<Rightarrow> (True, D\<lparr>ud_npm := False\<rparr>))"

section \<open>The command\<close>

definition announced :: "un_world \<Rightarrow> un_disk \<Rightarrow> string \<Rightarrow> string \<Rightarrow> string" where
  "announced W D label p = ''  '' @ [CHR 0xE2, CHR 0x80, CHR 0xA2] @ '' '' @ label @ '': '' @ p @ (if dirExists W False p D then '' (exists)'' else [])"

definition showWhatWillBeRemoved :: "un_world \<Rightarrow> un_disk \<Rightarrow> string list" where
  "showWhatWillBeRemoved W D = (let P = uw_paths W; bullet = ''  '' @ [CHR 0xE2, CHR 0x80, CHR 0xA2] in
     [announced W D ''Config directory'' (getConfigDir P), announced W D ''State directory'' (getStateDir P),
      announced W D ''Cache directory'' (getCacheDir P),
      bullet @ '' npm global package: '' @ (if isNpmInstalled W False D then ''installed'' else ''not installed''),
      bullet @ '' Binary location: '' @ (case uw_which W of Some w \<Rightarrow> trim w | None \<Rightarrow> ''not in PATH'')])"

datatype uninstall_end = Un_waits | Un_cancelled | Un_dry | Un_removed bool

text \<open>One removal after the other; a failure is remembered and the next one goes on.\<close>

definition after_that :: "(un_disk \<Rightarrow> bool \<times> un_disk) \<Rightarrow> bool \<times> un_disk \<Rightarrow> bool \<times> un_disk" where
  "after_that f r = (case f (snd r) of (ok, D) \<Rightarrow> (fst r \<and> ok, D))"

definition remove_all :: "un_world \<Rightarrow> un_disk \<Rightarrow> bool \<times> un_disk" where
  "remove_all W D =
    (let P = uw_paths W; configDir = getConfigDir P; stateDir = getStateDir P; cacheDir = getCacheDir P;
         r1 = after_that (removeDir W configDir) (True, D);
         r2 = (if stateDir \<noteq> configDir then after_that (removeDir W stateDir) r1 else r1);
         r3 = (if cacheDir \<noteq> configDir then after_that (removeDir W cacheDir) r2 else r2)
     in after_that (removeNpmPackage W) (after_that (removeFromPath W) r3))"

definition uninstall :: "un_world \<Rightarrow> bool \<Rightarrow> bool \<Rightarrow> un_disk \<Rightarrow> uninstall_end \<times> un_disk" where
  "uninstall W dryRun yes D =
    (case (if yes then Some True else map_option (confirms False) (uw_answer W)) of
       None \<Rightarrow> (Un_waits, D)
     | Some False \<Rightarrow> (Un_cancelled, D)
     | Some True \<Rightarrow> if dryRun then (Un_dry, D) else (case remove_all W D of (ok, D') \<Rightarrow> (Un_removed ok, D')))"

section \<open>What is removed\<close>

lemma join_split_lines [simp]: "join [newline] (split_lines t) = t"
proof (induction t)
  case (Cons c t)
  then show ?case using split_lines_ne [of t] by (cases "split_lines t" rule: remdups_adj.cases) (auto split: list.splits)
qed simp

text \<open>The text of a shell file after the command: cleaned, or the part of that which a failing write has left.\<close>

definition cleaned :: "un_world \<Rightarrow> string \<Rightarrow> string \<Rightarrow> text_file \<Rightarrow> bool" where
  "cleaned W q t f \<longleftrightarrow> f = Some (clean_rc t) \<or> (\<exists>n. uw_write_fails W q = Some (Some n) \<and> f = Some (take n (clean_rc t)))"

text \<open>What a step may do: remove directories inside one of three, clean shell files, remove the package.\<close>

definition only_ours :: "un_world \<Rightarrow> un_disk \<Rightarrow> un_disk \<Rightarrow> bool" where
  "only_ours W D D' \<longleftrightarrow>
    (\<forall>q. ud_dirs D' q \<longrightarrow> ud_dirs D q) \<and>
    (\<forall>q. ud_dirs D q \<and> \<not> ud_dirs D' q \<longrightarrow> (\<exists>p\<in>{getConfigDir (uw_paths W), getStateDir (uw_paths W), getCacheDir (uw_paths W)}. inside p q)) \<and>
    (\<forall>q. ud_rc D' q = ud_rc D q \<or> (\<exists>t n. n \<in> set rcFiles \<and> q = join_path (pw_home (uw_paths W)) n \<and> ud_rc D q = Some t \<and>
        contains t ''apohara'' \<and> cleaned W q t (ud_rc D' q))) \<and>
    (ud_npm D' \<longrightarrow> ud_npm D)"

lemma only_ours_refl: "only_ours W D D"
  by (simp add: only_ours_def)

lemma removeDir_ours:
  assumes "p \<in> {getConfigDir (uw_paths W), getStateDir (uw_paths W), getCacheDir (uw_paths W)}" "only_ours W D D1"
  shows "only_ours W D (snd (removeDir W p D1))"
proof -
  obtain R where R: "snd (removeDir W p D1) = D1\<lparr>ud_dirs := (\<lambda>q. ud_dirs D1 q \<and> \<not> (inside p q \<and> R q))\<rparr>"
  proof (cases "uw_rm_fails W p")
    case None
    then show ?thesis using that [of "\<lambda>q. dirExists W True p D1"] by (simp add: removeDir_def)
  next
    case (Some part)
    then show ?thesis using that [of "\<lambda>q. dirExists W True p D1 \<and> part q"] by (simp add: removeDir_def)
  qed
  show ?thesis using assms unfolding R only_ours_def by (simp del: insert_iff) blast
qed

lemma npm_ours: "only_ours W D D1 \<Longrightarrow> only_ours W D (snd (removeNpmPackage W D1))"
  by (auto simp: removeNpmPackage_def isNpmInstalled_def only_ours_def split: option.split)

lemma after_that_snd: "snd (after_that f r) = snd (f (snd r))" "fst (after_that f r) \<longleftrightarrow> fst r \<and> fst (f (snd r))"
  by (simp_all add: after_that_def split: prod.split)

lemma clean_other: "q \<noteq> join_path (pw_home (uw_paths W)) n \<Longrightarrow> ud_rc (clean_file W n D) q = ud_rc D q"
  by (auto simp: clean_file_def Let_def split: option.split)

lemma clean_file_cases:
  "ud_dirs (clean_file W n D) = ud_dirs D" "ud_npm (clean_file W n D) = ud_npm D"
  "ud_rc (clean_file W n D) q = ud_rc D q \<or> q = join_path (pw_home (uw_paths W)) n \<and>
     (\<exists>t. ud_rc D q = Some t \<and> contains t ''apohara'' \<and> cleaned W q t (ud_rc (clean_file W n D) q))"
proof -
  have "hasApoharaExport t \<Longrightarrow> contains t ''apohara''" for t
  proof -
    assume "hasApoharaExport t"
    then obtain a b where "t = a @ ''apohara'' @ b"
    proof (cases "contains t ''apohara/bin''")
      case True
      then obtain a b where "t = a @ ''apohara/bin'' @ b" by (auto simp: contains_iff)
      then show ?thesis using that [of a "''/bin'' @ b"] by simp
    next
      case False
      with \<open>hasApoharaExport t\<close> obtain a b where "t = a @ (''export PATH='' @ [dquote] @ ''.*apohara.*'' @ [dquote]) @ b"
        unfolding hasApoharaExport_def contains_iff by blast
      then show ?thesis using that [of "a @ ''export PATH='' @ [dquote] @ ''.*''" "''.*'' @ [dquote] @ b"] by simp
    qed
    then show ?thesis by (auto simp: contains_iff)
  qed
  then show "ud_dirs (clean_file W n D) = ud_dirs D" "ud_npm (clean_file W n D) = ud_npm D"
    "ud_rc (clean_file W n D) q = ud_rc D q \<or> q = join_path (pw_home (uw_paths W)) n \<and>
     (\<exists>t. ud_rc D q = Some t \<and> contains t ''apohara'' \<and> cleaned W q t (ud_rc (clean_file W n D) q))"
    by (auto simp: clean_file_def cleaned_def Let_def split: option.splits)
qed

lemma join_path_inj [simp]: "join_path d m = join_path d n \<longleftrightarrow> m = n"
  by (simp add: join_path_def)

lemma clean_all:
  assumes "distinct ns"
  shows "ud_dirs (fold (clean_file W) ns D) = ud_dirs D \<and> ud_npm (fold (clean_file W) ns D) = ud_npm D \<and>
    (ud_rc (fold (clean_file W) ns D) q = ud_rc D q \<or> (\<exists>t n. n \<in> set ns \<and> q = join_path (pw_home (uw_paths W)) n \<and>
       ud_rc D q = Some t \<and> contains t ''apohara'' \<and> cleaned W q t (ud_rc (fold (clean_file W) ns D) q)))"
  using assms
proof (induction ns arbitrary: D)
  case (Cons n ns)
  let ?D = "clean_file W n D"
  have other: "ud_rc (fold (clean_file W) ms E) p = ud_rc E p" if "\<forall>m\<in>set ms. p \<noteq> join_path (pw_home (uw_paths W)) m" for ms E p
    using that by (induction ms arbitrary: E) (auto simp: clean_other)
  from Cons have IH: "ud_dirs (fold (clean_file W) ns ?D) = ud_dirs ?D" "ud_npm (fold (clean_file W) ns ?D) = ud_npm ?D"
    "ud_rc (fold (clean_file W) ns ?D) q = ud_rc ?D q \<or> (\<exists>t m. m \<in> set ns \<and> q = join_path (pw_home (uw_paths W)) m \<and>
       ud_rc ?D q = Some t \<and> contains t ''apohara'' \<and> cleaned W q t (ud_rc (fold (clean_file W) ns ?D) q))" by auto
  show ?case
  proof (cases "q = join_path (pw_home (uw_paths W)) n")
    case True
    then have "\<forall>m\<in>set ns. q \<noteq> join_path (pw_home (uw_paths W)) m" using Cons.prems by auto
    from other [OF this, of ?D] show ?thesis using IH(1,2) clean_file_cases(1,2) [of W n D] clean_file_cases(3) [of W n D q] by auto
  next
    case False
    then show ?thesis using IH clean_other [OF False, of D] clean_file_cases(1,2) [of W n D] by auto
  qed
qed simp

lemma path_ours: "ud_rc D1 = ud_rc D \<Longrightarrow> only_ours W D D1 \<Longrightarrow> only_ours W D (snd (removeFromPath W D1))"
  using clean_all [of rcFiles W D1] by (fastforce simp: only_ours_def removeFromPath_def rcFiles_def)

lemma removeDir_simps [simp]:
  "ud_rc (snd (removeDir W p D)) = ud_rc D" "ud_npm (snd (removeDir W p D)) = ud_npm D"
  by (simp_all add: removeDir_def split: option.split)

text \<open>The disk after the directories, and what a success means.\<close>

definition dirs_removed :: "un_world \<Rightarrow> un_disk \<Rightarrow> bool \<times> un_disk" where
  "dirs_removed W D = (let P = uw_paths W; r1 = after_that (removeDir W (getConfigDir P)) (True, D);
     r2 = (if getStateDir P \<noteq> getConfigDir P then after_that (removeDir W (getStateDir P)) r1 else r1)
     in if getCacheDir P \<noteq> getConfigDir P then after_that (removeDir W (getCacheDir P)) r2 else r2)"

lemma remove_all_parts: "remove_all W D = after_that (removeNpmPackage W) (after_that (removeFromPath W) (dirs_removed W D))"
  by (simp add: remove_all_def dirs_removed_def Let_def)

lemma dirs_removed_ours: "only_ours W D (snd (dirs_removed W D))" "ud_rc (snd (dirs_removed W D)) = ud_rc D"
  by (auto simp: dirs_removed_def Let_def after_that_snd intro!: removeDir_ours only_ours_refl)

lemma removeDir_gone: "fst (removeDir W p D) \<Longrightarrow> ud_dirs (snd (removeDir W p D)) p \<Longrightarrow> uw_hidden W True p"
  "ud_dirs (snd (removeDir W p D)) q \<Longrightarrow> ud_dirs D q"
  by (auto simp: removeDir_def dirExists_def inside_def split: if_splits option.splits)

lemma dirs_removed_gone:
  assumes "fst (dirs_removed W D)" "p \<in> {getConfigDir (uw_paths W), getStateDir (uw_paths W), getCacheDir (uw_paths W)}"
  shows "\<not> ud_dirs (snd (dirs_removed W D)) p \<or> uw_hidden W True p"
  using assms by (auto simp: dirs_removed_def Let_def after_that_snd split: if_splits dest: removeDir_gone)

lemma remove_all_gone:
  assumes "remove_all W D = (True, D')"
  shows "(ud_npm D' \<longrightarrow> uw_npm_hidden W True) \<and>
    (\<forall>p\<in>{getConfigDir (uw_paths W), getStateDir (uw_paths W), getCacheDir (uw_paths W)}. ud_dirs D' p \<longrightarrow> uw_hidden W True p)"
proof -
  have d: "fst (dirs_removed W D)" and n: "fst (removeNpmPackage W (snd (removeFromPath W (snd (dirs_removed W D)))))"
    and D': "D' = snd (removeNpmPackage W (snd (removeFromPath W (snd (dirs_removed W D)))))"
    using assms after_that_snd unfolding remove_all_parts by (metis fst_conv snd_conv)+
  have dirs: "ud_dirs D' = ud_dirs (snd (dirs_removed W D))"
    unfolding D' using clean_all [of rcFiles W "snd (dirs_removed W D)"]
    by (simp add: removeNpmPackage_def removeFromPath_def rcFiles_def split: option.split)
  moreover have "ud_npm D' \<Longrightarrow> uw_npm_hidden W True"
    using n unfolding D' by (auto simp: removeNpmPackage_def isNpmInstalled_def split: if_splits option.splits)
  moreover have "ud_dirs D' p \<longrightarrow> uw_hidden W True p"
    if "p \<in> {getConfigDir (uw_paths W), getStateDir (uw_paths W), getCacheDir (uw_paths W)}" for p
    using dirs_removed_gone [OF d that] by (simp add: dirs)
  ultimately show ?thesis by (intro conjI ballI impI) simp_all
qed

lemma remove_all_ours: "only_ours W D (snd (remove_all W D))"
  unfolding remove_all_parts after_that_snd by (intro npm_ours path_ours dirs_removed_ours)

text \<open>C24.
  Uninstalling removes what belongs to the program and nothing else. Whatever the command does and whatever fails on the
  way: a directory that disappears is inside the configuration, state or cache directory; a text file that changes is
  one of the five shell files, mentions the program, and is its old text without the lines that name the program in the two ways
  looked for, or, where the write failed, the part of that text which the write has left; a dry run, a refusal and a
  question that is never answered change nothing. When the command reports success, each of the three directories
  and the package is gone unless its probe failed: the code takes any error of a probe for \<open>not found\<close>, and success can be
  reported with everything left (\<open>hidden_success\<close>).\<close>

theorem uninstall_safe:
  assumes "uninstall W dryRun yes D = (e, D')"
  shows "only_ours W D D' \<and>
    (dryRun \<or> \<not> yes \<and> \<not> (\<exists>a. uw_answer W = Some a \<and> confirms False a) \<longrightarrow> D' = D) \<and>
    (e = Un_removed True \<longrightarrow> (ud_npm D' \<longrightarrow> uw_npm_hidden W True) \<and>
      (\<forall>p\<in>{getConfigDir (uw_paths W), getStateDir (uw_paths W), getCacheDir (uw_paths W)}. ud_dirs D' p \<longrightarrow> uw_hidden W True p))"
proof -
  have c: "D' = D \<and> e \<noteq> Un_removed True \<or> (\<exists>ok. remove_all W D = (ok, D') \<and> e = Un_removed ok \<and> \<not> dryRun \<and>
      (yes \<or> (\<exists>a. uw_answer W = Some a \<and> confirms False a)))"
    using assms by (auto simp: uninstall_def split: option.splits bool.splits if_splits prod.splits)
  then have "only_ours W D D'" using only_ours_refl remove_all_ours by (metis snd_conv)
  with c remove_all_gone show ?thesis by blast
qed

definition demo_un_disk :: un_disk where
  "demo_un_disk = \<lparr>ud_dirs = (\<lambda>q. q = ''/h/.apohara'' \<or> q = ''/h''), ud_rc = (\<lambda>q. None), ud_npm = True\<rparr>"

definition demo_uninstall :: un_world where
  "demo_uninstall = \<lparr>uw_paths = demo_paths, uw_hidden = (\<lambda>r p. False), uw_npm_hidden = (\<lambda>r. False),
     uw_rm_fails = (\<lambda>p. None), uw_rc_unreadable = (\<lambda>p. False), uw_write_fails = (\<lambda>p. None), uw_npm_fails = None,
     uw_which = None, uw_answer = Some ''y''\<rparr>"

lemma demo_uninstalls: "fst (uninstall demo_uninstall False False demo_un_disk) = Un_removed True"
  by code_simp

lemma uninstall_safe_witness:
  "\<exists>D'. uninstall demo_uninstall False False demo_un_disk = (Un_removed True, D') \<and> \<not> ud_dirs D' (getConfigDir demo_paths) \<and>
     \<not> ud_npm D' \<and> only_ours demo_uninstall demo_un_disk D'"
proof -
  obtain D' where r: "uninstall demo_uninstall False False demo_un_disk = (Un_removed True, D')"
    using demo_uninstalls by (metis prod.collapse)
  moreover have "uw_paths demo_uninstall = demo_paths" "\<not> uw_hidden demo_uninstall r p" "\<not> uw_npm_hidden demo_uninstall r" for r p
    by (simp_all add: demo_uninstall_def)
  ultimately show ?thesis using uninstall_safe [OF r] by auto
qed

text \<open>
  When every probe fails, as \<open>npm list\<close> does where npm is not on the path, success is reported and the
  directories and the package are left.\<close>

lemma hidden_success:
  assumes "\<forall>p. uw_hidden W True p" "uw_npm_hidden W True" "uw_answer W = Some ''y''"
  shows "\<exists>D'. uninstall W False yes D = (Un_removed True, D') \<and> ud_dirs D' = ud_dirs D \<and> ud_npm D' = ud_npm D"
proof -
  have "confirms False ''y''" by code_simp
  moreover have "dirs_removed W D = (True, D)"
    using assms(1) by (simp add: dirs_removed_def removeDir_def dirExists_def after_that_def Let_def)
  ultimately show ?thesis using assms clean_all [of rcFiles W D]
    by (simp add: uninstall_def remove_all_parts removeFromPath_def removeNpmPackage_def isNpmInstalled_def after_that_def rcFiles_def)
qed

text \<open>
  A shell file that cannot be written is passed over in silence; the write is in place, so what it leaves
  when it fails half-way is a shell file that is cut off, and the command still reports success.\<close>

lemma failed_write_reported_as_success:
  assumes "ud_rc D (join_path (pw_home (uw_paths W)) ''.bashrc'') = Some t" "hasApoharaExport t" "clean_rc t \<noteq> t"
    and "\<not> uw_rc_unreadable W (join_path (pw_home (uw_paths W)) ''.bashrc'')"
    and "uw_write_fails W (join_path (pw_home (uw_paths W)) ''.bashrc'') = Some (Some 0)"
  shows "ud_rc (clean_file W ''.bashrc'' D) (join_path (pw_home (uw_paths W)) ''.bashrc'') = Some []" "fst (removeFromPath W D)"
  using assms by (simp_all add: clean_file_def removeFromPath_def Let_def)

text \<open>A line that puts the program on the path without \<open>apohara/bin\<close> is left, and so is a script that is sourced when no other line has \<open>apohara/bin\<close>.\<close>

lemma path_lines_left:
  "clean_file W ''.bashrc'' D = D" if "ud_rc D (join_path (pw_home (uw_paths W)) ''.bashrc'') =
    Some (''export PATH='' @ [dquote] @ ''/opt/apohara:$PATH'' @ [dquote] @ newline # ''source ~/.apohara/init.sh'')"
proof -
  have "\<not> hasApoharaExport (''export PATH='' @ [dquote] @ ''/opt/apohara:$PATH'' @ [dquote] @ newline # ''source ~/.apohara/init.sh'')"
    by code_simp
  then show ?thesis using that by (simp add: clean_file_def Let_def)
qed

end
