(* ===== verification/Inngest.thy ===== *)
theory Inngest
  imports Provider_Calls
begin

text \<open>
  \<open>src/lib/inngest-client.ts\<close>: the client that wraps a step of a run. Its dispatches are a map by id, whose
  results are shared with the callers; the identifiers of dispatches and the clock, the network and the outcomes of the attempts of a
  step are parameters. \<open>createStepFunction\<close> only packs its arguments.
\<close>

section \<open>The client\<close>

datatype dispatch_status = Dispatch_completed | Dispatch_failed | Dispatch_cancelled

record inngest =
  in_appId :: string
  in_apiKey :: string
  in_baseUrl :: string
  activeDispatches :: "(string, dispatch_status) dict"

definition first_text :: "string option \<Rightarrow> string option \<Rightarrow> string \<Rightarrow> string" where
  "first_text x y d = (case x of Some (c # cs) \<Rightarrow> c # cs | _ \<Rightarrow> (case y of Some (c # cs) \<Rightarrow> c # cs | _ \<Rightarrow> d))"

definition new_inngest :: "(string \<Rightarrow> string option) \<Rightarrow> string option \<Rightarrow> string option \<Rightarrow> string option \<Rightarrow> inngest" where
  "new_inngest env appId apiKey baseUrl = \<lparr>in_appId = first_text appId (env ''INNGEST_APP_ID'') ''apohara'',
     in_apiKey = first_text apiKey (env ''INNGEST_API_KEY'') [], in_baseUrl = first_text baseUrl None ''https://api.inngest.com/fn'',
     activeDispatches = []\<rparr>"

text \<open>Nothing is sent: the dispatch is stored as completed.\<close>

definition inngest_dispatch :: "string \<Rightarrow> inngest \<Rightarrow> (string \<times> dispatch_status) \<times> inngest" where
  "inngest_dispatch dispatchId c =
     ((dispatchId, Dispatch_completed), c\<lparr>activeDispatches := dset dispatchId Dispatch_completed (activeDispatches c)\<rparr>)"

definition getDispatch :: "string \<Rightarrow> inngest \<Rightarrow> dispatch_status option" where
  "getDispatch i c = dget (activeDispatches c) i"

definition cancelDispatch :: "string \<Rightarrow> inngest \<Rightarrow> inngest" where
  "cancelDispatch i c = (case dget (activeDispatches c) i of None \<Rightarrow> c
     | Some s \<Rightarrow> c\<lparr>activeDispatches := dset i Dispatch_cancelled (activeDispatches c)\<rparr>)"

definition isConfigured :: "(string \<Rightarrow> string option) \<Rightarrow> inngest \<Rightarrow> bool" where
  "isConfigured env c \<longleftrightarrow> in_apiKey c \<noteq> [] \<or> (case env ''INNGEST_API_KEY'' of Some (x # xs) \<Rightarrow> True | _ \<Rightarrow> False)"

definition sendEvent :: "(http_request \<Rightarrow> string + http_reply) \<Rightarrow> int \<Rightarrow> string \<Rightarrow> json \<Rightarrow> inngest \<Rightarrow> string + json" where
  "sendEvent ask_net now eventName payload c =
    (case ask_net \<lparr>url = in_baseUrl c @ ''/send'',
         headers = [(''Content-Type'', ''application/json''), (''Authorization'', ''Bearer '' @ in_apiKey c), (''Inngest-Signature'', [])],
         request_body = JObj [(''name'', JStr eventName), (''id'', JStr (eventName @ ''-'' @ show_int now)), (''data'', payload)], timeout_ms = 0\<rparr> of
       Inl e \<Rightarrow> Inl e
     | Inr rep \<Rightarrow> if \<not> reply_ok rep then Inl (''Inngest event send failed: '' @ show_nat (reply_status rep) @ '' '' @ reply_text rep)
         else reply_json rep)"

section \<open>A step\<close>

text \<open>
  How a step ends, \<open>Step_throws None\<close> when no attempt was made and \<open>undefined\<close> is thrown; the attempts that were
  made and the delays between them.\<close>

datatype 'a step_end = Step_returns 'a | Step_throws "string option"

record 'a step_run =
  sr_end :: "'a step_end"
  sr_attempts :: "int list"
  sr_delays :: "int list"

text \<open>The loop, with the number of attempts that are left as the measure: \<open>attempt\<close> counts up to \<open>maxAttempts\<close>.\<close>

fun step_loop :: "(int \<Rightarrow> string + 'a) \<Rightarrow> int \<Rightarrow> int \<Rightarrow> int \<Rightarrow> nat \<Rightarrow> string option \<Rightarrow> 'a step_run" where
  "step_loop run maxAttempts interval attempt 0 lastErr = \<lparr>sr_end = Step_throws lastErr, sr_attempts = [], sr_delays = []\<rparr>"
| "step_loop run maxAttempts interval attempt (Suc left) lastErr =
    (case run attempt of
       Inr x \<Rightarrow> \<lparr>sr_end = Step_returns x, sr_attempts = [attempt], sr_delays = []\<rparr>
     | Inl e \<Rightarrow> (let r = step_loop run maxAttempts interval (attempt + 1) left (Some e)
         in r\<lparr>sr_attempts := attempt # sr_attempts r,
              sr_delays := (if attempt < maxAttempts then [interval * attempt] else []) @ sr_delays r\<rparr>))"

definition executeStep :: "(int \<Rightarrow> string + 'a) \<Rightarrow> int option \<Rightarrow> int option \<Rightarrow> 'a step_run" where
  "executeStep run maxOpt intervalOpt =
    (let maxAttempts = (case maxOpt of None \<Rightarrow> 3 | Some n \<Rightarrow> if n = 0 then 3 else n);
         interval = (case intervalOpt of None \<Rightarrow> 1000 | Some n \<Rightarrow> if n = 0 then 1000 else n)
     in step_loop run maxAttempts interval 1 (nat maxAttempts) None)"

section \<open>What a step does\<close>

lemma step_loop_result:
  assumes "int left = m + 1 - a" "a \<ge> 1"
  shows "(\<exists>k. a \<le> k \<and> k \<le> m \<and> (\<forall>i. a \<le> i \<and> i < k \<longrightarrow> isl (run i)) \<and> (\<exists>x. run k = Inr x \<and> sr_end (step_loop run m iv a left l) = Step_returns x) \<and>
      sr_attempts (step_loop run m iv a left l) = [a..k] \<and> sr_delays (step_loop run m iv a left l) = map (\<lambda>i. iv * i) [a..k - 1]) \<or>
    (\<forall>i. a \<le> i \<and> i \<le> m \<longrightarrow> isl (run i)) \<and> sr_attempts (step_loop run m iv a left l) = [a..m] \<and>
      sr_delays (step_loop run m iv a left l) = map (\<lambda>i. iv * i) [a..m - 1] \<and>
      sr_end (step_loop run m iv a left l) = Step_throws (if a \<le> m then Some (projl (run m)) else l)"
  using assms
proof (induction left arbitrary: a l)
  case (Suc left)
  show ?case
  proof (cases "run a")
    case (Inr x)
    then show ?thesis using Suc.prems by (intro disjI1 exI [of _ a]) (auto simp: upto.simps)
  next
    case (Inl e)
    have p: "int left = m + 1 - (a + 1)" "a + 1 \<ge> 1" "a \<le> m" using Suc.prems by auto
    have u: "[a..k] = a # [a + 1..k]" if "a \<le> k" for k using that by (simp add: upto_rec1)
    let ?r = "step_loop run m iv (a + 1) left (Some e)"
    have s: "sr_end (step_loop run m iv a (Suc left) l) = sr_end ?r" "sr_attempts (step_loop run m iv a (Suc left) l) = a # sr_attempts ?r"
      "sr_delays (step_loop run m iv a (Suc left) l) = (if a < m then [iv * a] else []) @ sr_delays ?r"
      using Inl by (simp_all add: Let_def)
    have i: "isl (run j)" if "a \<le> j" "\<forall>i. a + 1 \<le> i \<and> i < k \<longrightarrow> isl (run i)" "j < k" for j k
      using that Inl by (cases "j = a") auto
    from Suc.IH [OF p(1,2), of "Some e"] show ?thesis
    proof
      assume "\<exists>k. a + 1 \<le> k \<and> k \<le> m \<and> (\<forall>i. a + 1 \<le> i \<and> i < k \<longrightarrow> isl (run i)) \<and> (\<exists>x. run k = Inr x \<and> sr_end ?r = Step_returns x) \<and>
        sr_attempts ?r = [a + 1..k] \<and> sr_delays ?r = map (\<lambda>i. iv * i) [a + 1..k - 1]"
      then obtain k where k: "a + 1 \<le> k" "k \<le> m" "\<forall>i. a + 1 \<le> i \<and> i < k \<longrightarrow> isl (run i)" "\<exists>x. run k = Inr x \<and> sr_end ?r = Step_returns x"
        "sr_attempts ?r = [a + 1..k]" "sr_delays ?r = map (\<lambda>i. iv * i) [a + 1..k - 1]" by blast
      have "a < m" "[a..k] = a # [a + 1..k]" "[a..k - 1] = a # [a + 1..k - 1]" using k(1,2) u by auto
      then show ?thesis using k i [OF _ k(3)] unfolding s by (intro disjI1 exI [of _ k]) auto
    next
      assume h: "(\<forall>i. a + 1 \<le> i \<and> i \<le> m \<longrightarrow> isl (run i)) \<and> sr_attempts ?r = [a + 1..m] \<and>
        sr_delays ?r = map (\<lambda>i. iv * i) [a + 1..m - 1] \<and> sr_end ?r = Step_throws (if a + 1 \<le> m then Some (projl (run m)) else Some e)"
      have "isl (run j)" if "a \<le> j" "j \<le> m" for j using h that Inl by (cases "j = a") auto
      moreover have "(if a < m then [iv * a] else []) @ map (\<lambda>i. iv * i) [a + 1..m - 1] = map (\<lambda>i. iv * i) [a..m - 1]"
        using u [of "m - 1"] by auto
      moreover have "(if a + 1 \<le> m then Some (projl (run m)) else Some e) = Some (projl (run m))" using Inl p(3) by (cases "a = m") auto
      ultimately show ?thesis using h u [OF p(3)] p(3) unfolding s by (intro disjI2) simp
    qed
  qed
qed auto

text \<open>
  The retries of a step. With at least one attempt allowed, the attempts are numbered from 1 without a gap, the
  delay after attempt \<open>i\<close> is \<open>i\<close> times the interval, and the step returns the result of the first attempt that does
  not throw; it throws only when every attempt allowed has thrown, and then the last error.\<close>

theorem executeStep_retries:
  assumes "1 \<le> m" "iv \<noteq> 0"
  shows "let r = executeStep run (Some m) (Some iv) in
    (\<exists>k x. 1 \<le> k \<and> k \<le> m \<and> (\<forall>i. 1 \<le> i \<and> i < k \<longrightarrow> isl (run i)) \<and> run k = Inr x \<and> sr_end r = Step_returns x \<and>
       sr_attempts r = [1..k] \<and> sr_delays r = map (\<lambda>i. iv * i) [1..k - 1]) \<or>
    (\<forall>i. 1 \<le> i \<and> i \<le> m \<longrightarrow> isl (run i)) \<and> sr_end r = Step_throws (Some (projl (run m))) \<and>
       sr_attempts r = [1..m] \<and> sr_delays r = map (\<lambda>i. iv * i) [1..m - 1]"
  using step_loop_result [of "nat m" m 1 run iv None] assms by (auto simp: executeStep_def)

lemma executeStep_retries_witness:
  "sr_end (executeStep (\<lambda>i. if i < 3 then Inl ''no'' else Inr (5::nat)) (Some 3) (Some 10)) = Step_returns 5"
proof -
  have "\<not> (\<forall>i::int. 1 \<le> i \<and> i \<le> 3 \<longrightarrow> isl (if i < 3 then Inl ''no'' else Inr (5::nat)))" by (auto intro!: exI [of _ 3])
  then show ?thesis
    using executeStep_retries [of 3 10 "\<lambda>i. if i < 3 then Inl ''no'' else Inr (5::nat)"] by (auto simp: Let_def split: if_splits dest: spec [of _ 3])
qed

text \<open>The subagent manager allows one attempt: the step is the call, made once, with its error or its result.\<close>

lemma executeStep_once:
  "sr_end (executeStep run (Some 1) (Some 0)) = (case run 1 of Inl e \<Rightarrow> Step_throws (Some e) | Inr x \<Rightarrow> Step_returns x)"
  "sr_attempts (executeStep run (Some 1) (Some 0)) = [1]" "sr_delays (executeStep run (Some 1) (Some 0)) = []"
  by (simp_all add: executeStep_def Let_def split: sum.split)

text \<open>A limit of zero means three attempts, a negative one none, and what is thrown is then \<open>undefined\<close>.\<close>

lemma executeStep_limits:
  "executeStep run (Some 0) iv = executeStep run (Some 3) iv" "n < 0 \<Longrightarrow> sr_end (executeStep run (Some n) iv) = Step_throws None"
  by (simp_all add: executeStep_def Let_def)

text \<open>A dispatch is completed as soon as it is made, unless it is cancelled; a cancelled one is never completed again by another call.\<close>

lemma dispatch_status_of:
  "getDispatch i (snd (inngest_dispatch j c)) = (if i = j then Some Dispatch_completed else getDispatch i c)"
  "getDispatch i (cancelDispatch j c) = (if i = j \<and> getDispatch i c \<noteq> None then Some Dispatch_cancelled else getDispatch i c)"
  by (auto simp: getDispatch_def inngest_dispatch_def cancelDispatch_def dict.get_put split: option.split)

end
