(* ===== verification/App_Setup.thy ===== *)
theory App_Setup
  imports Auto Decompose
begin

text \<open>
  How the program is put together: the reading of the environment (\<open>src/core/config.ts\<close>), the start of a process
  (\<open>src/lib/spawn.ts\<close>), the command that starts the dashboard (\<open>src/commands/dashboard.ts\<close> and
  \<open>packages/tui/cli.tsx\<close>), and the wiring of the components (\<open>src/core/orchestration\<close>). A variable is a text or
  missing; an object is a reference, and the references of new objects are taken from a supply.\<close>

section \<open>The environment\<close>

datatype zod_field = Z_optional_string | Z_enum_default "string list" string

definition NODE_ENVS :: "string list" where
  "NODE_ENVS = [''development'', ''production'', ''test'']"

definition OPTIONAL_KEYS :: "string list" where
  "OPTIONAL_KEYS = [''OPENCODE_API_KEY'', ''ANTHROPIC_API_KEY'', ''GOOGLE_AI_STUDIO_API_KEY'', ''DEEPSEEK_API_KEY'', ''PERPLEXITY_API_KEY'',
     ''GEMINI_API_KEY'', ''MOONSHOT_API_KEY'', ''XIAOMI_API_KEY'', ''ALIBABA_API_KEY'', ''MINIMAX_API_KEY'', ''DEEPINFRA_API_KEY'',
     ''FIREWORKS_API_KEY'', ''ZAI_API_KEY'', ''TAVILY_API_KEY'', ''GITNEXUS_PATH'', ''COCOINDEX_CODE_PATH'', ''MEM0_API_KEY'',
     ''INNGEST_API_KEY'', ''INNGEST_APP_ID'', ''GITHUB_TOKEN'']"

definition envSchema :: "(string \<times> zod_field) list" where
  "envSchema = map (\<lambda>k. (k, Z_optional_string)) OPTIONAL_KEYS @ [(''NODE_ENV'', Z_enum_default NODE_ENVS ''development'')]"

text \<open>
  The validator is zod, a package; what it answers is a parameter, \<open>None\<close> a failure. It is documented to check the fields
  one by one: an optional text accepts a text or nothing, an enumeration with a default accepts nothing, which
  becomes the default, or one of its words; on success the answer has the accepted values.\<close>

type_synonym validator = "(string \<times> zod_field) list \<Rightarrow> (string \<Rightarrow> string option) \<Rightarrow> (string, string) dict option"

fun field_accepts :: "zod_field \<Rightarrow> string option \<Rightarrow> bool" where
  "field_accepts Z_optional_string v = True"
| "field_accepts (Z_enum_default ws d) v = (case v of None \<Rightarrow> True | Some w \<Rightarrow> w \<in> set ws)"

fun field_value :: "zod_field \<Rightarrow> string option \<Rightarrow> string option" where
  "field_value Z_optional_string v = v"
| "field_value (Z_enum_default ws d) v = (case v of None \<Rightarrow> Some d | Some w \<Rightarrow> Some w)"

definition zod_documented :: "validator \<Rightarrow> bool" where
  "zod_documented safeParse \<longleftrightarrow> (\<forall>schema env. distinct (map fst schema) \<longrightarrow>
     (safeParse schema env = None \<longleftrightarrow> (\<exists>(k, f)\<in>set schema. \<not> field_accepts f (env k))) \<and>
     (\<forall>data. safeParse schema env = Some data \<longrightarrow> (\<forall>(k, f)\<in>set schema. dget data k = field_value f (env k))))"

definition or_text :: "string option \<Rightarrow> string \<Rightarrow> string" where
  "or_text v d = (case v of Some (c # cs) \<Rightarrow> c # cs | _ \<Rightarrow> d)"

definition test_defaults :: "(string \<times> string) list" where
  "test_defaults = [(''OPENCODE_API_KEY'', ''test-opencode-key''), (''DEEPSEEK_API_KEY'', ''test-deepseek-key''),
     (''PERPLEXITY_API_KEY'', ''test-perplexity-key''), (''GEMINI_API_KEY'', ''test-gemini-key''), (''MOONSHOT_API_KEY'', ''test-moonshot-key''),
     (''XIAOMI_API_KEY'', ''test-xiaomi-key''), (''ALIBABA_API_KEY'', ''test-alibaba-key''), (''MINIMAX_API_KEY'', ''test-minimax-key''),
     (''DEEPINFRA_API_KEY'', ''test-deepinfra-key''), (''FIREWORKS_API_KEY'', ''test-fireworks-key''), (''ZAI_API_KEY'', ''test-tavily-key''),
     (''TAVILY_API_KEY'', ''test-tavily-key''), (''GITNEXUS_PATH'', []), (''COCOINDEX_CODE_PATH'', []), (''MEM0_API_KEY'', []),
     (''INNGEST_API_KEY'', []), (''INNGEST_APP_ID'', [])]"

definition test_config :: "(string \<Rightarrow> string option) \<Rightarrow> (string, string) dict" where
  "test_config env = map (\<lambda>(k, d). (k, or_text (env k) d)) test_defaults @
     List.map_filter (\<lambda>k. case env k of Some (c # cs) \<Rightarrow> Some (k, c # cs) | _ \<Rightarrow> None)
       [''ANTHROPIC_API_KEY'', ''GOOGLE_AI_STUDIO_API_KEY'', ''GITHUB_TOKEN''] @ [(''NODE_ENV'', ''test'')]"

definition parseEnv :: "validator \<Rightarrow> (string \<Rightarrow> string option) \<Rightarrow> string + (string, string) dict" where
  "parseEnv safeParse env = (case safeParse envSchema env of Some data \<Rightarrow> Inr data
     | None \<Rightarrow> if env ''NODE_ENV'' = Some ''test'' then Inr (test_config env) else Inl ''Invalid environment variables'')"

lemma documented_None:
  "zod_documented safeParse \<Longrightarrow> distinct (map fst schema) \<Longrightarrow>
   safeParse schema env = None \<longleftrightarrow> (\<exists>(k, f)\<in>set schema. \<not> field_accepts f (env k))"
  by (simp add: zod_documented_def)

lemma documented_Some:
  assumes "zod_documented safeParse" "distinct (map fst schema)" "safeParse schema env = Some data" "(k, f) \<in> set schema"
  shows "field_accepts f (env k)" "dget data k = field_value f (env k)"
proof -
  have "\<not> (\<exists>(k, f)\<in>set schema. \<not> field_accepts f (env k))"
    using documented_None [OF assms(1,2), of env] assms(3) by simp
  with assms(4) show "field_accepts f (env k)" by auto
  from assms(1-3) have "\<forall>(k, f)\<in>set schema. dget data k = field_value f (env k)"
    by (simp add: zod_documented_def)
  with assms(4) show "dget data k = field_value f (env k)" by auto
qed

lemma envSchema_distinct: "distinct (map fst envSchema)"
  by (simp add: envSchema_def OPTIONAL_KEYS_def comp_def)

lemma envSchema_fields:
  "(k, f) \<in> set envSchema \<longleftrightarrow>
   k \<in> set OPTIONAL_KEYS \<and> f = Z_optional_string \<or> k = ''NODE_ENV'' \<and> f = Z_enum_default NODE_ENVS ''development''"
  by (auto simp: envSchema_def)

text \<open>C39.
  The configuration of a test run. The branch that supplies test keys is never taken: a failure of the check means a
  mode that is not \<open>test\<close>. The module throws exactly for a mode outside the list, the empty one among them, and
  otherwise every variable keeps its value.\<close>

theorem parseEnv_modes:
  assumes z: "zod_documented safeParse"
  shows "(case parseEnv safeParse env of
      Inl e \<Rightarrow> e = ''Invalid environment variables'' \<and> (\<exists>m. env ''NODE_ENV'' = Some m \<and> m \<notin> set NODE_ENVS)
    | Inr data \<Rightarrow> (\<forall>k\<in>set OPTIONAL_KEYS. dget data k = env k) \<and>
        (\<exists>m\<in>set NODE_ENVS. dget data ''NODE_ENV'' = Some m \<and> env ''NODE_ENV'' \<in> {None, Some m}))"
proof (cases "safeParse envSchema env")
  case None
  then have "\<exists>(k, f)\<in>set envSchema. \<not> field_accepts f (env k)"
    using documented_None [OF z envSchema_distinct, of env] by simp
  then obtain m where m: "env ''NODE_ENV'' = Some m" "m \<notin> set NODE_ENVS"
    by (auto simp: envSchema_fields split: option.splits)
  then have "env ''NODE_ENV'' \<noteq> Some ''test''" by (auto simp: NODE_ENVS_def)
  with None m show ?thesis by (simp add: parseEnv_def)
next
  case (Some data)
  note a = documented_Some(1) [OF z envSchema_distinct Some]
  note d = documented_Some(2) [OF z envSchema_distinct Some]
  have o1: "dget data k = env k" if "k \<in> set OPTIONAL_KEYS" for k
    using d [of k Z_optional_string] that by (simp add: envSchema_fields)
  have n: "(''NODE_ENV'', Z_enum_default NODE_ENVS ''development'') \<in> set envSchema" by (simp add: envSchema_fields)
  have "\<exists>m\<in>set NODE_ENVS. dget data ''NODE_ENV'' = Some m \<and> env ''NODE_ENV'' \<in> {None, Some m}"
    using a [OF n] d [OF n] by (cases "env ''NODE_ENV''") (auto simp: NODE_ENVS_def)
  with Some o1 show ?thesis by (simp add: parseEnv_def)
qed

text \<open>A validator as documented.\<close>

definition checked_fields :: validator where
  "checked_fields schema env = (if \<exists>(k, f)\<in>set schema. \<not> field_accepts f (env k) then None
     else Some (List.map_filter (\<lambda>(k, f). map_option (Pair k) (field_value f (env k))) schema))"

lemma checked_fields_documented: "zod_documented checked_fields"
proof -
  let ?m = "\<lambda>env. List.map_filter (\<lambda>(k, f). map_option (Pair k) (field_value f (env k)))"
  have absent: "dget (?m env schema) k = None" if "k \<notin> fst ` set schema" for schema :: "(string \<times> zod_field) list" and env k
    using that by (induction schema) (auto simp: map_filter_simps dget_Cons split: option.split)
  have "dget (?m env schema) k = field_value f (env k)"
    if "(k, f) \<in> set schema" "distinct (map fst schema)" for schema :: "(string \<times> zod_field) list" and k f env
    using that
  proof (induction schema)
    case (Cons e schema)
    obtain k' f' where e: "e = (k', f')" by (cases e)
    show ?case
    proof (cases "k' = k")
      case True
      with Cons.prems e have "k \<notin> fst ` set schema" "f' = f" by force+
      with True e absent [OF this(1), of env] show ?thesis by (cases "field_value f (env k)") (simp_all add: map_filter_simps dget_Cons)
    next
      case False
      with Cons e show ?thesis by (cases "field_value f' (env k')") (simp_all add: map_filter_simps dget_Cons)
    qed
  qed simp
  then show ?thesis by (auto simp: zod_documented_def checked_fields_def)
qed

lemma parseEnv_modes_witness:
  "(case parseEnv checked_fields (\<lambda>k. if k = ''ZAI_API_KEY'' then Some ''z1'' else None) of
      Inl e \<Rightarrow> False | Inr data \<Rightarrow> dget data ''ZAI_API_KEY'' = Some ''z1'')"
  using parseEnv_modes [OF checked_fields_documented, of "\<lambda>k. if k = ''ZAI_API_KEY'' then Some ''z1'' else None"]
  by (auto simp: OPTIONAL_KEYS_def split: sum.splits)

section \<open>Processes\<close>

datatype stdio_kind = Stdio_pipe | Stdio_inherit | Stdio_ignore

record spawn_options =
  so_stdout :: "stdio_kind option"
  so_stderr :: "stdio_kind option"
  so_stdio :: "stdio_kind option"
  so_cwd :: "string option"
  so_env :: "(string, string) dict option"

record node_options =
  no_stdio :: "stdio_kind \<times> stdio_kind \<times> stdio_kind"
  no_cwd :: "string option"
  no_env :: "(string, string) dict option"

text \<open>The options that reach the process: standard input, output and errors, the directory, the variables.\<close>

definition node_options_of :: "(string, string) dict \<Rightarrow> spawn_options \<Rightarrow> node_options" where
  "node_options_of process_env o1 =
    \<lparr>no_stdio = (Stdio_ignore, case so_stdout o1 of None \<Rightarrow> Stdio_pipe | Some k \<Rightarrow> k, case so_stderr o1 of None \<Rightarrow> Stdio_pipe | Some k \<Rightarrow> k),
     no_cwd = (case so_cwd o1 of Some (c # cs) \<Rightarrow> Some (c # cs) | _ \<Rightarrow> None),
     no_env = map_option (foldl (\<lambda>m (k, v). dset k v m) process_env) (so_env o1)\<rparr>"

text \<open>What is collected from a stream: pending, rejected, or the chunks up to its end.\<close>

datatype stream_event = Chunk string | Stream_end | Stream_close | Stream_error string

fun collectStream :: "stream_event list \<Rightarrow> string \<Rightarrow> (string + string) option" where
  "collectStream [] chunks = None"
| "collectStream (Chunk c # es) chunks = collectStream es (chunks @ c)"
| "collectStream (Stream_end # es) chunks = Some (Inr chunks)"
| "collectStream (Stream_close # es) chunks = Some (Inr chunks)"
| "collectStream (Stream_error e # es) chunks = Some (Inl e)"

definition collect_of :: "stream_event list option \<Rightarrow> (string + string) option" where
  "collect_of stream = (case stream of None \<Rightarrow> Some (Inr []) | Some es \<Rightarrow> collectStream es [])"

lemma collect_chunks: "collectStream (map Chunk cs @ Stream_end # es) [] = Some (Inr (concat cs))"
proof -
  have "collectStream (map Chunk cs @ Stream_end # es) acc = Some (Inr (acc @ concat cs))" for acc
    by (induction cs arbitrary: acc) simp_all
  then show ?thesis by simp
qed

section \<open>The dashboard command\<close>

definition run_id_char :: "char \<Rightarrow> bool" where
  "run_id_char c = (let n = (of_char c :: nat) in
     (97 \<le> n \<and> n \<le> 122) \<or> (65 \<le> n \<and> n \<le> 90) \<or> (48 \<le> n \<and> n \<le> 57) \<or> c = CHR ''_'' \<or> c = CHR ''-'')"

definition validateRunId :: "string \<Rightarrow> bool" where
  "validateRunId i \<longleftrightarrow> i \<noteq> [] \<and> list_all run_id_char i"

text \<open>\<open>dirname\<close> of an absolute path without a final slash and with at least two parts.\<close>

definition dir_name :: "string \<Rightarrow> string" where
  "dir_name p = rev (tl (dropWhile (\<lambda>c. c \<noteq> CHR ''/'') (rev p)))"

definition getTuiPath :: "string \<Rightarrow> string" where
  "getTuiPath currentFile = (let currentDir = dir_name currentFile in
     if contains currentDir ''/dist/'' then dir_name (dir_name (dir_name currentDir)) @ ''/packages/tui/cli.tsx''
     else dir_name (dir_name currentDir) @ ''/packages/tui/cli.tsx'')"

datatype dashboard_end = Dash_invalid_id | Dash_started "string list" node_options

definition dashboard_command :: "(string, string) dict \<Rightarrow> string \<Rightarrow> string option \<Rightarrow> dashboard_end" where
  "dashboard_command process_env currentFile run =
    (let given_run = (case run of Some (c # cs) \<Rightarrow> True | _ \<Rightarrow> False) in
     if given_run \<and> \<not> validateRunId (the run) then Dash_invalid_id
     else Dash_started [''bun'', ''run'', getTuiPath currentFile] (node_options_of process_env
       \<lparr>so_stdout = None, so_stderr = None, so_stdio = Some Stdio_inherit, so_cwd = None,
        so_env = Some (if given_run then dset ''APOHARA_RUN_ID'' (the run) process_env else process_env)\<rparr>))"

text \<open>\<open>cli.tsx\<close>: without a terminal on standard input it prints a line and exits with code 1.\<close>

datatype tui_end = Tui_no_terminal nat | Tui_shown

definition tui_cli :: "bool \<Rightarrow> tui_end" where
  "tui_cli isTTY = (if isTTY then Tui_shown else Tui_no_terminal 1)"

text \<open>Standard input is a terminal only if it is inherited from a process whose own one is.\<close>

definition stdin_is_tty :: "bool \<Rightarrow> node_options \<Rightarrow> bool" where
  "stdin_is_tty parent_tty n \<longleftrightarrow> fst (no_stdio n) = Stdio_inherit \<and> parent_tty"

text \<open>
  The dashboard command never shows the dashboard. The option \<open>stdio\<close> that it passes is not read, so the process that
  it starts has no standard input and its output goes to a pipe that nobody reads: whatever the environment, the run and
  the terminal of the user, the dashboard finds no terminal and exits with code 1.\<close>

theorem dashboard_never_shown:
  "dashboard_command process_env file run = Dash_invalid_id \<or>
   (\<exists>args n. dashboard_command process_env file run = Dash_started args n \<and>
      tui_cli (stdin_is_tty parent_tty n) = Tui_no_terminal 1 \<and> snd (no_stdio n) = (Stdio_pipe, Stdio_pipe))"
  by (simp add: dashboard_command_def node_options_of_def stdin_is_tty_def tui_cli_def Let_def)

lemma dir_name_part: "CHR ''/'' \<notin> set n \<Longrightarrow> dir_name (p @ CHR ''/'' # n) = p"
proof -
  assume n: "CHR ''/'' \<notin> set n"
  then have "dropWhile (\<lambda>c. c \<noteq> CHR ''/'') (rev n @ CHR ''/'' # rev p) = CHR ''/'' # rev p"
    by (subst dropWhile_append2) auto
  then show ?thesis by (simp add: dir_name_def)
qed

text \<open>
  From the sources the path of the dashboard is found under the root of the project; from the bundle \<open>dist/cli.js\<close> that
  the build makes, and from compiled commands, it is looked for beside the root.\<close>

lemma tui_path_source:
  assumes "\<not> contains (up @ ''/src/commands'') ''/dist/''"
  shows "getTuiPath (up @ ''/src/commands/dashboard.ts'') = up @ ''/packages/tui/cli.tsx''"
  using assms dir_name_part [of "''dashboard.ts''" "up @ ''/src/commands''"] dir_name_part [of "''commands''" "up @ ''/src''"]
    dir_name_part [of "''src''" up]
  by (simp add: getTuiPath_def Let_def)

lemma tui_path_bundle:
  assumes "\<not> contains (up @ ''/'' @ n @ ''/dist'') ''/dist/''" "CHR ''/'' \<notin> set n"
  shows "getTuiPath (up @ ''/'' @ n @ ''/dist/cli.js'') = up @ ''/packages/tui/cli.tsx''"
  using assms dir_name_part [of "''cli.js''" "up @ ''/'' @ n @ ''/dist''"] dir_name_part [of "''dist''" "up @ ''/'' @ n"]
    dir_name_part [of n up]
  by (simp add: getTuiPath_def Let_def)

lemma tui_path_compiled:
  assumes "CHR ''/'' \<notin> set n"
  shows "getTuiPath (up @ ''/'' @ n @ ''/dist/commands/dashboard.js'') = up @ ''/packages/tui/cli.tsx''"
proof -
  have "contains (up @ ''/'' @ n @ ''/dist/commands'') ''/dist/''"
    unfolding contains_iff by (intro exI [of _ "up @ ''/'' @ n"] exI [of _ "''commands''"]) simp
  then show ?thesis
    using assms dir_name_part [of "''dashboard.js''" "up @ ''/'' @ n @ ''/dist/commands''"] dir_name_part [of "''commands''" "up @ ''/'' @ n @ ''/dist''"]
      dir_name_part [of "''dist''" "up @ ''/'' @ n"] dir_name_part [of n up]
    by (simp add: getTuiPath_def Let_def)
qed

section \<open>The wiring of the components\<close>

text \<open>
  A component that is passed in brings its own ledger and pool of worktrees, by reference. Each object that is made
  takes the next references: a ledger, a pool, and the ledger of each component that makes one.\<close>

record module_options =
  mo_ledger :: "nat option"
  mo_pool :: "nat option"
  mo_decomposer :: "nat option"
  mo_scheduler :: "nat option"
  mo_subagent :: "(nat \<times> nat) option"
  mo_verifier :: "nat option"
  mo_consolidator :: "nat option"

record orchestration =
  om_ledger :: nat
  om_pool :: nat
  om_decomposer :: nat
  om_scheduler :: nat
  om_subagent :: "nat \<times> nat"
  om_verifier :: nat
  om_consolidator :: nat

definition or_ref :: "'a option \<Rightarrow> 'a \<Rightarrow> 'a" where
  "or_ref x d = (case x of None \<Rightarrow> d | Some r \<Rightarrow> r)"

definition createDefaultOrchestrationModule :: "module_options \<Rightarrow> nat \<Rightarrow> orchestration" where
  "createDefaultOrchestrationModule opts n =
    (let ledger = or_ref (mo_ledger opts) n in
     \<lparr>om_ledger = ledger, om_pool = or_ref (mo_pool opts) (n + 1), om_decomposer = or_ref (mo_decomposer opts) (n + 2),
      om_scheduler = or_ref (mo_scheduler opts) ledger, om_subagent = or_ref (mo_subagent opts) (n + 3, n + 4),
      om_verifier = or_ref (mo_verifier opts) (n + 5), om_consolidator = or_ref (mo_consolidator opts) ledger\<rparr>)"

text \<open>\<open>planSlice\<close>\<close>

definition tasks_of :: "DecompositionResult outcome_of \<Rightarrow> DecomposedTask list outcome_of" where
  "tasks_of r = (case r of Throws e \<Rightarrow> Throws e | Returns d \<Rightarrow> Returns (dr_tasks d))"

definition planSlice ::
  "key_store \<Rightarrow> sampler \<Rightarrow> string \<Rightarrow> (nat \<Rightarrow> attempt_world) \<Rightarrow> context_service \<Rightarrow> indexer_answers \<Rightarrow> string list option \<Rightarrow>
   string \<Rightarrow> router agents \<Rightarrow> (DecomposedTask list outcome_of \<times> router agents) option" where
  "planSlice key m now w service ix found prompt s = map_option (map_prod tasks_of id) (decompose key m now w service ix found prompt s)"

text \<open>
  The components do not share the ledger and the pool: only the scheduler and the consolidator that are made get
  the ledger; the subagents, the verifier and the decomposer log to ledgers of their own, and the subagents use a pool
  of their own.\<close>

lemma default_wiring:
  assumes "mo_ledger opts = None \<or> mo_ledger opts = Some l \<and> l < n" "mo_pool opts = None \<or> mo_pool opts = Some w \<and> w < n"
    and "mo_subagent opts = None" "mo_verifier opts = None" "mo_decomposer opts = None" "mo_scheduler opts = None" "mo_consolidator opts = None"
  defines "m \<equiv> createDefaultOrchestrationModule opts n"
  shows "om_scheduler m = om_ledger m" "om_consolidator m = om_ledger m"
    "om_ledger m \<notin> {fst (om_subagent m), om_verifier m, om_decomposer m}" "snd (om_subagent m) \<noteq> om_pool m"
  using assms(1-7) by (auto simp: m_def createDefaultOrchestrationModule_def or_ref_def Let_def)

end
