(* ===== verification/Spec2Isabelle.thy ===== *)
theory Spec2Isabelle
  imports Prelude Core_Types Capability_Manifest Jcr_Gate Json Ledger Worktree Decomposer Scheduler
    Subagent Provider_Completion Agent_Router Routing Verification_Mesh Consolidator
    Sanitize Memory_Prompt Decompose Indexer_Client Context_Forge Isolation Sandbox Token_Store Credentials
    Summary Github Auto Git_Remote Mcp_Client Gemini_Oauth
    Desktop_Server Desktop_Views Ledger_Watcher Dashboard_Views Replay Run_State
    Config_Command Ink_Wizard Auth_Command Uninstall Inngest App_Setup
begin

text \<open>
  A verification library for the TypeScript core of Apohara, an orchestrator that decomposes a request
  into tasks and runs them on language model providers in parallel git worktrees. Everything is a
  shallow embedding of the sources under \<open>src/src\<close>: pure functions are HOL functions, objects are records that are
  passed and returned, a rejected promise is \<open>Inl\<close> or \<open>Throws\<close>, and what runs concurrently is a step relation or a
  list of events.

  \<^bold>\<open>How the program works, and where its parts are.\<close>
  The command \<open>auto\<close> (\<open>commands/auto.ts\<close>: \<^verbatim>\<open>Auto\<close>) asks the decomposer for tasks (\<open>core/decomposer.ts\<close>:
  \<^verbatim>\<open>Decomposer\<close> validates the tasks and decides whether their graph has a cycle, \<^verbatim>\<open>Decompose\<close> holds the routed call and the reading of
  the answer). The decomposer injects memories (\<open>core/memory-injection.ts\<close>: \<^verbatim>\<open>Memory_Prompt\<close>) that come from the
  indexer daemon (\<open>core/indexer-client.ts\<close>: \<^verbatim>\<open>Indexer_Client\<close>), and consults the tool servers (\<open>lib/mcp-client.ts\<close>:
  \<^verbatim>\<open>Mcp_Client\<close>). The tasks go to the subagent manager (\<open>core/subagent-manager.ts\<close>: \<^verbatim>\<open>Subagent\<close>), or to the scheduler with
  its persisted state (\<open>core/scheduler.ts\<close>, \<open>core/state.ts\<close>: \<^verbatim>\<open>Scheduler\<close>), whose lanes are worktrees
  (\<open>core/worktree-manager.ts\<close>: \<^verbatim>\<open>Worktree\<close>; \<open>core/isolation.ts\<close>: \<^verbatim>\<open>Isolation\<close>). A task is routed by
  role (\<open>core/agent-router.ts\<close>: \<^verbatim>\<open>Agent_Router\<close>, composed with the router in \<^verbatim>\<open>Routing\<close>) with the static score
  table (\<open>core/capability-manifest.ts\<close>: \<^verbatim>\<open>Capability_Manifest\<close>) and the sampled statistics
  (\<open>core/capability-stats.ts\<close>: \<^verbatim>\<open>Capability_Stats\<close>), and is sent by the provider router
  (\<open>providers/router.ts\<close>: \<^verbatim>\<open>Provider_Calls\<close> has one definition per provider call,
  \<^verbatim>\<open>Provider_Router\<close> the health records, error classes and cooldowns, \<^verbatim>\<open>Provider_Completion\<close> the theorems about
  \<open>completion\<close>; \<open>providers/cli-driver.ts\<close>: \<^verbatim>\<open>Cli_Driver\<close>; \<open>core/contextforge-client.ts\<close>: \<^verbatim>\<open>Context_Forge\<close>).
  Keys and tokens come from \<open>core/credentials.ts\<close> and \<open>core/config.ts\<close> (\<^verbatim>\<open>Credentials\<close>), \<open>lib/oauth-pkce.ts\<close> and
  \<open>lib/oauth-token-store.ts\<close> (\<^verbatim>\<open>Token_Store\<close>) and \<open>lib/oauth/gemini.ts\<close> (\<^verbatim>\<open>Gemini_Oauth\<close>), and are redacted by
  \<open>lib/sanitize.ts\<close> (\<^verbatim>\<open>Sanitize\<close>). Answers of critical roles are compared by the mesh (\<open>core/verification-mesh.ts\<close>:
  \<^verbatim>\<open>Verification_Mesh\<close>) behind the gate of \<open>core/jcr-safety-gate.ts\<close> (\<^verbatim>\<open>Jcr_Gate\<close>). Tests run in the sandbox
  (\<open>core/sandbox.ts\<close>: \<^verbatim>\<open>Sandbox\<close>), the worktrees are merged by \<open>core/consolidator.ts\<close> (\<^verbatim>\<open>Consolidator\<close>), and a pull request
  is opened by \<open>providers/github.ts\<close> (\<^verbatim>\<open>Github\<close>; addresses of remotes: \<open>lib/git.ts\<close>, \<^verbatim>\<open>Git_Remote\<close>). Everything is recorded in the
  hash-chained ledger (\<open>core/ledger.ts\<close>: \<^verbatim>\<open>Json\<close> and \<^verbatim>\<open>Ledger\<close>), from which \<open>core/summary.ts\<close>
  (\<^verbatim>\<open>Summary\<close>) writes the report.
  Two readers follow a growing ledger: the desktop server (\<open>packages/desktop/src/server.ts\<close>: \<^verbatim>\<open>Desktop_Server\<close>) and the watcher
  of the terminal dashboard (\<open>packages/tui/lib\<close>: \<^verbatim>\<open>Ledger_Watcher\<close>), with the lines of a file in \<^verbatim>\<open>File_Tail\<close>. What they deliver is shown by the
  desktop client (\<open>packages/desktop/src\<close>: \<^verbatim>\<open>Desktop_Views\<close>) and by the dashboard (\<open>packages/tui\<close>: \<^verbatim>\<open>Dashboard_Views\<close>). The commands
  \<open>replay\<close> (\<^verbatim>\<open>Replay\<close>), \<open>state\<close> and \<open>stats\<close> (\<^verbatim>\<open>Run_State\<close>) read a ledger afterwards.
  The user configures keys with \<open>commands/config.ts\<close> and the directories of \<open>lib/paths.ts\<close> (\<^verbatim>\<open>Config_Command\<close>) or with the wizard of
  \<open>packages/tui/config-wizard.tsx\<close> (\<^verbatim>\<open>Ink_Wizard\<close>), logs in with \<open>commands/auth.ts\<close> (\<^verbatim>\<open>Auth_Command\<close>), and removes the program with
  \<open>commands/uninstall.ts\<close> (\<^verbatim>\<open>Uninstall\<close>). \<open>lib/inngest-client.ts\<close> (\<^verbatim>\<open>Inngest\<close>) runs steps with retries. The reading of the environment, the start of
  processes and of the dashboard, and the default wiring are in \<^verbatim>\<open>App_Setup\<close>.

  \<^bold>\<open>Shared theories.\<close>
  \<^verbatim>\<open>Prelude\<close> has the string methods of JavaScript, the insertion-ordered \<open>Map\<close> as a locale with its
  interpretation on association lists (\<open>dget\<close>, \<open>dset\<close>, \<open>ddelete\<close>), the locale \<open>invariant_machine\<close> in which the invariants of the step
  relations are proved, and \<open>and_then\<close>, the sequencing of calls that may throw. \<^verbatim>\<open>Core_Types\<close> has the unions and tables of
  \<open>core/types.ts\<close>. \<^verbatim>\<open>Js_Number\<close> is binary64 on the rationals (\<open>flt\<close>), used where a result depends on
  rounding, and \<^verbatim>\<open>Js_Double\<close> adds the ends of the range, the infinities and NaN, used for the sampling; \<^verbatim>\<open>Json\<close> has \<open>JSON.stringify\<close> and \<open>JSON.parse\<close> with their round trip, \<^verbatim>\<open>Js_Value\<close> how JavaScript reads a value of unknown shape.

  \<^bold>\<open>What the lemmas show.\<close>
  \<^item> Ledger: every history of calls, failing appends and restarts leaves a file that verifies, as long as the size of the file can be read and no append
    stops in the middle of a line (the two lemmas \<open>stat_failure_breaks\<close> and \<open>wrong_link_breaks\<close> show why); a changed line is detected; the object
    refines the list of its events (locale \<open>invariant_machine\<close>, refinement to the list), and canonical text is injective. With the
    summary: what is logged is what is read back, and the second ledger object of the summary breaks the chain.
  \<^item> Execution: the runs of the subagent manager never start a task before its dependencies have ended, never share a lane, end, and report every task, when the ids of the tasks differ;
    two running tasks of the scheduler have different lanes.
  \<^item> Decomposition: the depth-first search decides cyclicity, so an accepted answer is a DAG; an answer that is the text of tasks is read
    as those tasks.
  \<^item> Routing: which calls a completion makes, the choice of the fallback, what is not retried, and who is credited.
  \<^item> Clients: each request of the indexer settles at most once and gets its own response; no request of a tool server is ever answered; requests to GitHub
    are those of the calls made, go to its API and carry the token that was checked.
  \<^item> Safety: the gate, the budget of the mesh, sandboxed execution without fallthrough, what redaction finds and what it misses, the bounds of a sampled score in binary64, commits only after a passing test.
  \<^item> Views: the graph of the desktop client places tasks without overlap and its edges lead to the right when the dependencies have no cycle; the lists of the
    dashboard show the last state that the events describe; the selection is always a run.
  \<^item> Worktrees: what pruning removes, and which of several adoptions succeed; the steps of adoption are separate, and the race between them is shown.
  \<^item> Commands: what \<open>config\<close> stores is what it loads and nothing that the program reads, a login with Claude reaches no store, \<open>uninstall\<close> removes only
    what belongs to the program, whatever its probes answer, and the environment is rejected exactly for an unknown mode.
  \<^item> Errors: the paths on which the code does something else than its comments say are stated as theorems or lemmas as well; the manifest's findings
    name them.

  \<^bold>\<open>Locales.\<close>
  Each interface is a locale with an interpretation on the model's definitions in the theory of its provider: maps, invariant
  machines, ledgers, lanes, stores. The properties are stated over the definitions and rest on the interpretations.

  \<^bold>\<open>Parameters.\<close>
  What is not in the repository comes in as an argument: \<open>fetch\<close> as a function from requests to replies, processes by how they end, the validator of the environment by its documented answers, files by their content or the
  errors of the calls on them, the clock, random numbers as a stream, SHA-256 as a function of which the theorems need at most
  that it does not collide on the inputs at hand, git by its answers.

  \<^bold>\<open>Bounds and fuel.\<close>
  The parser of JSON has fuel of twice the length of the text plus two, which is enough because every second call is made on a
  shorter text (the round trip is proved with it). The depth-first search has as fuel the number of nodes, an upper bound of the depth of a path without repetition
  (the theorem that it decides cyclicity holds without a bound on the graph). The loop of the Gamma sampler has fuel because its rejections may go on for ever; what is shown of a score holds for every fuel that is enough.
  The polling loop of the scheduler has fuel for the same reason, and the theorem about it says that no fuel is enough. The subagent runs are a step relation with a
  termination proof by a measure. The depths of the graph of tasks have as fuel one more than the number of tasks, which is enough for every graph, cyclic or not (lemma
  \<open>task_depths_total\<close>). The retry loops recurse over their numbers of attempts. Texts are lists of code units below 256.

  \<^bold>\<open>Not modelled.\<close>
  The markup of the terminal and desktop user interfaces, with layout, colours and number formats; the registration of the commands (\<open>cli.ts\<close>);
  \<open>core/orchestration/module.ts\<close>, which has interfaces only; scripts and examples. The daemon of the indexer, the
  isolation engine and the sandbox are Rust programs; the model takes their answers as parameters.
\<close>

end
